(* ===== verification/JavaBase.thy ===== *)
theory JavaBase
  imports Main "HOL-Library.Word" "HOL-Library.Sublist"
begin

text \<open>
  Prelude of the development: what every component takes from the Java language and its
  standard library.
  \<^item> exceptions as values (\<open>exn\<close>), with the distinction the sources rely on between
    \<open>Exception\<close> (caught by \<open>catch (Exception e)\<close>) and \<open>Error\<close> (not caught);
  \<^item> statements as functions from a state to a result and a new state (\<open>jm\<close>): a mutation
    made before a \<open>throw\<close> survives it, as it does in Java;
  \<^item> a weakest-precondition predicate \<open>jwp\<close> with one equation per statement form, collected
    in the named theorems \<open>jwp_simps\<close>;
  \<^item> \<open>String\<close> comparison without case, \<open>long\<close> and \<open>int\<close> wrap-around, \<open>findFirst\<close>;
  \<^item> the outside world: successive readings of the clock, the network and the random generator
    are numbered, so that two readings may differ.
\<close>

named_theorems jwp_simps \<open>weakest preconditions of the statement forms\<close>
named_theorems jrun_simps \<open>evaluation of the statement forms at a state\<close>

subsection \<open>Exceptions\<close>

datatype jclass =
    IOException | RuntimeException | NullPointerException | ClassCastException
  | IllegalArgumentException | IndexOutOfBoundsException | ConcurrentModificationException
  | NoSuchAlgorithmException | CertificateException | CRLException | SignatureException
  | ParseException | IllegalStateException | OCSPException | OperatorCreationException
  | CertPathBuilderException | CertPathValidatorException | GeneralException | NoSuchElementException | StackOverflowError

datatype exn = Exn (exn_class: jclass) (getMessage: "string option")

definition is_exception :: "exn \<Rightarrow> bool" where
  "is_exception e \<longleftrightarrow> exn_class e \<noteq> StackOverflowError"

abbreviation npe :: exn where
  "npe \<equiv> Exn NullPointerException None"

text \<open>\<open>Throwable.toString\<close>: the class name and, when there is one, the message.\<close>

fun class_name :: "jclass \<Rightarrow> string" where
  "class_name IOException = ''java.io.IOException''"
| "class_name RuntimeException = ''java.lang.RuntimeException''"
| "class_name NullPointerException = ''java.lang.NullPointerException''"
| "class_name ClassCastException = ''java.lang.ClassCastException''"
| "class_name IllegalArgumentException = ''java.lang.IllegalArgumentException''"
| "class_name IndexOutOfBoundsException = ''java.lang.IndexOutOfBoundsException''"
| "class_name ConcurrentModificationException = ''java.util.ConcurrentModificationException''"
| "class_name NoSuchAlgorithmException = ''java.security.NoSuchAlgorithmException''"
| "class_name CertificateException = ''java.security.cert.CertificateException''"
| "class_name CRLException = ''java.security.cert.CRLException''"
| "class_name SignatureException = ''java.security.SignatureException''"
| "class_name ParseException = ''java.text.ParseException''"
| "class_name IllegalStateException = ''java.lang.IllegalStateException''"
| "class_name OCSPException = ''org.bouncycastle.cert.ocsp.OCSPException''"
| "class_name OperatorCreationException = ''org.bouncycastle.operator.OperatorCreationException''"
| "class_name CertPathBuilderException = ''java.security.cert.CertPathBuilderException''"
| "class_name CertPathValidatorException = ''java.security.cert.CertPathValidatorException''"
| "class_name GeneralException = ''java.lang.Exception''"
| "class_name NoSuchElementException = ''java.util.NoSuchElementException''"
| "class_name StackOverflowError = ''java.lang.StackOverflowError''"

fun exn_toString :: "exn \<Rightarrow> string" where
  "exn_toString (Exn c None) = class_name c"
| "exn_toString (Exn c (Some m)) = class_name c @ '': '' @ m"

text \<open>\<open>new RuntimeException(cause)\<close>: the message is the cause's text.\<close>

definition wrap_runtime :: "exn \<Rightarrow> exn" where
  "wrap_runtime e = Exn RuntimeException (Some (exn_toString e))"

lemma is_exception_Exn [simp]: "is_exception (Exn c m) \<longleftrightarrow> c \<noteq> StackOverflowError"
  by (simp add: is_exception_def)

subsection \<open>Statements\<close>

type_synonym ('s, 'e, 'a) jm = "'s \<Rightarrow> ('e + 'a) \<times> 's"

definition ret :: "'a \<Rightarrow> ('s, 'e, 'a) jm" where
  "ret x = (\<lambda>s. (Inr x, s))"

definition throw :: "'e \<Rightarrow> ('s, 'e, 'a) jm" where
  "throw e = (\<lambda>s. (Inl e, s))"

definition bnd :: "('s, 'e, 'a) jm \<Rightarrow> ('a \<Rightarrow> ('s, 'e, 'b) jm) \<Rightarrow> ('s, 'e, 'b) jm" where
  "bnd m f = (\<lambda>s. case m s of (Inl e, s') \<Rightarrow> (Inl e, s') | (Inr x, s') \<Rightarrow> f x s')"

definition sq :: "('s, 'e, 'a) jm \<Rightarrow> ('s, 'e, 'b) jm \<Rightarrow> ('s, 'e, 'b) jm" where
  "sq m n = bnd m (\<lambda>_. n)"

definition gets :: "('s \<Rightarrow> 'a) \<Rightarrow> ('s, 'e, 'a) jm" where
  "gets f = (\<lambda>s. (Inr (f s), s))"

definition upd :: "('s \<Rightarrow> 's) \<Rightarrow> ('s, 'e, unit) jm" where
  "upd f = (\<lambda>s. (Inr (), f s))"

definition lift_sum :: "'e + 'a \<Rightarrow> ('s, 'e, 'a) jm" where
  "lift_sum r = (\<lambda>s. (r, s))"

text \<open>\<open>catch (Exception e)\<close>: an \<open>Error\<close> passes through.\<close>

definition try_catch :: "('s, exn, 'a) jm \<Rightarrow> (exn \<Rightarrow> ('s, exn, 'a) jm) \<Rightarrow> ('s, exn, 'a) jm" where
  "try_catch m h = (\<lambda>s. case m s of
      (Inl e, s') \<Rightarrow> (if is_exception e then h e s' else (Inl e, s'))
    | (Inr x, s') \<Rightarrow> (Inr x, s'))"

text \<open>A \<open>try\<close> block whose handler keeps the exception as a value.\<close>

definition attempt :: "('s, exn, 'a) jm \<Rightarrow> ('s, exn, exn + 'a) jm" where
  "attempt m = try_catch (bnd m (\<lambda>x. ret (Inr x))) (\<lambda>e. ret (Inl e))"

text \<open>Dereferencing: a null reference raises a \<open>NullPointerException\<close>.\<close>

definition deref :: "'a option \<Rightarrow> ('s, exn, 'a) jm" where
  "deref v = (case v of None \<Rightarrow> throw npe | Some x \<Rightarrow> ret x)"

primrec for_each :: "('x \<Rightarrow> ('s, 'e, unit) jm) \<Rightarrow> 'x list \<Rightarrow> ('s, 'e, unit) jm" where
  "for_each f [] = ret ()"
| "for_each f (x # xs) = sq (f x) (for_each f xs)"

primrec map_m :: "('x \<Rightarrow> ('s, 'e, 'y) jm) \<Rightarrow> 'x list \<Rightarrow> ('s, 'e, 'y list) jm" where
  "map_m f [] = ret []"
| "map_m f (x # xs) = bnd (f x) (\<lambda>y. bnd (map_m f xs) (\<lambda>ys. ret (y # ys)))"

lemma ret_run [jrun_simps]: "ret x s = (Inr x, s)"
  by (simp add: ret_def)

lemma throw_run [jrun_simps]: "throw e s = (Inl e, s)"
  by (simp add: throw_def)

lemma bnd_run [jrun_simps]:
  "bnd m f s = (case m s of (Inl e, s') \<Rightarrow> (Inl e, s') | (Inr x, s') \<Rightarrow> f x s')"
  by (simp add: bnd_def)

lemma sq_run [jrun_simps]:
  "sq m n s = (case m s of (Inl e, s') \<Rightarrow> (Inl e, s') | (Inr x, s') \<Rightarrow> n s')"
  by (simp add: sq_def bnd_def)

lemma gets_run [jrun_simps]: "gets f s = (Inr (f s), s)"
  by (simp add: gets_def)

lemma upd_run [jrun_simps]: "upd f s = (Inr (), f s)"
  by (simp add: upd_def)

lemma lift_sum_run [jrun_simps]: "lift_sum r s = (r, s)"
  by (simp add: lift_sum_def)

lemma try_catch_run [jrun_simps]:
  "try_catch m h s = (case m s of
      (Inl e, s') \<Rightarrow> (if is_exception e then h e s' else (Inl e, s'))
    | (Inr x, s') \<Rightarrow> (Inr x, s'))"
  by (simp add: try_catch_def)

lemma attempt_run [jrun_simps]:
  "attempt m s = (case m s of
      (Inl e, s') \<Rightarrow> (if is_exception e then (Inr (Inl e), s') else (Inl e, s'))
    | (Inr x, s') \<Rightarrow> (Inr (Inr x), s'))"
  by (simp add: attempt_def try_catch_def bnd_def ret_def split: prod.split sum.split)

lemma deref_run [jrun_simps]:
  "deref v s = (case v of None \<Rightarrow> (Inl npe, s) | Some x \<Rightarrow> (Inr x, s))"
  by (simp add: deref_def ret_def throw_def split: option.split)

subsection \<open>Weakest preconditions\<close>

text \<open>\<open>jwp m Q R s\<close>: run at \<open>s\<close>, \<open>m\<close> either returns with \<open>Q\<close> or throws with \<open>R\<close>.\<close>

definition jwp :: "('s, 'e, 'a) jm \<Rightarrow> ('a \<Rightarrow> 's \<Rightarrow> bool) \<Rightarrow> ('e \<Rightarrow> 's \<Rightarrow> bool) \<Rightarrow> 's \<Rightarrow> bool" where
  "jwp m Q R s = (case m s of (Inl e, s') \<Rightarrow> R e s' | (Inr x, s') \<Rightarrow> Q x s')"

lemma jwp_ret [jwp_simps]: "jwp (ret x) Q R = Q x"
  by (simp add: jwp_def ret_def fun_eq_iff)

lemma jwp_throw [jwp_simps]: "jwp (throw e) Q R = R e"
  by (simp add: jwp_def throw_def fun_eq_iff)

lemma jwp_bnd [jwp_simps]: "jwp (bnd m f) Q R = jwp m (\<lambda>x. jwp (f x) Q R) R"
  by (auto simp: jwp_def bnd_def fun_eq_iff split: prod.split sum.split)

lemma jwp_sq [jwp_simps]: "jwp (sq m n) Q R = jwp m (\<lambda>_. jwp n Q R) R"
  by (simp add: sq_def jwp_bnd)

lemma jwp_gets [jwp_simps]: "jwp (gets f) Q R = (\<lambda>s. Q (f s) s)"
  by (simp add: jwp_def gets_def fun_eq_iff)

lemma jwp_upd [jwp_simps]: "jwp (upd f) Q R = (\<lambda>s. Q () (f s))"
  by (simp add: jwp_def upd_def fun_eq_iff)

lemma jwp_lift_sum [jwp_simps]:
  "jwp (lift_sum r) Q R = (case r of Inl e \<Rightarrow> R e | Inr x \<Rightarrow> Q x)"
  by (cases r) (simp_all add: jwp_def lift_sum_def fun_eq_iff)

lemma jwp_try_catch [jwp_simps]:
  "jwp (try_catch m h) Q R =
     jwp m Q (\<lambda>e s'. if is_exception e then jwp (h e) Q R s' else R e s')"
  by (auto simp: jwp_def try_catch_def fun_eq_iff split: prod.split sum.split)

lemma jwp_attempt [jwp_simps]:
  "jwp (attempt m) Q R =
     jwp m (\<lambda>x. Q (Inr x)) (\<lambda>e s'. if is_exception e then Q (Inl e) s' else R e s')"
  by (simp add: attempt_def jwp_try_catch jwp_bnd jwp_ret)

lemma jwp_deref [jwp_simps]:
  "jwp (deref v) Q R = (case v of None \<Rightarrow> R npe | Some x \<Rightarrow> Q x)"
  by (simp add: deref_def jwp_ret jwp_throw split: option.split)

lemma jwp_if [jwp_simps]:
  "jwp (if b then m else n) Q R = (if b then jwp m Q R else jwp n Q R)"
  by simp

lemma jwp_option [jwp_simps]:
  "jwp (case v of None \<Rightarrow> m | Some x \<Rightarrow> f x) Q R =
     (case v of None \<Rightarrow> jwp m Q R | Some x \<Rightarrow> jwp (f x) Q R)"
  by (simp split: option.split)

lemma jwp_sum [jwp_simps]:
  "jwp (case v of Inl e \<Rightarrow> g e | Inr x \<Rightarrow> f x) Q R =
     (case v of Inl e \<Rightarrow> jwp (g e) Q R | Inr x \<Rightarrow> jwp (f x) Q R)"
  by (simp split: sum.split)

lemma jwp_let [jwp_simps]: "jwp (let x = v in f x) Q R = (let x = v in jwp (f x) Q R)"
  by (simp add: Let_def)

lemma jwp_mono:
  assumes "jwp m Q R s" and "\<And>x s'. Q x s' \<Longrightarrow> Q' x s'" and "\<And>e s'. R e s' \<Longrightarrow> R' e s'"
  shows "jwp m Q' R' s"
  using assms by (auto simp: jwp_def split: prod.splits sum.splits)

lemma jwp_conj:
  "jwp m Q R s \<Longrightarrow> jwp m Q' R' s \<Longrightarrow> jwp m (\<lambda>x s'. Q x s' \<and> Q' x s') (\<lambda>e s'. R e s' \<and> R' e s') s"
  by (auto simp: jwp_def split: prod.splits sum.splits)

lemma jwp_Inr: "jwp m Q R s \<Longrightarrow> m s = (Inr x, s') \<Longrightarrow> Q x s'"
  by (simp add: jwp_def)

lemma jwp_Inl: "jwp m Q R s \<Longrightarrow> m s = (Inl e, s') \<Longrightarrow> R e s'"
  by (simp add: jwp_def)

lemma jwpI:
  assumes "\<And>x s'. m s = (Inr x, s') \<Longrightarrow> Q x s'" and "\<And>e s'. m s = (Inl e, s') \<Longrightarrow> R e s'"
  shows "jwp m Q R s"
  using assms by (auto simp: jwp_def split: prod.splits sum.splits)

text \<open>An invariant of a loop body is an invariant of the loop.\<close>

lemma jwp_for_each_inv:
  assumes "I s"
    and "\<And>x s. x \<in> set xs \<Longrightarrow> I s \<Longrightarrow> jwp (f x) (\<lambda>_. I) (\<lambda>_. I) s"
  shows "jwp (for_each f xs) (\<lambda>_. I) (\<lambda>_. I) s"
  using assms
proof (induction xs arbitrary: s)
  case Nil
  then show ?case by (simp add: jwp_ret)
next
  case (Cons x xs)
  have "jwp (f x) (\<lambda>_. I) (\<lambda>_. I) s" using Cons.prems by simp
  then show ?case
    using Cons.IH Cons.prems(2) by (auto simp: jwp_sq intro: jwp_mono)
qed

text \<open>\<open>keeps I m\<close>: the statement keeps \<open>I\<close>, whether it returns or throws.\<close>

definition keeps :: "('s \<Rightarrow> bool) \<Rightarrow> ('s, 'e, 'a) jm \<Rightarrow> bool" where
  "keeps I m \<longleftrightarrow> (\<forall>s. I s \<longrightarrow> jwp m (\<lambda>_. I) (\<lambda>_. I) s)"

named_theorems keeps_intros \<open>preservation of an invariant by the statement forms\<close>

lemma keepsI: "(\<And>s. I s \<Longrightarrow> jwp m (\<lambda>_. I) (\<lambda>_. I) s) \<Longrightarrow> keeps I m"
  by (simp add: keeps_def)

lemma keepsD: "keeps I m \<Longrightarrow> I s \<Longrightarrow> m s = (r, s') \<Longrightarrow> I s'"
  by (cases r) (auto simp: keeps_def jwp_def)

lemma keeps_ret [keeps_intros]: "keeps I (ret x)"
  by (simp add: keeps_def jwp_simps)

lemma keeps_throw [keeps_intros]: "keeps I (throw e)"
  by (simp add: keeps_def jwp_simps)

lemma keeps_gets [keeps_intros]: "keeps I (gets f)"
  by (simp add: keeps_def jwp_simps)

lemma keeps_lift_sum [keeps_intros]: "keeps I (lift_sum r)"
  by (simp add: keeps_def jwp_lift_sum split: sum.split)

lemma keeps_deref [keeps_intros]: "keeps I (deref v)"
  by (simp add: keeps_def jwp_deref split: option.split)

lemma keeps_upd: "(\<And>s. I s \<Longrightarrow> I (f s)) \<Longrightarrow> keeps I (upd f)"
  by (simp add: keeps_def jwp_simps)

lemma keeps_bnd [keeps_intros]: "keeps I m \<Longrightarrow> (\<And>x. keeps I (f x)) \<Longrightarrow> keeps I (bnd m f)"
  by (auto simp: keeps_def jwp_bnd intro: jwp_mono)

lemma keeps_sq [keeps_intros]: "keeps I m \<Longrightarrow> keeps I n \<Longrightarrow> keeps I (sq m n)"
  by (simp add: sq_def keeps_bnd)

lemma keeps_try_catch [keeps_intros]:
  "keeps I m \<Longrightarrow> (\<And>e. keeps I (h e)) \<Longrightarrow> keeps I (try_catch m h)"
proof (rule keepsI)
  fix s
  assume m: "keeps I m" and h: "\<And>e. keeps I (h e)" and s: "I s"
  from m s have "jwp m (\<lambda>_. I) (\<lambda>_. I) s" by (simp add: keeps_def)
  then have "jwp m (\<lambda>_. I) (\<lambda>e s'. if is_exception e then jwp (h e) (\<lambda>_. I) (\<lambda>_. I) s' else I s') s"
    by (rule jwp_mono) (use h in \<open>simp_all add: keeps_def\<close>)
  then show "jwp (try_catch m h) (\<lambda>_. I) (\<lambda>_. I) s" by (simp add: jwp_try_catch)
qed

lemma keeps_attempt [keeps_intros]: "keeps I m \<Longrightarrow> keeps I (attempt m)"
  by (simp add: attempt_def keeps_try_catch keeps_bnd keeps_ret)

lemma keeps_case_sum [keeps_intros]:
  "(\<And>e. keeps I (g e)) \<Longrightarrow> (\<And>x. keeps I (f x)) \<Longrightarrow> keeps I (case v of Inl e \<Rightarrow> g e | Inr x \<Rightarrow> f x)"
  by (simp split: sum.split)

lemma keeps_let [keeps_intros]: "(\<And>x. keeps I (f x)) \<Longrightarrow> keeps I (let x = v in f x)"
  by (simp add: Let_def)

lemma keeps_if [keeps_intros]: "keeps I m \<Longrightarrow> keeps I n \<Longrightarrow> keeps I (if b then m else n)"
  by simp

lemma keeps_case_option [keeps_intros]:
  "keeps I m \<Longrightarrow> (\<And>x. keeps I (f x)) \<Longrightarrow> keeps I (case v of None \<Rightarrow> m | Some x \<Rightarrow> f x)"
  by (simp split: option.split)

lemma keeps_for_each [keeps_intros]: "(\<And>x. keeps I (f x)) \<Longrightarrow> keeps I (for_each f xs)"
proof (induction xs)
  case Nil
  show ?case by (simp add: keeps_ret)
next
  case (Cons x xs)
  then show ?case by (simp add: keeps_sq)
qed

subsection \<open>Strings\<close>

definition lower_char :: "char \<Rightarrow> char" where
  "lower_char c = (if 65 \<le> (of_char c :: nat) \<and> (of_char c :: nat) \<le> 90
                   then char_of ((of_char c :: nat) + 32) else c)"

definition toLowerCase :: "string \<Rightarrow> string" where
  "toLowerCase s = map lower_char s"

definition equalsIgnoreCase :: "string \<Rightarrow> string \<Rightarrow> bool" where
  "equalsIgnoreCase s t \<longleftrightarrow> toLowerCase s = toLowerCase t"

definition startsWith :: "string \<Rightarrow> string \<Rightarrow> bool" where
  "startsWith s p \<longleftrightarrow> take (length p) s = p"

lemma equalsIgnoreCase_refl [simp]: "equalsIgnoreCase s s"
  by (simp add: equalsIgnoreCase_def)

lemma equalsIgnoreCase_sym: "equalsIgnoreCase s t \<Longrightarrow> equalsIgnoreCase t s"
  by (simp add: equalsIgnoreCase_def)

lemma equalsIgnoreCase_trans:
  "equalsIgnoreCase s t \<Longrightarrow> equalsIgnoreCase t u \<Longrightarrow> equalsIgnoreCase s u"
  by (simp add: equalsIgnoreCase_def)

lemma startsWith_prefix: "startsWith s p \<longleftrightarrow> prefix p s"
proof
  assume "startsWith s p"
  then have "s = p @ drop (length p) s"
    by (metis append_take_drop_id startsWith_def)
  then show "prefix p s" by (rule prefixI)
next
  assume "prefix p s"
  then show "startsWith s p" by (auto simp: prefix_def startsWith_def)
qed

subsection \<open>Fixed-width integers\<close>

text \<open>Java's \<open>int\<close> and \<open>long\<close> arithmetic: the mathematical result, reduced to the width.\<close>

definition jint :: "int \<Rightarrow> int" where
  "jint x = signed_take_bit 31 x"

definition jlong :: "int \<Rightarrow> int" where
  "jlong x = signed_take_bit 63 x"

lemma jlong_id: "- (2 ^ 63) \<le> x \<Longrightarrow> x < 2 ^ 63 \<Longrightarrow> jlong x = x"
  by (simp add: jlong_def signed_take_bit_int_eq_self)

lemma jint_id: "- (2 ^ 31) \<le> x \<Longrightarrow> x < 2 ^ 31 \<Longrightarrow> jint x = x"
  by (simp add: jint_def signed_take_bit_int_eq_self)

subsection \<open>Lists\<close>

lemma find_Some_in: "List.find P xs = Some x \<Longrightarrow> x \<in> set xs \<and> P x"
  by (induction xs) (auto split: if_splits)

lemma find_None_iff_all: "List.find P xs = None \<longleftrightarrow> (\<forall>x \<in> set xs. \<not> P x)"
  by (induction xs) auto

lemma find_ex: "x \<in> set xs \<Longrightarrow> P x \<Longrightarrow> \<exists>y. List.find P xs = Some y"
  by (induction xs) auto

lemma find_filter_find: "List.find P (filter Q xs) = List.find (\<lambda>x. Q x \<and> P x) xs"
  by (induction xs) auto

subsection \<open>The outside world\<close>

text \<open>
  Every reading of the clock, the network, the disk and the random generator is an event with
  its own number: the environment is a function of that number, so repeated readings need not
  agree. \<open>world\<close> is extended by the state of the components.
\<close>

record world =
  tick :: nat

definition next_tick :: "('a world_scheme, 'e, nat) jm" where
  "next_tick = (\<lambda>s. (Inr (tick s), s\<lparr>tick := Suc (tick s)\<rparr>))"

definition read_env :: "(nat \<Rightarrow> 'x) \<Rightarrow> ('a world_scheme, 'e, 'x) jm" where
  "read_env f = bnd next_tick (\<lambda>n. ret (f n))"

definition call_env :: "(nat \<Rightarrow> 'e + 'x) \<Rightarrow> ('a world_scheme, 'e, 'x) jm" where
  "call_env f = bnd next_tick (\<lambda>n. lift_sum (f n))"

lemma next_tick_run [jrun_simps]: "next_tick s = (Inr (tick s), s\<lparr>tick := Suc (tick s)\<rparr>)"
  by (simp add: next_tick_def)

lemma read_env_run [jrun_simps]: "read_env f s = (Inr (f (tick s)), s\<lparr>tick := Suc (tick s)\<rparr>)"
  by (simp add: read_env_def jrun_simps)

lemma call_env_run [jrun_simps]: "call_env f s = (f (tick s), s\<lparr>tick := Suc (tick s)\<rparr>)"
  by (simp add: call_env_def jrun_simps)

lemma jwp_read_env [jwp_simps]:
  "jwp (read_env f) Q R = (\<lambda>s. Q (f (tick s)) (s\<lparr>tick := Suc (tick s)\<rparr>))"
  by (simp add: jwp_def read_env_run fun_eq_iff)

lemma jwp_call_env [jwp_simps]:
  "jwp (call_env f) Q R =
     (\<lambda>s. case f (tick s) of
        Inl e \<Rightarrow> R e (s\<lparr>tick := Suc (tick s)\<rparr>)
      | Inr x \<Rightarrow> Q x (s\<lparr>tick := Suc (tick s)\<rparr>))"
  by (auto simp: jwp_def call_env_run fun_eq_iff split: sum.split)

lemma keeps_read_env:
  "(\<And>s. I s \<Longrightarrow> I (s\<lparr>tick := Suc (tick s)\<rparr>)) \<Longrightarrow> keeps I (read_env f)"
  by (simp add: keeps_def jwp_simps)

lemma keeps_call_env:
  "(\<And>s. I s \<Longrightarrow> I (s\<lparr>tick := Suc (tick s)\<rparr>)) \<Longrightarrow> keeps I (call_env f)"
  by (simp add: keeps_def jwp_simps split: sum.split)

end
