(* ===== verification/CertModel.thy ===== *)
theory CertModel
  imports JavaBase
begin

text \<open>
  Certificates and the certificate utilities: the parts of \<open>java.security.cert.X509Certificate\<close>
  that the sources read, the class \<open>CertUtils\<close>
  (\<open>cert-validation/.../cert/utils/CertUtils.java\<close>) and the class \<open>ValidationStatus\<close>
  (\<open>.../cert/validity/ValidationStatus.java\<close>). ASN.1 parsing and signature verification are
  done by a third-party provider: they are the fields of the environment record \<open>x509_env\<close>,
  an argument of every definition that uses them.
\<close>

type_synonym byte = "8 word"
type_synonym bytes = "byte list"
type_synonym date = int

datatype pubkey = RSAPublicKey nat | ECPublicKey nat | OtherPublicKey nat

text \<open>
  Two certificates are equal when their encodings are; all the other fields are decoded from the
  encoding, so equality of the record is equality of certificates.
\<close>

record cert =
  encoded :: bytes
  serialNumber :: int
  subjectDN :: string
  issuerDN :: string
  notBefore :: date
  notAfter :: date
  basicConstraints :: int
  keyUsage :: "bool list option"
  extKeyUsage :: "string list option"
  publicKey :: pubkey
  extensionValues :: "(string \<times> bytes) list"

datatype asn1 = ASN1OctetString bytes | ASN1Other nat

record general_name =
  tagNo :: int
  gname :: string

record access_description =
  accessMethod :: string
  accessLocation :: general_name

datatype dp_name = FullName "general_name list" | NameRelativeToCRLIssuer

record distribution_point =
  dpName :: "dp_name option"
  crlIssuer :: "general_name list option"
  reasons :: "bool list option"

record x509_env =
  readObject :: "bytes \<Rightarrow> exn + asn1 option"
  parseAIA :: "asn1 \<Rightarrow> exn + access_description list"
  parseCRLDistPoint :: "asn1 \<Rightarrow> exn + distribution_point list"
  certVerify :: "cert \<Rightarrow> pubkey \<Rightarrow> exn option"

definition uniformResourceIdentifier :: int where
  "uniformResourceIdentifier = 6"

abbreviation oid_authorityInfoAccess :: string where
  "oid_authorityInfoAccess \<equiv> ''1.3.6.1.5.5.7.1.1''"

abbreviation oid_cRLDistributionPoints :: string where
  "oid_cRLDistributionPoints \<equiv> ''2.5.29.31''"

abbreviation oid_ocsp_nocheck :: string where
  "oid_ocsp_nocheck \<equiv> ''1.3.6.1.5.5.7.48.1.5''"

abbreviation oid_ocspAccessMethod :: string where
  "oid_ocspAccessMethod \<equiv> ''1.3.6.1.5.5.7.48.1''"

abbreviation oid_kp_OCSPSigning :: string where
  "oid_kp_OCSPSigning \<equiv> ''1.3.6.1.5.5.7.3.9''"

subsection \<open>CertUtils\<close>

definition getExtensionValue :: "'x x509_env_scheme \<Rightarrow> cert \<Rightarrow> string \<Rightarrow> exn + asn1 option" where
  "getExtensionValue X c oid =
     (case map_of (extensionValues c) oid of
        None \<Rightarrow> Inr None
      | Some bs \<Rightarrow>
          (case readObject X bs of
             Inl e \<Rightarrow> Inl e
           | Inr None \<Rightarrow> Inl npe
           | Inr (Some (ASN1OctetString octs)) \<Rightarrow> readObject X octs
           | Inr (Some (ASN1Other _)) \<Rightarrow> Inl (Exn ClassCastException None)))"

definition getOCSPUrl :: "'x x509_env_scheme \<Rightarrow> cert \<Rightarrow> exn + string option" where
  "getOCSPUrl X c =
     (case getExtensionValue X c oid_authorityInfoAccess of
        Inl e \<Rightarrow> (if exn_class e = IOException then Inr None else Inl e)
      | Inr None \<Rightarrow> Inr None
      | Inr (Some obj) \<Rightarrow>
          (case parseAIA X obj of
             Inl e \<Rightarrow> Inl e
           | Inr ads \<Rightarrow>
               Inr (map_option (\<lambda>ad. gname (accessLocation ad))
                 (List.find (\<lambda>ad. accessMethod ad = oid_ocspAccessMethod
                                \<and> tagNo (accessLocation ad) = uniformResourceIdentifier) ads))))"

definition getCrlDistPoint :: "'x x509_env_scheme \<Rightarrow> cert \<Rightarrow> exn + distribution_point list option" where
  "getCrlDistPoint X c =
     (case getExtensionValue X c oid_cRLDistributionPoints of
        Inl e \<Rightarrow> (if exn_class e = IOException then Inr None else Inl e)
      | Inr None \<Rightarrow> Inr None
      | Inr (Some obj) \<Rightarrow>
          (case parseCRLDistPoint X obj of Inl e \<Rightarrow> Inl e | Inr dps \<Rightarrow> Inr (Some dps)))"

definition isOCSPNocheckExt :: "'x x509_env_scheme \<Rightarrow> cert \<Rightarrow> exn + bool" where
  "isOCSPNocheckExt X c =
     (case getExtensionValue X c oid_ocsp_nocheck of
        Inl e \<Rightarrow> (if exn_class e = IOException then Inr False else Inl e)
      | Inr v \<Rightarrow> Inr (v \<noteq> None))"

definition isCurrentlyValid :: "cert \<Rightarrow> date \<Rightarrow> bool" where
  "isCurrentlyValid c validationTime =
     (let notYetValid = validationTime < notBefore c;
          expired = validationTime > notAfter c
      in \<not> notYetValid \<and> \<not> expired)"

fun getCertificateList :: "(exn + cert) list option \<Rightarrow> exn + cert list" where
  "getCertificateList None = Inr []"
| "getCertificateList (Some []) = Inr []"
| "getCertificateList (Some (Inl e # hs)) = Inl e"
| "getCertificateList (Some (Inr c # hs)) =
     (case getCertificateList (Some hs) of Inl e \<Rightarrow> Inl e | Inr cs \<Rightarrow> Inr (c # cs))"

text \<open>A PKIX builder result: the certification path (target first) and the trust anchor.\<close>

record pkix_result =
  certPath :: "cert list"
  trustAnchor :: cert

definition getResultPath :: "pkix_result \<Rightarrow> cert list" where
  "getResultPath r = certPath r @ [trustAnchor r]"

subsection \<open>ValidationStatus\<close>

datatype CertificateValidity = VALID | INVALID | REVOKED | UNKNOWN

datatype ValidatorSourceType = OCSP | CRL | SELF_SIGNED

record validation_status =
  vs_certificate :: "cert option"
  vs_issuer :: "cert option"
  vs_validity :: CertificateValidity
  vs_sourceLocation :: "string option"
  vs_sourceType :: "ValidatorSourceType option"
  vs_revocationObjectIssuingTime :: "date option"
  vs_revocationTime :: "date option"
  vs_validationTime :: "date option"
  vs_statusSigner :: "cert option"
  vs_statusSignerChain :: "cert list option"
  vs_statusSignatureValid :: bool
  vs_reason :: int
  vs_exception :: "exn option"

text \<open>\<open>ValidationStatus.builder()\<close> with the validity already chosen: every other field has its default.\<close>

definition status_builder :: "CertificateValidity \<Rightarrow> validation_status" where
  "status_builder v =
     \<lparr>vs_certificate = None, vs_issuer = None, vs_validity = v, vs_sourceLocation = None,
      vs_sourceType = None, vs_revocationObjectIssuingTime = None, vs_revocationTime = None,
      vs_validationTime = None, vs_statusSigner = None, vs_statusSignerChain = None,
      vs_statusSignatureValid = False, vs_reason = 0, vs_exception = None\<rparr>"

lemma status_builder_sel [simp]:
  "vs_certificate (status_builder v) = None" "vs_issuer (status_builder v) = None"
  "vs_validity (status_builder v) = v" "vs_sourceType (status_builder v) = None"
  "vs_statusSigner (status_builder v) = None" "vs_statusSignerChain (status_builder v) = None"
  "vs_statusSignatureValid (status_builder v) = False" "vs_exception (status_builder v) = None"
  "vs_reason (status_builder v) = 0" "vs_revocationTime (status_builder v) = None"
  by (simp_all add: status_builder_def)

subsection \<open>Facts about the utilities\<close>

lemma isCurrentlyValid_iff: "isCurrentlyValid c t \<longleftrightarrow> notBefore c \<le> t \<and> t \<le> notAfter c"
  by (auto simp: isCurrentlyValid_def Let_def)

lemma getCertificateList_Inr:
  "getCertificateList (Some hs) = Inr cs \<longleftrightarrow> hs = map Inr cs"
proof (induction hs arbitrary: cs)
  case Nil
  then show ?case by auto
next
  case (Cons h hs)
  then show ?case by (cases h) (auto split: sum.splits, blast)
qed

lemma getOCSPUrl_Some:
  assumes "getOCSPUrl X c = Inr (Some u)"
  shows "\<exists>obj ads ad. getExtensionValue X c oid_authorityInfoAccess = Inr (Some obj)
           \<and> parseAIA X obj = Inr ads \<and> ad \<in> set ads \<and> accessMethod ad = oid_ocspAccessMethod
           \<and> tagNo (accessLocation ad) = uniformResourceIdentifier \<and> gname (accessLocation ad) = u"
  using assms
  by (auto simp: getOCSPUrl_def split: sum.splits option.splits if_splits dest!: find_Some_in)

lemma length_getResultPath [simp]: "length (getResultPath r) = Suc (length (certPath r))"
  by (simp add: getResultPath_def)

lemma last_getResultPath [simp]: "last (getResultPath r) = trustAnchor r"
  by (simp add: getResultPath_def)

end
