(* ===== verification/Algorithms.thy ===== *)
theory Algorithms
  imports CertModel
begin

text \<open>
  The algorithm registries of \<open>sigval-commons/.../algorithms\<close> and the public key parameters of
  \<open>GeneralCMSUtils.getPkParams\<close>. A registry is a hash map from an identifier to an algorithm; it is
  an association list here, and the order in which \<open>keySet()\<close> is traversed is an argument. The
  values of the identifiers are constants of the XML security library and of the ASN.1 provider:
  they are fields of \<open>alg_ids\<close>, and what is used of them is that they are distinct.
\<close>

datatype md = MD_SHA1 | MD_SHA224 | MD_SHA256 | MD_SHA384 | MD_SHA512
  | MD_SHA3_224 | MD_SHA3_256 | MD_SHA3_384 | MD_SHA3_512

datatype jws_alg = RS256 | RS384 | RS512 | ES256 | ES384 | ES512 | OtherJWS string

record alg_ids =
  mdUri :: "md \<Rightarrow> string"
  mdOid :: "md \<Rightarrow> string"
  sigUri :: "jws_alg \<Rightarrow> string"
  curveOid :: "string \<Rightarrow> string"

subsection \<open>Digest algorithms\<close>

record DigestAlgorithm =
  uri :: string
  oid :: string

definition ID_SHA384 :: "'x alg_ids_scheme \<Rightarrow> string" where
  "ID_SHA384 K = mdUri K MD_SHA3_384"

text \<open>The constants of \<open>DigestAlgorithm\<close>, by the algorithm they are meant for.\<close>

fun digest_id :: "'x alg_ids_scheme \<Rightarrow> md \<Rightarrow> string" where
  "digest_id K MD_SHA384 = ID_SHA384 K"
| "digest_id K d = mdUri K d"

definition digest_oid :: "'x alg_ids_scheme \<Rightarrow> md \<Rightarrow> string" where
  "digest_oid K d = mdOid K d"

type_synonym digest_map = "(string \<times> DigestAlgorithm) list"

definition registerDigestAlgorithm :: "string \<Rightarrow> string \<Rightarrow> digest_map \<Rightarrow> bool \<times> digest_map" where
  "registerDigestAlgorithm u d m =
     (if map_of m u \<noteq> None then (False, m) else (True, m @ [(u, \<lparr>uri = u, oid = d\<rparr>)]))"

definition default_digests :: "md list" where
  "default_digests = [MD_SHA1, MD_SHA224, MD_SHA256, MD_SHA384, MD_SHA512, MD_SHA3_224, MD_SHA3_256, MD_SHA3_384, MD_SHA3_512]"

definition digestAlgorithmMap :: "'x alg_ids_scheme \<Rightarrow> digest_map" where
  "digestAlgorithmMap K = fold (\<lambda>d m. snd (registerDigestAlgorithm (digest_id K d) (digest_oid K d) m)) default_digests []"

definition digest_get :: "digest_map \<Rightarrow> string option \<Rightarrow> exn + DigestAlgorithm" where
  "digest_get m u =
     (case u of
        None \<Rightarrow> Inl (Exn NoSuchAlgorithmException (Some ''Null digest algorithm''))
      | Some u \<Rightarrow>
          (case map_of m u of
             Some a \<Rightarrow> Inr a
           | None \<Rightarrow> Inl (Exn NoSuchAlgorithmException (Some (''Digest algorithm '' @ u @ '' is not registered'')))))"

text \<open>The look-up by OID traverses the key set and dereferences what the map holds for each key.\<close>

definition values_in_order :: "('k list \<Rightarrow> 'k list) \<Rightarrow> ('k \<times> 'v) list \<Rightarrow> 'v list" where
  "values_in_order order m = List.map_filter (map_of m) (order (map fst m))"

definition digest_get_oid :: "(string list \<Rightarrow> string list) \<Rightarrow> digest_map \<Rightarrow> string option \<Rightarrow> exn + DigestAlgorithm" where
  "digest_get_oid order m d =
     (case d of
        None \<Rightarrow> Inl (Exn NoSuchAlgorithmException (Some ''Null digest algorithm''))
      | Some d \<Rightarrow>
          (case List.find (\<lambda>a. oid a = d) (values_in_order order m) of
             Some a \<Rightarrow> Inr a
           | None \<Rightarrow> Inl (Exn NoSuchAlgorithmException (Some (''Digest algorithm '' @ d @ '' is not registered'')))))"

subsection \<open>JWS algorithms\<close>

type_synonym jws_map = "(string \<times> jws_alg) list"

definition jws_register :: "string \<Rightarrow> jws_alg \<Rightarrow> jws_map \<Rightarrow> bool \<times> jws_map" where
  "jws_register u a m = (if map_of m u \<noteq> None then (False, m) else (True, m @ [(u, a)]))"

definition jws_defaults :: "jws_alg list" where
  "jws_defaults = [RS256, RS384, RS512, ES256, ES384, ES512]"

definition jwsAlgorithmMap :: "'x alg_ids_scheme \<Rightarrow> jws_map" where
  "jwsAlgorithmMap K = fold (\<lambda>a m. snd (jws_register (sigUri K a) a m)) jws_defaults []"

definition jws_getUri :: "(string list \<Rightarrow> string list) \<Rightarrow> jws_map \<Rightarrow> jws_alg option \<Rightarrow> exn + string" where
  "jws_getUri order m a =
     (case a of
        None \<Rightarrow> Inl (Exn NoSuchAlgorithmException (Some ''Null algorithm''))
      | Some a \<Rightarrow>
          (case List.find (\<lambda>k. map_of m k = Some a) (order (map fst m)) of
             Some k \<Rightarrow> Inr k
           | None \<Rightarrow> Inl (Exn NoSuchAlgorithmException None)))"

definition jws_get :: "jws_map \<Rightarrow> string option \<Rightarrow> exn + jws_alg" where
  "jws_get m u =
     (case u of
        None \<Rightarrow> Inl (Exn NoSuchAlgorithmException (Some ''Null algorithm''))
      | Some u \<Rightarrow>
          (case map_of m u of
             Some a \<Rightarrow> Inr a
           | None \<Rightarrow> Inl (Exn NoSuchAlgorithmException (Some (''Not found JWS Algorithm for '' @ u)))))"

subsection \<open>Named curves\<close>

record NamedCurve =
  curve_oid :: string
  keyLen :: int

definition default_curves :: "(string \<times> int) list" where
  "default_curves = [(''NIST_P_192'', 192), (''NIST_P_224'', 224), (''NIST_P_256'', 256), (''NIST_P_384'', 384),
     (''NIST_P_521'', 521), (''brainpoolP160r1'', 160), (''brainpoolP192r1'', 192), (''brainpoolP224r1'', 224),
     (''brainpoolP256r1'', 256), (''brainpoolP320r1'', 320), (''brainpoolP384r1'', 384), (''brainpoolP512r1'', 512)]"

type_synonym curve_map = "(string \<times> NamedCurve) list"

definition registerCurve :: "string \<Rightarrow> int \<Rightarrow> curve_map \<Rightarrow> bool \<times> curve_map" where
  "registerCurve d n m = (if map_of m d \<noteq> None then (False, m) else (True, m @ [(d, \<lparr>curve_oid = d, keyLen = n\<rparr>)]))"

definition namedCurveMap :: "'x alg_ids_scheme \<Rightarrow> curve_map" where
  "namedCurveMap K = fold (\<lambda>(c, n) m. snd (registerCurve (curveOid K c) n m)) default_curves []"

definition curve_get :: "(string list \<Rightarrow> string list) \<Rightarrow> curve_map \<Rightarrow> string option \<Rightarrow> exn + NamedCurve" where
  "curve_get order m d =
     (case d of
        None \<Rightarrow> Inl (Exn NoSuchAlgorithmException (Some ''Null curve oid''))
      | Some d \<Rightarrow>
          (case List.find (\<lambda>c. curve_oid c = d) (values_in_order order m) of
             Some c \<Rightarrow> Inr c
           | None \<Rightarrow> Inl (Exn NoSuchAlgorithmException (Some (''EC Curve with oid '' @ d @ '' is not registered'')))))"

subsection \<open>Public key types and parameters\<close>

datatype PublicKeyType = EC | RSA | UnknownKey

fun getObjectId :: "PublicKeyType \<Rightarrow> string option" where
  "getObjectId EC = Some ''1.2.840.10045.2.1''"
| "getObjectId RSA = Some ''1.2.840.113549.1.1.1''"
| "getObjectId UnknownKey = None"

fun type_loop :: "PublicKeyType list \<Rightarrow> string \<Rightarrow> exn + PublicKeyType" where
  "type_loop [] d = Inr UnknownKey"
| "type_loop (t # ts) d =
     (case getObjectId t of
        None \<Rightarrow> Inl npe
      | Some o1 \<Rightarrow> if equalsIgnoreCase o1 d then Inr t else type_loop ts d)"

definition getTypeFromOid :: "string \<Rightarrow> exn + PublicKeyType" where
  "getTypeFromOid d = type_loop [EC, RSA, UnknownKey] d"

record PubKeyParams =
  pkType :: PublicKeyType
  namedEcCurve :: "NamedCurve option"
  keyLength :: int

text \<open>
  The parts of an encoded key that are read: the algorithm OID and, for an EC key, the parameters as an
  OID. \<open>modulusBitLength\<close> is defined on RSA keys only.
\<close>

record key_env =
  keyAlgorithm :: "pubkey \<Rightarrow> exn + string"
  keyParameters :: "pubkey \<Rightarrow> exn + string option"
  modulusBitLength :: "pubkey \<Rightarrow> int"

definition key_params ::
  "'x key_env_scheme \<Rightarrow> (string list \<Rightarrow> string list) \<Rightarrow> curve_map \<Rightarrow> pubkey \<Rightarrow> exn + PubKeyParams option" where
  "key_params E order curves k =
     (case keyAlgorithm E k of
        Inl e \<Rightarrow> Inl e
      | Inr d \<Rightarrow>
          (case getTypeFromOid d of
             Inl e \<Rightarrow> Inl e
           | Inr EC \<Rightarrow>
               (case keyParameters E k of
                  Inl e \<Rightarrow> Inl e
                | Inr c \<Rightarrow>
                    (case curve_get order curves c of
                       Inl e \<Rightarrow> Inl e
                     | Inr curve \<Rightarrow> Inr (Some \<lparr>pkType = EC, namedEcCurve = Some curve, keyLength = keyLen curve\<rparr>)))
           | Inr RSA \<Rightarrow>
               (case k of
                  RSAPublicKey _ \<Rightarrow> Inr (Some \<lparr>pkType = RSA, namedEcCurve = None, keyLength = modulusBitLength E k\<rparr>)
                | _ \<Rightarrow> Inl (Exn ClassCastException None))
           | Inr UnknownKey \<Rightarrow> Inr None))"

definition getPkParams ::
  "'x key_env_scheme \<Rightarrow> (string list \<Rightarrow> string list) \<Rightarrow> curve_map \<Rightarrow> pubkey \<Rightarrow> exn + PubKeyParams option" where
  "getPkParams E order curves k =
     (case key_params E order curves k of
        Inr p \<Rightarrow> Inr p
      | Inl e \<Rightarrow> if is_exception e then Inr None else Inl e)"

subsection \<open>Registries as maps\<close>

text \<open>What a registration does, for all three registries: it adds at the end and never overwrites.\<close>

lemma registerDigestAlgorithm_map:
  "map_of (snd (registerDigestAlgorithm u d m)) = (if map_of m u = None then (map_of m)(u \<mapsto> \<lparr>uri = u, oid = d\<rparr>) else map_of m)"
  by (auto simp: registerDigestAlgorithm_def map_add_def fun_eq_iff split: option.splits)

lemma map_filter_mem: "y \<in> set (List.map_filter f xs) \<longleftrightarrow> (\<exists>x \<in> set xs. f x = Some y)"
  by (induction xs) (auto simp: map_filter_simps split: option.splits)

lemma values_in_order_set:
  assumes "set (order (map fst m)) = fst ` set m"
  shows "set (values_in_order order m) = {v. \<exists>k. map_of m k = Some v}"
proof -
  have "v \<in> set (values_in_order order m) \<longleftrightarrow> (\<exists>k \<in> fst ` set m. map_of m k = Some v)" for v
    using assms by (auto simp: values_in_order_def map_filter_mem)
  moreover have "map_of m k = Some v \<Longrightarrow> k \<in> fst ` set m" for k v
    by (metis map_of_SomeD image_eqI fst_conv)
  ultimately show ?thesis by blast
qed

lemma find_unique:
  assumes "x \<in> set xs" "P x" "\<And>y. y \<in> set xs \<Longrightarrow> P y \<Longrightarrow> y = x"
  shows "List.find P xs = Some x"
  using assms find_ex[of x xs P] find_Some_in by metis

lemma map_of_inj_pairs: "inj f \<Longrightarrow> map_of (map (\<lambda>a. (f a, a)) xs) u = Some a \<longleftrightarrow> a \<in> set xs \<and> u = f a"
  by (induction xs) (auto simp: inj_eq)

text \<open>The contents of the default digest registry, one entry for each default algorithm but SHA3-384.\<close>

definition entry :: "'x alg_ids_scheme \<Rightarrow> md \<Rightarrow> string \<times> DigestAlgorithm" where
  "entry K d = (digest_id K d, \<lparr>uri = digest_id K d, oid = mdOid K d\<rparr>)"

definition registered :: "md list" where
  "registered = [MD_SHA1, MD_SHA224, MD_SHA256, MD_SHA384, MD_SHA512, MD_SHA3_224, MD_SHA3_256, MD_SHA3_512]"

lemma digestAlgorithmMap_eq:
  assumes "inj (mdUri K)"
  shows "digestAlgorithmMap K = map (entry K) registered"
proof -
  have ne: "mdUri K a = mdUri K b \<longleftrightarrow> a = b" for a b using assms by (simp add: inj_eq)
  show ?thesis
    by (simp add: digestAlgorithmMap_def default_digests_def registerDigestAlgorithm_def entry_def digest_oid_def ID_SHA384_def registered_def ne)
qed

text \<open>
  The digest registry as it is initialised answers a URI and an OID consistently: what is
  found by URI has that URI, and is found again by its OID, whatever the iteration order of the
  hash map. But the constant for the URI of SHA-384 is the URI of SHA3-384: SHA-384 cannot be found
  by its URI, SHA3-384 cannot be found by its OID, and the URI of SHA3-384 leads to the
  algorithm SHA-384.
\<close>

theorem digest_registry:
  assumes inj: "inj (mdUri K)" "inj (mdOid K)" and order: "\<And>ks. set (order ks) = set ks"
  shows "(\<forall>u a. digest_get (digestAlgorithmMap K) (Some u) = Inr a \<longrightarrow>
            uri a = u \<and> digest_get_oid order (digestAlgorithmMap K) (Some (oid a)) = Inr a)
    \<and> (\<forall>d. d \<noteq> MD_SHA384 \<and> d \<noteq> MD_SHA3_384 \<longrightarrow>
          digest_get (digestAlgorithmMap K) (Some (mdUri K d)) = Inr \<lparr>uri = mdUri K d, oid = mdOid K d\<rparr>)
    \<and> (\<exists>e. digest_get (digestAlgorithmMap K) (Some (mdUri K MD_SHA384)) = Inl e)
    \<and> (\<exists>e. digest_get_oid order (digestAlgorithmMap K) (Some (mdOid K MD_SHA3_384)) = Inl e)
    \<and> digest_get (digestAlgorithmMap K) (Some (mdUri K MD_SHA3_384)) = Inr \<lparr>uri = mdUri K MD_SHA3_384, oid = mdOid K MD_SHA384\<rparr>"
proof -
  note M = digestAlgorithmMap_eq[OF inj(1)]
  have ne: "mdUri K a = mdUri K b \<longleftrightarrow> a = b" "mdOid K a = mdOid K b \<longleftrightarrow> a = b" for a b using inj by (simp_all add: inj_eq)
  have vals: "set (values_in_order order (digestAlgorithmMap K)) = {v. \<exists>k. map_of (digestAlgorithmMap K) k = Some v}"
    by (rule values_in_order_set) (simp add: order)
  have ent: "\<exists>d \<in> set registered. u = digest_id K d \<and> a = \<lparr>uri = u, oid = mdOid K d\<rparr>"
    if "map_of (digestAlgorithmMap K) u = Some a" for u a
    using map_of_SomeD[OF that] by (auto simp: M entry_def)
  have uniq: "a = b" if "map_of (digestAlgorithmMap K) u = Some a" "map_of (digestAlgorithmMap K) v = Some b" "oid a = oid b" for u v a b
    using ent[OF that(1)] ent[OF that(2)] that(3) by (auto simp: ne)
  have 1: "uri a = u \<and> digest_get_oid order (digestAlgorithmMap K) (Some (oid a)) = Inr a"
    if "digest_get (digestAlgorithmMap K) (Some u) = Inr a" for u a
  proof -
    from that have a: "map_of (digestAlgorithmMap K) u = Some a" by (simp add: digest_get_def split: option.splits)
    have "List.find (\<lambda>x. oid x = oid a) (values_in_order order (digestAlgorithmMap K)) = Some a"
      by (rule find_unique) (use a vals uniq in auto)
    with ent[OF a] show ?thesis by (auto simp: digest_get_oid_def)
  qed
  have 2: "digest_get (digestAlgorithmMap K) (Some (mdUri K d)) = Inr \<lparr>uri = mdUri K d, oid = mdOid K d\<rparr>"
    if "d \<noteq> MD_SHA384 \<and> d \<noteq> MD_SHA3_384" for d
    using that by (cases d) (simp_all add: digest_get_def M registered_def entry_def ID_SHA384_def ne)
  have 3: "\<exists>e. digest_get_oid order (digestAlgorithmMap K) (Some (mdOid K MD_SHA3_384)) = Inl e"
  proof -
    have "List.find (\<lambda>x. oid x = mdOid K MD_SHA3_384) (values_in_order order (digestAlgorithmMap K)) = None"
      unfolding find_None_iff_all vals using ent by (fastforce simp: ne registered_def)
    then show ?thesis by (simp add: digest_get_oid_def)
  qed
  show ?thesis
    using 1 2 3 by (auto simp: digest_get_def M registered_def entry_def ID_SHA384_def ne)
qed

text \<open>The identifiers as the libraries define them.\<close>

fun real_mdUri :: "md \<Rightarrow> string" where
  "real_mdUri MD_SHA1 = ''http://www.w3.org/2000/09/xmldsig#sha1''"
| "real_mdUri MD_SHA224 = ''http://www.w3.org/2001/04/xmldsig-more#sha224''"
| "real_mdUri MD_SHA256 = ''http://www.w3.org/2001/04/xmlenc#sha256''"
| "real_mdUri MD_SHA384 = ''http://www.w3.org/2001/04/xmldsig-more#sha384''"
| "real_mdUri MD_SHA512 = ''http://www.w3.org/2001/04/xmlenc#sha512''"
| "real_mdUri MD_SHA3_224 = ''http://www.w3.org/2007/05/xmldsig-more#sha3-224''"
| "real_mdUri MD_SHA3_256 = ''http://www.w3.org/2007/05/xmldsig-more#sha3-256''"
| "real_mdUri MD_SHA3_384 = ''http://www.w3.org/2007/05/xmldsig-more#sha3-384''"
| "real_mdUri MD_SHA3_512 = ''http://www.w3.org/2007/05/xmldsig-more#sha3-512''"

fun real_mdOid :: "md \<Rightarrow> string" where
  "real_mdOid MD_SHA1 = ''1.3.14.3.2.26''"
| "real_mdOid MD_SHA256 = ''2.16.840.1.101.3.4.2.1''"
| "real_mdOid MD_SHA384 = ''2.16.840.1.101.3.4.2.2''"
| "real_mdOid MD_SHA512 = ''2.16.840.1.101.3.4.2.3''"
| "real_mdOid MD_SHA224 = ''2.16.840.1.101.3.4.2.4''"
| "real_mdOid MD_SHA3_224 = ''2.16.840.1.101.3.4.2.7''"
| "real_mdOid MD_SHA3_256 = ''2.16.840.1.101.3.4.2.8''"
| "real_mdOid MD_SHA3_384 = ''2.16.840.1.101.3.4.2.9''"
| "real_mdOid MD_SHA3_512 = ''2.16.840.1.101.3.4.2.10''"

fun real_sigUri :: "jws_alg \<Rightarrow> string" where
  "real_sigUri RS256 = ''http://www.w3.org/2001/04/xmldsig-more#rsa-sha256''"
| "real_sigUri RS384 = ''http://www.w3.org/2001/04/xmldsig-more#rsa-sha384''"
| "real_sigUri RS512 = ''http://www.w3.org/2001/04/xmldsig-more#rsa-sha512''"
| "real_sigUri ES256 = ''http://www.w3.org/2001/04/xmldsig-more#ecdsa-sha256''"
| "real_sigUri ES384 = ''http://www.w3.org/2001/04/xmldsig-more#ecdsa-sha384''"
| "real_sigUri ES512 = ''http://www.w3.org/2001/04/xmldsig-more#ecdsa-sha512''"
| "real_sigUri (OtherJWS s) = ''urn:'' @ s"

definition real_ids :: alg_ids where
  "real_ids = \<lparr>mdUri = real_mdUri, mdOid = real_mdOid, sigUri = real_sigUri, curveOid = (\<lambda>c. c)\<rparr>"

lemma real_mdUri_inj: "inj real_mdUri"
  by (rule injI, rename_tac x y, case_tac x; case_tac y) simp_all

lemma real_mdOid_inj: "inj real_mdOid"
  by (rule injI, rename_tac x y, case_tac x; case_tac y) simp_all

theorem digest_registry_witness:
  "digest_get (digestAlgorithmMap real_ids) (Some ''http://www.w3.org/2007/05/xmldsig-more#sha3-384'')
     = Inr \<lparr>uri = ''http://www.w3.org/2007/05/xmldsig-more#sha3-384'', oid = ''2.16.840.1.101.3.4.2.2''\<rparr>
   \<and> (\<exists>e. digest_get (digestAlgorithmMap real_ids) (Some ''http://www.w3.org/2001/04/xmldsig-more#sha384'') = Inl e)"
  using digest_registry[of real_ids "\<lambda>ks. ks"] real_mdUri_inj real_mdOid_inj by (simp add: real_ids_def)

text \<open>
  The JWS registry and its inverse agree: \<open>getUri\<close> succeeds exactly on the six default
  algorithms, gives each of them its signature URI, and \<open>get\<close> takes that URI back to the
  algorithm, whatever the iteration order of the hash map.
\<close>

theorem jws_registry_roundtrip:
  assumes inj: "inj (sigUri K)" and order: "\<And>ks. set (order ks) = set ks"
  shows "(\<forall>a. a \<in> set jws_defaults \<longrightarrow>
            jws_getUri order (jwsAlgorithmMap K) (Some a) = Inr (sigUri K a)
            \<and> jws_get (jwsAlgorithmMap K) (Some (sigUri K a)) = Inr a)
    \<and> (\<forall>s. \<exists>e. jws_getUri order (jwsAlgorithmMap K) (Some (OtherJWS s)) = Inl e)"
proof -
  note look = map_of_inj_pairs[OF inj, of jws_defaults]
  have M: "jwsAlgorithmMap K = map (\<lambda>a. (sigUri K a, a)) jws_defaults"
    using inj by (simp add: jwsAlgorithmMap_def jws_defaults_def jws_register_def inj_eq)
  have lk: "map_of (jwsAlgorithmMap K) u = Some a \<longleftrightarrow> a \<in> set jws_defaults \<and> u = sigUri K a" for u a
    by (simp add: M look)
  have keys: "set (order (map fst (jwsAlgorithmMap K))) = sigUri K ` set jws_defaults"
    by (simp add: order M comp_def)
  have found: "List.find (\<lambda>k. map_of (jwsAlgorithmMap K) k = Some a) (order (map fst (jwsAlgorithmMap K))) = Some (sigUri K a)"
    if "a \<in> set jws_defaults" for a
    by (rule find_unique) (use that in \<open>simp_all add: keys lk\<close>)
  have "OtherJWS s \<notin> set jws_defaults" for s by (simp add: jws_defaults_def)
  then have "List.find (\<lambda>k. map_of (jwsAlgorithmMap K) k = Some (OtherJWS s)) (order (map fst (jwsAlgorithmMap K))) = None" for s
    unfolding find_None_iff_all by (simp add: lk)
  moreover have "map_of (jwsAlgorithmMap K) (sigUri K a) = Some a" if "a \<in> set jws_defaults" for a
    using that by (simp add: lk)
  ultimately show ?thesis using found by (simp add: jws_getUri_def jws_get_def)
qed

lemma real_sigUri_inj: "inj real_sigUri"
  by (rule injI, rename_tac x y, case_tac x; case_tac y) simp_all

theorem jws_registry_roundtrip_witness:
  "jws_getUri (\<lambda>ks. ks) (jwsAlgorithmMap real_ids) (Some ES384) = Inr ''http://www.w3.org/2001/04/xmldsig-more#ecdsa-sha384''
   \<and> jws_get (jwsAlgorithmMap real_ids) (Some ''http://www.w3.org/2001/04/xmldsig-more#ecdsa-sha384'') = Inr ES384"
  using jws_registry_roundtrip[of real_ids "\<lambda>ks. ks"] real_sigUri_inj by (auto simp: real_ids_def jws_defaults_def)

text \<open>
  \<open>PublicKeyType.getTypeFromOid\<close> never answers \<open>Unknown\<close>: for an OID that is neither the EC nor
  the RSA OID the loop reaches the constant with no OID and ends in a \<open>NullPointerException\<close>. The
  caller \<open>getPkParams\<close> turns it, like every other exception, into a null result, and otherwise gives
  the key length of the registered curve or of the modulus.
\<close>

theorem key_type_unknown:
  "(\<forall>d. getTypeFromOid d = (if equalsIgnoreCase ''1.2.840.10045.2.1'' d then Inr EC
                            else if equalsIgnoreCase ''1.2.840.113549.1.1.1'' d then Inr RSA else Inl npe))
   \<and> (\<forall>(E :: 'x key_env_scheme) order curves k d p. keyAlgorithm E k = Inr d \<longrightarrow> getPkParams E order curves k = Inr (Some p) \<longrightarrow>
        (pkType p = EC \<and> equalsIgnoreCase ''1.2.840.10045.2.1'' d
           \<and> (\<exists>c curve. keyParameters E k = Inr (Some c) \<and> curve_get order curves (Some c) = Inr curve \<and> keyLength p = keyLen curve))
        \<or> (pkType p = RSA \<and> equalsIgnoreCase ''1.2.840.113549.1.1.1'' d \<and> keyLength p = modulusBitLength E k))"
proof
  show type: "\<forall>d. getTypeFromOid d = (if equalsIgnoreCase ''1.2.840.10045.2.1'' d then Inr EC
      else if equalsIgnoreCase ''1.2.840.113549.1.1.1'' d then Inr RSA else Inl npe)"
    by (simp add: getTypeFromOid_def)
  have some: "curve_get order curves v = Inr curve \<Longrightarrow> \<exists>c. v = Some c" for order curves v curve
    by (cases v) (simp_all add: curve_get_def)
  show "\<forall>(E :: 'x key_env_scheme) order curves k d p. keyAlgorithm E k = Inr d \<longrightarrow> getPkParams E order curves k = Inr (Some p) \<longrightarrow>
        (pkType p = EC \<and> equalsIgnoreCase ''1.2.840.10045.2.1'' d
           \<and> (\<exists>c curve. keyParameters E k = Inr (Some c) \<and> curve_get order curves (Some c) = Inr curve \<and> keyLength p = keyLen curve))
        \<or> (pkType p = RSA \<and> equalsIgnoreCase ''1.2.840.113549.1.1.1'' d \<and> keyLength p = modulusBitLength E k)"
  proof (intro allI impI)
    fix E :: "'x key_env_scheme" and order curves k d p
    assume d: "keyAlgorithm E k = Inr d" and p: "getPkParams E order curves k = Inr (Some p)"
    from p have "key_params E order curves k = Inr (Some p)"
      by (auto simp: getPkParams_def split: sum.splits if_splits)
    with d show "(pkType p = EC \<and> equalsIgnoreCase ''1.2.840.10045.2.1'' d
           \<and> (\<exists>c curve. keyParameters E k = Inr (Some c) \<and> curve_get order curves (Some c) = Inr curve \<and> keyLength p = keyLen curve))
        \<or> (pkType p = RSA \<and> equalsIgnoreCase ''1.2.840.113549.1.1.1'' d \<and> keyLength p = modulusBitLength E k)"
      by (auto simp: key_params_def type[rule_format]
          split: sum.splits if_splits pubkey.splits option.splits PublicKeyType.splits) (metis some)+
  qed
qed

definition demo_keys :: key_env where
  "demo_keys = \<lparr>keyAlgorithm = (\<lambda>k. case k of RSAPublicKey _ \<Rightarrow> Inr ''1.2.840.113549.1.1.1'' | ECPublicKey _ \<Rightarrow> Inr ''1.2.840.10045.2.1''
       | OtherPublicKey _ \<Rightarrow> Inr ''1.3.101.112''),
     keyParameters = (\<lambda>_. Inr (Some ''NIST_P_256'')), modulusBitLength = (\<lambda>_. 2048)\<rparr>"

theorem key_type_unknown_witness:
  "getPkParams demo_keys (\<lambda>ks. ks) [] (RSAPublicKey 1) = Inr (Some \<lparr>pkType = RSA, namedEcCurve = None, keyLength = 2048\<rparr>)
   \<and> getTypeFromOid ''1.3.101.112'' = Inl npe"
proof -
  have no: "\<not> equalsIgnoreCase ''1.2.840.10045.2.1'' ''1.2.840.113549.1.1.1''" "\<not> equalsIgnoreCase ''1.2.840.10045.2.1'' ''1.3.101.112''"
    "\<not> equalsIgnoreCase ''1.2.840.113549.1.1.1'' ''1.3.101.112''"
    by code_simp+
  have "getTypeFromOid ''1.3.101.112'' = Inl npe" "getTypeFromOid ''1.2.840.113549.1.1.1'' = Inr RSA"
    using conjunct1[OF key_type_unknown] no by simp_all
  then show ?thesis by (simp add: getPkParams_def key_params_def demo_keys_def)
qed

end
