(* ===== verification/SVA_Utils.thy ===== *)
theory SVA_Utils
  imports Algorithms "HOL-Library.Multiset"
begin

text \<open>
  Signature validation tokens (SVT) and \<open>SVAUtils\<close>
  (\<open>sigval-commons/.../utils/SVAUtils.java\<close>), with \<open>SVTUtils\<close>: the verification of a token, the choice of the
  most recent one and the ordering of a certificate chain. Parsing a token, the JOSE signature
  operations and the table of SVT algorithms belong to other libraries and are fields of
  \<open>svt_env\<close>.
\<close>

datatype conclusion = PASSED | FAILED | INDETERMINATE

record sig_reference =
  sref_id :: "string option"
  sig_hash :: "string option"
  sb_hash :: "string option"

record signed_data_claims =
  ref :: string
  hash_value :: string

record policy_claims =
  pol :: string
  res :: "conclusion option"
  msg :: "string option"

record sig_claims =
  sig_ref :: "sig_reference option"
  sig_val :: "policy_claims list option"

record svt_claims =
  hash_algo :: "string option"
  svt_sig :: "sig_claims list option"

record jwt_claims =
  expirationTime :: "date option"
  issueTime :: "date option"
  sigValClaims :: "exn + svt_claims option"

record signed_jwt =
  jwtEncoding :: bytes
  jwtAlgorithm :: "jws_alg option"
  jwtKeyID :: "string option"
  jwtX509CertChain :: "bytes list option"
  jwtClaimsSet :: "exn + jwt_claims"

record svt_env = x509_env +
  parseCert :: "bytes \<Rightarrow> exn + cert"
  parseJWT :: "string \<Rightarrow> exn + signed_jwt"
  newVerifier :: "pubkey \<Rightarrow> exn option"
  jwsVerify :: "signed_jwt \<Rightarrow> pubkey \<Rightarrow> exn + bool"
  svtDigestAlgoId :: "jws_alg option \<Rightarrow> exn + string option"
  svtDigestInstance :: "jws_alg option \<Rightarrow> (bytes \<Rightarrow> bytes) option"
  digestInstance :: "DigestAlgorithm \<Rightarrow> exn + (bytes \<Rightarrow> bytes)"
  base64 :: "bytes \<Rightarrow> string"

subsection \<open>Verifying a token\<close>

definition getSVTClaims :: "jwt_claims \<Rightarrow> exn + svt_claims option" where
  "getSVTClaims c =
     (case sigValClaims c of
        Inr v \<Rightarrow> Inr v
      | Inl e \<Rightarrow> if is_exception e then Inl (Exn IOException (Some ''No SVA claims available'')) else Inl e)"

definition check_expiry :: "(nat \<Rightarrow> date) \<Rightarrow> signed_jwt \<Rightarrow> ('a world_scheme, exn, unit) jm" where
  "check_expiry clk jwt =
     bnd (lift_sum (jwtClaimsSet jwt)) (\<lambda>claims.
     case expirationTime claims of
       None \<Rightarrow> ret ()
     | Some t \<Rightarrow> bnd (read_env clk) (\<lambda>now.
         if t < now then throw (Exn RuntimeException (Some ''The SVA has expired'')) else ret ()))"

definition get_verifier :: "'x svt_env_scheme \<Rightarrow> pubkey \<Rightarrow> exn + unit" where
  "get_verifier X k =
     (case k of
        OtherPublicKey _ \<Rightarrow> Inl (Exn ClassCastException None)
      | _ \<Rightarrow> (case newVerifier X k of None \<Rightarrow> Inr () | Some e \<Rightarrow> Inl e))"

text \<open>Both digest algorithms come from the registry, where equality of entries is equality of the objects.\<close>

definition check_hash_algos :: "'x svt_env_scheme \<Rightarrow> digest_map \<Rightarrow> signed_jwt \<Rightarrow> exn + unit" where
  "check_hash_algos X digests jwt =
     (case svtDigestAlgoId X (jwtAlgorithm jwt) of
        Inl e \<Rightarrow> Inl e
      | Inr algo \<Rightarrow>
     (case digest_get digests algo of
        Inl e \<Rightarrow> Inl e
      | Inr svaSigHashAlgo \<Rightarrow>
     (case jwtClaimsSet jwt of
        Inl e \<Rightarrow> Inl e
      | Inr claims \<Rightarrow>
     (case getSVTClaims claims of
        Inl e \<Rightarrow> Inl e
      | Inr None \<Rightarrow> Inl npe
      | Inr (Some svtClaims) \<Rightarrow>
     (case digest_get digests (hash_algo svtClaims) of
        Inl e \<Rightarrow> Inl e
      | Inr svaClaimsHashAlgo \<Rightarrow>
          if svaSigHashAlgo \<noteq> svaClaimsHashAlgo
          then Inl (Exn IOException (Some (''SVA hahs algo mismatch. SVA algo: '' @ uri svaClaimsHashAlgo
                  @ '', SVA token sig algo: '' @ uri svaSigHashAlgo)))
          else Inr ())))))"

text \<open>The last statement is \<open>signedJWT.verify(verifier);\<close>, as a statement: its result is not used.\<close>

definition verifySVA ::
  "'x svt_env_scheme \<Rightarrow> digest_map \<Rightarrow> (nat \<Rightarrow> date) \<Rightarrow> signed_jwt \<Rightarrow> pubkey \<Rightarrow> ('a world_scheme, exn, unit) jm" where
  "verifySVA X digests clk jwt k =
     sq (check_expiry clk jwt)
    (sq (lift_sum (get_verifier X k))
    (sq (lift_sum (check_hash_algos X digests jwt))
    (sq (lift_sum (jwsVerify X jwt k)) (ret ()))))"

subsection \<open>The most recent token\<close>

definition getSVTIssueDate :: "signed_jwt \<Rightarrow> exn + date option" where
  "getSVTIssueDate jwt =
     (case jwtClaimsSet jwt of
        Inr c \<Rightarrow> Inr (issueTime c)
      | Inl e \<Rightarrow> if is_exception e then Inr (Some 0) else Inl e)"

definition compareSVTIssueDate :: "signed_jwt \<Rightarrow> signed_jwt \<Rightarrow> exn + int" where
  "compareSVTIssueDate o1 o2 =
     (case getSVTIssueDate o1 of
        Inl e \<Rightarrow> Inl e
      | Inr d1 \<Rightarrow>
     (case getSVTIssueDate o2 of
        Inl e \<Rightarrow> Inl e
      | Inr d2 \<Rightarrow>
     (case (d1, d2) of
        (Some t1, Some t2) \<Rightarrow> Inr (if t1 > t2 then - 1 else 1)
      | _ \<Rightarrow> Inl npe)))"

text \<open>
  The sort of the standard library on a short list: each element is inserted behind the elements
  that the comparator does not put after it, so it only asks whether a comparison is negative.
\<close>

fun insert_jwt :: "signed_jwt \<Rightarrow> signed_jwt list \<Rightarrow> exn + signed_jwt list" where
  "insert_jwt x [] = Inr [x]"
| "insert_jwt x (y # ys) =
     (case compareSVTIssueDate x y of
        Inl e \<Rightarrow> Inl e
      | Inr c \<Rightarrow>
          if c < 0 then Inr (x # y # ys)
          else (case insert_jwt x ys of Inl e \<Rightarrow> Inl e | Inr zs \<Rightarrow> Inr (y # zs)))"

fun sort_jwts :: "signed_jwt list \<Rightarrow> signed_jwt list \<Rightarrow> exn + signed_jwt list" where
  "sort_jwts acc [] = Inr acc"
| "sort_jwts acc (x # xs) = (case insert_jwt x acc of Inl e \<Rightarrow> Inl e | Inr acc' \<Rightarrow> sort_jwts acc' xs)"

definition getMostRecentJwt :: "signed_jwt list option \<Rightarrow> exn + signed_jwt option" where
  "getMostRecentJwt jwts =
     (case jwts of
        None \<Rightarrow> Inr None
      | Some [] \<Rightarrow> Inr None
      | Some js \<Rightarrow>
          (case sort_jwts [] js of
             Inl e \<Rightarrow> Inl e
           | Inr ordered \<Rightarrow> Inr (case ordered of [] \<Rightarrow> None | j # _ \<Rightarrow> Some j)))"

subsection \<open>Ordering a certificate chain\<close>

definition getCertOrNull :: "'x svt_env_scheme \<Rightarrow> bytes \<Rightarrow> exn + cert option" where
  "getCertOrNull X bs =
     (case parseCert X bs of Inr c \<Rightarrow> Inr (Some c) | Inl e \<Rightarrow> if is_exception e then Inr None else Inl e)"

fun parse_chain :: "'x svt_env_scheme \<Rightarrow> bytes list \<Rightarrow> exn + cert list" where
  "parse_chain X [] = Inr []"
| "parse_chain X (b # bs) =
     (case getCertOrNull X b of
        Inl e \<Rightarrow> Inl e
      | Inr c \<Rightarrow>
          (case parse_chain X bs of
             Inl e \<Rightarrow> Inl e
           | Inr cs \<Rightarrow> Inr (case c of None \<Rightarrow> cs | Some c \<Rightarrow> c # cs)))"

fun getParentCert :: "'x x509_env_scheme \<Rightarrow> cert \<Rightarrow> cert list \<Rightarrow> exn + cert option" where
  "getParentCert X c [] = Inr None"
| "getParentCert X c (p # ps) =
     (case certVerify X c (publicKey p) of
        None \<Rightarrow> Inr (Some p)
      | Some e \<Rightarrow> if is_exception e then getParentCert X c ps else Inl e)"

partial_function (option) order_loop ::
  "'x x509_env_scheme \<Rightarrow> cert list \<Rightarrow> cert \<Rightarrow> cert list \<Rightarrow> (exn + cert list) option" where
  "order_loop X chain c acc =
     (case getParentCert X c chain of
        Inl e \<Rightarrow> Some (Inl e)
      | Inr None \<Rightarrow> Some (Inr acc)
      | Inr (Some p) \<Rightarrow>
          (case certVerify X p (publicKey p) of
             None \<Rightarrow> Some (Inr (acc @ [p]))
           | Some e \<Rightarrow> if is_exception e then order_loop X chain p (acc @ [p]) else Some (Inl e)))"

text \<open>
  The result: nothing while the loop runs, then a list of certificates (with null for one that could
  not be parsed) or null. Every exception of the \<open>try\<close> block ends in null.
\<close>

definition getOrderedCertList ::
  "'x svt_env_scheme \<Rightarrow> bytes option \<Rightarrow> bytes list option \<Rightarrow> (exn + cert option list option) option" where
  "getOrderedCertList X signer chain =
     (case signer of
        None \<Rightarrow> Some (Inr None)
      | Some sb \<Rightarrow>
          if chain = None \<or> length (the chain) < 2
          then (case getCertOrNull X sb of Inl e \<Rightarrow> Some (Inl e) | Inr c \<Rightarrow> Some (Inr (Some [c])))
          else (let caught = (\<lambda>e. if is_exception e then Inr None else Inl e) in
                case parse_chain X (the chain) of
                  Inl e \<Rightarrow> Some (caught e)
                | Inr cs \<Rightarrow>
                    (case parseCert X sb of
                       Inl e \<Rightarrow> Some (caught e)
                     | Inr c \<Rightarrow>
                         (case order_loop X cs c [c] of
                            None \<Rightarrow> None
                          | Some (Inl e) \<Rightarrow> Some (caught e)
                          | Some (Inr l) \<Rightarrow> Some (Inr (Some (map Some l)))))))"

subsection \<open>SVTUtils\<close>

text \<open>The two nested \<open>allMatch\<close> stop at the first failure; a missing list or result raises.\<close>

fun policies_passed :: "policy_claims list \<Rightarrow> exn + bool" where
  "policies_passed [] = Inr True"
| "policies_passed (p # ps) =
     (case res p of
        None \<Rightarrow> Inl npe
      | Some r \<Rightarrow> if r = PASSED then policies_passed ps else Inr False)"

fun signatures_passed :: "sig_claims list \<Rightarrow> exn + bool" where
  "signatures_passed [] = Inr True"
| "signatures_passed (s # ss) =
     (case sig_val s of
        None \<Rightarrow> Inl npe
      | Some ps \<Rightarrow>
          (case policies_passed ps of
             Inl e \<Rightarrow> Inl e
           | Inr b \<Rightarrow> if b then signatures_passed ss else Inr False))"

definition checkValidatedSignatures :: "signed_jwt option \<Rightarrow> exn + bool" where
  "checkValidatedSignatures jwt =
     (case jwt of
        None \<Rightarrow> Inr False
      | Some j \<Rightarrow>
          (case jwtClaimsSet j of
             Inl e \<Rightarrow> Inl e
           | Inr c \<Rightarrow>
               (case sigValClaims c of
                  Inl e \<Rightarrow> Inl e
                | Inr None \<Rightarrow> Inl npe
                | Inr (Some s) \<Rightarrow> (case svt_sig s of None \<Rightarrow> Inl npe | Some ss \<Rightarrow> signatures_passed ss))))"

definition checkIfSVTShouldBeIssued :: "signed_jwt option \<Rightarrow> bool \<Rightarrow> exn + bool" where
  "checkIfSVTShouldBeIssued jwt issueSvtOnFailedValidation =
     (case jwt of
        None \<Rightarrow> Inr False
      | Some _ \<Rightarrow>
          (case checkValidatedSignatures jwt of
             Inl e \<Rightarrow> Inl e
           | Inr allValid \<Rightarrow> Inr (if allValid then True else if issueSvtOnFailedValidation then True else False)))"

subsection \<open>When a token should be issued\<close>

lemma policies_passed_True:
  "policies_passed ps = Inr True \<longleftrightarrow> (\<forall>p \<in> set ps. res p = Some PASSED)"
  by (induction ps) (auto split: option.splits)

lemma signatures_passed_True:
  "signatures_passed ss = Inr True \<longleftrightarrow> (\<forall>s \<in> set ss. \<exists>ps. sig_val s = Some ps \<and> (\<forall>p \<in> set ps. res p = Some PASSED))"
  by (induction ss) (auto simp: policies_passed_True[symmetric] split: option.splits sum.splits if_splits)

text \<open>
  A token is issued under the strict setting exactly when it has claims for every signature in which
  all policies have PASSED; the lenient setting issues it for any readable claims; never for null.
\<close>

theorem svt_issue_decision:
  "(checkIfSVTShouldBeIssued jwt False = Inr True \<longleftrightarrow>
     (\<exists>j c s ss. jwt = Some j \<and> jwtClaimsSet j = Inr c \<and> sigValClaims c = Inr (Some s) \<and> svt_sig s = Some ss
        \<and> (\<forall>x \<in> set ss. \<exists>ps. sig_val x = Some ps \<and> (\<forall>p \<in> set ps. res p = Some PASSED))))
   \<and> (checkIfSVTShouldBeIssued (Some j) True = Inr True \<longleftrightarrow> (\<exists>b. checkValidatedSignatures (Some j) = Inr b))
   \<and> checkIfSVTShouldBeIssued None lenient = Inr False"
proof (intro conjI)
  show "checkIfSVTShouldBeIssued jwt False = Inr True \<longleftrightarrow>
     (\<exists>j c s ss. jwt = Some j \<and> jwtClaimsSet j = Inr c \<and> sigValClaims c = Inr (Some s) \<and> svt_sig s = Some ss
        \<and> (\<forall>x \<in> set ss. \<exists>ps. sig_val x = Some ps \<and> (\<forall>p \<in> set ps. res p = Some PASSED)))"
    by (auto simp: checkIfSVTShouldBeIssued_def checkValidatedSignatures_def signatures_passed_True[symmetric]
        split: option.splits sum.splits if_splits)
qed (auto simp: checkIfSVTShouldBeIssued_def split: sum.split)

subsection \<open>What verification establishes\<close>

text \<open>The conditions under which \<open>verifySVA\<close> returns, at a given clock reading.\<close>

definition sva_acceptable :: "'x svt_env_scheme \<Rightarrow> digest_map \<Rightarrow> date \<Rightarrow> signed_jwt \<Rightarrow> pubkey \<Rightarrow> bool" where
  "sva_acceptable X digests now jwt k \<longleftrightarrow>
     (\<exists>claims svt algo d. jwtClaimsSet jwt = Inr claims
        \<and> (case expirationTime claims of None \<Rightarrow> True | Some t \<Rightarrow> now \<le> t)
        \<and> get_verifier X k = Inr () \<and> sigValClaims claims = Inr (Some svt)
        \<and> svtDigestAlgoId X (jwtAlgorithm jwt) = Inr algo
        \<and> digest_get digests algo = Inr d \<and> digest_get digests (hash_algo svt) = Inr d)"

lemma check_hash_algos_iff:
  "check_hash_algos X digests jwt = Inr () \<longleftrightarrow>
     (\<exists>claims svt algo d. jwtClaimsSet jwt = Inr claims \<and> sigValClaims claims = Inr (Some svt)
        \<and> svtDigestAlgoId X (jwtAlgorithm jwt) = Inr algo
        \<and> digest_get digests algo = Inr d \<and> digest_get digests (hash_algo svt) = Inr d)"
  by (auto simp: check_hash_algos_def getSVTClaims_def split: sum.splits option.splits if_splits)

lemma check_expiry_iff:
  "(\<exists>s'. check_expiry clk jwt s = (Inr (), s')) \<longleftrightarrow>
     (\<exists>claims. jwtClaimsSet jwt = Inr claims
        \<and> (case expirationTime claims of None \<Rightarrow> True | Some t \<Rightarrow> clk (tick s) \<le> t))"
  by (auto simp: check_expiry_def jrun_simps split: sum.splits option.splits)

lemma verifySVA_returns_iff:
  "(\<exists>s'. verifySVA X digests clk jwt k s = (Inr (), s')) \<longleftrightarrow>
     sva_acceptable X digests (clk (tick s)) jwt k \<and> (\<exists>b. jwsVerify X jwt k = Inr b)"
proof -
  have "(\<exists>s'. verifySVA X digests clk jwt k s = (Inr (), s')) \<longleftrightarrow>
      (\<exists>s'. check_expiry clk jwt s = (Inr (), s')) \<and> get_verifier X k = Inr ()
      \<and> check_hash_algos X digests jwt = Inr () \<and> (\<exists>b. jwsVerify X jwt k = Inr b)"
    by (auto simp: verifySVA_def jrun_simps split: sum.splits prod.splits)
  then show ?thesis
    unfolding check_expiry_iff check_hash_algos_iff sva_acceptable_def by auto
qed

text \<open>
  \<open>SVAUtils.verifySVA\<close> accepts a token exactly when it has not expired, the key has a supported
  type, and the digest algorithm of its claims is the one of its signature algorithm; it does not
  depend on whether the signature is valid, since the boolean result of the verification is not used:
  a token whose signature verifies as false is accepted.
\<close>

theorem verifySVA_accepts_forged:
  "(\<exists>s'. verifySVA (X\<lparr>jwsVerify := \<lambda>_ _. Inr False\<rparr>) digests clk jwt k s = (Inr (), s'))
     \<longleftrightarrow> sva_acceptable X digests (clk (tick s)) jwt k"
proof -
  have "sva_acceptable (X\<lparr>jwsVerify := \<lambda>_ _. Inr False\<rparr>) digests (clk (tick s)) jwt k
      = sva_acceptable X digests (clk (tick s)) jwt k"
    by (cases k) (simp_all add: sva_acceptable_def get_verifier_def)
  then show ?thesis unfolding verifySVA_returns_iff by auto
qed

subsection \<open>The most recent token\<close>

definition issued :: "signed_jwt \<Rightarrow> date option" where
  "issued j = (case getSVTIssueDate j of Inr d \<Rightarrow> d | Inl _ \<Rightarrow> None)"

definition newest_first :: "signed_jwt list \<Rightarrow> bool" where
  "newest_first js \<longleftrightarrow> (\<forall>j \<in> set js. issued j \<noteq> None) \<and> sorted_wrt (\<lambda>a b. the (issued a) \<ge> the (issued b)) js"

lemma compare_Inr:
  "compareSVTIssueDate x y = Inr c \<longleftrightarrow>
     (\<exists>a b. issued x = Some a \<and> issued y = Some b \<and> c = (if a > b then - 1 else 1))"
  by (auto simp: compareSVTIssueDate_def issued_def split: sum.splits option.splits)

lemma insert_jwt_sorted:
  "insert_jwt x ys = Inr zs \<Longrightarrow> newest_first ys \<Longrightarrow> issued x \<noteq> None \<Longrightarrow>
     newest_first zs \<and> mset zs = add_mset x (mset ys)"
proof (induction ys arbitrary: zs)
  case Nil
  then show ?case by (auto simp: newest_first_def)
next
  case (Cons y ys)
  from Cons.prems(1) obtain c where c: "compareSVTIssueDate x y = Inr c" by (auto split: sum.splits)
  then obtain a b where ab: "issued x = Some a" "issued y = Some b" "c = (if a > b then - 1 else 1)" by (auto simp: compare_Inr)
  show ?case
  proof (cases "c < 0")
    case True
    with Cons.prems ab c show ?thesis by (fastforce simp: newest_first_def split: if_splits)
  next
    case False
    with Cons.prems(1) c obtain ws where ws: "insert_jwt x ys = Inr ws" "zs = y # ws" by (auto split: sum.splits)
    have ys: "newest_first ys" using Cons.prems(2) by (simp add: newest_first_def)
    note ih = Cons.IH[OF ws(1) ys Cons.prems(3)]
    have "set ws = insert x (set ys)" using ih by (metis set_mset_add_mset_insert set_mset_mset)
    with ih Cons.prems(2) ws(2) ab False show ?thesis by (auto simp: newest_first_def split: if_splits)
  qed
qed

lemma insert_jwt_issued:
  assumes "insert_jwt x (y # ys) = Inr zs"
  shows "issued x \<noteq> None \<and> issued y \<noteq> None"
  using assms by (auto simp: compare_Inr split: sum.splits)

lemma insert_jwt_nonempty: "insert_jwt x ys = Inr zs \<Longrightarrow> zs \<noteq> []"
  by (cases ys) (auto split: sum.splits if_splits)

lemma insert_jwt_returns:
  "issued x \<noteq> None \<Longrightarrow> \<forall>y \<in> set ys. issued y \<noteq> None \<Longrightarrow> \<exists>zs. insert_jwt x ys = Inr zs"
proof (induction ys)
  case Nil
  then show ?case by simp
next
  case (Cons y ys)
  then obtain a b where "issued x = Some a" "issued y = Some b" by auto
  then have "compareSVTIssueDate x y = Inr (if a > b then - 1 else 1)" by (simp add: compare_Inr)
  with Cons show ?case by auto
qed

lemma sort_jwts_sorted:
  "sort_jwts acc xs = Inr zs \<Longrightarrow> newest_first acc \<Longrightarrow> acc \<noteq> [] \<Longrightarrow>
     newest_first zs \<and> mset zs = mset acc + mset xs \<and> (\<forall>x \<in> set xs. issued x \<noteq> None)"
proof (induction xs arbitrary: acc)
  case Nil
  then show ?case by simp
next
  case (Cons x xs)
  then obtain acc' where a: "insert_jwt x acc = Inr acc'" and s: "sort_jwts acc' xs = Inr zs" by (auto split: sum.splits)
  have x: "issued x \<noteq> None" using a Cons.prems(3) insert_jwt_issued by (cases acc) blast+
  have acc': "newest_first acc'" "mset acc' = add_mset x (mset acc)" "acc' \<noteq> []"
    using insert_jwt_sorted[OF a Cons.prems(2) x] insert_jwt_nonempty[OF a] by auto
  from Cons.IH[OF s acc'(1,3)] acc'(2) x show ?case by auto
qed

lemma sort_jwts_returns:
  "\<forall>x \<in> set acc \<union> set xs. issued x \<noteq> None \<Longrightarrow> newest_first acc \<Longrightarrow> \<exists>zs. sort_jwts acc xs = Inr zs"
proof (induction xs arbitrary: acc)
  case Nil
  then show ?case by simp
next
  case (Cons x xs)
  then obtain acc' where a: "insert_jwt x acc = Inr acc'" using insert_jwt_returns[of x acc] by auto
  from insert_jwt_sorted[OF a Cons.prems(2)] Cons.prems(1) have n: "newest_first acc'" and m: "mset acc' = add_mset x (mset acc)" by auto
  from m have "set acc' = insert x (set acc)" by (metis set_mset_add_mset_insert set_mset_mset)
  with Cons.IH[OF _ n] Cons.prems(1) a show ?case by auto
qed

text \<open>
  Of several tokens the most recent one is chosen: when every token has an issue time, a
  token is chosen whose time no other exceeds. A single token is chosen even without an issue time;
  but among two or more, one token without an issue time makes the choice fail with an exception.
\<close>

theorem most_recent_jwt:
  shows "(\<forall>j. 2 \<le> length js \<longrightarrow> getMostRecentJwt (Some js) = Inr (Some j) \<longrightarrow>
            j \<in> set js \<and> (\<exists>a. issued j = Some a \<and> (\<forall>k \<in> set js. \<exists>b. issued k = Some b \<and> b \<le> a)))
    \<and> (js \<noteq> [] \<longrightarrow> (length js = 1 \<or> (\<forall>k \<in> set js. issued k \<noteq> None)) \<longrightarrow> (\<exists>j. getMostRecentJwt (Some js) = Inr (Some j)))
    \<and> (2 \<le> length js \<longrightarrow> (\<exists>k \<in> set js. issued k = None) \<longrightarrow> (\<exists>e. getMostRecentJwt (Some js) = Inl e))"
proof (cases js)
  case Nil
  then show ?thesis by simp
next
  case (Cons j0 rest)
  have get: "getMostRecentJwt (Some js) = (case sort_jwts [j0] rest of Inl e \<Rightarrow> Inl e
      | Inr ordered \<Rightarrow> Inr (case ordered of [] \<Rightarrow> None | j # _ \<Rightarrow> Some j))"
    by (simp add: getMostRecentJwt_def Cons)
  have one: "newest_first [j0]" if "issued j0 \<noteq> None" using that by (simp add: newest_first_def)
  have j0: "issued j0 \<noteq> None" if "sort_jwts [j0] rest = Inr zs" "rest \<noteq> []" for zs
    using that by (cases rest) (auto simp: compare_Inr split: sum.splits)
  have 1: "j \<in> set js \<and> (\<exists>a. issued j = Some a \<and> (\<forall>k \<in> set js. \<exists>b. issued k = Some b \<and> b \<le> a))"
    if "2 \<le> length js" "getMostRecentJwt (Some js) = Inr (Some j)" for j
  proof -
    from that get obtain zs where zs: "sort_jwts [j0] rest = Inr zs" "zs \<noteq> []" "j = hd zs"
      by (auto split: sum.splits list.splits)
    have "rest \<noteq> []" using that(1) Cons by auto
    from sort_jwts_sorted[OF zs(1) one[OF j0[OF zs(1) this]]] have nf: "newest_first zs" and "mset zs = mset js"
      by (simp_all add: Cons)
    then have set: "set zs = set js" by (metis mset_eq_setD)
    from zs(2,3) obtain tl where tl: "zs = j # tl" by (cases zs) auto
    from nf tl show ?thesis unfolding set[symmetric] newest_first_def by fastforce
  qed
  have 2: "\<exists>j. getMostRecentJwt (Some js) = Inr (Some j)" if "length js = 1 \<or> (\<forall>k \<in> set js. issued k \<noteq> None)"
  proof (cases "rest = []")
    case True
    then show ?thesis by (simp add: get)
  next
    case False
    with that Cons have all: "\<forall>k \<in> set js. issued k \<noteq> None" by auto
    have nf: "newest_first [j0]" using all Cons one by simp
    have "\<forall>x \<in> set [j0] \<union> set rest. issued x \<noteq> None" using all Cons by auto
    from sort_jwts_returns[OF this nf] obtain zs where zs: "sort_jwts [j0] rest = Inr zs" by blast
    then have "mset zs = mset js" using sort_jwts_sorted[OF zs nf] Cons by simp
    then obtain z zs' where "zs = z # zs'" using Cons by (cases zs) auto
    with zs get show ?thesis by auto
  qed
  have 3: "\<exists>e. getMostRecentJwt (Some js) = Inl e" if "2 \<le> length js" "\<exists>k \<in> set js. issued k = None"
  proof (cases "sort_jwts [j0] rest")
    case (Inl e)
    then show ?thesis by (simp add: get)
  next
    case (Inr zs)
    have "rest \<noteq> []" using that(1) Cons by auto
    note nf = one[OF j0[OF Inr this]]
    from sort_jwts_sorted[OF Inr nf] nf that(2) Cons show ?thesis by (auto simp: newest_first_def)
  qed
  from 1 2 3 show ?thesis by blast
qed

subsection \<open>Ordering a chain\<close>

lemma getParentCert_Some:
  "getParentCert X c chain = Inr (Some p) \<Longrightarrow> p \<in> set chain \<and> certVerify X c (publicKey p) = None"
  by (induction chain) (auto split: option.splits if_splits)

text \<open>Each certificate is verified with the key of the next one.\<close>

definition linked :: "'x x509_env_scheme \<Rightarrow> cert list \<Rightarrow> bool" where
  "linked X l \<longleftrightarrow> (\<forall>i. Suc i < length l \<longrightarrow> certVerify X (l ! i) (publicKey (l ! Suc i)) = None)"

lemma linked_snoc: "linked X l \<Longrightarrow> l \<noteq> [] \<Longrightarrow> certVerify X (last l) (publicKey p) = None \<Longrightarrow> linked X (l @ [p])"
proof -
  assume l: "linked X l" "l \<noteq> []" "certVerify X (last l) (publicKey p) = None"
  have "certVerify X ((l @ [p]) ! i) (publicKey ((l @ [p]) ! Suc i)) = None" if "Suc i < length (l @ [p])" for i
  proof (cases "Suc i < length l")
    case True
    then show ?thesis using l(1) by (simp add: linked_def nth_append)
  next
    case False
    with that have "i = length l - 1" "Suc i = length l" by auto
    then show ?thesis using l(2,3) by (simp add: nth_append last_conv_nth)
  qed
  then show ?thesis by (simp add: linked_def)
qed

lemma order_loop_linked:
  fixes X :: "'a x509_env_scheme"
  assumes "order_loop X chain c acc = Some (Inr l)" "linked X acc" "acc \<noteq> []" "last acc = c"
  shows "linked X l \<and> hd l = hd acc \<and> set l \<subseteq> set acc \<union> set chain"
proof -
  let ?P = "\<lambda>(X :: 'a x509_env_scheme) chain c acc (r :: exn + cert list). \<forall>l. r = Inr l \<longrightarrow> linked X acc \<longrightarrow> acc \<noteq> [] \<longrightarrow> last acc = c \<longrightarrow>
      linked X l \<and> hd l = hd acc \<and> set l \<subseteq> set acc \<union> set chain"
  have "?P X chain c acc (Inr l)"
  proof (rule order_loop.raw_induct[where P = ?P, OF _ assms(1)])
    fix f :: "'a x509_env_scheme \<Rightarrow> cert list \<Rightarrow> cert \<Rightarrow> cert list \<Rightarrow> (exn + cert list) option"
      and X :: "'a x509_env_scheme" and chain c acc r
    assume ih: "\<And>X chain c acc r. f X chain c acc = Some r \<Longrightarrow> ?P X chain c acc r"
      and step: "(case getParentCert X c chain of Inl e \<Rightarrow> Some (Inl e) | Inr None \<Rightarrow> Some (Inr acc)
        | Inr (Some p) \<Rightarrow> (case certVerify X p (publicKey p) of None \<Rightarrow> Some (Inr (acc @ [p]))
            | Some e \<Rightarrow> if is_exception e then f X chain p (acc @ [p]) else Some (Inl e))) = Some r"
    show "?P X chain c acc r"
    proof (intro allI impI)
      fix l
      assume l: "r = Inr l" "linked X acc" "acc \<noteq> []" "last acc = c"
      consider (top) "l = acc" | (more) p where "getParentCert X c chain = Inr (Some p)" "l = acc @ [p] \<or> f X chain p (acc @ [p]) = Some (Inr l)"
        using step l(1) by (auto split: sum.splits option.splits if_splits)
      then show "linked X l \<and> hd l = hd acc \<and> set l \<subseteq> set acc \<union> set chain"
      proof cases
        case top
        with l show ?thesis by simp
      next
        case more
        then have p: "p \<in> set chain" "linked X (acc @ [p])"
          using getParentCert_Some[OF more(1)] linked_snoc[OF l(2,3)] l(4) by auto
        from more(2) show ?thesis
        proof
          assume "l = acc @ [p]"
          then show ?thesis using p l(3) by (simp add: hd_append)
        next
          assume "f X chain p (acc @ [p]) = Some (Inr l)"
          from ih[OF this] p l(3) show ?thesis by (auto simp: hd_append)
        qed
      qed
    qed
  qed
  with assms show ?thesis by blast
qed

text \<open>
  A climb is the step of the loop: to a parent that is not self-signed. The loop ends when the
  certificates can be ranked along the climbs.
\<close>

definition climbs :: "'x x509_env_scheme \<Rightarrow> cert list \<Rightarrow> cert \<Rightarrow> cert \<Rightarrow> bool" where
  "climbs X chain c p \<longleftrightarrow> getParentCert X c chain = Inr (Some p) \<and> (\<exists>e. certVerify X p (publicKey p) = Some e \<and> is_exception e)"

lemma order_loop_terminates:
  fixes rank :: "cert \<Rightarrow> nat"
  assumes "\<And>c p. climbs X chain c p \<Longrightarrow> rank p < rank c"
  shows "\<exists>r. order_loop X chain c acc = Some r"
proof (induction "rank c" arbitrary: c acc rule: less_induct)
  case less
  show ?case
  proof (cases "\<exists>p. climbs X chain c p")
    case True
    then obtain p where p: "climbs X chain c p" by blast
    from less[OF assms[OF p]] obtain r where "order_loop X chain p (acc @ [p]) = Some r" by blast
    with p show ?thesis by (subst order_loop.simps) (auto simp: climbs_def)
  next
    case False
    then show ?thesis
      by (subst order_loop.simps) (auto simp: climbs_def split: sum.split option.split)
  qed
qed

lemma order_loop_diverges:
  assumes closed: "\<And>c. c \<in> C \<Longrightarrow> \<exists>p \<in> C. climbs X chain c p" and "c \<in> C"
  shows "order_loop X chain c acc = None"
proof -
  let ?P = "\<lambda>X' chain' c acc r. X' = X \<and> chain' = chain \<longrightarrow> c \<notin> C"
  have "?P X chain c acc r" if "order_loop X chain c acc = Some r" for r
  proof (rule order_loop.raw_induct[where P = ?P, OF _ that])
    fix f :: "'a x509_env_scheme \<Rightarrow> cert list \<Rightarrow> cert \<Rightarrow> cert list \<Rightarrow> (exn + cert list) option"
      and X' :: "'a x509_env_scheme" and chain' c acc r
    assume ih: "\<And>X' chain' c acc r. f X' chain' c acc = Some r \<Longrightarrow> ?P X' chain' c acc r"
      and step: "(case getParentCert X' c chain' of Inl e \<Rightarrow> Some (Inl e) | Inr None \<Rightarrow> Some (Inr acc)
        | Inr (Some p) \<Rightarrow> (case certVerify X' p (publicKey p) of None \<Rightarrow> Some (Inr (acc @ [p]))
            | Some e \<Rightarrow> if is_exception e then f X' chain' p (acc @ [p]) else Some (Inl e))) = Some r"
    show "?P X' chain' c acc r"
    proof (intro impI notI)
      assume eq: "X' = X \<and> chain' = chain" and c: "c \<in> C"
      from closed[OF c] obtain p e where p: "p \<in> C" "getParentCert X c chain = Inr (Some p)"
        "certVerify X p (publicKey p) = Some e" "is_exception e" by (auto simp: climbs_def)
      with step eq have "f X chain p (acc @ [p]) = Some r" by simp
      from ih[OF this] p(1) show False by simp
    qed
  qed
  then show ?thesis using assms(2) by (metis not_None_eq)
qed

lemma getOrderedCertList_loop:
  assumes "parseCert X sb = Inr c" "2 \<le> length bs" "parse_chain X bs = Inr cs"
  shows "getOrderedCertList X (Some sb) (Some bs) =
      (case order_loop X cs c [c] of None \<Rightarrow> None
       | Some (Inl e) \<Rightarrow> Some (if is_exception e then Inr None else Inl e)
       | Some (Inr l) \<Rightarrow> Some (Inr (Some (map Some l))))"
  using assms by (simp add: getOrderedCertList_def Let_def)

text \<open>
  The ordered list starts with the signer certificate, each certificate in it verifies with the key
  of the next, and all others come from the given chain. The ordering ends when the certificates
  can be ranked along the steps of the loop, for instance when no certificate has signed an
  ancestor of its own.
\<close>

theorem ordered_chain:
  fixes rank :: "cert \<Rightarrow> nat"
  assumes "parseCert X sb = Inr c" "2 \<le> length bs" "parse_chain X bs = Inr cs"
  shows "(\<forall>l. getOrderedCertList X (Some sb) (Some bs) = Some (Inr (Some l)) \<longrightarrow>
            (\<exists>l'. l = map Some l' \<and> hd l' = c \<and> linked X l' \<and> set l' \<subseteq> insert c (set cs)))
    \<and> ((\<forall>c p. climbs X cs c p \<longrightarrow> rank p < rank c) \<longrightarrow> (\<exists>r. getOrderedCertList X (Some sb) (Some bs) = Some r))"
proof -
  note get = getOrderedCertList_loop[OF assms]
  have lk: "linked X [c]" by (simp add: linked_def)
  have "(\<forall>c p. climbs X cs c p \<longrightarrow> rank p < rank c) \<longrightarrow> (\<exists>r. order_loop X cs c [c] = Some r)"
    using order_loop_terminates[of X cs rank c "[c]"] by blast
  moreover have "\<forall>l. order_loop X cs c [c] = Some (Inr l) \<longrightarrow> hd l = c \<and> linked X l \<and> set l \<subseteq> insert c (set cs)"
    using order_loop_linked[OF _ lk, of cs c] by auto
  ultimately show ?thesis
    by (cases "order_loop X cs c [c]") (auto simp: get split: sum.splits if_splits)
qed

text \<open>
  The ordering of a chain does not end when it climbs into a cycle: if from the signer on every
  parent found is not self-signed and leads to another one, as with two CA certificates that
  have signed each other, no result is ever returned.
\<close>

theorem ordered_chain_diverges:
  assumes "parseCert X sb = Inr c" "2 \<le> length bs" "parse_chain X bs = Inr cs"
    and "c \<in> C" "\<forall>d \<in> C. \<exists>p \<in> C. climbs X cs d p"
  shows "getOrderedCertList X (Some sb) (Some bs) = None"
  using assms order_loop_diverges[of C X cs c "[c]"] by (simp add: getOrderedCertList_def Let_def)

subsection \<open>Witnesses\<close>

definition demo_named :: "string \<Rightarrow> nat \<Rightarrow> cert" where
  "demo_named n k = \<lparr>encoded = map of_char n, serialNumber = 1, subjectDN = n, issuerDN = ''CN=X'',
      notBefore = 0, notAfter = 100000, basicConstraints = 0, keyUsage = None, extKeyUsage = None,
      publicKey = RSAPublicKey k, extensionValues = []\<rparr>"

text \<open>Certificate B is signed with the key of A; A with that of B when \<open>crossed\<close>, and with its own otherwise.\<close>

definition demo_svt :: "bool \<Rightarrow> bool \<Rightarrow> svt_env" where
  "demo_svt crossed good = \<lparr>readObject = (\<lambda>bs. Inr (Some (ASN1OctetString bs))), parseAIA = (\<lambda>_. Inr []), parseCRLDistPoint = (\<lambda>_. Inr []),
     certVerify = (\<lambda>c k. if subjectDN c = ''B'' \<and> k = RSAPublicKey 1
        \<or> subjectDN c = ''A'' \<and> k = (if crossed then RSAPublicKey 2 else RSAPublicKey 1) then None else Some (Exn SignatureException None)),
     parseCert = (\<lambda>bs. if bs = [1] then Inr (demo_named ''A'' 1) else Inr (demo_named ''B'' 2)),
     parseJWT = (\<lambda>_. Inl (Exn ParseException None)),
     newVerifier = (\<lambda>_. None), jwsVerify = (\<lambda>_ _. Inr good), svtDigestAlgoId = (\<lambda>_. Inr (Some ''http://www.w3.org/2001/04/xmlenc#sha256'')),
     svtDigestInstance = (\<lambda>_. Some (\<lambda>b. b)), digestInstance = (\<lambda>_. Inr (\<lambda>b. b)), base64 = (\<lambda>b. map (\<lambda>x. char_of (unat x)) b)\<rparr>"

lemma demo_svt_parse [simp]:
  "parseCert (demo_svt x g) [2] = Inr (demo_named ''B'' 2)" "parse_chain (demo_svt x g) [[1], [2]] = Inr [demo_named ''A'' 1, demo_named ''B'' 2]"
  by (simp_all add: demo_svt_def getCertOrNull_def)

theorem ordered_chain_witness:
  "\<exists>l'. getOrderedCertList (demo_svt False True) (Some [2]) (Some [[1], [2]]) = Some (Inr (Some (map Some l')))
     \<and> hd l' = demo_named ''B'' 2 \<and> linked (demo_svt False True) l'"
proof -
  let ?X = "demo_svt False True"
  have run: "order_loop ?X [demo_named ''A'' 1, demo_named ''B'' 2] (demo_named ''B'' 2) [demo_named ''B'' 2]
      = Some (Inr [demo_named ''B'' 2, demo_named ''A'' 1])"
    by (subst order_loop.simps) (simp add: demo_svt_def demo_named_def)
  have two: "2 \<le> length [[1 :: byte], [2]]" by simp
  have get: "getOrderedCertList ?X (Some [2]) (Some [[1], [2]]) = Some (Inr (Some (map Some [demo_named ''B'' 2, demo_named ''A'' 1])))"
    unfolding getOrderedCertList_loop[OF demo_svt_parse(1) two demo_svt_parse(2)] run by simp
  from conjunct1[OF ordered_chain[OF demo_svt_parse(1) two demo_svt_parse(2), where rank = "\<lambda>_. 0"]] get
  obtain l' where "map Some [demo_named ''B'' 2, demo_named ''A'' 1] = map Some l'" "hd l' = demo_named ''B'' 2" "linked ?X l'"
    by blast
  with get show ?thesis by metis
qed

theorem ordered_chain_diverges_witness:
  "getOrderedCertList (demo_svt True True) (Some [2]) (Some [[1], [2]]) = None"
proof -
  let ?X = "demo_svt True True"
  have climb: "\<forall>d \<in> {demo_named ''A'' 1, demo_named ''B'' 2}. \<exists>p \<in> {demo_named ''A'' 1, demo_named ''B'' 2}.
      climbs ?X [demo_named ''A'' 1, demo_named ''B'' 2] d p"
    by (simp add: climbs_def demo_svt_def demo_named_def)
  show ?thesis
    by (rule ordered_chain_diverges[OF demo_svt_parse(1) _ demo_svt_parse(2) _ climb]) simp_all
qed

definition demo_jwt :: "date option \<Rightarrow> conclusion \<Rightarrow> signed_jwt" where
  "demo_jwt iat r = \<lparr>jwtEncoding = [], jwtAlgorithm = Some RS256, jwtKeyID = None, jwtX509CertChain = Some [[1]],
     jwtClaimsSet = Inr \<lparr>expirationTime = None, issueTime = iat, sigValClaims = Inr (Some
       \<lparr>hash_algo = Some ''http://www.w3.org/2001/04/xmlenc#sha256'',
        svt_sig = Some [\<lparr>sig_ref = Some \<lparr>sref_id = None, sig_hash = Some ''s'', sb_hash = Some ''b''\<rparr>,
                        sig_val = Some [\<lparr>pol = ''p'', res = Some r, msg = None\<rparr>]\<rparr>]\<rparr>)\<rparr>\<rparr>"

theorem svt_issue_decision_witness:
  "checkIfSVTShouldBeIssued (Some (demo_jwt None PASSED)) False = Inr True
   \<and> checkIfSVTShouldBeIssued (Some (demo_jwt None FAILED)) False \<noteq> Inr True"
  using svt_issue_decision[of "Some (demo_jwt None PASSED)"] svt_issue_decision[of "Some (demo_jwt None FAILED)"]
  by (simp add: demo_jwt_def)

theorem most_recent_jwt_witness:
  "getMostRecentJwt (Some [demo_jwt (Some 5) PASSED, demo_jwt (Some 7) PASSED]) = Inr (Some (demo_jwt (Some 7) PASSED))
   \<and> (\<exists>e. getMostRecentJwt (Some [demo_jwt (Some 5) PASSED, demo_jwt None PASSED]) = Inl e)"
proof -
  have i: "issued (demo_jwt d PASSED) = d" for d by (simp add: issued_def getSVTIssueDate_def demo_jwt_def)
  from most_recent_jwt[of "[demo_jwt (Some 5) PASSED, demo_jwt (Some 7) PASSED]"] obtain j where
    "getMostRecentJwt (Some [demo_jwt (Some 5) PASSED, demo_jwt (Some 7) PASSED]) = Inr (Some j)"
    "j \<in> {demo_jwt (Some 5) PASSED, demo_jwt (Some 7) PASSED}" "\<exists>a. issued j = Some a \<and> 7 \<le> a"
    by (auto simp: i)
  moreover from most_recent_jwt[of "[demo_jwt (Some 5) PASSED, demo_jwt None PASSED]"]
  have "\<exists>e. getMostRecentJwt (Some [demo_jwt (Some 5) PASSED, demo_jwt None PASSED]) = Inl e"
    by (simp add: i)
  ultimately show ?thesis by (auto simp: i)
qed

end
