(* ===== verification/CRLModel.thy ===== *)
theory CRLModel
  imports CertModel
begin

text \<open>
  What the two CRL caches share (\<open>cert-validation/.../validity/crl\<close>): the CRL and the cache
  record, the environment the caches run in, the file name of a CRL, the choice of a CRL location
  from a CRL distribution point extension, and the contract \<open>crl_cache\<close> that a cache offers to
  the revocation checks. \<open>Cache_Mem\<close> and \<open>Cache_File\<close> interpret the contract.
\<close>

datatype CRLReason =
    UNSPECIFIED | KEY_COMPROMISE | CA_COMPROMISE | AFFILIATION_CHANGED | SUPERSEDED
  | CESSATION_OF_OPERATION | CERTIFICATE_HOLD | UNUSED | REMOVE_FROM_CRL
  | PRIVILEGE_WITHDRAWN | AA_COMPROMISE

record crl_entry =
  revocationDate :: date
  revocationReason :: "CRLReason option"

record crl =
  crlEncoded :: bytes
  crlIssuerDN :: string
  nextUpdate :: "date option"
  revokedEntries :: "(int \<times> crl_entry) list"

definition getRevokedCertificate :: "crl \<Rightarrow> cert \<Rightarrow> crl_entry option" where
  "getRevokedCertificate crl c =
     (if issuerDN c = crlIssuerDN crl then map_of (revokedEntries crl) (serialNumber c) else None)"

definition isRevoked :: "crl \<Rightarrow> cert \<Rightarrow> bool" where
  "isRevoked crl c \<longleftrightarrow> getRevokedCertificate crl c \<noteq> None"

record crl_info =
  location :: string
  infoCrl :: crl

record crl_cache_record =
  lastCache :: int
  recNextUpdate :: int
  url :: string
  fileName :: string

text \<open>
  The text of the JSON file, by what the JSON mapper finds in it: a list of cache records, or
  something else.
\<close>

datatype json_text = CacheDataJson "crl_cache_record list" | OtherText bytes

text \<open>
  The environment of a cache: its settings, the clock, the network, the CRL parser, the SHA-1
  digest, the iteration order of a hash map, the disk and the JSON mapper. What depends on the
  moment takes the number of the event.
\<close>

record crl_env =
  recacheGracePeriod :: int
  connectTimeout :: int
  readTimeout :: int
  clock :: "nat \<Rightarrow> date"
  isURI :: "string \<Rightarrow> bool"
  downloadCrl :: "string \<Rightarrow> int \<Rightarrow> int \<Rightarrow> nat \<Rightarrow> exn + bytes option"
  generateCRL :: "bytes \<Rightarrow> exn + crl"
  sha1 :: "bytes \<Rightarrow> bytes"
  hashOrder :: "string list \<Rightarrow> string list"
  fsFail :: "nat \<Rightarrow> exn option"
  writeJson :: "crl_cache_record list \<Rightarrow> exn + json_text"
  readJson :: "json_text \<Rightarrow> exn + crl_cache_record list"

subsection \<open>The file name of a CRL\<close>

text \<open>\<open>new BigInteger(1, digest).toString(32)\<close>: the digest read as an unsigned number, in base 32.\<close>

definition bytes_to_nat :: "bytes \<Rightarrow> nat" where
  "bytes_to_nat bs = foldl (\<lambda>n b. n * 256 + unat b) 0 bs"

definition digit32 :: "nat \<Rightarrow> char" where
  "digit32 d = ''0123456789abcdefghijklmnopqrstuv'' ! d"

fun toString32 :: "nat \<Rightarrow> string" where
  "toString32 n = (if n < 32 then [digit32 n] else toString32 (n div 32) @ [digit32 (n mod 32)])"

declare toString32.simps [simp del]

text \<open>\<open>getBytes(UTF_8)\<close>: the characters here are those up to code 255, so a character has one byte or two.\<close>

definition utf8_char :: "char \<Rightarrow> bytes" where
  "utf8_char c =
     (let n = (of_char c :: nat) in if n < 128 then [of_nat n] else [of_nat (192 + n div 64), of_nat (128 + n mod 64)])"

definition utf8 :: "string \<Rightarrow> bytes" where
  "utf8 s = concat (map utf8_char s)"

definition getFileName :: "crl_env \<Rightarrow> string \<Rightarrow> string" where
  "getFileName E u = toString32 (bytes_to_nat (sha1 E (utf8 u))) @ ''.crl''"

text \<open>Texts that differ have different encodings.\<close>

lemma byte_of_nat_eq: "a < 256 \<Longrightarrow> b < 256 \<Longrightarrow> of_nat a = (of_nat b :: byte) \<longleftrightarrow> a = b"
  by (simp add: word_of_nat_eq_iff take_bit_eq_mod)

lemma two_bytes: "(n :: nat) < 256 \<Longrightarrow> 192 + n div 64 < 256" "128 + n mod 64 < (256 :: nat)"
  by (simp_all add: div_less_iff_less_mult less_mult_imp_div_less)

lemma utf8_char_cut:
  assumes "utf8_char c @ bs = utf8_char d @ bs'"
  shows "c = d \<and> bs = bs'"
proof -
  obtain m n where mn: "m = (of_char c :: nat)" "n = (of_char d :: nat)" by blast
  have lt: "m < 256" "n < 256" by (simp_all add: mn)
  note w = byte_of_nat_eq[OF lt] byte_of_nat_eq[OF two_bytes(1)[OF lt(1)] two_bytes(1)[OF lt(2)]] byte_of_nat_eq[OF two_bytes(2) two_bytes(2)]
    byte_of_nat_eq[OF lt(1) two_bytes(1)[OF lt(2)]] byte_of_nat_eq[OF two_bytes(1)[OF lt(1)] lt(2)]
  have eq: "(if m < 128 then [of_nat m] else [of_nat (192 + m div 64), of_nat (128 + m mod 64)]) @ bs
      = (if n < 128 then [of_nat n] else [of_nat (192 + n div 64), of_nat (128 + n mod 64)]) @ bs'"
    using assms by (simp only: utf8_char_def Let_def mn)
  have "m = n \<and> bs = bs'"
  proof (cases "m < 128"; cases "n < 128")
    assume "m < 128" "n < 128"
    with eq w(1) show ?thesis by (simp del: of_nat_add)
  next
    assume "\<not> m < 128" "\<not> n < 128"
    with eq w(2) w(3)[of m n] have "m div 64 = n div 64" "m mod 64 = n mod 64" "bs = bs'" by (simp_all del: of_nat_add)
    then show ?thesis by (metis div_mult_mod_eq)
  next
    assume "m < 128" "\<not> n < 128"
    with eq w(4) show ?thesis by (simp del: of_nat_add)
  next
    assume "\<not> m < 128" "n < 128"
    with eq w(5) show ?thesis by (simp del: of_nat_add)
  qed
  then show ?thesis using mn by simp
qed

lemma utf8_char_not_Nil: "utf8_char c \<noteq> []"
  by (simp add: utf8_char_def Let_def)

lemma utf8_inj: "utf8 s = utf8 t \<Longrightarrow> s = t"
proof (induction s arbitrary: t)
  case Nil
  then show ?case by (cases t) (simp_all add: utf8_def utf8_char_not_Nil)
next
  case (Cons c s)
  then obtain d t' where t: "t = d # t'" by (cases t) (simp_all add: utf8_def utf8_char_not_Nil)
  from Cons.prems have "c = d \<and> utf8 s = utf8 t'" unfolding t by (simp add: utf8_def utf8_char_cut)
  with Cons.IH t show ?case by blast
qed

lemma digit32_inj: "a < 32 \<Longrightarrow> b < 32 \<Longrightarrow> digit32 a = digit32 b \<Longrightarrow> a = b"
proof -
  have "distinct ''0123456789abcdefghijklmnopqrstuv''" by simp
  then show "a < 32 \<Longrightarrow> b < 32 \<Longrightarrow> digit32 a = digit32 b \<Longrightarrow> a = b"
    by (simp add: digit32_def distinct_conv_nth nth_eq_iff_index_eq)
qed

lemma toString32_not_Nil: "toString32 n \<noteq> []"
  by (subst toString32.simps) simp

lemma toString32_inj: "toString32 m = toString32 n \<Longrightarrow> m = n"
proof (induction m arbitrary: n rule: toString32.induct)
  case (1 m)
  note unf = toString32.simps[of m] toString32.simps[of n]
  show ?case
  proof (cases "m < 32")
    case True
    with "1.prems" have "n < 32"
      by (auto simp: unf toString32_not_Nil toString32_not_Nil[symmetric] split: if_splits)
    with True "1.prems" show ?thesis
      by (simp add: unf digit32_inj)
  next
    case False
    with "1.prems" have n: "\<not> n < 32"
      by (auto simp: unf toString32_not_Nil toString32_not_Nil[symmetric] split: if_splits)
    with False "1.prems" have "toString32 (m div 32) = toString32 (n div 32)"
      and "digit32 (m mod 32) = digit32 (n mod 32)"
      by (simp_all add: unf)
    then have "m div 32 = n div 32" and "m mod 32 = n mod 32"
      using "1.IH"[OF False] by (auto intro: digit32_inj)
    then show ?thesis by (metis div_mult_mod_eq)
  qed
qed

lemma bytes_to_nat_snoc: "bytes_to_nat (bs @ [b]) = bytes_to_nat bs * 256 + unat b"
  by (simp add: bytes_to_nat_def)

lemma unat_byte_less: "unat (b :: byte) < 256"
  using unsigned_less[of b] by simp

lemma base256_eq: "x * 256 + a = y * 256 + b \<Longrightarrow> a < 256 \<Longrightarrow> b < 256 \<Longrightarrow> x = y \<and> a = (b :: nat)"
proof -
  assume eq: "x * 256 + a = y * 256 + b" and a: "a < 256" and b: "b < 256"
  have "(x * 256 + a) div 256 = x" and "(y * 256 + b) div 256 = y"
    using a b by simp_all
  with eq have "x = y" by simp
  with eq show ?thesis by simp
qed

lemma bytes_to_nat_inj:
  "length as = length bs \<Longrightarrow> bytes_to_nat as = bytes_to_nat bs \<Longrightarrow> as = bs"
proof (induction as arbitrary: bs rule: rev_induct)
  case Nil
  then show ?case by simp
next
  case (snoc a as)
  from snoc.prems(1) obtain b bs' where bs: "bs = bs' @ [b]" and len: "length as = length bs'"
    by (cases bs rule: rev_cases) auto
  from snoc.prems(2) have eq: "bytes_to_nat as * 256 + unat a = bytes_to_nat bs' * 256 + unat b"
    by (simp add: bs bytes_to_nat_snoc)
  have "bytes_to_nat as = bytes_to_nat bs' \<and> unat a = unat b"
    using base256_eq[OF eq unat_byte_less unat_byte_less] .
  then show ?case using snoc.IH[OF len] by (simp add: bs word_unat_eq_iff)
qed

lemma getFileName_eq_iff:
  assumes "\<And>x. length (sha1 E x) = 20"
  shows "getFileName E u = getFileName E v \<longleftrightarrow> sha1 E (utf8 u) = sha1 E (utf8 v)"
  using assms by (auto simp: getFileName_def dest!: toString32_inj bytes_to_nat_inj[rotated])

subsection \<open>Choosing a location from a CRL distribution point extension\<close>

text \<open>
  The loop over the distribution points: the approved URIs and the two flags that only serve the
  error message.
\<close>

record dp_scan =
  approvedUriList :: "string list"
  crlIssuerPresent :: bool
  reasonsPresent :: bool

definition dp_uris :: "general_name list \<Rightarrow> string list" where
  "dp_uris gns = map gname (filter (\<lambda>g. tagNo g = uniformResourceIdentifier) gns)"

definition scan_uri :: "distribution_point \<Rightarrow> string \<Rightarrow> dp_scan \<Rightarrow> dp_scan" where
  "scan_uri dp uri a =
     (if crlIssuer dp = None \<and> reasons dp = None
      then a\<lparr>approvedUriList := approvedUriList a @ [uri]\<rparr>
      else a\<lparr>crlIssuerPresent := crlIssuer dp \<noteq> None \<or> crlIssuerPresent a,
             reasonsPresent := reasons dp \<noteq> None \<or> reasonsPresent a\<rparr>)"

fun scan_dps :: "distribution_point list \<Rightarrow> dp_scan \<Rightarrow> exn + dp_scan" where
  "scan_dps [] a = Inr a"
| "scan_dps (dp # dps) a =
     (case dpName dp of
        None \<Rightarrow> Inl npe
      | Some NameRelativeToCRLIssuer \<Rightarrow> Inl (Exn IllegalArgumentException None)
      | Some (FullName gns) \<Rightarrow> scan_dps dps (fold (scan_uri dp) (dp_uris gns) a))"

definition approved_uris :: "distribution_point list option \<Rightarrow> exn + string list" where
  "approved_uris ext =
     (case ext of
        None \<Rightarrow> Inl npe
      | Some dps \<Rightarrow>
          (case scan_dps dps \<lparr>approvedUriList = [], crlIssuerPresent = False, reasonsPresent = False\<rparr> of
             Inl e \<Rightarrow> Inl e
           | Inr a \<Rightarrow>
               if approvedUriList a = [] \<and> crlIssuerPresent a then
                 Inl (Exn IOException (Some ''No acceptable CRL distribution point found. Declaration of crlIssuer is not allowed''))
               else if approvedUriList a = [] \<and> reasonsPresent a then
                 Inl (Exn IOException (Some ''No acceptable CRL distribution point found. Declaration of reason is not allowed''))
               else Inr (approvedUriList a)))"

text \<open>
  \<open>getCRL(CRLDistPoint)\<close>: the first http URL, and if that fails the first ldap URL. The
  argument \<open>get\<close> is the cache's own \<open>getCRL(String)\<close>; both caches have the same text here.
\<close>

definition try_location ::
  "(string \<Rightarrow> ('s, exn, crl_info) jm) \<Rightarrow> string option \<Rightarrow> ('s, exn, crl_info option) jm" where
  "try_location get loc =
     (case loc of
        None \<Rightarrow> ret None
      | Some u \<Rightarrow> bnd (attempt (get u)) (\<lambda>r. case r of Inl _ \<Rightarrow> ret None | Inr i \<Rightarrow> ret (Some i)))"

definition getCRL_dp ::
  "(string \<Rightarrow> ('s, exn, crl_info) jm) \<Rightarrow> distribution_point list option \<Rightarrow> ('s, exn, crl_info) jm" where
  "getCRL_dp get ext =
     bnd (lift_sum (approved_uris ext)) (\<lambda>uris.
     let httpUrl = List.find (\<lambda>u. startsWith (toLowerCase u) ''http'') uris;
         ldapUrl = List.find (\<lambda>u. startsWith (toLowerCase u) ''ldap'') uris
     in bnd (try_location get httpUrl) (\<lambda>h.
        case h of
          Some i \<Rightarrow> ret i
        | None \<Rightarrow> bnd (try_location get ldapUrl) (\<lambda>l.
            case l of
              Some i \<Rightarrow> ret i
            | None \<Rightarrow> throw (Exn IOException (Some ''No valid CRL could be obtained from the provided CRL distribution point'')))))"

text \<open>The specification of the scan: the URIs of the points with neither issuer nor reasons, in order.\<close>

definition dp_accepted :: "distribution_point \<Rightarrow> bool" where
  "dp_accepted dp \<longleftrightarrow> crlIssuer dp = None \<and> reasons dp = None"

definition dp_all_uris :: "distribution_point \<Rightarrow> string list" where
  "dp_all_uris dp = (case dpName dp of Some (FullName gns) \<Rightarrow> dp_uris gns | _ \<Rightarrow> [])"

lemma fold_scan_uri_approved:
  "approvedUriList (fold (scan_uri dp) us a) = approvedUriList a @ (if dp_accepted dp then us else [])"
  by (induction us arbitrary: a) (auto simp: scan_uri_def dp_accepted_def)

lemma scan_dps_approved:
  "scan_dps dps a = Inr a' \<Longrightarrow>
     approvedUriList a' = approvedUriList a @ concat (map dp_all_uris (filter dp_accepted dps))"
  by (induction dps a rule: scan_dps.induct)
     (auto simp: fold_scan_uri_approved dp_all_uris_def split: option.splits dp_name.splits)

lemma approved_uris_eq:
  "approved_uris (Some dps) = Inr us \<Longrightarrow> us = concat (map dp_all_uris (filter dp_accepted dps))"
  by (auto simp: approved_uris_def dest!: scan_dps_approved split: sum.splits if_splits)

lemma approved_uris_in:
  "approved_uris ext = Inr us \<Longrightarrow> u \<in> set us \<Longrightarrow>
     \<exists>dps dp. ext = Some dps \<and> dp \<in> set dps \<and> dp_accepted dp \<and> u \<in> set (dp_all_uris dp)"
  by (cases ext) (auto simp: approved_uris_def[of None] dest!: approved_uris_eq)

lemma getCRL_dp_run_Inr:
  assumes "getCRL_dp get ext s = (Inr i, s')"
  shows "\<exists>us u s1. approved_uris ext = Inr us \<and> u \<in> set us
           \<and> (startsWith (toLowerCase u) ''http'' \<or> startsWith (toLowerCase u) ''ldap'')
           \<and> get u s1 = (Inr i, s')
           \<and> (s1 = s \<or> (\<exists>u0 e. u0 \<in> set us \<and> get u0 s = (Inl e, s1)))"
  using assms
  by (auto simp: getCRL_dp_def try_location_def jrun_simps Let_def
      split: sum.splits option.splits prod.splits if_splits dest!: find_Some_in)

subsection \<open>The contract of a cache\<close>

text \<open>
  \<open>crl_served E s s' u i\<close>: what a cache promises about an answer given between two states. The
  location is the requested URL up to case, the CRL is the parse of some bytes, and it has not
  expired at a clock reading made during the call.
\<close>

definition crl_served ::
  "crl_env \<Rightarrow> 'a world_scheme \<Rightarrow> 'a world_scheme \<Rightarrow> string \<Rightarrow> crl_info \<Rightarrow> bool" where
  "crl_served E s s' u i \<longleftrightarrow>
     equalsIgnoreCase u (location i)
     \<and> (\<exists>bs. generateCRL E bs = Inr (infoCrl i))
     \<and> (\<exists>n nu. tick s \<le> n \<and> n < tick s' \<and> nextUpdate (infoCrl i) = Some nu \<and> clock E n \<le> nu)"

lemma keeps_getCRL_dp: "(\<And>u. keeps I (get u)) \<Longrightarrow> keeps I (getCRL_dp get ext)"
  unfolding getCRL_dp_def try_location_def Let_def
  by (intro keeps_intros)

text \<open>
  The interface the revocation checks rely on: the look-up by URL and the re-caching keep the
  cache's invariant, time does not run backwards, and what is served is served as promised.
\<close>

locale crl_cache =
  fixes E :: crl_env
    and getCRL :: "string \<Rightarrow> ('a world_scheme, exn, crl_info) jm"
    and recache :: "('a world_scheme, exn, unit) jm"
    and inv :: "'a world_scheme \<Rightarrow> bool"
  assumes getCRL_keeps: "keeps inv (getCRL u)"
    and recache_keeps: "keeps inv recache"
    and getCRL_tick: "inv s \<Longrightarrow> getCRL u s = (r, s') \<Longrightarrow> tick s \<le> tick s'"
    and getCRL_served: "inv s \<Longrightarrow> getCRL u s = (Inr i, s') \<Longrightarrow> crl_served E s s' u i"
begin

lemma getCRL_dp_keeps: "keeps inv (getCRL_dp getCRL ext)"
  by (rule keeps_getCRL_dp) (rule getCRL_keeps)

lemma getCRL_dp_served:
  assumes inv: "inv s" and run: "getCRL_dp getCRL ext s = (Inr i, s')"
  shows "\<exists>dps dp u. ext = Some dps \<and> dp \<in> set dps \<and> dp_accepted dp \<and> u \<in> set (dp_all_uris dp)
           \<and> (startsWith (toLowerCase u) ''http'' \<or> startsWith (toLowerCase u) ''ldap'')
           \<and> crl_served E s s' u i"
proof -
  from getCRL_dp_run_Inr[OF run] obtain us u s1 where
    us: "approved_uris ext = Inr us" "u \<in> set us" and
    sch: "startsWith (toLowerCase u) ''http'' \<or> startsWith (toLowerCase u) ''ldap''" and
    get: "getCRL u s1 = (Inr i, s')" and
    s1: "s1 = s \<or> (\<exists>u0 e. getCRL u0 s = (Inl e, s1))" by blast
  from s1 inv have inv1: "inv s1" and le: "tick s \<le> tick s1"
    using keepsD[OF getCRL_keeps] getCRL_tick[OF inv] by (blast, auto)
  have "crl_served E s s' u i"
    using getCRL_served[OF inv1 get] le unfolding crl_served_def by (meson le_trans)
  with approved_uris_in[OF us] sch show ?thesis by blast
qed

end

subsection \<open>An environment for evaluation\<close>

text \<open>
  A concrete environment on which the witnesses evaluate the caches: the clock advances by one
  millisecond at each event, a CRL revokes nothing and expires when told, the
  digest is the identity, and the JSON mapper reads back what it wrote.
\<close>

definition demo_crl :: "date \<Rightarrow> crl" where
  "demo_crl nu = \<lparr>crlEncoded = [1], crlIssuerDN = ''CN=CA'', nextUpdate = Some nu, revokedEntries = []\<rparr>"

definition demo_env ::
  "(string \<Rightarrow> int \<Rightarrow> int \<Rightarrow> nat \<Rightarrow> exn + bytes option) \<Rightarrow> (bytes \<Rightarrow> exn + crl) \<Rightarrow> crl_env" where
  "demo_env dl gen =
     \<lparr>recacheGracePeriod = 5000, connectTimeout = 1000, readTimeout = 7000,
      clock = (\<lambda>n. 10000 + int n), isURI = (\<lambda>_. True), downloadCrl = dl, generateCRL = gen,
      sha1 = (\<lambda>bs. bs), hashOrder = (\<lambda>ks. ks), fsFail = (\<lambda>_. None),
      writeJson = (\<lambda>rs. Inr (CacheDataJson rs)),
      readJson = (\<lambda>j. case j of CacheDataJson rs \<Rightarrow> Inr rs | OtherText _ \<Rightarrow> Inl (Exn IOException None))\<rparr>"

lemma demo_env_sel [simp]:
  "recacheGracePeriod (demo_env dl gen) = 5000" "connectTimeout (demo_env dl gen) = 1000"
  "readTimeout (demo_env dl gen) = 7000" "clock (demo_env dl gen) n = 10000 + int n"
  "isURI (demo_env dl gen) u" "downloadCrl (demo_env dl gen) = dl" "generateCRL (demo_env dl gen) = gen"
  "sha1 (demo_env dl gen) bs = bs" "hashOrder (demo_env dl gen) ks = ks" "fsFail (demo_env dl gen) n = None"
  "writeJson (demo_env dl gen) rs = Inr (CacheDataJson rs)"
  "readJson (demo_env dl gen) (CacheDataJson rs) = Inr rs"
  by (simp_all add: demo_env_def)

end
