(* ===== verification/Cache_Mem.thy ===== *)
theory Cache_Mem
  imports CRLModel "HOL-Library.AList"
begin

text \<open>
  \<open>InMemoryCRLCache\<close> (\<open>cert-validation/.../crl/impl/InMemoryCRLCache.java\<close>). The state is the
  two hash maps; a hash map is an association list with distinct keys, and the order in which its
  keys are visited is the environment's \<open>hashOrder\<close>. Cache records are objects: re-caching
  updates the record in the map in place.
\<close>

record mem_cache = world +
  crlCacheMap :: "(string \<times> crl_cache_record) list"
  crlDataMap :: "(string \<times> bytes option) list"

subsection \<open>Operations\<close>

definition mem_getCachedCrl :: "crl_env \<Rightarrow> string \<Rightarrow> (mem_cache, exn, crl) jm" where
  "mem_getCachedCrl E f =
     bnd (gets (\<lambda>s. map_of (crlDataMap s) f)) (\<lambda>d.
       case d of
         Some (Some bs) \<Rightarrow>
           (case generateCRL E bs of
              Inr c \<Rightarrow> ret c
            | Inl e \<Rightarrow> throw (if exn_class e \<in> {CertificateException, CRLException}
                              then wrap_runtime e else e))
       | _ \<Rightarrow> throw npe)"

definition mem_cacheCrlRecord ::
  "crl_env \<Rightarrow> crl_cache_record \<Rightarrow> (mem_cache, exn, crl_cache_record) jm" where
  "mem_cacheCrlRecord E r =
     bnd (read_env (clock E)) (\<lambda>now.
     if now < jlong (lastCache r + recacheGracePeriod E) then ret r
     else
       bnd (call_env (downloadCrl E (url r) (connectTimeout E) (readTimeout E))) (\<lambda>bs.
       sq (upd (\<lambda>s. s\<lparr>crlDataMap := AList.update (fileName r) bs (crlDataMap s)\<rparr>))
       (bnd (mem_getCachedCrl E (fileName r)) (\<lambda>c.
       bnd (read_env (clock E)) (\<lambda>now2.
       bnd (deref (nextUpdate c)) (\<lambda>nu.
       if nu < now2 then
         sq (upd (\<lambda>s. s\<lparr>crlCacheMap := AList.delete (url r) (crlCacheMap s),
                        crlDataMap := AList.delete (fileName r) (crlDataMap s)\<rparr>))
            (throw (Exn IOException (Some ''Downloaded CRL expired'')))
       else
         bnd (read_env (clock E)) (\<lambda>now3.
         ret (r\<lparr>recNextUpdate := nu, lastCache := now3\<rparr>))))))))"

definition mem_records :: "crl_env \<Rightarrow> mem_cache \<Rightarrow> crl_cache_record list" where
  "mem_records E s =
     List.map_filter (map_of (crlCacheMap s)) (hashOrder E (map fst (crlCacheMap s)))"

definition mem_fetch :: "crl_env \<Rightarrow> string \<Rightarrow> (mem_cache, exn, crl_info) jm" where
  "mem_fetch E u =
     bnd (attempt
       (let r = \<lparr>lastCache = 0, recNextUpdate = 0, url = u, fileName = getFileName E u\<rparr> in
        bnd (mem_cacheCrlRecord E r) (\<lambda>r'.
        sq (upd (\<lambda>s. s\<lparr>crlCacheMap := AList.update (url r') r' (crlCacheMap s)\<rparr>))
        (bnd (mem_getCachedCrl E (fileName r')) (\<lambda>c.
         ret \<lparr>location = url r', infoCrl = c\<rparr>)))))
     (\<lambda>x. case x of Inl e \<Rightarrow> throw (Exn IOException (getMessage e)) | Inr i \<Rightarrow> ret i)"

definition mem_getCRL :: "crl_env \<Rightarrow> string \<Rightarrow> (mem_cache, exn, crl_info) jm" where
  "mem_getCRL E u =
     (if \<not> isURI E u then throw (Exn IOException (Some (''Malformed url in requested CRL: '' @ u)))
      else
        bnd (gets (\<lambda>s. List.find (\<lambda>r. equalsIgnoreCase u (url r)) (mem_records E s))) (\<lambda>ro.
        case ro of
          None \<Rightarrow> mem_fetch E u
        | Some r \<Rightarrow>
            bnd (mem_getCachedCrl E (fileName r)) (\<lambda>c.
            bnd (read_env (clock E)) (\<lambda>now.
            bnd (deref (nextUpdate c)) (\<lambda>nu.
            if now < nu then ret \<lparr>location = url r, infoCrl = c\<rparr> else mem_fetch E u)))))"

definition mem_getCRL_dp ::
  "crl_env \<Rightarrow> distribution_point list option \<Rightarrow> (mem_cache, exn, crl_info) jm" where
  "mem_getCRL_dp E = getCRL_dp (mem_getCRL E)"

text \<open>
  One visit of the re-caching loop: the record is fetched from the map, cached, and written back
  (in the source it is updated in place). The value is the list of records that failed.
\<close>

definition mem_recache_one ::
  "crl_env \<Rightarrow> string \<Rightarrow> crl_cache_record list \<Rightarrow> (mem_cache, exn, crl_cache_record list) jm" where
  "mem_recache_one E k bad =
     bnd (gets (\<lambda>s. map_of (crlCacheMap s) k)) (\<lambda>ro.
     bnd (deref ro) (\<lambda>r.
     bnd (attempt (mem_cacheCrlRecord E r)) (\<lambda>x.
     case x of
       Inl e \<Rightarrow> ret (bad @ [r])
     | Inr r' \<Rightarrow> sq (upd (\<lambda>s. s\<lparr>crlCacheMap := AList.update k r' (crlCacheMap s)\<rparr>)) (ret bad))))"

primrec mem_recache_loop ::
  "crl_env \<Rightarrow> string list \<Rightarrow> crl_cache_record list \<Rightarrow> (mem_cache, exn, crl_cache_record list) jm" where
  "mem_recache_loop E [] bad = ret bad"
| "mem_recache_loop E (k # ks) bad = bnd (mem_recache_one E k bad) (mem_recache_loop E ks)"

definition mem_remove_bad :: "crl_cache_record \<Rightarrow> (mem_cache, exn, unit) jm" where
  "mem_remove_bad r =
     upd (\<lambda>s. s\<lparr>crlCacheMap := AList.delete (url r) (crlCacheMap s),
                crlDataMap := AList.delete (fileName r) (crlDataMap s)\<rparr>)"

text \<open>
  The loop runs inside \<open>forEach\<close> over the key set: when the key set has changed during the
  traversal, \<open>HashMap\<close>'s spliterator throws \<open>ConcurrentModificationException\<close> after it.
\<close>

definition mem_recache :: "crl_env \<Rightarrow> (mem_cache, exn, unit) jm" where
  "mem_recache E =
     try_catch
       (bnd (gets (\<lambda>s. map fst (crlCacheMap s))) (\<lambda>ks.
        bnd (mem_recache_loop E (hashOrder E ks) []) (\<lambda>bad.
        bnd (gets (\<lambda>s. map fst (crlCacheMap s))) (\<lambda>ks'.
        if ks' \<noteq> ks then throw (Exn ConcurrentModificationException None)
        else for_each mem_remove_bad bad))))
       (\<lambda>_. ret ())"

text \<open>The constructor: two empty maps, then a first re-caching.\<close>

definition mem_init :: "crl_env \<Rightarrow> nat \<Rightarrow> (exn + unit) \<times> mem_cache" where
  "mem_init E n = mem_recache E \<lparr>tick = n, crlCacheMap = [], crlDataMap = []\<rparr>"

subsection \<open>Invariant\<close>

definition map_wf :: "crl_env \<Rightarrow> (string \<times> crl_cache_record) list \<Rightarrow> bool" where
  "map_wf E al \<longleftrightarrow>
     distinct (map fst al) \<and> (\<forall>(k, r) \<in> set al. url r = k \<and> fileName r = getFileName E k)"

text \<open>The grace period has passed since the epoch: otherwise a first download is skipped.\<close>

definition grace_ok :: "crl_env \<Rightarrow> bool" where
  "grace_ok E \<longleftrightarrow> (\<forall>n. jlong (recacheGracePeriod E) \<le> clock E n)"

definition mem_inv :: "crl_env \<Rightarrow> mem_cache \<Rightarrow> bool" where
  "mem_inv E s \<longleftrightarrow> map_wf E (crlCacheMap s) \<and> grace_ok E"

lemma set_AList_update: "set (AList.update k v al) \<subseteq> insert (k, v) (set al)"
  by (induction al) auto

lemma map_wf_update:
  assumes "map_wf E al" "url r = k" "fileName r = getFileName E k"
  shows "map_wf E (AList.update k r al)"
  using assms set_AList_update[of k r al]
  by (auto simp: map_wf_def distinct_update)

lemma map_wf_delete [simp]: "map_wf E al \<Longrightarrow> map_wf E (AList.delete k al)"
  by (auto simp: map_wf_def AList.delete_eq distinct_map_filter)

lemma map_wf_lookup:
  "map_wf E al \<Longrightarrow> map_of al k = Some r \<Longrightarrow> url r = k \<and> fileName r = getFileName E k"
  by (auto simp: map_wf_def dest: map_of_SomeD)

text \<open>The data stored for a file parses to a CRL that was unexpired during the call.\<close>

definition mem_fresh :: "crl_env \<Rightarrow> mem_cache \<Rightarrow> mem_cache \<Rightarrow> string \<Rightarrow> bool" where
  "mem_fresh E s s' f \<longleftrightarrow>
     (\<exists>bs c nu n. map_of (crlDataMap s') f = Some (Some bs) \<and> generateCRL E bs = Inr c
        \<and> nextUpdate c = Some nu \<and> tick s \<le> n \<and> n < tick s' \<and> clock E n \<le> nu)"

lemma jwp_mem_getCachedCrl [jwp_simps]:
  "jwp (mem_getCachedCrl E f) Q R =
     (\<lambda>s. case map_of (crlDataMap s) f of
        Some (Some bs) \<Rightarrow>
          (case generateCRL E bs of
             Inr c \<Rightarrow> Q c s
           | Inl e \<Rightarrow> R (if exn_class e \<in> {CertificateException, CRLException}
                         then wrap_runtime e else e) s)
      | _ \<Rightarrow> R npe s)"
  by (auto simp: mem_getCachedCrl_def jwp_simps fun_eq_iff split: option.split sum.split)

lemma mem_cacheCrlRecord_wp:
  assumes "map_wf E (crlCacheMap s)"
  shows "jwp (mem_cacheCrlRecord E r)
     (\<lambda>r' s'. crlCacheMap s' = crlCacheMap s \<and> tick s \<le> tick s' \<and> url r' = url r \<and> fileName r' = fileName r
        \<and> (clock E (tick s) < jlong (lastCache r + recacheGracePeriod E) \<or> mem_fresh E s s' (fileName r)))
     (\<lambda>e s'. map_wf E (crlCacheMap s') \<and> tick s \<le> tick s') s"
  using assms
  by (auto simp: mem_cacheCrlRecord_def jwp_simps mem_fresh_def update_conv'
      split: option.splits sum.splits intro!: exI[of _ "Suc (Suc (tick s))"])

lemma mem_fetch_wp:
  assumes "map_wf E (crlCacheMap s)"
  shows "jwp (mem_fetch E u)
     (\<lambda>i s'. map_wf E (crlCacheMap s') \<and> tick s \<le> tick s' \<and> (grace_ok E \<longrightarrow> crl_served E s s' u i))
     (\<lambda>e s'. map_wf E (crlCacheMap s') \<and> tick s \<le> tick s') s"
proof -
  let ?r = "\<lparr>lastCache = 0, recNextUpdate = 0, url = u, fileName = getFileName E u\<rparr>"
  have grace: "grace_ok E \<Longrightarrow> \<not> clock E (tick s) < jlong (lastCache ?r + recacheGracePeriod E)"
    by (auto simp: grace_ok_def not_less)
  show ?thesis
    unfolding mem_fetch_def jwp_simps Let_def
    by (rule jwp_mono[OF mem_cacheCrlRecord_wp[OF assms, of ?r]])
       (use assms grace in \<open>auto simp: mem_fresh_def crl_served_def intro!: map_wf_update split: option.splits sum.splits\<close>)
qed

lemma mem_records_frame [simp]:
  "mem_records E (s\<lparr>tick := n\<rparr>) = mem_records E s" "mem_records E (s\<lparr>crlDataMap := d\<rparr>) = mem_records E s"
  by (simp_all add: mem_records_def)

lemma mem_records_in:
  "r \<in> set (mem_records E s) \<Longrightarrow> \<exists>k. map_of (crlCacheMap s) k = Some r"
  by (auto simp: mem_records_def map_filter_def)

lemma mem_getCRL_wp:
  assumes "map_wf E (crlCacheMap s)"
  shows "jwp (mem_getCRL E u)
     (\<lambda>i s'. map_wf E (crlCacheMap s') \<and> tick s \<le> tick s' \<and> (grace_ok E \<longrightarrow> crl_served E s s' u i))
     (\<lambda>e s'. map_wf E (crlCacheMap s') \<and> tick s \<le> tick s') s"
proof -
  have fetch: "jwp (mem_fetch E u)
     (\<lambda>i s'. map_wf E (crlCacheMap s') \<and> tick s \<le> tick s' \<and> (grace_ok E \<longrightarrow> crl_served E s s' u i))
     (\<lambda>e s'. map_wf E (crlCacheMap s') \<and> tick s \<le> tick s') (s\<lparr>tick := Suc (tick s)\<rparr>)"
    by (rule jwp_mono[OF mem_fetch_wp]) (use assms in \<open>auto simp: crl_served_def intro: Suc_leD\<close>)
  show ?thesis
    using fetch mem_fetch_wp[OF assms] assms
    by (auto simp: mem_getCRL_def jwp_simps crl_served_def dest!: find_Some_in
        split: option.splits sum.splits intro!: exI[of _ "tick s"])
qed

lemma mem_recache_one_wp:
  assumes "map_wf E (crlCacheMap s)"
  shows "jwp (mem_recache_one E k bad) (\<lambda>_ s'. map_wf E (crlCacheMap s')) (\<lambda>e s'. map_wf E (crlCacheMap s')) s"
proof (cases "map_of (crlCacheMap s) k")
  case None
  with assms show ?thesis by (simp add: mem_recache_one_def jwp_simps)
next
  case (Some r)
  show ?thesis
    unfolding mem_recache_one_def jwp_simps Some option.case
    by (rule jwp_mono[OF mem_cacheCrlRecord_wp[OF assms, of r]])
       (use assms map_wf_lookup[OF assms Some] in \<open>auto simp: jwp_simps intro!: map_wf_update\<close>)
qed

lemma keeps_mem_recache_loop: "keeps (\<lambda>s. map_wf E (crlCacheMap s)) (mem_recache_loop E ks bad)"
proof (induction ks arbitrary: bad)
  case Nil
  show ?case by (simp add: keeps_ret)
next
  case (Cons k ks)
  have "keeps (\<lambda>s. map_wf E (crlCacheMap s)) (mem_recache_one E k bad)"
    by (rule keepsI) (rule mem_recache_one_wp)
  then show ?case using Cons.IH by (simp add: keeps_bnd)
qed

lemma keeps_mem_recache: "keeps (\<lambda>s. map_wf E (crlCacheMap s)) (mem_recache E)"
proof -
  have "keeps (\<lambda>s. map_wf E (crlCacheMap s)) (mem_remove_bad r)" for r
    unfolding mem_remove_bad_def by (rule keeps_upd) simp
  then show ?thesis
    unfolding mem_recache_def by (intro keeps_intros keeps_mem_recache_loop)
qed

interpretation mcache: crl_cache E "mem_getCRL E" "mem_recache E" "mem_inv E" for E
proof unfold_locales
  fix u s s' i and r :: "exn + crl_info"
  show "keeps (mem_inv E) (mem_getCRL E u)"
    by (rule keepsI) (auto simp: mem_inv_def intro!: jwp_mono[OF mem_getCRL_wp])
  show "keeps (mem_inv E) (mem_recache E)"
    using keeps_mem_recache[of E] by (auto simp: mem_inv_def keeps_def jwp_def split: prod.splits sum.splits)
  show "mem_inv E s \<Longrightarrow> mem_getCRL E u s = (r, s') \<Longrightarrow> tick s \<le> tick s'"
    using mem_getCRL_wp[of E s u] by (auto simp: mem_inv_def jwp_def split: sum.splits)
  show "mem_inv E s \<Longrightarrow> mem_getCRL E u s = (Inr i, s') \<Longrightarrow> crl_served E s s' u i"
    using mem_getCRL_wp[of E s u] by (auto simp: mem_inv_def jwp_def)
qed

lemma grace_ok_demo [simp]: "grace_ok (demo_env dl gen)"
  by (simp add: grace_ok_def jlong_id)

subsection \<open>Properties\<close>

text \<open>
  What \<open>InMemoryCRLCache.getCRL(CRLDistPoint)\<close> returns was obtained from a URI of a
  distribution point that names neither a CRL issuer nor reasons, over http or ldap; its location
  is that URI up to case, the CRL is the parse of bytes, and it had not expired at a clock reading
  made during the call.
\<close>

theorem mem_getCRL_dp_sound:
  assumes "mem_inv E s" and "mem_getCRL_dp E ext s = (Inr i, s')"
  shows "\<exists>dps dp u. ext = Some dps \<and> dp \<in> set dps \<and> dp_accepted dp \<and> u \<in> set (dp_all_uris dp)
           \<and> (startsWith (toLowerCase u) ''http'' \<or> startsWith (toLowerCase u) ''ldap'')
           \<and> crl_served E s s' u i"
  using mcache.getCRL_dp_served assms unfolding mem_getCRL_dp_def by blast

definition demo_dp :: "string \<Rightarrow> distribution_point" where
  "demo_dp u = \<lparr>dpName = Some (FullName [\<lparr>tagNo = 6, gname = u\<rparr>]), crlIssuer = None, reasons = None\<rparr>"

definition mem_empty :: mem_cache where
  "mem_empty = \<lparr>tick = 0, crlCacheMap = [], crlDataMap = []\<rparr>"

lemma map_wf_empty [simp]: "map_wf E []"
  by (simp add: map_wf_def)

lemma toLowerCase_http: "startsWith (toLowerCase ''http://a'') ''http''"
  by code_simp

lemmas mem_run_simps =
  mem_getCRL_dp_def getCRL_dp_def try_location_def approved_uris_def demo_dp_def dp_uris_def
  scan_uri_def uniformResourceIdentifier_def mem_getCRL_def mem_records_def mem_fetch_def
  mem_cacheCrlRecord_def mem_getCachedCrl_def map_filter_def mem_empty_def Let_def jlong_id demo_crl_def

theorem mem_getCRL_dp_sound_witness:
  "\<exists>i s'. mem_getCRL_dp (demo_env (\<lambda>_ _ _ _. Inr (Some [1])) (\<lambda>_. Inr (demo_crl 20000))) (Some [demo_dp ''http://a'']) mem_empty = (Inr i, s')
     \<and> (\<exists>u. u \<in> set (dp_all_uris (demo_dp ''http://a'')) \<and>
          crl_served (demo_env (\<lambda>_ _ _ _. Inr (Some [1])) (\<lambda>_. Inr (demo_crl 20000))) mem_empty s' u i)"
proof -
  let ?E = "demo_env (\<lambda>_ _ _ _. Inr (Some [1])) (\<lambda>_. Inr (demo_crl 20000))"
  have inv: "mem_inv ?E mem_empty" by (simp add: mem_inv_def mem_empty_def)
  obtain i s' where run: "mem_getCRL_dp ?E (Some [demo_dp ''http://a'']) mem_empty = (Inr i, s')"
    by (auto simp: mem_run_simps jrun_simps toLowerCase_http)
  show ?thesis
    using mem_getCRL_dp_sound[OF inv run] run by auto
qed

text \<open>
  A transient network failure disables the in-memory cache for a URL. When the cached CRL of a URL
  has expired and the download answers with no data (what the default connector returns when the
  connection fails), the look-up fails and leaves null stored for the URL; from then on every look-up of the
  URL ends in a \<open>NullPointerException\<close> without contacting the server, whatever the server would
  answer.
\<close>

theorem mem_cache_poisoned:
  assumes "isURI E u" and "grace_ok E"
    and r: "List.find (\<lambda>r. equalsIgnoreCase u (url r)) (mem_records E s) = Some r"
    and fn: "fileName r = getFileName E u"
    and "map_of (crlDataMap s) (fileName r) = Some (Some bs)" and "generateCRL E bs = Inr c"
    and "nextUpdate c = Some nu" and "nu \<le> clock E (tick s)"
    and "downloadCrl E u (connectTimeout E) (readTimeout E) (Suc (Suc (tick s))) = Inr None"
  shows "\<exists>s1. mem_getCRL E u s = (Inl (Exn IOException None), s1)
           \<and> (\<forall>n. mem_getCRL E u (s1\<lparr>tick := n\<rparr>) = (Inl npe, s1\<lparr>tick := n\<rparr>))"
proof -
  have g: "\<not> clock E (Suc (tick s)) < jlong (recacheGracePeriod E)"
    using assms(2) by (simp add: grace_ok_def not_less)
  let ?s1 = "s\<lparr>tick := tick s + 3, crlDataMap := AList.update (fileName r) None (crlDataMap s)\<rparr>"
  have "mem_getCRL E u s = (Inl (Exn IOException None), ?s1)"
    using assms g by (simp add: mem_getCRL_def mem_fetch_def mem_cacheCrlRecord_def mem_getCachedCrl_def
        Let_def
        jrun_simps update_conv' eval_nat_numeral)
  moreover have "mem_getCRL E u (?s1\<lparr>tick := n\<rparr>) = (Inl npe, ?s1\<lparr>tick := n\<rparr>)" for n
    using assms(1) r by (simp add: mem_getCRL_def mem_getCachedCrl_def jrun_simps update_conv')
  ultimately show ?thesis by blast
qed

definition stale_mem_cache :: mem_cache where
  "stale_mem_cache = \<lparr>tick = 0,
     crlCacheMap = [(''u'', \<lparr>lastCache = 0, recNextUpdate = 0, url = ''u'', fileName = getFileName (demo_env (\<lambda>_ _ _ _. Inl npe) (\<lambda>_. Inl npe)) ''u''\<rparr>)],
     crlDataMap = [(getFileName (demo_env (\<lambda>_ _ _ _. Inl npe) (\<lambda>_. Inl npe)) ''u'', Some [0])]\<rparr>"

text \<open>In the witness the server answers with no data once, at event 2, and with a good CRL ever after.\<close>

definition flaky_mem_env :: crl_env where
  "flaky_mem_env = demo_env (\<lambda>_ _ _ n. if n = 2 then Inr None else Inr (Some [1]))
     (\<lambda>bs. Inr (demo_crl (if bs = [0] then 0 else 1000000)))"

theorem mem_cache_poisoned_witness:
  "\<exists>s1. mem_getCRL flaky_mem_env ''u'' stale_mem_cache = (Inl (Exn IOException None), s1)
     \<and> (\<forall>n. mem_getCRL flaky_mem_env ''u'' (s1\<lparr>tick := n\<rparr>) = (Inl npe, s1\<lparr>tick := n\<rparr>))"
proof -
  let ?f = "getFileName (demo_env (\<lambda>_ _ _ _. Inl npe) (\<lambda>_. Inl npe)) ''u''"
  have f: "getFileName flaky_mem_env ''u'' = ?f" by (simp add: getFileName_def flaky_mem_env_def)
  show ?thesis
    by (rule mem_cache_poisoned[where r = "\<lparr>lastCache = 0, recNextUpdate = 0, url = ''u'', fileName = ?f\<rparr>"
          and bs = "[0]" and c = "demo_crl 0" and nu = 0])
       (simp_all add: f, simp_all add: flaky_mem_env_def stale_mem_cache_def mem_records_def map_filter_def demo_crl_def)
qed

text \<open>
  Re-caching the in-memory cache does not remove a URL that could not be downloaded when, in the
  same pass, another URL delivered an expired CRL. Dropping the expired one changes the key set
  during the traversal, the traversal ends in a \<open>ConcurrentModificationException\<close>, which is
  swallowed, and the removal of the failed URLs is skipped: the failed record stays, with null
  for its data.
\<close>

theorem mem_recache_skips_removal:
  assumes map: "crlCacheMap s = [(url ra, ra), (url rb, rb)]" and ne: "url ra \<noteq> url rb"
    and order: "hashOrder E [url ra, url rb] = [url ra, url rb]"
    and grace: "\<And>n. jlong (lastCache ra + recacheGracePeriod E) \<le> clock E n"
      "\<And>n. jlong (lastCache rb + recacheGracePeriod E) \<le> clock E n"
    and a: "\<And>n. downloadCrl E (url ra) (connectTimeout E) (readTimeout E) n = Inr (Some bs)"
      "generateCRL E bs = Inr c" "nextUpdate c = Some nu" "\<And>n. nu < clock E n"
    and b: "\<And>n. downloadCrl E (url rb) (connectTimeout E) (readTimeout E) n = Inr None"
  shows "\<exists>s'. mem_recache E s = (Inr (), s') \<and> map_of (crlCacheMap s') (url ra) = None
           \<and> map_of (crlCacheMap s') (url rb) = Some rb
           \<and> map_of (crlDataMap s') (fileName rb) = Some None"
  using assms
  by (auto simp: mem_recache_def mem_recache_one_def mem_cacheCrlRecord_def mem_getCachedCrl_def
      jrun_simps update_conv' not_less[symmetric])

theorem mem_recache_skips_removal_witness:
  "\<exists>s'. mem_recache (demo_env (\<lambda>u _ _ _. if u = ''a'' then Inr (Some [0]) else Inr None) (\<lambda>_. Inr (demo_crl 0)))
      \<lparr>tick = 0, crlCacheMap = [(''a'', \<lparr>lastCache = 0, recNextUpdate = 0, url = ''a'', fileName = ''fa''\<rparr>),
                              (''b'', \<lparr>lastCache = 0, recNextUpdate = 0, url = ''b'', fileName = ''fb''\<rparr>)],
       crlDataMap = []\<rparr> = (Inr (), s')
     \<and> map_of (crlCacheMap s') ''b'' = Some \<lparr>lastCache = 0, recNextUpdate = 0, url = ''b'', fileName = ''fb''\<rparr>"
proof -
  let ?E = "demo_env (\<lambda>u _ _ _. if u = ''a'' then Inr (Some [0]) else Inr None) (\<lambda>_. Inr (demo_crl 0))"
  let ?a = "\<lparr>lastCache = 0, recNextUpdate = 0, url = ''a'', fileName = ''fa''\<rparr>"
  let ?b = "\<lparr>lastCache = 0, recNextUpdate = 0, url = ''b'', fileName = ''fb''\<rparr>"
  let ?s = "\<lparr>tick = 0, crlCacheMap = [(''a'', ?a), (''b'', ?b)], crlDataMap = []\<rparr> :: mem_cache"
  have "\<exists>s'. mem_recache ?E ?s = (Inr (), s') \<and> map_of (crlCacheMap s') (url ?a) = None
           \<and> map_of (crlCacheMap s') (url ?b) = Some ?b \<and> map_of (crlDataMap s') (fileName ?b) = Some None"
    by (rule mem_recache_skips_removal[where bs = "[0]" and c = "demo_crl 0" and nu = 0])
       (simp_all add: jlong_id demo_crl_def)
  then show ?thesis by auto
qed

end
