(* ===== verification/Cache_File.thy ===== *)
theory Cache_File
  imports Cache_Mem
begin

text \<open>
  \<open>CRLCacheImpl\<close> (\<open>cert-validation/.../crl/impl/CRLCacheImpl.java\<close>). The state is the list of
  cache records (null until the first reload succeeds), the files of the cache and temp
  directories and the JSON file that holds the list. A write or a copy either happens as a whole
  or fails with the exception of the environment's \<open>fsFail\<close>.
\<close>

record file_cache = world +
  crlCacheData :: "crl_cache_record list option"
  cacheFiles :: "(string \<times> bytes) list"
  tempFiles :: "(string \<times> bytes) list"
  crlCacheFile :: "json_text option"

subsection \<open>Operations\<close>

definition fs_op :: "crl_env \<Rightarrow> (file_cache \<Rightarrow> file_cache) \<Rightarrow> (file_cache, exn, unit) jm" where
  "fs_op E f = sq (call_env (\<lambda>n. case fsFail E n of Some e \<Rightarrow> Inl e | None \<Rightarrow> Inr ())) (upd f)"

text \<open>\<open>getCachedCrl(File)\<close>: an absent file is a \<open>FileNotFoundException\<close>.\<close>

definition file_parse :: "crl_env \<Rightarrow> bytes option \<Rightarrow> (file_cache, exn, crl) jm" where
  "file_parse E content =
     (case content of
        None \<Rightarrow> throw (Exn IOException (Some ''No such file''))
      | Some bs \<Rightarrow> lift_sum (generateCRL E bs))"

definition file_getCachedCrl :: "crl_env \<Rightarrow> string \<Rightarrow> (file_cache, exn, crl) jm" where
  "file_getCachedCrl E f =
     bnd (attempt (bnd (gets (\<lambda>s. map_of (cacheFiles s) f)) (file_parse E)))
       (\<lambda>x. case x of Inl e \<Rightarrow> throw (Exn IOException (getMessage e)) | Inr c \<Rightarrow> ret c)"

definition file_cacheCrlRecord ::
  "crl_env \<Rightarrow> crl_cache_record \<Rightarrow> (file_cache, exn, crl_cache_record) jm" where
  "file_cacheCrlRecord E r =
     bnd (read_env (clock E)) (\<lambda>now.
     if now < jlong (lastCache r + recacheGracePeriod E) then ret r
     else
       bnd (call_env (downloadCrl E (url r) (connectTimeout E) (readTimeout E))) (\<lambda>d.
       bnd (deref d) (\<lambda>bs.
       sq (fs_op E (\<lambda>s. s\<lparr>tempFiles := AList.update (fileName r) bs (tempFiles s)\<rparr>))
       (bnd (bnd (gets (\<lambda>s. map_of (tempFiles s) (fileName r))) (file_parse E)) (\<lambda>c.
       bnd (read_env (clock E)) (\<lambda>now2.
       bnd (deref (nextUpdate c)) (\<lambda>nu.
       if nu < now2 then
         sq (upd (\<lambda>s. s\<lparr>tempFiles := AList.delete (fileName r) (tempFiles s)\<rparr>))
            (throw (Exn IOException (Some ''Downloaded CRL expired'')))
       else
         bnd (read_env (clock E)) (\<lambda>now3.
         sq (fs_op E (\<lambda>s. s\<lparr>cacheFiles := AList.update (fileName r) bs (cacheFiles s)\<rparr>))
         (sq (upd (\<lambda>s. s\<lparr>tempFiles := AList.delete (fileName r) (tempFiles s)\<rparr>))
         (ret (r\<lparr>recNextUpdate := nu, lastCache := now3\<rparr>)))))))))))"

definition file_save :: "crl_env \<Rightarrow> (file_cache, exn, unit) jm" where
  "file_save E =
     bnd (gets crlCacheData) (\<lambda>d.
     bnd (lift_sum (writeJson E (case d of None \<Rightarrow> [] | Some rs \<Rightarrow> rs))) (\<lambda>bs.
     fs_op E (\<lambda>s. s\<lparr>crlCacheFile := Some bs\<rparr>)))"

definition file_fetch :: "crl_env \<Rightarrow> string \<Rightarrow> (file_cache, exn, crl_info) jm" where
  "file_fetch E u =
     bnd (attempt
       (let r = \<lparr>lastCache = 0, recNextUpdate = 0, url = u, fileName = getFileName E u\<rparr> in
        bnd (file_cacheCrlRecord E r) (\<lambda>r'.
        bnd (gets crlCacheData) (\<lambda>d.
        bnd (deref d) (\<lambda>rs.
        sq (upd (\<lambda>s. s\<lparr>crlCacheData := Some (rs @ [r'])\<rparr>))
        (sq (file_save E)
        (bnd (file_getCachedCrl E (fileName r')) (\<lambda>c.
         ret \<lparr>location = url r', infoCrl = c\<rparr>))))))))
     (\<lambda>x. case x of Inl e \<Rightarrow> throw (Exn IOException (getMessage e)) | Inr i \<Rightarrow> ret i)"

definition file_getCRL :: "crl_env \<Rightarrow> string \<Rightarrow> (file_cache, exn, crl_info) jm" where
  "file_getCRL E u =
     (if \<not> isURI E u then throw (Exn IOException (Some (''Malformed url in requested CRL: '' @ u)))
      else
        bnd (gets crlCacheData) (\<lambda>d.
        bnd (deref d) (\<lambda>rs.
        case List.find (\<lambda>r. equalsIgnoreCase u (url r)) rs of
          None \<Rightarrow> file_fetch E u
        | Some r \<Rightarrow>
            bnd (file_getCachedCrl E (fileName r)) (\<lambda>c.
            bnd (read_env (clock E)) (\<lambda>now.
            bnd (deref (nextUpdate c)) (\<lambda>nu.
            if now < nu then ret \<lparr>location = url r, infoCrl = c\<rparr> else file_fetch E u))))))"

definition file_getCRL_dp ::
  "crl_env \<Rightarrow> distribution_point list option \<Rightarrow> (file_cache, exn, crl_info) jm" where
  "file_getCRL_dp E = getCRL_dp (file_getCRL E)"

definition file_reload :: "crl_env \<Rightarrow> (file_cache, exn, unit) jm" where
  "file_reload E =
     bnd (gets crlCacheFile) (\<lambda>f.
     case f of
       None \<Rightarrow> sq (upd (\<lambda>s. s\<lparr>crlCacheData := Some []\<rparr>)) (file_save E)
     | Some bs \<Rightarrow>
         bnd (lift_sum (readJson E bs)) (\<lambda>rs. upd (\<lambda>s. s\<lparr>crlCacheData := Some rs\<rparr>)))"

text \<open>One visit of the re-caching loop, at position \<open>i\<close> of the list; the value is the list of bad URLs.\<close>

definition file_recache_one ::
  "crl_env \<Rightarrow> nat \<Rightarrow> string list \<Rightarrow> (file_cache, exn, string list) jm" where
  "file_recache_one E i bad =
     bnd (gets crlCacheData) (\<lambda>d.
     bnd (deref d) (\<lambda>rs.
     let r = rs ! i in
     bnd (attempt (file_cacheCrlRecord E r)) (\<lambda>x.
     case x of
       Inl e \<Rightarrow> ret (bad @ [url r])
     | Inr r' \<Rightarrow> sq (upd (\<lambda>s. s\<lparr>crlCacheData := Some (rs[i := r'])\<rparr>)) (ret bad))))"

primrec file_recache_loop ::
  "crl_env \<Rightarrow> nat list \<Rightarrow> string list \<Rightarrow> (file_cache, exn, string list) jm" where
  "file_recache_loop E [] bad = ret bad"
| "file_recache_loop E (i # is) bad = bnd (file_recache_one E i bad) (file_recache_loop E is)"

definition file_purge :: "string list \<Rightarrow> file_cache \<Rightarrow> file_cache" where
  "file_purge bad s =
     (case crlCacheData s of
        None \<Rightarrow> s
      | Some rs \<Rightarrow>
          s\<lparr>cacheFiles := fold (\<lambda>r. AList.delete (fileName r)) (filter (\<lambda>r. url r \<in> set bad) rs) (cacheFiles s),
            crlCacheData := Some (filter (\<lambda>r. url r \<notin> set bad) rs)\<rparr>)"

definition file_recache :: "crl_env \<Rightarrow> (file_cache, exn, unit) jm" where
  "file_recache E =
     try_catch
       (sq (file_reload E)
       (bnd (gets crlCacheData) (\<lambda>d.
        bnd (deref d) (\<lambda>rs.
        bnd (file_recache_loop E [0..<length rs] []) (\<lambda>bad.
        sq (if bad = [] then ret () else upd (file_purge bad))
        (file_save E))))))
       (\<lambda>_. ret ())"

text \<open>The constructor: no list yet, then a first re-caching over what the directories hold.\<close>

definition file_init ::
  "crl_env \<Rightarrow> nat \<Rightarrow> (string \<times> bytes) list \<Rightarrow> json_text option \<Rightarrow> (exn + unit) \<times> file_cache" where
  "file_init E n files json =
     file_recache E \<lparr>tick = n, crlCacheData = None, cacheFiles = files, tempFiles = [], crlCacheFile = json\<rparr>"

subsection \<open>What is served\<close>

lemma jwp_fs_op [jwp_simps]:
  "jwp (fs_op E f) Q R =
     (\<lambda>s. case fsFail E (tick s) of
        Some e \<Rightarrow> R e (s\<lparr>tick := Suc (tick s)\<rparr>)
      | None \<Rightarrow> Q () (f (s\<lparr>tick := Suc (tick s)\<rparr>)))"
  by (auto simp: fs_op_def jwp_simps fun_eq_iff split: option.split)

lemma jwp_file_parse [jwp_simps]:
  "jwp (file_parse E d) Q R =
     (case d of
        None \<Rightarrow> R (Exn IOException (Some ''No such file''))
      | Some bs \<Rightarrow> (case generateCRL E bs of Inl e \<Rightarrow> R e | Inr c \<Rightarrow> Q c))"
  by (simp add: file_parse_def jwp_simps split: option.split)

text \<open>The file stored under a name parses to a CRL that was unexpired during the call.\<close>

definition file_fresh :: "crl_env \<Rightarrow> file_cache \<Rightarrow> file_cache \<Rightarrow> string \<Rightarrow> bool" where
  "file_fresh E s s' f \<longleftrightarrow>
     (\<exists>bs c nu n. map_of (cacheFiles s') f = Some bs \<and> generateCRL E bs = Inr c
        \<and> nextUpdate c = Some nu \<and> tick s \<le> n \<and> n < tick s' \<and> clock E n \<le> nu)"

lemma file_cacheCrlRecord_wp:
  "jwp (file_cacheCrlRecord E r)
     (\<lambda>r' s'. tick s \<le> tick s' \<and> url r' = url r \<and> fileName r' = fileName r
        \<and> crlCacheData s' = crlCacheData s \<and> crlCacheFile s' = crlCacheFile s
        \<and> (\<forall>f. f \<noteq> fileName r \<longrightarrow> map_of (cacheFiles s') f = map_of (cacheFiles s) f)
        \<and> ((clock E (tick s) < jlong (lastCache r + recacheGracePeriod E) \<and> cacheFiles s' = cacheFiles s)
           \<or> file_fresh E s s' (fileName r)))
     (\<lambda>e s'. tick s \<le> tick s' \<and> crlCacheData s' = crlCacheData s \<and> crlCacheFile s' = crlCacheFile s
        \<and> cacheFiles s' = cacheFiles s) s"
  by (auto simp: file_cacheCrlRecord_def jwp_simps file_fresh_def update_conv'
      split: option.splits sum.splits intro!: exI[of _ "Suc (Suc (Suc (tick s)))"])

lemma jwp_file_getCachedCrl [jwp_simps]:
  "jwp (file_getCachedCrl E f) Q R =
     (\<lambda>s. case map_of (cacheFiles s) f of
        None \<Rightarrow> R (Exn IOException (Some ''No such file'')) s
      | Some bs \<Rightarrow> (case generateCRL E bs of
            Inr c \<Rightarrow> Q c s
          | Inl e \<Rightarrow> R (if is_exception e then Exn IOException (getMessage e) else e) s))"
  by (auto simp: file_getCachedCrl_def jwp_simps fun_eq_iff split: option.split sum.split)

lemma file_fetch_wp:
  "jwp (file_fetch E u)
     (\<lambda>i s'. tick s \<le> tick s' \<and> (grace_ok E \<longrightarrow> crl_served E s s' u i)) (\<lambda>e s'. tick s \<le> tick s') s"
proof -
  let ?r = "\<lparr>lastCache = 0, recNextUpdate = 0, url = u, fileName = getFileName E u\<rparr>"
  have grace: "grace_ok E \<Longrightarrow> \<not> clock E (tick s) < jlong (lastCache ?r + recacheGracePeriod E)"
    by (auto simp: grace_ok_def not_less)
  show ?thesis
    unfolding file_fetch_def jwp_simps Let_def
    by (rule jwp_mono[OF file_cacheCrlRecord_wp[of E ?r]])
       (use grace in \<open>auto simp: file_fresh_def crl_served_def file_save_def jwp_simps
          split: option.splits sum.splits\<close>)
qed

lemma file_getCRL_wp:
  "jwp (file_getCRL E u)
     (\<lambda>i s'. tick s \<le> tick s' \<and> (grace_ok E \<longrightarrow> crl_served E s s' u i)) (\<lambda>e s'. tick s \<le> tick s') s"
proof -
  have fetch: "jwp (file_fetch E u)
     (\<lambda>i s'. tick s \<le> tick s' \<and> (grace_ok E \<longrightarrow> crl_served E s s' u i)) (\<lambda>e s'. tick s \<le> tick s')
     (s\<lparr>tick := Suc (tick s)\<rparr>)"
    by (rule jwp_mono[OF file_fetch_wp]) (auto simp: crl_served_def intro: Suc_leD)
  show ?thesis
    using fetch file_fetch_wp[of E u s]
    by (auto simp: file_getCRL_def jwp_simps crl_served_def dest!: find_Some_in
        split: option.splits sum.splits intro!: exI[of _ "tick s"])
qed

interpretation fcache: crl_cache E "file_getCRL E" "file_recache E" "\<lambda>_. grace_ok E" for E
proof unfold_locales
  fix u s s' i and r :: "exn + crl_info"
  show "keeps (\<lambda>_. grace_ok E) (file_getCRL E u)" "keeps (\<lambda>_. grace_ok E) (file_recache E)"
    by (auto simp: keeps_def jwp_def split: prod.splits sum.splits)
  show "file_getCRL E u s = (r, s') \<Longrightarrow> tick s \<le> tick s'"
    using file_getCRL_wp[of E u s] by (auto simp: jwp_def split: sum.splits)
  show "grace_ok E \<Longrightarrow> file_getCRL E u s = (Inr i, s') \<Longrightarrow> crl_served E s s' u i"
    using file_getCRL_wp[of E u s] by (auto simp: jwp_def)
qed

subsection \<open>A cache that stays healthy\<close>

text \<open>
  Every record of the list has its file, and the file parses to a CRL with a next update; the
  JSON file holds the list. \<open>U\<close> is the set of URLs in use, on which the file names are distinct.
\<close>

definition rec_ok :: "crl_env \<Rightarrow> (string \<times> bytes) list \<Rightarrow> crl_cache_record \<Rightarrow> bool" where
  "rec_ok E files r \<longleftrightarrow> fileName r = getFileName E (url r)
     \<and> (\<exists>bs c nu. map_of files (fileName r) = Some bs \<and> generateCRL E bs = Inr c \<and> nextUpdate c = Some nu)"

definition file_env_ok :: "crl_env \<Rightarrow> string set \<Rightarrow> bool" where
  "file_env_ok E U \<longleftrightarrow> grace_ok E \<and> (\<forall>n. fsFail E n = None)
     \<and> (\<forall>rs. \<exists>bs. writeJson E rs = Inr bs \<and> readJson E bs = Inr rs) \<and> inj_on (getFileName E) U"

definition recs_healthy :: "crl_env \<Rightarrow> string set \<Rightarrow> nat \<Rightarrow> file_cache \<Rightarrow> bool" where
  "recs_healthy E U n s \<longleftrightarrow>
     (\<exists>rs. crlCacheData s = Some rs \<and> length rs = n \<and> (\<forall>r \<in> set rs. url r \<in> U \<and> rec_ok E (cacheFiles s) r))"

definition file_healthy :: "crl_env \<Rightarrow> string set \<Rightarrow> file_cache \<Rightarrow> bool" where
  "file_healthy E U s \<longleftrightarrow> (\<exists>n. recs_healthy E U n s)
     \<and> (\<exists>bs rs. crlCacheFile s = Some bs \<and> crlCacheData s = Some rs \<and> readJson E bs = Inr rs)"

lemma recs_healthy_tick [simp]: "recs_healthy E U n (s\<lparr>tick := k\<rparr>) = recs_healthy E U n s"
  by (simp add: recs_healthy_def)

lemma file_healthy_tick [simp]: "file_healthy E U (s\<lparr>tick := k\<rparr>) = file_healthy E U s"
  by (simp add: file_healthy_def)

text \<open>Replacing the file of one record by a fresh one keeps every record healthy.\<close>

lemma rec_ok_fresh:
  assumes "rec_ok E (cacheFiles s) r"
    and "\<And>f'. f' \<noteq> f \<Longrightarrow> map_of (cacheFiles s') f' = map_of (cacheFiles s) f'"
    and "cacheFiles s' = cacheFiles s \<or> file_fresh E s0 s' f"
  shows "rec_ok E (cacheFiles s') r"
  using assms by (cases "fileName r = f") (auto simp: rec_ok_def file_fresh_def)

lemma rec_ok_new:
  "file_fresh E s0 s' (fileName r) \<Longrightarrow> fileName r = getFileName E (url r) \<Longrightarrow> rec_ok E (cacheFiles s') r"
  by (auto simp: rec_ok_def file_fresh_def)

lemma rec_ok_cong:
  "url r' = url r \<Longrightarrow> fileName r' = fileName r \<Longrightarrow> rec_ok E files r' = rec_ok E files r"
  by (simp add: rec_ok_def)

lemma file_save_healthy:
  assumes "file_env_ok E U" and "recs_healthy E U n s"
  shows "\<exists>s'. file_save E s = (Inr (), s') \<and> file_healthy E U s' \<and> cacheFiles s' = cacheFiles s
           \<and> crlCacheData s' = crlCacheData s \<and> tick s' = Suc (tick s)"
proof -
  from assms(2) obtain rs where rs: "crlCacheData s = Some rs" by (auto simp: recs_healthy_def)
  from assms(1) obtain bs where "writeJson E rs = Inr bs" "readJson E bs = Inr rs"
    unfolding file_env_ok_def by meson
  then show ?thesis
    using assms rs
    by (auto simp: file_save_def fs_op_def jrun_simps file_env_ok_def file_healthy_def recs_healthy_def)
qed

lemma jwp_file_save:
  assumes "file_env_ok E U" and "recs_healthy E U n s"
    and "\<And>s'. file_healthy E U s' \<Longrightarrow> cacheFiles s' = cacheFiles s \<Longrightarrow> tick s' = Suc (tick s) \<Longrightarrow> Q () s'"
  shows "jwp (file_save E) Q R s"
  using file_save_healthy[OF assms(1,2)] assms(3) by (auto simp: jwp_def)

lemma recs_healthy_add:
  assumes h: "recs_healthy E U n s" and d: "crlCacheData s' = crlCacheData s"
    and o: "\<And>f. f \<noteq> fileName r \<Longrightarrow> map_of (cacheFiles s') f = map_of (cacheFiles s) f"
    and fr: "file_fresh E s0 s' (fileName r)" and fn: "fileName r = getFileName E (url r)" and u: "url r \<in> U"
    and rs: "crlCacheData s = Some rs"
  shows "recs_healthy E U (Suc n) (s'\<lparr>crlCacheData := Some (rs @ [r])\<rparr>)"
proof -
  have "\<forall>x \<in> set rs. url x \<in> U \<and> rec_ok E (cacheFiles s') x"
    using h rs rec_ok_fresh[of E s _ "fileName r" s' s0] o fr by (auto simp: recs_healthy_def)
  moreover have "rec_ok E (cacheFiles s') r" by (rule rec_ok_new[OF fr fn])
  ultimately show ?thesis using h rs u by (auto simp: recs_healthy_def)
qed

lemma file_healthy_same:
  "file_healthy E U s \<Longrightarrow> crlCacheData s' = crlCacheData s \<Longrightarrow> crlCacheFile s' = crlCacheFile s \<Longrightarrow>
     cacheFiles s' = cacheFiles s \<Longrightarrow> file_healthy E U s'"
  by (simp add: file_healthy_def recs_healthy_def)

lemma file_fetch_healthy:
  assumes env: "file_env_ok E U" and h: "file_healthy E U s" and u: "u \<in> U"
  shows "jwp (file_fetch E u) (\<lambda>_. file_healthy E U) (\<lambda>_. file_healthy E U) s"
proof -
  let ?r = "\<lparr>lastCache = 0, recNextUpdate = 0, url = u, fileName = getFileName E u\<rparr>"
  from h obtain n rs where hn: "recs_healthy E U n s" and rs: "crlCacheData s = Some rs"
    by (auto simp: file_healthy_def)
  have ng: "\<not> clock E (tick s) < jlong (lastCache ?r + recacheGracePeriod E)"
    using env by (auto simp: file_env_ok_def grace_ok_def not_less)
  show ?thesis
    unfolding file_fetch_def jwp_simps Let_def
  proof (rule jwp_mono[OF file_cacheCrlRecord_wp[of E ?r s]], goal_cases)
    case (1 r' s')
    then have fresh: "file_fresh E s s' (fileName r')" using ng by auto
    have hs: "recs_healthy E U (Suc n) (s'\<lparr>crlCacheData := Some (rs @ [r'])\<rparr>)"
      by (rule recs_healthy_add[OF hn _ _ fresh _ _ rs]) (use 1 u in simp_all)
    show ?case
      using 1 fresh rs
      by (auto simp: file_fresh_def jwp_simps intro!: jwp_file_save[OF env hs])
  next
    case (2 e s')
    then show ?case using file_healthy_same[OF h] by (auto simp: jwp_simps)
  qed
qed

lemma file_getCRL_healthy:
  assumes env: "file_env_ok E U" and h: "file_healthy E U s" and u: "u \<in> U"
  shows "jwp (file_getCRL E u) (\<lambda>_. file_healthy E U) (\<lambda>_. file_healthy E U) s"
  using h file_fetch_healthy[OF env h u] file_fetch_healthy[OF env _ u, of "s\<lparr>tick := Suc (tick s)\<rparr>"]
  by (auto simp: file_getCRL_def jwp_simps split: option.splits sum.splits)

text \<open>The re-caching loop keeps the records healthy at every position it visits.\<close>

lemma file_recache_one_healthy:
  assumes h: "recs_healthy E U n s" and i: "i < n"
  shows "jwp (file_recache_one E i bad) (\<lambda>_. recs_healthy E U n)
           (\<lambda>e s'. recs_healthy E U n s' \<and> \<not> is_exception e) s"
proof -
  from h obtain rs where rs: "crlCacheData s = Some rs" "length rs = n"
    and ok: "\<forall>r \<in> set rs. url r \<in> U \<and> rec_ok E (cacheFiles s) r"
    by (auto simp: recs_healthy_def)
  have ri: "rs ! i \<in> set rs" using rs i by simp
  show ?thesis
    unfolding file_recache_one_def jwp_simps rs option.case Let_def
  proof (rule jwp_mono[OF file_cacheCrlRecord_wp[of E "rs ! i" s]], goal_cases)
    case (1 r' s')
    have all: "url r \<in> U \<and> rec_ok E (cacheFiles s') r" if "r \<in> set rs" for r
      using ok that 1 rec_ok_fresh[of E s r "fileName (rs ! i)" s' s] by blast
    have "url r' \<in> U \<and> rec_ok E (cacheFiles s') r'"
      using all[OF ri] 1 rec_ok_cong[of r' "rs ! i"] by simp
    then show ?case
      using all rs by (auto simp: jwp_simps recs_healthy_def dest!: set_update_subset_insert[THEN subsetD])
  next
    case (2 e s')
    then show ?case using h by (auto simp: jwp_simps recs_healthy_def)
  qed
qed

lemma file_recache_loop_healthy:
  assumes "recs_healthy E U n s" and "\<forall>i \<in> set is. i < n"
  shows "jwp (file_recache_loop E is bad) (\<lambda>_. recs_healthy E U n)
           (\<lambda>e s'. recs_healthy E U n s' \<and> \<not> is_exception e) s"
  using assms
proof (induction "is" arbitrary: bad s)
  case Nil
  then show ?case by (simp add: jwp_simps)
next
  case (Cons i "is")
  have "jwp (file_recache_one E i bad) (\<lambda>_. recs_healthy E U n)
          (\<lambda>e s'. recs_healthy E U n s' \<and> \<not> is_exception e) s"
    by (rule file_recache_one_healthy) (use Cons.prems in auto)
  then show ?case
    unfolding file_recache_loop.simps jwp_bnd
    by (rule jwp_mono) (use Cons.IH Cons.prems in auto)
qed

lemma map_of_fold_delete:
  "k \<notin> fileName ` set rs \<Longrightarrow> map_of (fold (\<lambda>r. AList.delete (fileName r)) rs files) k = map_of files k"
  by (induction rs arbitrary: files) auto

lemma file_purge_healthy:
  assumes env: "file_env_ok E U" and h: "recs_healthy E U n s"
  shows "\<exists>m. recs_healthy E U m (file_purge bad s)"
proof -
  from h obtain rs where rs: "crlCacheData s = Some rs"
    and ok: "\<forall>r \<in> set rs. url r \<in> U \<and> rec_ok E (cacheFiles s) r"
    by (auto simp: recs_healthy_def)
  have inj: "inj_on (getFileName E) U" using env by (simp add: file_env_ok_def)
  have "rec_ok E (cacheFiles (file_purge bad s)) r" if r: "r \<in> set rs" "url r \<notin> set bad" for r
  proof -
    have "fileName r \<notin> fileName ` set (filter (\<lambda>r. url r \<in> set bad) rs)"
    proof
      assume "fileName r \<in> fileName ` set (filter (\<lambda>r. url r \<in> set bad) rs)"
      then obtain x where x: "x \<in> set rs" "url x \<in> set bad" "fileName r = fileName x" by auto
      then have "getFileName E (url r) = getFileName E (url x)" using r ok by (simp add: rec_ok_def)
      then have "url r = url x" using inj_onD[OF inj] r x ok by blast
      then show False using r x by simp
    qed
    then show ?thesis
      using ok r by (auto simp: file_purge_def rs rec_ok_def map_of_fold_delete)
  qed
  then show ?thesis using ok by (auto simp: recs_healthy_def file_purge_def rs)
qed

subsection \<open>Availability\<close>

text \<open>From event \<open>k\<close> on, the server of a URL answers with a CRL that does not expire.\<close>

definition server_ok :: "crl_env \<Rightarrow> string \<Rightarrow> nat \<Rightarrow> bool" where
  "server_ok E u k \<longleftrightarrow>
     (\<forall>n \<ge> k. \<exists>bs c nu. downloadCrl E u (connectTimeout E) (readTimeout E) n = Inr (Some bs)
        \<and> generateCRL E bs = Inr c \<and> nextUpdate c = Some nu \<and> (\<forall>m \<ge> k. clock E m \<le> nu))"

lemma file_cacheCrlRecord_succeeds:
  assumes "file_env_ok E U" and "server_ok E (url r) k" and "k \<le> tick s"
  shows "jwp (file_cacheCrlRecord E r) (\<lambda>_ _. True) (\<lambda>_ _. False) s"
proof -
  obtain bs c nu where
    "downloadCrl E (url r) (connectTimeout E) (readTimeout E) (Suc (tick s)) = Inr (Some bs)"
    "generateCRL E bs = Inr c" "nextUpdate c = Some nu" "\<And>m. k \<le> m \<Longrightarrow> \<not> nu < clock E m"
    using assms(2,3) unfolding server_ok_def not_less by (meson le_SucI)
  then show ?thesis
    using assms(1,3) by (auto simp: file_cacheCrlRecord_def jwp_simps file_env_ok_def update_conv')
qed

lemma file_fetch_succeeds:
  assumes env: "file_env_ok E U" and h: "file_healthy E U s" and u: "u \<in> U"
    and srv: "server_ok E u k" and k: "k \<le> tick s"
  shows "jwp (file_fetch E u) (\<lambda>_ _. True) (\<lambda>_ _. False) s"
proof -
  let ?r = "\<lparr>lastCache = 0, recNextUpdate = 0, url = u, fileName = getFileName E u\<rparr>"
  from h obtain n rs where hn: "recs_healthy E U n s" and rs: "crlCacheData s = Some rs"
    by (auto simp: file_healthy_def)
  have ng: "\<not> clock E (tick s) < jlong (lastCache ?r + recacheGracePeriod E)"
    using env by (auto simp: file_env_ok_def grace_ok_def not_less)
  have ok: "jwp (file_cacheCrlRecord E ?r) (\<lambda>_ _. True) (\<lambda>_ _. False) s"
    by (rule file_cacheCrlRecord_succeeds[OF env _ k]) (simp add: srv)
  show ?thesis
    unfolding file_fetch_def jwp_simps Let_def
  proof (rule jwp_mono[OF jwp_conj[OF file_cacheCrlRecord_wp[of E ?r s] ok]], goal_cases)
    case (1 r' s')
    then have fresh: "file_fresh E s s' (fileName r')" using ng by auto
    have hs: "recs_healthy E U (Suc n) (s'\<lparr>crlCacheData := Some (rs @ [r'])\<rparr>)"
      by (rule recs_healthy_add[OF hn _ _ fresh _ _ rs]) (use 1 u in simp_all)
    show ?case
      using 1 fresh rs by (auto simp: file_fresh_def jwp_simps intro!: jwp_file_save[OF env hs])
  next
    case (2 e s')
    then show ?case by simp
  qed
qed

lemma file_getCRL_succeeds:
  assumes env: "file_env_ok E U" and h: "file_healthy E U s" and u: "u \<in> U" "isURI E u"
    and srv: "server_ok E u k" and k: "k \<le> tick s"
  shows "jwp (file_getCRL E u) (\<lambda>_ _. True) (\<lambda>_ _. False) s"
proof -
  from h obtain rs where rs: "crlCacheData s = Some rs" "\<forall>r \<in> set rs. rec_ok E (cacheFiles s) r"
    by (auto simp: file_healthy_def recs_healthy_def)
  have f: "jwp (file_fetch E u) (\<lambda>_ _. True) (\<lambda>_ _. False) s"
    "jwp (file_fetch E u) (\<lambda>_ _. True) (\<lambda>_ _. False) (s\<lparr>tick := Suc (tick s)\<rparr>)"
    by (rule file_fetch_succeeds[OF env _ u(1) srv], simp_all add: h k le_SucI)+
  show ?thesis
  proof (cases "List.find (\<lambda>r. equalsIgnoreCase u (url r)) rs")
    case None
    then show ?thesis using u f rs(1) by (simp add: file_getCRL_def jwp_simps)
  next
    case (Some r)
    then obtain bs c nu where "map_of (cacheFiles s) (fileName r) = Some bs"
      "generateCRL E bs = Inr c" "nextUpdate c = Some nu"
      using rs(2) by (auto simp: rec_ok_def dest!: find_Some_in)
    then show ?thesis using Some u f rs(1) by (simp add: file_getCRL_def jwp_simps)
  qed
qed

text \<open>
  A run of the cache: any sequence of look-ups and re-cachings, whatever each of them answers.
\<close>

datatype cache_call = Lookup string | Recache

fun file_call :: "crl_env \<Rightarrow> cache_call \<Rightarrow> file_cache \<Rightarrow> file_cache" where
  "file_call E (Lookup u) s = snd (file_getCRL E u s)"
| "file_call E Recache s = snd (file_recache E s)"

primrec call_in :: "string set \<Rightarrow> cache_call \<Rightarrow> bool" where
  "call_in U (Lookup u) \<longleftrightarrow> u \<in> U"
| "call_in U Recache \<longleftrightarrow> True"

text \<open>No call to the network or the parser ends in an \<open>Error\<close>.\<close>

definition no_errors :: "crl_env \<Rightarrow> bool" where
  "no_errors E \<longleftrightarrow> (\<forall>u c r n e. downloadCrl E u c r n = Inl e \<longrightarrow> is_exception e)
     \<and> (\<forall>bs e. generateCRL E bs = Inl e \<longrightarrow> is_exception e)"

lemma file_cacheCrlRecord_exceptions:
  assumes "no_errors E" and "\<And>n. fsFail E n = None"
  shows "jwp (file_cacheCrlRecord E r) (\<lambda>_ _. True) (\<lambda>e _. is_exception e) s"
  using assms
  by (auto simp: file_cacheCrlRecord_def jwp_simps no_errors_def split: option.splits sum.splits)

lemma file_recache_one_no_throw:
  assumes "no_errors E" and "\<And>n. fsFail E n = None" and "crlCacheData s \<noteq> None"
  shows "jwp (file_recache_one E i bad) (\<lambda>_ s'. crlCacheData s' \<noteq> None) (\<lambda>_ _. False) s"
proof -
  from assms(3) obtain rs where rs: "crlCacheData s = Some rs" by auto
  show ?thesis
    unfolding file_recache_one_def jwp_simps rs option.case Let_def
    by (rule jwp_mono[OF jwp_conj[OF file_cacheCrlRecord_wp[of E "rs ! i" s]
              file_cacheCrlRecord_exceptions[OF assms(1,2), of "rs ! i" s]]])
       (auto simp: jwp_simps rs)
qed

lemma file_recache_loop_no_throw:
  assumes "no_errors E" and "\<And>n. fsFail E n = None" and "crlCacheData s \<noteq> None"
  shows "jwp (file_recache_loop E is bad) (\<lambda>_ s'. crlCacheData s' \<noteq> None) (\<lambda>_ _. False) s"
  using assms(3)
proof (induction "is" arbitrary: bad s)
  case Nil
  then show ?case by (simp add: jwp_simps)
next
  case (Cons i "is")
  show ?case
    unfolding file_recache_loop.simps jwp_bnd
    by (rule jwp_mono[OF file_recache_one_no_throw[OF assms(1,2) Cons.prems]]) (use Cons.IH in auto)
qed

lemma file_recache_healthy_no_errors:
  assumes env: "file_env_ok E U" and ne: "no_errors E" and h: "file_healthy E U s"
  shows "jwp (file_recache E) (\<lambda>_. file_healthy E U) (\<lambda>_ _. False) s"
proof -
  from h obtain n bs rs where hn: "recs_healthy E U n s"
    and f: "crlCacheFile s = Some bs" "crlCacheData s = Some rs" "readJson E bs = Inr rs"
    by (auto simp: file_healthy_def)
  have len: "length rs = n" and same: "s\<lparr>crlCacheData := Some rs\<rparr> = s"
    using hn f by (auto simp: recs_healthy_def)
  have fs: "\<And>n. fsFail E n = None" using env by (simp add: file_env_ok_def)
  have d: "crlCacheData s \<noteq> None" using f by simp
  have hloop: "jwp (file_recache_loop E [0..<n] []) (\<lambda>_. recs_healthy E U n)
      (\<lambda>e s'. recs_healthy E U n s' \<and> \<not> is_exception e) s"
    by (rule file_recache_loop_healthy[OF hn]) simp
  have save: "jwp (file_save E) (\<lambda>_. file_healthy E U) R s'" if "recs_healthy E U m s'" for R s' m
    by (rule jwp_file_save[OF env that])
  show ?thesis
    unfolding file_recache_def file_reload_def jwp_simps f option.case sum.case same len
  proof (rule jwp_mono[OF jwp_conj[OF hloop file_recache_loop_no_throw[OF ne fs d]]], goal_cases)
    case (1 bad s')
    then show ?case
      using save file_purge_healthy[OF env, of n s' bad] by (auto simp: jwp_simps)
  next
    case (2 e s')
    then show ?case by simp
  qed
qed

lemma file_call_healthy:
  assumes "file_env_ok E U" "no_errors E" "file_healthy E U s" "call_in U c"
  shows "file_healthy E U (file_call E c s)"
proof (cases c)
  case (Lookup u)
  then show ?thesis
    using file_getCRL_healthy[OF assms(1,3), of u] assms(4)
    by (auto simp: jwp_def split: prod.splits sum.splits)
next
  case Recache
  then show ?thesis
    using file_recache_healthy_no_errors[OF assms(1-3)]
    by (auto simp: jwp_def split: prod.splits sum.splits)
qed

lemma file_run_healthy:
  assumes "file_env_ok E U" "no_errors E" "file_healthy E U s" "\<forall>c \<in> set cs. call_in U c"
  shows "file_healthy E U (fold (file_call E) cs s)"
  using assms(3,4)
  by (induction cs arbitrary: s) (auto intro: file_call_healthy[OF assms(1,2)])

subsection \<open>Where the files come from\<close>

text \<open>Bytes that the server of a URL has delivered before an event.\<close>

definition from_server :: "crl_env \<Rightarrow> nat \<Rightarrow> string \<Rightarrow> bytes \<Rightarrow> bool" where
  "from_server E n u bs \<longleftrightarrow> (\<exists>m < n. downloadCrl E u (connectTimeout E) (readTimeout E) m = Inr (Some bs))"

definition recs_named :: "crl_env \<Rightarrow> string set \<Rightarrow> crl_cache_record list \<Rightarrow> bool" where
  "recs_named E U rs \<longleftrightarrow> (\<forall>r \<in> set rs. url r \<in> U \<and> fileName r = getFileName E (url r))"

text \<open>
  A genuine cache: the file with the name of a URL in use was delivered by the server of that URL, and the records, in the list and
  in the JSON file, have URLs in use with their file names.
\<close>

definition file_genuine :: "crl_env \<Rightarrow> string set \<Rightarrow> file_cache \<Rightarrow> bool" where
  "file_genuine E U s \<longleftrightarrow>
     (\<forall>u \<in> U. \<forall>bs. map_of (cacheFiles s) (getFileName E u) = Some bs \<longrightarrow> from_server E (tick s) u bs)
     \<and> (\<forall>rs. crlCacheData s = Some rs \<longrightarrow> recs_named E U rs)
     \<and> (\<forall>js rs. crlCacheFile s = Some js \<longrightarrow> readJson E js = Inr rs \<longrightarrow> recs_named E U rs)"

definition cache_env_ok :: "crl_env \<Rightarrow> string set \<Rightarrow> bool" where
  "cache_env_ok E U \<longleftrightarrow> grace_ok E \<and> (\<forall>rs js. writeJson E rs = Inr js \<longrightarrow> readJson E js = Inr rs) \<and> inj_on (getFileName E) U"

lemma from_server_later: "from_server E n u bs \<Longrightarrow> n \<le> k \<Longrightarrow> from_server E k u bs"
  unfolding from_server_def by (meson less_le_trans)

lemma genuine_later:
  assumes "file_genuine E U s" "tick s \<le> tick s'" "crlCacheData s' = crlCacheData s" "crlCacheFile s' = crlCacheFile s"
    and "\<And>f bs. map_of (cacheFiles s') f = Some bs \<Longrightarrow> map_of (cacheFiles s) f = Some bs"
  shows "file_genuine E U s'"
  using assms from_server_later unfolding file_genuine_def by metis

lemma genuine_data: "file_genuine E U s \<Longrightarrow> recs_named E U rs \<Longrightarrow> file_genuine E U (s\<lparr>crlCacheData := Some rs\<rparr>)"
  by (simp add: file_genuine_def)

text \<open>Writing the file of a URL with what its server has delivered.\<close>

lemma genuine_write:
  assumes "cache_env_ok E U" "file_genuine E U s" "u \<in> U" "from_server E (tick s') u bs" "tick s \<le> tick s'"
    and "cacheFiles s' = AList.update (getFileName E u) bs (cacheFiles s)" "crlCacheData s' = crlCacheData s" "crlCacheFile s' = crlCacheFile s"
  shows "file_genuine E U s'"
proof -
  have "from_server E (tick s') v cs" if v: "v \<in> U" "map_of (cacheFiles s') (getFileName E v) = Some cs" for v cs
  proof (cases "v = u")
    case True
    with v assms(4,6) show ?thesis by (simp add: update_conv')
  next
    case False
    then have "getFileName E v \<noteq> getFileName E u" using assms(1,3) v(1) by (auto simp: cache_env_ok_def inj_on_def)
    then have "map_of (cacheFiles s) (getFileName E v) = Some cs" using v(2) assms(6) by (simp add: update_conv')
    with assms(2) v(1) have "from_server E (tick s) v cs" by (auto simp: file_genuine_def)
    with assms(5) show ?thesis by (rule from_server_later[rotated])
  qed
  with assms(2,7,8) show ?thesis by (simp add: file_genuine_def)
qed

lemma file_cacheCrlRecord_genuine:
  assumes env: "cache_env_ok E U" and s: "file_genuine E U s" and r: "url r \<in> U" "fileName r = getFileName E (url r)"
  shows "jwp (file_cacheCrlRecord E r) (\<lambda>_. file_genuine E U) (\<lambda>_. file_genuine E U) s"
proof -
  have "jwp (file_cacheCrlRecord E r)
     (\<lambda>r' s'. tick s \<le> tick s' \<and> crlCacheData s' = crlCacheData s \<and> crlCacheFile s' = crlCacheFile s
        \<and> (cacheFiles s' = cacheFiles s
           \<or> (\<exists>bs. cacheFiles s' = AList.update (fileName r) bs (cacheFiles s) \<and> from_server E (tick s') (url r) bs)))
     (\<lambda>e s'. tick s \<le> tick s' \<and> crlCacheData s' = crlCacheData s \<and> crlCacheFile s' = crlCacheFile s
        \<and> cacheFiles s' = cacheFiles s) s"
    by (auto simp: file_cacheCrlRecord_def jwp_simps from_server_def split: option.splits sum.splits intro!: exI[of _ "Suc (tick s)"])
  moreover have keep: "file_genuine E U s'" if "tick s \<le> tick s'" "crlCacheData s' = crlCacheData s" "crlCacheFile s' = crlCacheFile s"
    "cacheFiles s' = cacheFiles s" for s' by (rule genuine_later[OF s that(1-3)]) (simp add: that(4))
  ultimately show ?thesis
    by (elim jwp_mono) (auto intro: keep genuine_write[OF env s r(1)] simp: r(2))
qed

lemma file_save_genuine:
  assumes "cache_env_ok E U" "file_genuine E U s"
  shows "jwp (file_save E) (\<lambda>_ s'. file_genuine E U s' \<and> tick s \<le> tick s' \<and> cacheFiles s' = cacheFiles s)
     (\<lambda>_. file_genuine E U) s"
proof -
  have "recs_named E U (case crlCacheData s of None \<Rightarrow> [] | Some rs \<Rightarrow> rs)"
    using assms(2) by (cases "crlCacheData s") (auto simp: file_genuine_def recs_named_def)
  then show ?thesis
    using assms genuine_later[OF assms(2), of "s\<lparr>tick := Suc (tick s)\<rparr>"]
    by (auto simp: file_save_def jwp_simps cache_env_ok_def split: sum.splits option.splits)
       (auto simp: file_genuine_def from_server_def less_Suc_eq)
qed

text \<open>What a look-up gives: the location is the URL up to case, and the CRL is the parse of bytes that the server of the location has delivered.\<close>

definition crl_from :: "crl_env \<Rightarrow> nat \<Rightarrow> string \<Rightarrow> crl_info \<Rightarrow> bool" where
  "crl_from E n u i \<longleftrightarrow>
     equalsIgnoreCase u (location i) \<and> (\<exists>bs. from_server E n (location i) bs \<and> generateCRL E bs = Inr (infoCrl i))"

lemma genuine_crl:
  "file_genuine E U s \<Longrightarrow> v \<in> U \<Longrightarrow> map_of (cacheFiles s) (getFileName E v) = Some bs \<Longrightarrow> generateCRL E bs = Inr c \<Longrightarrow> equalsIgnoreCase u v
     \<Longrightarrow> tick s \<le> n \<Longrightarrow> crl_from E n u \<lparr>location = v, infoCrl = c\<rparr>"
  unfolding crl_from_def file_genuine_def using from_server_later by fastforce

lemma file_fetch_genuine:
  assumes env: "cache_env_ok E U" and s: "file_genuine E U s" and u: "u \<in> U"
  shows "jwp (file_fetch E u) (\<lambda>i s'. file_genuine E U s' \<and> crl_from E (tick s') u i) (\<lambda>_. file_genuine E U) s"
proof -
  let ?r = "\<lparr>lastCache = 0, recNextUpdate = 0, url = u, fileName = getFileName E u\<rparr>"
  have rec: "jwp (file_cacheCrlRecord E ?r) (\<lambda>_. file_genuine E U) (\<lambda>_. file_genuine E U) s"
    by (rule file_cacheCrlRecord_genuine[OF env s]) (simp_all add: u)
  have save: "jwp (file_save E) (\<lambda>_ s2. file_genuine E U s2 \<and> tick s1 \<le> tick s2 \<and> cacheFiles s2 = cacheFiles s1) (\<lambda>_. file_genuine E U)
      (s1\<lparr>crlCacheData := Some (rs @ [r'])\<rparr>)"
    if "file_genuine E U s1" "crlCacheData s1 = Some rs" "url r' = u" "fileName r' = getFileName E u" for s1 rs r'
  proof -
    have "recs_named E U (rs @ [r'])" using that u by (auto simp: file_genuine_def recs_named_def)
    from file_save_genuine[OF env genuine_data[OF that(1) this]] show ?thesis by simp
  qed
  show ?thesis
    unfolding file_fetch_def jwp_simps Let_def
  proof (rule jwp_mono[OF jwp_conj[OF file_cacheCrlRecord_wp[of E ?r s] rec]], goal_cases)
    case (1 r' s1)
    then have r': "url r' = u" "fileName r' = getFileName E u" and g: "file_genuine E U s1" by auto
    show ?case
    proof (cases "crlCacheData s1")
      case None
      then show ?thesis using g by (simp add: jwp_simps)
    next
      case (Some rs)
      have "jwp (file_save E) (\<lambda>_ s2. case map_of (cacheFiles s2) (fileName r') of
              None \<Rightarrow> file_genuine E U s2
            | Some bs \<Rightarrow> (case generateCRL E bs of Inr c \<Rightarrow> file_genuine E U s2 \<and> crl_from E (tick s2) u \<lparr>location = url r', infoCrl = c\<rparr>
                | Inl e \<Rightarrow> file_genuine E U s2)) (\<lambda>_. file_genuine E U) (s1\<lparr>crlCacheData := Some (rs @ [r'])\<rparr>)"
        by (rule jwp_mono[OF save[OF g Some r']]) (use genuine_crl[OF _ u] r' in \<open>auto split: option.split sum.split\<close>)
      then show ?thesis using Some
        by (simp add: jwp_simps) (rule jwp_mono, assumption, auto split: option.splits sum.splits)
    qed
  next
    case (2 e s')
    then show ?case by (simp add: jwp_simps)
  qed
qed

lemma file_getCRL_genuine:
  assumes env: "cache_env_ok E U" and s: "file_genuine E U s" and u: "u \<in> U"
  shows "jwp (file_getCRL E u) (\<lambda>i s'. file_genuine E U s' \<and> crl_from E (tick s') u i) (\<lambda>_. file_genuine E U) s"
proof -
  have s1: "file_genuine E U (s\<lparr>tick := Suc (tick s)\<rparr>)" by (rule genuine_later[OF s]) simp_all
  have named: "url r \<in> U \<and> fileName r = getFileName E (url r)" if "crlCacheData s = Some rs" "r \<in> set rs" for rs r
    using s that by (auto simp: file_genuine_def recs_named_def)
  have cached: "crl_from E (Suc (tick s)) u \<lparr>location = url r, infoCrl = c\<rparr>"
    if "crlCacheData s = Some rs" "List.find (\<lambda>r. equalsIgnoreCase u (url r)) rs = Some r" "map_of (cacheFiles s) (fileName r) = Some bs"
      "generateCRL E bs = Inr c" for rs r bs c
    using find_Some_in[OF that(2)] named[OF that(1), of r] that(3,4) genuine_crl[OF s, of "url r" bs c u "Suc (tick s)"] by auto
  show ?thesis
    using file_fetch_genuine[OF env s u] file_fetch_genuine[OF env s1 u] s s1 cached
    by (auto simp: file_getCRL_def jwp_simps split: option.splits sum.splits)
qed

text \<open>The re-caching loop, at the positions of the list.\<close>

definition genuine_list :: "crl_env \<Rightarrow> string set \<Rightarrow> nat \<Rightarrow> file_cache \<Rightarrow> bool" where
  "genuine_list E U n s \<longleftrightarrow> file_genuine E U s \<and> (\<exists>rs. crlCacheData s = Some rs \<and> length rs = n)"

lemma file_recache_one_genuine:
  assumes env: "cache_env_ok E U" and s: "genuine_list E U n s" and i: "i < n"
  shows "jwp (file_recache_one E i bad) (\<lambda>_. genuine_list E U n) (\<lambda>_. genuine_list E U n) s"
proof -
  from s obtain rs where rs: "crlCacheData s = Some rs" "length rs = n" and g: "file_genuine E U s" by (auto simp: genuine_list_def)
  have ri: "url (rs ! i) \<in> U" "fileName (rs ! i) = getFileName E (url (rs ! i))"
    using g rs i by (auto simp: file_genuine_def recs_named_def)
  show ?thesis
    unfolding file_recache_one_def jwp_simps rs option.case Let_def
  proof (rule jwp_mono[OF jwp_conj[OF file_cacheCrlRecord_wp[of E "rs ! i" s] file_cacheCrlRecord_genuine[OF env g ri]]], goal_cases)
    case (1 r' s')
    have "recs_named E U rs" using g rs by (simp add: file_genuine_def)
    then have "recs_named E U (rs[i := r'])"
      using 1 ri by (auto simp: recs_named_def dest!: set_update_subset_insert[THEN subsetD])
    with 1 show ?case using rs(2) by (simp add: jwp_simps genuine_list_def genuine_data)
  next
    case (2 e s')
    then show ?case using rs by (simp add: jwp_simps genuine_list_def)
  qed
qed

lemma file_recache_loop_genuine:
  assumes "cache_env_ok E U" "genuine_list E U n s" "\<forall>i \<in> set is. i < n"
  shows "jwp (file_recache_loop E is bad) (\<lambda>_. genuine_list E U n) (\<lambda>_. genuine_list E U n) s"
  using assms(2,3)
proof (induction "is" arbitrary: bad s)
  case (Cons i "is")
  have "jwp (file_recache_one E i bad) (\<lambda>_. genuine_list E U n) (\<lambda>_. genuine_list E U n) s"
    by (rule file_recache_one_genuine[OF assms(1)]) (use Cons.prems in auto)
  then show ?case unfolding file_recache_loop.simps jwp_bnd by (rule jwp_mono) (use Cons.IH Cons.prems in auto)
qed (simp add: jwp_simps)

lemma file_purge_genuine: "file_genuine E U s \<Longrightarrow> file_genuine E U (file_purge bad s)"
proof -
  assume s: "file_genuine E U s"
  have del: "map_of (fold (\<lambda>r. AList.delete (fileName r)) rs files) f = Some bs \<Longrightarrow> map_of files f = Some bs"
    for rs f bs and files :: "(string \<times> bytes) list"
  proof (induction rs arbitrary: files)
    case (Cons r rs)
    from Cons.IH[of "AList.delete (fileName r) files"] Cons.prems show ?case by (simp add: delete_conv' split: if_splits)
  qed simp
  show ?thesis
  proof (cases "crlCacheData s")
    case (Some rs)
    have "file_genuine E U (s\<lparr>cacheFiles := fold (\<lambda>r. AList.delete (fileName r)) (filter (\<lambda>r. url r \<in> set bad) rs) (cacheFiles s)\<rparr>)"
      by (rule genuine_later[OF s]) (use del in auto)
    moreover have "recs_named E U (filter (\<lambda>r. url r \<notin> set bad) rs)" using s Some by (auto simp: file_genuine_def recs_named_def)
    ultimately show ?thesis unfolding file_purge_def Some option.case by (rule genuine_data)
  qed (simp add: file_purge_def s)
qed

lemma file_recache_genuine:
  assumes env: "cache_env_ok E U" and s: "file_genuine E U s"
  shows "jwp (file_recache E) (\<lambda>_. file_genuine E U) (\<lambda>_. file_genuine E U) s"
proof -
  let ?I = "\<lambda>_ :: unit. file_genuine E U"
  have reload: "jwp (file_reload E) ?I (\<lambda>_. file_genuine E U) s"
  proof (cases "crlCacheFile s")
    case None
    have "file_genuine E U (s\<lparr>crlCacheData := Some []\<rparr>)" by (rule genuine_data[OF s]) (simp add: recs_named_def)
    from jwp_mono[OF file_save_genuine[OF env this]] None show ?thesis by (auto simp: file_reload_def jwp_simps)
  next
    case (Some js)
    then show ?thesis using s genuine_data[OF s] by (auto simp: file_reload_def jwp_simps file_genuine_def split: sum.split)
  qed
  have save: "jwp (file_save E) ?I (\<lambda>_. file_genuine E U) s1" if "file_genuine E U s1" for s1
    by (rule jwp_mono[OF file_save_genuine[OF env that]]) auto
  have loop: "jwp (file_recache_loop E [0..<length rs] [])
      (\<lambda>bad. jwp (sq (if bad = [] then ret () else upd (file_purge bad)) (file_save E)) ?I (\<lambda>_. file_genuine E U)) (\<lambda>_. file_genuine E U) s1"
    if "file_genuine E U s1" "crlCacheData s1 = Some rs" for s1 rs
  proof (rule jwp_mono[OF file_recache_loop_genuine[OF env, of "length rs" s1]])
    show "genuine_list E U (length rs) s1" using that by (simp add: genuine_list_def)
  qed (auto simp: genuine_list_def jwp_simps intro!: save file_purge_genuine)
  have "jwp (file_reload E) (\<lambda>_ s1. case crlCacheData s1 of None \<Rightarrow> file_genuine E U s1
      | Some rs \<Rightarrow> jwp (file_recache_loop E [0..<length rs] [])
          (\<lambda>bad. jwp (sq (if bad = [] then ret () else upd (file_purge bad)) (file_save E)) ?I (\<lambda>_. file_genuine E U)) (\<lambda>_. file_genuine E U) s1)
      (\<lambda>_. file_genuine E U) s"
    by (rule jwp_mono[OF reload]) (use loop in \<open>auto split: option.split\<close>)
  then show ?thesis
    unfolding file_recache_def by (auto simp: jwp_simps elim!: jwp_mono split: option.splits)
qed

lemma file_call_genuine:
  assumes "cache_env_ok E U" "file_genuine E U s" "call_in U c"
  shows "file_genuine E U (file_call E c s)"
proof (cases c)
  case (Lookup u)
  then show ?thesis using file_getCRL_genuine[OF assms(1,2), of u] assms(3) by (auto simp: jwp_def split: prod.splits sum.splits)
next
  case Recache
  then show ?thesis using file_recache_genuine[OF assms(1,2)] by (auto simp: jwp_def split: prod.splits sum.splits)
qed

lemma file_run_genuine:
  assumes "cache_env_ok E U" "file_genuine E U s" "\<forall>c \<in> set cs. call_in U c"
  shows "file_genuine E U (fold (file_call E) cs s)"
  using assms(2,3) by (induction cs arbitrary: s) (auto intro: file_call_genuine[OF assms(1)])

subsection \<open>Properties\<close>

text \<open>
  C33. What \<open>CRLCacheImpl.getCRL(CRLDistPoint)\<close> returns, after any sequence of look-ups and re-cachings and whatever they answered, comes from
  an accepted distribution point: a URI of a point that names neither a CRL issuer nor reasons, over http or ldap. The location
  is that URI up to case, the CRL is the parse of bytes that were downloaded from the location, in this call or before, and it had not expired at a
  clock reading made during the call. It rests on file names that are distinct on the URLs in use, a JSON mapper that reads back what it wrote, and
  a cache that is genuine at the start, as an empty one is.
\<close>

theorem file_getCRL_dp_sound:
  assumes "cache_env_ok E U" "file_genuine E U s0" "\<forall>c \<in> set cs. call_in U c" and s: "s = fold (file_call E) cs s0"
    and "\<forall>dps. ext = Some dps \<longrightarrow> (\<forall>dp \<in> set dps. set (dp_all_uris dp) \<subseteq> U)"
    and run: "file_getCRL_dp E ext s = (Inr i, s')"
  shows "\<exists>dps dp u. ext = Some dps \<and> dp \<in> set dps \<and> dp_accepted dp \<and> u \<in> set (dp_all_uris dp)
           \<and> (startsWith (toLowerCase u) ''http'' \<or> startsWith (toLowerCase u) ''ldap'')
           \<and> crl_served E s s' u i
           \<and> (\<exists>bs m. m < tick s' \<and> downloadCrl E (location i) (connectTimeout E) (readTimeout E) m = Inr (Some bs)
                \<and> generateCRL E bs = Inr (infoCrl i))"
proof -
  have g: "file_genuine E U s" unfolding s by (rule file_run_genuine[OF assms(1-3)])
  have grace: "grace_ok E" using assms(1) by (simp add: cache_env_ok_def)
  from run have dp: "getCRL_dp (file_getCRL E) ext s = (Inr i, s')" by (simp add: file_getCRL_dp_def)
  from getCRL_dp_run_Inr[OF this] obtain us u s1 where us: "approved_uris ext = Inr us" "u \<in> set us"
    "file_getCRL E u s1 = (Inr i, s')" "s1 = s \<or> (\<exists>u0 e. u0 \<in> set us \<and> file_getCRL E u0 s = (Inl e, s1))" by blast
  have U: "v \<in> U" if "v \<in> set us" for v using approved_uris_in[OF us(1) that] assms(5) by blast
  have "file_genuine E U s1" using us(4) g jwp_Inl[OF file_getCRL_genuine[OF assms(1) g U]] by blast
  from file_getCRL_genuine[OF assms(1) this U[OF us(2)]] us(3) have "crl_from E (tick s') u i" by (auto simp: jwp_def)
  with fcache.getCRL_dp_served[OF grace dp] show ?thesis unfolding crl_from_def from_server_def by blast
qed

definition file_empty :: file_cache where
  "file_empty = \<lparr>tick = 0, crlCacheData = Some [], cacheFiles = [], tempFiles = [], crlCacheFile = Some (CacheDataJson [])\<rparr>"

lemmas file_run_simps =
  file_getCRL_dp_def getCRL_dp_def try_location_def approved_uris_def demo_dp_def dp_uris_def
  scan_uri_def uniformResourceIdentifier_def file_getCRL_def file_fetch_def file_save_def fs_op_def
  file_cacheCrlRecord_def file_getCachedCrl_def file_parse_def file_empty_def Let_def jlong_id demo_crl_def

abbreviation good_env :: crl_env where
  "good_env \<equiv> demo_env (\<lambda>_ _ _ _. Inr (Some [1])) (\<lambda>_. Inr (demo_crl 20000))"

lemma file_empty_genuine: "file_genuine (demo_env dl gen) U file_empty"
  by (simp add: file_genuine_def file_empty_def recs_named_def)

text \<open>A look-up, a re-caching, and the look-up through a distribution point.\<close>

theorem file_getCRL_dp_sound_witness:
  "\<exists>i s'. file_getCRL_dp good_env (Some [demo_dp ''http://a'']) (fold (file_call good_env) [Lookup ''http://a'', Recache] file_empty) = (Inr i, s')
     \<and> (\<exists>bs m. m < tick s' \<and> downloadCrl good_env (location i) (connectTimeout good_env) (readTimeout good_env) m = Inr (Some bs)
          \<and> generateCRL good_env bs = Inr (infoCrl i))"
proof -
  let ?cs = "[Lookup ''http://a'', Recache]" and ?U = "{''http://a''}"
  have env: "cache_env_ok good_env ?U" by (simp add: cache_env_ok_def grace_ok_demo)
  have uris: "\<forall>dps. Some [demo_dp ''http://a''] = Some dps \<longrightarrow> (\<forall>dp \<in> set dps. set (dp_all_uris dp) \<subseteq> ?U)"
    by (auto simp: dp_all_uris_def demo_dp_def dp_uris_def)
  have calls: "\<forall>c \<in> set ?cs. call_in ?U c" by simp
  obtain i s' where run: "file_getCRL_dp good_env (Some [demo_dp ''http://a'']) (fold (file_call good_env) ?cs file_empty) = (Inr i, s')"
    by (auto simp: file_run_simps jrun_simps toLowerCase_http file_recache_def file_reload_def file_recache_one_def)
  from file_getCRL_dp_sound[OF env file_empty_genuine calls refl uris run] run show ?thesis by blast
qed

text \<open>
  C34. The file cache recovers from any failure of the network: after any sequence of look-ups and
  re-cachings, whatever they answered, a URL whose server works from then on is served. It rests
  on a disk that accepts writes, a JSON mapper that reads back what it wrote and file names
  that are distinct on the URLs in use.
\<close>

theorem file_cache_recovers:
  assumes "file_env_ok E U" "no_errors E" "file_healthy E U s" "\<forall>c \<in> set cs. call_in U c"
    and "u \<in> U" "isURI E u" "server_ok E u (tick (fold (file_call E) cs s))"
  shows "\<exists>i s'. file_getCRL E u (fold (file_call E) cs s) = (Inr i, s')"
proof -
  have "file_healthy E U (fold (file_call E) cs s)"
    by (rule file_run_healthy[OF assms(1-4)])
  then have "jwp (file_getCRL E u) (\<lambda>_ _. True) (\<lambda>_ _. False) (fold (file_call E) cs s)"
    by (rule file_getCRL_succeeds[OF assms(1) _ assms(5-7)]) simp
  then show ?thesis by (auto simp: jwp_def split: prod.splits sum.splits)
qed

text \<open>The network of the witness fails at first: the first look-up ends in an exception, the next is served.\<close>

definition flaky_env :: crl_env where
  "flaky_env = demo_env (\<lambda>_ _ _ n. if n < 3 then Inr None else Inr (Some [1])) (\<lambda>_. Inr (demo_crl 1000000))\<lparr>clock := (\<lambda>_. 10000)\<rparr>"

theorem file_cache_recovers_witness:
  "fst (file_getCRL flaky_env ''u'' file_empty) = Inl (Exn IOException None)
   \<and> (\<exists>i s'. file_getCRL flaky_env ''u'' (fold (file_call flaky_env) [Lookup ''u'', Recache] file_empty) = (Inr i, s'))"
proof
  show "fst (file_getCRL flaky_env ''u'' file_empty) = Inl (Exn IOException None)"
    by (simp add: flaky_env_def file_run_simps jrun_simps)
  show "\<exists>i s'. file_getCRL flaky_env ''u'' (fold (file_call flaky_env) [Lookup ''u'', Recache] file_empty) = (Inr i, s')"
  proof (rule file_cache_recovers[where U = "{''u''}"])
    show "file_env_ok flaky_env {''u''}"
      by (auto simp: file_env_ok_def flaky_env_def grace_ok_def jlong_id)
    show "no_errors flaky_env" by (auto simp: no_errors_def flaky_env_def split: if_splits)
    show "file_healthy flaky_env {''u''} file_empty"
      by (auto simp: file_healthy_def recs_healthy_def file_empty_def flaky_env_def)
    show "server_ok flaky_env ''u'' (tick (fold (file_call flaky_env) [Lookup ''u'', Recache] file_empty))"
      by (auto simp: server_ok_def flaky_env_def file_run_simps jrun_simps file_recache_def file_reload_def)
  qed (simp_all add: flaky_env_def)
qed

text \<open>
  A look-up of a URL whose cached CRL has expired, when it succeeds, appends a new record for the
  URL at the end of the list and keeps the old one, so the list grows at every such refresh.
\<close>

theorem file_refresh_appends:
  assumes "file_getCRL E u s = (Inr i, s')" and "crlCacheData s = Some rs"
    and "List.find (\<lambda>r. equalsIgnoreCase u (url r)) rs = Some r"
    and "map_of (cacheFiles s) (fileName r) = Some bs" and "generateCRL E bs = Inr c"
    and "nextUpdate c = Some nu" and "nu \<le> clock E (tick s)"
  shows "\<exists>r'. crlCacheData s' = Some (rs @ [r']) \<and> url r' = u"
proof -
  have run: "file_fetch E u (s\<lparr>tick := Suc (tick s)\<rparr>) = (Inr i, s')"
    using assms
    by (auto simp: file_getCRL_def file_getCachedCrl_def file_parse_def jrun_simps split: if_splits)
  let ?r = "\<lparr>lastCache = 0, recNextUpdate = 0, url = u, fileName = getFileName E u\<rparr>"
  have "jwp (file_fetch E u) (\<lambda>_ s'. \<exists>r'. crlCacheData s' = Some (rs @ [r']) \<and> url r' = u) (\<lambda>_ _. True)
          (s\<lparr>tick := Suc (tick s)\<rparr>)"
    unfolding file_fetch_def jwp_simps Let_def
    by (rule jwp_mono[OF file_cacheCrlRecord_wp[of E ?r]])
       (auto simp: assms(2) file_save_def jwp_simps split: option.splits sum.splits)
  then show ?thesis using run by (rule jwp_Inr)
qed

definition stale_file_cache :: file_cache where
  "stale_file_cache = file_empty\<lparr>
     crlCacheData := Some [\<lparr>lastCache = 0, recNextUpdate = 0, url = ''u'', fileName = ''f''\<rparr>],
     cacheFiles := [(''f'', [0])]\<rparr>"

theorem file_refresh_appends_witness:
  "\<exists>s' r'. crlCacheData s' = Some [\<lparr>lastCache = 0, recNextUpdate = 0, url = ''u'', fileName = ''f''\<rparr>, r']
     \<and> url r' = ''u'' \<and> (\<exists>i. file_getCRL (demo_env (\<lambda>_ _ _ _. Inr (Some [1]))
          (\<lambda>bs. Inr (demo_crl (if bs = [0] then 0 else 20000)))) ''u'' stale_file_cache = (Inr i, s'))"
proof -
  let ?E = "demo_env (\<lambda>_ _ _ _. Inr (Some [1])) (\<lambda>bs. Inr (demo_crl (if bs = [0] then 0 else 20000)))"
  let ?r = "\<lparr>lastCache = 0, recNextUpdate = 0, url = ''u'', fileName = ''f''\<rparr>"
  obtain i s' where run: "file_getCRL ?E ''u'' stale_file_cache = (Inr i, s')"
    by (auto simp: file_run_simps jrun_simps stale_file_cache_def)
  have "\<exists>r'. crlCacheData s' = Some ([?r] @ [r']) \<and> url r' = ''u''"
    by (rule file_refresh_appends[OF run, where r = ?r and bs = "[0]" and c = "demo_crl 0" and nu = 0])
       (simp_all add: stale_file_cache_def demo_crl_def)
  then show ?thesis using run by auto
qed

end
