(* ===== verification/CRL_Checker.thy ===== *)
theory CRL_Checker
  imports Cache_File
begin

text \<open>
  The revocation check against a CRL: \<open>CRLValidityChecker\<close>
  (\<open>cert-validation/.../validity/crl/impl/CRLValidityChecker.java\<close>). The cache is used through
  the operation \<open>getCRL(CRLDistPoint)\<close> only, an argument of the check; the facts about an
  answer are proved once in the contract \<open>crl_cache\<close> and reach the properties through its two
  interpretations. The verification of the signature on a CRL is a field of the environment.
\<close>

record rev_env = x509_env +
  crlVerify :: "crl \<Rightarrow> pubkey \<Rightarrow> exn option"

fun getReasonCode :: "CRLReason \<Rightarrow> int" where
  "getReasonCode KEY_COMPROMISE = 1"
| "getReasonCode CA_COMPROMISE = 2"
| "getReasonCode AFFILIATION_CHANGED = 3"
| "getReasonCode SUPERSEDED = 4"
| "getReasonCode CESSATION_OF_OPERATION = 5"
| "getReasonCode CERTIFICATE_HOLD = 6"
| "getReasonCode REMOVE_FROM_CRL = 8"
| "getReasonCode PRIVILEGE_WITHDRAWN = 9"
| "getReasonCode AA_COMPROMISE = 10"
| "getReasonCode _ = 0"

text \<open>What the \<open>try\<close> block adds to the builder once the CRL has been fetched and verified.\<close>

definition crl_verdict :: "crl \<Rightarrow> cert \<Rightarrow> cert \<Rightarrow> validation_status \<Rightarrow> validation_status" where
  "crl_verdict crl c issuer b0 =
     (let b = b0\<lparr>vs_statusSignatureValid := True, vs_issuer := Some issuer,
                 vs_statusSigner := Some issuer, vs_statusSignerChain := Some [issuer]\<rparr>
      in case getRevokedCertificate crl c of
           None \<Rightarrow> b\<lparr>vs_validity := VALID\<rparr>
         | Some en \<Rightarrow>
             (let b = b\<lparr>vs_validity := REVOKED, vs_revocationTime := Some (revocationDate en)\<rparr>
              in case revocationReason en of
                   None \<Rightarrow> b
                 | Some r \<Rightarrow> b\<lparr>vs_reason := getReasonCode r\<rparr>))"

definition crl_builder :: "cert \<Rightarrow> date \<Rightarrow> validation_status" where
  "crl_builder c now =
     (status_builder UNKNOWN)\<lparr>vs_sourceType := Some CRL, vs_certificate := Some c,
        vs_validationTime := Some now\<rparr>"

definition crl_checkValidity ::
  "'x rev_env_scheme \<Rightarrow> crl_env \<Rightarrow> (distribution_point list option \<Rightarrow> ('a world_scheme, exn, crl_info) jm)
     \<Rightarrow> cert \<Rightarrow> cert \<Rightarrow> ('a world_scheme, exn, validation_status) jm" where
  "crl_checkValidity X E cacheGetCRL c issuer =
     bnd (read_env (clock E)) (\<lambda>now.
     let b = crl_builder c now in
     bnd (attempt (bnd (lift_sum (getCrlDistPoint X c)) cacheGetCRL)) (\<lambda>r.
       case r of
         Inl e \<Rightarrow> ret (b\<lparr>vs_exception := Some e\<rparr>)
       | Inr i \<Rightarrow>
           let b = b\<lparr>vs_sourceLocation := Some (location i)\<rparr> in
           (case crlVerify X (infoCrl i) (publicKey issuer) of
              Some e \<Rightarrow> if is_exception e then ret (b\<lparr>vs_exception := Some e\<rparr>) else throw e
            | None \<Rightarrow> ret (crl_verdict (infoCrl i) c issuer b))))"

subsection \<open>What a verdict says\<close>

lemma crl_verdict_sel [simp]:
  "vs_statusSignatureValid (crl_verdict crl c issuer b)"
  "vs_issuer (crl_verdict crl c issuer b) = Some issuer"
  "vs_statusSigner (crl_verdict crl c issuer b) = Some issuer"
  "vs_statusSignerChain (crl_verdict crl c issuer b) = Some [issuer]"
  "vs_exception (crl_verdict crl c issuer b) = vs_exception b"
  "vs_certificate (crl_verdict crl c issuer b) = vs_certificate b"
  "vs_sourceType (crl_verdict crl c issuer b) = vs_sourceType b"
  "vs_sourceLocation (crl_verdict crl c issuer b) = vs_sourceLocation b"
  "vs_validationTime (crl_verdict crl c issuer b) = vs_validationTime b"
  by (simp_all add: crl_verdict_def Let_def split: option.split)

lemma crl_verdict_validity:
  "vs_validity (crl_verdict crl c issuer b) = (if isRevoked crl c then REVOKED else VALID)"
  by (simp add: crl_verdict_def isRevoked_def Let_def split: option.split)

text \<open>
  The specification of an answer of the check: unknown with the exception that stopped it, or a
  verdict read from a CRL with a good signature by the issuer, whose entry for the certificate
  (if any) gives the revocation time and the RFC 5280 reason code.
\<close>

definition crl_status_from :: "'x rev_env_scheme \<Rightarrow> crl_info \<Rightarrow> cert \<Rightarrow> cert \<Rightarrow> validation_status \<Rightarrow> bool" where
  "crl_status_from X i c issuer st \<longleftrightarrow>
     crlVerify X (infoCrl i) (publicKey issuer) = None
     \<and> vs_statusSignatureValid st \<and> vs_statusSigner st = Some issuer \<and> vs_exception st = None
     \<and> vs_sourceLocation st = Some (location i)
     \<and> (case getRevokedCertificate (infoCrl i) c of
          None \<Rightarrow> vs_validity st = VALID \<and> vs_revocationTime st = None
        | Some en \<Rightarrow> vs_validity st = REVOKED \<and> vs_revocationTime st = Some (revocationDate en)
            \<and> vs_reason st = (case revocationReason en of None \<Rightarrow> 0 | Some r \<Rightarrow> getReasonCode r))"

definition crl_status_unknown :: "validation_status \<Rightarrow> bool" where
  "crl_status_unknown st \<longleftrightarrow>
     vs_validity st = UNKNOWN \<and> \<not> vs_statusSignatureValid st \<and> vs_statusSigner st = None
     \<and> vs_exception st \<noteq> None"

lemma crl_builder_sel [simp]:
  "vs_validity (crl_builder c now) = UNKNOWN" "vs_exception (crl_builder c now) = None"
  "\<not> vs_statusSignatureValid (crl_builder c now)" "vs_statusSigner (crl_builder c now) = None"
  "vs_certificate (crl_builder c now) = Some c" "vs_sourceType (crl_builder c now) = Some CRL"
  "vs_revocationTime (crl_builder c now) = None" "vs_reason (crl_builder c now) = 0"
  by (simp_all add: crl_builder_def)

lemma crl_verdict_from:
  assumes "crlVerify X (infoCrl i) (publicKey issuer) = None"
  shows "crl_status_from X i c issuer
           (crl_verdict (infoCrl i) c issuer ((crl_builder c now)\<lparr>vs_sourceLocation := Some (location i)\<rparr>))"
  using assms
  by (auto simp: crl_status_from_def crl_verdict_def Let_def split: option.split)

lemma crl_checkValidity_cases:
  assumes "crl_checkValidity X E get c issuer s = (Inr st, s')"
  obtains (unknown) "crl_status_unknown st"
  | (answer) i ext where "getCrlDistPoint X c = Inr ext"
      "get ext (s\<lparr>tick := Suc (tick s)\<rparr>) = (Inr i, s')" "crl_status_from X i c issuer st"
  using assms
  by (auto simp: crl_checkValidity_def jrun_simps Let_def crl_status_unknown_def crl_verdict_from
      split: sum.splits prod.splits option.splits if_splits)

lemma crl_checkValidity_identity:
  assumes "crl_checkValidity X E get c issuer s = (Inr st, s')"
  shows "vs_certificate st = Some c \<and> vs_sourceType st = Some CRL"
  using assms
  by (auto simp: crl_checkValidity_def jrun_simps Let_def
      split: sum.splits prod.splits option.splits if_splits)

lemma crl_checkValidity_unknown_iff:
  assumes "crl_checkValidity X E get c issuer s = (Inr st, s')"
  shows "vs_validity st = UNKNOWN \<longleftrightarrow> crl_status_unknown st"
  using assms
  by (cases rule: crl_checkValidity_cases) (auto simp: crl_status_unknown_def crl_status_from_def split: option.splits)

subsection \<open>The check over a cache that keeps its contract\<close>

context crl_cache
begin

lemma crl_check_served:
  assumes inv: "inv (s\<lparr>tick := Suc (tick s)\<rparr>)"
    and run: "crl_checkValidity X E (getCRL_dp getCRL) c issuer s = (Inr st, s')"
    and known: "vs_validity st \<noteq> UNKNOWN"
  shows "\<exists>dps dp u i. getCrlDistPoint X c = Inr (Some dps) \<and> dp \<in> set dps \<and> dp_accepted dp
           \<and> u \<in> set (dp_all_uris dp) \<and> crl_served E s s' u i \<and> crl_status_from X i c issuer st"
  using run
proof (cases rule: crl_checkValidity_cases)
  case unknown
  with known show ?thesis by (simp add: crl_status_unknown_def)
next
  case (answer i ext)
  from getCRL_dp_served[OF inv answer(2)] obtain dps dp u where
    *: "ext = Some dps" "dp \<in> set dps" "dp_accepted dp" "u \<in> set (dp_all_uris dp)"
    and "crl_served E (s\<lparr>tick := Suc (tick s)\<rparr>) s' u i" by blast
  then have "crl_served E s s' u i"
    by (auto simp: crl_served_def intro: Suc_leD)
  with * answer show ?thesis by blast
qed

end

text \<open>Only an \<open>Error\<close> leaves the check: every \<open>Exception\<close> ends as an unknown status.\<close>

lemma crl_checkValidity_throws:
  "crl_checkValidity X E get c issuer s = (Inl e, s') \<Longrightarrow> \<not> is_exception e"
  by (auto simp: crl_checkValidity_def jrun_simps Let_def
      split: sum.splits prod.splits option.splits if_splits)

subsection \<open>Properties\<close>

text \<open>
  C30. A verdict other than unknown of \<open>CRLValidityChecker.checkValidity\<close> over the file cache
  rests on a CRL that was fetched from an accepted distribution point of the certificate, had not
  expired at a clock reading during the check, and carries a good signature of the issuer; the
  status is REVOKED, with the entry's time and reason code, exactly when that CRL has an entry
  for the certificate, and VALID otherwise.
\<close>

theorem file_crl_check_sound:
  assumes "grace_ok E"
    and "crl_checkValidity X E (file_getCRL_dp E) c issuer s = (Inr st, s')"
    and "vs_validity st \<noteq> UNKNOWN"
  shows "\<exists>dps dp u i. getCrlDistPoint X c = Inr (Some dps) \<and> dp \<in> set dps \<and> dp_accepted dp
           \<and> u \<in> set (dp_all_uris dp) \<and> crl_served E s s' u i \<and> crl_status_from X i c issuer st"
proof -
  have "file_getCRL_dp E = getCRL_dp (file_getCRL E)"
    by (rule ext) (simp add: file_getCRL_dp_def)
  then show ?thesis using fcache.crl_check_served assms by auto
qed

definition demo_x509 :: rev_env where
  "demo_x509 = \<lparr>readObject = (\<lambda>bs. Inr (Some (ASN1OctetString bs))), parseAIA = (\<lambda>_. Inr []),
      parseCRLDistPoint = (\<lambda>_. Inr [demo_dp ''http://a'']), certVerify = (\<lambda>_ _. None),
      crlVerify = (\<lambda>_ _. None)\<rparr>"

definition demo_cert :: "string \<Rightarrow> string \<Rightarrow> (string \<times> bytes) list \<Rightarrow> cert" where
  "demo_cert sub iss exts = \<lparr>encoded = utf8 sub, serialNumber = 7, subjectDN = sub, issuerDN = iss,
      notBefore = 0, notAfter = 100000, basicConstraints = 0, keyUsage = None, extKeyUsage = None,
      publicKey = RSAPublicKey 1, extensionValues = exts\<rparr>"

definition revoking_env :: crl_env where
  "revoking_env = demo_env (\<lambda>_ _ _ _. Inr (Some [1]))
     (\<lambda>_. Inr ((demo_crl 20000)\<lparr>revokedEntries := [(7, \<lparr>revocationDate = 5, revocationReason = Some SUPERSEDED\<rparr>)]\<rparr>))"

theorem file_crl_check_sound_witness:
  "\<exists>st s' i. crl_checkValidity demo_x509 revoking_env (file_getCRL_dp revoking_env)
       (demo_cert ''CN=EE'' ''CN=CA'' [(oid_cRLDistributionPoints, [])]) (demo_cert ''CN=CA'' ''CN=CA'' []) file_empty = (Inr st, s')
     \<and> vs_validity st = REVOKED
     \<and> crl_status_from demo_x509 i (demo_cert ''CN=EE'' ''CN=CA'' [(oid_cRLDistributionPoints, [])]) (demo_cert ''CN=CA'' ''CN=CA'' []) st"
proof -
  let ?ee = "demo_cert ''CN=EE'' ''CN=CA'' [(oid_cRLDistributionPoints, [])]" and ?ca = "demo_cert ''CN=CA'' ''CN=CA'' []"
  have g: "grace_ok revoking_env" by (simp add: revoking_env_def grace_ok_demo)
  obtain st s' where run: "crl_checkValidity demo_x509 revoking_env (file_getCRL_dp revoking_env) ?ee ?ca file_empty = (Inr st, s')"
    and v: "vs_validity st = REVOKED"
    by (auto simp: crl_checkValidity_def getCrlDistPoint_def getExtensionValue_def demo_x509_def demo_cert_def
        revoking_env_def file_run_simps jrun_simps toLowerCase_http crl_verdict_validity isRevoked_def
        getRevokedCertificate_def)
  show ?thesis
    using file_crl_check_sound[OF g run] run v by auto
qed

end
