(* ===== verification/OCSP_Checker.thy ===== *)
theory OCSP_Checker
  imports CRL_Checker
begin

text \<open>
  The revocation check by OCSP: \<open>OCSPCertificateVerifier\<close>
  (\<open>cert-validation/.../validity/ocsp/OCSPCertificateVerifier.java\<close>). The request and response
  objects, their encoding and the verification of the response signature belong to the ASN.1
  provider: they are data types here and fields of \<open>ocsp_env\<close>. The mutable \<open>ValidationStatus\<close> of
  the \<open>try\<close> block is the state of the statements that process a response, so what was set
  before an exception stays set.
\<close>

record cert_id =
  idIssuerNameHash :: bytes
  idIssuerKeyHash :: bytes
  idSerialNumber :: int

record ocsp_req =
  reqCertID :: cert_id
  reqNonce :: "bytes option"

datatype cert_status = GOOD | RevokedStatus date "int option" | UnknownStatus

record single_resp =
  srCertID :: cert_id
  srThisUpdate :: date
  srNextUpdate :: "date option"
  srCertStatus :: cert_status

record basic_ocsp_resp =
  brEncoded :: bytes
  brCerts :: "(exn + cert) list"
  brNonce :: "bytes option"
  brProducedAt :: date
  brResponses :: "single_resp list"

record ocsp_resp =
  respStatus :: int
  responseObject :: "exn + basic_ocsp_resp option"

record ocsp_env = rev_env +
  includeNonce :: bool
  ocspConnectTimeout :: int
  ocspReadTimeout :: int
  nextBytes :: "nat \<Rightarrow> bytes"
  newCertificateID :: "cert \<Rightarrow> int \<Rightarrow> exn + cert_id"
  derOctetString :: "bytes \<Rightarrow> bytes"
  requestOCSPResponse :: "string \<Rightarrow> ocsp_req \<Rightarrow> int \<Rightarrow> int \<Rightarrow> nat \<Rightarrow> exn + ocsp_resp option"
  isSignatureValid :: "basic_ocsp_resp \<Rightarrow> cert \<Rightarrow> exn + bool"
  getRevocationReason :: "cert_status \<Rightarrow> exn + int"

definition RESPONSE_STATUS :: "string list" where
  "RESPONSE_STATUS = [''SUCCESSFUL'', ''MALFORMED_REQUEST'', ''INTERNAL_ERROR'', ''TRY_LATER'', ''NO_USED'',
     ''SIG_REQUIRED'', ''UNAUTHORIZED'']"

text \<open>Reading an array: an index out of range raises.\<close>

definition array_get :: "'a list \<Rightarrow> int \<Rightarrow> exn + 'a" where
  "array_get xs i =
     (if 0 \<le> i \<and> i < int (length xs) then Inr (xs ! nat i) else Inl (Exn IndexOutOfBoundsException None))"

definition getNonce :: "'x ocsp_env_scheme \<Rightarrow> ('a world_scheme, exn, bytes option) jm" where
  "getNonce X = (if \<not> includeNonce X then ret None else bnd (read_env (nextBytes X)) (\<lambda>b. ret (Some b)))"

definition generateOCSPRequest :: "'x ocsp_env_scheme \<Rightarrow> cert_id \<Rightarrow> bytes option \<Rightarrow> ocsp_req" where
  "generateOCSPRequest X cid nonce = \<lparr>reqCertID = cid, reqNonce = map_option (derOctetString X) nonce\<rparr>"

definition checkNonce :: "'x ocsp_env_scheme \<Rightarrow> basic_ocsp_resp \<Rightarrow> bytes option \<Rightarrow> exn + unit" where
  "checkNonce X br nonce =
     (case brNonce br of
        None \<Rightarrow> Inr ()
      | Some responseNonce \<Rightarrow>
          (case nonce of
             None \<Rightarrow> Inl (Exn IOException (Some ''There is a nonce in the response but no nonce was sent in the request''))
           | Some n \<Rightarrow>
               if length responseNonce > 1024 then Inl (Exn IOException (Some ''Response nonce has illegal content''))
               else if derOctetString X n = responseNonce then Inr ()
               else if n = responseNonce then Inr ()
               else Inl (Exn IOException (Some ''Nonce in request does not match nonce provided in the response''))))"

subsection \<open>Statements on the status\<close>

definition try_signer ::
  "'x ocsp_env_scheme \<Rightarrow> basic_ocsp_resp \<Rightarrow> cert list \<Rightarrow> cert \<Rightarrow> (validation_status, exn, unit) jm" where
  "try_signer X br certList c =
     (case isSignatureValid X br c of
        Inl e \<Rightarrow> if exn_class e = OperatorCreationException \<or> exn_class e = OCSPException then ret () else throw e
      | Inr b \<Rightarrow>
          if b then upd (\<lambda>st. st\<lparr>vs_statusSigner := Some c, vs_statusSignerChain := Some certList,
                                 vs_statusSignatureValid := True\<rparr>)
          else ret ())"

definition checkResponseSignature ::
  "'x ocsp_env_scheme \<Rightarrow> cert \<Rightarrow> basic_ocsp_resp \<Rightarrow> (validation_status, exn, unit) jm" where
  "checkResponseSignature X issuer br =
     bnd (lift_sum (getCertificateList (Some (brCerts br)))) (\<lambda>certs.
     let certList = (if certs = [] then [issuer] else certs) in
     for_each (try_signer X br certList) certList)"

definition single_status ::
  "'x ocsp_env_scheme \<Rightarrow> date \<Rightarrow> basic_ocsp_resp \<Rightarrow> single_resp \<Rightarrow> (validation_status, exn, unit) jm" where
  "single_status X validationDate br sr =
     sq (upd (\<lambda>st. st\<lparr>vs_revocationObjectIssuingTime := Some (brProducedAt br)\<rparr>))
     (case srCertStatus sr of
        GOOD \<Rightarrow> upd (\<lambda>st. st\<lparr>vs_validity := VALID\<rparr>)
      | RevokedStatus revocationTime reason \<Rightarrow>
          if validationDate < revocationTime then upd (\<lambda>st. st\<lparr>vs_validity := VALID\<rparr>)
          else sq (upd (\<lambda>st. st\<lparr>vs_revocationTime := Some revocationTime,
                                vs_revocationObjectIssuingTime := Some (srThisUpdate sr)\<rparr>))
               (bnd (lift_sum (getRevocationReason X (srCertStatus sr))) (\<lambda>r.
                 sq (upd (\<lambda>st. st\<lparr>vs_reason := r\<rparr>)) (upd (\<lambda>st. st\<lparr>vs_validity := REVOKED\<rparr>))))
      | UnknownStatus \<Rightarrow> ret ())"

primrec response_loop ::
  "'x ocsp_env_scheme \<Rightarrow> date \<Rightarrow> basic_ocsp_resp \<Rightarrow> cert_id \<Rightarrow> single_resp list \<Rightarrow> bool \<Rightarrow> (validation_status, exn, bool) jm" where
  "response_loop X vd br cid [] foundResponse = ret foundResponse"
| "response_loop X vd br cid (sr # srs) foundResponse =
     (if cid \<noteq> srCertID sr then response_loop X vd br cid srs foundResponse
      else sq (single_status X vd br sr) (response_loop X vd br cid srs True))"

definition process_response ::
  "'x ocsp_env_scheme \<Rightarrow> date \<Rightarrow> cert \<Rightarrow> string \<Rightarrow> cert_id \<Rightarrow> bytes option \<Rightarrow> ocsp_resp \<Rightarrow> (validation_status, exn, unit) jm" where
  "process_response X vd issuer ocspUrl cid nonce resp =
     (if respStatus resp \<noteq> 0 then
        sq (upd (\<lambda>st. st\<lparr>vs_validity := INVALID\<rparr>))
        (bnd (lift_sum (array_get RESPONSE_STATUS (respStatus resp))) (\<lambda>name.
         upd (\<lambda>st. st\<lparr>vs_exception := Some (Exn IOException (Some (''OCSP response is invalid from'' @ ocspUrl @ '' - Status: '' @ name)))\<rparr>)))
      else
        bnd (lift_sum (responseObject resp)) (\<lambda>obj.
        bnd (deref obj) (\<lambda>br.
        sq (checkResponseSignature X issuer br)
        (sq (lift_sum (checkNonce X br nonce))
        (bnd (response_loop X vd br cid (brResponses br) False) (\<lambda>foundResponse.
          if \<not> foundResponse
          then upd (\<lambda>st. st\<lparr>vs_exception := Some (Exn IOException (Some ''There are no matching OCSP response entries''))\<rparr>)
          else ret ()))))))"

subsection \<open>The check\<close>

definition ocsp_status :: "cert \<Rightarrow> cert \<Rightarrow> date \<Rightarrow> validation_status" where
  "ocsp_status c issuer validationDate =
     (status_builder UNKNOWN)\<lparr>vs_certificate := Some c, vs_issuer := Some issuer,
        vs_validationTime := Some validationDate, vs_sourceType := Some OCSP\<rparr>"

text \<open>The exchange with the responder: the certificate id, the nonce that was sent and the response.\<close>

definition ocsp_exchange ::
  "'x ocsp_env_scheme \<Rightarrow> cert \<Rightarrow> cert \<Rightarrow> string \<Rightarrow> ('a world_scheme, exn, cert_id \<times> bytes option \<times> ocsp_resp) jm" where
  "ocsp_exchange X c issuer ocspUrl =
     bnd (lift_sum (newCertificateID X issuer (serialNumber c))) (\<lambda>cid.
     bnd (getNonce X) (\<lambda>nonce.
     bnd (call_env (requestOCSPResponse X ocspUrl (generateOCSPRequest X cid nonce) (ocspConnectTimeout X) (ocspReadTimeout X))) (\<lambda>r.
     bnd (deref r) (\<lambda>resp. ret (cid, nonce, resp)))))"

definition ocsp_checkValidity_at ::
  "'x ocsp_env_scheme \<Rightarrow> cert \<Rightarrow> cert \<Rightarrow> date \<Rightarrow> ('a world_scheme, exn, validation_status) jm" where
  "ocsp_checkValidity_at X c issuer validationDate =
     (let status = ocsp_status c issuer validationDate in
      bnd (attempt (lift_sum (getOCSPUrl X c))) (\<lambda>r.
      case r of
        Inl e \<Rightarrow> ret (status\<lparr>vs_exception := Some e\<rparr>)
      | Inr None \<Rightarrow> ret (status\<lparr>vs_statusSignatureValid := False\<rparr>)
      | Inr (Some ocspUrl) \<Rightarrow>
          let status = status\<lparr>vs_sourceLocation := Some ocspUrl\<rparr> in
          bnd (attempt (ocsp_exchange X c issuer ocspUrl)) (\<lambda>r.
          case r of
            Inl e \<Rightarrow> ret (status\<lparr>vs_exception := Some e\<rparr>)
          | Inr (cid, nonce, resp) \<Rightarrow>
              (case process_response X validationDate issuer ocspUrl cid nonce resp status of
                 (Inr _, st) \<Rightarrow> ret st
               | (Inl e, st) \<Rightarrow> if is_exception e then ret (st\<lparr>vs_exception := Some e\<rparr>) else throw e))))"

definition ocsp_checkValidity ::
  "'x ocsp_env_scheme \<Rightarrow> (nat \<Rightarrow> date) \<Rightarrow> cert \<Rightarrow> cert \<Rightarrow> ('a world_scheme, exn, validation_status) jm" where
  "ocsp_checkValidity X clk c issuer = bnd (read_env clk) (ocsp_checkValidity_at X c issuer)"

subsection \<open>What a response says\<close>

text \<open>The certificates that verify a response, and the entries that decide about a certificate.\<close>

definition verifying :: "'x ocsp_env_scheme \<Rightarrow> basic_ocsp_resp \<Rightarrow> cert list \<Rightarrow> cert list" where
  "verifying X br cs = filter (\<lambda>c. isSignatureValid X br c = Inr True) cs"

definition decisive :: "cert_id \<Rightarrow> single_resp list \<Rightarrow> single_resp list" where
  "decisive cid srs = filter (\<lambda>sr. srCertID sr = cid \<and> srCertStatus sr \<noteq> UnknownStatus) srs"

fun verdict :: "date \<Rightarrow> cert_status \<Rightarrow> CertificateValidity" where
  "verdict vd GOOD = VALID"
| "verdict vd (RevokedStatus t r) = (if vd < t then VALID else REVOKED)"
| "verdict vd UnknownStatus = UNKNOWN"

definition nonce_answered :: "'x ocsp_env_scheme \<Rightarrow> basic_ocsp_resp \<Rightarrow> bytes option \<Rightarrow> bool" where
  "nonce_answered X br nonce \<longleftrightarrow>
     (case brNonce br of None \<Rightarrow> True
      | Some rn \<Rightarrow> \<exists>n. nonce = Some n \<and> length rn \<le> 1024 \<and> (rn = derOctetString X n \<or> rn = n))"

lemma checkNonce_iff: "checkNonce X br nonce = Inr () \<longleftrightarrow> nonce_answered X br nonce"
  by (auto simp: checkNonce_def nonce_answered_def split: option.splits)

lemma try_signer_run:
  "try_signer X br L c st = (Inr (), st') \<Longrightarrow>
     st' = (if isSignatureValid X br c = Inr True
            then st\<lparr>vs_statusSigner := Some c, vs_statusSignerChain := Some L, vs_statusSignatureValid := True\<rparr> else st)"
  by (auto simp: try_signer_def jrun_simps split: sum.splits if_splits)

lemma try_signers_run:
  "for_each (try_signer X br L) cs st = (Inr (), st') \<Longrightarrow>
     st' = (if verifying X br cs = [] then st
            else st\<lparr>vs_statusSigner := Some (last (verifying X br cs)), vs_statusSignerChain := Some L,
                    vs_statusSignatureValid := True\<rparr>)"
proof (induction cs arbitrary: st)
  case Nil
  then show ?case by (simp add: jrun_simps verifying_def)
next
  case (Cons c cs)
  from Cons.prems obtain st1 where
    1: "try_signer X br L c st = (Inr (), st1)" and 2: "for_each (try_signer X br L) cs st1 = (Inr (), st')"
    by (auto simp: jrun_simps split: prod.splits sum.splits)
  from try_signer_run[OF 1] Cons.IH[OF 2] show ?case
    by (auto simp: verifying_def split: if_splits)
qed

lemma checkResponseSignature_run:
  assumes "checkResponseSignature X issuer br st = (Inr (), st')"
  obtains certs L where "brCerts br = map Inr certs" "L = (if certs = [] then [issuer] else certs)"
    "st' = (if verifying X br L = [] then st
            else st\<lparr>vs_statusSigner := Some (last (verifying X br L)), vs_statusSignerChain := Some L,
                    vs_statusSignatureValid := True\<rparr>)"
  using assms
  by (auto simp: checkResponseSignature_def jrun_simps Let_def getCertificateList_Inr
      split: sum.splits dest!: try_signers_run)

lemma single_status_run:
  assumes "single_status X vd br sr st = (Inr (), st')"
  shows "vs_validity st' = (if srCertStatus sr = UnknownStatus then vs_validity st else verdict vd (srCertStatus sr))
    \<and> vs_exception st' = vs_exception st \<and> vs_sourceLocation st' = vs_sourceLocation st
    \<and> vs_statusSigner st' = vs_statusSigner st \<and> vs_statusSignerChain st' = vs_statusSignerChain st
    \<and> vs_statusSignatureValid st' = vs_statusSignatureValid st
    \<and> vs_certificate st' = vs_certificate st \<and> vs_issuer st' = vs_issuer st \<and> vs_sourceType st' = vs_sourceType st"
  using assms
  by (cases "srCertStatus sr") (auto simp: single_status_def jrun_simps split: sum.splits if_splits)

lemma response_loop_run:
  assumes "response_loop X vd br cid srs f st = (Inr f', st')"
  shows "f' = (f \<or> (\<exists>sr \<in> set srs. srCertID sr = cid))
    \<and> vs_validity st' = (if decisive cid srs = [] then vs_validity st else verdict vd (srCertStatus (last (decisive cid srs))))
    \<and> vs_exception st' = vs_exception st \<and> vs_sourceLocation st' = vs_sourceLocation st
    \<and> vs_statusSigner st' = vs_statusSigner st \<and> vs_statusSignerChain st' = vs_statusSignerChain st
    \<and> vs_statusSignatureValid st' = vs_statusSignatureValid st
    \<and> vs_certificate st' = vs_certificate st \<and> vs_issuer st' = vs_issuer st \<and> vs_sourceType st' = vs_sourceType st"
  using assms
proof (induction srs arbitrary: f st)
  case Nil
  then show ?case by (simp add: jrun_simps decisive_def)
next
  case (Cons sr srs)
  show ?case
  proof (cases "cid = srCertID sr")
    case False
    with Cons.IH Cons.prems show ?thesis by (auto simp: decisive_def)
  next
    case True
    with Cons.prems obtain st1 where
      1: "single_status X vd br sr st = (Inr (), st1)" and
      2: "response_loop X vd br cid srs True st1 = (Inr f', st')"
      by (auto simp: jrun_simps split: prod.splits sum.splits)
    from single_status_run[OF 1] Cons.IH[OF 2] True show ?thesis
      by (auto simp: decisive_def)
  qed
qed

text \<open>
  The answer the check should give for a response: the response is a successful one, it answers
  the nonce, it has an entry for the certificate and the last deciding entry gives the verdict;
  the signature counts as valid when one of the candidate certificates verifies it.
\<close>

definition ocsp_answer ::
  "'x ocsp_env_scheme \<Rightarrow> cert \<Rightarrow> date \<Rightarrow> cert_id \<Rightarrow> bytes option \<Rightarrow> ocsp_resp \<Rightarrow> validation_status \<Rightarrow> bool" where
  "ocsp_answer X issuer vd cid nonce resp st \<longleftrightarrow>
     (\<exists>br certs L. respStatus resp = 0 \<and> responseObject resp = Inr (Some br) \<and> nonce_answered X br nonce
        \<and> brCerts br = map Inr certs \<and> L = (if certs = [] then [issuer] else certs)
        \<and> (\<exists>sr \<in> set (brResponses br). srCertID sr = cid)
        \<and> vs_validity st = (if decisive cid (brResponses br) = [] then UNKNOWN
                            else verdict vd (srCertStatus (last (decisive cid (brResponses br)))))
        \<and> vs_statusSignatureValid st = (verifying X br L \<noteq> [])
        \<and> vs_statusSigner st = (if verifying X br L = [] then None else Some (last (verifying X br L)))
        \<and> vs_statusSignerChain st = (if verifying X br L = [] then None else Some L))"

lemma process_response_run:
  assumes "process_response X vd issuer u cid nonce resp st = (Inr (), st')"
    and "vs_exception st' = None" and "vs_validity st = UNKNOWN" and "\<not> vs_statusSignatureValid st"
    and "vs_statusSigner st = None" and "vs_statusSignerChain st = None"
  shows "ocsp_answer X issuer vd cid nonce resp st' \<and> vs_sourceLocation st' = vs_sourceLocation st"
proof -
  have ok: "respStatus resp = 0"
    using assms(1,2) by (auto simp: process_response_def jrun_simps split: sum.splits if_splits)
  with assms(1,2) obtain br st1 st2 where obj: "responseObject resp = Inr (Some br)"
    and 1: "checkResponseSignature X issuer br st = (Inr (), st1)"
    and n: "checkNonce X br nonce = Inr ()"
    and 2: "response_loop X vd br cid (brResponses br) False st1 = (Inr True, st2)" and "st' = st2"
    by (auto simp: process_response_def jrun_simps split: sum.splits prod.splits option.splits if_splits)
  from 1 obtain certs L where br: "brCerts br = map Inr certs" "L = (if certs = [] then [issuer] else certs)"
    and st1: "st1 = (if verifying X br L = [] then st
            else st\<lparr>vs_statusSigner := Some (last (verifying X br L)), vs_statusSignerChain := Some L,
                    vs_statusSignatureValid := True\<rparr>)" by (rule checkResponseSignature_run)
  note r = response_loop_run[OF 2]
  have "ocsp_answer X issuer vd cid nonce resp st2"
    unfolding ocsp_answer_def
    by (rule exI[of _ br], rule exI[of _ certs], rule exI[of _ L])
       (use ok obj n br r st1 assms(3-6) in \<open>simp add: checkNonce_iff\<close>)
  moreover have "vs_sourceLocation st2 = vs_sourceLocation st" using r st1 by simp
  ultimately show ?thesis using \<open>st' = st2\<close> by simp
qed

text \<open>What every statement on the status keeps, also when it throws.\<close>

definition ocsp_status_wf :: "cert \<Rightarrow> cert \<Rightarrow> validation_status \<Rightarrow> bool" where
  "ocsp_status_wf c issuer st \<longleftrightarrow>
     vs_certificate st = Some c \<and> vs_issuer st = Some issuer \<and> vs_sourceType st = Some OCSP
     \<and> (vs_statusSignatureValid st \<longleftrightarrow> vs_statusSigner st \<noteq> None)
     \<and> (vs_statusSignatureValid st \<longleftrightarrow> vs_statusSignerChain st \<noteq> None)
     \<and> (\<forall>sg ch. vs_statusSigner st = Some sg \<longrightarrow> vs_statusSignerChain st = Some ch \<longrightarrow> sg \<in> set ch)"

lemma keeps_process_response: "keeps (ocsp_status_wf c issuer) (process_response X vd issuer u cid nonce resp)"
proof -
  let ?I = "ocsp_status_wf c issuer"
  have sig: "keeps ?I (checkResponseSignature X issuer br)" for br
  proof -
    have one: "x \<in> set L \<Longrightarrow> ?I st \<Longrightarrow> jwp (try_signer X br L x) (\<lambda>_. ?I) (\<lambda>_. ?I) st" for x L st
      by (auto simp: try_signer_def jwp_simps ocsp_status_wf_def split: sum.split)
    have "keeps ?I (for_each (try_signer X br L) L)" for L
      by (rule keepsI, rule jwp_for_each_inv) (use one in auto)
    then show ?thesis
      unfolding checkResponseSignature_def Let_def by (intro keeps_bnd keeps_lift_sum)
  qed
  have single: "keeps ?I (single_status X vd br sr)" for br sr
    by (cases "srCertStatus sr")
       (auto simp: single_status_def keeps_def jwp_simps ocsp_status_wf_def split: sum.split)
  have loop: "keeps ?I (response_loop X vd br cid srs f)" for br srs f
  proof (induction srs arbitrary: f)
    case Nil
    then show ?case by (simp add: keeps_ret)
  next
    case (Cons sr srs)
    then show ?case by (auto intro!: keeps_sq single)
  qed
  have exc: "keeps ?I (upd (\<lambda>st. st\<lparr>vs_exception := e\<rparr>))" "keeps ?I (upd (\<lambda>st. st\<lparr>vs_validity := v\<rparr>))" for e v
    by (auto intro!: keeps_upd simp: ocsp_status_wf_def)
  show ?thesis unfolding process_response_def
    by (intro keeps_intros sig loop exc)
qed

lemma ocsp_checkValidity_at_wf:
  assumes "ocsp_checkValidity_at X c issuer vd s = (Inr st, s')"
  shows "ocsp_status_wf c issuer st"
proof -
  have 0: "ocsp_status_wf c issuer ((ocsp_status c issuer vd)\<lparr>vs_sourceLocation := l, vs_exception := e\<rparr>)" for l e
    by (simp add: ocsp_status_wf_def ocsp_status_def)
  have 1: "ocsp_status_wf c issuer ((ocsp_status c issuer vd)\<lparr>vs_sourceLocation := l\<rparr>)"
    "ocsp_status_wf c issuer ((ocsp_status c issuer vd)\<lparr>vs_exception := e\<rparr>)"
    "ocsp_status_wf c issuer ((ocsp_status c issuer vd)\<lparr>vs_statusSignatureValid := False\<rparr>)"
    "ocsp_status_wf c issuer (ocsp_status c issuer vd)" for l e
    by (simp_all add: ocsp_status_wf_def ocsp_status_def)
  have 2: "ocsp_status_wf c issuer st' \<Longrightarrow> ocsp_status_wf c issuer (st'\<lparr>vs_exception := e\<rparr>)" for st' e
    by (auto simp: ocsp_status_wf_def)
  show ?thesis
    using assms
    by (auto simp: ocsp_checkValidity_at_def jrun_simps Let_def 0 1
        split: sum.splits prod.splits option.splits if_splits
        dest: keepsD[OF keeps_process_response 1(1)] intro!: 2)
qed

lemma ocsp_checkValidity_throws:
  "ocsp_checkValidity_at X c issuer vd s = (Inl e, s') \<Longrightarrow> \<not> is_exception e"
  by (auto simp: ocsp_checkValidity_at_def jrun_simps Let_def
      split: sum.splits prod.splits option.splits if_splits)

subsection \<open>Properties\<close>

text \<open>
  C31. When \<open>OCSPCertificateVerifier.checkValidity\<close> ends without an exception in the status for a
  certificate with an OCSP location, it received a successful response to its own request; a
  nonce in the response equals the one sent, raw or wrapped; the response has an entry for the
  certificate, and the status is the verdict of the last entry for it that is not unknown. The
  status signature is valid exactly when a certificate of the response (the issuer, when there is
  none) verifies it, and the status signer is the last certificate that does.
\<close>

theorem ocsp_check_exact:
  assumes "ocsp_checkValidity_at X c issuer vd s = (Inr st, s')"
    and "vs_exception st = None" and "getOCSPUrl X c = Inr (Some u)"
  shows "\<exists>cid nonce resp. ocsp_exchange X c issuer u s = (Inr (cid, nonce, resp), s')
           \<and> ocsp_answer X issuer vd cid nonce resp st \<and> vs_sourceLocation st = Some u"
proof -
  let ?st = "(ocsp_status c issuer vd)\<lparr>vs_sourceLocation := Some u\<rparr>"
  from assms obtain cid nonce resp where ex: "ocsp_exchange X c issuer u s = (Inr (cid, nonce, resp), s')"
    and pr: "process_response X vd issuer u cid nonce resp ?st = (Inr (), st)"
    by (auto simp: ocsp_checkValidity_at_def jrun_simps Let_def
        split: sum.splits prod.splits option.splits if_splits)
  have "ocsp_answer X issuer vd cid nonce resp st \<and> vs_sourceLocation st = vs_sourceLocation ?st"
    by (rule process_response_run[OF pr assms(2)]) (simp_all add: ocsp_status_def)
  with ex show ?thesis by auto
qed

definition demo_id :: cert_id where
  "demo_id = \<lparr>idIssuerNameHash = [1], idIssuerKeyHash = [2], idSerialNumber = 7\<rparr>"

definition demo_basic :: "bytes option \<Rightarrow> cert_status list \<Rightarrow> basic_ocsp_resp" where
  "demo_basic nonce ss = \<lparr>brEncoded = [], brCerts = [], brNonce = nonce, brProducedAt = 50,
     brResponses = map (\<lambda>st. \<lparr>srCertID = demo_id, srThisUpdate = 40, srNextUpdate = None, srCertStatus = st\<rparr>) ss\<rparr>"

definition demo_ocsp :: "(ocsp_req \<Rightarrow> basic_ocsp_resp) \<Rightarrow> ocsp_env" where
  "demo_ocsp answer = \<lparr>readObject = (\<lambda>bs. Inr (Some (ASN1OctetString bs))),
     parseAIA = (\<lambda>_. Inr [\<lparr>accessMethod = oid_ocspAccessMethod, accessLocation = \<lparr>tagNo = 6, gname = ''http://o''\<rparr>\<rparr>]),
     parseCRLDistPoint = (\<lambda>_. Inr [demo_dp ''http://a'']), certVerify = (\<lambda>_ _. None), crlVerify = (\<lambda>_ _. None),
     includeNonce = True, ocspConnectTimeout = 1000, ocspReadTimeout = 3000, nextBytes = (\<lambda>n. [of_nat n]),
     newCertificateID = (\<lambda>_ _. Inr demo_id), derOctetString = (\<lambda>bs. [4, of_nat (length bs)] @ bs),
     requestOCSPResponse = (\<lambda>_ req _ _ _. Inr (Some \<lparr>respStatus = 0, responseObject = Inr (Some (answer req))\<rparr>)),
     isSignatureValid = (\<lambda>_ _. Inr True),
     getRevocationReason = (\<lambda>st. case st of RevokedStatus t (Some r) \<Rightarrow> Inr r
        | _ \<Rightarrow> Inl (Exn IllegalStateException (Some ''attempt to get a reason where none is available'')))\<rparr>"

lemmas ocsp_run_simps =
  ocsp_checkValidity_at_def ocsp_exchange_def getNonce_def process_response_def checkResponseSignature_def
  try_signer_def checkNonce_def generateOCSPRequest_def single_status_def getOCSPUrl_def getExtensionValue_def
  demo_ocsp_def demo_basic_def demo_cert_def uniformResourceIdentifier_def ocsp_status_def array_get_def
  RESPONSE_STATUS_def Let_def

abbreviation demo_ee :: cert where
  "demo_ee \<equiv> demo_cert ''CN=EE'' ''CN=CA'' [(oid_authorityInfoAccess, [])]"

abbreviation demo_ca :: cert where
  "demo_ca \<equiv> demo_cert ''CN=CA'' ''CN=CA'' []"

theorem ocsp_check_exact_witness:
  "\<exists>st s' cid nonce resp.
     ocsp_checkValidity_at (demo_ocsp (\<lambda>req. demo_basic (reqNonce req) [GOOD])) demo_ee demo_ca 60 \<lparr>tick = 3\<rparr> = (Inr st, s')
     \<and> vs_validity st = VALID
     \<and> ocsp_answer (demo_ocsp (\<lambda>req. demo_basic (reqNonce req) [GOOD])) demo_ca 60 cid nonce resp st"
proof -
  let ?X = "demo_ocsp (\<lambda>req. demo_basic (reqNonce req) [GOOD])"
  have url: "getOCSPUrl ?X demo_ee = Inr (Some ''http://o'')"
    by (simp add: ocsp_run_simps)
  obtain st s' where run: "ocsp_checkValidity_at ?X demo_ee demo_ca 60 \<lparr>tick = 3\<rparr> = (Inr st, s')"
    and "vs_exception st = None" "vs_validity st = VALID"
    by (auto simp: ocsp_run_simps jrun_simps)
  then show ?thesis using ocsp_check_exact[OF run _ url] by blast
qed

text \<open>
  A response that says a certificate was revoked, but gives no revocation reason, never leads to
  the status REVOKED: the provider's \<open>getRevocationReason\<close> throws when there is no reason, and
  the status is left UNKNOWN although its revocation time has been set.
\<close>

theorem ocsp_revoked_without_reason:
  assumes "getOCSPUrl X c = Inr (Some u)"
    and "ocsp_exchange X c issuer u s = (Inr (cid, nonce, resp), s')"
    and "respStatus resp = 0" "responseObject resp = Inr (Some br)" "nonce_answered X br nonce"
    and "checkResponseSignature X issuer br ((ocsp_status c issuer vd)\<lparr>vs_sourceLocation := Some u\<rparr>) = (Inr (), st1)"
    and "brResponses br = [sr]" "srCertID sr = cid" "srCertStatus sr = RevokedStatus t None" "t \<le> vd"
    and noreason: "\<And>t. getRevocationReason X (RevokedStatus t None) = Inl (Exn IllegalStateException m)"
  shows "\<exists>st. ocsp_checkValidity_at X c issuer vd s = (Inr st, s') \<and> vs_validity st = UNKNOWN
           \<and> vs_revocationTime st = Some t \<and> vs_exception st = Some (Exn IllegalStateException m)"
proof -
  obtain certs L where "st1 = (if verifying X br L = [] then (ocsp_status c issuer vd)\<lparr>vs_sourceLocation := Some u\<rparr>
      else (ocsp_status c issuer vd)\<lparr>vs_sourceLocation := Some u, vs_statusSigner := Some (last (verifying X br L)),
             vs_statusSignerChain := Some L, vs_statusSignatureValid := True\<rparr>)"
    by (rule checkResponseSignature_run[OF assms(6)]) auto
  then have "vs_validity st1 = UNKNOWN" by (simp add: ocsp_status_def)
  moreover have "checkNonce X br nonce = Inr ()" using assms(5) by (simp add: checkNonce_iff)
  ultimately show ?thesis
    using assms by (simp add: ocsp_checkValidity_at_def process_response_def single_status_def jrun_simps Let_def)
qed

theorem ocsp_revoked_without_reason_witness:
  "\<exists>st s'. ocsp_checkValidity_at (demo_ocsp (\<lambda>req. demo_basic None [RevokedStatus 20 None])) demo_ee demo_ca 60 \<lparr>tick = 3\<rparr> = (Inr st, s')
     \<and> vs_validity st = UNKNOWN \<and> vs_revocationTime st = Some 20"
proof -
  let ?X = "demo_ocsp (\<lambda>req. demo_basic None [RevokedStatus 20 None])" and ?br = "demo_basic None [RevokedStatus 20 None]"
  have url: "getOCSPUrl ?X demo_ee = Inr (Some ''http://o'')" by (simp add: ocsp_run_simps)
  have ex: "ocsp_exchange ?X demo_ee demo_ca ''http://o'' \<lparr>tick = 3\<rparr>
      = (Inr (demo_id, Some [3], \<lparr>respStatus = 0, responseObject = Inr (Some ?br)\<rparr>), \<lparr>tick = 5\<rparr>)"
    by (simp add: ocsp_run_simps jrun_simps)
  obtain st1 where sig: "checkResponseSignature ?X demo_ca ?br ((ocsp_status demo_ee demo_ca 60)\<lparr>vs_sourceLocation := Some ''http://o''\<rparr>) = (Inr (), st1)"
    by (simp add: ocsp_run_simps jrun_simps)
  have "\<exists>st. ocsp_checkValidity_at ?X demo_ee demo_ca 60 \<lparr>tick = 3\<rparr> = (Inr st, \<lparr>tick = 5\<rparr>) \<and> vs_validity st = UNKNOWN
      \<and> vs_revocationTime st = Some 20
      \<and> vs_exception st = Some (Exn IllegalStateException (Some ''attempt to get a reason where none is available''))"
    by (rule ocsp_revoked_without_reason[OF url ex _ _ _ sig])
       (simp add: nonce_answered_def demo_basic_def demo_ocsp_def)+
  then show ?thesis by blast
qed

end
