(* ===== verification/Status_Check.thy ===== *)
theory Status_Check
  imports OCSP_Checker
begin

text \<open>
  The status of one certificate: \<open>BasicValidityPathChecker\<close> (the trust in who signed a CRL or an
  OCSP response) and the single-threaded mode of \<open>BasicCertificateValidityChecker\<close> (CRL and OCSP
  check, trust check, choice of the result), in \<open>cert-validation/.../validity/impl\<close>. The two
  classes call each other, since the certificate of an OCSP responder is itself checked: the
  recursion runs on the depth of the call stack, and \<open>StackOverflowError\<close> at depth zero is an
  \<open>Error\<close> that no handler of the sources catches. The theory \<open>Status_Threads\<close> has the
  multi-threaded mode.
\<close>

definition failed :: "string \<Rightarrow> ('s, exn, 'a) jm" where
  "failed msg = throw (Exn RuntimeException (Some msg))"

subsection \<open>BasicValidityPathChecker\<close>

definition checkCrlTrustPath ::
  "(nat \<Rightarrow> date) \<Rightarrow> validation_status \<Rightarrow> ('a world_scheme, exn, unit) jm" where
  "checkCrlTrustPath clk st =
     (case (vs_issuer st, vs_statusSigner st) of
        (Some issuer, Some signer) \<Rightarrow>
          bnd (read_env clk) (\<lambda>now.
          if \<not> isCurrentlyValid issuer now then failed ''CRL validation failed: Expired or not yet valid CRL issuer certificate''
          else if issuer \<noteq> signer then failed ''CRL validation failed: CRL is not verified through the target CA certificate''
          else if basicConstraints signer < 0 then failed ''CRL validation failed: Non CA CRL issuer''
          else (case keyUsage signer of
                  None \<Rightarrow> failed ''CRL validation failed: CRL key usage bit not set''
                | Some ku \<Rightarrow> bnd (lift_sum (array_get ku 6)) (\<lambda>b.
                    if \<not> b then failed ''CRL validation failed: CRL key usage bit not set'' else ret ())))
      | _ \<Rightarrow> failed ''CRL validation failed: CRL issuer certificate missing for CRL validation'')"

definition ocspKeyUsage :: "cert \<Rightarrow> bool" where
  "ocspKeyUsage c =
     (case extKeyUsage c of
        None \<Rightarrow> False
      | Some ekus \<Rightarrow> List.find (\<lambda>s. equalsIgnoreCase oid_kp_OCSPSigning s) ekus \<noteq> None)"

definition verify_responder :: "'x x509_env_scheme \<Rightarrow> cert \<Rightarrow> cert \<Rightarrow> ('s, exn, unit) jm" where
  "verify_responder X signer issuer =
     (case certVerify X signer (publicKey issuer) of
        None \<Rightarrow> ret ()
      | Some e \<Rightarrow>
          if is_exception e
          then failed ''OCSP validation failed: OCSP responder certificate can't be verified using target CA certificate''
          else throw e)"

definition responder_checks ::
  "'x x509_env_scheme \<Rightarrow> (cert \<Rightarrow> cert \<Rightarrow> ('a world_scheme, exn, validation_status) jm)
     \<Rightarrow> validation_status \<Rightarrow> cert \<Rightarrow> cert list \<Rightarrow> cert \<Rightarrow> ('a world_scheme, exn, unit) jm" where
  "responder_checks X check st signer chain issuer =
     (if List.find (\<lambda>c. Some c = vs_certificate st) chain \<noteq> None
      then failed ''OCSP recursive error: OCSP responder certificate trust path contains target certificate''
      else if \<not> ocspKeyUsage signer then failed ''OCSP validation failed: OCSP responder certificate lacks OCSP key usage''
      else bnd (lift_sum (isOCSPNocheckExt X signer)) (\<lambda>ocspNocheck.
           if \<not> ocspNocheck \<and> issuer \<noteq> signer
           then bnd (check signer issuer) (\<lambda>vs.
                if vs_validity vs \<noteq> VALID then failed ''OCSP validation failed: OCSP responder certificate failed validity check''
                else ret ())
           else ret ()))"

definition checkOcspTrustPath ::
  "'x x509_env_scheme \<Rightarrow> (nat \<Rightarrow> date) \<Rightarrow> (cert \<Rightarrow> cert \<Rightarrow> ('a world_scheme, exn, validation_status) jm)
     \<Rightarrow> validation_status \<Rightarrow> ('a world_scheme, exn, unit) jm" where
  "checkOcspTrustPath X clk check st =
     (case (vs_issuer st, vs_statusSigner st, vs_statusSignerChain st) of
        (Some issuer, Some signer, Some (c1 # cs)) \<Rightarrow>
          bnd (read_env clk) (\<lambda>now.
          if \<not> isCurrentlyValid issuer now then failed ''OCSP validation failed: Expired or not yet valid issuer certificate''
          else bnd (read_env clk) (\<lambda>now.
          if \<not> isCurrentlyValid signer now then failed ''OCSP validation failed: Expired or not yet valid OCSP signer certificate''
          else if issuer = signer then ret ()
          else sq (verify_responder X signer issuer)
                  (responder_checks X check st signer (c1 # cs) issuer)))
      | _ \<Rightarrow> failed ''OCSP validation failed: Missing necessary certificates to validate OCSP response'')"

definition verifyValidityStatusTrustPath ::
  "'x x509_env_scheme \<Rightarrow> (nat \<Rightarrow> date) \<Rightarrow> (cert \<Rightarrow> cert \<Rightarrow> ('a world_scheme, exn, validation_status) jm)
     \<Rightarrow> validation_status \<Rightarrow> ('a world_scheme, exn, unit) jm" where
  "verifyValidityStatusTrustPath X clk check st =
     (case vs_sourceType st of
        None \<Rightarrow> throw npe
      | Some OCSP \<Rightarrow> checkOcspTrustPath X clk check st
      | Some CRL \<Rightarrow> checkCrlTrustPath clk st
      | Some SELF_SIGNED \<Rightarrow> ret ())"

subsection \<open>BasicCertificateValidityChecker\<close>

fun source_name :: "ValidatorSourceType option \<Rightarrow> string" where
  "source_name None = ''null''"
| "source_name (Some OCSP) = ''OCSP''"
| "source_name (Some CRL) = ''CRL''"
| "source_name (Some SELF_SIGNED) = ''SELF_SIGNED''"

definition checkStatusPath ::
  "(validation_status \<Rightarrow> ('s, exn, unit) jm) \<Rightarrow> validation_status option \<Rightarrow> ('s, exn, validation_status) jm" where
  "checkStatusPath verify status =
     (case status of
        None \<Rightarrow> ret ((status_builder UNKNOWN)\<lparr>vs_exception := Some (Exn RuntimeException (Some ''No status information''))\<rparr>)
      | Some st \<Rightarrow>
          if vs_statusSignatureValid st
          then try_catch (sq (verify st) (ret st))
                 (\<lambda>ex. ret (st\<lparr>vs_validity := UNKNOWN, vs_exception := Some ex\<rparr>))
          else ret (st\<lparr>vs_exception := Some (Exn RuntimeException (Some (''Unable to obtain valid status token for '' @ source_name (vs_sourceType st))))\<rparr>))"

definition signed_with :: "CertificateValidity \<Rightarrow> validation_status \<Rightarrow> bool" where
  "signed_with v st \<longleftrightarrow> vs_statusSignatureValid st \<and> vs_validity st = v"

text \<open>\<open>log.info("...", status.getCertificate().getSubjectX500Principal())\<close> dereferences the certificate.\<close>

definition logged :: "validation_status \<Rightarrow> ('s, exn, validation_status) jm" where
  "logged st = sq (deref (vs_certificate st)) (ret st)"

definition pick_status ::
  "validation_status option \<Rightarrow> validation_status option \<Rightarrow> validation_status list \<Rightarrow> ('s, exn, validation_status) jm" where
  "pick_status revoked valid sts =
     (case revoked of
        Some st \<Rightarrow> logged st
      | None \<Rightarrow>
          (case valid of
             Some st \<Rightarrow> logged st
           | None \<Rightarrow>
               (case sts of
                  [] \<Rightarrow> failed ''Validity checking: No valid responses''
                | st # _ \<Rightarrow> logged st)))"

definition pick_result :: "validation_status list \<Rightarrow> ('s, exn, validation_status) jm" where
  "pick_result sts = pick_status (List.find (signed_with REVOKED) sts) (List.find (signed_with VALID) sts) sts"

primrec cert_checkValidity ::
  "'x ocsp_env_scheme \<Rightarrow> crl_env \<Rightarrow> (distribution_point list option \<Rightarrow> ('a world_scheme, exn, crl_info) jm)
     \<Rightarrow> nat \<Rightarrow> cert \<Rightarrow> cert \<Rightarrow> ('a world_scheme, exn, validation_status) jm" where
  "cert_checkValidity X E cacheGetCRL 0 = (\<lambda>c issuer. throw (Exn StackOverflowError None))"
| "cert_checkValidity X E cacheGetCRL (Suc depth) = (\<lambda>c issuer.
     let checkPath = checkStatusPath (verifyValidityStatusTrustPath X (clock E) (cert_checkValidity X E cacheGetCRL depth))
     in bnd (crl_checkValidity X E cacheGetCRL c issuer) (\<lambda>s1.
        bnd (checkPath (Some s1)) (\<lambda>s1.
        bnd (ocsp_checkValidity X (clock E) c issuer) (\<lambda>s2.
        bnd (checkPath (Some s2)) (\<lambda>s2.
        pick_result [s1, s2])))))"

subsection \<open>What a successful trust check says\<close>

definition signs_crls :: "cert \<Rightarrow> bool" where
  "signs_crls ca \<longleftrightarrow> 0 \<le> basicConstraints ca \<and> (\<exists>ku. keyUsage ca = Some ku \<and> 6 < length ku \<and> ku ! 6)"

lemma checkCrlTrustPath_Inr:
  assumes "checkCrlTrustPath clk st s = (Inr (), s')"
  shows "\<exists>ca. vs_issuer st = Some ca \<and> vs_statusSigner st = Some ca \<and> signs_crls ca
           \<and> isCurrentlyValid ca (clk (tick s))"
  using assms
  by (auto simp: checkCrlTrustPath_def failed_def jrun_simps array_get_def signs_crls_def
      split: option.splits if_splits)

text \<open>
  The responder is the issuer itself, or a delegate: its certificate is verified with the issuer's
  key, it has the OCSP signing purpose, the certificate being checked is not in its chain, and it
  carries the no-check extension or its own check (the parameter) gave VALID.
\<close>

definition delegated ::
  "'x x509_env_scheme \<Rightarrow> (cert \<Rightarrow> cert \<Rightarrow> ('a world_scheme, exn, validation_status) jm)
     \<Rightarrow> validation_status \<Rightarrow> cert \<Rightarrow> cert \<Rightarrow> bool" where
  "delegated X check st signer issuer \<longleftrightarrow>
     certVerify X signer (publicKey issuer) = None \<and> ocspKeyUsage signer
     \<and> (\<forall>chain. vs_statusSignerChain st = Some chain \<longrightarrow> (\<forall>c \<in> set chain. vs_certificate st \<noteq> Some c))
     \<and> (isOCSPNocheckExt X signer = Inr True
        \<or> (\<exists>s1 vs s2. check signer issuer s1 = (Inr vs, s2) \<and> vs_validity vs = VALID))"

definition trusted_responder ::
  "'x x509_env_scheme \<Rightarrow> (nat \<Rightarrow> date) \<Rightarrow> (cert \<Rightarrow> cert \<Rightarrow> ('a world_scheme, exn, validation_status) jm)
     \<Rightarrow> validation_status \<Rightarrow> cert \<Rightarrow> bool" where
  "trusted_responder X clk check st issuer \<longleftrightarrow>
     (\<exists>signer n m. vs_statusSigner st = Some signer
        \<and> isCurrentlyValid issuer (clk n) \<and> isCurrentlyValid signer (clk m)
        \<and> (signer = issuer \<or> delegated X check st signer issuer))"

lemma responder_checks_Inr:
  assumes "responder_checks X check st signer chain issuer s = (Inr (), s')" and "signer \<noteq> issuer"
    and "certVerify X signer (publicKey issuer) = None" and "vs_statusSignerChain st = Some chain"
  shows "delegated X check st signer issuer"
  using assms
  by (auto simp: responder_checks_def delegated_def failed_def jrun_simps find_None_iff_all
      split: sum.splits prod.splits if_splits)

lemma checkOcspTrustPath_Inr:
  assumes "checkOcspTrustPath X clk check st s = (Inr (), s')" and "vs_issuer st = Some issuer"
  shows "trusted_responder X clk check st issuer"
proof -
  from assms obtain signer chain where sg: "vs_statusSigner st = Some signer" "vs_statusSignerChain st = Some chain"
    and cv: "isCurrentlyValid issuer (clk (tick s))" "isCurrentlyValid signer (clk (Suc (tick s)))"
    and rest: "issuer = signer \<or> (\<exists>s1. certVerify X signer (publicKey issuer) = None
                 \<and> responder_checks X check st signer chain issuer s1 = (Inr (), s'))"
    by (auto simp: checkOcspTrustPath_def verify_responder_def failed_def jrun_simps
        split: option.splits list.splits if_splits prod.splits sum.splits)
  have "signer = issuer \<or> delegated X check st signer issuer"
    using rest responder_checks_Inr[OF _ _ _ sg(2)] by metis
  with sg cv show ?thesis unfolding trusted_responder_def by blast
qed

lemma checkStatusPath_run:
  assumes "checkStatusPath verify (Some a) s = (Inr b, s')"
  obtains (trusted) "vs_statusSignatureValid a" "verify a s = (Inr (), s')" "b = a"
  | (distrusted) e where "vs_statusSignatureValid a" "verify a s = (Inl e, s')" "is_exception e"
      "b = a\<lparr>vs_validity := UNKNOWN, vs_exception := Some e\<rparr>"
  | (unsigned) e where "\<not> vs_statusSignatureValid a" "s' = s" "b = a\<lparr>vs_exception := Some e\<rparr>"
  using assms
  by (auto simp: checkStatusPath_def jrun_simps split: if_splits prod.splits sum.splits)

lemma checkStatusPath_conclusive:
  assumes "checkStatusPath verify (Some a) s = (Inr b, s')"
    and "vs_statusSignatureValid b" "vs_validity b \<noteq> UNKNOWN"
  shows "b = a \<and> verify a s = (Inr (), s')"
  using assms(1) by (cases rule: checkStatusPath_run) (use assms(2,3) in auto)

lemma checkStatusPath_signed:
  "checkStatusPath verify (Some a) s = (Inr b, s') \<Longrightarrow>
     vs_statusSignatureValid b = vs_statusSignatureValid a \<and> vs_certificate b = vs_certificate a
     \<and> (vs_validity b = vs_validity a \<or> vs_validity b = UNKNOWN)"
  by (cases rule: checkStatusPath_run) auto

subsection \<open>The choice of the result\<close>

lemma pick_result_Inr:
  assumes "pick_result sts s = (Inr st, s')"
  shows "s' = s \<and> st \<in> set sts \<and> vs_certificate st \<noteq> None
    \<and> ((\<exists>x \<in> set sts. signed_with REVOKED x) \<longrightarrow> signed_with REVOKED st)
    \<and> (\<not> (\<exists>x \<in> set sts. signed_with REVOKED x) \<longrightarrow> (\<exists>x \<in> set sts. signed_with VALID x) \<longrightarrow> signed_with VALID st)
    \<and> (\<not> (\<exists>x \<in> set sts. signed_with REVOKED x \<or> signed_with VALID x) \<longrightarrow> st = hd sts)"
proof (cases "List.find (signed_with REVOKED) sts")
  case (Some r)
  then show ?thesis
    using assms find_Some_in[OF Some]
    by (auto simp: pick_result_def pick_status_def logged_def jrun_simps split: option.splits)
next
  case None
  note R = None
  show ?thesis
  proof (cases "List.find (signed_with VALID) sts")
    case (Some v)
    with assms R find_Some_in[OF Some] show ?thesis
      by (auto simp: pick_result_def pick_status_def logged_def jrun_simps find_None_iff_all split: option.splits)
  next
    case None
    with assms R show ?thesis
      by (auto simp: pick_result_def pick_status_def logged_def failed_def jrun_simps find_None_iff_all
          split: option.splits list.splits)
  qed
qed

text \<open>With certificates in all the statuses the choice only fails for want of a status.\<close>

lemma pick_result_returns:
  assumes "sts \<noteq> []" and "\<forall>x \<in> set sts. vs_certificate x \<noteq> None"
  shows "\<exists>st. pick_result sts s = (Inr st, s)"
  using assms find_Some_in
  by (cases sts)
     (fastforce simp: pick_result_def pick_status_def logged_def jrun_simps split: option.splits)+

subsection \<open>Time does not run backwards\<close>

abbreviation after :: "nat \<Rightarrow> 'a world_scheme \<Rightarrow> bool" where
  "after k \<equiv> \<lambda>w. k \<le> tick w"

lemma keeps_after_env [keeps_intros]: "keeps (after k) (read_env f)" "keeps (after k) (call_env g)"
  by (auto intro!: keeps_read_env keeps_call_env)

lemma keeps_failed [keeps_intros]: "keeps I (failed msg)"
  by (simp add: failed_def keeps_throw)

lemma keeps_crl_checkValidity:
  "(\<And>e. keeps (after k) (get e)) \<Longrightarrow> keeps (after k) (crl_checkValidity X E get c issuer)"
  unfolding crl_checkValidity_def Let_def by (intro keeps_intros)

lemma keeps_ocsp_checkValidity: "keeps (after k) (ocsp_checkValidity X clk c issuer)"
proof -
  have "keeps (after k) (ocsp_exchange X c issuer u)" for u
    unfolding ocsp_exchange_def getNonce_def by (intro keeps_intros)
  then have "keeps (after k) (ocsp_checkValidity_at X c issuer vd)" for vd
    unfolding ocsp_checkValidity_at_def Let_def
    by (intro keeps_intros) (auto intro!: keeps_intros split: prod.split sum.split)
  then show ?thesis unfolding ocsp_checkValidity_def by (intro keeps_intros)
qed

lemma keeps_checkStatusPath:
  "(\<And>st. keeps I (verify st)) \<Longrightarrow> keeps I (checkStatusPath verify a)"
  unfolding checkStatusPath_def by (intro keeps_intros)

lemma keeps_verifyTrustPath:
  assumes "\<And>c i. keeps (after k) (check c i)"
  shows "keeps (after k) (verifyValidityStatusTrustPath X clk check st)"
proof -
  have resp: "keeps (after k) (responder_checks X check st signer chain issuer)" for signer chain issuer
    unfolding responder_checks_def by (intro keeps_intros assms)
  have ocsp: "keeps (after k) (checkOcspTrustPath X clk check st)"
    unfolding checkOcspTrustPath_def verify_responder_def
    by (auto intro!: keeps_intros resp split: option.split list.split)
  have crl: "keeps (after k) (checkCrlTrustPath clk st)"
    unfolding checkCrlTrustPath_def by (auto intro!: keeps_intros split: option.split)
  show ?thesis
    unfolding verifyValidityStatusTrustPath_def
    by (auto intro!: keeps_intros ocsp crl split: option.split ValidatorSourceType.split)
qed

lemma keeps_pick_result [keeps_intros]: "keeps I (pick_result sts)"
  unfolding pick_result_def pick_status_def logged_def
  by (auto intro!: keeps_intros split: option.split list.split)

lemma keeps_cert_checkValidity:
  assumes "\<And>e. keeps (after k) (get e)"
  shows "keeps (after k) (cert_checkValidity X E get depth c issuer)"
proof (induction depth arbitrary: c issuer)
  case 0
  show ?case by (simp add: keeps_throw)
next
  case (Suc depth)
  show ?case
    unfolding cert_checkValidity.simps Let_def
    by (intro keeps_intros keeps_crl_checkValidity keeps_ocsp_checkValidity keeps_checkStatusPath
        keeps_verifyTrustPath assms Suc.IH)
qed

subsection \<open>The check of a certificate\<close>

text \<open>The four steps before the choice, as seen from the result.\<close>

lemma cert_checkValidity_steps:
  assumes "cert_checkValidity X E get (Suc depth) c issuer s = (Inr st, s')"
  obtains a1 s1 b1 s2 a2 s3 b2 where
    "crl_checkValidity X E get c issuer s = (Inr a1, s1)"
    "checkStatusPath (verifyValidityStatusTrustPath X (clock E) (cert_checkValidity X E get depth)) (Some a1) s1 = (Inr b1, s2)"
    "ocsp_checkValidity X (clock E) c issuer s2 = (Inr a2, s3)"
    "checkStatusPath (verifyValidityStatusTrustPath X (clock E) (cert_checkValidity X E get depth)) (Some a2) s3 = (Inr b2, s')"
    "pick_result [b1, b2] s' = (Inr st, s')"
proof -
  have same: "pick_result sts w = (Inr st, s') \<Longrightarrow> w = s'" for sts w
    using pick_result_Inr by metis
  then show ?thesis using assms that
    by (auto simp: jrun_simps Let_def split: prod.splits sum.splits, metis)
qed

lemma ocsp_checkValidity_wf:
  "ocsp_checkValidity X clk c issuer s = (Inr st, s') \<Longrightarrow> ocsp_status_wf c issuer st"
  by (auto simp: ocsp_checkValidity_def jrun_simps intro: ocsp_checkValidity_at_wf)

text \<open>
  Evidence for a status: a CRL, served fresh between two states and verified with the key of an
  issuer that may sign CRLs and is within its validity period; or a signed OCSP answer from a
  trusted responder.
\<close>

definition crl_evidence ::
  "'x rev_env_scheme \<Rightarrow> crl_env \<Rightarrow> 'a world_scheme \<Rightarrow> 'a world_scheme \<Rightarrow> cert \<Rightarrow> cert \<Rightarrow> validation_status \<Rightarrow> bool" where
  "crl_evidence X E s s' c issuer st \<longleftrightarrow>
     (\<exists>dps dp u i n. getCrlDistPoint X c = Inr (Some dps) \<and> dp \<in> set dps \<and> dp_accepted dp \<and> u \<in> set (dp_all_uris dp)
        \<and> crl_served E s s' u i \<and> crl_status_from X i c issuer st
        \<and> signs_crls issuer \<and> isCurrentlyValid issuer (clock E n))"

definition ocsp_evidence ::
  "'x ocsp_env_scheme \<Rightarrow> crl_env \<Rightarrow> (cert \<Rightarrow> cert \<Rightarrow> ('a world_scheme, exn, validation_status) jm)
     \<Rightarrow> cert \<Rightarrow> cert \<Rightarrow> validation_status \<Rightarrow> bool" where
  "ocsp_evidence X E check c issuer st \<longleftrightarrow>
     (\<exists>(s1 :: 'a world_scheme) s2. ocsp_checkValidity X (clock E) c issuer s1 = (Inr st, s2))
     \<and> vs_statusSignatureValid st \<and> trusted_responder X (clock E) check st issuer"

lemma crl_served_later:
  "crl_served E s s1 u i \<Longrightarrow> tick s1 \<le> tick s' \<Longrightarrow> crl_served E s s' u i"
  unfolding crl_served_def by (meson less_le_trans)

lemma ocsp_step_evidence:
  fixes s2 :: "'a world_scheme"
  assumes "ocsp_checkValidity X (clock E) c issuer s2 = (Inr a2, s3)"
    and "checkStatusPath (verifyValidityStatusTrustPath X (clock E) check) (Some a2) s3 = (Inr st, s')"
    and "vs_statusSignatureValid st" "vs_validity st \<noteq> UNKNOWN"
  shows "ocsp_evidence X E check c issuer st"
proof -
  from checkStatusPath_conclusive[OF assms(2-4)]
  have st: "st = a2" and v: "verifyValidityStatusTrustPath X (clock E) check a2 s3 = (Inr (), s')" by auto
  from ocsp_checkValidity_wf[OF assms(1)] have "vs_sourceType a2 = Some OCSP" "vs_issuer a2 = Some issuer"
    by (simp_all add: ocsp_status_wf_def)
  with v have "trusted_responder X (clock E) check a2 issuer"
    by (intro checkOcspTrustPath_Inr) (simp_all add: verifyValidityStatusTrustPath_def)
  with st assms(1,3) show ?thesis unfolding ocsp_evidence_def by blast
qed

context crl_cache
begin

lemma crl_step_evidence:
  assumes inv: "inv (s\<lparr>tick := Suc (tick s)\<rparr>)"
    and run: "crl_checkValidity X E (getCRL_dp getCRL) c issuer s = (Inr a1, s1)"
    and path: "checkStatusPath (verifyValidityStatusTrustPath X (clock E) check) (Some a1) s1 = (Inr st, s2)"
    and known: "vs_statusSignatureValid st" "vs_validity st \<noteq> UNKNOWN"
    and later: "tick s1 \<le> tick s'"
  shows "crl_evidence X E s s' c issuer st"
proof -
  from checkStatusPath_conclusive[OF path known]
  have st: "st = a1" and v: "verifyValidityStatusTrustPath X (clock E) check a1 s1 = (Inr (), s2)" by auto
  from crl_checkValidity_identity[OF run] v have "checkCrlTrustPath (clock E) a1 s1 = (Inr (), s2)"
    by (simp add: verifyValidityStatusTrustPath_def)
  then obtain ca where ca: "vs_statusSigner a1 = Some ca" "signs_crls ca" "isCurrentlyValid ca (clock E (tick s1))"
    using checkCrlTrustPath_Inr by blast
  from crl_check_served[OF inv run] known st obtain dps dp u i where
    i: "getCrlDistPoint X c = Inr (Some dps)" "dp \<in> set dps" "dp_accepted dp" "u \<in> set (dp_all_uris dp)"
    "crl_served E s s1 u i" "crl_status_from X i c issuer a1" by auto
  then have "ca = issuer" using ca(1) by (simp add: crl_status_from_def)
  with ca i st crl_served_later[OF i(5) later] show ?thesis unfolding crl_evidence_def by blast
qed

lemma keeps_after_getCRL_dp:
  assumes "\<And>w :: 'a world_scheme. inv w"
  shows "keeps (after k) (getCRL_dp getCRL e)"
proof (rule keeps_getCRL_dp, rule keepsI, rule jwpI)
  fix u s x s'
  assume k: "after k s" and "getCRL u s = (Inr x, s')"
  with getCRL_tick[OF assms] show "after k s'" by (meson le_trans)
next
  fix u s e s'
  assume k: "after k s" and "getCRL u s = (Inl e, s')"
  with getCRL_tick[OF assms] show "after k s'" by (meson le_trans)
qed

lemma cert_check_evidence:
  assumes invs: "\<And>w :: 'a world_scheme. inv w"
    and run: "cert_checkValidity X E (getCRL_dp getCRL) (Suc depth) c issuer s = (Inr st, s')"
    and concl: "vs_statusSignatureValid st" "vs_validity st \<noteq> UNKNOWN"
  shows "crl_evidence X E s s' c issuer st
       \<or> ocsp_evidence X E (cert_checkValidity X E (getCRL_dp getCRL) depth) c issuer st"
proof -
  let ?V = "verifyValidityStatusTrustPath X (clock E) (cert_checkValidity X E (getCRL_dp getCRL) depth)"
  from run obtain a1 s1 b1 s2 a2 s3 b2 where
    1: "crl_checkValidity X E (getCRL_dp getCRL) c issuer s = (Inr a1, s1)" and
    2: "checkStatusPath ?V (Some a1) s1 = (Inr b1, s2)" and
    3: "ocsp_checkValidity X (clock E) c issuer s2 = (Inr a2, s3)" and
    4: "checkStatusPath ?V (Some a2) s3 = (Inr b2, s')" and
    5: "pick_result [b1, b2] s' = (Inr st, s')" by (rule cert_checkValidity_steps)
  have V: "keeps (after k) (?V a)" for k a
    by (intro keeps_verifyTrustPath keeps_cert_checkValidity keeps_after_getCRL_dp invs)
  have "after (tick s1) s2" by (rule keepsD[OF keeps_checkStatusPath[OF V] _ 2]) simp
  then have "after (tick s1) s3" by (rule keepsD[OF keeps_ocsp_checkValidity _ 3])
  then have "after (tick s1) s'" by (rule keepsD[OF keeps_checkStatusPath[OF V] _ 4])
  moreover from pick_result_Inr[OF 5] have "st = b1 \<or> st = b2" by auto
  ultimately show ?thesis
    using crl_step_evidence[OF invs 1 2, of s'] ocsp_step_evidence[OF 3 4] concl by blast
qed

end

text \<open>An unsigned status that is chosen is the one of the CRL check, and that is then unknown.\<close>

lemma cert_check_signed:
  assumes "cert_checkValidity X E get depth c issuer s = (Inr st, s')" and "vs_validity st \<noteq> UNKNOWN"
  shows "vs_statusSignatureValid st"
proof (cases depth)
  case 0
  with assms(1) show ?thesis by (simp add: jrun_simps)
next
  case (Suc d)
  from assms(1)[unfolded Suc] obtain a1 s1 b1 s2 a2 s3 b2 where
    1: "crl_checkValidity X E get c issuer s = (Inr a1, s1)" and
    2: "checkStatusPath (verifyValidityStatusTrustPath X (clock E) (cert_checkValidity X E get d)) (Some a1) s1 = (Inr b1, s2)" and
    5: "pick_result [b1, b2] s' = (Inr st, s')" by (rule cert_checkValidity_steps)
  from 1 have "vs_validity a1 = UNKNOWN \<or> vs_statusSignatureValid a1"
    by (cases rule: crl_checkValidity_cases) (auto simp: crl_status_unknown_def crl_status_from_def)
  then have "vs_validity b1 = UNKNOWN \<or> vs_statusSignatureValid b1"
    using checkStatusPath_signed[OF 2] by auto
  with pick_result_Inr[OF 5] assms(2) show ?thesis
    by (auto simp: signed_with_def)
qed

text \<open>Only an \<open>Error\<close> leaves the check: the choice always has statuses with a certificate.\<close>

lemma checkStatusPath_throws:
  "checkStatusPath verify a s = (Inl e, s') \<Longrightarrow> \<not> is_exception e"
  by (auto simp: checkStatusPath_def jrun_simps split: option.splits if_splits prod.splits sum.splits)

lemma cert_checkValidity_throws:
  assumes "cert_checkValidity X E get depth c issuer s = (Inl e, s')"
  shows "\<not> is_exception e"
proof (cases depth)
  case 0
  with assms show ?thesis by (auto simp: jrun_simps)
next
  case (Suc d)
  have ocsp: "ocsp_checkValidity X clk c issuer w = (Inl e, w') \<Longrightarrow> \<not> is_exception e" for clk w w'
    by (auto simp: ocsp_checkValidity_def jrun_simps dest: ocsp_checkValidity_throws)
  have pick: False
    if "crl_checkValidity X E get c issuer w1 = (Inr a1, w2)" "checkStatusPath V (Some a1) w3 = (Inr b1, w4)"
      "ocsp_checkValidity X clk c issuer w5 = (Inr a2, w6)" "checkStatusPath V (Some a2) w7 = (Inr b2, w8)"
      "pick_result [b1, b2] w9 = (Inl e, w10)" for V clk a1 b1 a2 b2 w1 w2 w3 w4 w5 w6 w7 w8 w9 w10
  proof -
    have "vs_certificate b1 = Some c" "vs_certificate b2 = Some c"
      using crl_checkValidity_identity[OF that(1)] ocsp_checkValidity_wf[OF that(3)]
        checkStatusPath_signed[OF that(2)] checkStatusPath_signed[OF that(4)]
      by (simp_all add: ocsp_status_wf_def)
    with pick_result_returns[of "[b1, b2]" w9] that(5) show False by auto
  qed
  show ?thesis
    using assms
    by (auto simp: Suc jrun_simps Let_def split: prod.splits sum.splits
        dest: crl_checkValidity_throws checkStatusPath_throws ocsp pick)
qed

subsection \<open>How deep the recursion goes\<close>

definition answered_by ::
  "'x ocsp_env_scheme \<Rightarrow> crl_env \<Rightarrow> 'a world_scheme itself \<Rightarrow> cert \<Rightarrow> cert \<Rightarrow> cert \<Rightarrow> bool" where
  "answered_by X E T issuer c signer \<longleftrightarrow>
     (\<exists>(s :: 'a world_scheme) st s'. ocsp_checkValidity X (clock E) c issuer s = (Inr st, s')
        \<and> vs_statusSigner st = Some signer)"

text \<open>
  The responders are ranked when the responder that signs an answer about a certificate, unless it
  is the issuer or is marked no-check, has a smaller rank than the certificate.
\<close>

definition responders_ranked ::
  "'x ocsp_env_scheme \<Rightarrow> crl_env \<Rightarrow> 'a world_scheme itself \<Rightarrow> cert \<Rightarrow> (cert \<Rightarrow> nat) \<Rightarrow> bool" where
  "responders_ranked X E T issuer rank \<longleftrightarrow>
     (\<forall>c signer. answered_by X E T issuer c signer \<longrightarrow> signer \<noteq> issuer
        \<longrightarrow> isOCSPNocheckExt X signer \<noteq> Inr True \<longrightarrow> rank signer < rank c)"

lemma bnd_cong_run: "(\<And>x s'. m s = (Inr x, s') \<Longrightarrow> f x s' = g x s') \<Longrightarrow> bnd m f s = bnd m g s"
  by (auto simp: jrun_simps split: prod.splits sum.splits)

lemma responder_checks_cong:
  assumes "signer \<noteq> issuer \<Longrightarrow> isOCSPNocheckExt X signer \<noteq> Inr True \<Longrightarrow> check signer issuer = check' signer issuer"
  shows "responder_checks X check st signer chain issuer s = responder_checks X check' st signer chain issuer s"
  using assms by (auto simp: responder_checks_def jrun_simps split: sum.splits)

lemma verifyTrustPath_cong:
  assumes "\<And>signer. vs_statusSigner st = Some signer \<Longrightarrow> signer \<noteq> issuer
             \<Longrightarrow> isOCSPNocheckExt X signer \<noteq> Inr True \<Longrightarrow> check signer issuer = check' signer issuer"
    and "vs_sourceType st = Some OCSP \<Longrightarrow> vs_issuer st = Some issuer"
  shows "verifyValidityStatusTrustPath X clk check st s = verifyValidityStatusTrustPath X clk check' st s"
  using assms responder_checks_cong[of _ issuer X check check']
  by (auto simp: verifyValidityStatusTrustPath_def checkOcspTrustPath_def jrun_simps
      split: option.split ValidatorSourceType.split list.split prod.split sum.split)

lemma checkStatusPath_cong:
  "(\<And>w. verify st w = verify' st w) \<Longrightarrow> checkStatusPath verify (Some st) s = checkStatusPath verify' (Some st) s"
  by (simp add: checkStatusPath_def jrun_simps)

lemma cert_check_depth:
  fixes s :: "'a world_scheme"
  assumes ranked: "responders_ranked X E TYPE('a world_scheme) issuer rank"
    and "rank c < d" "rank c < d'"
  shows "cert_checkValidity X E get d c issuer s = cert_checkValidity X E get d' c issuer s"
  using assms(2,3)
proof (induction "rank c" arbitrary: c d d' s rule: less_induct)
  case less
  then obtain k k' where d: "d = Suc k" "d' = Suc k'" by (metis Nat.lessE)
  let ?V = "verifyValidityStatusTrustPath X (clock E) (cert_checkValidity X E get k)"
  and ?V' = "verifyValidityStatusTrustPath X (clock E) (cert_checkValidity X E get k')"
  have rec: "cert_checkValidity X E get k signer issuer = cert_checkValidity X E get k' signer issuer"
    if "rank signer < rank c" for signer
  proof (rule ext)
    fix w :: "'a world_scheme"
    show "cert_checkValidity X E get k signer issuer w = cert_checkValidity X E get k' signer issuer w"
      by (rule less.hyps) (use that less.prems d in auto)
  qed
  have crl: "checkStatusPath ?V (Some a) w = checkStatusPath ?V' (Some a) w"
    if "crl_checkValidity X E get c issuer w1 = (Inr a, w)" for a w1 w
    by (rule checkStatusPath_cong)
       (use crl_checkValidity_identity[OF that] in \<open>simp add: verifyValidityStatusTrustPath_def\<close>)
  have ocsp: "checkStatusPath ?V (Some a) w2 = checkStatusPath ?V' (Some a) w2"
    if "ocsp_checkValidity X (clock E) c issuer w1 = (Inr a, w)" for a and w1 w w2 :: "'a world_scheme"
  proof (rule checkStatusPath_cong, rule verifyTrustPath_cong)
    fix w3 signer
    assume sg: "vs_statusSigner a = Some signer" "signer \<noteq> issuer" "isOCSPNocheckExt X signer \<noteq> Inr True"
    then have "answered_by X E TYPE('a world_scheme) issuer c signer"
      using that unfolding answered_by_def by blast
    then have "rank signer < rank c" using ranked sg unfolding responders_ranked_def by blast
    then show "cert_checkValidity X E get k signer issuer = cert_checkValidity X E get k' signer issuer"
      by (rule rec)
  qed (use ocsp_checkValidity_wf[OF that] in \<open>simp add: ocsp_status_wf_def\<close>)
  show ?case
    unfolding d cert_checkValidity.simps Let_def
    by (rule bnd_cong_run, rule trans[OF _ bnd_cong_run[of _ _ _ "\<lambda>s1. bnd (ocsp_checkValidity X (clock E) c issuer) (\<lambda>s2. bnd (checkStatusPath ?V' (Some s2)) (\<lambda>s2. pick_result [s1, s2]))"]])
       (auto simp: jrun_simps crl ocsp split: prod.splits sum.splits)
qed

text \<open>
  An error that is raised outside the recursion: in the check by CRL or by OCSP of a certificate, in the verification of a responder's
  certificate, or in the search for its no-check extension.
\<close>

definition raised_outside ::
  "'x ocsp_env_scheme \<Rightarrow> crl_env \<Rightarrow> (distribution_point list option \<Rightarrow> ('a world_scheme, exn, crl_info) jm) \<Rightarrow> cert \<Rightarrow> cert \<Rightarrow> exn \<Rightarrow> bool" where
  "raised_outside X E get issuer c e \<longleftrightarrow>
     (\<exists>s s'. crl_checkValidity X E get c issuer s = (Inl e, s'))
     \<or> (\<exists>(s :: 'a world_scheme) s'. ocsp_checkValidity X (clock E) c issuer s = (Inl e, s'))
     \<or> certVerify X c (publicKey issuer) = Some e
     \<or> isOCSPNocheckExt X c = Inl e"

lemma checkCrlTrustPath_throws: "checkCrlTrustPath clk st s = (Inl e, s') \<Longrightarrow> is_exception e"
  by (auto simp: checkCrlTrustPath_def failed_def jrun_simps array_get_def split: option.splits if_splits)

lemma checkOcspTrustPath_throws:
  assumes "checkOcspTrustPath X clk check st s = (Inl e, s')" "\<not> is_exception e" "vs_issuer st = Some issuer"
  obtains signer where "vs_statusSigner st = Some signer"
    "certVerify X signer (publicKey issuer) = Some e \<or> isOCSPNocheckExt X signer = Inl e
     \<or> signer \<noteq> issuer \<and> isOCSPNocheckExt X signer \<noteq> Inr True \<and> (\<exists>w w'. check signer issuer w = (Inl e, w'))"
  using assms
  by (auto simp: checkOcspTrustPath_def verify_responder_def responder_checks_def failed_def jrun_simps
      split: option.splits list.splits if_splits prod.splits sum.splits)

lemma cert_check_raised:
  fixes s :: "'a world_scheme"
  assumes ranked: "responders_ranked X E TYPE('a world_scheme) issuer rank"
    and "rank c < d" "cert_checkValidity X E get d c issuer s = (Inl e, s')"
  shows "\<exists>c'. (answered_by X E TYPE('a world_scheme) issuer)\<^sup>*\<^sup>* c c' \<and> raised_outside X E get issuer c' e"
  using assms(2,3)
proof (induction "rank c" arbitrary: c d s s' rule: less_induct)
  case less
  then obtain k where d: "d = Suc k" by (metis Nat.lessE)
  have e: "\<not> is_exception e" by (rule cert_checkValidity_throws[OF less.prems(2)])
  let ?C = "cert_checkValidity X E get k"
  let ?V = "verifyValidityStatusTrustPath X (clock E) ?C"
  have path: "?V a w = (Inl e, w')" if "checkStatusPath ?V (Some a) w = (Inl e, w')" for a w w'
    using that by (auto simp: checkStatusPath_def jrun_simps split: if_splits prod.splits sum.splits)
  have pick: "pick_result [b1, b2] w9 \<noteq> (Inl e, w10)"
    if "crl_checkValidity X E get c issuer w1 = (Inr a1, w2)" "checkStatusPath ?V (Some a1) w2 = (Inr b1, w4)"
      "ocsp_checkValidity X (clock E) c issuer w4 = (Inr a2, w6)" "checkStatusPath ?V (Some a2) w6 = (Inr b2, w8)" for a1 b1 a2 b2 w1 w2 w4 w6 w8 w9 w10
  proof -
    have "vs_certificate b1 = Some c" "vs_certificate b2 = Some c"
      using crl_checkValidity_identity[OF that(1)] ocsp_checkValidity_wf[OF that(3)]
        checkStatusPath_signed[OF that(2)] checkStatusPath_signed[OF that(4)]
      by (simp_all add: ocsp_status_wf_def)
    with pick_result_returns[of "[b1, b2]" w9] show ?thesis by auto
  qed
  from less.prems(2) consider
    (crl) w' where "crl_checkValidity X E get c issuer s = (Inl e, w')"
  | (crl_path) a w w' where "crl_checkValidity X E get c issuer s = (Inr a, w)" "?V a w = (Inl e, w')"
  | (ocsp) w :: "'a world_scheme" and w' where "ocsp_checkValidity X (clock E) c issuer w = (Inl e, w')"
  | (ocsp_path) a and w0 :: "'a world_scheme" and w w' where "ocsp_checkValidity X (clock E) c issuer w0 = (Inr a, w)" "?V a w = (Inl e, w')"
    unfolding d by (auto simp: jrun_simps Let_def split: prod.splits sum.splits dest: path pick)
  then show ?case
  proof cases
    case crl
    then show ?thesis by (auto simp: raised_outside_def)
  next
    case crl_path
    then have "checkCrlTrustPath (clock E) a w = (Inl e, w')"
      using crl_checkValidity_identity[OF crl_path(1)] by (simp add: verifyValidityStatusTrustPath_def)
    with checkCrlTrustPath_throws e show ?thesis by blast
  next
    case ocsp
    then show ?thesis by (auto simp: raised_outside_def)
  next
    case ocsp_path
    have wf: "vs_issuer a = Some issuer" "vs_sourceType a = Some OCSP"
      using ocsp_checkValidity_wf[OF ocsp_path(1)] by (simp_all add: ocsp_status_wf_def)
    then have "checkOcspTrustPath X (clock E) ?C a w = (Inl e, w')" using ocsp_path(2) by (simp add: verifyValidityStatusTrustPath_def)
    from checkOcspTrustPath_throws[OF this e wf(1)] obtain signer where sg: "vs_statusSigner a = Some signer"
      "certVerify X signer (publicKey issuer) = Some e \<or> isOCSPNocheckExt X signer = Inl e
       \<or> signer \<noteq> issuer \<and> isOCSPNocheckExt X signer \<noteq> Inr True \<and> (\<exists>w w'. ?C signer issuer w = (Inl e, w'))" by blast
    have by_c: "answered_by X E TYPE('a world_scheme) issuer c signer" using ocsp_path(1) sg(1) unfolding answered_by_def by blast
    show ?thesis
    proof (cases "certVerify X signer (publicKey issuer) = Some e \<or> isOCSPNocheckExt X signer = Inl e")
      case True
      with by_c show ?thesis by (auto simp: raised_outside_def)
    next
      case False
      with sg(2) obtain w1 w2 where rec: "signer \<noteq> issuer" "isOCSPNocheckExt X signer \<noteq> Inr True" "?C signer issuer w1 = (Inl e, w2)" by blast
      then have "rank signer < rank c" using ranked by_c unfolding responders_ranked_def by blast
      with less.hyps[OF this _ rec(3)] less.prems(1) d by_c show ?thesis by (meson Suc_less_SucD converse_rtranclp_into_rtranclp less_trans_Suc Suc_leI less_le_trans)
    qed
  qed
qed

lemma file_check_evidence:
  assumes "grace_ok E"
    and "cert_checkValidity X E (file_getCRL_dp E) (Suc depth) c issuer s = (Inr st, s')"
    and "vs_validity st \<noteq> UNKNOWN"
  shows "vs_statusSignatureValid st
    \<and> (crl_evidence X E s s' c issuer st
       \<or> ocsp_evidence X E (cert_checkValidity X E (file_getCRL_dp E) depth) c issuer st)"
proof -
  have eq: "file_getCRL_dp E = getCRL_dp (file_getCRL E)"
    by (rule ext) (simp add: file_getCRL_dp_def)
  have sg: "vs_statusSignatureValid st" by (rule cert_check_signed[OF assms(2,3)])
  have "crl_evidence X E s s' c issuer st
      \<or> ocsp_evidence X E (cert_checkValidity X E (getCRL_dp (file_getCRL E)) depth) c issuer st"
    by (rule fcache.cert_check_evidence[OF assms(1) assms(2)[unfolded eq] sg assms(3)])
  with sg eq show ?thesis by simp
qed

subsection \<open>Properties of the single-threaded check\<close>

text \<open>
  C28. In single-threaded mode over the file cache, a status other than unknown is signed and rests
  on evidence: a CRL that was fresh during the call, from an accepted distribution point of the
  certificate, verified with the key of an issuer that is a CA with the CRL signing bit and within
  its validity period; or a signed OCSP answer whose signer is the issuer or a responder certificate
  that verifies with the issuer's key, has the OCSP signing purpose, does not lead back to
  the certificate, and is marked no-check or itself checked VALID.
\<close>

theorem single_check_sound:
  assumes "grace_ok E"
    and "cert_checkValidity X E (file_getCRL_dp E) (Suc depth) c issuer s = (Inr st, s')"
    and "vs_validity st \<noteq> UNKNOWN"
  shows "vs_statusSignatureValid st
    \<and> (crl_evidence X E s s' c issuer st
       \<or> ocsp_evidence X E (cert_checkValidity X E (file_getCRL_dp E) depth) c issuer st)"
  using file_check_evidence[OF assms(1,2)] assms(3) by blast

definition demo_signer_ca :: cert where
  "demo_signer_ca = (demo_cert ''CN=CA'' ''CN=CA'' [])\<lparr>
     keyUsage := Some [False, False, False, False, False, True, True, False, False]\<rparr>"

abbreviation demo_crl_ee :: cert where
  "demo_crl_ee \<equiv> demo_cert ''CN=EE'' ''CN=CA'' [(oid_cRLDistributionPoints, [])]"

lemmas status_run_simps =
  cert_checkValidity.simps crl_checkValidity_def getCrlDistPoint_def checkStatusPath_def
  verifyValidityStatusTrustPath_def checkCrlTrustPath_def failed_def isCurrentlyValid_iff
  ocsp_checkValidity_def ocsp_run_simps demo_signer_ca_def revoking_env_def file_run_simps toLowerCase_http
  crl_verdict_def crl_builder_def status_builder_def isRevoked_def getRevokedCertificate_def pick_result_def
  pick_status_def logged_def signed_with_def

theorem single_check_sound_witness:
  "\<exists>st s'. cert_checkValidity (demo_ocsp (\<lambda>_. demo_basic None [])) revoking_env (file_getCRL_dp revoking_env) 1
         demo_crl_ee demo_signer_ca file_empty = (Inr st, s')
     \<and> vs_validity st = REVOKED \<and> vs_statusSignatureValid st
     \<and> (crl_evidence (demo_ocsp (\<lambda>_. demo_basic None [])) revoking_env file_empty s' demo_crl_ee demo_signer_ca st
        \<or> ocsp_evidence (demo_ocsp (\<lambda>_. demo_basic None [])) revoking_env
            (cert_checkValidity (demo_ocsp (\<lambda>_. demo_basic None [])) revoking_env (file_getCRL_dp revoking_env) 0)
            demo_crl_ee demo_signer_ca st)"
proof -
  let ?X = "demo_ocsp (\<lambda>_. demo_basic None [])"
  have g: "grace_ok revoking_env" by (simp add: revoking_env_def grace_ok_demo)
  obtain st s' where run: "cert_checkValidity ?X revoking_env (file_getCRL_dp revoking_env) (Suc 0) demo_crl_ee demo_signer_ca file_empty = (Inr st, s')"
    and v: "vs_validity st = REVOKED"
    by (auto simp: status_run_simps jrun_simps)
  show ?thesis
    using single_check_sound[OF g run] run v by auto
qed

text \<open>
  Revocation wins: when one of the two checks gives a signed REVOKED status whose signer is
  trusted, the single-threaded check answers REVOKED, whatever the other check says.
\<close>

theorem single_check_revoked_wins:
  assumes "cert_checkValidity X E get (Suc depth) c issuer s = (Inr st, s')"
    and "crl_checkValidity X E get c issuer s = (Inr a1, s1)"
    and "checkStatusPath (verifyValidityStatusTrustPath X (clock E) (cert_checkValidity X E get depth)) (Some a1) s1 = (Inr b1, s2)"
    and "ocsp_checkValidity X (clock E) c issuer s2 = (Inr a2, s3)"
    and "checkStatusPath (verifyValidityStatusTrustPath X (clock E) (cert_checkValidity X E get depth)) (Some a2) s3 = (Inr b2, s4)"
    and "signed_with REVOKED b1 \<or> signed_with REVOKED b2"
  shows "signed_with REVOKED st"
proof -
  from assms(1-5) have "pick_result [b1, b2] s4 = (Inr st, s')" by (simp add: jrun_simps Let_def)
  from pick_result_Inr[OF this] assms(6) show ?thesis by auto
qed

theorem single_check_revoked_wins_witness:
  "\<exists>st s'. cert_checkValidity (demo_ocsp (\<lambda>_. demo_basic None [GOOD])) revoking_env (file_getCRL_dp revoking_env) 1
         (demo_cert ''CN=EE'' ''CN=CA'' [(oid_cRLDistributionPoints, []), (oid_authorityInfoAccess, [])]) demo_signer_ca file_empty = (Inr st, s')
     \<and> signed_with REVOKED st"
proof -
  let ?X = "demo_ocsp (\<lambda>_. demo_basic None [GOOD])" and ?G = "file_getCRL_dp revoking_env"
  let ?c = "demo_cert ''CN=EE'' ''CN=CA'' [(oid_cRLDistributionPoints, []), (oid_authorityInfoAccess, [])]"
  let ?V = "verifyValidityStatusTrustPath ?X (clock revoking_env) (cert_checkValidity ?X revoking_env ?G 0)"
  obtain st s' where run: "cert_checkValidity ?X revoking_env ?G (Suc 0) ?c demo_signer_ca file_empty = (Inr st, s')"
    by (auto simp: status_run_simps checkOcspTrustPath_def jrun_simps)
  from run obtain a1 s1 b1 s2 a2 s3 b2 where
    1: "crl_checkValidity ?X revoking_env ?G ?c demo_signer_ca file_empty = (Inr a1, s1)" and
    2: "checkStatusPath ?V (Some a1) s1 = (Inr b1, s2)" and
    3: "ocsp_checkValidity ?X (clock revoking_env) ?c demo_signer_ca s2 = (Inr a2, s3)" and
    4: "checkStatusPath ?V (Some a2) s3 = (Inr b2, s')" by (rule cert_checkValidity_steps)
  have "vs_validity b1 = REVOKED \<and> vs_statusSignatureValid b1"
    using 1 2 by (auto simp: status_run_simps jrun_simps)
  then have "signed_with REVOKED st"
    using single_check_revoked_wins[OF run 1 2 3 4] by (simp add: signed_with_def)
  with run show ?thesis by auto
qed

text \<open>
  C32. The recursion through responder certificates ends when the responders can be ranked: beyond
  the rank of the certificate, the depth of the call stack makes no difference to the answer of the check. What leaves the
  check then is a status or an \<open>Error\<close>, never an exception, and the error was raised outside the recursion, for the certificate or a responder
  that is reached from it: when nothing outside raises \<open>StackOverflowError\<close>, the check does not either.
\<close>

theorem responder_depth_enough:
  fixes s :: "'a world_scheme"
  assumes "responders_ranked X E TYPE('a world_scheme) issuer rank" and "rank c < d"
  shows "cert_checkValidity X E get d c issuer s = cert_checkValidity X E get (Suc (rank c)) c issuer s
    \<and> (\<forall>e s'. cert_checkValidity X E get d c issuer s = (Inl e, s') \<longrightarrow> \<not> is_exception e
         \<and> (\<exists>c'. (answered_by X E TYPE('a world_scheme) issuer)\<^sup>*\<^sup>* c c' \<and> raised_outside X E get issuer c' e))"
proof
  show "cert_checkValidity X E get d c issuer s = cert_checkValidity X E get (Suc (rank c)) c issuer s"
    by (rule cert_check_depth[OF assms]) simp
  show "\<forall>e s'. cert_checkValidity X E get d c issuer s = (Inl e, s') \<longrightarrow> \<not> is_exception e
      \<and> (\<exists>c'. (answered_by X E TYPE('a world_scheme) issuer)\<^sup>*\<^sup>* c c' \<and> raised_outside X E get issuer c' e)"
    using cert_checkValidity_throws cert_check_raised[OF assms] by blast
qed

text \<open>
  In the witness a responder without the no-check extension answers about the certificate, and the CA itself about the responder: the
  certificate has rank one, the responder rank zero.
\<close>

definition demo_responder :: "string \<Rightarrow> int \<Rightarrow> cert" where
  "demo_responder sub n = (demo_cert sub ''CN=CA'' [(oid_authorityInfoAccess, [])])\<lparr>serialNumber := n,
     extKeyUsage := Some [oid_kp_OCSPSigning]\<rparr>"

definition delegating_ocsp :: ocsp_env where
  "delegating_ocsp = (demo_ocsp (\<lambda>_. demo_basic None [GOOD]))\<lparr>
     newCertificateID := (\<lambda>_ n. Inr (demo_id\<lparr>idSerialNumber := n\<rparr>)),
     requestOCSPResponse := (\<lambda>_ req _ _ _. Inr (Some \<lparr>respStatus = 0, responseObject = Inr (Some
       \<lparr>brEncoded = [], brCerts = (if idSerialNumber (reqCertID req) = 1 then [] else [Inr (demo_responder ''CN=R1'' 1)]),
        brNonce = None, brProducedAt = 50, brResponses = [\<lparr>srCertID = reqCertID req, srThisUpdate = 40, srNextUpdate = None, srCertStatus = GOOD\<rparr>]\<rparr>)\<rparr>))\<rparr>"

definition steady_env :: crl_env where
  "steady_env = (demo_env (\<lambda>_ _ _ _. Inr None) (\<lambda>_. Inl npe))\<lparr>clock := (\<lambda>_. 500)\<rparr>"

definition demo_rank :: "cert \<Rightarrow> nat" where
  "demo_rank c = (if serialNumber c = 1 then 0 else 1)"

lemmas delegation_simps =
  demo_responder_def ocspKeyUsage_def isOCSPNocheckExt_def
  steady_env_def isCurrentlyValid_iff crl_checkValidity_def getCrlDistPoint_def crl_builder_def
  file_getCRL_dp_def getCRL_dp_def approved_uris_def ocsp_checkValidity_def ocsp_run_simps status_builder_def jrun_simps utf8_def utf8_char_def

lemma delegating_ranked:
  fixes T :: "'w world_scheme itself"
  shows "responders_ranked delegating_ocsp steady_env T demo_ca demo_rank"
proof -
  have "signer = demo_ca \<or> signer = demo_responder ''CN=R1'' 1 \<and> serialNumber c \<noteq> 1"
    if ans: "answered_by delegating_ocsp steady_env T demo_ca c signer" for c signer
  proof -
    from ans obtain s :: "'w world_scheme" and st s' where
      "ocsp_checkValidity delegating_ocsp (clock steady_env) c demo_ca s = (Inr st, s')" "vs_statusSigner st = Some signer"
      unfolding answered_by_def by blast
    then show ?thesis
      by (auto simp: delegating_ocsp_def ocsp_checkValidity_def ocsp_run_simps status_builder_def jrun_simps split: option.splits sum.splits if_splits)
  qed
  moreover have "demo_rank (demo_responder ''CN=R1'' 1) = 0" by (simp add: demo_rank_def demo_responder_def)
  ultimately show ?thesis unfolding responders_ranked_def by (metis demo_rank_def zero_less_one)
qed

theorem responder_depth_enough_witness:
  "\<exists>st s'. cert_checkValidity delegating_ocsp steady_env (file_getCRL_dp steady_env) 100 demo_ee demo_ca file_empty = (Inr st, s')
     \<and> vs_validity st = VALID \<and> vs_statusSigner st = Some (demo_responder ''CN=R1'' 1)"
proof -
  have "demo_rank demo_ee = 1" by (simp add: demo_rank_def demo_cert_def)
  then have eq: "cert_checkValidity delegating_ocsp steady_env (file_getCRL_dp steady_env) 100 demo_ee demo_ca file_empty
      = cert_checkValidity delegating_ocsp steady_env (file_getCRL_dp steady_env) (Suc (Suc 0)) demo_ee demo_ca file_empty"
    using responder_depth_enough[OF delegating_ranked, where c = demo_ee and d = 100 and get = "file_getCRL_dp steady_env" and s = file_empty]
    by (simp del: cert_checkValidity.simps)
  have responder: "\<exists>st w'. cert_checkValidity delegating_ocsp steady_env (file_getCRL_dp steady_env) (Suc 0) (demo_responder ''CN=R1'' 1) demo_ca w = (Inr st, w')
      \<and> vs_validity st = VALID" for w :: file_cache
    by (simp add: delegating_ocsp_def delegation_simps checkStatusPath_def verifyValidityStatusTrustPath_def checkOcspTrustPath_def
        pick_result_def pick_status_def logged_def signed_with_def)
  show ?thesis unfolding eq
    by (subst cert_checkValidity.simps(2)) (use responder in \<open>simp add: delegating_ocsp_def delegation_simps checkStatusPath_def verifyValidityStatusTrustPath_def checkOcspTrustPath_def
        verify_responder_def responder_checks_def pick_result_def pick_status_def logged_def signed_with_def\<close>)
qed

text \<open>
  Two responder certificates of one CA that answer about each other: neither is marked no-check,
  both are valid responders, and there is no CRL for them.
\<close>

definition delegates_to ::
  "'x ocsp_env_scheme \<Rightarrow> crl_env \<Rightarrow> (distribution_point list option \<Rightarrow> ('a world_scheme, exn, crl_info) jm)
     \<Rightarrow> cert \<Rightarrow> cert \<Rightarrow> cert \<Rightarrow> bool" where
  "delegates_to X E get issuer a b \<longleftrightarrow>
     b \<noteq> issuer \<and> certVerify X b (publicKey issuer) = None \<and> ocspKeyUsage b \<and> isOCSPNocheckExt X b = Inr False
     \<and> (\<forall>n. isCurrentlyValid issuer (clock E n) \<and> isCurrentlyValid b (clock E n))
     \<and> (\<forall>s. \<exists>st s'. crl_checkValidity X E get a issuer s = (Inr st, s') \<and> \<not> vs_statusSignatureValid st)
     \<and> (\<forall>s :: 'a world_scheme. \<exists>st s' chain. ocsp_checkValidity X (clock E) a issuer s = (Inr st, s')
          \<and> vs_statusSignatureValid st \<and> vs_statusSigner st = Some b
          \<and> vs_statusSignerChain st = Some chain \<and> chain \<noteq> [] \<and> a \<notin> set chain)"

text \<open>
  The guard against recursion only looks one step back. When two responders of a CA answer
  about each other, the check of either of them never ends: at every depth of the call stack the
  result is \<open>StackOverflowError\<close>.
\<close>

theorem responder_cycle_overflows:
  assumes "delegates_to X E get issuer a b" and "delegates_to X E get issuer b a"
  shows "\<exists>s'. cert_checkValidity X E get depth a issuer s = (Inl (Exn StackOverflowError None), s')"
  using assms
proof (induction depth arbitrary: a b s)
  case 0
  show ?case by (simp add: jrun_simps)
next
  case (Suc depth)
  let ?C = "cert_checkValidity X E get depth"
  from Suc.prems(1) obtain a1 s1 where crl: "crl_checkValidity X E get a issuer s = (Inr a1, s1)" "\<not> vs_statusSignatureValid a1"
    unfolding delegates_to_def by metis
  from Suc.prems(1) obtain st s2 c1 cs where ocsp: "ocsp_checkValidity X (clock E) a issuer s1 = (Inr st, s2)"
    and st: "vs_statusSignatureValid st" "vs_statusSigner st = Some b" "vs_statusSignerChain st = Some (c1 # cs)" "a \<notin> set (c1 # cs)"
    unfolding delegates_to_def by (metis list.exhaust)
  from ocsp_checkValidity_wf[OF ocsp] have wf: "vs_certificate st = Some a" "vs_issuer st = Some issuer" "vs_sourceType st = Some OCSP"
    by (simp_all add: ocsp_status_wf_def)
  from Suc.prems(1) have b: "b \<noteq> issuer" "certVerify X b (publicKey issuer) = None" "ocspKeyUsage b"
    "isOCSPNocheckExt X b = Inr False" "\<And>n. isCurrentlyValid issuer (clock E n)" "\<And>n. isCurrentlyValid b (clock E n)"
    unfolding delegates_to_def by auto
  have no: "List.find (\<lambda>c. c = a) (c1 # cs) = None"
    using st(4) by (auto simp: find_None_iff_all simp del: List.find.simps)
  obtain s3 where "?C b issuer (s2\<lparr>tick := Suc (Suc (tick s2))\<rparr>) = (Inl (Exn StackOverflowError None), s3)"
    using Suc.IH[OF Suc.prems(2) Suc.prems(1)] by blast
  then have "verifyValidityStatusTrustPath X (clock E) ?C st s2 = (Inl (Exn StackOverflowError None), s3)"
    using b st wf no
    by (simp add: verifyValidityStatusTrustPath_def checkOcspTrustPath_def verify_responder_def
        responder_checks_def jrun_simps del: List.find.simps)
  with crl ocsp st show ?case
    by (simp add: checkStatusPath_def jrun_simps Let_def)
qed

definition cyclic_ocsp :: ocsp_env where
  "cyclic_ocsp = (demo_ocsp (\<lambda>_. demo_basic None [GOOD]))\<lparr>
     newCertificateID := (\<lambda>_ n. Inr (demo_id\<lparr>idSerialNumber := n\<rparr>)),
     requestOCSPResponse := (\<lambda>_ req _ _ _. Inr (Some \<lparr>respStatus = 0, responseObject = Inr (Some
       \<lparr>brEncoded = [], brCerts = [Inr (if idSerialNumber (reqCertID req) = 1 then demo_responder ''CN=R2'' 2 else demo_responder ''CN=R1'' 1)],
        brNonce = None, brProducedAt = 50, brResponses = [\<lparr>srCertID = reqCertID req, srThisUpdate = 40, srNextUpdate = None, srCertStatus = GOOD\<rparr>]\<rparr>)\<rparr>))\<rparr>"

theorem responder_cycle_overflows_witness:
  "\<exists>s'. cert_checkValidity cyclic_ocsp steady_env (file_getCRL_dp steady_env) 1000 (demo_responder ''CN=R1'' 1) demo_ca file_empty
     = (Inl (Exn StackOverflowError None), s')"
proof (rule responder_cycle_overflows)
  let ?r1 = "demo_responder ''CN=R1'' 1" and ?r2 = "demo_responder ''CN=R2'' 2"
  have eku: "equalsIgnoreCase oid_kp_OCSPSigning oid_kp_OCSPSigning" by simp
  note S = delegates_to_def cyclic_ocsp_def delegation_simps
  show "delegates_to cyclic_ocsp steady_env (file_getCRL_dp steady_env) demo_ca ?r1 ?r2"
    by (simp add: S)
  show "delegates_to cyclic_ocsp steady_env (file_getCRL_dp steady_env) demo_ca ?r2 ?r1"
    by (simp add: S)
qed

end
