(* ===== verification/Status_Threads.thy ===== *)
theory Status_Threads
  imports Status_Check "HOL-Library.Multiset"
begin

text \<open>
  The multi-threaded mode. A caller starts one thread per check, each thread delivers its result at
  most once through the synchronized \<open>propertyChange\<close>, and the caller polls the list of results
  until it is satisfied or a deadline has passed (\<open>BasicCertificateValidityChecker.checkValidity\<close>
  and \<open>CertificatePathValidator.runValidationThreads\<close>). The interleavings are the step relation
  \<open>gather_step\<close>; each reading of the list by the caller is one step of its own.
\<close>

record 'r gather =
  pending :: "'r list"
  delivered :: "'r list"
  now :: int
  waiting :: bool

definition gather_init :: "'r list \<Rightarrow> int \<Rightarrow> 'r gather" where
  "gather_init rs start = \<lparr>pending = rs, delivered = [], now = start, waiting = True\<rparr>"

text \<open>\<open>startTime + (maxValidationSeconds * 1000)\<close>: the product is an \<open>int\<close>, the sum a \<open>long\<close>.\<close>

definition deadline :: "int \<Rightarrow> int \<Rightarrow> int" where
  "deadline startTime maxValidationSeconds = jlong (startTime + jint (maxValidationSeconds * 1000))"

inductive gather_step :: "('r list \<Rightarrow> bool) \<Rightarrow> int \<Rightarrow> 'r gather \<Rightarrow> 'r gather \<Rightarrow> bool"
  for complete :: "'r list \<Rightarrow> bool" and dl :: int where
  deliver: "pending s = xs @ r # ys \<Longrightarrow>
     gather_step complete dl s (s\<lparr>pending := xs @ ys, delivered := delivered s @ [r]\<rparr>)"
| lost: "pending s = xs @ r # ys \<Longrightarrow> gather_step complete dl s (s\<lparr>pending := xs @ ys\<rparr>)"
| elapse: "0 \<le> d \<Longrightarrow> gather_step complete dl s (s\<lparr>now := now s + d\<rparr>)"
| leave: "waiting s \<Longrightarrow> complete (delivered s) \<or> now s > dl \<Longrightarrow>
     gather_step complete dl s (s\<lparr>waiting := False\<rparr>)"

inductive_cases gather_stepE: "gather_step complete dl s s'"

abbreviation gather_steps :: "('r list \<Rightarrow> bool) \<Rightarrow> int \<Rightarrow> 'r gather \<Rightarrow> 'r gather \<Rightarrow> bool" where
  "gather_steps complete dl \<equiv> (gather_step complete dl)\<^sup>*\<^sup>*"

subsection \<open>Facts about every interleaving\<close>

lemma gather_step_results:
  "gather_step complete dl s s' \<Longrightarrow>
     mset (delivered s') + mset (pending s') \<subseteq># mset (delivered s) + mset (pending s)
     \<and> prefix (delivered s) (delivered s') \<and> (\<not> waiting s \<longrightarrow> \<not> waiting s')"
  by (erule gather_stepE) auto

lemma gather_steps_results:
  "gather_steps complete dl s s' \<Longrightarrow>
     mset (delivered s') + mset (pending s') \<subseteq># mset (delivered s) + mset (pending s)
     \<and> prefix (delivered s) (delivered s') \<and> (\<not> waiting s \<longrightarrow> \<not> waiting s')"
proof (induction rule: rtranclp_induct)
  case base
  show ?case by simp
next
  case (step y z)
  then show ?case using gather_step_results[OF step.hyps(2)] by (meson prefix_order.trans subset_mset.trans)
qed

lemma delivered_subset:
  assumes "gather_steps complete dl (gather_init rs start) s"
  shows "mset (delivered s) \<subseteq># mset rs"
proof -
  have "mset (delivered s) + mset (pending s) \<subseteq># mset rs"
    using gather_steps_results[OF assms] by (simp add: gather_init_def)
  then show ?thesis by (meson mset_subset_eq_add_left subset_mset.trans)
qed

lemma delivered_in: "gather_steps complete dl (gather_init rs start) s \<Longrightarrow> set (delivered s) \<subseteq> set rs"
  by (metis delivered_subset mset_subset_eqD set_mset_mset subsetI)

lemma delivered_length: "gather_steps complete dl (gather_init rs start) s \<Longrightarrow> length (delivered s) \<le> length rs"
  by (metis delivered_subset size_mset size_mset_mono)

text \<open>Delivering everything that is pending, in order.\<close>

lemma deliver_all:
  "gather_steps complete dl s (s\<lparr>pending := [], delivered := delivered s @ pending s\<rparr>)"
proof (induction "pending s" arbitrary: s)
  case Nil
  then have "s\<lparr>pending := [], delivered := delivered s @ pending s\<rparr> = s" by (cases s) simp
  then show ?case by simp
next
  case (Cons r rs)
  let ?s1 = "s\<lparr>pending := rs, delivered := delivered s @ [r]\<rparr>"
  have "gather_step complete dl s ?s1"
    using gather_step.deliver[of s "[]" r rs] Cons.hyps(2) by simp
  moreover have "gather_steps complete dl ?s1 (?s1\<lparr>pending := [], delivered := delivered ?s1 @ pending ?s1\<rparr>)"
    by (rule Cons.hyps(1)) simp
  ultimately show ?case using Cons.hyps(2)[symmetric] by (simp add: converse_rtranclp_into_rtranclp)
qed

text \<open>The caller is never stuck: from every state it can still leave the loop, at the latest after the deadline.\<close>

lemma gather_can_leave:
  "\<exists>s'. gather_steps complete dl s s' \<and> \<not> waiting s' \<and> delivered s' = delivered s"
proof (cases "waiting s")
  case False
  then show ?thesis by blast
next
  case True
  define d where "d = max 0 (dl + 1 - now s)"
  let ?s1 = "s\<lparr>now := now s + d\<rparr>"
  have 1: "gather_step complete dl s ?s1" by (rule gather_step.elapse) (simp add: d_def)
  have 2: "gather_step complete dl ?s1 (?s1\<lparr>waiting := False\<rparr>)"
    by (rule gather_step.leave) (use True in \<open>auto simp: d_def\<close>)
  from 1 2 have "gather_steps complete dl s (?s1\<lparr>waiting := False\<rparr>)" 
    by (rule rtranclp_trans[OF r_into_rtranclp r_into_rtranclp])
  then show ?thesis by (intro exI[of _ "?s1\<lparr>waiting := False\<rparr>"]) simp
qed

lemma deadline_exact:
  assumes "0 \<le> maxs" "maxs \<le> 2147483" "0 \<le> start" "start < 2 ^ 62"
  shows "deadline start maxs = start + maxs * 1000"
proof -
  have "jint (maxs * 1000) = maxs * 1000" using assms by (intro jint_id) auto
  moreover have "jlong (start + maxs * 1000) = start + maxs * 1000" using assms by (intro jlong_id) auto
  ultimately show ?thesis by (simp add: deadline_def)
qed

lemma deadline_wraps:
  assumes "2147484 \<le> maxs" "maxs \<le> 4294967" "0 \<le> start" "start < 2 ^ 62"
  shows "deadline start maxs < start"
proof -
  have "jint (maxs * 1000) = maxs * 1000 - 2 ^ 32"
  proof -
    have "jint (maxs * 1000) = (maxs * 1000 + 2 ^ 31) mod 2 ^ 32 - 2 ^ 31"
      by (simp add: jint_def signed_take_bit_eq_take_bit_shift take_bit_eq_mod add.commute)
    moreover have "(maxs * 1000 + 2 ^ 31) mod 2 ^ 32 = maxs * 1000 + 2 ^ 31 - 2 ^ 32"
      using assms by (subst mod_pos_geq) auto
    ultimately show ?thesis by simp
  qed
  moreover have "jlong (start + (maxs * 1000 - 2 ^ 32)) = start + (maxs * 1000 - 2 ^ 32)"
    using assms by (intro jlong_id) auto
  ultimately show ?thesis using assms by (simp add: deadline_def)
qed

text \<open>The caller left because a list it had seen was complete, or because the deadline had passed.\<close>

lemma gather_left:
  assumes "gather_steps complete dl (gather_init rs start) s" and "\<not> waiting s"
  shows "(\<exists>p. prefix p (delivered s) \<and> complete p) \<or> dl < now s"
  using assms
proof (induction rule: rtranclp_induct)
  case base
  then show ?case by (simp add: gather_init_def)
next
  case (step y z)
  from step.hyps(2) show ?case
  proof cases
    case (deliver xs r ys)
    with step.IH step.prems show ?thesis by (auto intro: prefix_prefix)
  next
    case (lost xs r ys)
    with step.IH step.prems show ?thesis by auto
  next
    case (elapse d)
    with step.IH step.prems show ?thesis by auto
  next
    case leave
    then show ?thesis by auto
  qed
qed

subsection \<open>The multi-threaded check of a certificate\<close>

definition conclusive :: "validation_status \<Rightarrow> bool" where
  "conclusive st \<longleftrightarrow> signed_with REVOKED st \<or> signed_with VALID st"

definition isCompleteValidation :: "nat \<Rightarrow> validation_status list \<Rightarrow> bool" where
  "isCompleteValidation checkers sts =
     (if sts = [] then False
      else if length sts = checkers then True
      else filter conclusive sts \<noteq> [])"

text \<open>
  \<open>multi_checkValidity rs start maxs t res\<close>: with checkers whose threads deliver \<open>rs\<close>, the call
  can leave the loop at time \<open>t\<close> and end with \<open>res\<close>. The list of statuses is read three times
  after the loop, and more results may arrive between the readings.
\<close>

inductive multi_checkValidity ::
  "validation_status list \<Rightarrow> int \<Rightarrow> int \<Rightarrow> int \<Rightarrow> exn + validation_status \<Rightarrow> bool"
  for rs :: "validation_status list" and startTime :: int and maxValidationSeconds :: int where
  "gather_steps (isCompleteValidation (length rs)) (deadline startTime maxValidationSeconds) (gather_init rs startTime) s1 \<Longrightarrow>
   \<not> waiting s1 \<Longrightarrow>
   gather_steps (isCompleteValidation (length rs)) (deadline startTime maxValidationSeconds) s1 s2 \<Longrightarrow>
   gather_steps (isCompleteValidation (length rs)) (deadline startTime maxValidationSeconds) s2 s3 \<Longrightarrow>
   res = fst (pick_status (List.find (signed_with REVOKED) (delivered s1)) (List.find (signed_with VALID) (delivered s2)) (delivered s3) ()) \<Longrightarrow>
   multi_checkValidity rs startTime maxValidationSeconds (now s1) res"

lemma multi_checkValidityE:
  assumes "multi_checkValidity rs startTime maxs t res"
  obtains s1 s2 s3 where
    "gather_steps (isCompleteValidation (length rs)) (deadline startTime maxs) (gather_init rs startTime) s1"
    "\<not> waiting s1" "t = now s1"
    "gather_steps (isCompleteValidation (length rs)) (deadline startTime maxs) s1 s2"
    "gather_steps (isCompleteValidation (length rs)) (deadline startTime maxs) s2 s3"
    "res = fst (pick_status (List.find (signed_with REVOKED) (delivered s1)) (List.find (signed_with VALID) (delivered s2)) (delivered s3) ())"
  using assms by (auto elim!: multi_checkValidity.cases)

lemma conclusive_delivered:
  assumes "gather_steps (isCompleteValidation (length rs)) dl (gather_init rs start) s" and "\<not> waiting s" "now s \<le> dl"
    and "\<forall>r \<in> set (delivered s). \<not> conclusive r"
  shows "mset (delivered s) = mset rs \<and> delivered s \<noteq> []"
proof -
  from gather_left[OF assms(1,2)] assms(3) obtain p where p: "prefix p (delivered s)" "isCompleteValidation (length rs) p"
    by auto
  then have "\<forall>r \<in> set p. \<not> conclusive r" using assms(4) set_mono_prefix by blast
  with p(2) have len: "p \<noteq> []" "length p = length rs"
    by (auto simp: isCompleteValidation_def filter_empty_conv split: if_splits)
  then have "length rs \<le> length (delivered s)" using prefix_length_le[OF p(1)] by simp
  with delivered_subset[OF assms(1)] have "mset (delivered s) = mset rs"
    by (metis size_mset subset_mset.not_eq_order_implies_strict mset_subset_size not_le)
  then show ?thesis using len p(1) by auto
qed

lemma pick_status_Inr:
  "pick_status r v ds s = (Inr st, s') \<Longrightarrow>
     r = Some st \<or> (r = None \<and> v = Some st) \<or> (r = None \<and> v = None \<and> ds \<noteq> [] \<and> st = hd ds)"
  by (auto simp: pick_status_def logged_def failed_def jrun_simps split: option.splits list.splits)

lemma pick_status_fst: "fst (pick_status r v ds s) = Inr st \<Longrightarrow> pick_status r v ds s = (Inr st, snd (pick_status r v ds s))"
  by (cases "pick_status r v ds s") simp

lemma find_conclusive_None:
  "List.find (signed_with REVOKED) xs = None \<Longrightarrow> List.find (signed_with VALID) ys = None \<Longrightarrow> prefix xs ys \<Longrightarrow>
     r \<in> set xs \<Longrightarrow> \<not> conclusive r"
  using set_mono_prefix by (fastforce simp: find_None_iff_all conclusive_def)

text \<open>
  C29. What the multi-threaded check of a certificate returns was delivered by one of the two checks;
  and it is a signed REVOKED or VALID status, unless neither check delivers such a status or
  the call ran into its deadline.
\<close>

theorem multi_check_result:
  assumes "multi_checkValidity rs start maxs t (Inr st)"
  shows "st \<in> set rs
    \<and> (signed_with REVOKED st \<or> signed_with VALID st \<or> (\<forall>r \<in> set rs. \<not> conclusive r) \<or> deadline start maxs < t)"
  using assms
proof (cases rule: multi_checkValidityE)
  case (1 s1 s2 s3)
  note run = 1(1,2) and t = 1(3) and more = 1(4,5) and res = 1(6)
  let ?R = "List.find (signed_with REVOKED) (delivered s1)" and ?V = "List.find (signed_with VALID) (delivered s2)"
  have pick: "?R = Some st \<or> (?R = None \<and> ?V = Some st) \<or> (?R = None \<and> ?V = None \<and> delivered s3 \<noteq> [] \<and> st = hd (delivered s3))"
    using pick_status_Inr[OF pick_status_fst[OF res[symmetric]]] .
  note steps2 = rtranclp_trans[OF run(1) more(1)]
  note steps3 = rtranclp_trans[OF steps2 more(2)]
  have sub: "set (delivered s1) \<subseteq> set rs" "set (delivered s2) \<subseteq> set rs" "set (delivered s3) \<subseteq> set rs"
    using delivered_in run(1) steps2 steps3 by blast+
  have pre: "prefix (delivered s1) (delivered s2)" using gather_steps_results[OF more(1)] by simp
  show ?thesis
  proof (cases "?R = None \<and> ?V = None")
    case True
    then have st: "st \<in> set rs" using pick sub(3) by (metis hd_in_set option.distinct(1) subsetD)
    have none: "\<forall>r \<in> set (delivered s1). \<not> conclusive r" using find_conclusive_None[OF _ _ pre] True by blast
    have "(\<forall>r \<in> set rs. \<not> conclusive r) \<or> deadline start maxs < t"
      using conclusive_delivered[OF run] none t by (metis not_le mset_eq_setD)
    with st show ?thesis by blast
  next
    case False
    with pick have "?R = Some st \<or> ?V = Some st" by auto
    with sub show ?thesis using find_Some_in by (metis subsetD)
  qed
qed

text \<open>Any permutation of the pending results can be delivered.\<close>

lemma deliver_permuted:
  assumes "mset ps = mset (pending s)"
  shows "gather_steps complete dl s (s\<lparr>pending := [], delivered := delivered s @ ps\<rparr>)"
  using assms
proof (induction ps arbitrary: s)
  case Nil
  then have "s\<lparr>pending := [], delivered := delivered s @ []\<rparr> = s" by (cases s) simp
  then show ?case by simp
next
  case (Cons r ps)
  then have "r \<in> set (pending s)" by (metis list.set_intros(1) mset_eq_setD)
  then obtain xs ys where p: "pending s = xs @ r # ys" by (meson split_list)
  let ?s1 = "s\<lparr>pending := xs @ ys, delivered := delivered s @ [r]\<rparr>"
  have "gather_step complete dl s ?s1" using p by (rule gather_step.deliver)
  moreover have "gather_steps complete dl ?s1 (?s1\<lparr>pending := [], delivered := delivered ?s1 @ ps\<rparr>)"
    by (rule Cons.IH) (use Cons.prems p in simp)
  ultimately show ?case by (simp add: converse_rtranclp_into_rtranclp)
qed

lemma multi_all_results:
  assumes "mset ps = mset rs" "rs \<noteq> []" "pick_result ps () = (Inr st, ())"
  shows "multi_checkValidity rs start maxs start (Inr st)"
proof -
  let ?C = "isCompleteValidation (length rs)" and ?dl = "deadline start maxs"
  let ?s = "\<lparr>pending = [], delivered = ps, now = start, waiting = False\<rparr>"
  have len: "length ps = length rs" using assms(1) by (metis size_mset)
  have 1: "gather_steps ?C ?dl (gather_init rs start) (?s\<lparr>waiting := True\<rparr>)"
    using deliver_permuted[of ps "gather_init rs start"] assms(1) by (simp add: gather_init_def)
  have 2: "gather_step ?C ?dl (?s\<lparr>waiting := True\<rparr>) ?s"
  proof -
    have "?C ps" using len assms(2) by (auto simp: isCompleteValidation_def)
    then show ?thesis using gather_step.leave[of "?s\<lparr>waiting := True\<rparr>"] by simp
  qed
  have "multi_checkValidity rs start maxs (now ?s) (Inr st)"
    by (rule multi_checkValidity.intros[OF rtranclp.rtrancl_into_rtrancl[OF 1 2] _ rtranclp.rtrancl_refl rtranclp.rtrancl_refl])
       (use assms(3) in \<open>simp_all add: pick_result_def\<close>)
  then show ?thesis by simp
qed

text \<open>
  In multi-threaded mode a status that no valid signature supports can be returned as VALID: when
  the OCSP answer is VALID but its signature is not, and the CRL check is inconclusive, the
  order in which the two results arrive decides, and the unsigned status is returned when it
  arrives first. The check of a responder certificate only asks whether the status is VALID, so
  such an answer makes the responder trusted.
\<close>

theorem multi_accepts_unsigned:
  assumes "\<not> conclusive b1" and "vs_validity b2 = VALID" "\<not> vs_statusSignatureValid b2" "vs_certificate b2 = Some signer"
    and "vs_certificate st \<notin> Some ` set chain" "ocspKeyUsage signer" "isOCSPNocheckExt X signer = Inr False"
    and "check signer issuer s = (Inr b2, s')"
  shows "multi_checkValidity [b1, b2] start maxs start (Inr b2)
    \<and> responder_checks X check st signer chain issuer s = (Inr (), if issuer = signer then s else s')"
proof
  have "pick_result [b2, b1] () = (Inr b2, ())"
    using assms(1-4) by (auto simp: pick_result_def pick_status_def logged_def conclusive_def signed_with_def jrun_simps)
  then show "multi_checkValidity [b1, b2] start maxs start (Inr b2)"
    by (intro multi_all_results) simp_all
  have "List.find (\<lambda>c. Some c = vs_certificate st) chain = None"
    unfolding find_None_iff_all using assms(5) by (metis image_eqI)
  then show "responder_checks X check st signer chain issuer s = (Inr (), if issuer = signer then s else s')"
    using assms(2,6-8) by (simp add: responder_checks_def jrun_simps)
qed

text \<open>
  The outcome of the multi-threaded check is a race: when one check delivers a signed VALID
  status and the other a signed REVOKED status, both statuses can be returned before the deadline. When
  both have arrived by the time the result is chosen, REVOKED is.
\<close>

theorem multi_check_race:
  assumes "signed_with VALID v" "signed_with REVOKED r" "vs_certificate v \<noteq> None" "vs_certificate r \<noteq> None"
  shows "multi_checkValidity [v, r] start maxs start (Inr v) \<and> multi_checkValidity [v, r] start maxs start (Inr r)"
proof
  let ?C = "isCompleteValidation (length [v, r])" and ?dl = "deadline start maxs"
  have vr: "\<not> signed_with REVOKED v" "\<not> signed_with VALID r" using assms by (auto simp: signed_with_def)
  have "pick_result [v, r] () = (Inr r, ())"
    using assms vr by (auto simp: pick_result_def pick_status_def logged_def jrun_simps)
  then show "multi_checkValidity [v, r] start maxs start (Inr r)"
    by (intro multi_all_results) simp_all
  let ?s = "\<lparr>pending = [r], delivered = [v], now = start, waiting = True\<rparr>"
  have 1: "gather_step ?C ?dl (gather_init [v, r] start) ?s"
    using gather_step.deliver[of "gather_init [v, r] start" "[]" v "[r]"] by (simp add: gather_init_def)
  have 2: "gather_step ?C ?dl ?s (?s\<lparr>waiting := False\<rparr>)"
    by (rule gather_step.leave) (use assms in \<open>simp_all add: isCompleteValidation_def conclusive_def\<close>)
  have "multi_checkValidity [v, r] start maxs (now (?s\<lparr>waiting := False\<rparr>)) (Inr v)"
    by (rule multi_checkValidity.intros[OF rtranclp_trans[OF r_into_rtranclp[of "gather_step ?C ?dl", OF 1] r_into_rtranclp[of "gather_step ?C ?dl", OF 2]]
          _ rtranclp.rtrancl_refl rtranclp.rtrancl_refl])
       (use assms vr in \<open>auto simp: pick_status_def logged_def jrun_simps\<close>)
  then show "multi_checkValidity [v, r] start maxs start (Inr v)" by simp
qed

text \<open>
  The time limit: up to 2147483 seconds, the call fails for want of results only after the
  configured time, whatever the interleaving. From 2147484 to 4294967 seconds the product \<open>maxValidationSeconds * 1000\<close>
  wraps around, the deadline lies before the start, and the call can fail at once.
\<close>

theorem multi_check_timeout:
  assumes "0 \<le> start" "start < 2 ^ 62" and "rs \<noteq> []" "\<forall>r \<in> set rs. vs_certificate r \<noteq> None"
  shows "(0 \<le> maxs \<and> maxs \<le> 2147483 \<and> multi_checkValidity rs start maxs t (Inl e)
            \<longrightarrow> e = Exn RuntimeException (Some ''Validity checking: No valid responses'') \<and> start + maxs * 1000 < t)
    \<and> (2147484 \<le> maxs \<and> maxs \<le> 4294967
            \<longrightarrow> multi_checkValidity rs start maxs start (Inl (Exn RuntimeException (Some ''Validity checking: No valid responses''))))"
proof (rule conjI; rule impI)
  let ?C = "isCompleteValidation (length rs)" and ?dl = "deadline start maxs"
  assume a: "0 \<le> maxs \<and> maxs \<le> 2147483 \<and> multi_checkValidity rs start maxs t (Inl e)"
  then have m: "0 \<le> maxs" "maxs \<le> 2147483" and "multi_checkValidity rs start maxs t (Inl e)" by auto
  from this(3) obtain s1 s2 s3 where s1: "gather_steps ?C ?dl (gather_init rs start) s1" "\<not> waiting s1" "t = now s1"
    and s2: "gather_steps ?C ?dl s1 s2" and s3: "gather_steps ?C ?dl s2 s3"
    and res: "Inl e = fst (pick_status (List.find (signed_with REVOKED) (delivered s1)) (List.find (signed_with VALID) (delivered s2)) (delivered s3) ())"
    by (rule multi_checkValidityE)
  note s12 = rtranclp_trans[OF s1(1) s2] and s13 = rtranclp_trans[OF rtranclp_trans[OF s1(1) s2] s3]
  have certs: "vs_certificate r = None \<Longrightarrow> r \<notin> set (delivered s1) \<and> r \<notin> set (delivered s2) \<and> r \<notin> set (delivered s3)" for r
    using delivered_in[OF s1(1)] delivered_in[OF s12] delivered_in[OF s13] assms(4) by blast
  have e: "e = Exn RuntimeException (Some ''Validity checking: No valid responses'') \<and> delivered s3 = []"
    using res
    by (auto simp: pick_status_def logged_def failed_def jrun_simps split: option.splits list.splits
        dest!: find_Some_in dest: certs)
  have "delivered s1 = []"
    using e gather_steps_results[OF rtranclp_trans[OF s2 s3]] by simp
  with gather_left[OF s1(1,2)] have "?dl < t" by (auto simp: isCompleteValidation_def s1(3))
  with e show "e = Exn RuntimeException (Some ''Validity checking: No valid responses'') \<and> start + maxs * 1000 < t"
    using deadline_exact[OF m assms(1,2)] by simp_all
next
  let ?C = "isCompleteValidation (length rs)" and ?dl = "deadline start maxs"
  assume "2147484 \<le> maxs \<and> maxs \<le> 4294967"
  then have dl: "?dl < start" using deadline_wraps assms by blast
  have 1: "gather_step ?C ?dl (gather_init rs start) ((gather_init rs start)\<lparr>waiting := False\<rparr>)"
    by (rule gather_step.leave) (use dl in \<open>simp_all add: gather_init_def\<close>)
  have "multi_checkValidity rs start maxs (now ((gather_init rs start)\<lparr>waiting := False\<rparr>))
      (Inl (Exn RuntimeException (Some ''Validity checking: No valid responses'')))"
    by (rule multi_checkValidity.intros[OF r_into_rtranclp[of "gather_step ?C ?dl", OF 1] _ rtranclp.rtrancl_refl rtranclp.rtrancl_refl])
       (simp_all add: gather_init_def pick_status_def failed_def jrun_simps)
  then show "multi_checkValidity rs start maxs start (Inl (Exn RuntimeException (Some ''Validity checking: No valid responses'')))"
    by (simp add: gather_init_def)
qed

subsection \<open>Witnesses\<close>

definition demo_status :: "cert \<Rightarrow> CertificateValidity \<Rightarrow> bool \<Rightarrow> validation_status" where
  "demo_status c v sg = (status_builder v)\<lparr>vs_certificate := Some c, vs_statusSignatureValid := sg\<rparr>"

lemma demo_status_sel [simp]:
  "vs_certificate (demo_status c v sg) = Some c" "vs_validity (demo_status c v sg) = v"
  "vs_statusSignatureValid (demo_status c v sg) = sg"
  by (simp_all add: demo_status_def)

theorem multi_check_race_witness:
  "multi_checkValidity [demo_status demo_ee VALID True, demo_status demo_ee REVOKED True] 0 10 0 (Inr (demo_status demo_ee VALID True))
   \<and> multi_checkValidity [demo_status demo_ee VALID True, demo_status demo_ee REVOKED True] 0 10 0 (Inr (demo_status demo_ee REVOKED True))"
  by (rule multi_check_race) (simp_all add: signed_with_def)

theorem multi_check_result_witness:
  "\<exists>st. multi_checkValidity [demo_status demo_ee UNKNOWN False, demo_status demo_ee VALID True] 0 10 0 (Inr st)
     \<and> st \<in> {demo_status demo_ee UNKNOWN False, demo_status demo_ee VALID True} \<and> signed_with VALID st"
proof -
  let ?rs = "[demo_status demo_ee UNKNOWN False, demo_status demo_ee VALID True]"
  have run: "multi_checkValidity ?rs 0 10 0 (Inr (demo_status demo_ee VALID True))"
    by (rule multi_all_results[of ?rs])
       (simp_all add: pick_result_def pick_status_def logged_def signed_with_def jrun_simps)
  from multi_check_result[OF run] run show ?thesis
    by (auto simp: signed_with_def)
qed

theorem multi_check_timeout_witness:
  "multi_checkValidity [demo_status demo_ee VALID True] 0 3000000 0
     (Inl (Exn RuntimeException (Some ''Validity checking: No valid responses'')))"
  using multi_check_timeout[of 0 "[demo_status demo_ee VALID True]" 3000000] by simp

text \<open>
  The witness runs the OCSP check itself: the response carries the responder's certificate and a
  signature that does not verify, and still yields the unsigned VALID status.
\<close>

definition unsigned_ocsp :: ocsp_env where
  "unsigned_ocsp = (demo_ocsp (\<lambda>_. demo_basic None [GOOD]))\<lparr>isSignatureValid := (\<lambda>_ _. Inr False)\<rparr>"

theorem multi_accepts_unsigned_witness:
  "\<exists>b2 s'. ocsp_checkValidity_at unsigned_ocsp (demo_responder ''CN=R1'' 1) demo_ca 60 \<lparr>tick = 0\<rparr> = (Inr b2, s')
     \<and> \<not> vs_statusSignatureValid b2
     \<and> multi_checkValidity [demo_status (demo_responder ''CN=R1'' 1) UNKNOWN False, b2] 0 10 0 (Inr b2)
     \<and> responder_checks unsigned_ocsp (\<lambda>_ _. ret b2) (demo_status demo_ee VALID True) (demo_responder ''CN=R1'' 1) [] demo_ca s' = (Inr (), s')"
proof -
  let ?r = "demo_responder ''CN=R1'' 1"
  note S = unsigned_ocsp_def demo_responder_def ocsp_run_simps status_builder_def jrun_simps
  obtain b2 s' where run: "ocsp_checkValidity_at unsigned_ocsp ?r demo_ca 60 \<lparr>tick = 0\<rparr> = (Inr b2, s')"
    and b2: "vs_validity b2 = VALID" "\<not> vs_statusSignatureValid b2" "vs_certificate b2 = Some ?r"
    by (auto simp: S)
  have k: "ocspKeyUsage ?r" "isOCSPNocheckExt unsigned_ocsp ?r = Inr False"
    by (simp_all add: S ocspKeyUsage_def isOCSPNocheckExt_def)
  have c: "(\<lambda>_ _. ret b2) ?r demo_ca s' = (Inr b2, s')" by (simp add: jrun_simps)
  have "multi_checkValidity [demo_status ?r UNKNOWN False, b2] 0 10 0 (Inr b2)
      \<and> responder_checks unsigned_ocsp (\<lambda>_ _. ret b2) (demo_status demo_ee VALID True) ?r [] demo_ca s' = (Inr (), if demo_ca = ?r then s' else s')"
    by (rule multi_accepts_unsigned) (use b2 k c in \<open>simp_all add: conclusive_def signed_with_def\<close>)
  with run b2 show ?thesis by auto
qed

end
