(* ===== verification/Path_Validation.thy ===== *)
theory Path_Validation
  imports Status_Threads
begin

text \<open>
  Certificate path validation (\<open>cert-validation/.../cert/chain\<close>): the path builder, the path
  validator with its single-threaded and multi-threaded status collection, the exception that
  reports a failed validation and the validator that applications call. The PKIX path building
  algorithm and the encoding of certificate paths belong to the security provider and are fields of
  \<open>path_env\<close>; the check of one certificate is the argument the factory interface makes it.
\<close>

record path_result =
  pkixCertPathBuilderResult :: "pkix_result option"
  targetCertificate :: "cert option"
  validatedCertificatePath :: "cert list option"
  resultStatusList :: "validation_status list option"

definition empty_result :: path_result where
  "empty_result = \<lparr>pkixCertPathBuilderResult = None, targetCertificate = None,
     validatedCertificatePath = None, resultStatusList = None\<rparr>"

record path_env = x509_env +
  pkixBuild :: "cert \<Rightarrow> cert list option \<Rightarrow> cert list \<Rightarrow> cert option list \<Rightarrow> exn + pkix_result"
  generateCertPath :: "cert list \<Rightarrow> exn + cert list"

subsection \<open>ExtendedCertPathValidatorException\<close>

datatype Reason = ReasonUnspecified | ReasonRevoked | UndeterminedRevocationStatus

record ext_exception =
  cause :: exn
  exceptionPath :: "cert list option"
  exceptionIndex :: int
  exceptionReason :: Reason
  pathValidationResult :: path_result

text \<open>Both loops run from the end of the status list, the status next to the trust anchor, to its start.\<close>

fun failure_loop :: "validation_status list \<Rightarrow> Reason" where
  "failure_loop [] = ReasonUnspecified"
| "failure_loop (st # sts) =
     (case vs_validity st of
        REVOKED \<Rightarrow> ReasonRevoked
      | INVALID \<Rightarrow> UndeterminedRevocationStatus
      | UNKNOWN \<Rightarrow> UndeterminedRevocationStatus
      | VALID \<Rightarrow> failure_loop sts)"

definition getFailure :: "path_result \<Rightarrow> exn + Reason" where
  "getFailure r =
     (case pkixCertPathBuilderResult r of
        None \<Rightarrow> Inr ReasonUnspecified
      | Some _ \<Rightarrow>
          (case resultStatusList r of None \<Rightarrow> Inl npe | Some sts \<Rightarrow> Inr (failure_loop (rev sts))))"

fun index_loop :: "validation_status list \<Rightarrow> int" where
  "index_loop [] = - 1"
| "index_loop (st # sts) = (if vs_validity st \<noteq> VALID then int (length sts) else index_loop sts)"

definition getIndex :: "path_result \<Rightarrow> exn + int" where
  "getIndex r =
     (case pkixCertPathBuilderResult r of
        None \<Rightarrow> Inr (- 1)
      | Some _ \<Rightarrow>
          (case resultStatusList r of None \<Rightarrow> Inl npe | Some sts \<Rightarrow> Inr (index_loop (rev sts))))"

definition getPath :: "'x path_env_scheme \<Rightarrow> path_result \<Rightarrow> exn + cert list option" where
  "getPath P r =
     (let validatedPath = (case validatedCertificatePath r of None \<Rightarrow> [] | Some p \<Rightarrow> p) in
      case generateCertPath P validatedPath of
        Inr p \<Rightarrow> Inr (Some p)
      | Inl e \<Rightarrow> if is_exception e then Inr None else Inl e)"

text \<open>
  The constructor. \<open>CertPathValidatorException\<close> itself rejects an index below -1, an index outside
  the path and an index other than -1 without a path.
\<close>

definition new_ExtendedCertPathValidatorException :: "'x path_env_scheme \<Rightarrow> exn \<Rightarrow> path_result \<Rightarrow> exn + ext_exception" where
  "new_ExtendedCertPathValidatorException P c r =
     (case getPath P r of
        Inl e \<Rightarrow> Inl e
      | Inr path \<Rightarrow>
          (case getIndex r of
             Inl e \<Rightarrow> Inl e
           | Inr index \<Rightarrow>
               (case getFailure r of
                  Inl e \<Rightarrow> Inl e
                | Inr reason \<Rightarrow>
                    if path = None \<and> index \<noteq> - 1 then Inl (Exn IllegalArgumentException None)
                    else if index < - 1 \<or> (case path of None \<Rightarrow> False | Some p \<Rightarrow> int (length p) \<le> index)
                    then Inl (Exn IndexOutOfBoundsException None)
                    else Inr \<lparr>cause = c, exceptionPath = path, exceptionIndex = index,
                              exceptionReason = reason, pathValidationResult = r\<rparr>)))"

text \<open>What validation can throw: the exception above, a path builder exception, or an unchecked throwable.\<close>

datatype path_error = ExtendedEx ext_exception | BuilderEx exn | Unchecked exn

definition throw_extended :: "'x path_env_scheme \<Rightarrow> exn \<Rightarrow> path_result \<Rightarrow> path_error" where
  "throw_extended P c r =
     (case new_ExtendedCertPathValidatorException P c r of Inl e \<Rightarrow> Unchecked e | Inr x \<Rightarrow> ExtendedEx x)"

definition rethrow_unchecked :: "('s, exn, 'a) jm \<Rightarrow> ('s, path_error, 'a) jm" where
  "rethrow_unchecked m = (\<lambda>s. case m s of (Inl e, s') \<Rightarrow> (Inl (Unchecked e), s') | (Inr x, s') \<Rightarrow> (Inr x, s'))"

subsection \<open>BasicPathBuilder\<close>

fun drop_self_signed :: "'x x509_env_scheme \<Rightarrow> cert list \<Rightarrow> exn + cert list" where
  "drop_self_signed X [] = Inr []"
| "drop_self_signed X (c # cs) =
     (case certVerify X c (publicKey c) of
        None \<Rightarrow> drop_self_signed X cs
      | Some e \<Rightarrow>
          if is_exception e
          then (case drop_self_signed X cs of Inl e' \<Rightarrow> Inl e' | Inr ds \<Rightarrow> Inr (c # ds))
          else Inl e)"

definition buildPath ::
  "'x path_env_scheme \<Rightarrow> cert \<Rightarrow> cert list option \<Rightarrow> cert list option \<Rightarrow> cert option list \<Rightarrow> exn + pkix_result" where
  "buildPath P target supporting intermediaryStore trustAnchors =
     (let chainCerts = (case supporting of None \<Rightarrow> [] | Some cs \<Rightarrow> cs);
          chainCerts = (if target \<notin> set chainCerts then chainCerts @ [target] else chainCerts)
      in case drop_self_signed P chainCerts of
           Inl e \<Rightarrow> Inl e
         | Inr cs \<Rightarrow> pkixBuild P target intermediaryStore cs trustAnchors)"

subsection \<open>CertificatePathValidator\<close>

record path_validator =
  targetCert :: cert
  chain :: "cert list option"
  trustAnchors :: "cert option list"
  certStore :: "cert list option"

text \<open>The search for the target among the trust anchors dereferences each anchor's certificate.\<close>

fun match_anchor :: "cert option list \<Rightarrow> cert \<Rightarrow> exn + bool" where
  "match_anchor [] target = Inr False"
| "match_anchor (None # tas) target = Inl npe"
| "match_anchor (Some ta # tas) target = (if ta = target then Inr True else match_anchor tas target)"

definition anchor_result :: "cert \<Rightarrow> cert list \<Rightarrow> date \<Rightarrow> path_result" where
  "anchor_result target path t =
     \<lparr>pkixCertPathBuilderResult = Some \<lparr>certPath = path, trustAnchor = target\<rparr>,
      targetCertificate = Some target, validatedCertificatePath = Some [target],
      resultStatusList = Some [(status_builder VALID)\<lparr>vs_certificate := Some target,
        vs_sourceType := Some SELF_SIGNED, vs_issuer := Some target, vs_validationTime := Some t\<rparr>]\<rparr>"

definition trusted_directly ::
  "'x path_env_scheme \<Rightarrow> (nat \<Rightarrow> date) \<Rightarrow> path_validator \<Rightarrow> ('a world_scheme, exn, path_result option) jm" where
  "trusted_directly P clk V =
     bnd (lift_sum (match_anchor (trustAnchors V) (targetCert V))) (\<lambda>found.
     if found
     then bnd (lift_sum (generateCertPath P [targetCert V])) (\<lambda>path.
          bnd (read_env clk) (\<lambda>t. ret (Some (anchor_result (targetCert V) path t))))
     else ret None)"

fun getStatus :: "validation_status list \<Rightarrow> cert \<Rightarrow> exn + validation_status option" where
  "getStatus [] c = Inr None"
| "getStatus (st # sts) c =
     (case vs_certificate st of
        None \<Rightarrow> Inl npe
      | Some c' \<Rightarrow> if c' = c then Inr (Some st) else getStatus sts c)"

fun sortResults :: "validation_status list \<Rightarrow> cert list \<Rightarrow> exn + validation_status list" where
  "sortResults sts [] = Inr []"
| "sortResults sts (c # cs) =
     (case getStatus sts c of
        Inl e \<Rightarrow> Inl e
      | Inr r \<Rightarrow>
          (case sortResults sts cs of
             Inl e \<Rightarrow> Inl e
           | Inr rest \<Rightarrow> Inr (case r of None \<Rightarrow> rest | Some st \<Rightarrow> st # rest)))"

text \<open>The loop over the path from the certificate below the trust anchor down to the target.\<close>

fun check_statuses :: "'x path_env_scheme \<Rightarrow> path_result \<Rightarrow> validation_status list \<Rightarrow> cert list \<Rightarrow> path_error + unit" where
  "check_statuses P r sts [] = Inr ()"
| "check_statuses P r sts (c # cs) =
     (case getStatus sts c of
        Inl e \<Rightarrow> Inl (Unchecked e)
      | Inr None \<Rightarrow>
          Inl (throw_extended P (Exn RuntimeException (Some (''Missing path validation result for '' @ subjectDN c))) r)
      | Inr (Some st) \<Rightarrow>
          if vs_validity st = VALID \<and> vs_statusSignatureValid st then check_statuses P r sts cs
          else if vs_validity st = UNKNOWN then
            Inl (throw_extended P (Exn RuntimeException (Some (''Certificate validity could not be determined for '' @ subjectDN c))) r)
          else if vs_validity st = REVOKED then
            Inl (throw_extended P (Exn RuntimeException (Some (''Certificate REVOKED for '' @ subjectDN c))) r)
          else
            Inl (throw_extended P (Exn RuntimeException (Some (''Certificate status checking failed for '' @ subjectDN c))) r))"

definition built_result :: "pkix_result \<Rightarrow> validation_status list \<Rightarrow> path_result" where
  "built_result b sts =
     \<lparr>pkixCertPathBuilderResult = Some b, targetCertificate = Some (hd (getResultPath b)),
      validatedCertificatePath = Some (getResultPath b), resultStatusList = Some sts\<rparr>"

text \<open>What follows the collection of the statuses, in both modes.\<close>

definition conclude :: "'x path_env_scheme \<Rightarrow> pkix_result \<Rightarrow> validation_status list \<Rightarrow> path_error + path_result" where
  "conclude P b collected =
     (case sortResults collected (getResultPath b) of
        Inl e \<Rightarrow> Inl (Unchecked e)
      | Inr sts \<Rightarrow>
          (case check_statuses P (built_result b sts) sts (rev (butlast (getResultPath b))) of
             Inl e \<Rightarrow> Inl e
           | Inr _ \<Rightarrow> Inr (built_result b sts)))"

fun getSingleThreadedValidityStatus ::
  "(cert \<Rightarrow> cert \<Rightarrow> ('s, exn, validation_status) jm) \<Rightarrow> cert list \<Rightarrow> ('s, exn, validation_status list) jm" where
  "getSingleThreadedValidityStatus check (c # issuer # path) =
     bnd (check c issuer) (\<lambda>st.
     bnd (getSingleThreadedValidityStatus check (issuer # path)) (\<lambda>sts. ret (st # sts)))"
| "getSingleThreadedValidityStatus check path = ret []"

text \<open>The part before the collection: a directly trusted target, or a built path of at least two certificates.\<close>

definition prepare ::
  "'x path_env_scheme \<Rightarrow> (nat \<Rightarrow> date) \<Rightarrow> path_validator \<Rightarrow> ('a world_scheme, path_error, path_result + pkix_result) jm" where
  "prepare P clk V =
     bnd (rethrow_unchecked (attempt (trusted_directly P clk V))) (\<lambda>d.
     case d of
       Inr (Some r) \<Rightarrow> ret (Inl r)
     | _ \<Rightarrow>
        (case buildPath P (targetCert V) (chain V) (certStore V) (trustAnchors V) of
           Inl e \<Rightarrow> throw (if is_exception e then throw_extended P e empty_result else Unchecked e)
         | Inr b \<Rightarrow>
             if length (getResultPath b) < 2
             then throw (throw_extended P (Exn RuntimeException (Some ''Valid path too short for validity checking. Must be at least length = 2'')) empty_result)
             else ret (Inr b)))"

definition validateCertificatePath_single ::
  "'x path_env_scheme \<Rightarrow> (nat \<Rightarrow> date) \<Rightarrow> (cert \<Rightarrow> cert \<Rightarrow> ('a world_scheme, exn, validation_status) jm)
     \<Rightarrow> path_validator \<Rightarrow> ('a world_scheme, path_error, path_result) jm" where
  "validateCertificatePath_single P clk check V =
     bnd (prepare P clk V) (\<lambda>p.
     case p of
       Inl r \<Rightarrow> ret r
     | Inr b \<Rightarrow>
        bnd (rethrow_unchecked (getSingleThreadedValidityStatus check (getResultPath b))) (\<lambda>sts.
        lift_sum (conclude P b sts)))"

text \<open>
  The multi-threaded collection: the threads deliver \<open>rs\<close>, the caller waits for as many results as
  the path has certificates below the trust anchor, or for the deadline.
\<close>

definition multi_conclude :: "'x path_env_scheme \<Rightarrow> pkix_result \<Rightarrow> validation_status list \<Rightarrow> validation_status list \<Rightarrow> path_error + path_result" where
  "multi_conclude P b collected1 collected2 =
     (if length collected1 \<noteq> length (getResultPath b) - 1
      then Inl (throw_extended P (Exn RuntimeException (Some ''Unable to obtain status information for all certificates in the path'')) empty_result)
      else conclude P b collected2)"

inductive multi_collect ::
  "'x path_env_scheme \<Rightarrow> pkix_result \<Rightarrow> validation_status list \<Rightarrow> int \<Rightarrow> int \<Rightarrow> path_error + path_result \<Rightarrow> bool"
  for P b rs startTime maxs where
  "gather_steps (\<lambda>l. length l = length (getResultPath b) - 1) (deadline startTime maxs) (gather_init rs startTime) s1 \<Longrightarrow>
   \<not> waiting s1 \<Longrightarrow>
   gather_steps (\<lambda>l. length l = length (getResultPath b) - 1) (deadline startTime maxs) s1 s2 \<Longrightarrow>
   multi_collect P b rs startTime maxs (multi_conclude P b (delivered s1) (delivered s2))"

subsection \<open>StatusCheckingCertificateValidatorImpl\<close>

record validator_config =
  cfgCertStore :: "cert list option"
  defaultTrustAnchors :: "cert list"

definition validatePath ::
  "validator_config \<Rightarrow> (path_validator \<Rightarrow> ('a world_scheme, path_error, path_result) jm)
     \<Rightarrow> cert \<Rightarrow> cert list option \<Rightarrow> cert list option \<Rightarrow> ('a world_scheme, path_error, path_result) jm" where
  "validatePath S validator subject additional trustAnchorCerts =
     (case trustAnchorCerts of
        None \<Rightarrow> throw (BuilderEx (Exn CertPathBuilderException (Some ''No trust anchor is provided for path building'')))
      | Some [] \<Rightarrow> throw (BuilderEx (Exn CertPathBuilderException (Some ''No trust anchor is provided for path building'')))
      | Some tas \<Rightarrow>
          (\<lambda>s. case validator \<lparr>targetCert = subject, chain = additional, trustAnchors = map Some tas, certStore = cfgCertStore S\<rparr> s of
             (Inl (ExtendedEx ex), s') \<Rightarrow>
               (if exn_class (cause ex) = CertPathBuilderException then (Inl (BuilderEx (cause ex)), s') else (Inl (ExtendedEx ex), s'))
           | r \<Rightarrow> r))"

definition crl_input_error :: "'x path_env_scheme \<Rightarrow> path_error" where
  "crl_input_error P = throw_extended P (Exn IllegalArgumentException (Some ''CRL input is not allowed in this implementation'')) empty_result"

definition validate ::
  "'x path_env_scheme \<Rightarrow> validator_config \<Rightarrow> (path_validator \<Rightarrow> ('a world_scheme, path_error, path_result) jm)
     \<Rightarrow> cert \<Rightarrow> cert list option \<Rightarrow> crl list option \<Rightarrow> ('a world_scheme, path_error, path_result) jm" where
  "validate P S validator subject additional crls =
     (if crls \<noteq> None \<and> crls \<noteq> Some [] then throw (crl_input_error P)
      else validatePath S validator subject additional (Some (defaultTrustAnchors S)))"

text \<open>
  The variant with extra trust anchors. \<open>allTrustedCerts\<close> is computed, and the call that
  follows passes \<open>trustAnchors\<close>.
\<close>

definition validate_with_anchors ::
  "'x path_env_scheme \<Rightarrow> validator_config \<Rightarrow> (path_validator \<Rightarrow> ('a world_scheme, path_error, path_result) jm)
     \<Rightarrow> cert \<Rightarrow> cert list option \<Rightarrow> crl list option \<Rightarrow> cert list option \<Rightarrow> ('a world_scheme, path_error, path_result) jm" where
  "validate_with_anchors P S validator subject additional crls anchors =
     (if crls \<noteq> None \<and> crls \<noteq> Some [] then throw (crl_input_error P)
      else let allTrustedCerts = defaultTrustAnchors S @ (case anchors of None \<Rightarrow> [] | Some tas \<Rightarrow> tas)
           in validatePath S validator subject additional anchors)"

subsection \<open>Statuses and certificates\<close>

definition status_ok :: "validation_status \<Rightarrow> bool" where
  "status_ok st \<longleftrightarrow> vs_validity st = VALID \<and> vs_statusSignatureValid st"

lemma getStatus_Some: "getStatus sts c = Inr (Some st) \<Longrightarrow> st \<in> set sts \<and> vs_certificate st = Some c"
  by (induction sts) (auto split: option.splits if_splits)

lemma sortResults_getStatus:
  "sortResults sts cs = Inr r \<Longrightarrow> getStatus r c = (if c \<in> set cs then getStatus sts c else Inr None)"
proof (induction cs arbitrary: r)
  case Nil
  then show ?case by auto
next
  case (Cons d ds)
  then obtain o1 rest where d: "getStatus sts d = Inr o1" and rest: "sortResults sts ds = Inr rest"
    and r: "r = (case o1 of None \<Rightarrow> rest | Some st \<Rightarrow> st # rest)"
    by (auto split: sum.splits)
  show ?case
  proof (cases o1)
    case None
    with r d Cons.IH[OF rest] show ?thesis by auto
  next
    case (Some st)
    with getStatus_Some d have "vs_certificate st = Some d" by simp
    with Some r d Cons.IH[OF rest] show ?thesis by auto
  qed
qed

lemma sortResults_subset: "sortResults sts cs = Inr r \<Longrightarrow> set r \<subseteq> set sts"
proof (induction cs arbitrary: r)
  case Nil
  then show ?case by auto
next
  case (Cons d ds)
  then show ?case by (fastforce split: sum.splits option.splits dest: getStatus_Some)
qed

lemma check_statuses_iff:
  "check_statuses P r sts cs = Inr () \<longleftrightarrow> (\<forall>c \<in> set cs. \<exists>st. getStatus sts c = Inr (Some st) \<and> status_ok st)"
  by (induction cs) (auto simp: status_ok_def split: sum.splits option.splits)

lemma conclude_Inr:
  assumes "conclude P b col = Inr r"
  obtains sts where "sortResults col (getResultPath b) = Inr sts" "r = built_result b sts"
    "\<forall>c \<in> set (butlast (getResultPath b)). \<exists>st. getStatus col c = Inr (Some st) \<and> st \<in> set sts \<and> status_ok st"
proof -
  from assms obtain sts where sts: "sortResults col (getResultPath b) = Inr sts" "r = built_result b sts"
    and "check_statuses P (built_result b sts) sts (rev (butlast (getResultPath b))) = Inr ()"
    by (auto simp: conclude_def split: sum.splits)
  then have ok: "\<forall>c \<in> set (butlast (getResultPath b)). \<exists>st. getStatus sts c = Inr (Some st) \<and> status_ok st"
    by (simp add: check_statuses_iff)
  have "\<exists>st. getStatus col c = Inr (Some st) \<and> st \<in> set sts \<and> status_ok st"
    if "c \<in> set (butlast (getResultPath b))" for c
    using ok that sortResults_getStatus[OF sts(1), of c] getStatus_Some in_set_butlastD
    by (metis (no_types, lifting))
  with sts that show ?thesis by blast
qed

lemma single_statuses:
  assumes "getSingleThreadedValidityStatus check path s = (Inr sts, s')"
  shows "length sts = length path - 1
    \<and> (\<forall>i < length sts. \<exists>w w'. check (path ! i) (path ! Suc i) w = (Inr (sts ! i), w'))"
  using assms
proof (induction check path arbitrary: s sts s' rule: getSingleThreadedValidityStatus.induct)
  case (1 check c issuer path)
  from "1.prems" obtain st s1 rest where
    c: "check c issuer s = (Inr st, s1)" and rest: "getSingleThreadedValidityStatus check (issuer # path) s1 = (Inr rest, s')"
    and sts: "sts = st # rest"
    by (auto simp: jrun_simps split: prod.splits sum.splits)
  have ih: "length rest = length (issuer # path) - 1"
    "\<forall>i < length rest. \<exists>w w'. check ((issuer # path) ! i) ((issuer # path) ! Suc i) w = (Inr (rest ! i), w')"
    using "1.IH"[OF rest] by auto
  have "\<exists>w w'. check ((c # issuer # path) ! i) ((c # issuer # path) ! Suc i) w = (Inr (sts ! i), w')"
    if "i < length sts" for i
    using that ih(2) c by (cases i) (auto simp: sts)
  then show ?case using ih(1) by (simp add: sts)
qed (auto simp: jrun_simps)

lemma getSingle_certificates:
  assumes "getSingleThreadedValidityStatus check path s = (Inr sts, s')"
    and "\<And>c i w st w'. check c i w = (Inr st, w') \<Longrightarrow> vs_certificate st = Some c"
    and "st \<in> set sts" "vs_certificate st = Some c"
  shows "\<exists>i < length path - 1. path ! i = c \<and> (\<exists>w w'. check c (path ! Suc i) w = (Inr st, w'))"
proof -
  from assms(3) obtain i where i: "i < length sts" "st = sts ! i" by (metis in_set_conv_nth)
  with single_statuses[OF assms(1)] obtain w w' where len: "i < length path - 1"
    and run: "check (path ! i) (path ! Suc i) w = (Inr st, w')" by auto
  with assms(2)[OF run] assms(4) have "path ! i = c" by simp
  with run len show ?thesis by blast
qed

lemma match_anchor_True: "match_anchor tas c = Inr True \<Longrightarrow> Some c \<in> set tas"
  by (induction tas c rule: match_anchor.induct) (auto split: if_splits)

lemma prepare_Inr:
  assumes "prepare P clk V s = (Inr p, s')"
  shows "(\<exists>path t. p = Inl (anchor_result (targetCert V) path t) \<and> Some (targetCert V) \<in> set (trustAnchors V))
    \<or> (\<exists>b. p = Inr b \<and> buildPath P (targetCert V) (chain V) (certStore V) (trustAnchors V) = Inr b \<and> 2 \<le> length (getResultPath b))"
  using assms
  by (auto simp: prepare_def trusted_directly_def rethrow_unchecked_def jrun_simps Suc_le_eq
      split: sum.splits prod.splits option.splits if_splits dest: match_anchor_True)

lemma cert_check_certificate:
  assumes "cert_checkValidity X E get d c issuer s = (Inr st, s')"
  shows "vs_certificate st = Some c"
proof (cases d)
  case 0
  with assms show ?thesis by (simp add: jrun_simps)
next
  case (Suc k)
  from assms[unfolded Suc] obtain a1 s1 b1 s2 a2 s3 b2 where
    1: "crl_checkValidity X E get c issuer s = (Inr a1, s1)" and
    2: "checkStatusPath (verifyValidityStatusTrustPath X (clock E) (cert_checkValidity X E get k)) (Some a1) s1 = (Inr b1, s2)" and
    3: "ocsp_checkValidity X (clock E) c issuer s2 = (Inr a2, s3)" and
    4: "checkStatusPath (verifyValidityStatusTrustPath X (clock E) (cert_checkValidity X E get k)) (Some a2) s3 = (Inr b2, s')" and
    5: "pick_result [b1, b2] s' = (Inr st, s')" by (rule cert_checkValidity_steps)
  have "vs_certificate b1 = Some c" "vs_certificate b2 = Some c"
    using crl_checkValidity_identity[OF 1] checkStatusPath_signed[OF 2] ocsp_checkValidity_wf[OF 3] checkStatusPath_signed[OF 4]
    by (simp_all add: ocsp_status_wf_def)
  with pick_result_Inr[OF 5] show ?thesis by auto
qed

subsection \<open>Soundness of validation\<close>

text \<open>The evidence that one certificate of a validated path was found not revoked, against the next certificate as its issuer.\<close>

definition vouched ::
  "'x ocsp_env_scheme \<Rightarrow> crl_env \<Rightarrow> (distribution_point list option \<Rightarrow> ('a world_scheme, exn, crl_info) jm)
     \<Rightarrow> nat \<Rightarrow> cert \<Rightarrow> cert \<Rightarrow> validation_status \<Rightarrow> bool" where
  "vouched X E get d c issuer st \<longleftrightarrow>
     vs_certificate st = Some c \<and> vs_validity st = VALID \<and> vs_statusSignatureValid st
     \<and> (\<exists>s s'. crl_evidence X E (s :: 'a world_scheme) s' c issuer st \<or> ocsp_evidence X E (cert_checkValidity X E get d) c issuer st)"

lemma single_path_sound:
  assumes g: "grace_ok E"
    and run: "validateCertificatePath_single P (clock E) (cert_checkValidity X E (file_getCRL_dp E) (Suc d)) V s = (Inr r, s')"
  shows "(Some (targetCert V) \<in> set (trustAnchors V) \<and> validatedCertificatePath r = Some [targetCert V])
    \<or> (\<exists>b sts. buildPath P (targetCert V) (chain V) (certStore V) (trustAnchors V) = Inr b
         \<and> r = built_result b sts \<and> 2 \<le> length (getResultPath b)
         \<and> (\<forall>c \<in> set (butlast (getResultPath b)). \<exists>i < length (getResultPath b) - 1. \<exists>st \<in> set sts.
              getResultPath b ! i = c \<and> vouched X E (file_getCRL_dp E) d c (getResultPath b ! Suc i) st))"
proof -
  let ?check = "cert_checkValidity X E (file_getCRL_dp E) (Suc d)"
  from run obtain p s1 where p: "prepare P (clock E) V s = (Inr p, s1)"
    by (auto simp: validateCertificatePath_single_def jrun_simps split: prod.splits sum.splits)
  from prepare_Inr[OF p] show ?thesis
  proof (elim disjE exE conjE)
    fix path t
    assume "p = Inl (anchor_result (targetCert V) path t)" and "Some (targetCert V) \<in> set (trustAnchors V)"
    then show ?thesis
      using run p by (auto simp: validateCertificatePath_single_def jrun_simps anchor_result_def)
  next
    fix b
    assume b: "p = Inr b" "buildPath P (targetCert V) (chain V) (certStore V) (trustAnchors V) = Inr b" "2 \<le> length (getResultPath b)"
    then obtain col where col: "getSingleThreadedValidityStatus ?check (getResultPath b) s1 = (Inr col, s')"
      and con: "conclude P b col = Inr r"
      using run p by (auto simp del: cert_checkValidity.simps
          simp: validateCertificatePath_single_def rethrow_unchecked_def jrun_simps split: prod.splits sum.splits)
    from con obtain sts where "sortResults col (getResultPath b) = Inr sts" and r: "r = built_result b sts"
      and all: "\<forall>c \<in> set (butlast (getResultPath b)). \<exists>st. getStatus col c = Inr (Some st) \<and> st \<in> set sts \<and> status_ok st"
      by (rule conclude_Inr)
    have "\<exists>i < length (getResultPath b) - 1. \<exists>st \<in> set sts.
        getResultPath b ! i = c \<and> vouched X E (file_getCRL_dp E) d c (getResultPath b ! Suc i) st"
      if c: "c \<in> set (butlast (getResultPath b))" for c
    proof -
      from bspec[OF all c] obtain st where st: "getStatus col c = Inr (Some st)" "st \<in> set sts" "status_ok st" by blast
      have "\<exists>i < length (getResultPath b) - 1. getResultPath b ! i = c
          \<and> (\<exists>w w'. ?check c (getResultPath b ! Suc i) w = (Inr st, w'))"
        by (rule getSingle_certificates[OF col])
           (use getStatus_Some[OF st(1)] in \<open>auto dest: cert_check_certificate simp del: cert_checkValidity.simps\<close>)
      then obtain i w w' where
        i: "i < length (getResultPath b) - 1" "getResultPath b ! i = c"
        and check: "?check c (getResultPath b ! Suc i) w = (Inr st, w')" by blast
      have "vouched X E (file_getCRL_dp E) d c (getResultPath b ! Suc i) st"
        using file_check_evidence[OF g check] st(3) getStatus_Some[OF st(1)]
        unfolding vouched_def status_ok_def by auto
      with i st(2) show ?thesis by blast
    qed
    with b r show ?thesis by blast
  qed
qed

text \<open>
  C1. When the path validator, in single-threaded mode over the file cache, returns a result, the
  target is itself a trust anchor, or the validated path is the one the path builder built, has at
  least two certificates, and every certificate below the trust anchor has in the result a signed
  VALID status for which there is evidence against the next certificate of the path: a
  fresh CRL verified with the issuer's key, or a signed OCSP answer of a trusted responder.
\<close>

theorem path_validation_sound:
  assumes g: "grace_ok E"
    and run: "validateCertificatePath_single P (clock E) (cert_checkValidity X E (file_getCRL_dp E) (Suc d)) V s = (Inr r, s')"
  shows "(Some (targetCert V) \<in> set (trustAnchors V) \<and> validatedCertificatePath r = Some [targetCert V])
    \<or> (\<exists>b sts. buildPath P (targetCert V) (chain V) (certStore V) (trustAnchors V) = Inr b
         \<and> r = built_result b sts \<and> 2 \<le> length (getResultPath b)
         \<and> (\<forall>c \<in> set (butlast (getResultPath b)). \<exists>i < length (getResultPath b) - 1. \<exists>st \<in> set sts.
              getResultPath b ! i = c \<and> vouched X E (file_getCRL_dp E) d c (getResultPath b ! Suc i) st))"
  by (rule single_path_sound[OF assms])

subsection \<open>A complete list of statuses\<close>

text \<open>One status per certificate below the trust anchor, in the order of the path.\<close>

definition aligned :: "pkix_result \<Rightarrow> validation_status list \<Rightarrow> bool" where
  "aligned b sts \<longleftrightarrow> distinct (getResultPath b) \<and> map vs_certificate sts = map Some (butlast (getResultPath b))"

lemma getStatus_aligned:
  "map vs_certificate sts = map Some cs \<Longrightarrow> distinct cs \<Longrightarrow> i < length cs \<Longrightarrow> getStatus sts (cs ! i) = Inr (Some (sts ! i))"
proof (induction sts arbitrary: cs i)
  case Nil
  then show ?case by simp
next
  case (Cons st sts)
  then obtain c cs' where "cs = c # cs'" by (cases cs) auto
  with Cons show ?case by (cases i) (auto simp: nth_mem)
qed

lemma getStatus_absent:
  "map vs_certificate sts = map Some cs \<Longrightarrow> c \<notin> set cs \<Longrightarrow> getStatus sts c = Inr None"
proof (induction sts arbitrary: cs)
  case Nil
  then show ?case by simp
next
  case (Cons st sts)
  then obtain c' cs' where "cs = c' # cs'" by (cases cs) auto
  with Cons show ?case by auto
qed

lemma sortResults_map_filter:
  "(\<And>d. d \<in> set ds \<Longrightarrow> getStatus sts d = Inr (f d)) \<Longrightarrow> sortResults sts ds = Inr (List.map_filter f ds)"
  by (induction ds) (auto simp: map_filter_simps split: option.splits)

lemma sortResults_aligned:
  assumes "aligned b sts"
  shows "sortResults sts (getResultPath b) = Inr sts"
proof -
  let ?cs = "certPath b" and ?f = "\<lambda>d. case getStatus sts d of Inr o1 \<Rightarrow> o1 | Inl _ \<Rightarrow> None"
  have al: "map vs_certificate sts = map Some ?cs" "distinct ?cs" "trustAnchor b \<notin> set ?cs" "length sts = length ?cs"
    using assms by (auto simp: aligned_def getResultPath_def dest: map_eq_imp_length_eq)
  have st: "getStatus sts (?cs ! i) = Inr (Some (sts ! i))" if "i < length ?cs" for i
    using getStatus_aligned[OF al(1,2) that] .
  have "getStatus sts d = Inr (?f d)" if "d \<in> set (getResultPath b)" for d
    using that st getStatus_absent[OF al(1,3)] by (auto simp: getResultPath_def in_set_conv_nth)
  then have "sortResults sts (getResultPath b) = Inr (List.map_filter ?f (getResultPath b))"
    by (rule sortResults_map_filter)
  also have "List.map_filter ?f (getResultPath b) = List.map_filter ?f ?cs"
    using getStatus_absent[OF al(1,3)] by (simp add: getResultPath_def List.map_filter_def)
  also have "\<dots> = map (\<lambda>d. the (?f d)) ?cs"
  proof -
    have "filter (\<lambda>d. ?f d \<noteq> None) ?cs = ?cs" using st by (auto simp: filter_id_conv in_set_conv_nth)
    then show ?thesis by (simp add: List.map_filter_def)
  qed
  also have "\<dots> = sts" using st al(4) by (auto intro!: nth_equalityI)
  finally show ?thesis .
qed

lemma conclude_aligned:
  assumes "aligned b sts"
  shows "conclude P b sts = (case check_statuses P (built_result b sts) sts (rev (certPath b)) of
           Inl e \<Rightarrow> Inl e | Inr _ \<Rightarrow> Inr (built_result b sts))"
  using sortResults_aligned[OF assms] by (simp add: conclude_def getResultPath_def)

text \<open>
  C2. With one status per certificate the validator accepts exactly when every status is VALID and
  signed, whatever the collection: no other status lets a path through, and no other reason rejects it.
\<close>

theorem path_accepted_iff:
  assumes "aligned b sts"
  shows "conclude P b sts = Inr (built_result b sts) \<longleftrightarrow> (\<forall>st \<in> set sts. vs_validity st = VALID \<and> vs_statusSignatureValid st)"
proof -
  have al: "map vs_certificate sts = map Some (certPath b)" "distinct (certPath b)" "length sts = length (certPath b)"
    using assms by (auto simp: aligned_def getResultPath_def dest: map_eq_imp_length_eq)
  have "check_statuses P (built_result b sts) sts (rev (certPath b)) = Inr () \<longleftrightarrow>
      (\<forall>i < length sts. status_ok (sts ! i))"
    using getStatus_aligned[OF al(1,2)] al(3) by (simp add: check_statuses_iff all_set_conv_all_nth)
  then show ?thesis
    unfolding conclude_aligned[OF assms] by (auto simp: status_ok_def all_set_conv_all_nth split: sum.splits)
qed

lemma index_loop_append:
  "\<forall>x \<in> set xs. vs_validity x = VALID \<Longrightarrow> vs_validity st \<noteq> VALID \<Longrightarrow> index_loop (xs @ st # ys) = int (length ys)"
  by (induction xs) auto

lemma failure_loop_append:
  "\<forall>x \<in> set xs. vs_validity x = VALID \<Longrightarrow> vs_validity st \<noteq> VALID \<Longrightarrow>
     failure_loop (xs @ st # ys) = (if vs_validity st = REVOKED then ReasonRevoked else UndeterminedRevocationStatus)"
  by (induction xs) (auto split: CertificateValidity.splits)

lemma check_statuses_append:
  "\<forall>c \<in> set xs. \<exists>st. getStatus sts c = Inr (Some st) \<and> status_ok st \<Longrightarrow>
     check_statuses P r sts (xs @ ys) = check_statuses P r sts ys"
  by (induction xs) (auto simp: status_ok_def)

lemma rev_split: "i < length xs \<Longrightarrow> rev xs = rev (drop (Suc i) xs) @ xs ! i # rev (take i xs)"
  by (metis id_take_nth_drop rev.simps(2) rev_append append.assoc append_Cons append_Nil)

text \<open>
  The exception of a failed validation points at the failure: when the certificate nearest to the
  trust anchor whose status is not VALID has the position i, and those above it are VALID and signed,
  the exception carries the index i, the reason REVOKED exactly when that status is REVOKED, and
  undetermined revocation status otherwise. Its own consistency checks never fail.
\<close>

theorem path_failure_index:
  assumes al: "aligned b sts" and i: "i < length sts" "vs_validity (sts ! i) \<noteq> VALID"
    and above: "\<forall>j. i < j \<and> j < length sts \<longrightarrow> vs_validity (sts ! j) = VALID \<and> vs_statusSignatureValid (sts ! j)"
    and path: "generateCertPath P (getResultPath b) = Inr path" "length path = length (getResultPath b)"
  shows "\<exists>ex. conclude P b sts = Inl (ExtendedEx ex) \<and> exceptionIndex ex = int i
    \<and> exceptionReason ex = (if vs_validity (sts ! i) = REVOKED then ReasonRevoked else UndeterminedRevocationStatus)
    \<and> pathValidationResult ex = built_result b sts"
proof -
  let ?r = "built_result b sts" and ?cs = "certPath b"
  have len: "map vs_certificate sts = map Some ?cs" "distinct ?cs" "length sts = length ?cs"
    using al by (auto simp: aligned_def getResultPath_def dest: map_eq_imp_length_eq)
  note st = getStatus_aligned[OF len(1,2)]
  have top: "\<forall>x \<in> set (rev (drop (Suc i) sts)). vs_validity x = VALID"
    using above by (auto simp: in_set_conv_nth)
  have idx: "index_loop (rev sts) = int i"
    using index_loop_append[OF top i(2), of "rev (take i sts)"] rev_split[OF i(1)] i(1) by simp
  have rsn: "failure_loop (rev sts) = (if vs_validity (sts ! i) = REVOKED then ReasonRevoked else UndeterminedRevocationStatus)"
    using failure_loop_append[OF top i(2), of "rev (take i sts)"] rev_split[OF i(1)] by simp
  have ext: "\<exists>ex. throw_extended P c ?r = ExtendedEx ex \<and> exceptionIndex ex = int i
      \<and> exceptionReason ex = (if vs_validity (sts ! i) = REVOKED then ReasonRevoked else UndeterminedRevocationStatus)
      \<and> pathValidationResult ex = ?r" for c
    using path i(1) len(3) idx rsn
    by (auto simp: throw_extended_def new_ExtendedCertPathValidatorException_def getPath_def getIndex_def getFailure_def built_result_def)
  have "\<forall>c \<in> set (rev (drop (Suc i) ?cs)). \<exists>st. getStatus sts c = Inr (Some st) \<and> status_ok st"
    using above st len(3) by (auto simp: in_set_conv_nth status_ok_def)
  then have "check_statuses P ?r sts (rev ?cs) = check_statuses P ?r sts (?cs ! i # rev (take i ?cs))"
    using rev_split[of i ?cs] i(1) len(3) by (simp add: check_statuses_append del: check_statuses.simps)
  also have "\<exists>c. \<dots> = Inl (throw_extended P c ?r)"
    using st[of i] i len(3) by auto
  finally obtain c where "check_statuses P ?r sts (rev ?cs) = Inl (throw_extended P c ?r)" by blast
  then have "conclude P b sts = Inl (throw_extended P c ?r)" using conclude_aligned[OF al, of P] by simp
  with ext[of c] show ?thesis by metis
qed

text \<open>
  C3. In multi-threaded mode a path is accepted only when all the threads have delivered in time:
  every certificate below the trust anchor then has a signed VALID status among the delivered ones,
  whatever the interleaving. When a result is missing at the end of the wait, the validation ends
  with the exception for missing status information.
\<close>

theorem multi_path_sound:
  assumes "multi_collect P b rs start maxs res" and "length rs = length (getResultPath b) - 1"
  shows "(\<forall>r. res = Inr r \<longrightarrow> (\<exists>sts. r = built_result b sts \<and> (\<forall>c \<in> set (butlast (getResultPath b)).
             \<exists>st \<in> set rs \<inter> set sts. vs_certificate st = Some c \<and> vs_validity st = VALID \<and> vs_statusSignatureValid st)))
    \<and> ((\<exists>r. res = Inr r) \<longrightarrow> (\<exists>ds. mset ds = mset rs \<and> res = conclude P b ds))
    \<and> (\<forall>ds. mset ds \<subset># mset rs \<longrightarrow> multi_conclude P b ds ds =
          Inl (throw_extended P (Exn RuntimeException (Some ''Unable to obtain status information for all certificates in the path'')) empty_result))"
proof (intro conjI allI impI)
  let ?n = "length (getResultPath b) - 1"
  from assms(1) obtain s1 s2 where
    s1: "gather_steps (\<lambda>l. length l = ?n) (deadline start maxs) (gather_init rs start) s1" and
    s2: "gather_steps (\<lambda>l. length l = ?n) (deadline start maxs) s1 s2" and
    res: "res = multi_conclude P b (delivered s1) (delivered s2)"
    by (auto elim: multi_collect.cases)
  have full: "mset (delivered s2) = mset rs \<and> res = conclude P b (delivered s2)" if "res = Inr r" for r
  proof -
    from that res have n: "length (delivered s1) = ?n" "res = conclude P b (delivered s2)"
      by (auto simp: multi_conclude_def split: if_splits)
    have "length (delivered s1) \<le> length (delivered s2)"
      using gather_steps_results[OF s2] prefix_length_le by blast
    then have "size (mset rs) \<le> size (mset (delivered s2))" using n(1) assms(2) by simp
    with delivered_subset[OF rtranclp_trans[OF s1 s2]] have "mset (delivered s2) = mset rs"
      by (metis mset_subset_size not_le subset_mset.not_eq_order_implies_strict)
    with n show ?thesis by simp
  qed
  {
    fix r
    assume r: "res = Inr r"
    from full[OF r] r have con: "conclude P b (delivered s2) = Inr r" and ms: "set (delivered s2) = set rs"
      by (simp, metis mset_eq_setD)
    from con obtain sts where "sortResults (delivered s2) (getResultPath b) = Inr sts" and rb: "r = built_result b sts"
      and all: "\<forall>c \<in> set (butlast (getResultPath b)). \<exists>st. getStatus (delivered s2) c = Inr (Some st) \<and> st \<in> set sts \<and> status_ok st"
      by (rule conclude_Inr)
    then show "\<exists>sts. r = built_result b sts \<and> (\<forall>c \<in> set (butlast (getResultPath b)).
        \<exists>st \<in> set rs \<inter> set sts. vs_certificate st = Some c \<and> vs_validity st = VALID \<and> vs_statusSignatureValid st)"
      using ms getStatus_Some unfolding status_ok_def by (metis (no_types, lifting) IntI)
  }
  show "\<exists>ds. mset ds = mset rs \<and> res = conclude P b ds" if "\<exists>r. res = Inr r"
    using full that by blast
  show "multi_conclude P b ds ds =
      Inl (throw_extended P (Exn RuntimeException (Some ''Unable to obtain status information for all certificates in the path'')) empty_result)"
    if "mset ds \<subset># mset rs" for ds
    using mset_subset_size[OF that] assms(2) by (simp add: multi_conclude_def)
qed

text \<open>
  The default trust anchors play no part in the validation with extra trust anchors: the result
  is the same for any two configurations that differ only in them, and without extra anchors the
  call fails for want of a trust anchor even when there are default ones.
\<close>

theorem default_anchors_ignored:
  assumes "crls = None \<or> crls = Some []"
  shows "validate_with_anchors P (S\<lparr>defaultTrustAnchors := d1\<rparr>) validator subject additional crls anchors
       = validate_with_anchors P (S\<lparr>defaultTrustAnchors := d2\<rparr>) validator subject additional crls anchors
    \<and> validate_with_anchors P (S\<lparr>defaultTrustAnchors := d1\<rparr>) validator subject additional crls None
       = throw (BuilderEx (Exn CertPathBuilderException (Some ''No trust anchor is provided for path building'')))"
  using assms
  by (auto simp: validate_with_anchors_def validatePath_def Let_def split: option.split list.split)

text \<open>A run in which all the threads deliver in the order of the path.\<close>

lemma multi_collect_all:
  assumes n: "length rs = length (getResultPath b) - 1"
  shows "multi_collect P b rs start maxs (conclude P b rs)"
proof -
  define C where "C = (\<lambda>l :: validation_status list. length l = length (getResultPath b) - 1)"
  let ?s = "\<lparr>pending = [], delivered = rs, now = start, waiting = True\<rparr>"
  have 1: "gather_steps C (deadline start maxs) (gather_init rs start) ?s"
    using deliver_all[of C "deadline start maxs" "gather_init rs start"] by (simp add: gather_init_def)
  have 2: "gather_step C (deadline start maxs) ?s (?s\<lparr>waiting := False\<rparr>)"
    by (rule gather_step.leave) (simp_all add: C_def n)
  have "multi_collect P b rs start maxs (multi_conclude P b (delivered (?s\<lparr>waiting := False\<rparr>)) (delivered (?s\<lparr>waiting := False\<rparr>)))"
    using rtranclp.rtrancl_into_rtrancl[OF 1 2] unfolding C_def
    by (rule multi_collect.intros) simp_all
  then show ?thesis by (simp add: multi_conclude_def n)
qed

subsection \<open>Witnesses\<close>

definition demo_path_env :: path_env where
  "demo_path_env = \<lparr>readObject = (\<lambda>bs. Inr (Some (ASN1OctetString bs))), parseAIA = (\<lambda>_. Inr []),
     parseCRLDistPoint = (\<lambda>_. Inr [demo_dp ''http://a'']), certVerify = (\<lambda>_ _. Some (Exn SignatureException None)),
     pkixBuild = (\<lambda>target _ _ tas. case tas of Some ta # _ \<Rightarrow> Inr \<lparr>certPath = [target], trustAnchor = ta\<rparr>
        | _ \<Rightarrow> Inl (Exn CertPathBuilderException None)),
     generateCertPath = (\<lambda>p. Inr p)\<rparr>"

definition demo_validator :: path_validator where
  "demo_validator = \<lparr>targetCert = demo_crl_ee, chain = None, trustAnchors = [Some demo_signer_ca], certStore = None\<rparr>"

definition demo_built :: pkix_result where
  "demo_built = \<lparr>certPath = [demo_crl_ee], trustAnchor = demo_signer_ca\<rparr>"

theorem path_validation_sound_witness:
  "\<exists>r s' sts. validateCertificatePath_single demo_path_env (clock good_env)
       (cert_checkValidity (demo_ocsp (\<lambda>_. demo_basic None [])) good_env (file_getCRL_dp good_env) (Suc 0)) demo_validator file_empty = (Inr r, s')
     \<and> r = built_result demo_built sts
     \<and> (\<exists>st \<in> set sts. vouched (demo_ocsp (\<lambda>_. demo_basic None [])) good_env (file_getCRL_dp good_env) 0 demo_crl_ee demo_signer_ca st)"
proof -
  let ?X = "demo_ocsp (\<lambda>_. demo_basic None [])"
  have ne: "demo_crl_ee \<noteq> demo_signer_ca" by (simp add: demo_signer_ca_def demo_cert_def)
  note S = demo_validator_def demo_path_env_def buildPath_def getResultPath_def
  have build: "buildPath demo_path_env (targetCert demo_validator) (chain demo_validator) (certStore demo_validator) (trustAnchors demo_validator) = Inr demo_built"
    by (simp add: S demo_built_def)
  have prep: "prepare demo_path_env (clock good_env) demo_validator file_empty = (Inr (Inr demo_built), file_empty)"
    using build ne by (simp add: prepare_def trusted_directly_def rethrow_unchecked_def jrun_simps demo_validator_def demo_built_def)
  obtain st s' where check: "cert_checkValidity ?X good_env (file_getCRL_dp good_env) (Suc 0) demo_crl_ee demo_signer_ca file_empty = (Inr st, s')"
    and st: "status_ok st"
    by (auto simp: status_run_simps jrun_simps status_ok_def)
  have al: "aligned demo_built [st]"
    using cert_check_certificate[OF check] ne by (simp add: aligned_def demo_built_def getResultPath_def)
  have "conclude demo_path_env demo_built [st] = Inr (built_result demo_built [st])"
    using getStatus_aligned[of "[st]" "[demo_crl_ee]" 0] al st
    by (simp add: conclude_aligned status_ok_def aligned_def demo_built_def getResultPath_def)
  then have run: "validateCertificatePath_single demo_path_env (clock good_env)
       (cert_checkValidity ?X good_env (file_getCRL_dp good_env) (Suc 0)) demo_validator file_empty = (Inr (built_result demo_built [st]), s')"
    using prep check by (simp add: validateCertificatePath_single_def rethrow_unchecked_def jrun_simps demo_built_def
        getResultPath_def del: cert_checkValidity.simps)
  have "Some (targetCert demo_validator) \<notin> set (trustAnchors demo_validator)"
    using ne by (simp add: demo_validator_def)
  with path_validation_sound[OF grace_ok_demo run] build obtain st' where
    "st' \<in> set [st]" "vouched ?X good_env (file_getCRL_dp good_env) 0 demo_crl_ee demo_signer_ca st'"
    by (auto simp: demo_built_def getResultPath_def built_result_def)
  with run show ?thesis by auto
qed

theorem path_accepted_iff_witness:
  "conclude demo_path_env demo_built [demo_status demo_crl_ee VALID True] = Inr (built_result demo_built [demo_status demo_crl_ee VALID True])"
proof -
  have "aligned demo_built [demo_status demo_crl_ee VALID True]"
    by (simp add: aligned_def demo_built_def getResultPath_def demo_signer_ca_def demo_cert_def)
  from path_accepted_iff[OF this, of demo_path_env] show ?thesis by simp
qed

theorem path_failure_index_witness:
  "\<exists>ex. conclude demo_path_env demo_built [demo_status demo_crl_ee REVOKED True] = Inl (ExtendedEx ex)
     \<and> exceptionIndex ex = 0 \<and> exceptionReason ex = ReasonRevoked"
proof -
  let ?sts = "[demo_status demo_crl_ee REVOKED True]"
  have al: "aligned demo_built ?sts"
    by (simp add: aligned_def demo_built_def getResultPath_def demo_signer_ca_def demo_cert_def)
  have "generateCertPath demo_path_env (getResultPath demo_built) = Inr (getResultPath demo_built)"
    by (simp add: demo_path_env_def)
  from path_failure_index[OF al _ _ _ this, of 0] show ?thesis by auto
qed

theorem multi_path_sound_witness:
  "\<exists>r. multi_collect demo_path_env demo_built [demo_status demo_crl_ee VALID True] 0 15 (Inr r)
     \<and> (\<exists>sts. r = built_result demo_built sts \<and> demo_status demo_crl_ee VALID True \<in> set sts)"
proof -
  let ?st = "demo_status demo_crl_ee VALID True"
  have al: "aligned demo_built [?st]"
    by (simp add: aligned_def demo_built_def getResultPath_def demo_signer_ca_def demo_cert_def)
  have "check_statuses demo_path_env (built_result demo_built [?st]) [?st] (rev (certPath demo_built)) = Inr ()"
    by (simp add: demo_built_def)
  then have con: "conclude demo_path_env demo_built [?st] = Inr (built_result demo_built [?st])"
    by (simp add: conclude_aligned[OF al])
  have "multi_collect demo_path_env demo_built [?st] 0 15 (conclude demo_path_env demo_built [?st])"
    by (rule multi_collect_all) (simp add: demo_built_def)
  then have run: "multi_collect demo_path_env demo_built [?st] 0 15 (Inr (built_result demo_built [?st]))"
    by (simp only: con)
  have "length [?st] = length (getResultPath demo_built) - 1" by (simp add: demo_built_def)
  from conjunct1[OF multi_path_sound[OF run this], rule_format, OF refl] obtain sts where
    "built_result demo_built [?st] = built_result demo_built sts"
    "\<forall>c \<in> set (butlast (getResultPath demo_built)). \<exists>st \<in> set [?st] \<inter> set sts. vs_certificate st = Some c \<and> vs_validity st = VALID \<and> vs_statusSignatureValid st"
    by blast
  moreover from this(2) have "?st \<in> set sts" by (simp add: demo_built_def getResultPath_def)
  ultimately show ?thesis using run by metis
qed

theorem default_anchors_ignored_witness:
  "validate_with_anchors demo_path_env \<lparr>cfgCertStore = None, defaultTrustAnchors = [demo_signer_ca]\<rparr>
      (validateCertificatePath_single demo_path_env (clock good_env) (\<lambda>_ _. throw npe)) demo_signer_ca None None None file_empty
     = (Inl (BuilderEx (Exn CertPathBuilderException (Some ''No trust anchor is provided for path building''))), file_empty)"
proof -
  let ?V = "validateCertificatePath_single demo_path_env (clock good_env) (\<lambda>_ _. throw npe)
    :: path_validator \<Rightarrow> (file_cache, path_error, path_result) jm"
  from default_anchors_ignored[where crls = None and S = "\<lparr>cfgCertStore = None, defaultTrustAnchors = []\<rparr>"
      and P = demo_path_env and ?d1.0 = "[demo_signer_ca]" and subject = demo_signer_ca and additional = None and validator = ?V]
  show ?thesis by (simp add: jrun_simps)
qed

end
