(* ===== verification/SVT_Validation.thy ===== *)
theory SVT_Validation
  imports SVA_Utils Path_Validation
begin

text \<open>
  Validation of JSON and XML signatures through a signature validation token:
  \<open>sigval-jose/.../svt/JOSESVTValidator.java\<close> and \<open>sigval-xml/.../svt/XMLSVTValidator.java\<close>. The two
  classes share the verification of a token, word for word; they differ in where tokens are
  found and in the data of the signature that is compared with the token. The certificate validator is
  used through its interface, the locale \<open>certificate_validator\<close>, interpreted on the
  status checking validator of the theory \<open>Path_Validation\<close>.
\<close>

subsection \<open>Verifying one token\<close>

text \<open>The interface \<open>CertificateValidator.validate(cert, chain, null)\<close> as the SVT classes see it: a result or an exception.\<close>

fun as_exn :: "path_error \<Rightarrow> exn" where
  "as_exn (ExtendedEx x) = Exn CertPathValidatorException (getMessage (cause x))"
| "as_exn (BuilderEx e) = e"
| "as_exn (Unchecked e) = e"

definition svt_validate ::
  "('a world_scheme, path_error, path_result) jm \<Rightarrow> ('a world_scheme, exn, path_result) jm" where
  "svt_validate m = (\<lambda>s. case m s of (Inl e, s') \<Rightarrow> (Inl (as_exn e), s') | (Inr r, s') \<Rightarrow> (Inr r, s'))"

text \<open>The message digest of the token's algorithm is absent where looking it up raises an exception.\<close>

definition certMatchKeyId :: "'x svt_env_scheme \<Rightarrow> string \<Rightarrow> jws_alg option \<Rightarrow> cert \<Rightarrow> bool" where
  "certMatchKeyId X keyID alg c =
     (case svtDigestInstance X alg of
        None \<Rightarrow> False
      | Some md \<Rightarrow> keyID = base64 X (md (encoded c)))"

definition getJWTCerts :: "'x svt_env_scheme \<Rightarrow> bytes list option \<Rightarrow> exn + cert list" where
  "getJWTCerts X x5c = (case x5c of None \<Rightarrow> Inr [] | Some bs \<Rightarrow> parse_chain X bs)"

record JWTCerts =
  signingCert :: "cert option"
  supportingCertList :: "cert list option"

definition getAllJwtCerts ::
  "'x svt_env_scheme \<Rightarrow> cert list \<Rightarrow> jws_alg option \<Rightarrow> string option \<Rightarrow> cert list \<Rightarrow> JWTCerts" where
  "getAllJwtCerts X supportingCertificates alg keyID jwtCertList =
     (let signer =
        (if keyID \<noteq> None \<and> keyID \<noteq> Some []
         then (case List.find (certMatchKeyId X (the keyID) alg) supportingCertificates of
                 Some c \<Rightarrow> Some c
               | None \<Rightarrow> List.find (certMatchKeyId X (the keyID) alg) jwtCertList)
         else (case jwtCertList of [] \<Rightarrow> None | c # _ \<Rightarrow> Some c))
      in case signer of
           None \<Rightarrow> \<lparr>signingCert = None, supportingCertList = None\<rparr>
         | Some c \<Rightarrow> \<lparr>signingCert = Some c, supportingCertList = Some (supportingCertificates @ jwtCertList)\<rparr>)"

record 'w svt_validator =
  supportingCertificates :: "cert list"
  certVerifier :: "cert \<Rightarrow> cert list option \<Rightarrow> ('w, exn, path_result) jm"
  digests :: digest_map
  svtClock :: "nat \<Rightarrow> date"

definition verifyJWT ::
  "'x svt_env_scheme \<Rightarrow> 'a world_scheme svt_validator \<Rightarrow> signed_jwt \<Rightarrow> ('a world_scheme, exn, unit) jm" where
  "verifyJWT X W jwt =
     bnd (lift_sum (getJWTCerts X (jwtX509CertChain jwt))) (\<lambda>jwtCertList.
     let jwtCerts = getAllJwtCerts X (supportingCertificates W) (jwtAlgorithm jwt) (jwtKeyID jwt) jwtCertList in
     case signingCert jwtCerts of
       None \<Rightarrow> throw (Exn IOException (Some ''Unable to locate a SVT signing certificate''))
     | Some sc \<Rightarrow>
         sq (certVerifier W sc (supportingCertList jwtCerts))
            (verifySVA X (digests W) (svtClock W) jwt (publicKey sc)))"

text \<open>The loop over the tokens of a signature keeps those that parse and verify.\<close>

fun verify_tokens ::
  "'x svt_env_scheme \<Rightarrow> 'a world_scheme svt_validator \<Rightarrow> string list \<Rightarrow> ('a world_scheme, exn, signed_jwt list) jm" where
  "verify_tokens X W [] = ret []"
| "verify_tokens X W (t # ts) =
     bnd (attempt (bnd (lift_sum (parseJWT X t)) (\<lambda>jwt. sq (verifyJWT X W jwt) (ret jwt)))) (\<lambda>r.
     bnd (verify_tokens X W ts) (\<lambda>jwts.
     ret (case r of Inl _ \<Rightarrow> jwts | Inr jwt \<Rightarrow> jwt # jwts)))"

subsection \<open>Comparing a signature with a token\<close>

record svt_data =
  svtJWT :: signed_jwt
  signatureReference :: sig_reference
  signatureClaims :: sig_claims
  signedDataRefList :: "signed_data_claims list"
  signerCertChain :: "bytes list"

definition toBase64Digest :: "'x svt_env_scheme \<Rightarrow> bytes \<Rightarrow> DigestAlgorithm \<Rightarrow> exn + string" where
  "toBase64Digest X bs d = (case digestInstance X d of Inl e \<Rightarrow> Inl e | Inr md \<Rightarrow> Inr (base64 X (md bs)))"

fun match_claims :: "string \<Rightarrow> sig_claims list \<Rightarrow> exn + sig_claims option" where
  "match_claims h [] = Inr None"
| "match_claims h (c # cs) =
     (case sig_ref c of
        None \<Rightarrow> Inl npe
      | Some r \<Rightarrow>
          (case sig_hash r of
             None \<Rightarrow> Inl npe
           | Some x \<Rightarrow> if x = h then Inr (Some c) else match_claims h cs))"

fun digest_refs :: "'x svt_env_scheme \<Rightarrow> DigestAlgorithm \<Rightarrow> (string \<times> bytes) list \<Rightarrow> exn + signed_data_claims list" where
  "digest_refs X d [] = Inr []"
| "digest_refs X d ((r, bs) # rest) =
     (case toBase64Digest X bs d of
        Inl e \<Rightarrow> Inl e
      | Inr h \<Rightarrow>
          (case digest_refs X d rest of Inl e \<Rightarrow> Inl e | Inr rs \<Rightarrow> Inr (\<lparr>ref = r, hash_value = h\<rparr> # rs)))"

text \<open>
  \<open>collectSignatureSVTData\<close>, with the parts of the signature that the two formats provide: an optional
  identifier, the signature value, the signed bytes, the referenced data and the certificates.
\<close>

record signature_input =
  signatureId :: "string option"
  signatureBytes :: bytes
  signedBytes :: bytes
  refData :: "(string \<times> bytes) list"
  signatureCertChain :: "cert list"

definition collectSignatureSVTData ::
  "'x svt_env_scheme \<Rightarrow> digest_map \<Rightarrow> signature_input \<Rightarrow> signed_jwt option \<Rightarrow> exn + svt_data" where
  "collectSignatureSVTData X dm sig mostRecentJwt =
     (case mostRecentJwt of
        None \<Rightarrow> Inl npe
      | Some jwt \<Rightarrow>
     (case jwtClaimsSet jwt of
        Inl e \<Rightarrow> Inl e
      | Inr jc \<Rightarrow>
     (case getSVTClaims jc of
        Inl e \<Rightarrow> Inl e
      | Inr None \<Rightarrow> Inl npe
      | Inr (Some claims) \<Rightarrow>
     (case digest_get dm (hash_algo claims) of
        Inl e \<Rightarrow> Inl e
      | Inr d \<Rightarrow>
     (case toBase64Digest X (signatureBytes sig) d of
        Inl e \<Rightarrow> Inl e
      | Inr signatureHash \<Rightarrow>
     (case toBase64Digest X (signedBytes sig) d of
        Inl e \<Rightarrow> Inl e
      | Inr signedInfoHash \<Rightarrow>
     (case svt_sig claims of
        None \<Rightarrow> Inl npe
      | Some cs \<Rightarrow>
     (case match_claims signatureHash cs of
        Inl e \<Rightarrow> Inl e
      | Inr None \<Rightarrow> Inl (Exn RuntimeException (Some ''The validated SVT claims does not match the present signature''))
      | Inr (Some sc) \<Rightarrow>
     (case digest_refs X d (refData sig) of
        Inl e \<Rightarrow> Inl e
      | Inr refs \<Rightarrow>
          Inr \<lparr>svtJWT = jwt,
               signatureReference = \<lparr>sref_id = signatureId sig, sig_hash = Some signatureHash, sb_hash = Some signedInfoHash\<rparr>,
               signatureClaims = sc, signedDataRefList = refs,
               signerCertChain = map encoded (signatureCertChain sig)\<rparr>)))))))))"

text \<open>\<open>getSignatureSVTData\<close>: the tokens of the signature, the most recent valid one, the comparison.\<close>

definition getSignatureSVTData ::
  "'x svt_env_scheme \<Rightarrow> 'a world_scheme svt_validator \<Rightarrow> string list \<Rightarrow> signature_input \<Rightarrow> ('a world_scheme, exn, svt_data list) jm" where
  "getSignatureSVTData X W tokens sig =
     bnd (verify_tokens X W tokens) (\<lambda>jwts.
     bnd (lift_sum (getMostRecentJwt (Some jwts))) (\<lambda>jwt.
     bnd (lift_sum (collectSignatureSVTData X (digests W) sig jwt)) (\<lambda>d. ret [d])))"

subsection \<open>JSON signatures\<close>

datatype json_item = JString string | JOther

datatype svt_param = SvtList "json_item list" | SvtOther

record jose_signature =
  isDetached :: bool
  headerBase64 :: string
  payloadBase64 :: string
  payloadBytes :: bytes
  joseSignatureBytes :: bytes
  svtHeader :: "svt_param option option"
  joseCertChain :: "cert list"

text \<open>The outer option is the unprotected header, the inner one its parameter \<open>svt\<close>.\<close>

definition jose_getSignatureSvaTokens :: "svt_param option option \<Rightarrow> string list" where
  "jose_getSignatureSvaTokens h =
     (case h of
        Some (Some (SvtList items)) \<Rightarrow> List.map_filter (\<lambda>i. case i of JString s \<Rightarrow> Some s | JOther \<Rightarrow> None) items
      | _ \<Rightarrow> [])"

definition jose_input :: "jose_signature \<Rightarrow> signature_input" where
  "jose_input s = \<lparr>signatureId = None, signatureBytes = joseSignatureBytes s,
     signedBytes = map of_char (headerBase64 s @ ''.'' @ payloadBase64 s),
     refData = [(if isDetached s then ''detached'' else ''payload'', payloadBytes s)],
     signatureCertChain = joseCertChain s\<rparr>"

definition jose_getSignatureSVTData ::
  "'x svt_env_scheme \<Rightarrow> 'a world_scheme svt_validator \<Rightarrow> jose_signature \<Rightarrow> ('a world_scheme, exn, svt_data list) jm" where
  "jose_getSignatureSVTData X W s = getSignatureSVTData X W (jose_getSignatureSvaTokens (svtHeader s)) (jose_input s)"

subsection \<open>XML signatures\<close>

text \<open>An \<open>Object\<close> element of the signature, by the texts of the token elements in it, or as a node that cannot be read.\<close>

datatype xml_object = XmlObject "string list" | XmlUnreadable

record xml_signature =
  xmlSignatureId :: "string option"
  sigObjects :: "xml_object list"
  refDataMap :: "(string \<times> bytes) list"
  xmlSignatureBytes :: bytes
  signedInfoBytes :: bytes
  xmlCertChain :: "cert list"

definition xml_getSignatureSvaTokens :: "xml_object list \<Rightarrow> string list" where
  "xml_getSignatureSvaTokens objs = concat (map (\<lambda>o1. case o1 of XmlObject ts \<Rightarrow> ts | XmlUnreadable \<Rightarrow> []) objs)"

definition xml_input :: "xml_signature \<Rightarrow> signature_input" where
  "xml_input s = \<lparr>signatureId = xmlSignatureId s, signatureBytes = xmlSignatureBytes s, signedBytes = signedInfoBytes s,
     refData = refDataMap s, signatureCertChain = xmlCertChain s\<rparr>"

definition xml_getSignatureSVTData ::
  "'x svt_env_scheme \<Rightarrow> 'a world_scheme svt_validator \<Rightarrow> xml_signature \<Rightarrow> ('a world_scheme, exn, svt_data list) jm" where
  "xml_getSignatureSVTData X W s = getSignatureSVTData X W (xml_getSignatureSvaTokens (sigObjects s)) (xml_input s)"

subsection \<open>What an accepted token guarantees\<close>

definition svt_accepted ::
  "'x svt_env_scheme \<Rightarrow> 'a world_scheme svt_validator \<Rightarrow> (cert \<Rightarrow> bool) \<Rightarrow> signed_jwt \<Rightarrow> bool" where
  "svt_accepted X W trusted jwt \<longleftrightarrow>
     (\<exists>certs sc n. getJWTCerts X (jwtX509CertChain jwt) = Inr certs
        \<and> signingCert (getAllJwtCerts X (supportingCertificates W) (jwtAlgorithm jwt) (jwtKeyID jwt) certs) = Some sc
        \<and> trusted sc \<and> sva_acceptable X (digests W) (svtClock W n) jwt (publicKey sc))"

text \<open>The data handed on is computed from the signature itself, and the claims are those for its signature value.\<close>

definition svt_data_of :: "'x svt_env_scheme \<Rightarrow> digest_map \<Rightarrow> signature_input \<Rightarrow> svt_data \<Rightarrow> bool" where
  "svt_data_of X dm sig d \<longleftrightarrow>
     (\<exists>jc claims alg h cs r. jwtClaimsSet (svtJWT d) = Inr jc \<and> sigValClaims jc = Inr (Some claims)
        \<and> digest_get dm (hash_algo claims) = Inr alg \<and> toBase64Digest X (signatureBytes sig) alg = Inr h
        \<and> sig_hash (signatureReference d) = Some h
        \<and> (\<exists>b. toBase64Digest X (signedBytes sig) alg = Inr b \<and> sb_hash (signatureReference d) = Some b)
        \<and> svt_sig claims = Some cs \<and> signatureClaims d \<in> set cs
        \<and> sig_ref (signatureClaims d) = Some r \<and> sig_hash r = Some h
        \<and> map ref (signedDataRefList d) = map fst (refData sig)
        \<and> (\<forall>i < length (refData sig). toBase64Digest X (snd (refData sig ! i)) alg = Inr (hash_value (signedDataRefList d ! i)))
        \<and> signerCertChain d = map encoded (signatureCertChain sig))"

lemma match_claims_Some:
  "match_claims h cs = Inr (Some c) \<Longrightarrow> c \<in> set cs \<and> (\<exists>r. sig_ref c = Some r \<and> sig_hash r = Some h)"
  by (induction cs) (auto split: option.splits if_splits)

lemma digest_refs_Inr:
  "digest_refs X d rs = Inr refs \<Longrightarrow> map ref refs = map fst rs
     \<and> (\<forall>i < length rs. toBase64Digest X (snd (rs ! i)) d = Inr (hash_value (refs ! i)))"
proof (induction X d rs arbitrary: refs rule: digest_refs.induct)
  case (1 X d)
  then show ?case by simp
next
  case (2 X d r bs rest)
  then obtain h refs' where h: "toBase64Digest X bs d = Inr h" and r: "digest_refs X d rest = Inr refs'"
    and refs: "refs = \<lparr>ref = r, hash_value = h\<rparr> # refs'"
    by (auto split: sum.splits)
  from "2.IH"[OF h r] h refs show ?case by (auto simp: nth_Cons split: nat.splits)
qed

lemma collectSignatureSVTData_Inr:
  assumes "collectSignatureSVTData X dm sig mr = Inr d"
  shows "mr = Some (svtJWT d) \<and> svt_data_of X dm sig d"
proof -
  have claims: "getSVTClaims jc = Inr v \<Longrightarrow> sigValClaims jc = Inr v" for jc v
    by (auto simp: getSVTClaims_def split: sum.splits if_splits)
  from assms obtain jwt jc claims alg h b cs sc refs where mr: "mr = Some jwt" and
    1: "jwtClaimsSet jwt = Inr jc" "getSVTClaims jc = Inr (Some claims)" "digest_get dm (hash_algo claims) = Inr alg"
      "toBase64Digest X (signatureBytes sig) alg = Inr h" "toBase64Digest X (signedBytes sig) alg = Inr b"
      "svt_sig claims = Some cs" and
    2: "match_claims h cs = Inr (Some sc)" and 3: "digest_refs X alg (refData sig) = Inr refs" and
    d: "d = \<lparr>svtJWT = jwt, signatureReference = \<lparr>sref_id = signatureId sig, sig_hash = Some h, sb_hash = Some b\<rparr>,
          signatureClaims = sc, signedDataRefList = refs, signerCertChain = map encoded (signatureCertChain sig)\<rparr>"
    unfolding collectSignatureSVTData_def by (simp split: option.splits sum.splits)
  from match_claims_Some[OF 2] obtain r where "sc \<in> set cs" "sig_ref sc = Some r" "sig_hash r = Some h" by blast
  then show ?thesis
    using mr 1(1,3-6) claims[OF 1(2)] digest_refs_Inr[OF 3] unfolding d svt_data_of_def by simp
qed

lemma verify_tokens_Inr:
  assumes "verify_tokens X W ts s = (Inr jwts, s')" "jwt \<in> set jwts"
  shows "\<exists>t \<in> set ts. parseJWT X t = Inr jwt \<and> (\<exists>s1 s2. verifyJWT X W jwt s1 = (Inr (), s2))"
  using assms
proof (induction ts arbitrary: s jwts)
  case Nil
  then show ?case by (simp add: jrun_simps)
next
  case (Cons t ts)
  from Cons.prems(1) obtain r s1 js where
    r: "attempt (bnd (lift_sum (parseJWT X t)) (\<lambda>jwt. sq (verifyJWT X W jwt) (ret jwt))) s = (Inr r, s1)" and
    js: "verify_tokens X W ts s1 = (Inr js, s')" and jwts: "jwts = (case r of Inl _ \<Rightarrow> js | Inr j \<Rightarrow> j # js)"
    by (auto simp: bnd_run ret_run split: prod.splits sum.splits)
  have "parseJWT X t = Inr j \<and> (\<exists>s2. verifyJWT X W j s = (Inr (), s2))" if "r = Inr j" for j
    using r that by (auto simp: jrun_simps split: prod.splits sum.splits if_splits)
  with Cons.IH[OF js] jwts Cons.prems(2) show ?case by (auto split: sum.splits)
qed

lemma insert_jwt_set: "insert_jwt x ys = Inr zs \<Longrightarrow> set zs = insert x (set ys)"
proof (induction ys arbitrary: zs)
  case Nil
  then show ?case by auto
next
  case (Cons y ys)
  from Cons.prems consider "zs = x # y # ys" | ws where "insert_jwt x ys = Inr ws" "zs = y # ws"
    by (auto split: sum.splits if_splits)
  then show ?case
  proof cases
    case 1
    then show ?thesis by simp
  next
    case 2
    from Cons.IH[OF 2(1)] 2(2) show ?thesis by auto
  qed
qed

lemma sort_jwts_set: "sort_jwts acc xs = Inr zs \<Longrightarrow> set zs = set acc \<union> set xs"
proof (induction xs arbitrary: acc)
  case Nil
  then show ?case by simp
next
  case (Cons x xs)
  from Cons.prems obtain acc' where a: "insert_jwt x acc = Inr acc'" and s: "sort_jwts acc' xs = Inr zs" by (auto split: sum.splits)
  from Cons.IH[OF s] insert_jwt_set[OF a] show ?case by auto
qed

lemma getMostRecentJwt_in:
  assumes "getMostRecentJwt (Some js) = Inr (Some j)"
  shows "j \<in> set js"
proof (cases js)
  case Nil
  with assms show ?thesis by (simp add: getMostRecentJwt_def)
next
  case (Cons j0 rest)
  with assms obtain zs where zs: "sort_jwts [j0] rest = Inr zs" "zs \<noteq> []" "j = hd zs"
    by (auto simp: getMostRecentJwt_def split: sum.splits list.splits)
  then have "j \<in> set zs" by simp
  with sort_jwts_set[OF zs(1)] Cons show ?thesis by simp
qed

subsection \<open>The interface of the certificate validator\<close>

locale certificate_validator =
  fixes validator :: "cert \<Rightarrow> cert list option \<Rightarrow> ('a world_scheme, exn, path_result) jm"
    and trusted :: "cert \<Rightarrow> bool"
  assumes validated: "validator c supp s = (Inr r, s') \<Longrightarrow> trusted c"
begin

lemma verifyJWT_accepted:
  assumes W: "certVerifier W = validator" and run: "verifyJWT X W jwt s = (Inr (), s')"
  shows "svt_accepted X W trusted jwt"
proof -
  from run obtain certs sc supp s1 r s2 where certs: "getJWTCerts X (jwtX509CertChain jwt) = Inr certs"
    and sc: "signingCert (getAllJwtCerts X (supportingCertificates W) (jwtAlgorithm jwt) (jwtKeyID jwt) certs) = Some sc"
    and val: "certVerifier W sc supp s1 = (Inr r, s2)"
    and ver: "verifySVA X (digests W) (svtClock W) jwt (publicKey sc) s2 = (Inr (), s')"
    by (auto simp: verifyJWT_def jrun_simps Let_def split: sum.splits option.splits prod.splits)
  have "trusted sc" using validated val W by simp
  moreover have "sva_acceptable X (digests W) (svtClock W (tick s2)) jwt (publicKey sc)"
    using ver verifySVA_returns_iff by blast
  ultimately show ?thesis using certs sc unfolding svt_accepted_def by blast
qed

lemma svt_data_sound:
  assumes W: "certVerifier W = validator" and run: "getSignatureSVTData X W tokens sig s = (Inr ds, s')"
  shows "\<exists>d. ds = [d] \<and> (\<exists>t \<in> set tokens. parseJWT X t = Inr (svtJWT d)) \<and> svt_accepted X W trusted (svtJWT d)
           \<and> svt_data_of X (digests W) sig d"
proof -
  from run obtain jwts s1 mr d where tok: "verify_tokens X W tokens s = (Inr jwts, s1)"
    and mr: "getMostRecentJwt (Some jwts) = Inr mr" and d: "collectSignatureSVTData X (digests W) sig mr = Inr d" "ds = [d]"
    by (auto simp: getSignatureSVTData_def bnd_run ret_run lift_sum_run split: prod.splits sum.splits)
  from collectSignatureSVTData_Inr[OF d(1)] have j: "mr = Some (svtJWT d)" and data: "svt_data_of X (digests W) sig d" by auto
  from verify_tokens_Inr[OF tok getMostRecentJwt_in[OF mr[unfolded j]]] obtain t s2 s3 where
    "t \<in> set tokens" "parseJWT X t = Inr (svtJWT d)" "verifyJWT X W (svtJWT d) s2 = (Inr (), s3)" by blast
  with verifyJWT_accepted[OF W] data d(2) show ?thesis by blast
qed

end

text \<open>
  The status checking validator keeps the contract: a certificate it accepts is a default trust anchor
  or heads a path to one in which every certificate is vouched for.
\<close>

definition path_trusted ::
  "'p path_env_scheme \<Rightarrow> 'x ocsp_env_scheme \<Rightarrow> crl_env \<Rightarrow> nat \<Rightarrow> validator_config \<Rightarrow> cert \<Rightarrow> bool" where
  "path_trusted P X E d S c \<longleftrightarrow>
     (grace_ok E \<longrightarrow>
       c \<in> set (defaultTrustAnchors S)
       \<or> (\<exists>supp b sts. buildPath P c supp (cfgCertStore S) (map Some (defaultTrustAnchors S)) = Inr b \<and> 2 \<le> length (getResultPath b)
            \<and> (\<forall>c' \<in> set (butlast (getResultPath b)). \<exists>i < length (getResultPath b) - 1. \<exists>st \<in> set sts.
                 getResultPath b ! i = c' \<and> vouched X E (file_getCRL_dp E) d c' (getResultPath b ! Suc i) st)))"

definition status_checking_validator ::
  "'p path_env_scheme \<Rightarrow> 'x ocsp_env_scheme \<Rightarrow> crl_env \<Rightarrow> nat \<Rightarrow> validator_config \<Rightarrow> cert \<Rightarrow> cert list option
     \<Rightarrow> (file_cache, exn, path_result) jm" where
  "status_checking_validator P X E d S c supp =
     svt_validate (validate P S (validateCertificatePath_single P (clock E) (cert_checkValidity X E (file_getCRL_dp E) (Suc d))) c supp None)"

lemma validatePath_Inr:
  assumes "validatePath S v c supp (Some tas) s = (Inr r, s')"
  shows "v \<lparr>targetCert = c, chain = supp, trustAnchors = map Some tas, certStore = cfgCertStore S\<rparr> s = (Inr r, s')"
  using assms by (cases tas) (auto simp: validatePath_def throw_run split: prod.splits sum.splits path_error.splits if_splits)

interpretation scv: certificate_validator "status_checking_validator P X E d S" "path_trusted P X E d S" for P X E d S
proof
  fix c supp s r s'
  assume run: "status_checking_validator P X E d S c supp s = (Inr r, s')"
  let ?check = "cert_checkValidity X E (file_getCRL_dp E) (Suc d)"
  let ?V = "\<lparr>targetCert = c, chain = supp, trustAnchors = map Some (defaultTrustAnchors S), certStore = cfgCertStore S\<rparr>"
  have "validate P S (validateCertificatePath_single P (clock E) ?check) c supp None s = (Inr r, s')"
    using run by (auto simp: status_checking_validator_def svt_validate_def simp del: cert_checkValidity.simps split: prod.splits sum.splits)
  then have "validatePath S (validateCertificatePath_single P (clock E) ?check) c supp (Some (defaultTrustAnchors S)) s = (Inr r, s')"
    by (simp add: validate_def del: cert_checkValidity.simps)
  then have single: "validateCertificatePath_single P (clock E) ?check ?V s = (Inr r, s')"
    by (rule validatePath_Inr)
  show "path_trusted P X E d S c"
    unfolding path_trusted_def using single_path_sound[OF _ single] by fastforce
qed

subsection \<open>Properties\<close>

text \<open>
  C4. What \<open>JOSESVTValidator.getSignatureSVTData\<close> returns over the status checking validator is one
  record, for a token in the unprotected header of the signature; the token's signing certificate is
  a trust anchor or heads a path to one in which every certificate is vouched for, the token
  had not expired and its digest algorithms agree; and the record holds the hashes of this
  signature and its payload and the claims for this signature value.
\<close>

theorem json_svt_sound:
  assumes "certVerifier W = status_checking_validator P X E d S"
    and "jose_getSignatureSVTData Y W sig s = (Inr ds, s')"
  shows "\<exists>r. ds = [r] \<and> (\<exists>t \<in> set (jose_getSignatureSvaTokens (svtHeader sig)). parseJWT Y t = Inr (svtJWT r))
           \<and> svt_accepted Y W (path_trusted P X E d S) (svtJWT r) \<and> svt_data_of Y (digests W) (jose_input sig) r"
  using scv.svt_data_sound[OF assms(1)] assms(2) unfolding jose_getSignatureSVTData_def by blast

text \<open>
  C5. The same for \<open>XMLSVTValidator.getSignatureSVTData\<close>: a token found in an \<open>Object\<close> element of the
  signature, with the hash of every reference of the signature.
\<close>

theorem xml_svt_sound:
  assumes "certVerifier W = status_checking_validator P X E d S"
    and "xml_getSignatureSVTData Y W sig s = (Inr ds, s')"
  shows "\<exists>r. ds = [r] \<and> (\<exists>t \<in> set (xml_getSignatureSvaTokens (sigObjects sig)). parseJWT Y t = Inr (svtJWT r))
           \<and> svt_accepted Y W (path_trusted P X E d S) (svtJWT r) \<and> svt_data_of Y (digests W) (xml_input sig) r"
  using scv.svt_data_sound[OF assms(1)] assms(2) unfolding xml_getSignatureSVTData_def by blast

lemma verifySVA_any_signature:
  assumes "\<And>j k. \<exists>b. jwsVerify X j k = Inr b"
  shows "verifySVA (X\<lparr>jwsVerify := \<lambda>_ _. Inr False\<rparr>) dm clk jwt k = verifySVA X dm clk jwt k"
proof -
  have v: "get_verifier (X\<lparr>jwsVerify := \<lambda>_ _. Inr False\<rparr>) k = get_verifier X k"
    by (cases k) (simp_all add: get_verifier_def)
  have h: "check_hash_algos (X\<lparr>jwsVerify := \<lambda>_ _. Inr False\<rparr>) dm jwt = check_hash_algos X dm jwt"
    by (simp add: check_hash_algos_def)
  obtain b where "jwsVerify X jwt k = Inr b" using assms by blast
  then have "sq (lift_sum (jwsVerify (X\<lparr>jwsVerify := \<lambda>_ _. Inr False\<rparr>) jwt k)) (ret ())
      = sq (lift_sum (jwsVerify X jwt k)) (ret ())"
    by (simp add: fun_eq_iff jrun_simps)
  then show ?thesis unfolding verifySVA_def v h by (rule arg_cong)
qed

lemma parse_chain_jwsVerify [simp]: "parse_chain (X\<lparr>jwsVerify := f\<rparr>) bs = parse_chain X bs"
proof (induction bs)
  case Nil
  show ?case by simp
next
  case (Cons b bs)
  have "getCertOrNull (X\<lparr>jwsVerify := f\<rparr>) b = getCertOrNull X b" by (simp add: getCertOrNull_def)
  with Cons show ?case by (simp split: sum.split)
qed

lemma toBase64Digest_jwsVerify [simp]: "toBase64Digest (X\<lparr>jwsVerify := f\<rparr>) = toBase64Digest X"
  by (simp add: toBase64Digest_def fun_eq_iff split: sum.split)

lemma digest_refs_jwsVerify [simp]: "digest_refs (X\<lparr>jwsVerify := f\<rparr>) = digest_refs X"
proof (intro ext)
  fix d and rs :: "(string \<times> bytes) list"
  show "digest_refs (X\<lparr>jwsVerify := f\<rparr>) d rs = digest_refs X d rs"
  proof (induction rs)
    case Nil
    show ?case by simp
  next
    case (Cons a rs)
    then show ?case by (cases a) (simp split: sum.split)
  qed
qed

lemma getAllJwtCerts_jwsVerify [simp]: "getAllJwtCerts (X\<lparr>jwsVerify := f\<rparr>) = getAllJwtCerts X"
proof -
  have m: "certMatchKeyId (X\<lparr>jwsVerify := f\<rparr>) = certMatchKeyId X"
    by (simp add: certMatchKeyId_def fun_eq_iff split: option.split)
  show ?thesis by (intro ext) (simp only: getAllJwtCerts_def m)
qed

lemma collectSignatureSVTData_jwsVerify [simp]:
  "collectSignatureSVTData (X\<lparr>jwsVerify := f\<rparr>) = collectSignatureSVTData X"
  by (intro ext) (simp only: collectSignatureSVTData_def toBase64Digest_jwsVerify digest_refs_jwsVerify)

lemma verify_tokens_any_signature:
  assumes "\<And>j k. \<exists>b. jwsVerify X j k = Inr b"
  shows "verify_tokens (X\<lparr>jwsVerify := \<lambda>_ _. Inr False\<rparr>) W ts = verify_tokens X W ts"
proof (induction ts)
  case Nil
  show ?case by simp
next
  case (Cons t ts)
  have "verifyJWT (X\<lparr>jwsVerify := \<lambda>_ _. Inr False\<rparr>) W jwt = verifyJWT X W jwt" for jwt
    by (simp add: verifyJWT_def getJWTCerts_def verifySVA_any_signature[OF assms] cong: option.case_cong)
  with Cons show ?case by simp
qed

text \<open>
  C35. Neither format's validator looks at the signature of a token: replacing the outcome of every
  signature verification by false changes nothing in what they return. Claims that anybody has written,
  together with the certificate of a trusted issuer, pass as a signature validation token.
\<close>

theorem svt_signature_not_checked:
  assumes "\<And>j k. \<exists>b. jwsVerify X j k = Inr b"
  shows "jose_getSignatureSVTData (X\<lparr>jwsVerify := \<lambda>_ _. Inr False\<rparr>) W s1 = jose_getSignatureSVTData X W s1
    \<and> xml_getSignatureSVTData (X\<lparr>jwsVerify := \<lambda>_ _. Inr False\<rparr>) W s2 = xml_getSignatureSVTData X W s2"
proof -
  have "getSignatureSVTData (X\<lparr>jwsVerify := \<lambda>_ _. Inr False\<rparr>) W ts sig = getSignatureSVTData X W ts sig" for ts sig
    by (simp add: getSignatureSVTData_def verify_tokens_any_signature[OF assms])
  then show ?thesis by (simp add: jose_getSignatureSVTData_def xml_getSignatureSVTData_def)
qed

subsection \<open>Witnesses\<close>

definition svt_demo_jwt :: signed_jwt where
  "svt_demo_jwt = demo_jwt (Some 5) PASSED"

definition svt_demo_env :: "bool \<Rightarrow> svt_env" where
  "svt_demo_env good = (demo_svt False good)\<lparr>parseJWT := (\<lambda>_. Inr svt_demo_jwt), base64 := (\<lambda>_. ''s'')\<rparr>"

definition demo_sha256 :: DigestAlgorithm where
  "demo_sha256 = \<lparr>uri = ''http://www.w3.org/2001/04/xmlenc#sha256'', oid = ''2.16.840.1.101.3.4.2.1''\<rparr>"

definition demo_config :: validator_config where
  "demo_config = \<lparr>cfgCertStore = None, defaultTrustAnchors = [demo_named ''A'' 1]\<rparr>"

definition demo_w :: "file_cache svt_validator" where
  "demo_w = \<lparr>supportingCertificates = [],
     certVerifier = status_checking_validator demo_path_env (demo_ocsp (\<lambda>_. demo_basic None [])) good_env 0 demo_config,
     digests = [(''http://www.w3.org/2001/04/xmlenc#sha256'', demo_sha256)], svtClock = (\<lambda>_. 0)\<rparr>"

definition demo_jose :: jose_signature where
  "demo_jose = \<lparr>isDetached = False, headerBase64 = ''h'', payloadBase64 = ''p'', payloadBytes = [1], joseSignatureBytes = [2],
     svtHeader = Some (Some (SvtList [JOther, JString ''tok''])), joseCertChain = []\<rparr>"

definition demo_xml :: xml_signature where
  "demo_xml = \<lparr>xmlSignatureId = Some ''id'', sigObjects = [XmlUnreadable, XmlObject [''tok'']], refDataMap = [(''#x'', [1])],
     xmlSignatureBytes = [2], signedInfoBytes = [3], xmlCertChain = []\<rparr>"

lemmas svt_run_simps =
  svt_demo_env_def svt_demo_jwt_def demo_w_def demo_jose_def demo_xml_def demo_jwt_def demo_svt_def demo_sha256_def demo_config_def
  jose_getSignatureSVTData_def xml_getSignatureSVTData_def getSignatureSVTData_def jose_getSignatureSvaTokens_def
  xml_getSignatureSvaTokens_def jose_input_def xml_input_def verifyJWT_def getJWTCerts_def getAllJwtCerts_def getCertOrNull_def
  verifySVA_def check_expiry_def get_verifier_def check_hash_algos_def digest_get_def getSVTClaims_def
  getMostRecentJwt_def collectSignatureSVTData_def toBase64Digest_def status_checking_validator_def svt_validate_def
  validate_def validatePath_def validateCertificatePath_single_def prepare_def trusted_directly_def rethrow_unchecked_def
  demo_path_env_def demo_named_def List.map_filter_def Let_def

theorem json_svt_sound_witness:
  "\<exists>r s'. jose_getSignatureSVTData (svt_demo_env True) demo_w demo_jose file_empty = (Inr [r], s')
     \<and> svt_data_of (svt_demo_env True) (digests demo_w) (jose_input demo_jose) r"
proof -
  obtain ds s' where run: "jose_getSignatureSVTData (svt_demo_env True) demo_w demo_jose file_empty = (Inr ds, s')"
    by (auto simp: svt_run_simps jrun_simps simp del: cert_checkValidity.simps)
  have "certVerifier demo_w = status_checking_validator demo_path_env (demo_ocsp (\<lambda>_. demo_basic None [])) good_env 0 demo_config"
    by (simp add: demo_w_def)
  from json_svt_sound[OF this run] run show ?thesis by auto
qed

theorem xml_svt_sound_witness:
  "\<exists>r s'. xml_getSignatureSVTData (svt_demo_env True) demo_w demo_xml file_empty = (Inr [r], s')
     \<and> svt_data_of (svt_demo_env True) (digests demo_w) (xml_input demo_xml) r"
proof -
  obtain ds s' where run: "xml_getSignatureSVTData (svt_demo_env True) demo_w demo_xml file_empty = (Inr ds, s')"
    by (auto simp: svt_run_simps jrun_simps simp del: cert_checkValidity.simps)
  have "certVerifier demo_w = status_checking_validator demo_path_env (demo_ocsp (\<lambda>_. demo_basic None [])) good_env 0 demo_config"
    by (simp add: demo_w_def)
  from xml_svt_sound[OF this run] run show ?thesis by auto
qed

theorem svt_signature_not_checked_witness:
  "\<exists>r s'. jose_getSignatureSVTData ((svt_demo_env True)\<lparr>jwsVerify := \<lambda>_ _. Inr False\<rparr>) demo_w demo_jose file_empty = (Inr [r], s')"
proof -
  have "\<exists>b. jwsVerify (svt_demo_env True) j k = Inr b" for j k by (auto simp: svt_demo_env_def demo_svt_def)
  note eq = conjunct1[OF svt_signature_not_checked[OF this, where W = demo_w and ?s1.0 = demo_jose]]
  have "\<exists>r s'. jose_getSignatureSVTData (svt_demo_env True) demo_w demo_jose file_empty = (Inr [r], s')"
    by (auto simp: svt_run_simps jrun_simps simp del: cert_checkValidity.simps)
  then show ?thesis unfolding eq .
qed

end
