(* ===== verification/Time_Stamp.thy ===== *)
theory Time_Stamp
  imports Path_Validation SVA_Utils
begin

text \<open>
  Time stamps (\<open>TimeStamp\<close>), what they are read with (\<open>GeneralCMSUtils\<close>, the CMS part of \<open>SVAUtils\<close>) and the policy that
  accepts them (\<open>BasicTimstampPolicyVerifier\<close>). The CMS and ASN.1 objects of the cryptographic library are parameters; what
  the code takes from them, and what it does when it throws, is the model. The theorem is what a verified time stamp
  stands for: a token whose signature was validated, an imprint of the data that was stamped under a digest that is
  not black listed, and a signer that the certificate validator accepted.
\<close>

subsection \<open>Throwables and results\<close>

text \<open>\<open>path_error\<close> is the type of what a certificate validator throws; it also stands for an \<open>Exception\<close> that is kept as a value.\<close>

fun throwable_message :: "path_error \<Rightarrow> string option" where
  "throwable_message (ExtendedEx x) = getMessage (cause x)"
| "throwable_message (BuilderEx e) = getMessage e"
| "throwable_message (Unchecked e) = getMessage e"

fun catchable :: "path_error \<Rightarrow> bool" where
  "catchable (Unchecked e) = is_exception e"
| "catchable _ = True"

text \<open>A nullable string in a concatenation or behind \<open>%s\<close>.\<close>

definition text_of :: "string option \<Rightarrow> string" where
  "text_of m = (case m of None \<Rightarrow> ''null'' | Some t \<Rightarrow> t)"

text \<open>A \<open>CertificateValidationResult\<close>: the one of this library, or another implementation.\<close>

datatype cert_validation = PathResult path_result | OtherResult "cert list option"

fun getValidatedCertificatePath :: "cert_validation \<Rightarrow> cert list option" where
  "getValidatedCertificatePath (PathResult r) = validatedCertificatePath r"
| "getValidatedCertificatePath (OtherResult p) = p"

type_synonym 'a cert_validator = "cert option \<Rightarrow> cert list option \<Rightarrow> crl list option \<Rightarrow> ('a world_scheme, path_error, cert_validation option) jm"

subsection \<open>CMS objects\<close>

record tst_info =
  imprintAlgorithm :: string
  hashedMessage :: bytes
  genTime :: "exn + date"
  tstSerial :: int

record signed_content =
  encapContentType :: string
  encapContent :: "exn + bytes"

record content_info =
  contentType :: string
  signedData :: "exn + signed_content option"

record cms_parser =
  cmsCertificates :: "bytes list"
  signerIds :: "nat list"
  cmsMatches :: "nat \<Rightarrow> bytes list"

text \<open>
  The library: the parser of signed data, the certificate factory, the readers of a content info and of the time stamp
  information (nothing at the end of the input), the validation of the token against the certificate, the digests, and
  the registry of digest algorithms with the order in which its keys are traversed.
\<close>

record ts_env =
  newCMSParser :: "bytes \<Rightarrow> bytes \<Rightarrow> exn + cms_parser"
  generateCertificate :: "bytes \<Rightarrow> exn + cert"
  readContentInfo :: "bytes \<Rightarrow> exn + content_info option"
  readTSTInfo :: "bytes \<Rightarrow> exn + tst_info option"
  validateToken :: "cert \<Rightarrow> bytes \<Rightarrow> exn option"
  getDigest :: "DigestAlgorithm \<Rightarrow> exn + (bytes \<Rightarrow> bytes)"
  digestRegistry :: digest_map
  keyOrder :: "string list \<Rightarrow> string list"

abbreviation oid_signedData :: string where
  "oid_signedData \<equiv> ''1.2.840.113549.1.7.2''"

abbreviation oid_ct_TSTInfo :: string where
  "oid_ct_TSTInfo \<equiv> ''1.2.840.113549.1.9.16.1.4''"

subsection \<open>GeneralCMSUtils and SVAUtils\<close>

definition getCMSSignedDataParser :: "'x ts_env_scheme \<Rightarrow> bytes \<Rightarrow> bytes option \<Rightarrow> exn + cms_parser" where
  "getCMSSignedDataParser T cmsContentInfo signedDocBytes =
     (case signedDocBytes of None \<Rightarrow> Inl npe | Some bs \<Rightarrow> newCMSParser T cmsContentInfo bs)"

fun all_certificates :: "'x ts_env_scheme \<Rightarrow> bytes list \<Rightarrow> exn + cert list" where
  "all_certificates T [] = Inr []"
| "all_certificates T (b # bs) =
     (case generateCertificate T b of
        Inl e \<Rightarrow> Inl e
      | Inr c \<Rightarrow> (case all_certificates T bs of Inl e \<Rightarrow> Inl e | Inr cs \<Rightarrow> Inr (c # cs)))"

definition extractCertificates :: "'x ts_env_scheme \<Rightarrow> cms_parser \<Rightarrow> exn + (cert \<times> cert list)" where
  "extractCertificates T p =
     (case all_certificates T (cmsCertificates p) of
        Inl e \<Rightarrow> Inl e
      | Inr certs \<Rightarrow>
     (case signerIds p of
        [] \<Rightarrow> Inl (Exn NoSuchElementException None)
      | sid # _ \<Rightarrow>
     (case cmsMatches p sid of
        [] \<Rightarrow> Inl (Exn NoSuchElementException None)
      | b # _ \<Rightarrow> (case generateCertificate T b of Inl e \<Rightarrow> Inl e | Inr c \<Rightarrow> Inr (c, certs)))))"

definition getSignedDataFromSignature :: "'x ts_env_scheme \<Rightarrow> bytes \<Rightarrow> exn + signed_content option" where
  "getSignedDataFromSignature T sigBytes =
     (case readContentInfo T sigBytes of
        Inl e \<Rightarrow> Inl e
      | Inr None \<Rightarrow> Inl npe
      | Inr (Some ci) \<Rightarrow>
          if contentType ci \<noteq> oid_signedData
          then Inl (Exn IOException (Some ''Illegal content for PDF signature. Must contain SignedData''))
          else signedData ci)"

definition tst_info_of :: "'x ts_env_scheme \<Rightarrow> bytes \<Rightarrow> exn + tst_info option" where
  "tst_info_of T sigBytes =
     (case getSignedDataFromSignature T sigBytes of
        Inl e \<Rightarrow> Inl e
      | Inr None \<Rightarrow> Inl npe
      | Inr (Some sd) \<Rightarrow>
          if encapContentType sd \<noteq> oid_ct_TSTInfo then Inl (Exn IOException (Some ''No timestamp available''))
          else (case encapContent sd of Inl e \<Rightarrow> Inl e | Inr octs \<Rightarrow> readTSTInfo T octs))"

definition getCmsSigTSTInfo :: "'x ts_env_scheme \<Rightarrow> bytes \<Rightarrow> exn + tst_info option" where
  "getCmsSigTSTInfo T sigBytes =
     (case tst_info_of T sigBytes of
        Inl e \<Rightarrow> Inl (if is_exception e then Exn IOException (Some ''Unable to parse TSTInfo data'') else e)
      | Inr i \<Rightarrow> Inr i)"

subsection \<open>TimeStamp\<close>

record ts_policy_result =
  policyValidationClaims :: "policy_claims option"
  tsCertValidation :: "cert_validation option"
  validTimestamp :: bool
  tsPolicyException :: "path_error option"

type_synonym 'a ts_policy_verifier =
  "bytes \<Rightarrow> tst_info option \<Rightarrow> cert \<Rightarrow> cert list \<Rightarrow> ('a world_scheme, exn, ts_policy_result option) jm"

record time_stamp =
  timeStampSigBytes :: bytes
  timestampedData :: "bytes option"
  sigValid :: bool
  tsCertList :: "cert list option"
  tsSigCert :: "cert option"
  tstInfo :: "tst_info option"
  policyValidationClaimsList :: "policy_claims option list"
  tsCertificateValidationResult :: "cert_validation option"
  tsException :: "path_error option"

definition verifyTsMessageImprint :: "'x ts_env_scheme \<Rightarrow> time_stamp \<Rightarrow> exn + unit" where
  "verifyTsMessageImprint T ts =
     (case tstInfo ts of
        None \<Rightarrow> Inl npe
      | Some i \<Rightarrow>
     (case digest_get_oid (keyOrder T) (digestRegistry T) (Some (imprintAlgorithm i)) of
        Inl e \<Rightarrow> Inl e
      | Inr alg \<Rightarrow>
     (case getDigest T alg of
        Inl e \<Rightarrow> Inl e
      | Inr md \<Rightarrow>
     (case timestampedData ts of
        None \<Rightarrow> Inl npe
      | Some bs \<Rightarrow>
          if md bs = hashedMessage i then Inr ()
          else Inl (Exn RuntimeException (Some ''Time stamp message imprint does not match timestamped data''))))))"

definition init_failed :: "exn \<Rightarrow> time_stamp \<Rightarrow> ('s, exn, time_stamp) jm" where
  "init_failed e ts = (if is_exception e then ret (ts\<lparr>tsException := Some (Unchecked e), sigValid := False\<rparr>) else throw e)"

definition init :: "'x ts_env_scheme \<Rightarrow> 'a ts_policy_verifier \<Rightarrow> time_stamp \<Rightarrow> ('a world_scheme, exn, time_stamp) jm" where
  "init T V ts =
     (case getCMSSignedDataParser T (timeStampSigBytes ts) (timestampedData ts) of
        Inl e \<Rightarrow> init_failed e ts
      | Inr p \<Rightarrow>
     (case extractCertificates T p of
        Inl e \<Rightarrow> init_failed e ts
      | Inr (sc, certs) \<Rightarrow>
        (let ts1 = ts\<lparr>tsSigCert := Some sc, tsCertList := Some certs\<rparr> in
         case getCmsSigTSTInfo T (timeStampSigBytes ts) of
           Inl e \<Rightarrow> init_failed e ts1
         | Inr info \<Rightarrow>
        (let ts2 = ts1\<lparr>tstInfo := info\<rparr> in
         case validateToken T sc (timeStampSigBytes ts) of
           Some e \<Rightarrow> init_failed e ts2
         | None \<Rightarrow>
        (case verifyTsMessageImprint T ts2 of
           Inl e \<Rightarrow> init_failed e ts2
         | Inr _ \<Rightarrow>
        (let ts3 = ts2\<lparr>sigValid := True\<rparr> in
         bnd (attempt (V (timeStampSigBytes ts) info sc certs)) (\<lambda>r.
         case r of
           Inl e \<Rightarrow> init_failed e ts3
         | Inr None \<Rightarrow> init_failed npe ts3
         | Inr (Some pr) \<Rightarrow>
             ret (ts3\<lparr>policyValidationClaimsList := policyValidationClaimsList ts3 @ [policyValidationClaims pr],
                      tsCertificateValidationResult := tsCertValidation pr, tsException := tsPolicyException pr,
                      sigValid := validTimestamp pr\<rparr>))))))))"

definition new_TimeStamp ::
  "'x ts_env_scheme \<Rightarrow> 'a ts_policy_verifier \<Rightarrow> bytes \<Rightarrow> bytes option \<Rightarrow> ('a world_scheme, exn, time_stamp) jm" where
  "new_TimeStamp T V sigBytes data =
     init T V \<lparr>timeStampSigBytes = sigBytes, timestampedData = data, sigValid = False, tsCertList = None, tsSigCert = None,
        tstInfo = None, policyValidationClaimsList = [], tsCertificateValidationResult = None, tsException = None\<rparr>"

text \<open>The loop visits every claim, so one without a result raises.\<close>

fun some_passed :: "policy_claims option list \<Rightarrow> exn + bool" where
  "some_passed [] = Inr False"
| "some_passed (None # cs) = Inl npe"
| "some_passed (Some c # cs) =
     (case res c of
        None \<Rightarrow> Inl npe
      | Some r \<Rightarrow> (case some_passed cs of Inl e \<Rightarrow> Inl e | Inr b \<Rightarrow> Inr (r = PASSED \<or> b)))"

definition hasVerifiedTimestamp :: "time_stamp \<Rightarrow> exn + bool" where
  "hasVerifiedTimestamp ts =
     (let claims = policyValidationClaimsList ts in
      case some_passed claims of Inl e \<Rightarrow> Inl e | Inr b \<Rightarrow> Inr (sigValid ts \<and> (claims = [] \<or> b)))"

subsection \<open>BasicTimstampPolicyVerifier\<close>

record ts_policy =
  tsPolicy :: string
  hashBlackList :: "string list"

definition blacklisted :: "'x ts_env_scheme \<Rightarrow> ts_policy \<Rightarrow> tst_info option \<Rightarrow> exn + string option" where
  "blacklisted T K info =
     (case info of
        None \<Rightarrow> Inl npe
      | Some i \<Rightarrow>
     (case digest_get_oid (keyOrder T) (digestRegistry T) (Some (imprintAlgorithm i)) of
        Inl e \<Rightarrow> Inl e
      | Inr alg \<Rightarrow> Inr (if filter (equalsIgnoreCase (uri alg)) (hashBlackList K) \<noteq> [] then Some (uri alg) else None)))"

definition verifyTsPolicy ::
  "'x ts_env_scheme \<Rightarrow> ts_policy \<Rightarrow> 'a cert_validator \<Rightarrow> 'a ts_policy_verifier" where
  "verifyTsPolicy T K certificateChainVerifier pdfSigBytes info sc certs =
     (let failed = (\<lambda>m. Some \<lparr>pol = tsPolicy K, res = Some FAILED, msg = Some m\<rparr>) in
      case blacklisted T K info of
        Inl e \<Rightarrow>
          if is_exception e
          then ret (Some \<lparr>policyValidationClaims = failed ''Error parsing Time Stamp digest algorithm'',
                     tsCertValidation = Some (OtherResult (Some [])), validTimestamp = False, tsPolicyException = Some (Unchecked e)\<rparr>)
          else throw e
      | Inr (Some u) \<Rightarrow>
          ret (Some \<lparr>policyValidationClaims = failed (''Using blacklisted hash algorithm for Time Stamp: '' @ u),
                     tsCertValidation = Some (PathResult empty_result), validTimestamp = False, tsPolicyException = None\<rparr>)
      | Inr None \<Rightarrow>
          (\<lambda>s. case certificateChainVerifier (Some sc) (Some certs) None s of
             (Inr v, s') \<Rightarrow>
               (Inr (Some \<lparr>policyValidationClaims = Some \<lparr>pol = tsPolicy K, res = Some PASSED, msg = None\<rparr>,
                           tsCertValidation = v, validTimestamp = True, tsPolicyException = None\<rparr>), s')
           | (Inl x, s') \<Rightarrow>
               (case x of
                  ExtendedEx y \<Rightarrow>
                    (Inr (Some \<lparr>policyValidationClaims = failed ''Time Stamp signing certificate is not trusted'',
                                tsCertValidation = Some (PathResult (pathValidationResult y)), validTimestamp = False,
                                tsPolicyException = Some x\<rparr>), s')
                | Unchecked e \<Rightarrow>
                    if is_exception e
                    then (Inr (Some \<lparr>policyValidationClaims = failed ''Time Stamp signing certificate is not trusted'',
                                     tsCertValidation = Some (OtherResult (Some [])), validTimestamp = False,
                                     tsPolicyException = Some x\<rparr>), s')
                    else (Inl e, s')
                | BuilderEx e \<Rightarrow>
                    (Inr (Some \<lparr>policyValidationClaims = failed ''Time Stamp signing certificate is not trusted'',
                                tsCertValidation = Some (OtherResult (Some [])), validTimestamp = False,
                                tsPolicyException = Some x\<rparr>), s'))))"

subsection \<open>What a verified time stamp stands for\<close>

lemma imprint_Inr:
  assumes "verifyTsMessageImprint T ts = Inr u"
  obtains i alg md bs where "tstInfo ts = Some i" "timestampedData ts = Some bs"
    "digest_get_oid (keyOrder T) (digestRegistry T) (Some (imprintAlgorithm i)) = Inr alg" "getDigest T alg = Inr md" "md bs = hashedMessage i"
  using assms by (auto simp: verifyTsMessageImprint_def split: option.splits sum.splits if_splits)

lemma verifyTsPolicy_valid:
  assumes "verifyTsPolicy T K validator sb info sc certs s = (Inr (Some pr), s')" "validTimestamp pr"
  shows "blacklisted T K info = Inr None \<and> validator (Some sc) (Some certs) None s = (Inr (tsCertValidation pr), s')
    \<and> policyValidationClaims pr = Some \<lparr>pol = tsPolicy K, res = Some PASSED, msg = None\<rparr>"
  using assms
  by (auto simp: verifyTsPolicy_def jrun_simps Let_def split: sum.splits option.splits prod.splits path_error.splits if_splits)

lemma init_failed_invalid: "init_failed e ts s = (Inr ts', s') \<Longrightarrow> \<not> sigValid ts'"
  by (auto simp: init_failed_def jrun_simps split: if_splits)

lemma init_valid_cases:
  assumes "init T V ts s = (Inr ts', s')" "sigValid ts'"
  obtains sc certs info pr where "validateToken T sc (timeStampSigBytes ts) = None"
    "verifyTsMessageImprint T (ts\<lparr>tsSigCert := Some sc, tsCertList := Some certs, tstInfo := info\<rparr>) = Inr ()"
    "V (timeStampSigBytes ts) info sc certs s = (Inr (Some pr), s')" "validTimestamp pr"
    "ts' = ts\<lparr>tsSigCert := Some sc, tsCertList := Some certs, tstInfo := info,
       policyValidationClaimsList := policyValidationClaimsList ts @ [policyValidationClaims pr],
       tsCertificateValidationResult := tsCertValidation pr, tsException := tsPolicyException pr, sigValid := True\<rparr>"
  using assms
  by (auto simp: init_def jrun_simps Let_def split: sum.splits option.splits prod.splits if_splits dest: init_failed_invalid)

lemma new_TimeStamp_valid:
  assumes "new_TimeStamp T V sigBytes data s = (Inr ts, s')" "sigValid ts"
  shows "\<exists>sc certs info pr. validateToken T sc sigBytes = None
    \<and> verifyTsMessageImprint T \<lparr>timeStampSigBytes = sigBytes, timestampedData = data, sigValid = False, tsCertList = Some certs,
        tsSigCert = Some sc, tstInfo = info, policyValidationClaimsList = [], tsCertificateValidationResult = None, tsException = None\<rparr> = Inr ()
    \<and> V sigBytes info sc certs s = (Inr (Some pr), s') \<and> validTimestamp pr
    \<and> tsSigCert ts = Some sc \<and> tstInfo ts = info \<and> tsCertificateValidationResult ts = tsCertValidation pr
    \<and> policyValidationClaimsList ts = [policyValidationClaims pr]"
  by (rule init_valid_cases[OF assms(1)[unfolded new_TimeStamp_def] assms(2)]) (simp, blast)

text \<open>
  C8. A time stamp that counts as verified under the basic policy has a token whose signature was validated with the signer's
  certificate, an imprint that is the digest of the stamped data under a registered algorithm that is not black listed,
  and a signer that the certificate validator accepted.
\<close>

theorem verified_timestamp_sound:
  assumes "new_TimeStamp T (verifyTsPolicy T K validator) sigBytes data s = (Inr ts, s')" "hasVerifiedTimestamp ts = Inr True"
  shows "\<exists>sc certs i bs alg md.
     tsSigCert ts = Some sc \<and> tstInfo ts = Some i \<and> data = Some bs
   \<and> validateToken T sc sigBytes = None
   \<and> digest_get_oid (keyOrder T) (digestRegistry T) (Some (imprintAlgorithm i)) = Inr alg \<and> getDigest T alg = Inr md \<and> md bs = hashedMessage i
   \<and> (\<forall>b \<in> set (hashBlackList K). \<not> equalsIgnoreCase (uri alg) b)
   \<and> validator (Some sc) (Some certs) None s = (Inr (tsCertificateValidationResult ts), s')"
proof -
  have "sigValid ts" using assms(2) by (auto simp: hasVerifiedTimestamp_def Let_def split: sum.splits)
  from new_TimeStamp_valid[OF assms(1) this] obtain sc certs info pr where
    tok: "validateToken T sc sigBytes = None" and imprint: "verifyTsMessageImprint T \<lparr>timeStampSigBytes = sigBytes,
        timestampedData = data, sigValid = False, tsCertList = Some certs, tsSigCert = Some sc, tstInfo = info,
        policyValidationClaimsList = [], tsCertificateValidationResult = None, tsException = None\<rparr> = Inr ()"
    and run: "verifyTsPolicy T K validator sigBytes info sc certs s = (Inr (Some pr), s')" "validTimestamp pr"
    and ts: "tsSigCert ts = Some sc" "tstInfo ts = info" "tsCertificateValidationResult ts = tsCertValidation pr"
    by blast
  from imprint obtain i alg md bs where i: "info = Some i" "data = Some bs"
      "digest_get_oid (keyOrder T) (digestRegistry T) (Some (imprintAlgorithm i)) = Inr alg" "getDigest T alg = Inr md" "md bs = hashedMessage i"
    by (rule imprint_Inr) simp
  note acc = verifyTsPolicy_valid[OF run]
  have "\<forall>b \<in> set (hashBlackList K). \<not> equalsIgnoreCase (uri alg) b"
    using acc i by (auto simp: blacklisted_def filter_empty_conv split: if_splits)
  with tok i acc ts show ?thesis by auto
qed

subsection \<open>A time stamp\<close>

definition stamp_cert :: cert where
  "stamp_cert = demo_named ''TSA'' 1"

definition stamp_info :: tst_info where
  "stamp_info = \<lparr>imprintAlgorithm = ''2.16.840.1.101.3.4.2.1'', hashedMessage = [2, 1], genTime = Inr 5000, tstSerial = 255\<rparr>"

definition stamp_env :: ts_env where
  "stamp_env = \<lparr>newCMSParser = (\<lambda>a b. Inr \<lparr>cmsCertificates = [[1]], signerIds = [0], cmsMatches = (\<lambda>n. [[1]])\<rparr>),
     generateCertificate = (\<lambda>b. Inr stamp_cert),
     readContentInfo = (\<lambda>b. Inr (Some \<lparr>contentType = oid_signedData,
        signedData = Inr (Some \<lparr>encapContentType = oid_ct_TSTInfo, encapContent = Inr [7]\<rparr>)\<rparr>)),
     readTSTInfo = (\<lambda>b. Inr (Some stamp_info)), validateToken = (\<lambda>c b. None), getDigest = (\<lambda>a. Inr rev),
     digestRegistry = [(''sha256'', \<lparr>uri = ''sha256'', oid = ''2.16.840.1.101.3.4.2.1''\<rparr>)], keyOrder = id\<rparr>"

definition stamp_policy :: ts_policy where
  "stamp_policy = \<lparr>tsPolicy = ''p'', hashBlackList = [''sha1'']\<rparr>"

definition accept_all :: "unit cert_validator" where
  "accept_all sc supporting crls = ret (Some (OtherResult (map_option (\<lambda>c. [c]) sc)))"

definition stamp_made :: time_stamp where
  "stamp_made = \<lparr>timeStampSigBytes = [9], timestampedData = Some [1, 2], sigValid = True, tsCertList = Some [stamp_cert],
     tsSigCert = Some stamp_cert, tstInfo = Some stamp_info,
     policyValidationClaimsList = [Some \<lparr>pol = ''p'', res = Some PASSED, msg = None\<rparr>],
     tsCertificateValidationResult = Some (OtherResult (Some [stamp_cert])), tsException = None\<rparr>"

lemma stamp_lookup: "digest_get_oid id [(''sha256'', \<lparr>uri = ''sha256'', oid = ''2.16.840.1.101.3.4.2.1''\<rparr>)] (Some ''2.16.840.1.101.3.4.2.1'')
    = Inr \<lparr>uri = ''sha256'', oid = ''2.16.840.1.101.3.4.2.1''\<rparr>"
  by code_simp

lemma stamp_not_listed: "\<not> equalsIgnoreCase ''sha256'' ''sha1''"
  by code_simp

lemma stamp_run: "new_TimeStamp stamp_env (verifyTsPolicy stamp_env stamp_policy accept_all) [9] (Some [1, 2]) s = (Inr stamp_made, s)"
  by (simp add: new_TimeStamp_def init_def getCMSSignedDataParser_def extractCertificates_def getCmsSigTSTInfo_def tst_info_of_def
      getSignedDataFromSignature_def verifyTsMessageImprint_def verifyTsPolicy_def blacklisted_def stamp_env_def stamp_policy_def
      stamp_info_def accept_all_def stamp_made_def stamp_lookup stamp_not_listed jrun_simps Let_def)

lemma stamp_verified: "hasVerifiedTimestamp stamp_made = Inr True"
  by (simp add: hasVerifiedTimestamp_def stamp_made_def Let_def)

theorem verified_timestamp_sound_witness:
  "validateToken stamp_env stamp_cert [9] = None \<and> rev [1, 2] = hashedMessage stamp_info
   \<and> (\<exists>s' certs. accept_all (Some stamp_cert) (Some certs) None \<lparr>tick = 0\<rparr> = (Inr (tsCertificateValidationResult stamp_made), s'))"
  using verified_timestamp_sound[OF stamp_run[of "\<lparr>tick = 0\<rparr>"] stamp_verified]
  by (auto simp: stamp_made_def stamp_info_def stamp_env_def stamp_lookup)

end
