(* ===== verification/PDF_Objects.thy ===== *)
theory PDF_Objects
  imports JavaBase
begin

text \<open>
  PDF objects as the signature context reads them: \<open>ObjectValue\<close>, \<open>Dictionary\<close>, \<open>ObjectArray\<close> and \<open>AcroForm\<close>
  of \<open>sigval-pdf/.../pdfstruct\<close>. The PDF library gives the direct objects of a document as trees (\<open>cos\<close>);
  a reference to an indirect object is a leaf with the object's key, resolved through the document.
  A dictionary is the list of its entries in the order of the library's map.
\<close>

type_synonym cos_key = "int \<times> int"

datatype cos =
    CosString string
  | CosArray "cos list"
  | CosObject cos_key
  | CosName string
  | CosBoolean bool
  | CosInteger int
  | CosFloat string int
  | CosDictionary "(string \<times> cos) list"
  | CosOther

text \<open>A float is given by its text and the value of \<open>longValue()\<close>.\<close>

type_synonym cos_entries = "(string \<times> cos) list"

record pdf_doc =
  docTrailer :: "cos_entries option"
  docXref :: "(cos_key \<times> int) list"
  docObject :: "cos_key \<Rightarrow> cos option"

subsection \<open>Object values\<close>

datatype ObjectValueType =
    TObject | TDictionary | TName | TString | TArray | TOther | TError | TBoolean | TInteger | TNumber | TNull

text \<open>A type together with its value; \<open>Other\<close>, \<open>Error\<close> and \<open>Null\<close> have the value null.\<close>

datatype object_value =
    VObject int
  | VDictionary "(string \<times> object_value) list"
  | VName string
  | VString string
  | VArray "object_value list"
  | VOther
  | VError
  | VBoolean bool
  | VInteger int
  | VNumber int
  | VNull

fun getType :: "object_value \<Rightarrow> ObjectValueType" where
  "getType (VObject _) = TObject"
| "getType (VDictionary _) = TDictionary"
| "getType (VName _) = TName"
| "getType (VString _) = TString"
| "getType (VArray _) = TArray"
| "getType VOther = TOther"
| "getType VError = TError"
| "getType (VBoolean _) = TBoolean"
| "getType (VInteger _) = TInteger"
| "getType (VNumber _) = TNumber"
| "getType VNull = TNull"

text \<open>
  The constructor, for a value that is not null. The test for \<open>COSNumber\<close> comes last and holds
  for integers too, so no value has the type \<open>COSInteger\<close>.
\<close>

primrec object_value_of :: "cos \<Rightarrow> object_value" where
  "object_value_of (CosString s) = VString s"
| "object_value_of (CosArray xs) = VArray (map object_value_of xs)"
| "object_value_of (CosObject k) = VObject (fst k)"
| "object_value_of (CosName s) = VName s"
| "object_value_of (CosBoolean b) = VBoolean b"
| "object_value_of (CosInteger i) = VNumber i"
| "object_value_of (CosFloat t i) = VNumber i"
| "object_value_of (CosDictionary es) = VDictionary (map (map_prod (\<lambda>k. k) object_value_of) es)"
| "object_value_of CosOther = VOther"

definition ObjectValue :: "cos option \<Rightarrow> object_value" where
  "ObjectValue v = (case v of None \<Rightarrow> VNull | Some c \<Rightarrow> object_value_of c)"

text \<open>The map of values of a dictionary.\<close>

definition dict_values :: "cos_entries \<Rightarrow> (string \<times> object_value) list" where
  "dict_values es = map (map_prod (\<lambda>k. k) object_value_of) es"

subsection \<open>Comparing values\<close>

text \<open>
  \<open>ObjectArray.matches\<close> and \<open>Dictionary.matches\<close>, given the comparison of the elements: the functions are
  applied to the matching element, or not at all when there is none.
\<close>

fun array_matches :: "(object_value \<Rightarrow> bool) list \<Rightarrow> object_value list \<Rightarrow> bool" where
  "array_matches [] [] = True"
| "array_matches (f # fs) (w # ws) = (f w \<and> array_matches fs ws)"
| "array_matches _ _ = False"

definition dict_matches :: "(string \<times> (object_value \<Rightarrow> bool)) list \<Rightarrow> (string \<times> object_value) list \<Rightarrow> bool" where
  "dict_matches fs ws \<longleftrightarrow>
     length fs = length ws \<and> list_all (\<lambda>(k, f). case map_of ws k of None \<Rightarrow> False | Some w \<Rightarrow> f w) fs"

primrec obj_matches :: "object_value \<Rightarrow> object_value \<Rightarrow> bool" where
  "obj_matches (VObject i) = (\<lambda>w. case w of VObject j \<Rightarrow> i = j | _ \<Rightarrow> False)"
| "obj_matches (VDictionary es) =
     (\<lambda>w. case w of VDictionary ws \<Rightarrow> dict_matches (map (map_prod (\<lambda>k. k) obj_matches) es) ws | _ \<Rightarrow> False)"
| "obj_matches (VName s) = (\<lambda>w. case w of VName t \<Rightarrow> equalsIgnoreCase s t | _ \<Rightarrow> False)"
| "obj_matches (VString s) = (\<lambda>w. case w of VString t \<Rightarrow> equalsIgnoreCase s t | _ \<Rightarrow> False)"
| "obj_matches (VArray vs) = (\<lambda>w. case w of VArray ws \<Rightarrow> array_matches (map obj_matches vs) ws | _ \<Rightarrow> False)"
| "obj_matches VOther = (\<lambda>w. w = VOther)"
| "obj_matches VError = (\<lambda>w. False)"
| "obj_matches (VBoolean b) = (\<lambda>w. case w of VBoolean c \<Rightarrow> b = c | _ \<Rightarrow> False)"
| "obj_matches (VInteger i) = (\<lambda>w. case w of VInteger j \<Rightarrow> i = j | _ \<Rightarrow> False)"
| "obj_matches (VNumber i) = (\<lambda>w. case w of VNumber j \<Rightarrow> i = j | _ \<Rightarrow> False)"
| "obj_matches VNull = (\<lambda>w. False)"

subsection \<open>Searching a dictionary\<close>

fun first_some :: "'a option list \<Rightarrow> 'a option" where
  "first_some [] = None"
| "first_some (None # xs) = first_some xs"
| "first_some (Some x # xs) = Some x"

text \<open>
  \<open>Dictionary.getValueByName\<close>: the entry of the name, or else the first one found in a nested dictionary,
  in the iteration order of the hash map. A value that is not a dictionary has no entries.
\<close>

primrec getValueByName :: "(string list \<Rightarrow> string list) \<Rightarrow> string \<Rightarrow> object_value \<Rightarrow> object_value option" where
  "getValueByName order name (VDictionary es) =
     (case map_of es name of
        Some v \<Rightarrow> Some v
      | None \<Rightarrow> first_some (List.map_filter (map_of (map (map_prod (\<lambda>k. k) (getValueByName order name)) es))
                  (order (map fst es))))"
| "getValueByName order name (VObject _) = None"
| "getValueByName order name (VName _) = None"
| "getValueByName order name (VString _) = None"
| "getValueByName order name (VArray _) = None"
| "getValueByName order name VOther = None"
| "getValueByName order name VError = None"
| "getValueByName order name (VBoolean _) = None"
| "getValueByName order name (VInteger _) = None"
| "getValueByName order name (VNumber _) = None"
| "getValueByName order name VNull = None"

subsection \<open>AcroForm\<close>

text \<open>The form's dictionary: direct, or the object of the document; absent where it is neither or the cast fails.\<close>

definition AcroForm :: "pdf_doc \<Rightarrow> cos \<Rightarrow> object_value option" where
  "AcroForm doc c =
     (case c of
        CosDictionary es \<Rightarrow> Some (object_value_of c)
      | CosObject k \<Rightarrow>
          (case docObject doc k of
             Some (CosDictionary es) \<Rightarrow> Some (VDictionary (dict_values es))
           | _ \<Rightarrow> None)
      | _ \<Rightarrow> None)"

text \<open>
  \<open>getObjectRef\<close>: a step whose value is not a dictionary leaves the search where it is. The result is
  the object number, or \<open>-1\<close>.
\<close>

fun ref_path ::
  "(string list \<Rightarrow> string list) \<Rightarrow> object_value option \<Rightarrow> object_value option \<Rightarrow> string list \<Rightarrow> object_value option" where
  "ref_path order dict prev [] = prev"
| "ref_path order dict prev (name # path) =
     (case dict of
        None \<Rightarrow> None
      | Some d \<Rightarrow>
          (case getValueByName order name d of
             None \<Rightarrow> None
           | Some v \<Rightarrow> ref_path order (if getType v = TDictionary then Some v else dict) (Some v) path))"

definition getObjectRef :: "(string list \<Rightarrow> string list) \<Rightarrow> object_value option \<Rightarrow> string list \<Rightarrow> int" where
  "getObjectRef order dict path =
     (case ref_path order dict None path of
        Some (VObject i) \<Rightarrow> i
      | _ \<Rightarrow> - 1)"

definition acroform_matches :: "object_value option \<Rightarrow> object_value option \<Rightarrow> bool" where
  "acroform_matches d e = (case (d, e) of (Some v, Some w) \<Rightarrow> obj_matches v w | _ \<Rightarrow> False)"

subsection \<open>What a comparison compares\<close>

text \<open>
  The canonical form of an object holds what the comparison looks at: strings and names without case,
  references by number, numbers by their integer part, dictionaries as maps.
\<close>

datatype cos_canon =
    NString string
  | NArray "cos_canon list"
  | NObject int
  | NName string
  | NBoolean bool
  | NNumber int
  | NDictionary "string \<rightharpoonup> cos_canon"
  | NOther

primrec canon :: "cos \<Rightarrow> cos_canon" where
  "canon (CosString s) = NString (toLowerCase s)"
| "canon (CosArray xs) = NArray (map canon xs)"
| "canon (CosObject k) = NObject (fst k)"
| "canon (CosName s) = NName (toLowerCase s)"
| "canon (CosBoolean b) = NBoolean b"
| "canon (CosInteger i) = NNumber i"
| "canon (CosFloat t i) = NNumber i"
| "canon (CosDictionary es) = NDictionary (map_of (map (map_prod (\<lambda>k. k) canon) es))"
| "canon CosOther = NOther"

text \<open>A dictionary has each key once, at every level.\<close>

primrec cos_wf :: "cos \<Rightarrow> bool" where
  "cos_wf (CosString s) = True"
| "cos_wf (CosArray xs) = list_all (\<lambda>b. b) (map cos_wf xs)"
| "cos_wf (CosObject k) = True"
| "cos_wf (CosName s) = True"
| "cos_wf (CosBoolean b) = True"
| "cos_wf (CosInteger i) = True"
| "cos_wf (CosFloat t i) = True"
| "cos_wf (CosDictionary es) = (distinct (map fst es) \<and> list_all snd (map (map_prod (\<lambda>k. k) cos_wf) es))"
| "cos_wf CosOther = True"

lemma cos_wf_Array: "cos_wf (CosArray xs) \<longleftrightarrow> (\<forall>x \<in> set xs. cos_wf x)"
  by (simp add: list_all_iff)

lemma cos_wf_Dictionary: "cos_wf (CosDictionary es) \<longleftrightarrow> distinct (map fst es) \<and> (\<forall>(k, x) \<in> set es. cos_wf x)"
  by (auto simp: list_all_iff)

lemma array_matches_all2: "array_matches (map f xs) (map h ys) = list_all2 (\<lambda>x y. f x (h y)) xs ys"
proof (induction xs arbitrary: ys)
  case Nil
  then show ?case by (cases ys) simp_all
next
  case (Cons x xs)
  then show ?case by (cases ys) simp_all
qed

lemma all2_map_eq:
  "(\<And>x y. x \<in> set xs \<Longrightarrow> y \<in> set ys \<Longrightarrow> P x y = (g x = g y)) \<Longrightarrow> list_all2 P xs ys = (map g xs = map g ys)"
proof (induction xs arbitrary: ys)
  case Nil
  then show ?case by (cases ys) simp_all
next
  case (Cons x xs)
  then show ?case by (cases ys) simp_all
qed

lemma map_of_map_prod: "map_of (map (map_prod (\<lambda>k. k) f) es) k = map_option f (map_of es k)"
  by (induction es) auto

text \<open>Two maps with the same number of keys are equal when one agrees with the other on its keys.\<close>

lemma map_of_agree:
  assumes "distinct (map fst es)" "distinct (map fst fs)"
  shows "(\<lambda>k. map_option g (map_of es k)) = (\<lambda>k. map_option g (map_of fs k)) \<longleftrightarrow>
    length es = length fs \<and> (\<forall>(k, v) \<in> set es. \<exists>w. map_of fs k = Some w \<and> g v = g w)"
    (is "?L = ?R \<longleftrightarrow> _ \<and> ?A")
proof -
  have card: "card (dom (map_of xs)) = length xs" if "distinct (map fst xs)" for xs :: "('a \<times> 'b) list"
    using that by (metis distinct_card dom_map_of_conv_image_fst length_map set_map)
  have doms: "dom ?L = dom (map_of es)" "dom ?R = dom (map_of fs)" by (auto simp: dom_def)
  show ?thesis
  proof (intro iffI conjI)
    assume eq: "?L = ?R"
    then show "length es = length fs" using card assms doms by metis
    show ?A
    proof clarify
      fix k v
      assume "(k, v) \<in> set es"
      then have "map_of es k = Some v" using assms(1) by simp
      with fun_cong[OF eq, of k] show "\<exists>w. map_of fs k = Some w \<and> g v = g w" by (auto simp: map_option_case split: option.splits)
    qed
  next
    assume R: "length es = length fs \<and> ?A"
    have "dom (map_of es) \<subseteq> dom (map_of fs)"
    proof
      fix k
      assume "k \<in> dom (map_of es)"
      then obtain v where "(k, v) \<in> set es" by (auto dest: map_of_SomeD)
      with R show "k \<in> dom (map_of fs)" by fastforce
    qed
    moreover have "card (dom (map_of es)) = card (dom (map_of fs))" using R card assms by simp
    ultimately have dom: "dom (map_of es) = dom (map_of fs)" by (metis card_subset_eq finite_dom_map_of)
    show "?L = ?R"
    proof
      fix k
      show "?L k = ?R k"
      proof (cases "map_of es k")
        case None
        then have "map_of fs k = None" using dom by (metis domIff)
        with None show ?thesis by simp
      next
        case (Some v)
        then have "(k, v) \<in> set es" by (rule map_of_SomeD)
        with R Some show ?thesis by fastforce
      qed
    qed
  qed
qed

lemma dict_matches_iff:
  "dict_matches (map (map_prod (\<lambda>k. k) f) es) (map (map_prod (\<lambda>k. k) h) fs) \<longleftrightarrow>
     length es = length fs \<and> (\<forall>(k, v) \<in> set es. \<exists>w. map_of fs k = Some w \<and> f v (h w))"
  by (fastforce simp: dict_matches_def list_all_iff map_of_map_prod split: option.splits)

lemma obj_matches_canon:
  "cos_wf c \<Longrightarrow> cos_wf d \<Longrightarrow> obj_matches (object_value_of c) (object_value_of d) \<longleftrightarrow> canon c = canon d"
proof (induction c arbitrary: d)
  case (CosArray xs)
  show ?case
  proof (cases d)
    case (CosArray ys)
    have "list_all2 (\<lambda>x y. obj_matches (object_value_of x) (object_value_of y)) xs ys = (map canon xs = map canon ys)"
      by (rule all2_map_eq) (use CosArray.IH CosArray.prems CosArray in \<open>auto simp: cos_wf_Array simp del: cos_wf.simps\<close>)
    then show ?thesis by (simp add: CosArray array_matches_all2 list_all2_map1)
  qed auto
next
  case (CosDictionary es)
  show ?case
  proof (cases d)
    case (CosDictionary fs)
    have wf: "distinct (map fst es)" "distinct (map fst fs)"
      using CosDictionary.prems CosDictionary by (simp_all del: cos_wf.simps add: cos_wf_Dictionary)
    have IH: "obj_matches (object_value_of v) (object_value_of w) \<longleftrightarrow> canon v = canon w"
      if "(k, v) \<in> set es" "map_of fs k = Some w" for k v w
      using CosDictionary.IH[OF that(1), of v w] CosDictionary.prems CosDictionary that map_of_SomeD[OF that(2)]
      by (auto simp del: cos_wf.simps simp add: cos_wf_Dictionary)
    have "canon (CosDictionary es) = canon (CosDictionary fs) \<longleftrightarrow>
        length es = length fs \<and> (\<forall>(k, v) \<in> set es. \<exists>w. map_of fs k = Some w \<and> canon v = canon w)"
      using map_of_agree[OF wf, of canon] by (simp add: map_of_map_prod[abs_def] fun_eq_iff map_of_map_prod)
    moreover have "obj_matches (object_value_of (CosDictionary es)) (object_value_of (CosDictionary fs)) \<longleftrightarrow>
        length es = length fs \<and> (\<forall>(k, v) \<in> set es. \<exists>w. map_of fs k = Some w \<and> obj_matches (object_value_of v) (object_value_of w))"
      using dict_matches_iff[of "\<lambda>v. obj_matches (object_value_of v)" es object_value_of fs]
      by (simp add: comp_def map_prod_def case_prod_unfold)
    ultimately show ?thesis unfolding CosDictionary using IH by fastforce
  qed auto
qed (auto simp: equalsIgnoreCase_def split: cos.splits; case_tac d; simp)+

end
