(* ===== verification/PDF_Context.thy ===== *)
theory PDF_Context
  imports PDF_Objects CertModel
begin

text \<open>
  The revisions of a PDF document and their effect on its signatures:
  \<open>DefaultPDFSignatureContext\<close>, \<open>DefaultPDFSignatureContextFactory\<close>, \<open>DefaultGeneralSafeObjects\<close> and
  \<open>StrictGeneralSafeObjects\<close> of \<open>sigval-pdf/.../pdfstruct/impl\<close>, with \<open>PDFDocRevision\<close>. Loading a document
  is an operation of the PDF library and a field of \<open>pdf_env\<close>; a number of bytes is a \<open>nat\<close>, the
  arithmetic on the byte range of a signature is that of \<open>int\<close>.
\<close>

record pd_signature =
  byteRange :: "exn + int list"
  subFilter :: "string option"

text \<open>\<open>signaturesOf\<close> loads the whole document, reads its signatures and closes it again.\<close>

record pdf_env =
  loadPDF :: "bytes \<Rightarrow> exn + pdf_doc"
  signaturesOf :: "bytes \<Rightarrow> exn + pd_signature list"
  hashOrder :: "string list \<Rightarrow> string list"

text \<open>A revision. The references are null and the collections empty until they are set.\<close>

record doc_revision =
  rev_length :: nat
  signature :: bool
  documentTimestamp :: bool
  validDSS :: bool
  safeUpdate :: bool
  rootObjectId :: int
  cosDocument :: "pdf_doc option"
  rootObject :: "cos_key option"
  trailer :: "cos_entries option"
  xrefTable :: "(cos_key \<times> int) list"
  changedXref :: "(cos_key \<times> (int \<times> int)) list"
  addedXref :: "(cos_key \<times> int) list"
  rootUpdate :: bool
  nonRootUpdate :: bool
  legalRootObject :: bool
  changedRootItems :: "string list"
  addedRootItems :: "string list"
  safeObjects :: "int list"

definition new_revision :: "nat \<Rightarrow> bool \<Rightarrow> bool \<Rightarrow> doc_revision" where
  "new_revision len sig ts =
     \<lparr>rev_length = len, signature = sig, documentTimestamp = ts, validDSS = False, safeUpdate = False, rootObjectId = 0,
      cosDocument = None, rootObject = None, trailer = None, xrefTable = [], changedXref = [], addedXref = [],
      rootUpdate = False, nonRootUpdate = False, legalRootObject = False, changedRootItems = [], addedRootItems = [],
      safeObjects = []\<rparr>"

text \<open>The copying constructor takes four fields; the document is not set at that time.\<close>

definition PDFDocRevision :: "doc_revision \<Rightarrow> doc_revision" where
  "PDFDocRevision r = (new_revision (rev_length r) (signature r) (documentTimestamp r))\<lparr>cosDocument := cosDocument r\<rparr>"

subsection \<open>Finding the revisions\<close>

definition occurs_at :: "'a list \<Rightarrow> 'a list \<Rightarrow> nat \<Rightarrow> bool" where
  "occurs_at pat s i \<longleftrightarrow> take (length pat) (drop i s) = pat"

fun search_down :: "'a list \<Rightarrow> 'a list \<Rightarrow> nat \<Rightarrow> nat option" where
  "search_down pat s 0 = (if occurs_at pat s 0 then Some 0 else None)"
| "search_down pat s (Suc i) = (if occurs_at pat s (Suc i) then Some (Suc i) else search_down pat s i)"

definition lastIndexOf :: "'a list \<Rightarrow> 'a list \<Rightarrow> nat option" where
  "lastIndexOf pat s = search_down pat s (length s)"

definition EOF :: bytes where
  "EOF = [0x25, 0x25, 0x45, 0x4F, 0x46]"

definition copyOf :: "bytes \<Rightarrow> nat \<Rightarrow> bytes" where
  "copyOf bs n = take n bs @ replicate (n - length bs) 0"

definition sig_length :: "pd_signature \<Rightarrow> exn + int" where
  "sig_length s =
     (case byteRange s of
        Inl e \<Rightarrow> Inl e
      | Inr r \<Rightarrow> if length r < 4 then Inl (Exn IndexOutOfBoundsException None) else Inr (jint (r ! 2 + r ! 3)))"

definition revision_end :: "bytes \<Rightarrow> nat \<Rightarrow> nat" where
  "revision_end pdf i =
     (let n = i + 5;
          firstNl = (if n < length pdf then pdf ! n else 0);
          secondNl = (if n + 1 < length pdf then pdf ! (n + 1) else 0)
      in if firstNl = 0x0a then n + 1 else if firstNl = 0x0d \<and> secondNl = 0x0a then n + 2 else n)"

fun sig_flags :: "nat \<Rightarrow> pd_signature list \<Rightarrow> bool \<times> bool \<Rightarrow> exn + bool \<times> bool" where
  "sig_flags len [] fl = Inr fl"
| "sig_flags len (s # ss) fl =
     (case sig_length s of
        Inl e \<Rightarrow> Inl e
      | Inr l \<Rightarrow> sig_flags len ss (if l = int len then (True, subFilter s = Some ''ETSI.RFC3161'') else fl))"

definition getRevision :: "bytes \<Rightarrow> pd_signature list \<Rightarrow> doc_revision option \<Rightarrow> exn + doc_revision option" where
  "getRevision pdf sigs prior =
     (let len = (case prior of None \<Rightarrow> int (length pdf) | Some r \<Rightarrow> int (rev_length r) - 5) in
      if len < 0 then Inl (Exn RuntimeException None)
      else
        (case lastIndexOf EOF (copyOf pdf (nat len)) of
           None \<Rightarrow> Inr None
         | Some i \<Rightarrow>
             (case sig_flags (revision_end pdf i) sigs (False, False) of
                Inl e \<Rightarrow> Inl e
              | Inr (s, t) \<Rightarrow> Inr (Some (new_revision (revision_end pdf i) s t)))))"

lemma search_down_Some: "search_down pat s n = Some i \<Longrightarrow> occurs_at pat s i \<and> i \<le> n \<and> (\<forall>j. i < j \<and> j \<le> n \<longrightarrow> \<not> occurs_at pat s j)"
  by (induction n) (auto split: if_splits simp: le_Suc_eq)

lemma search_down_None: "search_down pat s n = None \<longleftrightarrow> (\<forall>j \<le> n. \<not> occurs_at pat s j)"
  by (induction n) (auto simp: le_Suc_eq)

lemma occurs_at_bound: "occurs_at pat s i \<Longrightarrow> pat \<noteq> [] \<Longrightarrow> i + length pat \<le> length s"
  unfolding occurs_at_def by (metis (no_types, lifting) Nat.le_diff_conv2 add.commute drop_all leI le_cases length_drop length_take min.absorb_iff2 nat_less_le take_Nil)

lemma EOF_length: "length EOF = 5"
  by (simp add: EOF_def)

lemma EOF_bound: "occurs_at EOF s i \<Longrightarrow> i + 5 \<le> length s"
  using occurs_at_bound[of EOF s i] by (simp add: EOF_def)

lemma revision_end_bounds: "i + 5 \<le> revision_end pdf i \<and> revision_end pdf i \<le> i + 7"
  by (simp add: revision_end_def Let_def)

lemma getRevision_decreases:
  assumes "getRevision pdf sigs prior = Inr (Some r)"
  shows "(case prior of None \<Rightarrow> rev_length r \<le> length pdf + 2 | Some p \<Rightarrow> rev_length r < rev_length p)"
proof -
  let ?len = "case prior of None \<Rightarrow> int (length pdf) | Some r \<Rightarrow> int (rev_length r) - 5"
  from assms obtain i where len: "\<not> ?len < 0" and i: "lastIndexOf EOF (copyOf pdf (nat ?len)) = Some i"
    and r: "rev_length r = revision_end pdf i"
    by (auto simp: getRevision_def Let_def new_revision_def split: if_splits option.splits sum.splits prod.splits)
  have "i + 5 \<le> length (copyOf pdf (nat ?len))"
    using search_down_Some[OF i[unfolded lastIndexOf_def]] EOF_bound by blast
  then have "int i + 5 \<le> ?len" using len by (simp add: copyOf_def)
  with r revision_end_bounds[of i pdf] show ?thesis by (auto split: option.splits)
qed

function revision_loop :: "bytes \<Rightarrow> pd_signature list \<Rightarrow> doc_revision option \<Rightarrow> exn + doc_revision list" where
  "revision_loop pdf sigs prior =
     (case getRevision pdf sigs prior of
        Inl e \<Rightarrow> Inl e
      | Inr None \<Rightarrow> Inr []
      | Inr (Some r) \<Rightarrow>
          (case revision_loop pdf sigs (Some (PDFDocRevision r)) of
             Inl e \<Rightarrow> Inl e
           | Inr rs \<Rightarrow> Inr (PDFDocRevision r # rs)))"
  by pat_completeness auto

termination
proof (relation "measure (\<lambda>(pdf, sigs, prior). case prior of None \<Rightarrow> length pdf + 3 | Some r \<Rightarrow> rev_length r)")
  fix pdf sigs prior x2 r
  assume "getRevision pdf sigs prior = Inr x2" "x2 = Some r"
  with getRevision_decreases[of pdf sigs prior r]
  show "((pdf, sigs, Some (PDFDocRevision r)), pdf, sigs, prior)
      \<in> measure (\<lambda>(pdf, sigs, prior). case prior of None \<Rightarrow> length pdf + 3 | Some r \<Rightarrow> rev_length r)"
    by (auto simp: PDFDocRevision_def new_revision_def split: option.splits)
qed simp

text \<open>A revision that does not load, or whose trailer has no reference to a root object, is left out.\<close>

definition load_revision :: "'x pdf_env_scheme \<Rightarrow> bytes \<Rightarrow> doc_revision \<Rightarrow> exn + doc_revision option" where
  "load_revision E pdf r =
     (case loadPDF E (copyOf pdf (rev_length r)) of
        Inl e \<Rightarrow> if is_exception e then Inr None else Inl e
      | Inr doc \<Rightarrow>
          (case docTrailer doc of
             None \<Rightarrow> Inr None
           | Some t \<Rightarrow>
               (case map_of t ''Root'' of
                  Some (CosObject k) \<Rightarrow>
                    Inr (Some (r\<lparr>cosDocument := Some doc, xrefTable := docXref doc, rootObjectId := fst k,
                                 rootObject := Some k, trailer := Some t\<rparr>))
                | _ \<Rightarrow> Inr None)))"

fun load_revisions :: "'x pdf_env_scheme \<Rightarrow> bytes \<Rightarrow> doc_revision list \<Rightarrow> exn + doc_revision list" where
  "load_revisions E pdf [] = Inr []"
| "load_revisions E pdf (r # rs) =
     (case load_revision E pdf r of
        Inl e \<Rightarrow> Inl e
      | Inr l \<Rightarrow>
          (case load_revisions E pdf rs of
             Inl e \<Rightarrow> Inl e
           | Inr ls \<Rightarrow> Inr (case l of None \<Rightarrow> ls | Some x \<Rightarrow> x # ls)))"

subsection \<open>Safe objects\<close>

definition addSafeObjects :: "'x pdf_env_scheme \<Rightarrow> string \<Rightarrow> cos \<Rightarrow> pdf_doc \<Rightarrow> int list \<Rightarrow> int list" where
  "addSafeObjects E key v doc safe =
     (if key = ''AcroForm''
      then (let safe1 = safe @ (case v of CosObject k \<Rightarrow> [fst k] | _ \<Rightarrow> []);
                acroFormFont = getObjectRef (hashOrder E) (AcroForm doc v) [''DR'', ''Font'']
            in if acroFormFont > - 1 then safe1 @ [acroFormFont] else safe1)
      else if key = ''OpenAction''
      then (case v of
              CosArray xs \<Rightarrow>
                (case filter (\<lambda>w. getType w = TObject) (map object_value_of xs) of
                   [VObject i] \<Rightarrow> safe @ [i]
                 | _ \<Rightarrow> safe)
            | _ \<Rightarrow> safe)
      else safe)"

text \<open>\<open>StrictGeneralSafeObjects\<close> adds nothing.\<close>

definition strict_addGeneralSafeObjects :: "doc_revision \<Rightarrow> doc_revision" where
  "strict_addGeneralSafeObjects r = r"

definition addSafeOjects :: "cos_entries \<Rightarrow> string list \<Rightarrow> int list" where
  "addSafeOjects rootDic names =
     List.map_filter (\<lambda>n. case map_of rootDic n of Some (CosObject k) \<Rightarrow> Some (fst k) | _ \<Rightarrow> None) names"

text \<open>The references inside the DSS object, where it is an indirect dictionary; a failing cast ends the search.\<close>

definition dss_objects :: "'x pdf_env_scheme \<Rightarrow> pdf_doc \<Rightarrow> cos_entries \<Rightarrow> int list" where
  "dss_objects E doc rootDic =
     (case map_of rootDic ''DSS'' of
        Some (CosObject k) \<Rightarrow>
          (case docObject doc k of
             Some (CosDictionary es) \<Rightarrow>
               List.map_filter (\<lambda>n. case map_of (dict_values es) n of Some (VObject i) \<Rightarrow> Some i | _ \<Rightarrow> None)
                 (hashOrder E (map fst es))
           | _ \<Rightarrow> [])
      | _ \<Rightarrow> [])"

definition info_object :: "'x pdf_env_scheme \<Rightarrow> cos_entries option \<Rightarrow> int list" where
  "info_object E t =
     (case t of
        None \<Rightarrow> []
      | Some es \<Rightarrow>
          (case getValueByName (hashOrder E) ''Info'' (VDictionary (dict_values es)) of
             Some (VObject i) \<Rightarrow> [i]
           | _ \<Rightarrow> []))"

definition root_of :: "doc_revision \<Rightarrow> cos option" where
  "root_of r =
     (case (cosDocument r, rootObject r) of
        (Some doc, Some k) \<Rightarrow> docObject doc k
      | _ \<Rightarrow> None)"

text \<open>\<open>root_of\<close> is \<open>getRootObject().getObject()\<close>; both references are set when a revision has been loaded.\<close>

definition default_addGeneralSafeObjects :: "'x pdf_env_scheme \<Rightarrow> doc_revision \<Rightarrow> doc_revision" where
  "default_addGeneralSafeObjects E r =
     r\<lparr>safeObjects := safeObjects r
        @ (case (cosDocument r, root_of r) of
             (Some doc, Some (CosDictionary rootDic)) \<Rightarrow>
               addSafeOjects rootDic [''DSS'', ''Extensions'', ''Metadata''] @ dss_objects E doc rootDic
           | _ \<Rightarrow> [])
        @ info_object E (trailer r)\<rparr>"

subsection \<open>Comparing a revision with the one before\<close>

record root_scan =
  scanLegal :: bool
  scanChanged :: "string list"
  scanAdded :: "string list"
  scanSafe :: "int list"

definition root_item :: "'x pdf_env_scheme \<Rightarrow> pdf_doc \<Rightarrow> cos option \<Rightarrow> string \<times> cos \<Rightarrow> root_scan \<Rightarrow> root_scan" where
  "root_item E doc lastRoot e st =
     (case lastRoot of
        Some (CosDictionary les) \<Rightarrow>
          (let lastValue = ObjectValue (map_of les (fst e));
               st1 = (if getType lastValue \<noteq> TNull
                      then if getType lastValue = TOther then st\<lparr>scanLegal := False\<rparr>
                           else if \<not> obj_matches (object_value_of (snd e)) lastValue
                           then st\<lparr>scanChanged := scanChanged st @ [fst e]\<rparr> else st
                      else st\<lparr>scanAdded := scanAdded st @ [fst e]\<rparr>)
           in st1\<lparr>scanSafe := addSafeObjects E (fst e) (snd e) doc (scanSafe st1)\<rparr>)
      | _ \<Rightarrow> st\<lparr>scanLegal := False\<rparr>)"

definition changed_refs :: "(cos_key \<times> int) list \<Rightarrow> (cos_key \<times> int) list \<Rightarrow> (cos_key \<times> (int \<times> int)) list" where
  "changed_refs lastTable table =
     List.map_filter (\<lambda>(k, v). case map_of lastTable k of
         Some l \<Rightarrow> if l \<noteq> v then Some (k, (l, v)) else None
       | None \<Rightarrow> None) table"

definition added_refs :: "(cos_key \<times> int) list \<Rightarrow> (cos_key \<times> int) list \<Rightarrow> (cos_key \<times> int) list" where
  "added_refs lastTable table = filter (\<lambda>(k, v). map_of lastTable k = None) table"

definition addedRootItemsContains :: "string list \<Rightarrow> string list \<Rightarrow> bool" where
  "addedRootItemsContains items names = list_all (\<lambda>n. list_ex (\<lambda>i. equalsIgnoreCase i n) items) names"

text \<open>The root object, when its cross reference has changed.\<close>

definition scan_root :: "'x pdf_env_scheme \<Rightarrow> doc_revision \<Rightarrow> doc_revision option \<Rightarrow> exn + root_scan" where
  "scan_root E r lastRev =
     (let none = \<lparr>scanLegal = True, scanChanged = [], scanAdded = [], scanSafe = []\<rparr> in
      if \<not> rootUpdate r then Inr none
      else
        (case (cosDocument r, root_of r) of
           (Some doc, Some (CosDictionary rootDic)) \<Rightarrow>
             (case lastRev of
                None \<Rightarrow> Inl npe
              | Some l \<Rightarrow> Inr (fold (root_item E doc (root_of l)) rootDic none))
         | _ \<Rightarrow> Inr (none\<lparr>scanLegal := False\<rparr>)))"

definition getXrefUpdates ::
  "'x pdf_env_scheme \<Rightarrow> (doc_revision \<Rightarrow> doc_revision) \<Rightarrow> doc_revision \<Rightarrow> doc_revision option \<Rightarrow> exn + doc_revision" where
  "getXrefUpdates E addGeneralSafeObjects r lastRev =
     (let lastTable = (case lastRev of None \<Rightarrow> [] | Some l \<Rightarrow> xrefTable l);
          changed = changed_refs lastTable (xrefTable r);
          r1 = r\<lparr>changedXref := changed, addedXref := added_refs lastTable (xrefTable r),
                 rootUpdate := list_ex (\<lambda>(k, _). fst k = rootObjectId r) changed,
                 nonRootUpdate := list_ex (\<lambda>(k, _). fst k \<noteq> rootObjectId r) changed\<rparr>
      in case scan_root E r1 lastRev of
           Inl e \<Rightarrow> Inl e
         | Inr sc \<Rightarrow>
             (let r2 = addGeneralSafeObjects (r1\<lparr>legalRootObject := scanLegal sc, changedRootItems := scanChanged sc,
                         addedRootItems := scanAdded sc, safeObjects := scanSafe sc\<rparr>);
                  unsupportedRootItemUpdate = list_ex (\<lambda>n. n \<noteq> ''AcroForm'') (changedRootItems r2);
                  unsafeRefupdate = list_ex (\<lambda>(k, _). fst k \<noteq> rootObjectId r2 \<and> fst k \<notin> set (safeObjects r2)) (changedXref r2);
                  safe = (\<not> unsupportedRootItemUpdate \<and> \<not> unsafeRefupdate \<and> legalRootObject r2)
              in Inr (r2\<lparr>safeUpdate := safe,
                   validDSS := rootUpdate r2 \<and> safe \<and> legalRootObject r2 \<and> changedRootItems r2 = []
                     \<and> (length (addedRootItems r2) = 1 \<and> addedRootItemsContains (addedRootItems r2) [''DSS'']
                        \<or> length (addedRootItems r2) = 2 \<and> addedRootItemsContains (addedRootItems r2) [''DSS'', ''Extensions''])\<rparr>)))"

fun xref_loop ::
  "'x pdf_env_scheme \<Rightarrow> (doc_revision \<Rightarrow> doc_revision) \<Rightarrow> doc_revision option \<Rightarrow> doc_revision list \<Rightarrow> exn + doc_revision list" where
  "xref_loop E add lastRev [] = Inr []"
| "xref_loop E add lastRev (r # rs) =
     (case getXrefUpdates E add r lastRev of
        Inl e \<Rightarrow> Inl e
      | Inr r' \<Rightarrow> (case xref_loop E add (Some r') rs of Inl e \<Rightarrow> Inl e | Inr rs' \<Rightarrow> Inr (r' # rs')))"

subsection \<open>The signature context\<close>

record signature_context =
  pdfBytes :: bytes
  PDFDocRevisions :: "doc_revision list"
  signatures :: "pd_signature list"

definition extractPdfRevisionData ::
  "'x pdf_env_scheme \<Rightarrow> (doc_revision \<Rightarrow> doc_revision) \<Rightarrow> bytes \<Rightarrow> exn + signature_context" where
  "extractPdfRevisionData E add pdf =
     (case signaturesOf E pdf of
        Inl e \<Rightarrow> Inl e
      | Inr sigs \<Rightarrow>
     (case revision_loop pdf sigs None of
        Inl e \<Rightarrow> Inl e
      | Inr found \<Rightarrow>
     (case load_revisions E pdf found of
        Inl e \<Rightarrow> Inl e
      | Inr consolidated \<Rightarrow>
     (case xref_loop E add None (sort_key rev_length consolidated) of
        Inl e \<Rightarrow> Inl e
      | Inr revs \<Rightarrow> Inr \<lparr>pdfBytes = pdf, PDFDocRevisions = revs, signatures = sigs\<rparr>))))"

definition getPdfSignatureContext :: "'x pdf_env_scheme \<Rightarrow> bool \<Rightarrow> bytes \<Rightarrow> exn + signature_context" where
  "getPdfSignatureContext E strict pdf =
     extractPdfRevisionData E (if strict then strict_addGeneralSafeObjects else default_addGeneralSafeObjects E) pdf"

definition illegal :: "string \<Rightarrow> exn" where
  "illegal m = Exn IllegalArgumentException (Some m)"

text \<open>The index, or \<open>-1\<close>.\<close>

fun index_from :: "nat \<Rightarrow> int \<Rightarrow> doc_revision list \<Rightarrow> int" where
  "index_from i len [] = - 1"
| "index_from i len (r # rs) = (if int (rev_length r) = len then int i else index_from (Suc i) len rs)"

definition getSignatureRevisionIndex :: "signature_context \<Rightarrow> pd_signature \<Rightarrow> exn + int" where
  "getSignatureRevisionIndex C sig =
     (case sig_length sig of
        Inl e \<Rightarrow> Inl (if is_exception e then illegal ''Error examining signature revision'' else e)
      | Inr len \<Rightarrow> Inr (index_from 0 len (PDFDocRevisions C)))"

definition getSignedDocument :: "signature_context \<Rightarrow> pd_signature \<Rightarrow> exn + bytes" where
  "getSignedDocument C sig =
     (case getSignatureRevisionIndex C sig of
        Inl e \<Rightarrow> Inl (if is_exception e then illegal ''Error extracting signed version'' else e)
      | Inr idx \<Rightarrow>
          if idx < 0 then Inl (illegal ''Error extracting signed version'')
          else Inr (copyOf (pdfBytes C) (rev_length (PDFDocRevisions C ! nat idx))))"

fun extended_loop :: "doc_revision list \<Rightarrow> bool" where
  "extended_loop [] = False"
| "extended_loop (r # rs) =
     (if \<not> signature r \<and> \<not> validDSS r then \<not> safeUpdate r else extended_loop rs)"

definition isSignatureExtendedByNonSafeUpdates :: "signature_context \<Rightarrow> pd_signature \<Rightarrow> exn + bool" where
  "isSignatureExtendedByNonSafeUpdates C sig =
     (case getSignatureRevisionIndex C sig of
        Inl e \<Rightarrow> Inl (if is_exception e then illegal ''Error examining signature extensions'' else e)
      | Inr idx \<Rightarrow>
          if idx = - 1 then Inl (illegal ''Error examining signature extensions'')
          else Inr (extended_loop (drop (Suc (nat idx)) (PDFDocRevisions C))))"

definition isCoversWholeDocument :: "signature_context \<Rightarrow> pd_signature \<Rightarrow> exn + bool" where
  "isCoversWholeDocument C sig =
     (case getSignatureRevisionIndex C sig of
        Inl e \<Rightarrow> Inl e
      | Inr idx \<Rightarrow>
          if idx = - 1 then Inl (illegal ''The specified signature was not found in the document'')
          else if idx = int (length (PDFDocRevisions C)) - 1 then Inr True
          else Inr (list_all safeUpdate (drop (Suc (nat idx)) (PDFDocRevisions C))))"

subsection \<open>The scan finds every end marker\<close>

definition eof_positions :: "bytes \<Rightarrow> nat list" where
  "eof_positions pdf = filter (occurs_at EOF pdf) [0..<length pdf]"

lemma occurs_nth: "occurs_at pat s i \<Longrightarrow> k < length pat \<Longrightarrow> i + length pat \<le> length s \<Longrightarrow> s ! (i + k) = pat ! k"
  unfolding occurs_at_def by (metis add_leD1 nth_drop nth_take)

lemma EOF_nth: "occurs_at EOF s i \<Longrightarrow> k < 5 \<Longrightarrow> s ! (i + k) = EOF ! k"
  using occurs_nth[of EOF s i k] EOF_bound[of s i] by (simp add: EOF_def)

lemma EOF_no_overlap:
  assumes "occurs_at EOF s i" "occurs_at EOF s j" "i < j"
  shows "i + 5 \<le> j"
proof (rule ccontr)
  assume "\<not> i + 5 \<le> j"
  then consider "j = i + 1" | "j = i + 2" | "j = i + 3" | "j = i + 4" using assms(3) by linarith
  then show False
  proof cases
    case 1
    have "s ! (i + 2) = 69" using EOF_nth[OF assms(1), of 2] by (simp add: EOF_def)
    moreover have "s ! (j + 1) = 37" using EOF_nth[OF assms(2), of 1] by (simp add: EOF_def)
    ultimately show ?thesis using 1 by simp
  next
    case 2
    with EOF_nth[OF assms(1), of 2] EOF_nth[OF assms(2), of 0] show ?thesis by (simp add: EOF_def)
  next
    case 3
    with EOF_nth[OF assms(1), of 3] EOF_nth[OF assms(2), of 0] show ?thesis by (simp add: EOF_def)
  next
    case 4
    with EOF_nth[OF assms(1), of 4] EOF_nth[OF assms(2), of 0] show ?thesis by (simp add: EOF_def)
  qed
qed

lemma occurs_take: "n \<le> length s \<Longrightarrow> occurs_at EOF (take n s) j \<longleftrightarrow> occurs_at EOF s j \<and> j + 5 \<le> n"
proof
  assume n: "n \<le> length s" and o: "occurs_at EOF (take n s) j"
  from EOF_bound[OF o] n have le: "j + 5 \<le> n" by simp
  then have "take 5 (drop j (take n s)) = take 5 (drop j s)" by (simp add: drop_take)
  with o le show "occurs_at EOF s j \<and> j + 5 \<le> n" by (simp add: occurs_at_def EOF_length)
next
  assume "n \<le> length s" and o: "occurs_at EOF s j \<and> j + 5 \<le> n"
  have "min 5 (n - j) = 5" using o by auto
  then have "take 5 (drop j (take n s)) = take 5 (drop j s)" by (simp add: drop_take)
  with o show "occurs_at EOF (take n s) j" by (simp add: occurs_at_def EOF_length)
qed

lemma last_index:
  assumes "n \<le> length pdf"
  shows "lastIndexOf EOF (copyOf pdf n) =
    (case rev (filter (\<lambda>j. j + 5 \<le> n) (eof_positions pdf)) of [] \<Rightarrow> None | i # _ \<Rightarrow> Some i)"
proof -
  let ?ps = "filter (\<lambda>j. j + 5 \<le> n) (eof_positions pdf)"
  have cp: "copyOf pdf n = take n pdf" and len: "length (copyOf pdf n) = n" using assms by (simp_all add: copyOf_def)
  have mem: "j \<in> set ?ps \<longleftrightarrow> occurs_at EOF (copyOf pdf n) j" for j
    using occurs_take[OF assms, of j] EOF_bound[of pdf j] by (auto simp: eof_positions_def cp)
  have srt: "sorted ?ps" by (simp add: eof_positions_def sorted_filter[where f = "\<lambda>x. x", simplified])
  show ?thesis
  proof (cases "lastIndexOf EOF (copyOf pdf n)")
    case None
    then have none: "\<not> occurs_at EOF (copyOf pdf n) j" if "j \<le> n" for j
      using that by (simp add: lastIndexOf_def search_down_None len)
    have "set ?ps = {}" using mem none EOF_bound[of "copyOf pdf n"] len by (metis add_leD1 all_not_in_conv)
    with None show ?thesis by simp
  next
    case (Some i)
    from search_down_Some[OF this[unfolded lastIndexOf_def]] have i: "occurs_at EOF (copyOf pdf n) i"
      and top: "\<And>j. i < j \<Longrightarrow> j \<le> n \<Longrightarrow> \<not> occurs_at EOF (copyOf pdf n) j" by (auto simp: len)
    from i mem have in_ps: "i \<in> set ?ps" by blast
    then obtain a qs where q: "rev ?ps = a # qs" by (metis empty_iff list.set(1) neq_Nil_conv set_rev)
    then have "?ps = rev qs @ [a]" by (metis rev.simps(2) rev_rev_ident)
    with srt in_ps have "i \<le> a" and "a \<in> set ?ps" by (auto simp: sorted_append)
    moreover have "a \<le> n" using \<open>a \<in> set ?ps\<close> by simp
    ultimately have "a = i" using top mem by (metis le_neq_implies_less)
    with Some q show ?thesis by simp
  qed
qed

lemma sig_flags_all:
  assumes "\<forall>s \<in> set sigs. \<exists>l. sig_length s = Inr l"
  shows "\<exists>t. sig_flags len sigs (a, b) = Inr (a \<or> (\<exists>s \<in> set sigs. sig_length s = Inr (int len)), t)"
  using assms
proof (induction sigs arbitrary: a b)
  case (Cons s sigs)
  then obtain l where l: "sig_length s = Inr l" by auto
  with Cons.IH[of True "subFilter s = Some ''ETSI.RFC3161''"] Cons.IH[of a b] Cons.prems show ?case
    by (cases "l = int len") auto
qed simp

lemma PDFDocRevision_fields [simp]:
  "rev_length (PDFDocRevision r) = rev_length r" "signature (PDFDocRevision r) = signature r"
  by (simp_all add: PDFDocRevision_def new_revision_def)

lemma positions_before:
  assumes "filter (\<lambda>j. j + 5 \<le> n) (eof_positions pdf) = ps @ [i]"
  shows "filter (\<lambda>j. j + 5 \<le> revision_end pdf i - 5) (eof_positions pdf) = ps"
proof -
  let ?P = "eof_positions pdf"
  have d: "sorted ?P" "distinct ?P"
    by (simp_all add: eof_positions_def sorted_filter[where f = "\<lambda>x. x", simplified])
  have "i \<in> set (filter (\<lambda>j. j + 5 \<le> n) ?P)" unfolding assms by simp
  then have i: "i \<in> set ?P" "i + 5 \<le> n" by simp_all
  have iff: "j + 5 \<le> revision_end pdf i - 5 \<longleftrightarrow> j + 5 \<le> n \<and> j \<noteq> i" if "j \<in> set ?P" for j
  proof -
    have occ: "occurs_at EOF pdf j" "occurs_at EOF pdf i" using that i(1) by (simp_all add: eof_positions_def)
    have last: "j \<le> i" if "j + 5 \<le> n"
    proof -
      have "j \<in> set (ps @ [i])" using that \<open>j \<in> set ?P\<close> unfolding assms[symmetric] by simp
      moreover have "sorted (ps @ [i])" using d(1) assms by (metis sorted_filter[where f = "\<lambda>x. x", simplified])
      ultimately show ?thesis by (auto simp: sorted_append)
    qed
    show ?thesis
      using EOF_no_overlap[OF occ] revision_end_bounds[of i pdf] i(2) last by (cases "j < i") auto
  qed
  have "filter (\<lambda>j. j + 5 \<le> revision_end pdf i - 5) ?P = filter (\<lambda>j. j + 5 \<le> n \<and> j \<noteq> i) ?P"
    by (rule filter_cong) (simp_all add: iff)
  also have "\<dots> = filter (\<lambda>j. j \<noteq> i) (filter (\<lambda>j. j + 5 \<le> n) ?P)" by (simp add: conj_commute)
  also have "\<dots> = ps"
  proof -
    have "distinct (ps @ [i])" using d(2) assms by (metis distinct_filter)
    then show ?thesis unfolding assms by (auto simp: filter_id_conv)
  qed
  finally show ?thesis .
qed

lemma getRevision_scan:
  assumes "\<forall>s \<in> set sigs. \<exists>l. sig_length s = Inr l" and "n \<le> length pdf"
    and "(case prior of None \<Rightarrow> int (length pdf) | Some r \<Rightarrow> int (rev_length r) - 5) = int n"
  shows "(case rev (filter (\<lambda>j. j + 5 \<le> n) (eof_positions pdf)) of
            [] \<Rightarrow> getRevision pdf sigs prior = Inr None
          | i # _ \<Rightarrow> \<exists>t. getRevision pdf sigs prior = Inr (Some (new_revision (revision_end pdf i)
                       (\<exists>s \<in> set sigs. sig_length s = Inr (int (revision_end pdf i))) t)))"
proof (cases "rev (filter (\<lambda>j. j + 5 \<le> n) (eof_positions pdf))")
  case Nil
  with last_index[OF assms(2)] assms(3) show ?thesis by (simp add: getRevision_def)
next
  case (Cons i qs)
  obtain t where "sig_flags (revision_end pdf i) sigs (False, False)
      = Inr (\<exists>s \<in> set sigs. sig_length s = Inr (int (revision_end pdf i)), t)"
    using sig_flags_all[OF assms(1), of "revision_end pdf i" False False] by auto
  with last_index[OF assms(2)] assms(3) Cons show ?thesis by (auto simp: getRevision_def)
qed

lemma revision_loop_scan:
  assumes sigs: "\<forall>s \<in> set sigs. \<exists>l. sig_length s = Inr l" and n: "n \<le> length pdf"
    and len: "(case prior of None \<Rightarrow> int (length pdf) | Some r \<Rightarrow> int (rev_length r) - 5) = int n"
  shows "\<exists>revs. revision_loop pdf sigs prior = Inr revs
    \<and> map rev_length revs = map (revision_end pdf) (rev (filter (\<lambda>j. j + 5 \<le> n) (eof_positions pdf)))
    \<and> (\<forall>r \<in> set revs. signature r = (\<exists>s \<in> set sigs. sig_length s = Inr (int (rev_length r))))"
  using n len
proof (induction "filter (\<lambda>j. j + 5 \<le> n) (eof_positions pdf)" arbitrary: n prior rule: rev_induct)
  case Nil
  have "getRevision pdf sigs prior = Inr None"
    using getRevision_scan[OF sigs Nil(2,3)] Nil(1) by (simp flip: Nil(1))
  then have "revision_loop pdf sigs prior = Inr []" by simp
  then show ?case by (simp flip: Nil(1) del: revision_loop.simps)
next
  case (snoc i ps)
  note ps = snoc(2)[symmetric]
  define r where "r = (\<lambda>t. new_revision (revision_end pdf i) (\<exists>s \<in> set sigs. sig_length s = Inr (int (revision_end pdf i))) t)"
  obtain t where get: "getRevision pdf sigs prior = Inr (Some (r t))"
    using getRevision_scan[OF sigs snoc(3,4)] unfolding ps r_def by auto
  let ?r = "PDFDocRevision (r t)"
  have r: "rev_length ?r = revision_end pdf i" "signature ?r = (\<exists>s \<in> set sigs. sig_length s = Inr (int (revision_end pdf i)))"
    by (simp_all add: r_def new_revision_def)
  have "i \<in> set (filter (\<lambda>j. j + 5 \<le> n) (eof_positions pdf))" unfolding ps by simp
  then have i: "i + 5 \<le> n" by simp
  let ?n = "revision_end pdf i - 5"
  have "?n \<le> length pdf" using revision_end_bounds[of i pdf] i snoc(3) by linarith
  moreover have "(case Some ?r of None \<Rightarrow> int (length pdf) | Some r \<Rightarrow> int (rev_length r) - 5) = int ?n"
    using revision_end_bounds[of i pdf] r(1) by simp
  ultimately obtain revs where revs: "revision_loop pdf sigs (Some ?r) = Inr revs"
    "map rev_length revs = map (revision_end pdf) (rev (filter (\<lambda>j. j + 5 \<le> ?n) (eof_positions pdf)))"
    "\<forall>r \<in> set revs. signature r = (\<exists>s \<in> set sigs. sig_length s = Inr (int (rev_length r)))"
    using snoc(1)[of ?n "Some ?r"] positions_before[OF ps] by auto
  have "revision_loop pdf sigs prior = Inr (?r # revs)" using get revs(1) by (subst revision_loop.simps) simp
  moreover have "map rev_length (?r # revs) = map (revision_end pdf) (rev (ps @ [i]))"
    using revs(2) positions_before[OF ps] r(1) by simp
  ultimately show ?case unfolding ps using revs(3) r by (intro exI[of _ "?r # revs"]) simp
qed

text \<open>
  C10. The backward scan for revisions ends and finds every end marker of the file: the
  revisions are, from the last to the first, the prefixes that end with an occurrence of the marker
  and its line end, and one is a signature revision exactly when the byte range of a signature
  ends there.
\<close>

theorem revision_scan:
  assumes "\<forall>s \<in> set sigs. \<exists>l. sig_length s = Inr l"
  shows "\<exists>revs. revision_loop pdf sigs None = Inr revs
    \<and> map rev_length revs = map (revision_end pdf) (rev (eof_positions pdf))
    \<and> (\<forall>r \<in> set revs. signature r = (\<exists>s \<in> set sigs. sig_length s = Inr (int (rev_length r))))"
proof -
  have "filter (\<lambda>j. j + 5 \<le> length pdf) (eof_positions pdf) = eof_positions pdf"
    unfolding filter_id_conv using EOF_bound by (auto simp: eof_positions_def)
  with revision_loop_scan[OF assms order_refl[of "length pdf"], of None] show ?thesis by simp
qed

subsection \<open>What a safe update leaves alone\<close>

text \<open>The objects that both revisions have, at different positions.\<close>

definition changed_object :: "doc_revision \<Rightarrow> doc_revision \<Rightarrow> int \<Rightarrow> bool" where
  "changed_object r r' i \<longleftrightarrow>
     (\<exists>k l v. fst k = i \<and> map_of (xrefTable r) k = Some l \<and> (k, v) \<in> set (xrefTable r') \<and> l \<noteq> v)"

text \<open>The objects named by the root dictionary: the form, the fonts of the form and the one reference of the open action.\<close>

definition root_permits :: "'x pdf_env_scheme \<Rightarrow> doc_revision \<Rightarrow> int \<Rightarrow> bool" where
  "root_permits E r i \<longleftrightarrow>
     (\<exists>doc es. cosDocument r = Some doc \<and> root_of r = Some (CosDictionary es)
        \<and> ((\<exists>v. (''AcroForm'', v) \<in> set es
              \<and> ((\<exists>g. v = CosObject (i, g)) \<or> (getObjectRef (hashOrder E) (AcroForm doc v) [''DR'', ''Font''] = i \<and> i > - 1)))
           \<or> (\<exists>xs. (''OpenAction'', CosArray xs) \<in> set es
              \<and> filter (\<lambda>w. getType w = TObject) (map object_value_of xs) = [VObject i])))"

definition safe_step :: "'x pdf_env_scheme \<Rightarrow> (doc_revision \<Rightarrow> int set) \<Rightarrow> doc_revision \<Rightarrow> doc_revision \<Rightarrow> bool" where
  "safe_step E extra r r' \<longleftrightarrow>
     (\<forall>i. changed_object r r' i \<longrightarrow> i = rootObjectId r' \<or> (changed_object r r' (rootObjectId r') \<and> root_permits E r' i) \<or> i \<in> extra r')
     \<and> (changed_object r r' (rootObjectId r') \<longrightarrow>
          (\<exists>es. root_of r' = Some (CosDictionary es)
             \<and> (\<forall>(n, v) \<in> set es. \<exists>les. root_of r = Some (CosDictionary les)
                  \<and> (\<forall>w. map_of les n = Some w \<and> n \<noteq> ''AcroForm'' \<longrightarrow> canon v = canon w))))"

text \<open>The documents of the library are well formed: no dictionary has a key twice.\<close>

definition objects_wf :: "doc_revision \<Rightarrow> bool" where
  "objects_wf r \<longleftrightarrow> (\<forall>doc k c. cosDocument r = Some doc \<longrightarrow> docObject doc k = Some c \<longrightarrow> cos_wf c)"

lemma root_of_wf: "objects_wf r \<Longrightarrow> root_of r = Some c \<Longrightarrow> cos_wf c"
  by (auto simp: objects_wf_def root_of_def split: option.splits)

lemma set_map_filter: "set (List.map_filter f xs) = {y. \<exists>x \<in> set xs. f x = Some y}"
  by (force simp: List.map_filter_def)

lemma changed_refs_iff:
  "(k, (l, v)) \<in> set (changed_refs lastTable table) \<longleftrightarrow> (k, v) \<in> set table \<and> map_of lastTable k = Some l \<and> l \<noteq> v"
  by (force simp: changed_refs_def set_map_filter split: option.splits if_splits)

lemma addSafeObjects_append: "addSafeObjects E n v doc safe = safe @ addSafeObjects E n v doc []"
  by (auto simp: addSafeObjects_def Let_def split: cos.splits list.splits object_value.splits)

lemma addSafeObjects_permitted:
  assumes "i \<in> set (addSafeObjects E n v doc [])" "(n, v) \<in> set es"
    and "cosDocument r = Some doc" "root_of r = Some (CosDictionary es)"
  shows "root_permits E r i"
proof (cases "n = ''AcroForm''")
  case True
  then have "(\<exists>g. v = CosObject (i, g)) \<or> (getObjectRef (hashOrder E) (AcroForm doc v) [''DR'', ''Font''] = i \<and> i > - 1)"
    using assms(1) by (auto simp: addSafeObjects_def Let_def split: cos.splits if_splits)
  with True assms show ?thesis unfolding root_permits_def by blast
next
  case False
  have n: "n = ''OpenAction''" by (rule ccontr) (use assms(1) False in \<open>simp add: addSafeObjects_def\<close>)
  then obtain xs where v: "v = CosArray xs" using assms(1) by (cases v) (simp_all add: addSafeObjects_def)
  obtain ys where ys: "filter (\<lambda>w. getType w = TObject) (map object_value_of xs) = ys" by blast
  then have "ys = [VObject i]"
    using assms(1) n v by (auto simp: addSafeObjects_def split: list.splits object_value.splits)
  with n v ys have "n = ''OpenAction''" "v = CosArray xs"
    "filter (\<lambda>w. getType w = TObject) (map object_value_of xs) = [VObject i]" by simp_all
  with assms show ?thesis unfolding root_permits_def by blast
qed

lemma root_item_legal:
  "scanLegal (root_item E doc lastRoot e st) \<Longrightarrow>
     scanLegal st \<and> (\<exists>les. lastRoot = Some (CosDictionary les) \<and> map_of les (fst e) \<noteq> Some CosOther)"
  by (auto simp: root_item_def ObjectValue_def Let_def split: option.splits cos.splits if_splits)

lemma root_item_changed:
  "set (scanChanged st) \<subseteq> set (scanChanged (root_item E doc lastRoot e st))"
  "lastRoot = Some (CosDictionary les) \<Longrightarrow> map_of les (fst e) = Some w \<Longrightarrow> w \<noteq> CosOther
    \<Longrightarrow> \<not> obj_matches (object_value_of (snd e)) (object_value_of w)
    \<Longrightarrow> fst e \<in> set (scanChanged (root_item E doc lastRoot e st))"
proof -
  show "set (scanChanged st) \<subseteq> set (scanChanged (root_item E doc lastRoot e st))"
    by (auto simp: root_item_def Let_def split: option.splits cos.splits)
  assume "lastRoot = Some (CosDictionary les)" "map_of les (fst e) = Some w" "w \<noteq> CosOther"
    "\<not> obj_matches (object_value_of (snd e)) (object_value_of w)"
  then show "fst e \<in> set (scanChanged (root_item E doc lastRoot e st))"
    by (cases w) (simp_all add: root_item_def ObjectValue_def Let_def)
qed

lemma root_item_safe:
  "set (scanSafe (root_item E doc lastRoot e st)) \<subseteq> set (scanSafe st) \<union> set (addSafeObjects E (fst e) (snd e) doc [])"
  by (auto simp: root_item_def Let_def addSafeObjects_append[of E "fst e" "snd e" doc "scanSafe _"]
      split: option.splits cos.splits if_splits)

lemma root_fold_legal:
  "scanLegal (fold (root_item E doc lastRoot) es st) \<Longrightarrow>
     scanLegal st \<and> (\<forall>e \<in> set es. \<exists>les. lastRoot = Some (CosDictionary les) \<and> map_of les (fst e) \<noteq> Some CosOther)"
proof (induction es arbitrary: st)
  case (Cons e es)
  then have *: "scanLegal (root_item E doc lastRoot e st)"
      "\<forall>e \<in> set es. \<exists>les. lastRoot = Some (CosDictionary les) \<and> map_of les (fst e) \<noteq> Some CosOther"
    by auto
  with root_item_legal[OF *(1)] show ?case by auto
qed simp

lemma root_fold_changed_mono: "set (scanChanged st) \<subseteq> set (scanChanged (fold (root_item E doc lastRoot) es st))"
proof (induction es arbitrary: st)
  case (Cons e es)
  then show ?case using root_item_changed(1)[of st E doc lastRoot e] by fastforce
qed simp

lemma root_fold_changed:
  "(n, v) \<in> set es \<Longrightarrow> lastRoot = Some (CosDictionary les) \<Longrightarrow> map_of les n = Some w \<Longrightarrow> w \<noteq> CosOther
    \<Longrightarrow> \<not> obj_matches (object_value_of v) (object_value_of w)
    \<Longrightarrow> n \<in> set (scanChanged (fold (root_item E doc lastRoot) es st))"
proof (induction es arbitrary: st)
  case (Cons e es)
  show ?case
  proof (cases "e = (n, v)")
    case True
    with root_item_changed(2)[of lastRoot les e w E doc st] Cons.prems
    have "n \<in> set (scanChanged (root_item E doc lastRoot e st))" by simp
    then show ?thesis using root_fold_changed_mono[of "root_item E doc lastRoot e st" E doc lastRoot es] by auto
  next
    case False
    with Cons show ?thesis by simp
  qed
qed simp

lemma root_fold_safe:
  "set (scanSafe (fold (root_item E doc lastRoot) es st)) \<subseteq>
     set (scanSafe st) \<union> (\<Union>(n, v) \<in> set es. set (addSafeObjects E n v doc []))"
proof (induction es arbitrary: st)
  case (Cons e es)
  show ?case using Cons[of "root_item E doc lastRoot e st"] root_item_safe[of E doc lastRoot e st] by (cases e) fastforce
qed simp

subsection \<open>The interface \<open>GeneralSafeObjects\<close>\<close>

text \<open>
  An implementation adds object numbers to the list of safe objects of a revision and changes nothing
  else; what it adds depends on the loaded document only.
\<close>

locale general_safe_objects =
  fixes addGeneralSafeObjects :: "doc_revision \<Rightarrow> doc_revision"
    and extra :: "doc_revision \<Rightarrow> int set"
  assumes only_safe: "addGeneralSafeObjects r = r\<lparr>safeObjects := safeObjects (addGeneralSafeObjects r)\<rparr>"
    and safe_set: "set (safeObjects (addGeneralSafeObjects r)) = set (safeObjects r) \<union> extra r"
    and extra_doc: "cosDocument r = cosDocument q \<Longrightarrow> rootObject r = rootObject q \<Longrightarrow> trailer r = trailer q
                    \<Longrightarrow> extra r = extra q"
begin

lemma add_fields:
  "changedXref (addGeneralSafeObjects r) = changedXref r" "rootObjectId (addGeneralSafeObjects r) = rootObjectId r"
  "legalRootObject (addGeneralSafeObjects r) = legalRootObject r" "changedRootItems (addGeneralSafeObjects r) = changedRootItems r"
  "xrefTable (addGeneralSafeObjects r) = xrefTable r" "rev_length (addGeneralSafeObjects r) = rev_length r"
  "cosDocument (addGeneralSafeObjects r) = cosDocument r" "rootObject (addGeneralSafeObjects r) = rootObject r"
  "trailer (addGeneralSafeObjects r) = trailer r" "signature (addGeneralSafeObjects r) = signature r"
  by (subst only_safe, simp)+

lemma update_fields:
  assumes "getXrefUpdates E addGeneralSafeObjects r l = Inr r'"
  shows "rev_length r' = rev_length r" "cosDocument r' = cosDocument r" "rootObject r' = rootObject r"
    "trailer r' = trailer r" "xrefTable r' = xrefTable r" "rootObjectId r' = rootObjectId r" "signature r' = signature r"
  using assms by (auto simp: getXrefUpdates_def Let_def add_fields split: sum.splits)

lemma update_safe:
  assumes upd: "getXrefUpdates E addGeneralSafeObjects r (Some l) = Inr r'" and safe: "safeUpdate r'"
    and wf: "objects_wf r" "objects_wf l"
  shows "safe_step E extra l r'"
proof -
  define changed where "changed = changed_refs (xrefTable l) (xrefTable r)"
  define r1 where "r1 = r\<lparr>changedXref := changed, addedXref := added_refs (xrefTable l) (xrefTable r),
      rootUpdate := list_ex (\<lambda>(k, _). fst k = rootObjectId r) changed, nonRootUpdate := list_ex (\<lambda>(k, _). fst k \<noteq> rootObjectId r) changed\<rparr>"
  obtain sc where sc: "scan_root E r1 (Some l) = Inr sc"
    using upd by (auto simp: getXrefUpdates_def Let_def r1_def changed_def split: sum.splits)
  have flags: "list_all (\<lambda>n. n = ''AcroForm'') (scanChanged sc)" "scanLegal sc"
    "\<forall>(k, d) \<in> set changed. fst k = rootObjectId r \<or> fst k \<in> set (scanSafe sc) \<union> extra r"
  proof -
    have ex: "extra (r1\<lparr>legalRootObject := a, changedRootItems := b, addedRootItems := c, safeObjects := d\<rparr>) = extra r" for a b c d
      by (rule extra_doc) (simp_all add: r1_def)
    have s: "scan_root E (r\<lparr>changedXref := changed, addedXref := added_refs (xrefTable l) (xrefTable r),
        rootUpdate := list_ex (\<lambda>(k, _). fst k = rootObjectId r) changed, nonRootUpdate := list_ex (\<lambda>(k, _). fst k \<noteq> rootObjectId r) changed\<rparr>) (Some l) = Inr sc"
      using sc by (simp add: r1_def)
    show "list_all (\<lambda>n. n = ''AcroForm'') (scanChanged sc)" "scanLegal sc"
      using upd safe s by (auto simp: getXrefUpdates_def Let_def changed_def[symmetric] add_fields list_all_iff list_ex_iff)
    show "\<forall>(k, d) \<in> set changed. fst k = rootObjectId r \<or> fst k \<in> set (scanSafe sc) \<union> extra r"
      using upd safe s ex[unfolded r1_def]
      by (fastforce simp: getXrefUpdates_def Let_def changed_def[symmetric] add_fields safe_set list_ex_iff)
  qed
  note f = update_fields[OF upd]
  have root: "root_of r' = root_of r" "root_of r1 = root_of r" and cd: "cosDocument r1 = cosDocument r"
    by (simp_all add: root_of_def f r1_def)
  have changed: "changed_object l r' i \<longleftrightarrow> (\<exists>k d. (k, d) \<in> set changed \<and> fst k = i)" for i
    by (fastforce simp: changed_object_def changed_def f changed_refs_iff)
  have upd1: "rootUpdate r1 \<longleftrightarrow> changed_object l r' (rootObjectId r')"
    by (fastforce simp: r1_def changed list_ex_iff f)
  show ?thesis
  proof (cases "rootUpdate r1")
    case False
    then have "scanSafe sc = []" using sc by (auto simp: scan_root_def)
    then show ?thesis
      using flags(3) False upd1 extra_doc[of r' r] f by (fastforce simp: safe_step_def changed)
  next
    case True
    with sc flags(2) obtain doc es where doc: "cosDocument r = Some doc" "root_of r = Some (CosDictionary es)"
      and fold: "sc = fold (root_item E doc (root_of l)) es \<lparr>scanLegal = True, scanChanged = [], scanAdded = [], scanSafe = []\<rparr>"
      by (auto simp: scan_root_def Let_def root(2) cd split: option.splits cos.splits)
    have permits: "root_permits E r' i" if "i \<in> set (scanSafe sc)" for i
    proof -
      have "set (scanSafe sc) \<subseteq> (\<Union>(n, v) \<in> set es. set (addSafeObjects E n v doc []))"
        using root_fold_safe[of E doc "root_of l" es] unfolding fold by fastforce
      with that obtain n v where "(n, v) \<in> set es" "i \<in> set (addSafeObjects E n v doc [])" by auto
      then show ?thesis using addSafeObjects_permitted[of i E n v doc es r'] doc by (simp add: f root)
    qed
    have items: "\<exists>les. root_of l = Some (CosDictionary les) \<and> (\<forall>w. map_of les n = Some w \<and> n \<noteq> ''AcroForm'' \<longrightarrow> canon v = canon w)"
      if e: "(n, v) \<in> set es" for n v
    proof -
      from root_fold_legal[OF flags(2)[unfolded fold]] e obtain les where les: "root_of l = Some (CosDictionary les)"
        and other: "map_of les n \<noteq> Some CosOther" by fastforce
      have "canon v = canon w" if w: "map_of les n = Some w" "n \<noteq> ''AcroForm''" for w
      proof -
        have "obj_matches (object_value_of v) (object_value_of w)"
        proof (rule ccontr)
          assume "\<not> obj_matches (object_value_of v) (object_value_of w)"
          then have "n \<in> set (scanChanged sc)"
            using root_fold_changed[OF e les w(1)] other w(1) unfolding fold by auto
          with flags(1) w(2) show False by (auto simp: list_all_iff)
        qed
        moreover have "cos_wf v" "cos_wf w"
          using root_of_wf[OF wf(1) doc(2)] root_of_wf[OF wf(2) les] e map_of_SomeD[OF w(1)]
          by (auto simp: cos_wf_Dictionary simp del: cos_wf.simps)
        ultimately show ?thesis using obj_matches_canon by blast
      qed
      with les show ?thesis by blast
    qed
    show ?thesis
      using flags(3) permits True upd1 extra_doc[of r' r] f items doc(2) unfolding safe_step_def changed root
      by fastforce
  qed
qed

lemma unchanged_safe:
  assumes "changed_refs (xrefTable l) (xrefTable r) = []"
  shows "\<exists>u. getXrefUpdates E addGeneralSafeObjects r (Some l) = Inr u
    \<and> safeUpdate u \<and> root_of u = root_of r \<and> rootObjectId u = rootObjectId r"
  using assms by (simp add: getXrefUpdates_def Let_def scan_root_def add_fields root_of_def split: option.split)

lemma loop_step:
  "xref_loop E addGeneralSafeObjects l rs = Inr rs' \<Longrightarrow> Suc i < length rs'
    \<Longrightarrow> \<exists>r \<in> set rs. getXrefUpdates E addGeneralSafeObjects r (Some (rs' ! i)) = Inr (rs' ! Suc i)"
proof (induction rs arbitrary: l rs' i)
  case (Cons r rs)
  from Cons.prems(1) obtain r1 rs1 where r1: "getXrefUpdates E addGeneralSafeObjects r l = Inr r1"
    and rs1: "xref_loop E addGeneralSafeObjects (Some r1) rs = Inr rs1" "rs' = r1 # rs1"
    by (auto split: sum.splits)
  show ?case
  proof (cases i)
    case 0
    with Cons.prems(2) rs1 obtain r2 rs2 where "rs = r2 # rs2" by (cases rs) auto
    with 0 rs1 show ?thesis by (auto split: sum.splits)
  next
    case (Suc j)
    with Cons.IH[OF rs1(1), of j] Cons.prems(2) rs1(2) show ?thesis by auto
  qed
qed simp

lemma loop_fields:
  "xref_loop E addGeneralSafeObjects l rs = Inr rs' \<Longrightarrow> map rev_length rs' = map rev_length rs
    \<and> (\<forall>r' \<in> set rs'. \<exists>r \<in> set rs. cosDocument r' = cosDocument r)"
proof (induction rs arbitrary: l rs')
  case (Cons r rs)
  from Cons.prems obtain r1 rs1 where r1: "getXrefUpdates E addGeneralSafeObjects r l = Inr r1"
    and rs1: "xref_loop E addGeneralSafeObjects (Some r1) rs = Inr rs1" "rs' = r1 # rs1"
    by (auto split: sum.splits)
  from Cons.IH[OF rs1(1)] rs1(2) update_fields(1,2)[OF r1] show ?case by auto
qed simp

lemma loop_safe:
  assumes loop: "xref_loop E addGeneralSafeObjects l rs = Inr rs'" and wf: "\<forall>r \<in> set rs. objects_wf r"
    and i: "Suc i < length rs'" "safeUpdate (rs' ! Suc i)"
  shows "safe_step E extra (rs' ! i) (rs' ! Suc i)"
proof -
  from loop_step[OF loop i(1)] obtain r where r: "r \<in> set rs"
    "getXrefUpdates E addGeneralSafeObjects r (Some (rs' ! i)) = Inr (rs' ! Suc i)" by blast
  have "rs' ! i \<in> set rs'" using i(1) by simp
  with loop_fields[OF loop] wf have "objects_wf (rs' ! i)" by (fastforce simp: objects_wf_def)
  with update_safe[OF r(2) i(2)] wf r(1) show ?thesis by blast
qed

end

text \<open>Both implementations keep the contract.\<close>

definition strict_extra :: "doc_revision \<Rightarrow> int set" where
  "strict_extra r = {}"

text \<open>The objects of the document security store, the extensions, the metadata and the document information.\<close>

definition default_extra :: "'x pdf_env_scheme \<Rightarrow> doc_revision \<Rightarrow> int set" where
  "default_extra E r =
     (case (cosDocument r, root_of r) of
        (Some doc, Some (CosDictionary es)) \<Rightarrow>
          {i. \<exists>n g. n \<in> {''DSS'', ''Extensions'', ''Metadata''} \<and> map_of es n = Some (CosObject (i, g))} \<union> set (dss_objects E doc es)
      | _ \<Rightarrow> {})
     \<union> set (info_object E (trailer r))"

interpretation strict: general_safe_objects strict_addGeneralSafeObjects strict_extra
  by unfold_locales (simp_all add: strict_addGeneralSafeObjects_def strict_extra_def)

lemma addSafeOjects_set:
  "set (addSafeOjects es names) = {i. \<exists>n g. n \<in> set names \<and> map_of es n = Some (CosObject (i, g))}"
proof -
  have "(case v of Some (CosObject k) \<Rightarrow> Some (fst k) | _ \<Rightarrow> None) = Some i \<longleftrightarrow> (\<exists>g. v = Some (CosObject (i, g)))"
    for v and i :: int
    by (cases v) (auto split: cos.split)
  then show ?thesis by (auto simp: addSafeOjects_def set_map_filter)
qed

interpretation default: general_safe_objects "default_addGeneralSafeObjects E" "default_extra E" for E
proof
  fix r q :: doc_revision
  show "default_addGeneralSafeObjects E r = r\<lparr>safeObjects := safeObjects (default_addGeneralSafeObjects E r)\<rparr>"
    by (simp add: default_addGeneralSafeObjects_def)
  show "set (safeObjects (default_addGeneralSafeObjects E r)) = set (safeObjects r) \<union> default_extra E r"
    by (auto simp: default_addGeneralSafeObjects_def default_extra_def addSafeOjects_set split: option.splits cos.splits)
  assume "cosDocument r = cosDocument q" "rootObject r = rootObject q" "trailer r = trailer q"
  then show "default_extra E r = default_extra E q" by (simp add: default_extra_def root_of_def)
qed

subsection \<open>The revisions of a context\<close>

definition pdf_wf :: "'x pdf_env_scheme \<Rightarrow> bool" where
  "pdf_wf E \<longleftrightarrow> (\<forall>b doc k c. loadPDF E b = Inr doc \<longrightarrow> docObject doc k = Some c \<longrightarrow> cos_wf c)"

lemma revision_end_le: "i + 5 \<le> length pdf \<Longrightarrow> revision_end pdf i \<le> length pdf"
  by (auto simp: revision_end_def Let_def)

lemma getRevision_le:
  assumes "getRevision pdf sigs prior = Inr (Some r)" "case prior of None \<Rightarrow> True | Some p \<Rightarrow> rev_length p \<le> length pdf"
  shows "rev_length r \<le> length pdf"
proof -
  let ?len = "case prior of None \<Rightarrow> int (length pdf) | Some r \<Rightarrow> int (rev_length r) - 5"
  from assms(1) obtain i where i: "lastIndexOf EOF (copyOf pdf (nat ?len)) = Some i" and r: "rev_length r = revision_end pdf i"
    by (auto simp: getRevision_def Let_def new_revision_def split: if_splits option.splits sum.splits prod.splits)
  have "i + 5 \<le> length (copyOf pdf (nat ?len))"
    using search_down_Some[OF i[unfolded lastIndexOf_def]] EOF_bound by blast
  moreover have "nat ?len \<le> length pdf" using assms(2) by (auto split: option.splits)
  ultimately show ?thesis using revision_end_le r by (simp add: copyOf_def)
qed

lemma revision_loop_le:
  "revision_loop pdf sigs prior = Inr revs \<Longrightarrow> (case prior of None \<Rightarrow> True | Some p \<Rightarrow> rev_length p \<le> length pdf)
    \<Longrightarrow> \<forall>r \<in> set revs. rev_length r \<le> length pdf"
proof (induction pdf sigs prior arbitrary: revs rule: revision_loop.induct)
  case (1 pdf sigs prior)
  show ?case
  proof (cases "getRevision pdf sigs prior")
    case (Inr v)
    show ?thesis
    proof (cases v)
      case None
      with Inr 1(2) show ?thesis by (simp add: revision_loop.simps[of pdf sigs prior])
    next
      case (Some r)
      with Inr 1(2) obtain rs where rs: "revision_loop pdf sigs (Some (PDFDocRevision r)) = Inr rs" "revs = PDFDocRevision r # rs"
        by (auto simp: revision_loop.simps[of pdf sigs prior] simp del: revision_loop.simps split: sum.splits)
      have "rev_length r \<le> length pdf" using getRevision_le Inr Some 1(3) by blast
      with 1(1)[OF Inr Some rs(1)] rs(2) show ?thesis by simp
    qed
  qed (use 1(2) in \<open>simp add: revision_loop.simps[of pdf sigs prior]\<close>)
qed

lemma load_revisions_loaded:
  "load_revisions E pdf rs = Inr ls \<Longrightarrow> l \<in> set ls \<Longrightarrow>
     \<exists>r \<in> set rs. rev_length l = rev_length r \<and> (\<exists>doc. cosDocument l = Some doc \<and> loadPDF E (copyOf pdf (rev_length r)) = Inr doc)"
proof (induction rs arbitrary: ls)
  case (Cons r rs)
  from Cons.prems(1) obtain v ls' where v: "load_revision E pdf r = Inr v" "load_revisions E pdf rs = Inr ls'"
    "ls = (case v of None \<Rightarrow> ls' | Some x \<Rightarrow> x # ls')"
    by (auto split: sum.splits)
  show ?case
  proof (cases "l \<in> set ls'")
    case True
    with Cons.IH[OF v(2)] show ?thesis by auto
  next
    case False
    with v(3) Cons.prems(2) have "v = Some l" by (auto split: option.splits)
    with v(1) show ?thesis by (auto simp: load_revision_def split: sum.splits option.splits cos.splits if_splits)
  qed
qed simp

lemma index_from_nat:
  "index_from i len rs = k \<Longrightarrow> k \<noteq> - 1 \<Longrightarrow>
     \<exists>j. k = int (i + j) \<and> j < length rs \<and> int (rev_length (rs ! j)) = len"
proof (induction rs arbitrary: i)
  case (Cons r rs)
  show ?case
  proof (cases "int (rev_length r) = len")
    case False
    with Cons.IH[of "Suc i"] Cons.prems obtain j where "k = int (Suc i + j)" "j < length rs" "int (rev_length (rs ! j)) = len" by auto
    then show ?thesis by (intro exI[of _ "Suc j"]) simp
  qed (use Cons.prems in \<open>auto intro: exI[of _ 0]\<close>)
qed simp

lemma getSignatureRevisionIndex_found:
  assumes "getSignatureRevisionIndex C sig = Inr k" "k \<noteq> - 1"
  shows "\<exists>i. k = int i \<and> i < length (PDFDocRevisions C) \<and> sig_length sig = Inr (int (rev_length (PDFDocRevisions C ! i)))"
  using assms index_from_nat[of 0 _ "PDFDocRevisions C" k] by (auto simp: getSignatureRevisionIndex_def split: sum.splits)

text \<open>
  C9. A signature that is reported to cover the whole document ends with a revision of the file, the
  signed document is the prefix of the file up to it, and each later revision is a safe step from the
  one before: an object that both have at different positions is the root object of the later one or one of the
  permitted objects, and when the object with the number of the later root is among them, each entry of
  the later root but the form has the value it had in the root before, as far as the comparison of the code tells (references by
  number, names and strings without case, numbers by their integer part), or is new. In the strict setting
  only the form, its fonts and the target of the open action are permitted, and only along with such a
  change of the root. This is all that is promised of the root: entries may be left out, the form may have another value, and
  a later revision may name an object as root that has not moved, or that is new, whatever is in it (\<open>new_root_is_safe\<close>).
\<close>

theorem covers_whole_document:
  assumes "pdf_wf E" and ctx: "getPdfSignatureContext E strict pdf = Inr C" and cov: "isCoversWholeDocument C sig = Inr True"
  shows "\<exists>i < length (PDFDocRevisions C).
    sig_length sig = Inr (int (rev_length (PDFDocRevisions C ! i)))
    \<and> getSignedDocument C sig = Inr (take (rev_length (PDFDocRevisions C ! i)) pdf)
    \<and> (\<forall>j. i \<le> j \<longrightarrow> Suc j < length (PDFDocRevisions C) \<longrightarrow>
         safe_step E (if strict then strict_extra else default_extra E) (PDFDocRevisions C ! j) (PDFDocRevisions C ! Suc j))"
proof -
  let ?add = "if strict then strict_addGeneralSafeObjects else default_addGeneralSafeObjects E"
  from ctx obtain sigs found loaded where found: "revision_loop pdf sigs None = Inr found"
    and loaded: "load_revisions E pdf found = Inr loaded"
    and revs: "xref_loop E ?add None (sort_key rev_length loaded) = Inr (PDFDocRevisions C)" and bytes: "pdfBytes C = pdf"
    by (auto simp: getPdfSignatureContext_def extractPdfRevisionData_def simp del: revision_loop.simps split: sum.splits)
  have wf: "\<forall>r \<in> set (sort_key rev_length loaded). objects_wf r"
  proof
    fix r
    assume "r \<in> set (sort_key rev_length loaded)"
    with load_revisions_loaded[OF loaded, of r] assms(1) show "objects_wf r"
      unfolding pdf_wf_def objects_wf_def by (metis option.inject set_sort)
  qed
  have le: "rev_length r \<le> length pdf" if "r \<in> set (PDFDocRevisions C)" for r
  proof -
    have "map rev_length (PDFDocRevisions C) = map rev_length (sort_key rev_length loaded)"
      using revs by (cases strict) (auto dest: strict.loop_fields default.loop_fields)
    then have "rev_length r \<in> rev_length ` set loaded" using that by (metis image_eqI set_map set_sort)
    then show ?thesis using load_revisions_loaded[OF loaded] revision_loop_le[OF found] by fastforce
  qed
  from cov obtain k where k: "getSignatureRevisionIndex C sig = Inr k" "k \<noteq> - 1"
    and later: "k \<noteq> int (length (PDFDocRevisions C)) - 1 \<Longrightarrow> list_all safeUpdate (drop (Suc (nat k)) (PDFDocRevisions C))"
    by (auto simp: isCoversWholeDocument_def split: sum.splits if_splits)
  from getSignatureRevisionIndex_found[OF k] obtain i where i: "k = int i" "i < length (PDFDocRevisions C)"
    "sig_length sig = Inr (int (rev_length (PDFDocRevisions C ! i)))" by blast
  have "getSignedDocument C sig = Inr (take (rev_length (PDFDocRevisions C ! i)) pdf)"
    using k i le[of "PDFDocRevisions C ! i"] by (simp add: getSignedDocument_def bytes copyOf_def)
  moreover have "safe_step E (if strict then strict_extra else default_extra E) (PDFDocRevisions C ! j) (PDFDocRevisions C ! Suc j)"
    if j: "i \<le> j" "Suc j < length (PDFDocRevisions C)" for j
  proof -
    have "list_all safeUpdate (drop (Suc i) (PDFDocRevisions C))" using later i j by auto
    then have "\<forall>n < length (PDFDocRevisions C) - Suc i. safeUpdate (PDFDocRevisions C ! (Suc i + n))"
      by (simp add: list_all_length)
    from this[rule_format, of "j - i"] have "safeUpdate (PDFDocRevisions C ! Suc j)" using j by simp
    then show ?thesis
      using revs wf j(2) by (cases strict) (simp_all add: strict.loop_safe default.loop_safe)
  qed
  ultimately show ?thesis using i by blast
qed

text \<open>
  A revision that moves no object of the one before is a safe update, whatever its root object
  is: the comparison of the root dictionaries is made only when the cross reference of the
  root has changed, so a revision whose trailer names a new object as root passes.
\<close>

theorem new_root_is_safe:
  assumes "\<forall>k l v. map_of (xrefTable r) k = Some l \<longrightarrow> (k, v) \<in> set (xrefTable r') \<longrightarrow> v = l"
  shows "\<exists>u. getXrefUpdates E (if strict then strict_addGeneralSafeObjects else default_addGeneralSafeObjects E) r' (Some r) = Inr u
    \<and> safeUpdate u \<and> root_of u = root_of r' \<and> rootObjectId u = rootObjectId r'"
proof -
  have none: "changed_refs (xrefTable r) (xrefTable r') = []"
    using changed_refs_iff[of _ _ _ "xrefTable r" "xrefTable r'"] assms by (metis list.set_intros(1) neq_Nil_conv surj_pair)
  then show ?thesis
    by (cases strict) (simp_all add: strict.unchanged_safe default.unchanged_safe)
qed

subsection \<open>Later updates\<close>

definition plain_update :: "doc_revision \<Rightarrow> bool" where
  "plain_update r \<longleftrightarrow> \<not> signature r \<and> \<not> validDSS r"

lemma extended_loop_iff: "extended_loop rs \<longleftrightarrow> (\<exists>r. List.find plain_update rs = Some r \<and> \<not> safeUpdate r)"
  by (induction rs) (auto simp: plain_update_def)

text \<open>
  An alarm of \<open>isSignatureExtendedByNonSafeUpdates\<close> is justified: some later revision that is neither a
  signature nor a valid DSS update is unsafe; and a signature that covers the whole document raises
  none. But only the first such later revision is looked at: when it is safe the answer is
  false, whatever updates follow it.
\<close>

theorem extended_by_unsafe_update:
  assumes "getSignatureRevisionIndex C sig = Inr (int i)" and revs: "PDFDocRevisions C = before @ later" "length before = Suc i"
  shows "(isSignatureExtendedByNonSafeUpdates C sig = Inr True \<longrightarrow> (\<exists>r \<in> set later. plain_update r \<and> \<not> safeUpdate r))
    \<and> (isCoversWholeDocument C sig = Inr True \<longrightarrow> isSignatureExtendedByNonSafeUpdates C sig = Inr False)
    \<and> (\<forall>mid r rest. later = mid @ r # rest \<and> list_all (\<lambda>q. \<not> plain_update q) mid \<and> plain_update r \<and> safeUpdate r
         \<longrightarrow> isSignatureExtendedByNonSafeUpdates C sig = Inr False)"
proof -
  have ext: "isSignatureExtendedByNonSafeUpdates C sig = Inr (extended_loop later)"
    using assms by (simp add: isSignatureExtendedByNonSafeUpdates_def)
  have "\<exists>r \<in> set later. plain_update r \<and> \<not> safeUpdate r" if "extended_loop later"
    using that find_Some_in unfolding extended_loop_iff by metis
  moreover have "\<not> extended_loop later" if "isCoversWholeDocument C sig = Inr True"
  proof -
    have "list_all safeUpdate later"
      using that assms by (cases "later = []") (auto simp: isCoversWholeDocument_def split: if_splits)
    then show ?thesis unfolding extended_loop_iff list_all_iff by (metis find_Some_in)
  qed
  moreover have "\<not> extended_loop (mid @ r # rest)" if "list_all (\<lambda>q. \<not> plain_update q) mid" "plain_update r" "safeUpdate r" for mid r rest
    using that by (induction mid) (auto simp: plain_update_def)
  ultimately show ?thesis unfolding ext by auto
qed

subsection \<open>Witnesses\<close>

text \<open>A file of two revisions: a signature revision and an update whose trailer names a new root object.\<close>

definition demo_pdf :: bytes where
  "demo_pdf = [1] @ EOF @ [0x0a, 2] @ EOF @ [0x0d, 0x0a]"

definition demo_pdf_doc :: "int \<Rightarrow> pdf_doc" where
  "demo_pdf_doc n =
     \<lparr>docTrailer = Some [(''Root'', CosObject (n, 0))],
      docXref = (if n = 1 then [((1, 0), 10)] else [((1, 0), 10), ((2, 0), 99)]),
      docObject = (\<lambda>k. Some (CosDictionary [(''Pages'', CosObject (n + 10, 0))]))\<rparr>"

definition demo_signature :: pd_signature where
  "demo_signature = \<lparr>byteRange = Inr [0, 2, 3, 4], subFilter = None\<rparr>"

definition demo_pdf_env :: pdf_env where
  "demo_pdf_env =
     \<lparr>loadPDF = (\<lambda>b. Inr (demo_pdf_doc (if length b < 10 then 1 else 2))), signaturesOf = (\<lambda>_. Inr [demo_signature]),
      hashOrder = (\<lambda>ks. ks)\<rparr>"

lemma demo_pdf_bytes: "demo_pdf = [1, 0x25, 0x25, 0x45, 0x4F, 0x46, 0x0a, 2, 0x25, 0x25, 0x45, 0x4F, 0x46, 0x0d, 0x0a]"
  by (simp add: demo_pdf_def EOF_def)

lemma demo_sig_length: "sig_length demo_signature = Inr 7"
  by (simp add: sig_length_def demo_signature_def jint_def)

lemma demo_eof_positions: "eof_positions demo_pdf = [1, 8]"
  by (simp add: eof_positions_def demo_pdf_bytes occurs_at_def EOF_def upt_rec)

theorem revision_scan_witness:
  "\<exists>revs. revision_loop demo_pdf [demo_signature] None = Inr revs \<and> map rev_length revs = [15, 7]"
proof -
  have "\<forall>s \<in> set [demo_signature]. \<exists>l. sig_length s = Inr l" by (simp add: demo_sig_length)
  moreover have "revision_end demo_pdf 8 = 15" "revision_end demo_pdf 1 = 7"
    by (simp_all add: revision_end_def demo_pdf_bytes)
  ultimately show ?thesis using revision_scan[of "[demo_signature]" demo_pdf] by (auto simp: demo_eof_positions)
qed

lemma demo_pdf_wf: "pdf_wf demo_pdf_env"
  by (auto simp: pdf_wf_def demo_pdf_env_def demo_pdf_doc_def)

lemma demo_revision_loop: "revision_loop demo_pdf [demo_signature] None = Inr [new_revision 15 False False, new_revision 7 True False]"
proof -
  have e: "revision_end demo_pdf 8 = 15" "revision_end demo_pdf (Suc 0) = 7" by (simp_all add: revision_end_def demo_pdf_bytes)
  have g0: "getRevision demo_pdf [demo_signature] None = Inr (Some (new_revision 15 False False))"
    using last_index[of "length demo_pdf" demo_pdf] e
    by (simp add: getRevision_def demo_eof_positions demo_sig_length) (simp add: demo_pdf_bytes)
  have len: "length demo_pdf = 15" by (simp add: demo_pdf_bytes)
  have nl: "rev_length (new_revision a b d) = a" for a b d by (simp add: new_revision_def)
  have g1: "getRevision demo_pdf [demo_signature] (Some (new_revision 15 False False)) = Inr (Some (new_revision 7 True False))"
    using last_index[of 10 demo_pdf] e
    by (simp add: getRevision_def demo_eof_positions demo_sig_length nl len) (simp add: demo_signature_def)
  have g2: "getRevision demo_pdf [demo_signature] (Some (new_revision 7 True False)) = Inr None"
    using last_index[of 2 demo_pdf] by (simp add: getRevision_def demo_eof_positions new_revision_def) (simp add: demo_pdf_bytes)
  have c: "PDFDocRevision (new_revision a b d) = new_revision a b d" for a b d by (simp add: PDFDocRevision_def new_revision_def)
  show ?thesis
    by (subst revision_loop.simps, simp add: g0 c del: revision_loop.simps,
        subst revision_loop.simps, simp add: g1 c del: revision_loop.simps,
        subst revision_loop.simps, simp add: g2 c del: revision_loop.simps)
qed

text \<open>
  A file of two revisions with the same root object. The second adds an entry to the root, which has moved along with the
  form that it names, and leaves the pages.
\<close>

definition demo_updated :: "bool \<Rightarrow> pdf_doc" where
  "demo_updated later =
     \<lparr>docTrailer = Some [(''Root'', CosObject (1, 0))],
      docXref = (if later then [((1, 0), 30), ((5, 0), 40), ((7, 0), 50)] else [((1, 0), 10), ((5, 0), 20)]),
      docObject = (\<lambda>k. if k = (1, 0)
        then Some (CosDictionary ([(''Pages'', CosObject (11, 0)), (''AcroForm'', CosObject (5, 0))] @ (if later then [(''DSS'', CosObject (7, 0))] else [])))
        else None)\<rparr>"

definition demo_update_env :: pdf_env where
  "demo_update_env =
     \<lparr>loadPDF = (\<lambda>b. Inr (demo_updated (\<not> length b < 10))), signaturesOf = (\<lambda>_. Inr [demo_signature]), hashOrder = (\<lambda>ks. ks)\<rparr>"

lemma demo_update_wf: "pdf_wf demo_update_env"
  by (auto simp: pdf_wf_def demo_update_env_def demo_updated_def)

definition demo_revision :: "bool \<Rightarrow> doc_revision" where
  "demo_revision later = (new_revision (if later then 15 else 7) (\<not> later) False)\<lparr>cosDocument := Some (demo_updated later), trailer := docTrailer (demo_updated later),
     rootObject := Some (1, 0), rootObjectId := 1, xrefTable := docXref (demo_updated later)\<rparr>"

lemma demo_changed: "changed_refs (docXref (demo_updated False)) (docXref (demo_updated True)) = [((1, 0), 10, 30), ((5, 0), 20, 40)]"
  by (simp add: changed_refs_def demo_updated_def List.map_filter_def)

lemma demo_items:
  "fold (root_item demo_update_env (demo_updated True) (docObject (demo_updated False) (1, 0)))
     [(''Pages'', CosObject (11, 0)), (''AcroForm'', CosObject (5, 0)), (''DSS'', CosObject (7, 0))]
     \<lparr>scanLegal = True, scanChanged = [], scanAdded = [], scanSafe = []\<rparr>
   = \<lparr>scanLegal = True, scanChanged = [], scanAdded = [''DSS''], scanSafe = [5]\<rparr>"
  by code_simp

lemma demo_roots:
  "docObject (demo_updated True) (1, 0) =
     Some (CosDictionary [(''Pages'', CosObject (11, 0)), (''AcroForm'', CosObject (5, 0)), (''DSS'', CosObject (7, 0))])"
  by (simp add: demo_updated_def)

lemma demo_update_safe:
  assumes "xrefTable r = docXref (demo_updated False)" "root_of r = docObject (demo_updated False) (1, 0)"
  shows "\<exists>q. getXrefUpdates demo_update_env strict_addGeneralSafeObjects (demo_revision True) (Some r) = Inr q
     \<and> safeUpdate q \<and> rev_length q = 15 \<and> rootObjectId q = 1 \<and> xrefTable q = docXref (demo_updated True)"
proof -
  have tab: "xrefTable (demo_revision True) = docXref (demo_updated True)" "rootObjectId (demo_revision True) = 1"
    "cosDocument (demo_revision True) = Some (demo_updated True)" "rootObject (demo_revision True) = Some (1, 0)" "rev_length (demo_revision True) = 15"
    by (simp_all add: demo_revision_def new_revision_def)
  have root: "cosDocument x = Some (demo_updated True) \<Longrightarrow> rootObject x = Some (1, 0) \<Longrightarrow> root_of x = docObject (demo_updated True) (1, 0)" for x
    by (simp add: root_of_def)
  show ?thesis
    by (simp add: getXrefUpdates_def Let_def assms tab demo_changed scan_root_def root demo_roots strict_addGeneralSafeObjects_def
        demo_items[simplified] del: fold_simps)
qed

lemma demo_context:
  "\<exists>C r q. getPdfSignatureContext demo_update_env True demo_pdf = Inr C \<and> PDFDocRevisions C = [r, q]
     \<and> rev_length r = 7 \<and> rev_length q = 15 \<and> safeUpdate q \<and> rootObjectId q = 1 \<and> changed_object r q 1"
proof -
  have load: "load_revision demo_update_env demo_pdf (new_revision n s False) = Inr (Some (demo_revision (n = 15)))"
    if "n = 15 \<and> \<not> s \<or> n = 7 \<and> s" for n s
    using that by (auto simp: load_revision_def demo_update_env_def demo_revision_def new_revision_def copyOf_def demo_pdf_bytes) (simp_all add: demo_updated_def)
  have len: "rev_length (demo_revision later) = (if later then 15 else 7)" for later by (simp add: demo_revision_def new_revision_def)
  let ?r = "demo_revision False"
  have "\<exists>r. getXrefUpdates demo_update_env strict_addGeneralSafeObjects ?r None = Inr r \<and> rev_length r = 7
      \<and> xrefTable r = docXref (demo_updated False) \<and> root_of r = docObject (demo_updated False) (1, 0)"
    by (simp add: getXrefUpdates_def Let_def changed_refs_def List.map_filter_def scan_root_def strict_addGeneralSafeObjects_def)
      (simp add: demo_revision_def new_revision_def root_of_def)
  then obtain r where r: "getXrefUpdates demo_update_env strict_addGeneralSafeObjects ?r None = Inr r" "rev_length r = 7"
    "xrefTable r = docXref (demo_updated False)" "root_of r = docObject (demo_updated False) (1, 0)" by blast
  from demo_update_safe[OF r(3,4)] obtain q where q: "getXrefUpdates demo_update_env strict_addGeneralSafeObjects (demo_revision True) (Some r) = Inr q"
    "safeUpdate q" "rev_length q = 15" "rootObjectId q = 1" "xrefTable q = docXref (demo_updated True)" by blast
  have sigs: "signaturesOf demo_update_env demo_pdf = Inr [demo_signature]" by (simp add: demo_update_env_def)
  have "changed_object r q 1" by (auto simp: changed_object_def r(3) q(5) demo_updated_def)
  with r q show ?thesis
    by (simp add: getPdfSignatureContext_def extractPdfRevisionData_def sigs demo_revision_loop load len del: revision_loop.simps)
qed

theorem covers_whole_document_witness:
  "\<exists>C r q. getPdfSignatureContext demo_update_env True demo_pdf = Inr C \<and> PDFDocRevisions C = [r, q]
     \<and> isCoversWholeDocument C demo_signature = Inr True \<and> getSignedDocument C demo_signature = Inr (take 7 demo_pdf)
     \<and> changed_object r q (rootObjectId q) \<and> safe_step demo_update_env strict_extra r q"
proof -
  from demo_context obtain C r q where C: "getPdfSignatureContext demo_update_env True demo_pdf = Inr C" "PDFDocRevisions C = [r, q]"
    "rev_length r = 7" "rev_length q = 15" "safeUpdate q" "rootObjectId q = 1" "changed_object r q 1" by blast
  then have cov: "isCoversWholeDocument C demo_signature = Inr True"
    by (simp add: isCoversWholeDocument_def getSignatureRevisionIndex_def demo_sig_length)
  from covers_whole_document[OF demo_update_wf C(1) cov] obtain i where i: "i < length [r, q]" "rev_length ([r, q] ! i) = 7"
    "getSignedDocument C demo_signature = Inr (take (rev_length ([r, q] ! i)) demo_pdf)"
    "\<forall>j. i \<le> j \<longrightarrow> Suc j < length [r, q] \<longrightarrow> safe_step demo_update_env strict_extra ([r, q] ! j) ([r, q] ! Suc j)"
    unfolding C(2) by (auto simp: demo_sig_length simp del: nth_Cons' list.size)
  from i(1,2) C(3,4) have "i = 0" by (cases i) auto
  with i(3,4) C cov show ?thesis by auto
qed

text \<open>The second revision of the example has another root with other pages, and is safe.\<close>

definition demo_loaded :: "int \<Rightarrow> doc_revision" where
  "demo_loaded n = (new_revision 7 True False)\<lparr>cosDocument := Some (demo_pdf_doc n), rootObject := Some (n, 0), rootObjectId := n,
     xrefTable := docXref (demo_pdf_doc n)\<rparr>"

theorem new_root_is_safe_witness:
  "\<exists>u. getXrefUpdates demo_pdf_env strict_addGeneralSafeObjects (demo_loaded 2) (Some (demo_loaded 1)) = Inr u
     \<and> safeUpdate u \<and> root_of u \<noteq> root_of (demo_loaded 1)"
proof -
  have "\<forall>k l v. map_of (xrefTable (demo_loaded 1)) k = Some l \<longrightarrow> (k, v) \<in> set (xrefTable (demo_loaded 2)) \<longrightarrow> v = l"
    by (simp add: demo_loaded_def demo_pdf_doc_def)
  from new_root_is_safe[OF this, of demo_pdf_env True] show ?thesis
    by (auto simp: demo_loaded_def root_of_def demo_pdf_doc_def)
qed

text \<open>A signature revision, a safe update and an unsafe one: no alarm.\<close>

definition demo_extended :: signature_context where
  "demo_extended = \<lparr>pdfBytes = [],
     PDFDocRevisions = [new_revision 7 True False, (new_revision 9 False False)\<lparr>safeUpdate := True\<rparr>, new_revision 12 False False],
     signatures = [demo_signature]\<rparr>"

theorem extended_by_unsafe_update_witness:
  "isSignatureExtendedByNonSafeUpdates demo_extended demo_signature = Inr False
   \<and> \<not> safeUpdate (PDFDocRevisions demo_extended ! 2) \<and> plain_update (PDFDocRevisions demo_extended ! 2)"
proof -
  have idx: "getSignatureRevisionIndex demo_extended demo_signature = Inr (int 0)"
    by (simp add: getSignatureRevisionIndex_def demo_sig_length demo_extended_def new_revision_def)
  have revs: "PDFDocRevisions demo_extended = [new_revision 7 True False]
      @ [(new_revision 9 False False)\<lparr>safeUpdate := True\<rparr>, new_revision 12 False False]"
    by (simp add: demo_extended_def)
  note t = extended_by_unsafe_update[OF idx revs, THEN conjunct2, THEN conjunct2, rule_format]
  have "isSignatureExtendedByNonSafeUpdates demo_extended demo_signature = Inr False"
    by (rule t[of "[]" "(new_revision 9 False False)\<lparr>safeUpdate := True\<rparr>" "[new_revision 12 False False]"])
      (simp_all add: plain_update_def new_revision_def)
  then show ?thesis by (simp add: demo_extended_def plain_update_def new_revision_def)
qed

end
