(* ===== verification/Sig_Policy.thy ===== *)
theory Sig_Policy
  imports Time_Stamp PDF_Context
begin

text \<open>
  How a signature is concluded: the steps of \<open>XMLSignatureElementValidatorImpl.validateSignature\<close> after the signature value
  was checked (the certificate, the XAdES properties, the time stamps and the policy), the last steps of
  \<open>PDFSingleSignatureValidatorImpl.verifySignature\<close>, and the policies: the basic one and the PKIX one, with their abstract
  classes. The validation result is a bean of another library: the fields that are read and written are a record,
  and its two methods that are more than an accessor (\<open>isSuccess\<close>, \<open>setError\<close>) are parameters. The policies of
  the JOSE module are those of the XML module, word for word but for the type of the result.
\<close>

subsection \<open>Results\<close>

datatype sig_status =
    SUCCESS | ERROR_INVALID_SIGNATURE | ERROR_SIGNER_INVALID | ERROR_NOT_TRUSTED | ERROR_SIGNER_NOT_ACCEPTED
  | ERROR_BAD_FORMAT | INTERDETERMINE | OtherStatus nat

record time_claims =
  tc_id :: string
  tc_iss :: string
  tc_time :: int
  tc_type :: string
  tc_val :: "policy_claims option list"

record time_validation =
  tv_claims :: "time_claims option"
  tv_certResult :: "cert_validation option"
  tv_timeStamp :: "time_stamp option"

record sigval_result =
  sv_status :: "sig_status option"
  statusMessage :: "string option"
  sv_exception :: "path_error option"
  signerCertificate :: "cert option"
  signatureCertificateChain :: "cert list option"
  certificateValidationResult :: "cert_validation option"
  timeValidationResults :: "time_validation list option"
  etsiAdes :: bool
  invalidSignCert :: bool
  validationPolicyResultList :: "policy_claims list option"
  pdfSignature :: "pd_signature option"

record sigval_bean =
  isSuccess :: "sigval_result \<Rightarrow> bool"
  setError :: "sig_status \<Rightarrow> string option \<Rightarrow> path_error \<Rightarrow> sigval_result \<Rightarrow> sigval_result"

text \<open>What the library says of the two methods.\<close>

definition bean_ok :: "sigval_bean \<Rightarrow> bool" where
  "bean_ok B \<longleftrightarrow> (\<forall>r. isSuccess B r \<longleftrightarrow> sv_status r = Some SUCCESS)
     \<and> (\<forall>s m x r. setError B s m x r = r\<lparr>sv_status := Some s, statusMessage := m, sv_exception := Some x\<rparr>)"

record policy_result =
  pr_claims :: policy_claims
  pr_status :: "sig_status option"

definition SIG_VALIDATION_POLICY_BASIC_VALIDATION :: string where
  "SIG_VALIDATION_POLICY_BASIC_VALIDATION = ''http://id.swedenconnect.se/svt/sigval-policy/basic/01''"

definition SIG_VALIDATION_POLICY_PKIX_VALIDATION :: string where
  "SIG_VALIDATION_POLICY_PKIX_VALIDATION = ''http://id.swedenconnect.se/svt/sigval-policy/pkix/01''"

definition SIG_VALIDATION_POLICY_TIMESTAMPED_PKIX_VALIDATION :: string where
  "SIG_VALIDATION_POLICY_TIMESTAMPED_PKIX_VALIDATION = ''http://id.swedenconnect.se/svt/sigval-policy/ts-pkix/01''"

definition concluded :: "string \<Rightarrow> conclusion \<Rightarrow> string option \<Rightarrow> sig_status option \<Rightarrow> policy_result" where
  "concluded p r m s = \<lparr>pr_claims = \<lparr>pol = p, res = Some r, msg = m\<rparr>, pr_status = s\<rparr>"

subsection \<open>The abstract policies\<close>

type_synonym 'a policy_check = "sigval_result \<Rightarrow> ('a world_scheme, exn, policy_result) jm"

definition path_of_result :: "sigval_result \<Rightarrow> cert list option" where
  "path_of_result r =
     (case certificateValidationResult r of None \<Rightarrow> Some [] | Some v \<Rightarrow> getValidatedCertificatePath v)"

definition validatePolicy :: "string \<Rightarrow> 'a policy_check \<Rightarrow> 'a policy_check" where
  "validatePolicy p performAdditionalValidityChecks r =
     (case sv_status r of
        None \<Rightarrow> throw npe
      | Some ERROR_NOT_TRUSTED \<Rightarrow>
          ret (concluded p INDETERMINATE (Some ''No certificate path found to a trusted root'') (Some ERROR_NOT_TRUSTED))
      | Some s \<Rightarrow>
          if s \<in> {ERROR_INVALID_SIGNATURE, ERROR_SIGNER_INVALID, ERROR_SIGNER_NOT_ACCEPTED, ERROR_BAD_FORMAT}
          then ret (concluded p FAILED (statusMessage r) (Some s))
          else if path_of_result r = None \<or> path_of_result r = Some []
          then ret (concluded p INDETERMINATE (Some ''No certificate path found to a trusted root'') (Some ERROR_NOT_TRUSTED))
          else performAdditionalValidityChecks r)"

text \<open>The class of the PDF module also asks the signature context for updates after the signature.\<close>

definition validatePolicy_pdf :: "sigval_bean \<Rightarrow> string \<Rightarrow> 'a policy_check \<Rightarrow> signature_context \<Rightarrow> 'a policy_check" where
  "validatePolicy_pdf B p performAdditionalValidityChecks C r =
     (if \<not> isSuccess B r then ret (concluded p FAILED (statusMessage r) (Some ERROR_INVALID_SIGNATURE))
      else
     bnd (deref (pdfSignature r)) (\<lambda>sig.
     bnd (lift_sum (isSignatureExtendedByNonSafeUpdates C sig)) (\<lambda>unsafe.
      if unsafe then ret (concluded p FAILED (Some ''Document content was altered after signing'') (Some ERROR_INVALID_SIGNATURE))
      else if path_of_result r = None \<or> path_of_result r = Some []
      then ret (concluded p INDETERMINATE (Some ''No valid certificate path was found'') (Some ERROR_NOT_TRUSTED))
      else performAdditionalValidityChecks r)))"

subsection \<open>The basic policies\<close>

definition basic_checks :: "sigval_bean \<Rightarrow> 'a policy_check" where
  "basic_checks B r =
     ret (if isSuccess B r then concluded SIG_VALIDATION_POLICY_BASIC_VALIDATION PASSED (Some ''OK'') (Some SUCCESS)
          else concluded SIG_VALIDATION_POLICY_BASIC_VALIDATION FAILED (statusMessage r) (sv_status r))"

definition basic_checks_pdf :: "'a policy_check" where
  "basic_checks_pdf r = ret (concluded SIG_VALIDATION_POLICY_BASIC_VALIDATION PASSED (Some ''OK'') (Some SUCCESS))"

subsection \<open>The PKIX policy\<close>

record pkix_policy =
  enforceCurrentTimeValidation :: bool
  revocationGracePeriod :: int

definition default_pkix_policy :: pkix_policy where
  "default_pkix_policy = \<lparr>enforceCurrentTimeValidation = False, revocationGracePeriod = 1000 * 60 * 60 * 24\<rparr>"

definition getValidationPolicy :: "pkix_policy \<Rightarrow> string" where
  "getValidationPolicy K =
     (if enforceCurrentTimeValidation K then SIG_VALIDATION_POLICY_PKIX_VALIDATION else SIG_VALIDATION_POLICY_TIMESTAMPED_PKIX_VALIDATION)"

text \<open>A time validation without a time stamp, as a validation token gives them, is dereferenced all the same.\<close>

fun verified_timestamps :: "time_validation list \<Rightarrow> exn + time_stamp list" where
  "verified_timestamps [] = Inr []"
| "verified_timestamps (v # vs) =
     (case tv_timeStamp v of
        None \<Rightarrow> Inl npe
      | Some ts \<Rightarrow>
     (case hasVerifiedTimestamp ts of
        Inl e \<Rightarrow> Inl e
      | Inr b \<Rightarrow>
     (case verified_timestamps vs of
        Inl e \<Rightarrow> Inl e
      | Inr rest \<Rightarrow> Inr (if b then ts # rest else rest))))"

fun first_date :: "time_stamp list \<Rightarrow> date \<Rightarrow> exn + date" where
  "first_date [] firstDate = Inr firstDate"
| "first_date (ts # tss) firstDate =
     (case tstInfo ts of
        None \<Rightarrow> Inl npe
      | Some i \<Rightarrow>
     (case genTime i of
        Inl e \<Rightarrow> if exn_class e = ParseException then first_date tss firstDate else Inl e
      | Inr tsDate \<Rightarrow> first_date tss (if tsDate < firstDate then tsDate else firstDate)))"

definition checkRevocationTime ::
  "(nat \<Rightarrow> date) \<Rightarrow> int \<Rightarrow> validation_status \<Rightarrow> time_validation list option \<Rightarrow> ('a world_scheme, exn, bool) jm" where
  "checkRevocationTime clk grace st results =
     (case results of
        None \<Rightarrow> ret False
      | Some vs \<Rightarrow>
     (case vs_revocationTime st of
        None \<Rightarrow> ret False
      | Some revocationTime \<Rightarrow>
     bnd (lift_sum (verified_timestamps vs)) (\<lambda>tss.
     bnd (read_env clk) (\<lambda>now.
     bnd (lift_sum (first_date tss now)) (\<lambda>d.
     ret (jlong (d + grace) < revocationTime))))))"

fun all_revoked_late ::
  "(nat \<Rightarrow> date) \<Rightarrow> int \<Rightarrow> validation_status list \<Rightarrow> time_validation list option \<Rightarrow> ('a world_scheme, exn, bool) jm" where
  "all_revoked_late clk grace [] results = ret True"
| "all_revoked_late clk grace (st # sts) results =
     bnd (checkRevocationTime clk grace st results) (\<lambda>b.
     if b then all_revoked_late clk grace sts results else ret False)"

definition status_list :: "sigval_result \<Rightarrow> exn + validation_status list" where
  "status_list r =
     (case certificateValidationResult r of
        None \<Rightarrow> Inl npe
      | Some (OtherResult _) \<Rightarrow> Inl (Exn ClassCastException None)
      | Some (PathResult p) \<Rightarrow> (case resultStatusList p of None \<Rightarrow> Inl npe | Some sts \<Rightarrow> Inr sts))"

definition pkix_decision :: "(nat \<Rightarrow> date) \<Rightarrow> pkix_policy \<Rightarrow> 'a policy_check" where
  "pkix_decision clk K r =
     (let p = getValidationPolicy K;
          no_revocation = (case sv_exception r of
              Some x \<Rightarrow> concluded p FAILED (throwable_message x) (Some ERROR_INVALID_SIGNATURE)
            | None \<Rightarrow> concluded p PASSED (Some ''OK'') (Some SUCCESS)) in
     bnd (lift_sum (status_list r)) (\<lambda>sts.
     if list_ex (\<lambda>st. vs_validity st = INVALID) sts
     then ret (concluded p FAILED (Some ''Invalid certificate in certificate path'') (Some ERROR_SIGNER_INVALID))
     else if list_ex (\<lambda>st. vs_validity st = UNKNOWN) sts
     then ret (concluded p INDETERMINATE (Some ''Validity of the signature could not be determined'') (Some ERROR_NOT_TRUSTED))
     else if \<not> enforceCurrentTimeValidation K \<and> filter (\<lambda>st. vs_validity st = REVOKED) sts \<noteq> []
     then bnd (all_revoked_late clk (revocationGracePeriod K) (filter (\<lambda>st. vs_validity st = REVOKED) sts) (timeValidationResults r)) (\<lambda>late.
          ret (if late
               then concluded p PASSED (Some ''Certificate revoked after trusted timestamp time'') (Some ERROR_SIGNER_INVALID)
               else concluded p FAILED (Some ''Certificate revoked'') (Some ERROR_SIGNER_INVALID)))
     else ret no_revocation))"

definition pkix_checks :: "(nat \<Rightarrow> date) \<Rightarrow> pkix_policy \<Rightarrow> 'a policy_check" where
  "pkix_checks clk K r =
     try_catch (pkix_decision clk K r) (\<lambda>e.
       ret (concluded (getValidationPolicy K) FAILED
              (Some (''Unable to obtain path validation results: '' @ text_of (getMessage e))) (Some ERROR_INVALID_SIGNATURE)))"

definition pkix_validatePolicy :: "(nat \<Rightarrow> date) \<Rightarrow> pkix_policy \<Rightarrow> 'a policy_check" where
  "pkix_validatePolicy clk K = validatePolicy (getValidationPolicy K) (pkix_checks clk K)"

subsection \<open>The certificate and the policy of a signature\<close>

definition certificate_step ::
  "sigval_bean \<Rightarrow> 'a cert_validator option \<Rightarrow> sigval_result \<Rightarrow> ('a world_scheme, exn, sigval_result) jm" where
  "certificate_step B certificateValidator r =
     (case certificateValidator of
        None \<Rightarrow> ret r
      | Some v \<Rightarrow>
          if \<not> isSuccess B r then ret r
          else (\<lambda>s.
            case v (signerCertificate r) (signatureCertificateChain r) None s of
              (Inr validatorResult, s') \<Rightarrow> (Inr (r\<lparr>certificateValidationResult := validatorResult\<rparr>), s')
            | (Inl x, s') \<Rightarrow>
                (case x of
                   ExtendedEx y \<Rightarrow>
                     (let r1 = r\<lparr>certificateValidationResult := Some (PathResult (pathValidationResult y))\<rparr> in
                      (Inr (if validatedCertificatePath (pathValidationResult y) = None \<or> validatedCertificatePath (pathValidationResult y) = Some []
                            then setError B ERROR_NOT_TRUSTED (throwable_message x) x r1 else r1), s'))
                 | BuilderEx e \<Rightarrow>
                     (Inr (setError B ERROR_NOT_TRUSTED
                        (Some (''Failed to build a path to a trusted root for signer certificate - '' @ text_of (getMessage e))) x r), s')
                 | Unchecked e \<Rightarrow>
                     if \<not> is_exception e then (Inl e, s')
                     else (Inr (setError B ERROR_SIGNER_INVALID
                        (Some (''Certificate path validation failure for signer certificate - '' @ text_of (getMessage e))) x r), s'))))"

definition policy_step :: "'a policy_check \<Rightarrow> sigval_result \<Rightarrow> ('a world_scheme, exn, sigval_result) jm" where
  "policy_step policy r =
     bnd (policy r) (\<lambda>pr.
     bnd (deref (res (pr_claims pr))) (\<lambda>c.
     let r1 = (if c \<noteq> PASSED
               then r\<lparr>sv_status := pr_status pr, statusMessage := msg (pr_claims pr),
                       sv_exception := Some (Unchecked (Exn SignatureException (msg (pr_claims pr))))\<rparr>
               else r)
     in ret (r1\<lparr>validationPolicyResultList := Some [pr_claims pr]\<rparr>)))"

text \<open>In the PDF module every failure of the certificate is recorded as an exception, and the status stays.\<close>

definition certificate_step_pdf :: "'a cert_validator \<Rightarrow> sigval_result \<Rightarrow> ('a world_scheme, exn, sigval_result) jm" where
  "certificate_step_pdf v r = (\<lambda>s.
     case v (signerCertificate r) (signatureCertificateChain r) None s of
       (Inr validationResult, s') \<Rightarrow> (Inr (r\<lparr>certificateValidationResult := validationResult\<rparr>), s')
     | (Inl x, s') \<Rightarrow>
         (case x of
            ExtendedEx y \<Rightarrow>
              (Inr (r\<lparr>certificateValidationResult := Some (PathResult (pathValidationResult y)),
                      statusMessage := throwable_message x, sv_exception := Some x\<rparr>), s')
          | BuilderEx e \<Rightarrow>
              (Inr (r\<lparr>statusMessage := Some ''Signer certificate failed path validation'', sv_exception := Some x\<rparr>), s')
          | Unchecked e \<Rightarrow>
              if \<not> is_exception e then (Inl e, s')
              else (Inr (r\<lparr>statusMessage := Some ''Signer certificate failed path validation'', sv_exception := Some x\<rparr>), s')))"

definition conclude_pdf ::
  "'a cert_validator \<Rightarrow> (signature_context \<Rightarrow> 'a policy_check) \<Rightarrow> signature_context \<Rightarrow> sigval_result \<Rightarrow> ('a world_scheme, exn, sigval_result) jm" where
  "conclude_pdf v policy C r = bnd (certificate_step_pdf v r) (policy_step (policy C))"

subsection \<open>The time stamps of a signature\<close>

fun hex_digits :: "nat \<Rightarrow> string" where
  "hex_digits n = (if n < 16 then [''0123456789abcdef'' ! n] else hex_digits (n div 16) @ [''0123456789abcdef'' ! (n mod 16)])"

declare hex_digits.simps [simp del]

definition toString16 :: "int \<Rightarrow> string" where
  "toString16 i = (if i < 0 then ''-'' @ hex_digits (nat (- i)) else hex_digits (nat i))"

definition seconds :: "date \<Rightarrow> int" where
  "seconds d = (if d < 0 then - (- d div 1000) else d div 1000)"

abbreviation TIME_VERIFICATION_TYPE_SIG_TIMESTAMP :: string where
  "TIME_VERIFICATION_TYPE_SIG_TIMESTAMP \<equiv> ''http://id.swedenconnect.se/svt/timeval-type/sig-timestamp/01''"

definition getVerifiedTimeFromTimeStamp :: "time_stamp \<Rightarrow> string \<Rightarrow> exn + time_claims option" where
  "getVerifiedTimeFromTimeStamp ts ty =
     (case (tstInfo ts, tsSigCert ts) of
        (Some i, Some sc) \<Rightarrow>
          (case genTime i of
             Inl e \<Rightarrow> if is_exception e then Inr None else Inl e
           | Inr d \<Rightarrow>
               Inr (Some \<lparr>tc_id = toString16 (tstSerial i), tc_iss = subjectDN sc, tc_time = seconds d, tc_type = ty,
                          tc_val = policyValidationClaimsList ts\<rparr>))
      | _ \<Rightarrow> Inr None)"

definition getTimeValidationResult :: "time_stamp \<Rightarrow> exn + time_validation option" where
  "getTimeValidationResult ts =
     (case getVerifiedTimeFromTimeStamp ts TIME_VERIFICATION_TYPE_SIG_TIMESTAMP of
        Inl e \<Rightarrow> Inl e
      | Inr None \<Rightarrow> Inr None
      | Inr (Some c) \<Rightarrow> Inr (Some \<lparr>tv_claims = Some c, tv_certResult = tsCertificateValidationResult ts, tv_timeStamp = Some ts\<rparr>))"

text \<open>The stamped bytes are null when they could not be canonicalized.\<close>

definition signature_timestamps ::
  "'x ts_env_scheme \<Rightarrow> 'a ts_policy_verifier \<Rightarrow> (bytes \<times> bytes option) list \<Rightarrow> ('a world_scheme, exn, time_stamp list) jm" where
  "signature_timestamps T V xs =
     bnd (map_m (\<lambda>(tsBytes, data). attempt (new_TimeStamp T V tsBytes data)) xs) (\<lambda>rs.
     ret (filter (\<lambda>ts. tstInfo ts \<noteq> None) (List.map_filter (\<lambda>r. case r of Inl e \<Rightarrow> None | Inr ts \<Rightarrow> Some ts) rs)))"

definition time_validations :: "time_stamp list \<Rightarrow> ('s, exn, time_validation list) jm" where
  "time_validations tss = bnd (map_m (\<lambda>ts. lift_sum (getTimeValidationResult ts)) tss) (\<lambda>vs. ret (List.map_filter id vs))"

subsection \<open>An XML signature without a validation token\<close>

record xades_data =
  hasQualifyingProperties :: bool
  xadesVerified :: bool
  signatureTimeStamps :: "(bytes \<times> bytes option) list option"

record 'a xml_validator =
  bean :: sigval_bean
  certificateValidator :: "'a cert_validator option"
  tsEnv :: ts_env
  timeStampPolicyVerifier :: "'a ts_policy_verifier"
  signaturePolicyValidator :: "'a policy_check"

definition parse_failed :: "'a xml_validator \<Rightarrow> exn \<Rightarrow> sigval_result \<Rightarrow> sigval_result" where
  "parse_failed W e r = setError (bean W) ERROR_INVALID_SIGNATURE (Some ''Failed to parse signature data'') (Unchecked e) r"

definition xades_step :: "'a xml_validator \<Rightarrow> xades_data \<Rightarrow> sigval_result \<Rightarrow> sigval_result" where
  "xades_step W xa r =
     (let r1 = r\<lparr>etsiAdes := hasQualifyingProperties xa, invalidSignCert := \<not> xadesVerified xa\<rparr>;
          m = ''Signature is XAdES signature, but signature certificate does not match signed certificate digest''
      in if etsiAdes r1 \<and> invalidSignCert r1
         then setError (bean W) ERROR_SIGNER_INVALID (Some m) (BuilderEx (Exn CertPathBuilderException (Some m))) r1
         else r1)"

definition timestamp_step :: "'a xml_validator \<Rightarrow> xades_data \<Rightarrow> ('a world_scheme, exn, time_validation list) jm" where
  "timestamp_step W xa =
     (case signatureTimeStamps xa of
        None \<Rightarrow> ret []
      | Some xs \<Rightarrow> bnd (signature_timestamps (tsEnv W) (timeStampPolicyVerifier W) xs) time_validations)"

text \<open>
  From the result of \<open>validateSignatureElement\<close> to the end: an exception in a later step is recorded in the result as
  the steps before it left it. The XAdES properties are what the parser finds for the certificate.
\<close>

definition conclude_signature ::
  "'a xml_validator \<Rightarrow> (cert option \<Rightarrow> exn + xades_data) \<Rightarrow> sigval_result \<Rightarrow> ('a world_scheme, exn, sigval_result) jm" where
  "conclude_signature W xades r0 =
     bnd (attempt (certificate_step (bean W) (certificateValidator W) r0)) (\<lambda>c.
     case c of
       Inl e \<Rightarrow> ret (parse_failed W e r0)
     | Inr r1 \<Rightarrow>
     (case xades (signerCertificate r1) of
        Inl e \<Rightarrow> if is_exception e then ret (parse_failed W e r1) else throw e
      | Inr xa \<Rightarrow>
     bnd (attempt (timestamp_step W xa)) (\<lambda>t.
     case t of
       Inl e \<Rightarrow> ret (parse_failed W e (xades_step W xa r1))
     | Inr tvs \<Rightarrow>
     (let r4 = (xades_step W xa r1)\<lparr>timeValidationResults := Some tvs\<rparr> in
     bnd (attempt (policy_step (signaturePolicyValidator W) r4)) (\<lambda>p.
     case p of Inl e \<Rightarrow> ret (parse_failed W e r4) | Inr r5 \<Rightarrow> ret r5)))))"

subsection \<open>The earliest time that is proved\<close>

definition stamped :: "time_stamp set \<Rightarrow> date set" where
  "stamped tss = {d. \<exists>ts \<in> tss. \<exists>i. tstInfo ts = Some i \<and> genTime i = Inr d}"

definition verified_set :: "time_validation list \<Rightarrow> time_stamp set" where
  "verified_set vs = {ts. \<exists>v \<in> set vs. tv_timeStamp v = Some ts \<and> hasVerifiedTimestamp ts = Inr True}"

text \<open>The revocation is later, by more than the grace period, than the earliest of the verified time stamps and the present.\<close>

definition revoked_late :: "date \<Rightarrow> int \<Rightarrow> time_validation list option \<Rightarrow> validation_status \<Rightarrow> bool" where
  "revoked_late present grace results st \<longleftrightarrow>
     (\<exists>vs t. results = Some vs \<and> vs_revocationTime st = Some t \<and> jlong (Min (insert present (stamped (verified_set vs))) + grace) < t)"

lemma stamped_insert: "stamped (insert ts A) = (case tstInfo ts of None \<Rightarrow> {} | Some i \<Rightarrow> (case genTime i of Inl e \<Rightarrow> {} | Inr d \<Rightarrow> {d})) \<union> stamped A"
  by (auto simp: stamped_def split: option.splits sum.splits)

lemma stamped_empty [simp]: "stamped {} = {}"
  by (simp add: stamped_def)

lemma finite_stamped: "finite A \<Longrightarrow> finite (stamped A)"
  by (induction A rule: finite_induct) (auto simp: stamped_insert split: option.splits sum.splits)

lemma first_date_Min: "first_date tss d0 = Inr d \<Longrightarrow> d = Min (insert d0 (stamped (set tss)))"
proof (induction tss arbitrary: d0)
  case (Cons ts tss)
  have fin: "finite (stamped (set tss))" by (simp add: finite_stamped)
  from Cons.prems obtain i where i: "tstInfo ts = Some i" by (auto split: option.splits)
  show ?case
  proof (cases "genTime i")
    case (Inl e)
    with Cons i show ?thesis by (auto simp: stamped_insert split: if_splits)
  next
    case (Inr t)
    have "insert d0 (insert t (stamped (set tss))) = insert t (insert d0 (stamped (set tss)))" by auto
    moreover have "d = Min (insert (min t d0) (stamped (set tss)))"
      using Cons i Inr by (auto simp: min_def split: if_splits)
    ultimately show ?thesis using i Inr fin
      by (cases "stamped (set tss) = {}") (auto simp: stamped_insert min.assoc min.left_commute)
  qed
qed simp

lemma verified_timestamps_set: "verified_timestamps vs = Inr tss \<Longrightarrow> set tss = verified_set vs"
proof (induction vs arbitrary: tss)
  case (Cons v vs)
  then obtain ts b rest where "tv_timeStamp v = Some ts" "hasVerifiedTimestamp ts = Inr b" "verified_timestamps vs = Inr rest"
      "tss = (if b then ts # rest else rest)"
    by (auto split: option.splits sum.splits)
  with Cons.IH[of rest] show ?case by (auto simp: verified_set_def)
qed (simp add: verified_set_def)

lemma checkRevocationTime_True:
  assumes "checkRevocationTime clk grace st results s = (Inr True, s')"
  shows "revoked_late (clk (tick s)) grace results st \<and> tick s \<le> tick s'"
  using assms
  by (auto simp: checkRevocationTime_def revoked_late_def jrun_simps split: option.splits sum.splits
      dest!: verified_timestamps_set first_date_Min)

lemma all_revoked_late_True:
  "all_revoked_late clk grace sts results s = (Inr True, s') \<Longrightarrow>
   \<forall>st \<in> set sts. \<exists>n \<ge> tick s. revoked_late (clk n) grace results st"
proof (induction sts arbitrary: s)
  case (Cons st sts)
  from Cons.prems obtain s1 where "checkRevocationTime clk grace st results s = (Inr True, s1)"
      "all_revoked_late clk grace sts results s1 = (Inr True, s')"
    by (auto simp: jrun_simps split: prod.splits sum.splits if_splits)
  with Cons.IH[of s1] checkRevocationTime_True[of clk grace st results s s1] show ?case
    by (metis (no_types, lifting) order.trans order_refl set_ConsD)
qed simp

subsection \<open>What the PKIX policy accepts\<close>

text \<open>The statuses of an accepted path: none invalid or unknown, and the revoked ones revoked late.\<close>

definition statuses_accepted ::
  "(nat \<Rightarrow> date) \<Rightarrow> pkix_policy \<Rightarrow> nat \<Rightarrow> time_validation list option \<Rightarrow> validation_status list \<Rightarrow> bool" where
  "statuses_accepted clk K n0 results sts \<longleftrightarrow>
     (\<forall>st \<in> set sts. vs_validity st = VALID
        \<or> (vs_validity st = REVOKED \<and> (\<exists>n \<ge> n0. revoked_late (clk n) (revocationGracePeriod K) results st)))"

definition has_revoked :: "validation_status list \<Rightarrow> bool" where
  "has_revoked sts \<longleftrightarrow> (\<exists>st \<in> set sts. vs_validity st = REVOKED)"

lemma not_invalid_or_unknown:
  "\<not> list_ex (\<lambda>st. vs_validity st = INVALID) sts \<Longrightarrow> \<not> list_ex (\<lambda>st. vs_validity st = UNKNOWN) sts \<Longrightarrow> st \<in> set sts \<Longrightarrow>
   vs_validity st = VALID \<or> vs_validity st = REVOKED"
  by (cases "vs_validity st") (auto simp: list_ex_iff)

lemma concluded_fields [simp]:
  "res (pr_claims (concluded p c m st)) = Some c" "pr_status (concluded p c m st) = st" "pol (pr_claims (concluded p c m st)) = p"
  "msg (pr_claims (concluded p c m st)) = m"
  by (simp_all add: concluded_def)

lemma pkix_checks_res: "pkix_checks clk K r s = (Inr pr, s') \<Longrightarrow> res (pr_claims pr) \<noteq> Some PASSED \<Longrightarrow> pr_status pr \<noteq> Some SUCCESS"
  by (auto simp: pkix_checks_def pkix_decision_def jrun_simps Let_def split: prod.splits sum.splits if_splits option.splits)

lemma pkix_checks_passed:
  assumes "pkix_checks clk K r s = (Inr pr, s')" "res (pr_claims pr) = Some PASSED"
  shows "\<exists>sts. status_list r = Inr sts
    \<and> (if enforceCurrentTimeValidation K \<or> \<not> has_revoked sts
       then sv_exception r = None \<and> list_all (\<lambda>st. vs_validity st = VALID \<or> vs_validity st = REVOKED) sts
       else statuses_accepted clk K (tick s) (timeValidationResults r) sts)"
proof -
  from assms have dec: "pkix_decision clk K r s = (Inr pr, s')"
    by (auto simp: pkix_checks_def jrun_simps split: prod.splits sum.splits if_splits)
  then obtain sts where sts: "status_list r = Inr sts"
    by (auto simp: pkix_decision_def jrun_simps Let_def split: sum.splits)
  have ok: "\<not> list_ex (\<lambda>st. vs_validity st = INVALID) sts" "\<not> list_ex (\<lambda>st. vs_validity st = UNKNOWN) sts"
    using dec assms(2) sts by (auto simp: pkix_decision_def jrun_simps Let_def split: if_splits)
  note either = not_invalid_or_unknown[OF ok]
  show ?thesis
  proof (cases "enforceCurrentTimeValidation K \<or> \<not> has_revoked sts")
    case True
    then have "\<not> (\<not> enforceCurrentTimeValidation K \<and> filter (\<lambda>st. vs_validity st = REVOKED) sts \<noteq> [])"
      by (auto simp: has_revoked_def filter_empty_conv)
    then have "sv_exception r = None"
      using dec assms(2) sts ok by (auto simp: pkix_decision_def jrun_simps Let_def split: option.splits)
    with True sts either show ?thesis by (auto simp: list_all_iff)
  next
    case False
    then have "\<not> enforceCurrentTimeValidation K" "filter (\<lambda>st. vs_validity st = REVOKED) sts \<noteq> []"
      by (auto simp: has_revoked_def filter_empty_conv)
    then have "all_revoked_late clk (revocationGracePeriod K) (filter (\<lambda>st. vs_validity st = REVOKED) sts) (timeValidationResults r) s = (Inr True, s')"
      using dec assms(2) sts ok by (auto simp: pkix_decision_def jrun_simps Let_def split: prod.splits sum.splits if_splits)
    from all_revoked_late_True[OF this] either sts False show ?thesis by (auto simp: statuses_accepted_def)
  qed
qed

lemma status_list_Inr:
  "status_list r = Inr sts \<longleftrightarrow> (\<exists>p. certificateValidationResult r = Some (PathResult p) \<and> resultStatusList p = Some sts)"
  by (auto simp: status_list_def split: option.splits cert_validation.splits)

lemma validatePolicy_passed:
  assumes "validatePolicy p checks r s = (Inr pr, s')" "res (pr_claims pr) = Some PASSED"
  shows "checks r s = (Inr pr, s') \<and> (\<exists>path. path_of_result r = Some path \<and> path \<noteq> [])"
  using assms by (auto simp: validatePolicy_def jrun_simps split: option.splits sig_status.splits if_splits)

lemma validatePolicy_res:
  assumes "validatePolicy p checks r s = (Inr pr, s')" "res (pr_claims pr) \<noteq> Some PASSED" "pr_status pr = Some SUCCESS"
  shows "checks r s = (Inr pr, s')"
  using assms by (auto simp: validatePolicy_def jrun_simps split: option.splits sig_status.splits if_splits)

text \<open>
  Without enforced validation at the present time, the PKIX policy passes a signature only with a non-empty path whose
  certificates are all valid or revoked late: after the earliest verified time stamp, or the present, plus the grace period;
  with all of them valid no exception may be recorded.
\<close>

lemma pkix_policy_sound:
  assumes "pkix_validatePolicy clk K r s = (Inr pr, s')" "res (pr_claims pr) = Some PASSED" "\<not> enforceCurrentTimeValidation K"
  shows "\<exists>p path sts. certificateValidationResult r = Some (PathResult p) \<and> validatedCertificatePath p = Some path \<and> path \<noteq> []
    \<and> resultStatusList p = Some sts \<and> statuses_accepted clk K (tick s) (timeValidationResults r) sts
    \<and> (has_revoked sts \<or> sv_exception r = None)"
proof -
  note passed = validatePolicy_passed[OF assms(1)[unfolded pkix_validatePolicy_def] assms(2)]
  from pkix_checks_passed[OF passed[THEN conjunct1] assms(2)] obtain sts where sts: "status_list r = Inr sts"
    and "if \<not> has_revoked sts then sv_exception r = None \<and> list_all (\<lambda>st. vs_validity st = VALID \<or> vs_validity st = REVOKED) sts
         else statuses_accepted clk K (tick s) (timeValidationResults r) sts"
    using assms(3) by auto
  then have "statuses_accepted clk K (tick s) (timeValidationResults r) sts \<and> (has_revoked sts \<or> sv_exception r = None)"
    by (auto simp: statuses_accepted_def has_revoked_def list_all_iff split: if_splits)
  moreover from sts obtain p where "certificateValidationResult r = Some (PathResult p)" "resultStatusList p = Some sts"
    by (auto simp: status_list_Inr)
  ultimately show ?thesis using passed by (auto simp: path_of_result_def)
qed

lemma pkix_policy_res:
  assumes "pkix_validatePolicy clk K r s = (Inr pr, s')" "pr_status pr = Some SUCCESS"
  shows "res (pr_claims pr) = Some PASSED"
  using assms pkix_checks_res validatePolicy_res unfolding pkix_validatePolicy_def by blast

subsection \<open>What a validated XML signature stands for\<close>

lemma policy_step_Inr:
  assumes "policy_step policy r s = (Inr r', s')"
  shows "\<exists>pr c. policy r s = (Inr pr, s') \<and> res (pr_claims pr) = Some c \<and> validationPolicyResultList r' = Some [pr_claims pr]
    \<and> sv_status r' = (if c = PASSED then sv_status r else pr_status pr)"
proof -
  from assms obtain pr s1 where 1: "policy r s = (Inr pr, s1)"
    by (auto simp: policy_step_def jrun_simps split: prod.splits sum.splits)
  with assms obtain c where 2: "res (pr_claims pr) = Some c"
    by (cases "res (pr_claims pr)") (auto simp: policy_step_def jrun_simps)
  from assms[unfolded policy_step_def bnd_run deref_run 1 2] have "s1 = s'"
    and "validationPolicyResultList r' = Some [pr_claims pr] \<and> sv_status r' = (if c = PASSED then sv_status r else pr_status pr)"
    by (auto simp: jrun_simps Let_def 2)
  with 1 2 show ?thesis by blast
qed

text \<open>
  What a validator asks of its policy: a result with the status of a success has the conclusion that the signature passed. Then
  a success at the end was one before the policy.
\<close>

locale signature_policy =
  fixes policy :: "'a policy_check"
  assumes success_passed: "policy r s = (Inr pr, s') \<Longrightarrow> pr_status pr = Some SUCCESS \<Longrightarrow> res (pr_claims pr) = Some PASSED"
begin

lemma step_success:
  assumes "policy_step policy r s = (Inr r', s')" "sv_status r' = Some SUCCESS"
  shows "\<exists>pr. policy r s = (Inr pr, s') \<and> res (pr_claims pr) = Some PASSED \<and> sv_status r = Some SUCCESS
    \<and> validationPolicyResultList r' = Some [pr_claims pr]"
proof -
  from policy_step_Inr[OF assms(1)] obtain pr c where pr: "policy r s = (Inr pr, s')" "res (pr_claims pr) = Some c"
      "validationPolicyResultList r' = Some [pr_claims pr]" "sv_status r' = (if c = PASSED then sv_status r else pr_status pr)" by blast
  with assms(2) success_passed[OF pr(1)] have "c = PASSED" by (cases "c = PASSED") auto
  with pr assms(2) show ?thesis by auto
qed

end

interpretation pkix: signature_policy "pkix_validatePolicy clk K" for clk K
  by unfold_locales (rule pkix_policy_res)

lemma certificate_step_success:
  assumes "bean_ok B" "certificate_step B (Some v) r s = (Inr r', s')" "sv_status r' = Some SUCCESS"
  shows "sv_status r = Some SUCCESS \<and> sv_exception r' = sv_exception r \<and> signerCertificate r' = signerCertificate r
    \<and> (\<exists>x. v (signerCertificate r) (signatureCertificateChain r) None s = (x, s')
        \<and> (x = Inr (certificateValidationResult r')
          \<or> (\<exists>y. x = Inl (ExtendedEx y) \<and> certificateValidationResult r' = Some (PathResult (pathValidationResult y)))))"
  using assms
  by (auto simp: certificate_step_def bean_ok_def jrun_simps Let_def split: if_splits prod.splits sum.splits path_error.splits)

lemma xades_step_success:
  assumes "bean_ok (bean W)" "sv_status (xades_step W xa r) = Some SUCCESS"
  shows "sv_status r = Some SUCCESS \<and> (hasQualifyingProperties xa \<longrightarrow> xadesVerified xa)
    \<and> certificateValidationResult (xades_step W xa r) = certificateValidationResult r \<and> sv_exception (xades_step W xa r) = sv_exception r"
  using assms by (auto simp: xades_step_def bean_ok_def Let_def split: if_splits)

lemma parse_failed_status: "bean_ok (bean W) \<Longrightarrow> sv_status (parse_failed W e r) = Some ERROR_INVALID_SIGNATURE"
  by (simp add: parse_failed_def bean_ok_def)

lemma conclude_signature_success:
  assumes "bean_ok (bean W)" "conclude_signature W xades r0 s = (Inr r, s')" "sv_status r = Some SUCCESS"
  shows "\<exists>r1 s1 xa tvs s2. certificate_step (bean W) (certificateValidator W) r0 s = (Inr r1, s1)
    \<and> xades (signerCertificate r1) = Inr xa \<and> timestamp_step W xa s1 = (Inr tvs, s2)
    \<and> policy_step (signaturePolicyValidator W) ((xades_step W xa r1)\<lparr>timeValidationResults := Some tvs\<rparr>) s2 = (Inr r, s')"
proof -
  have bad: "parse_failed W e q \<noteq> r" for e q using parse_failed_status[OF assms(1), of e q] assms(3) by auto
  from assms(2) bad obtain r1 s1 where 1: "certificate_step (bean W) (certificateValidator W) r0 s = (Inr r1, s1)"
    by (auto simp: conclude_signature_def jrun_simps split: prod.splits sum.splits if_splits)
  with assms(2) bad obtain xa where 2: "xades (signerCertificate r1) = Inr xa"
    by (auto simp: conclude_signature_def jrun_simps split: sum.splits if_splits)
  with 1 assms(2) bad obtain tvs s2 where 3: "timestamp_step W xa s1 = (Inr tvs, s2)"
    by (auto simp: conclude_signature_def jrun_simps split: prod.splits sum.splits if_splits)
  with 1 2 assms(2) bad have "policy_step (signaturePolicyValidator W) ((xades_step W xa r1)\<lparr>timeValidationResults := Some tvs\<rparr>) s2 = (Inr r, s')"
    by (auto simp: conclude_signature_def jrun_simps Let_def split: prod.splits sum.splits if_splits)
  with 1 2 3 show ?thesis by blast
qed

text \<open>
  C6. An XML signature that ends as a success under the PKIX policy without enforced validation at the present time: its value
  was verified, it names its certificate when it is a XAdES signature, and the certificate validator gave a non-empty
  path, as its result or with its exception, whose certificates are all valid or revoked late in the sense of the
  time stamps of this signature.
\<close>

theorem xml_signature_sound:
  assumes "bean_ok (bean W)" "certificateValidator W = Some v" "signaturePolicyValidator W = pkix_validatePolicy clk K"
    and "\<not> enforceCurrentTimeValidation K"
    and "conclude_signature W xades r0 s = (Inr r, s')" "sv_status r = Some SUCCESS"
  shows "sv_status r0 = Some SUCCESS
    \<and> (\<exists>xa. xades (signerCertificate r0) = Inr xa \<and> (hasQualifyingProperties xa \<longrightarrow> xadesVerified xa)
        \<and> (\<exists>s1 s2 tvs. timestamp_step W xa s1 = (Inr tvs, s2)
            \<and> (\<exists>p path sts x. v (signerCertificate r0) (signatureCertificateChain r0) None s = (x, s1)
                \<and> (x = Inr (Some (PathResult p)) \<or> (\<exists>y. x = Inl (ExtendedEx y) \<and> pathValidationResult y = p))
                \<and> validatedCertificatePath p = Some path \<and> path \<noteq> [] \<and> resultStatusList p = Some sts
                \<and> statuses_accepted clk K (tick s2) (Some tvs) sts
                \<and> (has_revoked sts \<or> sv_exception r0 = None))))
    \<and> (\<exists>c. validationPolicyResultList r = Some [c] \<and> res c = Some PASSED)"
proof -
  from conclude_signature_success[OF assms(1,5,6)] obtain r1 s1 xa tvs s2 where
    c: "certificate_step (bean W) (Some v) r0 s = (Inr r1, s1)" and xa: "xades (signerCertificate r1) = Inr xa"
    and ts: "timestamp_step W xa s1 = (Inr tvs, s2)"
    and pol: "policy_step (signaturePolicyValidator W) ((xades_step W xa r1)\<lparr>timeValidationResults := Some tvs\<rparr>) s2 = (Inr r, s')"
    using assms(2) by auto
  let ?r4 = "(xades_step W xa r1)\<lparr>timeValidationResults := Some tvs\<rparr>"
  from pkix.step_success[OF pol[unfolded assms(3)] assms(6)] obtain pr where run: "pkix_validatePolicy clk K ?r4 s2 = (Inr pr, s')"
    and passed: "res (pr_claims pr) = Some PASSED" and r4: "sv_status (xades_step W xa r1) = Some SUCCESS"
    and list: "validationPolicyResultList r = Some [pr_claims pr]" by auto
  note x4 = xades_step_success[OF assms(1) r4]
  note c1 = certificate_step_success[OF assms(1) c x4[THEN conjunct1]]
  from pkix_policy_sound[OF run passed assms(4)] obtain p path sts where
    p: "certificateValidationResult r1 = Some (PathResult p)" "validatedCertificatePath p = Some path" "path \<noteq> []" "resultStatusList p = Some sts"
      "statuses_accepted clk K (tick s2) (Some tvs) sts" "has_revoked sts \<or> sv_exception r1 = None"
    using x4 by auto
  from c1 obtain x where x: "v (signerCertificate r0) (signatureCertificateChain r0) None s = (x, s1)"
      "x = Inr (Some (PathResult p)) \<or> (\<exists>y. x = Inl (ExtendedEx y) \<and> pathValidationResult y = p)"
    using p(1) by auto
  have "has_revoked sts \<or> sv_exception r0 = None" using p(6) c1 by simp
  moreover have "xades (signerCertificate r0) = Inr xa" using xa c1 by simp
  ultimately show ?thesis using x p ts x4 c1 passed list by blast
qed

subsection \<open>Enforced validation at the present time\<close>

lemma pkix_checks_enforced:
  assumes "enforceCurrentTimeValidation K" "certificateValidationResult r = Some (PathResult p)" "resultStatusList p = Some sts"
    and "list_all (\<lambda>st. vs_validity st = VALID \<or> vs_validity st = REVOKED) sts" "sv_exception r = None"
  shows "pkix_checks clk K r s = (Inr (concluded SIG_VALIDATION_POLICY_PKIX_VALIDATION PASSED (Some ''OK'') (Some SUCCESS)), s)"
proof -
  have "\<not> list_ex (\<lambda>st. vs_validity st = INVALID) sts" "\<not> list_ex (\<lambda>st. vs_validity st = UNKNOWN) sts"
    using assms(4) by (auto simp: list_all_iff list_ex_iff)
  with assms show ?thesis
    by (simp add: pkix_checks_def pkix_decision_def status_list_def jrun_simps Let_def getValidationPolicy_def)
qed

text \<open>
  C40. With enforced validation at the present time, which requires a certificate that is not revoked, an XML signature ends as
  a success although the validator threw because certificates of the path are revoked: the look at the revoked statuses
  is only made without enforcement, and this validator records no exception when there is a path.
\<close>

theorem enforced_policy_accepts_revoked:
  assumes "bean_ok (bean W)" "certificateValidator W = Some v" "signaturePolicyValidator W = pkix_validatePolicy clk K"
    and "enforceCurrentTimeValidation K"
    and "sv_status r0 = Some SUCCESS" "sv_exception r0 = None"
    and "v (signerCertificate r0) (signatureCertificateChain r0) None s = (Inl (ExtendedEx y), s1)"
    and "validatedCertificatePath (pathValidationResult y) = Some (c # path)" "resultStatusList (pathValidationResult y) = Some sts"
    and "list_all (\<lambda>st. vs_validity st = VALID \<or> vs_validity st = REVOKED) sts"
    and "xades (signerCertificate r0) = Inr xa" "\<not> hasQualifyingProperties xa" "signatureTimeStamps xa = None"
  shows "\<exists>r. conclude_signature W xades r0 s = (Inr r, s1) \<and> sv_status r = Some SUCCESS
    \<and> validationPolicyResultList r = Some [\<lparr>pol = SIG_VALIDATION_POLICY_PKIX_VALIDATION, res = Some PASSED, msg = Some ''OK''\<rparr>]"
proof -
  let ?r1 = "r0\<lparr>certificateValidationResult := Some (PathResult (pathValidationResult y))\<rparr>"
  let ?r4 = "(xades_step W xa ?r1)\<lparr>timeValidationResults := Some []\<rparr>"
  have cert: "certificate_step (bean W) (certificateValidator W) r0 s = (Inr ?r1, s1)"
    using assms(1,2,5,7,8) by (simp add: certificate_step_def bean_ok_def Let_def)
  have xa: "xades_step W xa ?r1 = ?r1\<lparr>etsiAdes := False, invalidSignCert := \<not> xadesVerified xa\<rparr>"
    using assms(12) by (simp add: xades_step_def Let_def)
  have "pkix_validatePolicy clk K ?r4 s1 = (Inr (concluded SIG_VALIDATION_POLICY_PKIX_VALIDATION PASSED (Some ''OK'') (Some SUCCESS)), s1)"
    using assms(4,5,6,8,9,10) unfolding pkix_validatePolicy_def validatePolicy_def xa
    by (simp add: path_of_result_def pkix_checks_enforced[of K _ "pathValidationResult y" sts])
  then have "policy_step (signaturePolicyValidator W) ?r4 s1
      = (Inr (?r4\<lparr>validationPolicyResultList := Some [\<lparr>pol = SIG_VALIDATION_POLICY_PKIX_VALIDATION, res = Some PASSED, msg = Some ''OK''\<rparr>]\<rparr>), s1)"
    by (simp add: policy_step_def jrun_simps assms(3) concluded_def Let_def)
  moreover have "timestamp_step W xa s1 = (Inr [], s1)" using assms(13) by (simp add: timestamp_step_def jrun_simps)
  ultimately show ?thesis using cert assms(5,11) xa by (simp add: conclude_signature_def jrun_simps Let_def)
qed

subsection \<open>What a validated PDF signature stands for\<close>

definition pkix_pdf_policy :: "sigval_bean \<Rightarrow> (nat \<Rightarrow> date) \<Rightarrow> pkix_policy \<Rightarrow> signature_context \<Rightarrow> 'a policy_check" where
  "pkix_pdf_policy B clk K = validatePolicy_pdf B (getValidationPolicy K) (pkix_checks clk K)"

lemma validatePolicy_pdf_Inr:
  assumes "validatePolicy_pdf B p checks C r s = (Inr pr, s')" "res (pr_claims pr) = Some PASSED \<or> pr_status pr = Some SUCCESS"
  shows "checks r s = (Inr pr, s') \<and> isSuccess B r
    \<and> (\<exists>sig path. pdfSignature r = Some sig \<and> isSignatureExtendedByNonSafeUpdates C sig = Inr False \<and> path_of_result r = Some path \<and> path \<noteq> [])"
  using assms by (auto simp: validatePolicy_pdf_def jrun_simps split: option.splits sum.splits if_splits)

interpretation pkix_pdf: signature_policy "pkix_pdf_policy B clk K C" for B clk K C
  by unfold_locales (use validatePolicy_pdf_Inr pkix_checks_res in \<open>unfold pkix_pdf_policy_def, blast\<close>)

interpretation basic_pdf: signature_policy "validatePolicy_pdf B p basic_checks_pdf C" for B p C
  by unfold_locales (auto dest!: validatePolicy_pdf_Inr simp: basic_checks_pdf_def jrun_simps)

lemma certificate_step_pdf_Inr:
  assumes "certificate_step_pdf v r s = (Inr r', s')" "sv_exception r = None"
  shows "sv_status r' = sv_status r \<and> pdfSignature r' = pdfSignature r \<and> timeValidationResults r' = timeValidationResults r
    \<and> (\<exists>x. v (signerCertificate r) (signatureCertificateChain r) None s = (x, s')
        \<and> (x = Inr (certificateValidationResult r') \<and> sv_exception r' = None
          \<or> (\<exists>y. x = Inl (ExtendedEx y) \<and> certificateValidationResult r' = Some (PathResult (pathValidationResult y)) \<and> sv_exception r' \<noteq> None)
          \<or> (certificateValidationResult r' = certificateValidationResult r \<and> sv_exception r' \<noteq> None)))"
  using assms by (auto simp: certificate_step_pdf_def split: if_splits prod.splits sum.splits path_error.splits)

text \<open>
  C7. A PDF signature that ends as a success under the PKIX policy: its value was verified, the document has no unsafe update of
  the first kind after it, and the certificate validator accepted a non-empty path; only without enforced validation
  may the validator have thrown, with a path whose certificates are all valid or revoked late.
\<close>

theorem pdf_signature_sound:
  assumes "bean_ok B" "sv_exception r0 = None" "certificateValidationResult r0 = None"
    and "conclude_pdf v (pkix_pdf_policy B clk K) C r0 s = (Inr r, s')" "sv_status r = Some SUCCESS"
  shows "sv_status r0 = Some SUCCESS
    \<and> (\<exists>sig. pdfSignature r0 = Some sig \<and> isSignatureExtendedByNonSafeUpdates C sig = Inr False)
    \<and> (\<exists>p path sts x s1. v (signerCertificate r0) (signatureCertificateChain r0) None s = (x, s1)
        \<and> validatedCertificatePath p = Some path \<and> path \<noteq> [] \<and> resultStatusList p = Some sts
        \<and> (x = Inr (Some (PathResult p))
          \<or> (\<not> enforceCurrentTimeValidation K \<and> (\<exists>y. x = Inl (ExtendedEx y) \<and> pathValidationResult y = p)
             \<and> has_revoked sts \<and> statuses_accepted clk K (tick s1) (timeValidationResults r0) sts)))"
proof -
  from assms(4) obtain r1 s1 where c: "certificate_step_pdf v r0 s = (Inr r1, s1)"
    and pol: "policy_step (pkix_pdf_policy B clk K C) r1 s1 = (Inr r, s')"
    by (auto simp: conclude_pdf_def jrun_simps split: prod.splits sum.splits)
  note c1 = certificate_step_pdf_Inr[OF c assms(2)]
  from pkix_pdf.step_success[OF pol assms(5)] obtain pr where run: "pkix_pdf_policy B clk K C r1 s1 = (Inr pr, s')"
    and passed: "res (pr_claims pr) = Some PASSED" by blast
  note pass = validatePolicy_pdf_Inr[OF run[unfolded pkix_pdf_policy_def] disjI1[OF passed]]
  from pkix_checks_passed[OF pass[THEN conjunct1] passed] obtain sts where sts: "status_list r1 = Inr sts"
    and acc: "if enforceCurrentTimeValidation K \<or> \<not> has_revoked sts
       then sv_exception r1 = None \<and> list_all (\<lambda>st. vs_validity st = VALID \<or> vs_validity st = REVOKED) sts
       else statuses_accepted clk K (tick s1) (timeValidationResults r1) sts" by blast
  from sts obtain p where p: "certificateValidationResult r1 = Some (PathResult p)" "resultStatusList p = Some sts"
    by (auto simp: status_list_Inr)
  from c1 obtain x where x: "v (signerCertificate r0) (signatureCertificateChain r0) None s = (x, s1)"
      "x = Inr (Some (PathResult p)) \<and> sv_exception r1 = None \<or> (\<exists>y. x = Inl (ExtendedEx y) \<and> pathValidationResult y = p) \<and> sv_exception r1 \<noteq> None"
    using p(1) assms(3) by auto
  have "x = Inr (Some (PathResult p)) \<or> (\<not> enforceCurrentTimeValidation K \<and> (\<exists>y. x = Inl (ExtendedEx y) \<and> pathValidationResult y = p)
             \<and> has_revoked sts \<and> statuses_accepted clk K (tick s1) (timeValidationResults r0) sts)"
    using acc x(2) c1 by (auto split: if_splits)
  moreover have "sv_status r0 = Some SUCCESS" "\<exists>sig. pdfSignature r0 = Some sig \<and> isSignatureExtendedByNonSafeUpdates C sig = Inr False"
    using pass c1 assms(1) by (auto simp: bean_ok_def)
  moreover obtain path where "validatedCertificatePath p = Some path" "path \<noteq> []"
    using pass p(1) by (auto simp: path_of_result_def)
  ultimately show ?thesis using x(1) p(2) by blast
qed

subsection \<open>Witnesses\<close>

definition plain_bean :: sigval_bean where
  "plain_bean = \<lparr>isSuccess = (\<lambda>r. sv_status r = Some SUCCESS),
     setError = (\<lambda>s m x r. r\<lparr>sv_status := Some s, statusMessage := m, sv_exception := Some x\<rparr>)\<rparr>"

definition late_status :: validation_status where
  "late_status = (status_builder REVOKED)\<lparr>vs_revocationTime := Some 7000\<rparr>"

lemma late_status_fields [simp]: "vs_validity late_status = REVOKED" "vs_revocationTime late_status = Some 7000"
  by (simp_all add: late_status_def status_builder_def)

definition revoked_path :: path_result where
  "revoked_path = empty_result\<lparr>validatedCertificatePath := Some [stamp_cert],
     resultStatusList := Some [late_status]\<rparr>"

definition revoked_exception :: ext_exception where
  "revoked_exception = \<lparr>cause = Exn RuntimeException (Some ''Certificate REVOKED for TSA''), exceptionPath = None, exceptionIndex = - 1,
     exceptionReason = ReasonRevoked, pathValidationResult = revoked_path\<rparr>"

definition revoked_validator :: "unit cert_validator" where
  "revoked_validator sc supporting crls = throw (ExtendedEx revoked_exception)"

definition verified_result :: sigval_result where
  "verified_result = \<lparr>sv_status = Some SUCCESS, statusMessage = None, sv_exception = None, signerCertificate = Some stamp_cert,
     signatureCertificateChain = None, certificateValidationResult = None, timeValidationResults = None, etsiAdes = False,
     invalidSignCert = False, validationPolicyResultList = None, pdfSignature = Some demo_signature\<rparr>"

definition small_policy :: "bool \<Rightarrow> pkix_policy" where
  "small_policy b = \<lparr>enforceCurrentTimeValidation = b, revocationGracePeriod = 1000\<rparr>"

definition small_validator :: "bool \<Rightarrow> unit xml_validator" where
  "small_validator b = \<lparr>bean = plain_bean, certificateValidator = Some revoked_validator, tsEnv = stamp_env,
     timeStampPolicyVerifier = verifyTsPolicy stamp_env stamp_policy accept_all,
     signaturePolicyValidator = pkix_validatePolicy (\<lambda>n. 1000000) (small_policy b)\<rparr>"

definition stamped_xades :: "bool \<Rightarrow> xades_data" where
  "stamped_xades b = \<lparr>hasQualifyingProperties = b, xadesVerified = b,
     signatureTimeStamps = (if b then Some [([9], Some [1, 2])] else None)\<rparr>"

definition stamp_claims :: time_claims where
  "stamp_claims = \<lparr>tc_id = ''ff'', tc_iss = ''TSA'', tc_time = 5, tc_type = TIME_VERIFICATION_TYPE_SIG_TIMESTAMP,
     tc_val = [Some \<lparr>pol = ''p'', res = Some PASSED, msg = None\<rparr>]\<rparr>"

definition stamp_validation :: time_validation where
  "stamp_validation = \<lparr>tv_claims = Some stamp_claims, tv_certResult = Some (OtherResult (Some [stamp_cert])), tv_timeStamp = Some stamp_made\<rparr>"

lemma plain_bean_ok: "bean_ok plain_bean"
  by (simp add: bean_ok_def plain_bean_def)

lemma stamp_id: "toString16 255 = ''ff''"
  by code_simp

lemma stamp_time: "getTimeValidationResult stamp_made = Inr (Some stamp_validation)"
  by (simp add: getTimeValidationResult_def getVerifiedTimeFromTimeStamp_def stamp_validation_def stamp_claims_def stamp_id
      stamp_made_def stamp_info_def stamp_cert_def demo_named_def seconds_def)

lemma stamped_steps: "timestamp_step (small_validator b) (stamped_xades True) s = (Inr [stamp_validation], s)"
proof -
  have "tstInfo stamp_made \<noteq> None" by (simp add: stamp_made_def)
  then show ?thesis
    by (simp add: timestamp_step_def stamped_xades_def small_validator_def signature_timestamps_def time_validations_def stamp_run
        stamp_time jrun_simps map_filter_def)
qed

lemma stamp_late: "checkRevocationTime (\<lambda>n. 1000000) 1000 late_status (Some [stamp_validation]) s
    = (Inr True, s\<lparr>tick := Suc (tick s)\<rparr>)"
proof -
  have "tstInfo stamp_made = Some stamp_info" "genTime stamp_info = Inr 5000" by (simp_all add: stamp_made_def stamp_info_def)
  moreover have "tv_timeStamp stamp_validation = Some stamp_made" by (simp add: stamp_validation_def)
  moreover have "jlong 6000 = 6000" by (simp add: jlong_id)
  ultimately show ?thesis by (simp add: checkRevocationTime_def stamp_verified jrun_simps)
qed

theorem xml_signature_sound_witness:
  "\<exists>r s'. conclude_signature (small_validator False) (\<lambda>c. Inr (stamped_xades True)) verified_result \<lparr>tick = 0\<rparr> = (Inr r, s')
     \<and> sv_status r = Some SUCCESS \<and> (\<exists>c. validationPolicyResultList r = Some [c] \<and> res c = Some PASSED)"
proof -
  let ?run = "conclude_signature (small_validator False) (\<lambda>c. Inr (stamped_xades True)) verified_result \<lparr>tick = 0\<rparr>"
  have parts: "bean (small_validator False) = plain_bean" "certificateValidator (small_validator False) = Some revoked_validator"
    "signaturePolicyValidator (small_validator False) = pkix_validatePolicy (\<lambda>n. 1000000) (small_policy False)"
    by (simp_all add: small_validator_def)
  have "hasQualifyingProperties (stamped_xades True)" "xadesVerified (stamped_xades True)" by (simp_all add: stamped_xades_def)
  then have "\<exists>r s'. ?run = (Inr r, s') \<and> sv_status r = Some SUCCESS"
    by (simp add: conclude_signature_def parts certificate_step_def plain_bean_def verified_result_def revoked_validator_def
        revoked_exception_def revoked_path_def jrun_simps stamped_steps xades_step_def Let_def policy_step_def
        pkix_validatePolicy_def validatePolicy_def path_of_result_def pkix_checks_def pkix_decision_def status_list_def small_policy_def
        concluded_def stamp_late)
  then obtain r s' where "?run = (Inr r, s')" "sv_status r = Some SUCCESS" by blast
  then show ?thesis
    using xml_signature_sound[of "small_validator False", OF _ parts(2,3)] plain_bean_ok parts(1) by (simp add: small_policy_def)
qed

theorem enforced_policy_accepts_revoked_witness:
  "\<exists>r. conclude_signature (small_validator True) (\<lambda>c. Inr (stamped_xades False)) verified_result \<lparr>tick = 0\<rparr> = (Inr r, \<lparr>tick = 0\<rparr>)
     \<and> sv_status r = Some SUCCESS"
proof -
  have "bean_ok (bean (small_validator True))" "certificateValidator (small_validator True) = Some revoked_validator"
    "signaturePolicyValidator (small_validator True) = pkix_validatePolicy (\<lambda>n. 1000000) (small_policy True)"
    by (simp_all add: small_validator_def plain_bean_ok)
  moreover have "enforceCurrentTimeValidation (small_policy True)" by (simp add: small_policy_def)
  moreover have "sv_status verified_result = Some SUCCESS" "sv_exception verified_result = None" by (simp_all add: verified_result_def)
  moreover have "revoked_validator (signerCertificate verified_result) (signatureCertificateChain verified_result) None \<lparr>tick = 0\<rparr>
      = (Inl (ExtendedEx revoked_exception), \<lparr>tick = 0\<rparr>)"
    by (simp add: revoked_validator_def jrun_simps)
  moreover have "validatedCertificatePath (pathValidationResult revoked_exception) = Some [stamp_cert]"
    "resultStatusList (pathValidationResult revoked_exception) = Some [late_status]"
    by (simp_all add: revoked_exception_def revoked_path_def)
  moreover have "list_all (\<lambda>st. vs_validity st = VALID \<or> vs_validity st = REVOKED) [late_status]"
    by simp
  moreover have "\<not> hasQualifyingProperties (stamped_xades False)" "signatureTimeStamps (stamped_xades False) = None"
    by (simp_all add: stamped_xades_def)
  ultimately show ?thesis
    using enforced_policy_accepts_revoked[where xades = "\<lambda>c. Inr (stamped_xades False)" and xa = "stamped_xades False"] by blast
qed

definition trusted_validator :: "unit cert_validator" where
  "trusted_validator sc supporting crls =
     ret (Some (PathResult (empty_result\<lparr>validatedCertificatePath := Some [stamp_cert], resultStatusList := Some [status_builder VALID]\<rparr>)))"

lemma signed_last: "isSignatureExtendedByNonSafeUpdates demo_extended demo_signature = Inr False"
  by (simp add: isSignatureExtendedByNonSafeUpdates_def getSignatureRevisionIndex_def demo_sig_length demo_extended_def new_revision_def)

theorem pdf_signature_sound_witness:
  "\<exists>r s'. conclude_pdf trusted_validator (pkix_pdf_policy plain_bean (\<lambda>n. 1000000) (small_policy True)) demo_extended verified_result \<lparr>tick = 0\<rparr> = (Inr r, s')
     \<and> sv_status r = Some SUCCESS
     \<and> (\<exists>sig. pdfSignature verified_result = Some sig \<and> isSignatureExtendedByNonSafeUpdates demo_extended sig = Inr False)"
proof -
  let ?run = "conclude_pdf trusted_validator (pkix_pdf_policy plain_bean (\<lambda>n. 1000000) (small_policy True)) demo_extended verified_result \<lparr>tick = 0\<rparr>"
  have "\<exists>r s'. ?run = (Inr r, s') \<and> sv_status r = Some SUCCESS"
    by (simp add: conclude_pdf_def certificate_step_pdf_def trusted_validator_def verified_result_def plain_bean_def small_policy_def
        pkix_pdf_policy_def validatePolicy_pdf_def signed_last path_of_result_def pkix_checks_def pkix_decision_def status_list_def
        status_builder_def concluded_def policy_step_def jrun_simps Let_def)
  then obtain r s' where "?run = (Inr r, s')" "sv_status r = Some SUCCESS" by blast
  moreover have "sv_exception verified_result = None" "certificateValidationResult verified_result = None" by (simp_all add: verified_result_def)
  ultimately show ?thesis using pdf_signature_sound[OF plain_bean_ok, of verified_result] by blast
qed

end
