(* ===== verification/JSBase.thy ===== *)
theory JSBase
  imports JavaBase Complex_Main
begin

text \<open>
  Prelude of the theories on the scripts of the documentation pages (\<open>src/docs/javadoc\<close>): what they take
  from JavaScript. Strings are lists of characters, with the case mapping and the character classes
  of the ASCII range; numbers are exact (\<open>int\<close> for positions, \<open>rat\<close> for scores). A call either does
  not return (\<open>None\<close>), throws (\<open>Some (Inl e)\<close>) or returns (\<open>Some (Inr x)\<close>).
\<close>

datatype js_exn = TypeError | RangeError | SyntaxError | UserError string

type_synonym 'a jsr = "(js_exn + 'a) option"

definition js_ret :: "'a \<Rightarrow> 'a jsr" where
  "js_ret x = Some (Inr x)"

definition js_throw :: "js_exn \<Rightarrow> 'a jsr" where
  "js_throw e = Some (Inl e)"

definition js_bind :: "'a jsr \<Rightarrow> ('a \<Rightarrow> 'b jsr) \<Rightarrow> 'b jsr" where
  "js_bind m f = (case m of None \<Rightarrow> None | Some (Inl e) \<Rightarrow> Some (Inl e) | Some (Inr x) \<Rightarrow> f x)"

lemma js_bind_simps [simp]:
  "js_bind (js_ret x) f = f x" "js_bind (Some (Inr x)) f = f x" "js_bind (Some (Inl e)) f = Some (Inl e)" "js_bind None f = None"
  "js_bind (js_throw e) f = js_throw e"
  by (simp_all add: js_bind_def js_ret_def js_throw_def)

lemma js_ret_eq [simp]: "js_ret x = Some (Inr y) \<longleftrightarrow> x = y" "js_ret x = js_ret y \<longleftrightarrow> x = y"
  by (simp_all add: js_ret_def)

lemma js_bind_ret: "js_bind m f = Some (Inr y) \<longleftrightarrow> (\<exists>x. m = Some (Inr x) \<and> f x = Some (Inr y))"
  by (auto simp: js_bind_def split: option.split sum.split)

subsection \<open>Strings and arrays\<close>

text \<open>\<open>slice\<close>: a negative position counts from the end, both are clipped to the length.\<close>

definition clip :: "int \<Rightarrow> int \<Rightarrow> nat" where
  "clip len i = nat (if i < 0 then max (len + i) 0 else min i len)"

definition js_slice :: "'a list \<Rightarrow> int \<Rightarrow> int \<Rightarrow> 'a list" where
  "js_slice s a b = take (clip (int (length s)) b - clip (int (length s)) a) (drop (clip (int (length s)) a) s)"

definition js_nth :: "'a list \<Rightarrow> int \<Rightarrow> 'a option" where
  "js_nth s i = (if 0 \<le> i \<and> i < int (length s) then Some (s ! nat i) else None)"

fun index_of :: "'a \<Rightarrow> 'a list \<Rightarrow> int \<Rightarrow> int" where
  "index_of c [] i = - 1"
| "index_of c (x # xs) i = (if x = c then i else index_of c xs (i + 1))"

definition js_indexOf :: "'a list \<Rightarrow> 'a \<Rightarrow> int \<Rightarrow> int" where
  "js_indexOf s c from = (let k = nat (max from 0) in index_of c (drop k s) (int k))"

fun last_index_of :: "'a \<Rightarrow> 'a list \<Rightarrow> int \<Rightarrow> int \<Rightarrow> int" where
  "last_index_of c [] i found = found"
| "last_index_of c (x # xs) i found = last_index_of c xs (i + 1) (if x = c then i else found)"

text \<open>\<open>lastIndexOf(c, from)\<close>: a negative \<open>from\<close> is taken as 0.\<close>

definition js_lastIndexOf :: "'a list \<Rightarrow> 'a \<Rightarrow> int \<Rightarrow> int" where
  "js_lastIndexOf s c from = last_index_of c (take (nat (max from 0) + 1) s) 0 (- 1)"

definition upper_char :: "char \<Rightarrow> char" where
  "upper_char c = (if 97 \<le> (of_char c :: nat) \<and> (of_char c :: nat) \<le> 122 then char_of ((of_char c :: nat) - 32) else c)"

definition toUpperCase :: "string \<Rightarrow> string" where
  "toUpperCase s = map upper_char s"

definition js_space :: "char \<Rightarrow> bool" where
  "js_space c \<longleftrightarrow> (let n = of_char c :: nat in 9 \<le> n \<and> n \<le> 13 \<or> n = 32 \<or> n = 160)"

definition is_AZ :: "char \<Rightarrow> bool" where
  "is_AZ c \<longleftrightarrow> (let n = of_char c :: nat in 65 \<le> n \<and> n \<le> 90)"

definition is_digit :: "char \<Rightarrow> bool" where
  "is_digit c \<longleftrightarrow> (let n = of_char c :: nat in 48 \<le> n \<and> n \<le> 57)"

text \<open>The class \<open>\w\<close>.\<close>

definition is_word_char :: "char \<Rightarrow> bool" where
  "is_word_char c \<longleftrightarrow> (let n = of_char c :: nat in 48 \<le> n \<and> n \<le> 57 \<or> 65 \<le> n \<and> n \<le> 90 \<or> 97 \<le> n \<and> n \<le> 122 \<or> n = 95)"

definition js_trim :: "string \<Rightarrow> string" where
  "js_trim s = rev (dropWhile js_space (rev (dropWhile js_space s)))"

lemma js_trim_idem [simp]: "js_trim (js_trim s) = js_trim s"
proof -
  define u where "u = dropWhile js_space s"
  define t where "t = rev (dropWhile js_space (rev u))"
  have split: "u = t @ rev (takeWhile js_space (rev u))"
    unfolding t_def by (metis rev_append rev_rev_ident takeWhile_dropWhile_id)
  have "dropWhile js_space t = t"
  proof (cases t)
    case (Cons c t')
    then have "\<not> js_space c"
      using split hd_dropWhile[of js_space s] by (metis append_Cons list.distinct(1) list.sel(1) u_def)
    with Cons show ?thesis by simp
  qed simp
  then show ?thesis by (simp add: js_trim_def u_def[symmetric] t_def[symmetric]) (simp add: t_def)
qed

text \<open>\<open>match\<close> with a global pattern for a maximal run of a character class: the runs, in order.\<close>

lemma length_dropWhile_Suc [termination_simp]: "length (dropWhile P xs) < Suc (length xs)"
  using length_dropWhile_le[of P xs] by simp

lemma length_tl_dropWhile [termination_simp]: "length (dropWhile P xs) - Suc 0 < Suc (length xs)"
  using length_dropWhile_le[of P xs] by simp

fun runs :: "('a \<Rightarrow> bool) \<Rightarrow> 'a list \<Rightarrow> 'a list list" where
  "runs P [] = []"
| "runs P (x # xs) =
     (if P x then (x # takeWhile P xs) # runs P (dropWhile P xs) else runs P xs)"

lemma runs_nonempty: "r \<in> set (runs P xs) \<Longrightarrow> r \<noteq> [] \<and> (\<forall>x \<in> set r. P x)"
proof (induction P xs rule: runs.induct)
  case (2 P x xs)
  show ?case
  proof (cases "P x")
    case True
    with "2.prems" consider "r = x # takeWhile P xs" | "r \<in> set (runs P (dropWhile P xs))" by auto
    then show ?thesis
    proof cases
      case 1
      have "\<forall>y \<in> set (takeWhile P xs). P y" by (metis set_takeWhileD)
      with 1 True show ?thesis by simp
    next
      case r: 2
      show ?thesis by (rule "2.IH"(1)[OF True r])
    qed
  next
    case False
    with 2 show ?thesis by simp
  qed
qed simp

text \<open>\<open>split\<close> before every character of a class, except at the start.\<close>

fun split_before :: "('a \<Rightarrow> bool) \<Rightarrow> 'a list \<Rightarrow> 'a list list" where
  "split_before P [] = []"
| "split_before P (x # xs) = (x # takeWhile (\<lambda>y. \<not> P y) xs) # split_before P (dropWhile (\<lambda>y. \<not> P y) xs)"

lemma split_before_nonempty: "t \<in> set (split_before P xs) \<Longrightarrow> t \<noteq> []"
  by (induction P xs rule: split_before.induct) auto

lemma concat_split_before: "concat (split_before P xs) = xs"
  by (induction P xs rule: split_before.induct) auto

lemma js_slice_nat: "a \<le> b \<Longrightarrow> b \<le> length s \<Longrightarrow> js_slice s (int a) (int b) = take (b - a) (drop a s)"
  by (simp add: js_slice_def clip_def)

lemma js_slice_append:
  assumes "0 \<le> a" "a \<le> b" "b \<le> c" "c \<le> int (length s)"
  shows "js_slice s a b @ js_slice s b c = js_slice s a c"
proof -
  obtain i j k where n: "a = int i" "b = int j" "c = int k" using assms by (metis nat_0_le order_trans)
  with assms have le: "i \<le> j" "j \<le> k" "k \<le> length s" by simp_all
  have "take (j - i) (drop i s) @ take (k - j) (drop (j - i) (drop i s)) = take ((j - i) + (k - j)) (drop i s)"
    by (simp only: take_add)
  then show ?thesis using le by (simp add: n js_slice_nat)
qed

lemma last_index_of_bound: "last_index_of c xs i found = r \<Longrightarrow> r = found \<or> (i \<le> r \<and> r < i + int (length xs) \<and> xs ! nat (r - i) = c)"
proof (induction xs arbitrary: i found)
  case (Cons x xs)
  from Cons.IH[of "i + 1" "if x = c then i else found"] Cons.prems consider
    "r = (if x = c then i else found)" | "i + 1 \<le> r" "r < i + 1 + int (length xs)" "xs ! nat (r - (i + 1)) = c" by auto
  then show ?case
  proof cases
    case 2
    then have "nat (r - i) = Suc (nat (r - (i + 1)))" by linarith
    with 2 show ?thesis by simp
  qed (auto split: if_splits)
qed simp

lemma js_lastIndexOf_bound:
  assumes "js_lastIndexOf s c from = r"
  shows "r = - 1 \<or> (0 \<le> r \<and> r \<le> max from 0 \<and> r < int (length s) \<and> s ! nat r = c)"
  using last_index_of_bound[OF assms[unfolded js_lastIndexOf_def]] by auto

text \<open>The names that every object has, from its prototype.\<close>

definition object_members :: "string list" where
  "object_members = [''constructor'', ''hasOwnProperty'', ''isPrototypeOf'', ''propertyIsEnumerable'', ''toLocaleString'',
     ''toString'', ''valueOf'', ''__proto__'', ''__defineGetter__'', ''__defineSetter__'', ''__lookupGetter__'', ''__lookupSetter__'']"

end
