(* ===== verification/Doc_Tables.thy ===== *)
theory Doc_Tables
  imports JSBase "HOL-Library.List_Lexorder" "HOL-Library.Char_ord" "HOL-Library.Multiset"
begin

text \<open>
  The page script \<open>docs/javadoc/*/script.js\<close>: loading the search scripts, sorting a summary table, showing
  the rows of a category, and the tabs of a table. An element of the page is a record of the parts
  that the script reads and writes; a container is the list of its children.
\<close>

record dom_elem =
  elemId :: string
  classList :: "string list"
  display :: string
  textContent :: string

subsection \<open>Loading the scripts\<close>

text \<open>The elements of the document with a given tag, by their \<open>src\<close>; the new one is put before the first.\<close>

definition createElem :: "string \<Rightarrow> string \<Rightarrow> string list \<Rightarrow> js_exn + string list" where
  "createElem pathtoroot path scripts =
     (case scripts of [] \<Rightarrow> Inl TypeError | _ \<Rightarrow> Inr ((pathtoroot @ path) # scripts))"

fun createElems :: "string \<Rightarrow> string list \<Rightarrow> string list \<Rightarrow> js_exn + string list" where
  "createElems base [] scripts = Inr scripts"
| "createElems base (p # ps) scripts = (case createElem base p scripts of Inl e \<Rightarrow> Inl e | Inr s \<Rightarrow> createElems base ps s)"

definition loadScripts :: "string \<Rightarrow> string list \<Rightarrow> js_exn + string list" where
  "loadScripts pathtoroot scripts =
     createElems pathtoroot [''search.js'', ''module-search-index.js'', ''package-search-index.js'', ''type-search-index.js'',
       ''member-search-index.js'', ''tag-search-index.js''] scripts"

subsection \<open>Class lists and keys\<close>

definition class_add :: "string \<Rightarrow> string list \<Rightarrow> string list" where
  "class_add c cs = (if c \<in> set cs then cs else cs @ [c])"

definition class_remove :: "string \<Rightarrow> string list \<Rightarrow> string list" where
  "class_remove c cs = filter (\<lambda>d. d \<noteq> c) cs"

definition toggleStyle :: "bool \<Rightarrow> string \<Rightarrow> string \<Rightarrow> string list \<Rightarrow> string list" where
  "toggleStyle condition trueStyle falseStyle cs =
     (if condition then class_add trueStyle (class_remove falseStyle cs) else class_add falseStyle (class_remove trueStyle cs))"

abbreviation evenRowColor :: string where "evenRowColor \<equiv> ''even-row-color''"
abbreviation oddRowColor :: string where "oddRowColor \<equiv> ''odd-row-color''"
abbreviation sortAsc :: string where "sortAsc \<equiv> ''sort-asc''"
abbreviation sortDesc :: string where "sortDesc \<equiv> ''sort-desc''"

definition restyle :: "bool \<Rightarrow> string \<Rightarrow> string \<Rightarrow> dom_elem \<Rightarrow> dom_elem" where
  "restyle condition t f e = e\<lparr>classList := toggleStyle condition t f (classList e)\<rparr>"

fun pad_numbers :: "string \<Rightarrow> string" where
  "pad_numbers [] = []"
| "pad_numbers (c # cs) =
     (if is_digit c
      then (let m = ''000'' @ (c # takeWhile is_digit cs) in js_slice m (- 4) (int (length m))) @ pad_numbers (dropWhile is_digit cs)
      else c # pad_numbers cs)"

definition makeComparable :: "string \<Rightarrow> string" where
  "makeComparable s = pad_numbers (toLowerCase s)"

subsection \<open>Sorting a table\<close>

text \<open>
  The cells of a table are the children of the container, the header cells first. The loop that cuts
  the rest into rows does not end when the number of columns is 0 and there are cells.
\<close>

function cut_rows :: "nat \<Rightarrow> 'a list \<Rightarrow> 'a list list option" where
  "cut_rows columns cells =
     (if cells = [] then Some []
      else if columns = 0 then None
      else map_option (\<lambda>rs. take columns cells # rs) (cut_rows columns (drop columns cells)))"
  by pat_completeness auto
termination by (relation "measure (\<lambda>(n, cs). length cs)") auto

declare cut_rows.simps [simp del]

lemma cut_rows_Nil [simp]: "cut_rows n [] = Some []" and cut_rows_0 [simp]: "cells \<noteq> [] \<Longrightarrow> cut_rows 0 cells = None"
  by (simp_all add: cut_rows.simps)

definition row_key :: "nat \<Rightarrow> dom_elem list \<Rightarrow> string" where
  "row_key columnIndex row = makeComparable (textContent (row ! columnIndex))"

text \<open>The sort of the library is stable in both directions.\<close>

definition sort_rows :: "bool \<Rightarrow> nat \<Rightarrow> dom_elem list list \<Rightarrow> dom_elem list list" where
  "sort_rows descending columnIndex rows =
     (if descending then rev (sort_key (row_key columnIndex) (rev rows)) else sort_key (row_key columnIndex) rows)"

fun color_rows :: "nat \<Rightarrow> dom_elem list list \<Rightarrow> dom_elem list list" where
  "color_rows visible [] = []"
| "color_rows visible (row # rows) =
     (let shown = (display (hd row) \<noteq> ''none'') in
      map (restyle (shown \<and> even visible) evenRowColor oddRowColor) row # color_rows (if shown then Suc visible else visible) rows)"

definition clear_header :: "dom_elem \<Rightarrow> dom_elem" where
  "clear_header e = e\<lparr>classList := class_remove sortDesc (class_remove sortAsc (classList e))\<rparr>"

text \<open>The header cell is given by its position. A row without a cell in the column makes the comparison throw.\<close>

definition sortTable :: "nat \<Rightarrow> nat \<Rightarrow> nat \<Rightarrow> dom_elem list \<Rightarrow> dom_elem list jsr" where
  "sortTable header columnIndex columns cells =
     (let descending = (sortAsc \<in> set (classList (cells ! header)));
          cells1 = map (\<lambda>e. if ''table-header'' \<in> set (classList e) then clear_header e else e) cells
      in case cut_rows columns (drop columns cells1) of
           None \<Rightarrow> None
         | Some rows \<Rightarrow>
             if 2 \<le> length rows \<and> list_ex (\<lambda>row. length row \<le> columnIndex) rows then js_throw TypeError
             else js_ret (list_update (take columns cells1) header
                            (restyle descending sortDesc sortAsc (take columns cells1 ! header))
                          @ concat (color_rows 0 (sort_rows descending columnIndex rows))))"

subsection \<open>Categories of rows\<close>

fun join_classes :: "string list \<Rightarrow> string" where
  "join_classes [] = []"
| "join_classes [c] = c"
| "join_classes (c # cs) = c @ '' '' @ join_classes cs"

definition contains :: "string \<Rightarrow> string \<Rightarrow> bool" where
  "contains s t \<longleftrightarrow> list_ex (\<lambda>i. take (length t) (drop i s) = t) [0..<Suc (length s)]"

text \<open>One table of the page: its section, its entry in the contents and its elements.\<close>

record doc_table =
  tableId :: string
  sectionDisplay :: string
  contentsDisplay :: string
  elems :: "dom_elem list"

fun toggle_elems :: "bool \<Rightarrow> string \<Rightarrow> string \<Rightarrow> nat \<Rightarrow> nat \<Rightarrow> dom_elem list \<Rightarrow> nat \<times> dom_elem list" where
  "toggle_elems selectUncategorized selectedClass disp columns visible [] = (visible, [])"
| "toggle_elems selectUncategorized selectedClass disp columns visible (e # es) =
     (let hit = (if selectUncategorized then \<not> contains (join_classes (classList e)) selectedClass
                 else selectedClass \<in> set (classList e));
          e1 = (if hit then e\<lparr>display := disp\<rparr> else e);
          shown = (display e1 = []);
          e2 = (if shown then restyle (visible mod (columns * 2) < columns) evenRowColor oddRowColor e1 else e1);
          (n, es') = toggle_elems selectUncategorized selectedClass disp columns (if shown then Suc visible else visible) es
      in (n, e2 # es'))"

definition toggle_table :: "bool \<Rightarrow> string \<Rightarrow> nat \<Rightarrow> doc_table \<Rightarrow> doc_table" where
  "toggle_table checked selected columns t =
     (let disp = (if checked then [] else ''none'');
          selectedClass = tableId t @ ''-tab'' @ selected;
          (visible, es) = toggle_elems (selected = []) selectedClass disp columns 0 (elems t);
          section = (if visible = 0 then ''none'' else [])
      in t\<lparr>elems := es, sectionDisplay := section, contentsDisplay := section\<rparr>)"

definition toggleGlobal :: "bool \<Rightarrow> string \<Rightarrow> nat \<Rightarrow> doc_table list \<Rightarrow> doc_table list" where
  "toggleGlobal checked selected columns tables = map (toggle_table checked selected columns) tables"

text \<open>\<open>show\<close>: the elements of the page, hidden or shown and coloured, in document order.\<close>

definition hide_others :: "string \<Rightarrow> string \<Rightarrow> dom_elem list \<Rightarrow> dom_elem list" where
  "hide_others table selected es =
     (if table \<noteq> selected
      then map (\<lambda>e. if table \<in> set (classList e) \<and> selected \<notin> set (classList e) then e\<lparr>display := ''none''\<rparr> else e) es
      else es)"

fun show_selected :: "string \<Rightarrow> nat \<Rightarrow> nat \<Rightarrow> dom_elem list \<Rightarrow> dom_elem list" where
  "show_selected selected columns index [] = []"
| "show_selected selected columns index (e # es) =
     (if selected \<in> set (classList e)
      then restyle (index mod (columns * 2) < columns) evenRowColor oddRowColor (e\<lparr>display := []\<rparr>)
           # show_selected selected columns (Suc index) es
      else e # show_selected selected columns index es)"

record tab_button =
  tabId :: string
  tabClass :: string
  ariaSelected :: bool
  tabindex :: int

fun update_tabs_from :: "string \<Rightarrow> string \<Rightarrow> nat \<Rightarrow> tab_button list \<Rightarrow> tab_button list" where
  "update_tabs_from table selected index [] = []"
| "update_tabs_from table selected index (t # ts) =
     (if startsWith (tabId t) table
      then (if selected = tabId t \<or> (table = selected \<and> index = 0)
            then t\<lparr>tabClass := ''active-table-tab'', ariaSelected := True, tabindex := 0\<rparr>
            else t\<lparr>tabClass := ''table-tab'', ariaSelected := False, tabindex := - 1\<rparr>)
           # update_tabs_from table selected (Suc index) ts
      else t # update_tabs_from table selected index ts)"

record table_page =
  pageElems :: "dom_elem list"
  labelledBy :: "string \<Rightarrow> string"
  tabs :: "tab_button list"

definition updateTabs :: "string \<Rightarrow> string \<Rightarrow> table_page \<Rightarrow> table_page" where
  "updateTabs table selected p =
     p\<lparr>labelledBy := (labelledBy p)(table := selected), tabs := update_tabs_from table selected 0 (tabs p)\<rparr>"

definition show_table :: "string \<Rightarrow> string \<Rightarrow> nat \<Rightarrow> table_page \<Rightarrow> table_page" where
  "show_table table selected columns p =
     updateTabs table selected (p\<lparr>pageElems := show_selected selected columns 0 (hide_others table selected (pageElems p))\<rparr>)"

text \<open>\<open>switchTab\<close>: the position of the tab that is clicked and focused, if any; tabs are siblings.\<close>

fun selected_tab :: "nat \<Rightarrow> tab_button list \<Rightarrow> nat option" where
  "selected_tab i [] = None"
| "selected_tab i (t # ts) = (if ariaSelected t then Some i else selected_tab (Suc i) ts)"

definition switchTab :: "int \<Rightarrow> tab_button list \<Rightarrow> nat option" where
  "switchTab keyCode ts =
     (case selected_tab 0 ts of
        None \<Rightarrow> None
      | Some i \<Rightarrow>
          if (keyCode = 37 \<or> keyCode = 38) \<and> i > 0 then Some (i - 1)
          else if (keyCode = 39 \<or> keyCode = 40) \<and> Suc i < length ts then Some (Suc i)
          else None)"

subsection \<open>A sorted table\<close>

text \<open>The text of the cells is all that a sort looks at, and it never changes it.\<close>

definition texts :: "dom_elem list list \<Rightarrow> string list list" where
  "texts rows = map (map textContent) rows"

definition text_key :: "nat \<Rightarrow> string list \<Rightarrow> string" where
  "text_key i row = makeComparable (row ! i)"

lemma cut_rows_some: "0 < n \<Longrightarrow> \<exists>rows. cut_rows n cells = Some rows"
proof (induction n cells rule: cut_rows.induct)
  case (1 n cells)
  then show ?case by (cases "cells = []") (auto simp: cut_rows.simps[of n cells])
qed

lemma cut_rows_concat: "cut_rows n cells = Some rows \<Longrightarrow> concat rows = cells"
proof (induction n cells arbitrary: rows rule: cut_rows.induct)
  case (1 n cells)
  show ?case
  proof (cases "cells = []")
    case True
    with 1 show ?thesis by simp
  next
    case False
    with 1(2) obtain rs where n: "n \<noteq> 0" and rs: "cut_rows n (drop n cells) = Some rs" "rows = take n cells # rs"
      by (auto simp: cut_rows.simps[of n cells] split: if_splits)
    with 1(1)[OF False n rs(1)] show ?thesis by simp
  qed
qed

lemma cut_rows_lengths: "cut_rows n cells = Some rows \<Longrightarrow> n dvd length cells \<Longrightarrow> \<forall>row \<in> set rows. length row = n"
proof (induction n cells arbitrary: rows rule: cut_rows.induct)
  case (1 n cells)
  show ?case
  proof (cases "cells = []")
    case True
    with 1 show ?thesis by simp
  next
    case False
    with 1(2) obtain rs where n: "n \<noteq> 0" and rs: "cut_rows n (drop n cells) = Some rs" "rows = take n cells # rs"
      by (auto simp: cut_rows.simps[of n cells] split: if_splits)
    have "n \<le> length cells" using 1(3) False by (intro dvd_imp_le) simp_all
    then have len: "length (take n cells) = n" by (simp only: length_take min_absorb2)
    have "n dvd length (drop n cells)" using dvd_diff_nat[OF 1(3) dvd_refl] by (simp only: length_drop)
    then have tail: "\<forall>row \<in> set rs. length row = n" by (rule 1(1)[OF False n rs(1)])
    show ?thesis unfolding rs(2) using len tail by (metis set_ConsD)
  qed
qed

lemma cut_rows_map: "cut_rows n (map f cells) = map_option (map (map f)) (cut_rows n cells)"
proof (induction n cells rule: cut_rows.induct)
  case (1 n cells)
  show ?case
  proof (cases "cells = [] \<or> n = 0")
    case False
    with 1 show ?thesis
      by (simp add: cut_rows.simps[of n cells] cut_rows.simps[of n "map f cells"] drop_map take_map option.map_comp comp_def)
  qed (cases "cells = []"; auto)
qed

lemma restyle_text [simp]: "textContent (restyle b t f e) = textContent e" "display (restyle b t f e) = display e"
  by (simp_all add: restyle_def)

lemma color_rows_texts: "texts (color_rows v rows) = texts rows"
  by (induction v rows rule: color_rows.induct) (simp_all add: texts_def Let_def)

lemma sort_rows_mset: "mset (sort_rows d i rows) = mset rows"
  by (simp add: sort_rows_def)

lemma sort_rows_sorted:
  "sorted_wrt (if d then (\<lambda>a b. row_key i b \<le> row_key i a) else (\<lambda>a b. row_key i a \<le> row_key i b)) (sort_rows d i rows)"
  using sorted_sort_key[of "row_key i" rows] sorted_sort_key[of "row_key i" "rev rows"]
  by (simp add: sort_rows_def sorted_map sorted_wrt_rev)

lemma row_key_text: "i < length row \<Longrightarrow> row_key i row = text_key i (map textContent row)"
  by (simp add: row_key_def text_key_def)

text \<open>Visible rows alternate, starting with the even colour; hidden rows have the odd one.\<close>

lemma toggleStyle_mem: "t \<noteq> f \<Longrightarrow> t \<in> set (toggleStyle b t f cs) \<longleftrightarrow> b" "t \<noteq> f \<Longrightarrow> f \<in> set (toggleStyle b t f cs) \<longleftrightarrow> \<not> b"
  by (auto simp: toggleStyle_def class_add_def class_remove_def)

fun alternating :: "bool \<Rightarrow> dom_elem list list \<Rightarrow> bool" where
  "alternating ev [] = True"
| "alternating ev (row # rows) =
     (let shown = (display (hd row) \<noteq> ''none'') in
      (\<forall>cell \<in> set row. (evenRowColor \<in> set (classList cell)) = (shown \<and> ev)) \<and> alternating (if shown then \<not> ev else ev) rows)"

lemma color_rows_alternating: "\<forall>row \<in> set rows. row \<noteq> [] \<Longrightarrow> alternating (even v) (color_rows v rows)"
proof (induction v rows rule: color_rows.induct)
  case (2 v row rows)
  have "display (hd (map (restyle b t f) row)) = display (hd row)" for b t f using 2 by (simp add: hd_map)
  with 2 show ?case by (auto simp: Let_def restyle_def toggleStyle_mem)
qed simp

definition header_of :: "dom_elem list \<Rightarrow> nat \<Rightarrow> bool" where
  "header_of cells h \<longleftrightarrow> sortAsc \<in> set (classList (cells ! h))"

text \<open>
  C13. Sorting a table with full rows keeps the header cells in place and the rows together: the rows
  after the sort are a permutation of those before, ordered by the comparable text of the column,
  descending when the header was marked as ascending and ascending otherwise; the header is marked
  the other way; the visible rows have alternating colours.
\<close>

theorem sortTable_sorts:
  assumes "0 < columns" "columnIndex < columns" "header < columns" "columns \<le> length cells" "columns dvd length cells"
  shows "\<exists>hs rows rows'. sortTable header columnIndex columns cells = Some (Inr (hs @ concat rows'))
    \<and> cut_rows columns (drop columns cells) = Some rows
    \<and> map textContent hs = map textContent (take columns cells)
    \<and> mset (texts rows') = mset (texts rows)
    \<and> sorted_wrt (if header_of cells header then (\<lambda>a b. text_key columnIndex b \<le> text_key columnIndex a)
                  else (\<lambda>a b. text_key columnIndex a \<le> text_key columnIndex b)) (texts rows')
    \<and> (header_of (hs @ concat rows') header \<longleftrightarrow> \<not> header_of cells header)
    \<and> alternating True rows'"
proof -
  define clear where "clear = (\<lambda>e. if ''table-header'' \<in> set (classList e) then clear_header e else e)"
  define d where "d = header_of cells header"
  obtain rows where rows: "cut_rows columns (drop columns cells) = Some rows" using cut_rows_some[OF assms(1)] by blast
  have full: "\<forall>row \<in> set rows. length row = columns"
    using cut_rows_lengths[OF rows] assms(5) by simp
  let ?rows = "map (map clear) rows"
  have cut: "cut_rows columns (drop columns (map clear cells)) = Some ?rows" by (simp add: drop_map cut_rows_map rows)
  let ?sorted = "sort_rows d columnIndex ?rows"
  let ?rows' = "color_rows 0 ?sorted"
  let ?h = "restyle d sortDesc sortAsc (take columns (map clear cells) ! header)"
  let ?hs = "list_update (take columns (map clear cells)) header ?h"
  have tc: "textContent (clear e) = textContent e" for e by (simp add: clear_def clear_header_def)
  have "sortTable header columnIndex columns cells = Some (Inr (?hs @ concat ?rows'))"
    unfolding sortTable_def clear_def[symmetric] header_of_def[symmetric] d_def[symmetric] Let_def
    using cut full assms(2) by (auto simp: list_ex_iff js_ret_def)
  moreover have "map textContent ?hs = map textContent (take columns cells)"
    using assms by (intro nth_equalityI) (auto simp: nth_list_update tc)
  moreover have "mset (texts ?rows') = mset (texts rows)"
  proof -
    have "mset (texts ?rows') = image_mset (map textContent) (mset ?rows)"
      unfolding color_rows_texts by (simp add: texts_def sort_rows_mset)
    also have "\<dots> = mset (texts rows)" by (simp add: texts_def tc comp_def flip: mset_map)
    finally show ?thesis .
  qed
  moreover have "sorted_wrt (if d then (\<lambda>a b. text_key columnIndex b \<le> text_key columnIndex a)
      else (\<lambda>a b. text_key columnIndex a \<le> text_key columnIndex b)) (texts ?rows')"
  proof -
    have set: "set ?sorted = set ?rows" using sort_rows_mset[of d columnIndex ?rows] by (metis set_mset_mset)
    have key: "row_key columnIndex row = text_key columnIndex (map textContent row)" if "row \<in> set ?sorted" for row
      using that full assms(2) unfolding set by (auto intro: row_key_text)
    show ?thesis
      unfolding color_rows_texts unfolding texts_def sorted_wrt_map
      using sort_rows_sorted[of d columnIndex ?rows] by (rule sorted_wrt_mono_rel[rotated]) (use key in \<open>auto split: if_splits\<close>)
  qed
  moreover have "header_of (?hs @ concat ?rows') header \<longleftrightarrow> \<not> d"
    using assms by (simp add: header_of_def nth_append restyle_def toggleStyle_mem)
  moreover have "alternating True ?rows'"
  proof -
    have set: "set ?sorted = set ?rows" using sort_rows_mset[of d columnIndex ?rows] by (metis set_mset_mset)
    have "\<forall>row \<in> set ?sorted. row \<noteq> []" using full assms(1) unfolding set by auto
    then show ?thesis using color_rows_alternating[of ?sorted 0] by simp
  qed
  ultimately show ?thesis unfolding d_def using rows by blast
qed

subsection \<open>Comparable numbers\<close>

definition digit_value :: "char \<Rightarrow> nat" where
  "digit_value c = of_char c - 48"

fun numeral_value :: "string \<Rightarrow> nat" where
  "numeral_value [] = 0"
| "numeral_value (c # cs) = digit_value c * 10 ^ length cs + numeral_value cs"

lemma digit_value_less: "is_digit c \<Longrightarrow> digit_value c < 10"
  unfolding is_digit_def digit_value_def Let_def by linarith

lemma digit_order: "is_digit c \<Longrightarrow> is_digit d \<Longrightarrow> c < d \<longleftrightarrow> digit_value c < digit_value d"
  by (auto simp: is_digit_def digit_value_def less_char_def Let_def)

lemma numeral_value_less: "\<forall>c \<in> set ds. is_digit c \<Longrightarrow> numeral_value ds < 10 ^ length ds"
proof (induction ds)
  case (Cons c cs)
  then have "digit_value c + 1 \<le> 10" "numeral_value cs < 10 ^ length cs" using digit_value_less[of c] by auto
  then have "digit_value c * 10 ^ length cs + numeral_value cs < (digit_value c + 1) * 10 ^ length cs" by simp
  also have "\<dots> \<le> 10 * 10 ^ length cs" using \<open>digit_value c + 1 \<le> 10\<close> by (rule mult_right_mono) simp
  finally show ?case by simp
qed simp

lemma numeral_order:
  assumes "length ds = length es" "\<forall>c \<in> set ds. is_digit c" "\<forall>c \<in> set es. is_digit c"
  shows "ds < es \<longleftrightarrow> numeral_value ds < numeral_value es"
  using assms
proof (induction ds es rule: list_induct2)
  case (Cons c cs d ds)
  have less: "numeral_value cs < 10 ^ length ds" "numeral_value ds < 10 ^ length ds"
    using numeral_value_less[of cs] numeral_value_less[of ds] Cons by auto
  have step: "a * 10 ^ length ds + numeral_value cs < b * 10 ^ length ds + numeral_value ds" if "a < b" for a b
  proof -
    have "a * 10 ^ length ds + numeral_value cs < (a + 1) * 10 ^ length ds" using less(1) by simp
    also have "\<dots> \<le> b * 10 ^ length ds" using that by (intro mult_right_mono) simp_all
    finally show ?thesis by simp
  qed
  have step': "b * 10 ^ length ds + numeral_value ds < a * 10 ^ length ds + numeral_value cs" if "b < a" for a b
  proof -
    have "b * 10 ^ length ds + numeral_value ds < (b + 1) * 10 ^ length ds" using less(2) by simp
    also have "\<dots> \<le> a * 10 ^ length ds" using that by (intro mult_right_mono) simp_all
    finally show ?thesis by simp
  qed
  have dv: "c = d \<longleftrightarrow> digit_value c = digit_value d"
    using digit_order[of c d] digit_order[of d c] Cons.prems by (metis linorder_neq_iff list.set_intros(1))
  show ?case
  proof (cases "digit_value c" "digit_value d" rule: linorder_cases)
    case less
    with step[OF less] digit_order[of c d] Cons show ?thesis by simp
  next
    case equal
    with Cons dv show ?thesis by simp
  next
    case greater
    with step'[OF greater] digit_order[of c d] dv Cons show ?thesis by auto
  qed
qed simp

lemma pad_digits:
  assumes "\<forall>c \<in> set ds. is_digit c" "ds \<noteq> []"
  shows "pad_numbers ds = drop (length ds - 1) (''000'' @ ds)"
proof -
  obtain c cs where ds: "ds = c # cs" using assms(2) by (cases ds) auto
  have tw: "takeWhile is_digit cs = cs" "dropWhile is_digit cs = []" using assms(1) ds by auto
  show ?thesis using assms(1) by (simp add: ds tw js_slice_def clip_def)
qed

lemma toLowerCase_digits: "\<forall>c \<in> set ds. is_digit c \<Longrightarrow> toLowerCase ds = ds"
  by (auto simp: toLowerCase_def lower_char_def is_digit_def Let_def intro!: map_idI)

text \<open>
  \<open>makeComparable\<close> makes the order of texts the order of numbers, for numbers of up to four digits; of a
  longer number only the last four digits are kept, so that 10000 comes before 2000.
\<close>

theorem comparable_numbers:
  assumes ds: "\<forall>c \<in> set ds. is_digit c" "ds \<noteq> []" and es: "\<forall>c \<in> set es. is_digit c" "es \<noteq> []"
  shows "(length ds \<le> 4 \<longrightarrow> length es \<le> 4 \<longrightarrow> (makeComparable ds < makeComparable es \<longleftrightarrow> numeral_value ds < numeral_value es))
    \<and> (4 \<le> length ds \<longrightarrow> makeComparable ds = drop (length ds - 4) ds)"
proof (intro conjI impI)
  have padded: "makeComparable xs = replicate (4 - length xs) (CHR ''0'') @ xs"
    if "\<forall>c \<in> set xs. is_digit c" "xs \<noteq> []" "length xs \<le> 4" for xs
  proof -
    have "0 < length xs" using that(2) by simp
    then have "length xs = 1 \<or> length xs = 2 \<or> length xs = 3 \<or> length xs = 4" using that(3) by linarith
    then show ?thesis
      by (auto simp: makeComparable_def toLowerCase_digits[OF that(1)] pad_digits[OF that(1,2)] numeral_eq_Suc)
  qed
  have zeros: "numeral_value (replicate n (CHR ''0'') @ xs) = numeral_value xs" for n xs
    by (induction n) (simp_all add: digit_value_def)
  assume len: "length ds \<le> 4" "length es \<le> 4"
  have dig: "\<forall>c \<in> set (replicate n (CHR ''0'') @ xs). is_digit c" if "\<forall>c \<in> set xs. is_digit c" for n xs
    using that by (auto simp: is_digit_def set_replicate_conv_if split: if_splits)
  show "makeComparable ds < makeComparable es \<longleftrightarrow> numeral_value ds < numeral_value es"
    using numeral_order[OF _ dig[OF ds(1)] dig[OF es(1)], of "4 - length ds" "4 - length es"] len
    unfolding padded[OF ds len(1)] padded[OF es len(2)] by (simp add: zeros)
next
  assume "4 \<le> length ds"
  then have "length ds - 1 = Suc (Suc (Suc (length ds - 4)))" by simp
  then show "makeComparable ds = drop (length ds - 4) ds"
    unfolding makeComparable_def toLowerCase_digits[OF ds(1)] pad_digits[OF ds] by simp
qed

subsection \<open>The rows and tabs of a table\<close>

definition row_classes :: "dom_elem \<Rightarrow> string set" where
  "row_classes e = set (classList e) - {evenRowColor, oddRowColor}"

lemma restyle_classes [simp]: "row_classes (restyle b evenRowColor oddRowColor e) = row_classes e"
  by (auto simp: row_classes_def restyle_def toggleStyle_def class_add_def class_remove_def)

lemma display_classes [simp]: "row_classes (e\<lparr>display := d\<rparr>) = row_classes e" "classList (e\<lparr>display := d\<rparr>) = classList e"
  by (simp_all add: row_classes_def)

lemma show_selected_nth:
  assumes "k < length es"
  shows "row_classes (show_selected sel n i es ! k) = row_classes (es ! k)
    \<and> display (show_selected sel n i es ! k) = (if sel \<in> set (classList (es ! k)) then [] else display (es ! k))"
  using assms
proof (induction sel n i es arbitrary: k rule: show_selected.induct)
  case (2 sel n i e es)
  then show ?case by (cases k) auto
qed simp

lemma show_selected_length: "length (show_selected sel n i es) = length es"
  by (induction sel n i es rule: show_selected.induct) simp_all

definition active :: "tab_button \<Rightarrow> bool" where
  "active t \<longleftrightarrow> ariaSelected t \<and> tabClass t = ''active-table-tab'' \<and> tabindex t = 0"

lemma update_tabs_active:
  assumes "t' \<in> set (update_tabs_from table selected i ts)" "startsWith (tabId t') table"
  shows "active t' \<or> \<not> ariaSelected t' \<and> tabClass t' = ''table-tab''"
  using assms by (induction table selected i ts rule: update_tabs_from.induct) (auto simp: active_def split: if_splits)

lemma update_tabs_selected:
  assumes "table \<noteq> selected"
  shows "map tabId (filter (\<lambda>t. startsWith (tabId t) table \<and> ariaSelected t) (update_tabs_from table selected i ts))
    = filter (\<lambda>d. startsWith d table \<and> d = selected) (map tabId ts)"
  using assms by (induction table selected i ts rule: update_tabs_from.induct) auto

lemma update_tabs_later:
  "0 < i \<Longrightarrow> table \<notin> tabId ` set ts \<Longrightarrow> filter (\<lambda>t. startsWith (tabId t) table \<and> ariaSelected t) (update_tabs_from table table i ts) = []"
  by (induction ts arbitrary: i) auto

lemma update_tabs_first:
  "table \<notin> tabId ` set ts \<Longrightarrow> map tabId (filter (\<lambda>t. startsWith (tabId t) table \<and> ariaSelected t) (update_tabs_from table table 0 ts))
    = take 1 (filter (\<lambda>d. startsWith d table) (map tabId ts))"
  by (induction ts) (auto simp: update_tabs_later)

text \<open>
  Selecting a category keeps the tabs of the table consistent and shows its rows: exactly the tab
  of the category is active, or the first tab when the whole table is selected, the others are
  inactive, and a row of the table is displayed exactly when it belongs to the selection; rows
  outside of both keep their display.
\<close>

theorem show_table_selects:
  assumes ids: "distinct (map tabId (tabs p))" "table \<notin> tabId ` set (tabs p)" and sel: "table = selected \<or> selected \<in> tabId ` set (tabs p) \<and> startsWith selected table"
    and p': "p' = show_table table selected columns p"
  shows "map tabId (filter (\<lambda>t. startsWith (tabId t) table \<and> ariaSelected t) (tabs p'))
      = (if table = selected then take 1 (filter (\<lambda>d. startsWith d table) (map tabId (tabs p))) else [selected])
    \<and> (\<forall>t \<in> set (tabs p'). startsWith (tabId t) table \<longrightarrow> active t \<or> \<not> ariaSelected t \<and> tabClass t = ''table-tab'')
    \<and> (\<forall>k < length (pageElems p). row_classes (pageElems p' ! k) = row_classes (pageElems p ! k)
         \<and> display (pageElems p' ! k) =
             (if selected \<in> set (classList (pageElems p ! k)) then []
              else if table \<in> set (classList (pageElems p ! k)) then ''none'' else display (pageElems p ! k)))"
proof (intro conjI)
  have tabs: "tabs p' = update_tabs_from table selected 0 (tabs p)" by (simp add: p' show_table_def updateTabs_def)
  have one: "filter (\<lambda>d. startsWith d table \<and> d = selected) ds = [selected]"
    if "distinct ds" "selected \<in> set ds" "startsWith selected table" for ds
    using that by (induction ds) (auto simp: filter_empty_conv)
  show "map tabId (filter (\<lambda>t. startsWith (tabId t) table \<and> ariaSelected t) (tabs p'))
      = (if table = selected then take 1 (filter (\<lambda>d. startsWith d table) (map tabId (tabs p))) else [selected])"
  proof (cases "table = selected")
    case True
    then show ?thesis unfolding tabs using update_tabs_first[OF ids(2)] by simp
  next
    case False
    with sel have "selected \<in> set (map tabId (tabs p))" "startsWith selected table" by auto
    from one[OF ids(1) this] update_tabs_selected[OF False, of 0 "tabs p"] False show ?thesis unfolding tabs by simp
  qed
  show "\<forall>t \<in> set (tabs p'). startsWith (tabId t) table \<longrightarrow> active t \<or> \<not> ariaSelected t \<and> tabClass t = ''table-tab''"
    unfolding tabs using update_tabs_active by blast
  show "\<forall>k < length (pageElems p). row_classes (pageElems p' ! k) = row_classes (pageElems p ! k)
       \<and> display (pageElems p' ! k) = (if selected \<in> set (classList (pageElems p ! k)) then []
            else if table \<in> set (classList (pageElems p ! k)) then ''none'' else display (pageElems p ! k))"
  proof (intro allI impI)
    fix k
    assume k: "k < length (pageElems p)"
    then have "k < length (hide_others table selected (pageElems p))" by (simp add: hide_others_def)
    from show_selected_nth[OF this, of selected columns 0] k
    show "row_classes (pageElems p' ! k) = row_classes (pageElems p ! k)
       \<and> display (pageElems p' ! k) = (if selected \<in> set (classList (pageElems p ! k)) then []
            else if table \<in> set (classList (pageElems p ! k)) then ''none'' else display (pageElems p ! k))"
      by (auto simp: p' show_table_def updateTabs_def hide_others_def split: if_splits)
  qed
qed

subsection \<open>Witnesses\<close>

definition demo_cell :: "string \<Rightarrow> string list \<Rightarrow> dom_elem" where
  "demo_cell s cs = \<lparr>elemId = [], classList = cs, display = [], textContent = s\<rparr>"

definition demo_cells :: "dom_elem list" where
  "demo_cells = [demo_cell ''Name'' [''table-header''], demo_cell ''b'' [], demo_cell ''A'' []]"

theorem sortTable_sorts_witness:
  "\<exists>hs rows'. sortTable 0 0 1 demo_cells = Some (Inr (hs @ concat rows')) \<and> mset (texts rows') = mset [[''b''], [''A'']]"
proof -
  have "cut_rows 1 (drop 1 demo_cells) = Some [[demo_cell ''b'' []], [demo_cell ''A'' []]]"
    by (simp add: demo_cells_def cut_rows.simps)
  with sortTable_sorts[of 1 0 0 demo_cells] show ?thesis by (fastforce simp: demo_cells_def texts_def demo_cell_def)
qed

theorem comparable_numbers_witness:
  "makeComparable ''9'' < makeComparable ''10'' \<and> makeComparable ''10000'' = ''0000''"
  using comparable_numbers[of "''9''" "''10''"] comparable_numbers[of "''10000''" "''9''"]
  by (simp add: is_digit_def digit_value_def)

definition demo_page :: table_page where
  "demo_page = \<lparr>pageElems = [demo_cell ''x'' [''t'', ''t-tab1''], demo_cell ''y'' [''t'', ''t-tab2'']], labelledBy = (\<lambda>_. []),
     tabs = [\<lparr>tabId = ''t-tab0'', tabClass = [], ariaSelected = True, tabindex = 0\<rparr>,
             \<lparr>tabId = ''t-tab2'', tabClass = [], ariaSelected = False, tabindex = 0\<rparr>]\<rparr>"

theorem show_table_selects_witness:
  "map tabId (filter ariaSelected (tabs (show_table ''t'' ''t-tab2'' 1 demo_page))) = [''t-tab2'']
   \<and> display (pageElems (show_table ''t'' ''t-tab2'' 1 demo_page) ! 0) = ''none''"
  using show_table_selects[of demo_page "''t''" "''t-tab2''" _ 1]
  by (simp add: demo_page_def startsWith_def demo_cell_def show_table_def updateTabs_def)

end
