(* ===== verification/Doc_Search.thy ===== *)
theory Doc_Search
  imports JSBase
begin

text \<open>
  The search of the documentation pages, \<open>docs/javadoc/*/search.js\<close> (the same file in every module):
  building a matcher for a query, rating a match, searching the five indexes, and the links and
  the marked-up text of a result. The part that installs the menu in the page is not modelled. The
  regular expression that a query is turned into is kept as the list of its groups, and \<open>exec\<close> is
  the backtracking search for it.
\<close>

datatype category = Modules | Packages | Types | Members | SearchTags

text \<open>An entry of an index; a property that is missing is \<open>None\<close>.\<close>

record index_item =
  il :: string
  im :: "string option"
  ip :: "string option"
  ic :: "string option"
  iu :: "string option"
  ih :: "string option"
  idesc :: "string option"
  iurl :: "string option"

text \<open>A property in a condition: missing and empty strings are false.\<close>

definition truthy :: "string option \<Rightarrow> bool" where
  "truthy v \<longleftrightarrow> v \<noteq> None \<and> v \<noteq> Some []"

text \<open>A property in a string concatenation.\<close>

definition as_string :: "string option \<Rightarrow> string" where
  "as_string v = (case v of None \<Rightarrow> ''undefined'' | Some s \<Rightarrow> s)"

definition checkUnnamed :: "string option \<Rightarrow> string \<Rightarrow> string" where
  "checkUnnamed name separator =
     (if name = Some ''<Unnamed>'' \<or> \<not> truthy name then [] else the name @ separator)"

subsection \<open>Marked-up text\<close>

fun escape_char :: "char \<Rightarrow> string" where
  "escape_char c = (if c = CHR ''<'' then ''&lt;'' else if c = CHR ''>'' then ''&gt;'' else [c])"

definition escapeHtml :: "string \<Rightarrow> string" where
  "escapeHtml s = concat (map escape_char s)"

definition span_open :: string where
  "span_open = ''<span class='' @ [CHR 0x27] @ ''result-highlight'' @ [CHR 0x27] @ ''>''"

definition span_close :: string where
  "span_close = ''</span>''"

fun highlight_loop :: "string \<Rightarrow> int list \<Rightarrow> int \<Rightarrow> int \<Rightarrow> int \<Rightarrow> string \<Rightarrow> int \<times> string" where
  "highlight_loop str (b0 # b1 # bs) from to start text =
     (if b0 \<ge> to \<or> b1 \<le> from then highlight_loop str bs from to start text
      else highlight_loop str bs from to (min to b1)
             (text @ escapeHtml (js_slice str start (max start b0))
                   @ span_open
                   @ escapeHtml (js_slice str (max start b0) (min to b1))
                   @ span_close))"
| "highlight_loop str bs from to start text = (start, text)"

definition getHighlightedText :: "string \<Rightarrow> int list \<Rightarrow> int \<Rightarrow> int \<Rightarrow> string" where
  "getHighlightedText str boundaries from to =
     (let (start, text) = highlight_loop str boundaries from to from [] in text @ escapeHtml (js_slice str start to))"

subsection \<open>Links\<close>

definition dots_to_slashes :: "string \<Rightarrow> string" where
  "dots_to_slashes s = map (\<lambda>c. if c = CHR ''.'' then CHR ''/'' else c) s"

text \<open>The search of the package index does not stop at the first package found.\<close>

definition package_prefix :: "index_item list \<Rightarrow> index_item \<Rightarrow> string" where
  "package_prefix packageSearchIndex item =
     fold (\<lambda>it prefix. if truthy (im it) \<and> ip item = Some (il it) then the (im it) @ ''/'' else prefix) packageSearchIndex []"

definition getURLPrefix :: "index_item list \<Rightarrow> index_item \<Rightarrow> category \<Rightarrow> string" where
  "getURLPrefix packageSearchIndex item category =
     (if category = Modules then il item @ ''/''
      else if category = Packages \<and> truthy (im item) then the (im item) @ ''/''
      else if category = Types \<or> category = Members
      then (if truthy (im item) then the (im item) @ ''/'' else package_prefix packageSearchIndex item)
      else [])"

definition compute_url :: "index_item list \<Rightarrow> index_item \<Rightarrow> category \<Rightarrow> string" where
  "compute_url packageSearchIndex item category =
     (let url = getURLPrefix packageSearchIndex item category in
      case category of
        Modules \<Rightarrow> url @ ''module-summary.html''
      | Packages \<Rightarrow> if truthy (iu item) then the (iu item) else url @ dots_to_slashes (il item) @ ''/package-summary.html''
      | Types \<Rightarrow> if truthy (iu item) then the (iu item)
                 else url @ dots_to_slashes (checkUnnamed (ip item) ''/'') @ il item @ ''.html''
      | Members \<Rightarrow> url @ dots_to_slashes (checkUnnamed (ip item) ''/'') @ as_string (ic item) @ ''.html'' @ ''#''
                   @ (if truthy (iu item) then the (iu item) else il item)
      | SearchTags \<Rightarrow> url @ as_string (iu item))"

text \<open>The link and the entry, which remembers it.\<close>

definition getURL :: "index_item list \<Rightarrow> index_item \<Rightarrow> category \<Rightarrow> string \<times> index_item" where
  "getURL packageSearchIndex item category =
     (if truthy (iurl item) then (the (iurl item), item)
      else (let url = compute_url packageSearchIndex item category in (url, item\<lparr>iurl := Some url\<rparr>)))"

subsection \<open>The matcher\<close>

definition isUpperCase :: "string \<Rightarrow> bool" where
  "isUpperCase s \<longleftrightarrow> s \<noteq> toLowerCase s"

definition isLowerCase :: "string \<Rightarrow> bool" where
  "isLowerCase s \<longleftrightarrow> s \<noteq> toUpperCase s"

text \<open>
  The groups of the pattern come in pairs: a literal, in which optional space may follow a comma or a
  question mark, and what may follow it: anything, nothing, or characters of a name.
\<close>

datatype gap = GapAny | GapNone | GapName

record matcher =
  groups :: "(string \<times> gap) list"
  upperCase :: "bool list"

definition token_start :: "char \<Rightarrow> bool" where
  "token_start c \<longleftrightarrow> is_AZ c \<or> c \<in> set '',.()<>?[/''"

definition token_group :: "bool \<Rightarrow> bool \<Rightarrow> string \<Rightarrow> (string \<times> gap) \<times> bool list" where
  "token_group camelCase spaceAfter s =
     (if is_word_char (last s)
      then ((s, if spaceAfter then GapAny
                else if \<not> camelCase \<and> isUpperCase s \<and> length s = 1 then GapNone else GapName),
            [False, isUpperCase [hd s]])
      else ((s, GapNone), [False, False]))"

text \<open>The tokens of a word; the last one is followed by a space when the word is not the last.\<close>

fun token_groups :: "bool \<Rightarrow> bool \<Rightarrow> string list \<Rightarrow> ((string \<times> gap) \<times> bool list) list" where
  "token_groups camelCase further [] = []"
| "token_groups camelCase further (s # ss) = token_group camelCase (ss = [] \<and> further) s # token_groups camelCase further ss"

fun word_groups :: "bool \<Rightarrow> string list \<Rightarrow> ((string \<times> gap) \<times> bool list) list" where
  "word_groups camelCase [] = []"
| "word_groups camelCase (w # ws) = token_groups camelCase (ws \<noteq> []) (split_before token_start w) @ word_groups camelCase ws"

definition createMatcher :: "string \<Rightarrow> bool \<Rightarrow> matcher option" where
  "createMatcher term camelCase =
     (if camelCase \<and> \<not> isUpperCase term then None
      else (let gs = word_groups camelCase (runs (\<lambda>c. \<not> js_space c) (js_trim term))
            in Some \<lparr>groups = map fst gs, upperCase = concat (map snd gs)\<rparr>))"

subsection \<open>Running a matcher\<close>

definition same_letter :: "char \<Rightarrow> char \<Rightarrow> bool" where
  "same_letter a b \<longleftrightarrow> lower_char a = lower_char b"

text \<open>The ways to match a literal, in the order of the lazy quantifiers: what is taken and what is left.\<close>

fun prefixes_while :: "('a \<Rightarrow> bool) \<Rightarrow> 'a list \<Rightarrow> ('a list \<times> 'a list) list" where
  "prefixes_while P [] = [([], [])]"
| "prefixes_while P (x # xs) = ([], x # xs) # (if P x then map (\<lambda>(a, b). (x # a, b)) (prefixes_while P xs) else [])"

fun match_literal :: "string \<Rightarrow> string \<Rightarrow> (string \<times> string) list" where
  "match_literal [] s = [([], s)]"
| "match_literal (c # cs) [] = []"
| "match_literal (c # cs) (x # xs) =
     (if same_letter c x
      then (if c = CHR '','' \<or> c = CHR ''?''
            then concat (map (\<lambda>(sp, rest). map (\<lambda>(a, b). (x # sp @ a, b)) (match_literal cs rest)) (prefixes_while js_space xs))
            else map (\<lambda>(a, b). (x # a, b)) (match_literal cs xs))
      else [])"

definition gap_char :: "gap \<Rightarrow> char \<Rightarrow> bool" where
  "gap_char g c =
     (case g of
        GapAny \<Rightarrow> c \<noteq> CHR 0x0A \<and> c \<noteq> CHR 0x0D
      | GapNone \<Rightarrow> False
      | GapName \<Rightarrow> is_AZ c \<or> is_AZ (upper_char c) \<or> is_digit c \<or> c \<in> set ''$<>?[]'')"

fun first_found :: "('a \<Rightarrow> 'b option) \<Rightarrow> 'a list \<Rightarrow> 'b option" where
  "first_found f [] = None"
| "first_found f (x # xs) = (case f x of Some y \<Rightarrow> Some y | None \<Rightarrow> first_found f xs)"

fun match_groups :: "(string \<times> gap) list \<Rightarrow> string \<Rightarrow> (string \<times> string) list option" where
  "match_groups [] s = Some []"
| "match_groups ((lit, g) # gs) s =
     first_found (\<lambda>(a, rest).
       first_found (\<lambda>(b, rest'). map_option (\<lambda>ms. (a, b) # ms) (match_groups gs rest')) (prefixes_while (gap_char g) rest))
     (match_literal lit s)"

definition js_exec :: "matcher \<Rightarrow> string \<Rightarrow> int \<Rightarrow> (int \<times> (string \<times> string) list) option" where
  "js_exec M input from =
     first_found (\<lambda>i. map_option (\<lambda>ms. (int i, ms)) (match_groups (groups M) (drop i input))) [nat from..<Suc (length input)]"

definition match_length :: "(string \<times> string) list \<Rightarrow> int" where
  "match_length ms = int (length (concat (map (\<lambda>(a, b). a @ b) ms)))"

subsection \<open>Rating a match\<close>

definition rateNoise :: "string \<Rightarrow> rat" where
  "rateNoise str =
     of_nat (length (filter (\<lambda>c. c = CHR ''.'' \<or> c = CHR ''('') str)) / 5
     + of_nat (length (runs is_AZ str)) / 10 + of_nat (length str) / 20"

record search_match =
  minput :: string
  mscore :: rat
  mboundaries :: "int list"

text \<open>
  The loop that widens the search area to the left, one qualifier at a time, until the match touches
  the name. It returns nothing where there is no match.
\<close>

partial_function (option) widen ::
  "matcher \<Rightarrow> string \<Rightarrow> int \<Rightarrow> int \<Rightarrow> int \<Rightarrow> (int \<times> (string \<times> string) list) option option" where
  "widen M input startOfName endOfName from =
     (let found = (case js_exec M input from of
                     None \<Rightarrow> None
                   | Some (i, ms) \<Rightarrow> if i + match_length ms < startOfName \<or> endOfName < i then None else Some (i, ms))
      in case found of
           Some r \<Rightarrow> Some (Some r)
         | None \<Rightarrow>
             if from = 0 then Some None
             else widen M input startOfName endOfName (js_lastIndexOf input (CHR ''.'') (from - 2) + 1))"

declare widen.simps [code]

text \<open>A character or the empty string, for \<open>input[i] || ""\<close>.\<close>

definition char_at :: "string \<Rightarrow> int \<Rightarrow> string" where
  "char_at s i = (case js_nth s i of None \<Rightarrow> [] | Some c \<Rightarrow> [c])"

text \<open>The test \<open>/[\W_]/\<close>.\<close>

definition non_word :: "string \<Rightarrow> bool" where
  "non_word s \<longleftrightarrow> list_ex (\<lambda>c. \<not> is_word_char c \<or> c = CHR ''_'') s"

text \<open>
  The loop over the pairs of groups: position, end of the last literal, boundaries and score so far. It
  gives up (\<open>Inr None\<close>) where a group is not at the start of a word; \<open>isUpperCase(undefined)\<close> throws.
\<close>

fun rate_groups ::
  "string \<Rightarrow> int \<Rightarrow> (string \<times> string) list \<Rightarrow> bool list \<Rightarrow> int \<Rightarrow> int \<Rightarrow> int list \<Rightarrow> rat
     \<Rightarrow> js_exn + (int list \<times> rat) option" where
  "rate_groups input endOfName [] ups start prevEnd boundaries score = Inr (Some (boundaries, score))"
| "rate_groups input endOfName ((a, b) # ms) ups start prevEnd boundaries score =
     (case js_nth input start of
        None \<Rightarrow> Inl TypeError
      | Some c \<Rightarrow>
          (let isUpper = isUpperCase [c];
               isMatcherUpper = (case ups of _ # u # _ \<Rightarrow> u | _ \<Rightarrow> False);
               boundaries' = boundaries @ [start, start + int (length a)];
               prevChar = char_at input (start - 1);
               nextChar = char_at input (start + 1);
               anchored = (if start \<noteq> 0 \<and> \<not> non_word prevChar \<and> \<not> non_word [c]
                           then if isUpper \<and> (isLowerCase prevChar \<or> isLowerCase nextChar) then Some (score - 1 / 10)
                                else if isMatcherUpper \<and> start = prevEnd then Some (score - (if isUpper then 1 / 10 else 1))
                                else None
                           else Some score)
           in case anchored of
                None \<Rightarrow> Inr None
              | Some score' \<Rightarrow>
                  (let prevEnd' = start + int (length a) in
                   rate_groups input endOfName ms (drop 2 ups) (start + int (length a) + int (length b)) prevEnd' boundaries'
                     (if b \<noteq> [] \<and> prevEnd' < endOfName then score' - rateNoise b else score'))))"

definition findMatch :: "matcher \<Rightarrow> string \<Rightarrow> int \<Rightarrow> int \<Rightarrow> search_match option jsr" where
  "findMatch M input startOfName endOfName =
     (case widen M input startOfName endOfName startOfName of
        None \<Rightarrow> None
      | Some None \<Rightarrow> js_ret None
      | Some (Some (i, ms)) \<Rightarrow>
          (let matchEnd = i + match_length ms in
           case rate_groups input endOfName ms (upperCase M) i (- 1) [] 5 of
             Inl e \<Rightarrow> js_throw e
           | Inr None \<Rightarrow> js_ret None
           | Inr (Some (boundaries, score)) \<Rightarrow>
               (let score1 = (if js_nth input (matchEnd - 1) \<noteq> Some (CHR ''.'') \<and> endOfName > matchEnd
                              then score - rateNoise (js_slice input matchEnd endOfName) else score);
                    score2 = score1 - rateNoise (js_slice input 0 (max startOfName i))
                in if score2 \<le> 0 then js_ret None
                   else js_ret (Some \<lparr>minput = input, mscore = score2, mboundaries = boundaries\<rparr>))))"

subsection \<open>Searching the indexes\<close>

record search_result = search_match +
  indexItem :: "index_item option"
  rprefix :: string
  rcategory :: category
  rlabel :: "string option"

definition getPrefix :: "index_item \<Rightarrow> category \<Rightarrow> string" where
  "getPrefix item category =
     (case category of
        Packages \<Rightarrow> checkUnnamed (im item) ''/''
      | Types \<Rightarrow> checkUnnamed (ip item) ''.''
      | Members \<Rightarrow> checkUnnamed (ip item) ''.'' @ as_string (ic item) @ ''.''
      | _ \<Rightarrow> [])"

definition useQualifiedName :: "string \<Rightarrow> category \<Rightarrow> bool" where
  "useQualifiedName term category =
     (case category of
        Packages \<Rightarrow> list_ex (\<lambda>c. js_space c \<or> c = CHR ''/'') term
      | Types \<Rightarrow> list_ex (\<lambda>c. js_space c \<or> c = CHR ''.'') term
      | Members \<Rightarrow> list_ex (\<lambda>c. js_space c \<or> c = CHR ''.'') term
      | _ \<Rightarrow> False)"

definition match_item :: "string \<Rightarrow> matcher \<Rightarrow> matcher option \<Rightarrow> category \<Rightarrow> index_item \<Rightarrow> search_result option jsr" where
  "match_item term plainMatcher camelCaseMatcher category item =
     (let prefix = getPrefix item category;
          qualifiedName = prefix @ il item;
          useQualified = useQualifiedName term category;
          input = (if useQualified then qualifiedName else il item);
          startOfName = (if useQualified then int (length prefix) else 0);
          paren = js_indexOf input (CHR ''('') startOfName;
          endOfName = (if category = Members \<and> paren > - 1 then paren else int (length input))
      in js_bind (findMatch plainMatcher input startOfName endOfName) (\<lambda>m1.
         js_bind (case (m1, camelCaseMatcher) of
                    (None, Some cm) \<Rightarrow> findMatch cm input startOfName endOfName
                  | _ \<Rightarrow> js_ret m1) (\<lambda>m.
         js_ret (map_option (\<lambda>r.
           \<lparr>minput = (if useQualified then minput r else qualifiedName), mscore = mscore r,
            mboundaries = (if useQualified then mboundaries r else map (\<lambda>b. b + int (length prefix)) (mboundaries r)),
            indexItem = Some item, rprefix = prefix, rcategory = category, rlabel = None\<rparr>) m))))"

fun match_items :: "string \<Rightarrow> matcher \<Rightarrow> matcher option \<Rightarrow> category \<Rightarrow> index_item list \<Rightarrow> search_result list jsr" where
  "match_items term pm cm category [] = js_ret []"
| "match_items term pm cm category (item # items) =
     js_bind (match_item term pm cm category item) (\<lambda>r.
     js_bind (match_items term pm cm category items) (\<lambda>rs.
     js_ret (case r of None \<Rightarrow> rs | Some x \<Rightarrow> x # rs)))"

text \<open>A missing index counts as not loaded; the sort of the results is stable.\<close>

definition searchIndex ::
  "string \<Rightarrow> matcher \<Rightarrow> matcher option \<Rightarrow> bool \<Rightarrow> nat \<Rightarrow> index_item list option \<Rightarrow> category \<Rightarrow> search_result list jsr" where
  "searchIndex term pm cm indexLoaded maxResults indexArray category =
     (case indexArray of
        None \<Rightarrow>
          js_ret (if \<not> indexLoaded
                  then [\<lparr>minput = [], mscore = 0, mboundaries = [], indexItem = None, rprefix = [], rcategory = category,
                         rlabel = Some ''Loading search index...''\<rparr>]
                  else [])
      | Some items \<Rightarrow>
          js_bind (match_items term pm cm category items) (\<lambda>matches.
          js_ret (take maxResults (sort_key (\<lambda>m. - mscore m) matches))))"

record search_index =
  moduleSearchIndex :: "index_item list option"
  packageSearchIndex :: "index_item list option"
  typeSearchIndex :: "index_item list option"
  memberSearchIndex :: "index_item list option"
  tagSearchIndex :: "index_item list option"

definition indexFilesLoaded :: "search_index \<Rightarrow> bool" where
  "indexFilesLoaded I \<longleftrightarrow>
     moduleSearchIndex I \<noteq> None \<and> packageSearchIndex I \<noteq> None \<and> typeSearchIndex I \<noteq> None
     \<and> memberSearchIndex I \<noteq> None \<and> tagSearchIndex I \<noteq> None"

definition MAX_RESULTS :: nat where
  "MAX_RESULTS = 300"

text \<open>
  \<open>doSearch\<close>: what it responds with, or nothing for a blank query, and whether the search is to be
  repeated when the index has been loaded.
\<close>

definition doSearch :: "search_index \<Rightarrow> string \<Rightarrow> nat option \<Rightarrow> (search_result list \<times> bool) option jsr" where
  "doSearch I query maxResults =
     (let term = js_trim query;
          limit = (case maxResults of None \<Rightarrow> MAX_RESULTS | Some n \<Rightarrow> if n = 0 then MAX_RESULTS else n)
      in if term = [] then js_ret None
         else
           (let pm = the (createMatcher term False);
                cm = createMatcher term True;
                indexLoaded = indexFilesLoaded I;
                search = searchIndex term pm cm indexLoaded limit
            in js_bind (search (moduleSearchIndex I) Modules) (\<lambda>r1.
               js_bind (search (packageSearchIndex I) Packages) (\<lambda>r2.
               js_bind (search (typeSearchIndex I) Types) (\<lambda>r3.
               js_bind (search (memberSearchIndex I) Members) (\<lambda>r4.
               js_bind (search (tagSearchIndex I) SearchTags) (\<lambda>r5.
               js_ret (Some (r1 @ r2 @ r3 @ r4 @ r5, \<not> indexLoaded)))))))))"

subsection \<open>What a match consists of\<close>

lemma first_found_Some: "first_found f xs = Some y \<Longrightarrow> \<exists>x \<in> set xs. f x = Some y"
  by (induction xs) (auto split: option.splits)

lemma prefixes_while_sound: "(a, b) \<in> set (prefixes_while P s) \<Longrightarrow> s = a @ b"
  by (induction P s arbitrary: a b rule: prefixes_while.induct) (auto split: if_splits)

lemma match_literal_sound: "(a, b) \<in> set (match_literal lit s) \<Longrightarrow> s = a @ b \<and> (lit \<noteq> [] \<longrightarrow> a \<noteq> [])"
  by (induction lit s arbitrary: a b rule: match_literal.induct)
    (fastforce split: if_splits dest: prefixes_while_sound)+

lemma match_groups_sound:
  "match_groups gs s = Some ms \<Longrightarrow> (\<forall>(lit, g) \<in> set gs. lit \<noteq> []) \<Longrightarrow>
     (\<exists>rest. s = concat (map (\<lambda>(a, b). a @ b) ms) @ rest) \<and> (\<forall>(a, b) \<in> set ms. a \<noteq> [])"
proof (induction gs s arbitrary: ms rule: match_groups.induct)
  case (1 s)
  then show ?case by simp
next
  case (2 lit g gs s)
  from first_found_Some[OF "2.prems"(1)[unfolded match_groups.simps]] obtain a rest where
    a: "(a, rest) \<in> set (match_literal lit s)" and
    f: "first_found (\<lambda>(b, rest'). map_option (\<lambda>ms. (a, b) # ms) (match_groups gs rest')) (prefixes_while (gap_char g) rest) = Some ms"
    by auto
  from first_found_Some[OF f] obtain b rest' ms' where
    b: "(b, rest') \<in> set (prefixes_while (gap_char g) rest)" and ms: "match_groups gs rest' = Some ms'" "ms = (a, b) # ms'"
    by auto
  have IH: "(\<exists>r. rest' = concat (map (\<lambda>(a, b). a @ b) ms') @ r) \<and> (\<forall>(a, b) \<in> set ms'. a \<noteq> [])"
    using "2.IH"[OF ms(1)] "2.prems"(2) by auto
  from match_literal_sound[OF a] prefixes_while_sound[OF b] IH ms(2) "2.prems"(2) show ?case by auto
qed

definition matcher_ok :: "matcher \<Rightarrow> bool" where
  "matcher_ok M \<longleftrightarrow> (\<forall>(lit, g) \<in> set (groups M). lit \<noteq> [])"

lemma token_groups_lit: "((lit, g), u) \<in> set (token_groups cc m ss) \<Longrightarrow> lit \<in> set ss"
  by (induction cc m ss rule: token_groups.induct) (auto simp: token_group_def split: if_splits)

lemma word_groups_lit: "((lit, g), u) \<in> set (word_groups cc ws) \<Longrightarrow> lit \<noteq> []"
  by (induction cc ws rule: word_groups.induct) (auto dest: token_groups_lit split_before_nonempty)

lemma createMatcher_ok: "createMatcher term cc = Some M \<Longrightarrow> matcher_ok M"
  using word_groups_lit by (fastforce simp: createMatcher_def matcher_ok_def Let_def split: if_splits)

lemma js_exec_sound:
  assumes "js_exec M input from = Some (i, ms)" "matcher_ok M"
  shows "0 \<le> i \<and> i + match_length ms \<le> int (length input) \<and> (\<forall>(a, b) \<in> set ms. a \<noteq> [])"
proof -
  from first_found_Some[OF assms(1)[unfolded js_exec_def]] obtain n where
    n: "n \<le> length input" "i = int n" "match_groups (groups M) (drop n input) = Some ms" by auto
  from match_groups_sound[OF n(3)] assms(2) obtain rest where
    r: "drop n input = concat (map (\<lambda>(a, b). a @ b) ms) @ rest" "\<forall>(a, b) \<in> set ms. a \<noteq> []"
    unfolding matcher_ok_def by blast
  from arg_cong[OF r(1), of length] n r(2) show ?thesis by (simp add: match_length_def)
qed

subsection \<open>The search ends\<close>

lemma widen_returns:
  assumes "js_nth input 0 \<noteq> Some (CHR ''.'')" "0 \<le> from"
  shows "\<exists>r. widen M input s e from = Some r \<and> (\<forall>i ms. r = Some (i, ms) \<longrightarrow> (\<exists>f. js_exec M input f = Some (i, ms)))"
  using assms(2)
proof (induction "nat from" arbitrary: "from" rule: less_induct)
  case less
  let ?next = "js_lastIndexOf input (CHR ''.'') (from - 2) + 1"
  have dec: "0 \<le> ?next \<and> ?next < from" if "from \<noteq> 0"
  proof -
    consider "?next = 0" | "0 \<le> ?next - 1" "?next - 1 \<le> max (from - 2) 0" "?next - 1 < int (length input)" "input ! nat (?next - 1) = CHR ''.''"
      using js_lastIndexOf_bound[of input "CHR ''.''" "from - 2", OF refl] by auto
    then show ?thesis
    proof cases
      case 2
      have "?next - 1 \<noteq> 0" using assms(1) 2 by (auto simp: js_nth_def)
      with 2 that less.prems show ?thesis by linarith
    qed (use that less.prems in simp)
  qed
  show ?case
  proof (cases "case js_exec M input from of None \<Rightarrow> None
      | Some (i, ms) \<Rightarrow> if i + match_length ms < s \<or> e < i then None else Some (i, ms)")
    case None
    show ?thesis
    proof (cases "from = 0")
      case True
      with None show ?thesis by (simp add: widen.simps)
    next
      case False
      with dec[OF False] less.hyps[of ?next] None show ?thesis by (simp add: widen.simps[of M input s e "from"])
    qed
  next
    case (Some r)
    then show ?thesis by (auto simp: widen.simps[of M input s e "from"] split: option.splits if_splits)
  qed
qed

lemma widen_stuck:
  assumes "js_nth input 0 = Some (CHR ''.'')" "js_exec M input 1 = None"
  shows "widen M input s e 1 = None"
proof -
  have one: "js_lastIndexOf input (CHR ''.'') (- 1) = 0"
    using assms(1) by (cases input) (auto simp: js_lastIndexOf_def js_nth_def)
  let ?P = "\<lambda>M' input' s e from r. M' = M \<and> input' = input \<longrightarrow> from \<noteq> (1 :: int)"
  have "?P M input s e 1 r" if "widen M input s e 1 = Some r" for r
  proof (rule widen.raw_induct[where P = ?P, OF _ that])
    fix f M' input' s e "from" r
    assume ih: "\<And>M' input' s e from r. f M' input' s e from = Some r \<Longrightarrow> ?P M' input' s e from r"
      and step: "(let found = (case js_exec M' input' from of None \<Rightarrow> None
           | Some (i, ms) \<Rightarrow> if i + match_length ms < s \<or> e < i then None else Some (i, ms))
        in case found of Some r \<Rightarrow> Some (Some r)
           | None \<Rightarrow> if from = 0 then Some None
                     else f M' input' s e (js_lastIndexOf input' (CHR ''.'') (from - 2) + 1)) = Some r"
    show "?P M' input' s e from r"
    proof (intro impI notI)
      assume eq: "M' = M \<and> input' = input" "from = 1"
      with step assms(2) one have "f M input s e 1 = Some r" by simp
      from ih[OF this] show False by simp
    qed
  qed
  then show ?thesis by (metis not_None_eq)
qed

subsection \<open>Boundaries of a match\<close>

definition bounds_ok :: "int \<Rightarrow> int list \<Rightarrow> bool" where
  "bounds_ok n bs \<longleftrightarrow> even (length bs) \<and> sorted bs \<and> (\<forall>b \<in> set bs. 0 \<le> b \<and> b \<le> n)"

lemma match_length_Cons [simp]: "match_length ((a, b) # ms) = int (length a) + int (length b) + match_length ms"
  by (simp add: match_length_def)

lemma match_length_nonneg: "0 \<le> match_length ms"
  by (simp add: match_length_def)

lemma rate_groups_ok:
  assumes "\<forall>(a, b) \<in> set ms. a \<noteq> []" "0 \<le> start" "start + match_length ms \<le> int (length input)" "bounds_ok start bds"
  shows "\<exists>r. rate_groups input endOfName ms ups start prevEnd bds score = Inr r
    \<and> (\<forall>bs sc. r = Some (bs, sc) \<longrightarrow> bounds_ok (int (length input)) bs)"
  using assms
proof (induction ms arbitrary: ups start prevEnd bds score)
  case Nil
  then show ?case by (auto simp: bounds_ok_def match_length_def)
next
  case (Cons m ms)
  obtain a b where m: "m = (a, b)" by (cases m)
  have a: "a \<noteq> []" using Cons.prems(1) m by simp
  have len: "start + int (length a) + int (length b) + match_length ms \<le> int (length input)" using Cons.prems(3) m by simp
  have "start < int (length input)" using len a match_length_nonneg[of ms] by (cases a) auto
  then obtain c where c: "js_nth input start = Some c" using Cons.prems(2) by (simp add: js_nth_def)
  have bds: "bounds_ok (start + int (length a) + int (length b)) (bds @ [start, start + int (length a)])"
    using Cons.prems(2,4) by (auto simp: bounds_ok_def sorted_append intro: order_trans)
  have rec: "\<exists>r. rate_groups input endOfName ms (drop 2 ups) (start + int (length a) + int (length b)) p
        (bds @ [start, start + int (length a)]) sc = Inr r
      \<and> (\<forall>bs sc. r = Some (bs, sc) \<longrightarrow> bounds_ok (int (length input)) bs)" for p sc
    using Cons.IH[OF _ _ _ bds] Cons.prems(1,2) m len by auto
  show ?case unfolding m rate_groups.simps c option.case Let_def using rec by (auto split: option.splits)
qed

lemma findMatch_returns:
  assumes ok: "matcher_ok M" and dot: "js_nth input 0 \<noteq> Some (CHR ''.'')" and s: "0 \<le> s"
  shows "\<exists>r. findMatch M input s e = Some (Inr r)
    \<and> (\<forall>m. r = Some m \<longrightarrow> minput m = input \<and> 0 < mscore m \<and> bounds_ok (int (length input)) (mboundaries m))"
proof -
  from widen_returns[OF dot s, of M s e] obtain w where w: "widen M input s e s = Some w"
    and ex: "\<And>i ms. w = Some (i, ms) \<Longrightarrow> \<exists>f. js_exec M input f = Some (i, ms)" by blast
  show ?thesis
  proof (cases w)
    case None
    with w show ?thesis by (simp add: findMatch_def)
  next
    case (Some p)
    obtain i ms where p: "p = (i, ms)" by (cases p)
    from ex[of i ms] Some p js_exec_sound[OF _ ok] have r: "0 \<le> i" "i + match_length ms \<le> int (length input)" "\<forall>(a, b) \<in> set ms. a \<noteq> []"
      by blast+
    have "bounds_ok i []" by (simp add: bounds_ok_def)
    from rate_groups_ok[OF r(3,1,2) this, of e "upperCase M" "- 1" 5] obtain q where
      q: "rate_groups input e ms (upperCase M) i (- 1) [] 5 = Inr q"
      "\<And>bs sc. q = Some (bs, sc) \<Longrightarrow> bounds_ok (int (length input)) bs" by blast
    show ?thesis
    proof (cases q)
      case None
      with w Some p q(1) show ?thesis by (simp add: findMatch_def Let_def)
    next
      case (Some t)
      obtain bs sc where t: "t = (bs, sc)" by (cases t)
      from q(2)[of bs sc] Some t have "bounds_ok (int (length input)) bs" by simp
      with w \<open>w = Some p\<close> p q(1) Some t show ?thesis by (auto simp: findMatch_def Let_def)
    qed
  qed
qed

subsection \<open>What a search returns\<close>

text \<open>The names in an index do not start with a dot, and a member belongs to a named class.\<close>

definition no_dot :: "string \<Rightarrow> bool" where
  "no_dot s \<longleftrightarrow> js_nth s 0 \<noteq> Some (CHR ''.'')"

definition item_wf :: "index_item \<Rightarrow> bool" where
  "item_wf item \<longleftrightarrow> no_dot (il item) \<and> (\<forall>s \<in> set_option (im item) \<union> set_option (ip item) \<union> set_option (ic item). no_dot s)
     \<and> ic item \<noteq> Some []"

lemma no_dot_append: "no_dot s \<Longrightarrow> (s = [] \<Longrightarrow> no_dot t) \<Longrightarrow> no_dot (s @ t)"
  by (cases s) (auto simp: no_dot_def js_nth_def)

lemma checkUnnamed_no_dot: "(\<And>s. name = Some s \<Longrightarrow> no_dot s) \<Longrightarrow> no_dot (checkUnnamed name sep)"
proof (cases "name = Some ''<Unnamed>'' \<or> \<not> truthy name")
  case True
  then show ?thesis by (simp add: checkUnnamed_def no_dot_def js_nth_def)
next
  case False
  assume "\<And>s. name = Some s \<Longrightarrow> no_dot s"
  with False show ?thesis by (auto simp: checkUnnamed_def truthy_def intro: no_dot_append)
qed

lemma checkUnnamed_Nil: "checkUnnamed name sep = [] \<Longrightarrow> sep \<noteq> [] \<Longrightarrow> name = Some ''<Unnamed>'' \<or> \<not> truthy name"
  by (auto simp: checkUnnamed_def split: if_splits)

lemma prefix_no_dot: "item_wf item \<Longrightarrow> no_dot (getPrefix item category)"
proof -
  assume wf: "item_wf item"
  have p: "no_dot (checkUnnamed (ip item) ''.'')" "no_dot (checkUnnamed (im item) ''/'')"
    by (rule checkUnnamed_no_dot; use wf in \<open>auto simp: item_wf_def\<close>)+
  have c: "no_dot (as_string (ic item) @ ''.'')"
  proof (cases "ic item")
    case (Some c)
    with wf have "no_dot c" "c \<noteq> []" by (auto simp: item_wf_def)
    then show ?thesis by (simp add: Some as_string_def no_dot_append)
  qed (simp add: as_string_def no_dot_def js_nth_def)
  show ?thesis
    using p no_dot_append[OF p(1) c] by (cases category) (simp_all add: getPrefix_def no_dot_def js_nth_def)
qed

definition result_ok :: "index_item list \<Rightarrow> category \<Rightarrow> search_result \<Rightarrow> bool" where
  "result_ok items category r \<longleftrightarrow>
     (\<exists>item \<in> set items. indexItem r = Some item \<and> minput r = getPrefix item category @ il item \<and> rprefix r = getPrefix item category)
     \<and> rcategory r = category \<and> 0 < mscore r \<and> bounds_ok (int (length (minput r))) (mboundaries r)"

lemma bounds_ok_shift: "bounds_ok n bs \<Longrightarrow> 0 \<le> k \<Longrightarrow> bounds_ok (n + k) (map (\<lambda>b. b + k) bs)"
  by (auto simp: bounds_ok_def sorted_map)

lemma match_item_returns:
  assumes ok: "matcher_ok pm" "\<forall>m \<in> set_option cm. matcher_ok m" and wf: "item_wf item"
  shows "\<exists>r. match_item term pm cm category item = Some (Inr r) \<and> (\<forall>x. r = Some x \<longrightarrow> result_ok [item] category x)"
proof -
  define prefix where "prefix = getPrefix item category"
  define uq where "uq = useQualifiedName term category"
  define input where "input = (if uq then prefix @ il item else il item)"
  define s where "s = (if uq then int (length prefix) else 0)"
  define e where "e = (if category = Members \<and> js_indexOf input (CHR ''('') s > - 1 then js_indexOf input (CHR ''('') s else int (length input))"
  have dot: "js_nth input 0 \<noteq> Some (CHR ''.'')"
    using no_dot_append[OF prefix_no_dot[OF wf, of category], of "il item"] wf
    by (auto simp: input_def prefix_def item_wf_def no_dot_def)
  have s: "0 \<le> s" by (simp add: s_def)
  define good where "good = (\<lambda>m :: search_match. minput m = input \<and> 0 < mscore m \<and> bounds_ok (int (length input)) (mboundaries m))"
  from findMatch_returns[OF ok(1) dot s, of e] obtain m1 where
    m1: "findMatch pm input s e = Some (Inr m1)" "\<And>m. m1 = Some m \<Longrightarrow> good m" unfolding good_def by blast
  obtain m where m: "(case (m1, cm) of (None, Some cm) \<Rightarrow> findMatch cm input s e | _ \<Rightarrow> js_ret m1) = Some (Inr m)"
    "\<And>x. m = Some x \<Longrightarrow> good x"
  proof (cases m1)
    case None
    show ?thesis
    proof (cases cm)
      case (Some c)
      with findMatch_returns[of c, OF _ dot s, of e] ok(2) that None show ?thesis unfolding good_def by fastforce
    qed (use that None in simp)
  qed (use that m1 in simp)
  define result where "result = (\<lambda>r :: search_match. \<lparr>minput = (if uq then minput r else prefix @ il item), mscore = mscore r,
      mboundaries = (if uq then mboundaries r else map (\<lambda>b. b + int (length prefix)) (mboundaries r)),
      indexItem = Some item, rprefix = prefix, rcategory = category, rlabel = None\<rparr>)"
  have eq: "match_item term pm cm category item = Some (Inr (map_option result m))"
    using m1(1) m(1) unfolding match_item_def Let_def prefix_def[symmetric] uq_def[symmetric] input_def[symmetric] s_def[symmetric] e_def[symmetric]
    by (simp add: js_ret_def result_def)
  have "result_ok [item] category (result x)" if "good x" for x
    using that bounds_ok_shift[of "int (length (il item))" "mboundaries x" "int (length prefix)"]
    by (auto simp: result_ok_def result_def good_def input_def prefix_def[symmetric] add.commute split: if_splits)
  with eq m(2) show ?thesis by fastforce
qed

lemma match_items_returns:
  assumes "matcher_ok pm" "\<forall>m \<in> set_option cm. matcher_ok m" "\<forall>item \<in> set items. item_wf item"
  shows "\<exists>rs. match_items term pm cm category items = Some (Inr rs) \<and> (\<forall>r \<in> set rs. result_ok items category r)"
  using assms(3)
proof (induction items)
  case Nil
  show ?case by (simp add: js_ret_def)
next
  case (Cons item items)
  from match_item_returns[OF assms(1,2)] Cons.prems obtain x where x: "match_item term pm cm category item = Some (Inr x)"
    "\<And>r. x = Some r \<Longrightarrow> result_ok [item] category r" by (metis list.set_intros(1))
  from Cons obtain rs where rs: "match_items term pm cm category items = Some (Inr rs)" "\<forall>r \<in> set rs. result_ok items category r" by auto
  have "match_items term pm cm category (item # items) = Some (Inr (case x of None \<Rightarrow> rs | Some r \<Rightarrow> r # rs))"
    using x(1) rs(1) by (simp add: js_ret_def)
  moreover have "\<forall>r \<in> set (case x of None \<Rightarrow> rs | Some r \<Rightarrow> r # rs). result_ok (item # items) category r"
    using rs(2) x(2) by (auto simp: result_ok_def split: option.splits)
  ultimately show ?case by blast
qed

definition index_of_category :: "search_index \<Rightarrow> category \<Rightarrow> index_item list option" where
  "index_of_category I category =
     (case category of
        Modules \<Rightarrow> moduleSearchIndex I | Packages \<Rightarrow> packageSearchIndex I | Types \<Rightarrow> typeSearchIndex I
      | Members \<Rightarrow> memberSearchIndex I | SearchTags \<Rightarrow> tagSearchIndex I)"

definition index_wf :: "search_index \<Rightarrow> bool" where
  "index_wf I \<longleftrightarrow> (\<forall>category items. index_of_category I category = Some items \<longrightarrow> (\<forall>item \<in> set items. item_wf item))"

text \<open>The results of one category: good matches, best first, no more than the limit; or the notice that the index is loading.\<close>

definition category_results :: "search_index \<Rightarrow> nat \<Rightarrow> category \<Rightarrow> search_result list \<Rightarrow> bool" where
  "category_results I limit category rs \<longleftrightarrow>
     (case index_of_category I category of
        None \<Rightarrow> length rs \<le> 1 \<and> (\<forall>r \<in> set rs. indexItem r = None \<and> rlabel r = Some ''Loading search index...'')
      | Some items \<Rightarrow> length rs \<le> limit \<and> sorted_wrt (\<lambda>a b. mscore b \<le> mscore a) rs \<and> (\<forall>r \<in> set rs. result_ok items category r))"

lemma searchIndex_returns:
  assumes "matcher_ok pm" "\<forall>m \<in> set_option cm. matcher_ok m" "index_wf I"
  shows "\<exists>rs. searchIndex term pm cm loaded limit (index_of_category I category) category = Some (Inr rs)
    \<and> category_results I limit category rs"
proof (cases "index_of_category I category")
  case None
  then show ?thesis by (simp add: searchIndex_def category_results_def js_ret_def)
next
  case (Some items)
  with assms(3) have "\<forall>item \<in> set items. item_wf item" by (auto simp: index_wf_def)
  from match_items_returns[OF assms(1,2) this, of "term" category] obtain rs where
    rs: "match_items term pm cm category items = Some (Inr rs)" "\<forall>r \<in> set rs. result_ok items category r" by blast
  have "sorted_wrt (\<lambda>a b. mscore b \<le> mscore a) (sort_key (\<lambda>m. - mscore m) rs)"
    using sorted_sort_key[of "\<lambda>m. - mscore m" rs] by (simp add: sorted_map)
  then have "sorted_wrt (\<lambda>a b. mscore b \<le> mscore a) (take limit (sort_key (\<lambda>m. - mscore m) rs))"
    by (rule sorted_wrt_take)
  with rs show ?thesis
    by (auto simp: Some searchIndex_def category_results_def js_ret_def dest: in_set_takeD)
qed

definition result_limit :: "nat option \<Rightarrow> nat" where
  "result_limit maxResults = (case maxResults of None \<Rightarrow> 300 | Some n \<Rightarrow> if n = 0 then 300 else n)"

lemma doSearch_results:
  assumes wf: "index_wf I" and q: "js_trim query \<noteq> []"
  obtains R where
    "doSearch I query maxResults
       = Some (Inr (Some (R Modules @ R Packages @ R Types @ R Members @ R SearchTags, \<not> indexFilesLoaded I)))"
    "\<And>c. category_results I (result_limit maxResults) c (R c)"
proof -
  define limit where "limit = result_limit maxResults"
  have lim: "(case maxResults of None \<Rightarrow> MAX_RESULTS | Some n \<Rightarrow> if n = 0 then MAX_RESULTS else n) = limit"
    by (simp add: limit_def result_limit_def MAX_RESULTS_def split: option.split)
  obtain pm where pm: "createMatcher (js_trim query) False = Some pm" by (auto simp: createMatcher_def Let_def)
  let ?cm = "createMatcher (js_trim query) True"
  have ok: "matcher_ok pm" "\<forall>m \<in> set_option ?cm. matcher_ok m"
    using createMatcher_ok[OF pm] createMatcher_ok[of "js_trim query" True] by (auto simp: elem_set)
  have "\<forall>c. \<exists>rs. searchIndex (js_trim query) pm ?cm (indexFilesLoaded I) limit (index_of_category I c) c = Some (Inr rs)
      \<and> category_results I limit c rs"
    using searchIndex_returns[OF ok wf] by blast
  then obtain R where R: "\<And>c. searchIndex (js_trim query) pm ?cm (indexFilesLoaded I) limit (index_of_category I c) c = Some (Inr (R c))"
    "\<And>c. category_results I limit c (R c)" by metis
  have "doSearch I query maxResults
      = Some (Inr (Some (R Modules @ R Packages @ R Types @ R Members @ R SearchTags, \<not> indexFilesLoaded I)))"
    using q R(1)[of Modules] R(1)[of Packages] R(1)[of Types] R(1)[of Members] R(1)[of SearchTags]
    by (simp add: doSearch_def pm lim index_of_category_def js_ret_def Let_def)
  with R(2) that show thesis unfolding limit_def by blast
qed

text \<open>
  C11. On an index whose names do not start with a dot, the search returns: nothing for a blank query,
  and otherwise the results of the five categories in their order, each list best first, within
  the limit, of entries of its index, with a positive score and with boundaries that are increasing
  positions of the shown name; it asks to be repeated exactly while an index is missing.
\<close>

theorem doSearch_correct:
  assumes "index_wf I"
  shows "(js_trim query = [] \<longrightarrow> doSearch I query maxResults = Some (Inr None))
    \<and> (js_trim query \<noteq> [] \<longrightarrow> (\<exists>r1 r2 r3 r4 r5.
         doSearch I query maxResults = Some (Inr (Some (r1 @ r2 @ r3 @ r4 @ r5, \<not> indexFilesLoaded I)))
         \<and> (\<forall>(c, r) \<in> set [(Modules, r1), (Packages, r2), (Types, r3), (Members, r4), (SearchTags, r5)].
              category_results I (result_limit maxResults) c r)))"
proof (intro conjI impI)
  show "js_trim query = [] \<Longrightarrow> doSearch I query maxResults = Some (Inr None)"
    by (simp add: doSearch_def js_ret_def)
  assume q: "js_trim query \<noteq> []"
  show "\<exists>r1 r2 r3 r4 r5. doSearch I query maxResults = Some (Inr (Some (r1 @ r2 @ r3 @ r4 @ r5, \<not> indexFilesLoaded I)))
      \<and> (\<forall>(c, r) \<in> set [(Modules, r1), (Packages, r2), (Types, r3), (Members, r4), (SearchTags, r5)].
           category_results I (result_limit maxResults) c r)"
    by (rule doSearch_results[OF assms q, of maxResults], intro exI conjI) auto
qed

text \<open>
  C36. The loop that widens the search area does not end for a name behind a leading dot, when nothing
  matches from the second character on: \<open>lastIndexOf\<close> takes the negative start as 0 and finds the dot
  again. This is the case of a member whose class has an empty name.
\<close>

theorem findMatch_diverges:
  assumes "js_nth input 0 = Some (CHR ''.'')" "js_exec M input 1 = None"
  shows "findMatch M input 1 endOfName = None"
  using widen_stuck[OF assms] by (simp add: findMatch_def)

subsection \<open>Marked-up text\<close>

text \<open>The text of a piece of markup: everything outside of its tags.\<close>

fun unmark :: "string \<Rightarrow> string" where
  "unmark [] = []"
| "unmark (c # cs) = (if c = CHR ''<'' then unmark (tl (dropWhile (\<lambda>x. x \<noteq> CHR ''>'') cs)) else c # unmark cs)"

lemma unmark_plain: "(\<forall>c \<in> set s. c \<noteq> CHR ''<'') \<Longrightarrow> unmark (s @ t) = s @ unmark t"
  by (induction s) auto

lemma escapeHtml_plain: "c \<in> set (escapeHtml s) \<Longrightarrow> c \<noteq> CHR ''<'' \<and> c \<noteq> CHR ''>''"
  by (induction s) (auto simp: escapeHtml_def split: if_splits)

lemma unmark_escape: "unmark (escapeHtml s @ t) = escapeHtml s @ unmark t"
  using escapeHtml_plain by (intro unmark_plain) blast

lemma unmark_tags: "unmark (span_open @ t) = unmark t" "unmark (span_close @ t) = unmark t"
  by (simp_all add: span_open_def span_close_def)

lemma escapeHtml_append: "escapeHtml (s @ t) = escapeHtml s @ escapeHtml t"
  by (simp add: escapeHtml_def)

lemma highlight_loop_text:
  assumes "0 \<le> from" "from \<le> start" "start \<le> to" "to \<le> int (length str)" "sorted bs" "even (length bs)"
    and "start = from \<or> (\<forall>b \<in> set bs. start \<le> b)"
  shows "\<exists>start' d. highlight_loop str bs from to start text = (start', text @ d)
    \<and> (\<forall>rest. unmark (d @ escapeHtml (js_slice str start' to) @ rest) = escapeHtml (js_slice str start to) @ unmark rest)"
  using assms
proof (induction str bs "from" to start "text" rule: highlight_loop.induct)
  case (1 str b0 b1 bs "from" to start "text")
  note p = "1.prems"
  have srt: "b0 \<le> b1" "\<forall>b \<in> set bs. b1 \<le> b" "sorted bs" "even (length bs)" using p(5,6) by auto
  show ?case
  proof (cases "b0 \<ge> to \<or> b1 \<le> from")
    case True
    with "1.IH"(1)[OF True p(1-4) srt(3,4)] p(7) show ?thesis by auto
  next
    case False
    let ?m = "max start b0" and ?e = "min to b1"
    let ?t = "text @ escapeHtml (js_slice str start ?m) @ span_open @ escapeHtml (js_slice str ?m ?e) @ span_close"
    have ord: "start \<le> ?m" "?m \<le> ?e" "?e \<le> to" "from \<le> ?e" "\<forall>b \<in> set bs. ?e \<le> b"
      using False p srt by (auto simp: min_le_iff_disj)
    from "1.IH"(2)[OF False p(1) ord(4,3) p(4) srt(3,4)] ord(5) obtain start' d where
      d: "highlight_loop str bs from to ?e ?t = (start', ?t @ d)"
      "\<And>rest. unmark (d @ escapeHtml (js_slice str start' to) @ rest) = escapeHtml (js_slice str ?e to) @ unmark rest" by blast
    have slices: "js_slice str start ?m @ js_slice str ?m ?e @ js_slice str ?e to = js_slice str start to"
    proof -
      have "js_slice str ?m ?e @ js_slice str ?e to = js_slice str ?m to" by (rule js_slice_append) (use ord p in auto)
      moreover have "js_slice str start ?m @ js_slice str ?m to = js_slice str start to"
        by (rule js_slice_append) (use ord p in auto)
      ultimately show ?thesis by simp
    qed
    let ?d = "escapeHtml (js_slice str start ?m) @ span_open @ escapeHtml (js_slice str ?m ?e) @ span_close @ d"
    have "highlight_loop str (b0 # b1 # bs) from to start text = (start', text @ ?d)"
      using d(1) False by simp
    moreover have "unmark (?d @ escapeHtml (js_slice str start' to) @ rest) = escapeHtml (js_slice str start to) @ unmark rest" for rest
      by (simp add: unmark_escape unmark_tags d(2) escapeHtml_append flip: slices)
    ultimately show ?thesis by blast
  qed
qed (auto simp: unmark_escape)

text \<open>
  C37. Marking up a result changes nothing but tags: with increasing boundaries, the text outside of the
  tags of \<open>getHighlightedText(str, boundaries, from, to)\<close> is the escaped slice of the name, in which no angle
  bracket is left.
\<close>

theorem highlighted_text:
  assumes "bounds_ok n boundaries" "0 \<le> from" "from \<le> to" "to \<le> int (length str)"
  shows "unmark (getHighlightedText str boundaries from to) = escapeHtml (js_slice str from to)
    \<and> (\<forall>c \<in> set (escapeHtml (js_slice str from to)). c \<noteq> CHR ''<'' \<and> c \<noteq> CHR ''>'')"
proof -
  from highlight_loop_text[OF assms(2) order_refl assms(3,4), of boundaries "[]"] assms(1) obtain start' d where
    "highlight_loop str boundaries from to from [] = (start', d)"
    "\<And>rest. unmark (d @ escapeHtml (js_slice str start' to) @ rest) = escapeHtml (js_slice str from to) @ unmark rest"
    by (auto simp: bounds_ok_def)
  from this(1) this(2)[of "[]"] show ?thesis using escapeHtml_plain by (auto simp: getHighlightedText_def)
qed

subsection \<open>Links\<close>

text \<open>
  A link is computed once: after the first call the entry answers with the same link, whatever
  category and package index it is asked with.
\<close>

theorem getURL_cached:
  assumes "getURL pkgs item category = (url, item')" "url \<noteq> []"
  shows "getURL pkgs' item' category' = (url, item') \<and> il item' = il item"
  using assms by (auto simp: getURL_def truthy_def Let_def split: if_splits)

subsection \<open>Witnesses\<close>

definition demo_item :: "string \<Rightarrow> string option \<Rightarrow> index_item" where
  "demo_item n cls = \<lparr>il = n, im = None, ip = Some ''se.x'', ic = cls, iu = None, ih = None, idesc = None, iurl = None\<rparr>"

definition demo_index :: search_index where
  "demo_index = \<lparr>moduleSearchIndex = Some [], packageSearchIndex = Some [], typeSearchIndex = Some [demo_item ''CertUtils'' None],
     memberSearchIndex = Some [demo_item ''getCert(byte)'' (Some ''CertUtils'')], tagSearchIndex = None\<rparr>"

lemma demo_index_wf: "index_wf demo_index"
  by (auto simp: index_wf_def demo_index_def index_of_category_def item_wf_def demo_item_def no_dot_def js_nth_def split: category.splits)

theorem doSearch_correct_witness:
  "\<exists>rs. doSearch demo_index ''cert'' None = Some (Inr (Some (rs, True)))"
  using doSearch_correct[OF demo_index_wf, of "''cert''" None]
  by (auto simp: js_trim_def js_space_def indexFilesLoaded_def demo_index_def)

theorem findMatch_diverges_witness:
  "findMatch (the (createMatcher ''q'' False)) ''.get'' 1 4 = None"
proof -
  have "js_exec (the (createMatcher ''q'' False)) ''.get'' 1 = None"
    by (simp add: createMatcher_def Let_def js_trim_def js_space_def token_start_def is_AZ_def token_group_def
        is_word_char_def js_exec_def same_letter_def lower_char_def isUpperCase_def toLowerCase_def upt_rec)
  then show ?thesis using findMatch_diverges[of "''.get''"] by (simp add: js_nth_def)
qed

theorem highlighted_text_witness:
  "unmark (getHighlightedText ''List<X>'' [0, 2, 4, 6] 0 7) = ''List&lt;X&gt;''"
  using highlighted_text[of 7 "[0, 2, 4, 6]" 0 7 "''List<X>''"]
  by (simp add: bounds_ok_def escapeHtml_def js_slice_def clip_def)

theorem getURL_cached_witness:
  "getURL [] (snd (getURL [] (demo_item ''T'' None) Types)) Members = (''se/x/T.html'', (demo_item ''T'' None)\<lparr>iurl := Some ''se/x/T.html''\<rparr>)"
proof -
  have "getURL [] (demo_item ''T'' None) Types = (''se/x/T.html'', (demo_item ''T'' None)\<lparr>iurl := Some ''se/x/T.html''\<rparr>)"
    by (simp add: getURL_def truthy_def demo_item_def compute_url_def getURLPrefix_def package_prefix_def checkUnnamed_def dots_to_slashes_def Let_def)
  from getURL_cached[OF this, of "[]" Members] this show ?thesis by simp
qed

end
