(* ===== verification/Doc_Page.thy ===== *)
theory Doc_Page
  imports Doc_Search
begin

text \<open>
  The search page of the documentation, \<open>docs/javadoc/*/search-page.js\<close>: the state of the page and its
  handlers (typing, the timer, the reset button, the arrow keys, the tabs, the parameters of the
  address), and what is shown for a list of results. The nodes that the script builds are data; \<open>encodeURI\<close>
  and the address of the page are parameters.
\<close>

fun category_key :: "category \<Rightarrow> string" where
  "category_key Types = ''types''"
| "category_key Members = ''members''"
| "category_key Packages = ''packages''"
| "category_key Modules = ''modules''"
| "category_key SearchTags = ''searchTags''"

text \<open>The keys of the object \<open>r\<close>, in their order.\<close>

definition page_categories :: "category list" where
  "page_categories = [Types, Members, Packages, Modules, SearchTags]"

definition key_category :: "string \<Rightarrow> category option" where
  "key_category k = List.find (\<lambda>c. category_key c = k) page_categories"

fun category_title :: "category \<Rightarrow> string" where
  "category_title Modules = ''Modules''"
| "category_title Packages = ''Packages''"
| "category_title Types = ''Classes and Interfaces''"
| "category_title Members = ''Members''"
| "category_title SearchTags = ''Search Tags''"

definition of_category :: "category \<Rightarrow> search_result list \<Rightarrow> search_result list" where
  "of_category c result = filter (\<lambda>r. rcategory r = c) result"

subsection \<open>Tables of results\<close>

record result_row =
  container :: "string option"
  href :: string
  linkText :: string
  rowColor :: string

record result_table =
  tableCategory :: category
  col1 :: string
  col2 :: "string option"
  resultRows :: "result_row list"

text \<open>The notice that an index is loading has no name: rendering it throws.\<close>

definition renderItem :: "index_item list \<Rightarrow> search_result \<Rightarrow> string \<Rightarrow> js_exn + result_row" where
  "renderItem packages item color =
     (case indexItem item of
        None \<Rightarrow> Inl TypeError
      | Some idx \<Rightarrow>
          (let label = getHighlightedText (minput item) (mboundaries item) (int (length (rprefix item))) (int (length (minput item)));
               cont = (if rcategory item = SearchTags then (case ih idx of None \<Rightarrow> [] | Some h \<Rightarrow> h)
                       else getHighlightedText (minput item) (mboundaries item) 0 (int (length (rprefix item)) - 1))
           in Inr \<lparr>container = (if rcategory item \<noteq> Modules then Some cont else None),
                   href = fst (getURL packages idx (rcategory item)), linkText = label, rowColor = color\<rparr>))"

fun render_rows :: "index_item list \<Rightarrow> nat \<Rightarrow> search_result list \<Rightarrow> js_exn + result_row list" where
  "render_rows packages index [] = Inr []"
| "render_rows packages index (item # items) =
     (case renderItem packages item (if odd index then ''odd-row-color'' else ''even-row-color'') of
        Inl e \<Rightarrow> Inl e
      | Inr row \<Rightarrow> (case render_rows packages (Suc index) items of Inl e \<Rightarrow> Inl e | Inr rows \<Rightarrow> Inr (row # rows)))"

fun table_columns :: "category \<Rightarrow> string \<times> string option" where
  "table_columns Modules = (''Module'', None)"
| "table_columns Packages = (''Module'', Some ''Package'')"
| "table_columns Types = (''Package'', Some ''Class'')"
| "table_columns Members = (''Class'', Some ''Member'')"
| "table_columns SearchTags = (''Location'', Some ''Name'')"

definition renderTable :: "index_item list \<Rightarrow> category \<Rightarrow> search_result list \<Rightarrow> js_exn + result_table" where
  "renderTable packages category items =
     (case render_rows packages 0 items of
        Inl e \<Rightarrow> Inl e
      | Inr rows \<Rightarrow> Inr \<lparr>tableCategory = category, col1 = fst (table_columns category), col2 = snd (table_columns category),
                        resultRows = rows\<rparr>)"

subsection \<open>The page\<close>

datatype block =
    TabButton category string bool
  | TableTitle category string
  | ResultTable result_table

record page =
  inputVal :: string
  notify :: string
  searchTerm :: string
  activeTab :: string
  fixedTab :: bool
  visibleTabs :: "category list"
  feelingLucky :: bool
  results :: "search_result list"
  resultContainer :: "block list"
  sectionShown :: bool
  redirect :: "string option"
  timer :: bool
  pendingTerm :: "string option"
  pageUrl :: string

definition setSearchUrl :: "(string \<Rightarrow> string) \<Rightarrow> string \<Rightarrow> page \<Rightarrow> page" where
  "setSearchUrl encodeURI pathname p =
     (let query = js_trim (inputVal p);
          url = (if query \<noteq> []
                 then pathname @ ''?q='' @ encodeURI query @ (if activeTab p \<noteq> [] \<and> fixedTab p then ''&c='' @ activeTab p else [])
                 else pathname)
      in p\<lparr>pageUrl := url\<rparr>)"

text \<open>The decimal digits of a count.\<close>

fun decimal :: "nat \<Rightarrow> string" where
  "decimal n = (if n < 10 then [char_of (48 + n)] else decimal (n div 10) @ [char_of (48 + n mod 10)])"

definition result_notice :: "nat \<Rightarrow> string" where
  "result_notice n = (if n = 0 then ''No results found'' else if n = 1 then ''Found one result'' else ''Found '' @ decimal n @ '' results'')"

text \<open>\<open>reduce\<close> over the keys: the tab whose first result has the highest score, where it is positive.\<close>

fun best_tab :: "search_result list \<Rightarrow> category list \<Rightarrow> rat \<Rightarrow> string \<Rightarrow> string" where
  "best_tab result [] prev tab = tab"
| "best_tab result (c # cs) prev tab =
     (case of_category c result of
        [] \<Rightarrow> best_tab result cs prev tab
      | first # _ \<Rightarrow>
          if indexItem first \<noteq> None \<and> mscore first > prev then best_tab result cs (mscore first) (category_key c)
          else best_tab result cs prev tab)"

definition choose_tab :: "search_result list \<Rightarrow> page \<Rightarrow> js_exn + string" where
  "choose_tab result p =
     (if activeTab p = [] then Inr (best_tab result page_categories 0 (activeTab p))
      else
        (case key_category (activeTab p) of
           None \<Rightarrow> Inl TypeError
         | Some c \<Rightarrow>
             if of_category c result = [] \<or> \<not> fixedTab p then Inr (best_tab result page_categories 0 (activeTab p))
             else Inr (activeTab p)))"

definition dot_tab :: "search_result list \<Rightarrow> string \<Rightarrow> string \<Rightarrow> string" where
  "dot_tab result term tab =
     (let count = (\<lambda>c. length (of_category c result)) in
      if length result > 20 \<and> term \<noteq> [] \<and> last term = CHR ''.''
      then if tab = ''types'' \<and> count Members > count Types then ''members''
           else if tab = ''packages'' \<and> count Types > count Packages then ''types'' else tab
      else tab)"

definition tab_label :: "category \<Rightarrow> nat \<Rightarrow> string" where
  "tab_label c n = category_title c @ '' ('' @ (if n \<ge> 1000 then ''999+'' else decimal n) @ '')''"

fun render_categories ::
  "index_item list \<Rightarrow> search_result list \<Rightarrow> bool \<Rightarrow> string \<Rightarrow> category list \<Rightarrow> js_exn + block list" where
  "render_categories packages result tabbed tab [] = Inr []"
| "render_categories packages result tabbed tab (c # cs) =
     (let items = of_category c result;
          here = (if items = [] then Inr []
                  else if tabbed then Inr [TabButton c (tab_label c (length items)) (category_key c = tab)]
                  else (case renderTable packages c items of
                          Inl e \<Rightarrow> Inl e
                        | Inr t \<Rightarrow> Inr [TableTitle c (tab_label c (length items)), ResultTable t]))
      in case here of
           Inl e \<Rightarrow> Inl e
         | Inr bs \<Rightarrow> (case render_categories packages result tabbed tab cs of Inl e \<Rightarrow> Inl e | Inr bs' \<Rightarrow> Inr (bs @ bs')))"

definition show_results :: "index_item list \<Rightarrow> search_result list \<Rightarrow> page \<Rightarrow> js_exn + page" where
  "show_results packages result p =
     (let tab = dot_tab result (searchTerm p) (activeTab p);
          present = filter (\<lambda>c. of_category c result \<noteq> []) page_categories;
          tabbed = (length result > 20 \<and> length present > 1)
      in case render_categories packages result tabbed tab page_categories of
           Inl e \<Rightarrow> Inl e
         | Inr bs \<Rightarrow>
             (let p1 = p\<lparr>activeTab := tab, results := result, visibleTabs := (if tabbed then present else []), sectionShown := True\<rparr> in
              if tab \<noteq> [] \<and> tabbed
              then (case key_category tab of
                      None \<Rightarrow> Inl TypeError
                    | Some c \<Rightarrow>
                        (case renderTable packages c (of_category c result) of
                           Inl e \<Rightarrow> Inl e
                         | Inr t \<Rightarrow> Inr (p1\<lparr>resultContainer := bs @ [ResultTable t]\<rparr>)))
              else Inr (p1\<lparr>resultContainer := bs\<rparr>)))"

definition renderResults :: "index_item list \<Rightarrow> search_result list \<Rightarrow> page \<Rightarrow> js_exn + page" where
  "renderResults packages result p =
     (case choose_tab result p of
        Inl e \<Rightarrow> Inl e
      | Inr tab \<Rightarrow>
          (let p1 = p\<lparr>notify := result_notice (length result), resultContainer := [], activeTab := tab\<rparr> in
           if feelingLucky p \<and> tab \<noteq> []
           then (case key_category tab of
                   None \<Rightarrow> Inl TypeError
                 | Some c \<Rightarrow>
                     (case of_category c result of
                        [] \<Rightarrow> Inl TypeError
                      | first # _ \<Rightarrow>
                          (case indexItem first of
                             None \<Rightarrow> Inl TypeError
                           | Some idx \<Rightarrow> Inr (p1\<lparr>notify := ''Redirecting to first result...'',
                                               redirect := Some (fst (getURL packages idx c))\<rparr>))))
           else show_results packages result p1))"

subsection \<open>The handlers\<close>

record page_env =
  index :: search_index
  encodeURI :: "string \<Rightarrow> string"
  pathname :: string

definition page_packages :: "page_env \<Rightarrow> index_item list" where
  "page_packages V = (case packageSearchIndex (index V) of None \<Rightarrow> [] | Some ps \<Rightarrow> ps)"

text \<open>Typing restarts the timer; when it expires the search is made.\<close>

definition on_input :: "string \<Rightarrow> page \<Rightarrow> page" where
  "on_input v p = p\<lparr>inputVal := v, feelingLucky := False, timer := True\<rparr>"

text \<open>
  The search with the page as its receiver. While an index is missing, \<open>updateSearchResults\<close> repeats the
  search; every script of an index calls it when it has been loaded.
\<close>

definition run_search :: "page_env \<Rightarrow> string \<Rightarrow> page \<Rightarrow> page jsr" where
  "run_search V term p =
     js_bind (doSearch (index V) term (Some 1200)) (\<lambda>r.
       case r of
         None \<Rightarrow> js_ret p
       | Some (result, again) \<Rightarrow>
           Some (renderResults (page_packages V) result (p\<lparr>pendingTerm := (if again then Some term else None)\<rparr>)))"

definition doPageSearch :: "page_env \<Rightarrow> page \<Rightarrow> page jsr" where
  "doPageSearch V p =
     (let p1 = setSearchUrl (encodeURI V) (pathname V) p;
          term = js_trim (inputVal p);
          p2 = p1\<lparr>searchTerm := term\<rparr>
      in if term = []
         then js_ret (p2\<lparr>notify := ''Enter a search term'', activeTab := [], fixedTab := False, resultContainer := [], sectionShown := False\<rparr>)
         else run_search V term (p2\<lparr>notify := ''Searching...''\<rparr>))"

definition on_index_loaded :: "page_env \<Rightarrow> page \<Rightarrow> page jsr" where
  "on_index_loaded V p = (case pendingTerm p of None \<Rightarrow> js_ret p | Some term \<Rightarrow> run_search V term p)"

definition on_timer :: "page_env \<Rightarrow> page \<Rightarrow> page jsr" where
  "on_timer V p = (if timer p then doPageSearch V (p\<lparr>timer := False\<rparr>) else js_ret p)"

definition on_reset :: "page_env \<Rightarrow> page \<Rightarrow> page" where
  "on_reset V p =
     setSearchUrl (encodeURI V) (pathname V)
       (p\<lparr>notify := ''Enter a search term'', sectionShown := False, activeTab := [], fixedTab := False, resultContainer := [], inputVal := []\<rparr>)"

fun is_table :: "block \<Rightarrow> bool" where
  "is_table (ResultTable _) = True"
| "is_table _ = False"

fun mark_button :: "category \<Rightarrow> block \<Rightarrow> block" where
  "mark_button c (TabButton d label act) = TabButton d label (d = c)"
| "mark_button c b = b"

text \<open>A click on the button of a tab, when there is one: the table of its results replaces the one shown.\<close>

definition renderResult :: "page_env \<Rightarrow> category \<Rightarrow> page \<Rightarrow> js_exn + page" where
  "renderResult V c p =
     (let p1 = setSearchUrl (encodeURI V) (pathname V) (p\<lparr>activeTab := category_key c\<rparr>) in
      case renderTable (page_packages V) c (of_category c (results p)) of
        Inl e \<Rightarrow> Inl e
      | Inr t \<Rightarrow> Inr (p1\<lparr>resultContainer := map (mark_button c) (filter (\<lambda>b. \<not> is_table b) (resultContainer p1)) @ [ResultTable t]\<rparr>))"

fun is_button :: "category \<Rightarrow> block \<Rightarrow> bool" where
  "is_button c (TabButton d label act) = (d = c)"
| "is_button c b = False"

definition selectTab :: "page_env \<Rightarrow> category \<Rightarrow> page \<Rightarrow> js_exn + page" where
  "selectTab V c p = (if list_ex (is_button c) (resultContainer p) then renderResult V c (p\<lparr>fixedTab := True\<rparr>) else Inr p)"

datatype arrow = ArrowLeft | ArrowRight

definition arrow_target :: "arrow \<Rightarrow> page \<Rightarrow> category" where
  "arrow_target key p =
     (let n = int (length (visibleTabs p));
          idx = (case key_category (activeTab p) of None \<Rightarrow> - 1 | Some c \<Rightarrow> js_indexOf (visibleTabs p) c 0)
                + (if key = ArrowLeft then n - 1 else 1)
      in visibleTabs p ! nat (idx mod n))"

definition on_keydown :: "page_env \<Rightarrow> bool \<Rightarrow> arrow \<Rightarrow> page \<Rightarrow> js_exn + page" where
  "on_keydown V ctrlOrMeta key p =
     (if ctrlOrMeta \<and> activeTab p \<noteq> [] \<and> length (visibleTabs p) > 1 then selectTab V (arrow_target key p) p else Inr p)"

text \<open>The start of the page, from the parameters \<open>q\<close>, \<open>c\<close> and \<open>r\<close> of its address.\<close>

definition init_page :: "page_env \<Rightarrow> string option \<Rightarrow> string option \<Rightarrow> string option \<Rightarrow> page jsr" where
  "init_page V q c r =
     (let p = \<lparr>inputVal = (case q of None \<Rightarrow> [] | Some s \<Rightarrow> s), notify = [], searchTerm = [],
               activeTab = (case c of None \<Rightarrow> [] | Some s \<Rightarrow> s), fixedTab = (c \<noteq> None), visibleTabs = [],
               feelingLucky = truthy r, results = [], resultContainer = [], sectionShown = False, redirect = None,
               timer = False, pendingTerm = None, pageUrl = []\<rparr>
      in if inputVal p \<noteq> [] then doPageSearch V p else js_ret (p\<lparr>notify := ''Enter a search term''\<rparr>))"

subsection \<open>Events\<close>

datatype page_event = Input string | Timer | Reset | Keydown bool arrow | Click category | IndexLoaded

definition handle :: "page_env \<Rightarrow> page_event \<Rightarrow> page \<Rightarrow> page jsr" where
  "handle V e p =
     (case e of
        Input v \<Rightarrow> js_ret (on_input v p)
      | Timer \<Rightarrow> on_timer V p
      | Reset \<Rightarrow> js_ret (on_reset V p)
      | Keydown ctrlOrMeta key \<Rightarrow> Some (on_keydown V ctrlOrMeta key p)
      | Click c \<Rightarrow> Some (selectTab V c p)
      | IndexLoaded \<Rightarrow> on_index_loaded V p)"

fun run_events :: "page_env \<Rightarrow> page_event list \<Rightarrow> page \<Rightarrow> page jsr" where
  "run_events V [] p = js_ret p"
| "run_events V (e # es) p = js_bind (handle V e p) (run_events V es)"

subsection \<open>Rendering\<close>

definition indexed :: "search_result list \<Rightarrow> bool" where
  "indexed rs \<longleftrightarrow> (\<forall>r \<in> set rs. indexItem r \<noteq> None)"

lemma indexed_of_category: "indexed rs \<Longrightarrow> indexed (of_category c rs)"
  by (simp add: indexed_def of_category_def)

lemma key_category_inverse [simp]: "key_category (category_key c) = Some c"
  by (cases c) (simp_all add: key_category_def page_categories_def)

lemma key_category_Some: "key_category k = Some c \<Longrightarrow> category_key c = k"
  by (auto simp: key_category_def page_categories_def split: if_splits)

lemma category_key_inj [simp]: "category_key c = category_key d \<longleftrightarrow> c = d"
  by (metis key_category_inverse option.inject)

lemma category_key_not_Nil [simp]: "category_key c \<noteq> []"
  by (cases c) simp_all

lemma all_categories: "c \<in> set page_categories" "distinct page_categories"
  by (cases c) (simp_all add: page_categories_def)

lemma renderItem_fails: "indexItem item = None \<Longrightarrow> renderItem packages item color = Inl TypeError"
  by (simp add: renderItem_def)

lemma renderItem_returns: "indexItem item \<noteq> None \<Longrightarrow> \<exists>row. renderItem packages item color = Inr row"
  by (auto simp: renderItem_def Let_def)

lemma render_rows_returns:
  "indexed items \<Longrightarrow> \<exists>rows. render_rows packages i items = Inr rows \<and> length rows = length items"
proof (induction items arbitrary: i)
  case (Cons item items)
  have item: "indexItem item \<noteq> None" and rest: "indexed items" using Cons.prems by (simp_all add: indexed_def)
  from Cons.IH[OF rest, of "Suc i"] obtain rows where
    "render_rows packages (Suc i) items = Inr rows" "length rows = length items" by blast
  with renderItem_returns[OF item, of packages "if odd i then ''odd-row-color'' else ''even-row-color''"] show ?case by auto
qed simp

lemma renderTable_returns:
  assumes "indexed items"
  obtains t where "renderTable packages c items = Inr t" "tableCategory t = c" "length (resultRows t) = length items"
  using render_rows_returns[OF assms, of packages 0] by (auto simp: renderTable_def)

lemma render_rows_fails: "\<not> indexed items \<Longrightarrow> render_rows packages i items = Inl TypeError"
proof (induction items arbitrary: i)
  case (Cons item items)
  show ?case
  proof (cases "indexItem item = None")
    case False
    with Cons have "render_rows packages (Suc i) items = Inl TypeError" by (auto simp: indexed_def)
    with renderItem_returns[OF False, of packages "if odd i then ''odd-row-color'' else ''even-row-color''"] show ?thesis by auto
  qed (simp add: renderItem_fails)
qed (simp add: indexed_def)

text \<open>The buttons, and the highlighted one, are those of the non-empty categories; without tabs there is no button.\<close>

definition buttons_ok :: "search_result list \<Rightarrow> string \<Rightarrow> block list \<Rightarrow> bool" where
  "buttons_ok result tab bs \<longleftrightarrow>
     (\<forall>c l a. TabButton c l a \<in> set bs \<longrightarrow> of_category c result \<noteq> [] \<and> a = (category_key c = tab))"

lemma render_categories_returns:
  assumes "indexed result"
  shows "\<exists>bs. render_categories packages result tabbed tab cs = Inr bs
    \<and> (if tabbed then buttons_ok result tab bs \<and> (\<forall>t. ResultTable t \<notin> set bs) else (\<forall>c l a. TabButton c l a \<notin> set bs))"
proof (induction cs)
  case (Cons c cs)
  then obtain bs where bs: "render_categories packages result tabbed tab cs = Inr bs"
    "if tabbed then buttons_ok result tab bs \<and> (\<forall>t. ResultTable t \<notin> set bs) else (\<forall>c l a. TabButton c l a \<notin> set bs)" by blast
  obtain t where "renderTable packages c (of_category c result) = Inr t"
    using renderTable_returns[OF indexed_of_category[OF assms]] by blast
  with bs show ?case by (cases tabbed) (auto simp: Let_def buttons_ok_def)
qed (simp add: buttons_ok_def)

subsection \<open>The choice of a tab\<close>

lemma best_tab_cases:
  "best_tab result cs prev tab = tab
   \<or> (\<exists>c first rest. c \<in> set cs \<and> best_tab result cs prev tab = category_key c \<and> of_category c result = first # rest \<and> prev < mscore first)"
proof (induction result cs prev tab rule: best_tab.induct)
  case (2 result c cs prev tab)
  then show ?case by (cases "of_category c result") (fastforce split: if_splits)+
qed simp

lemma choose_tab_returns:
  assumes "activeTab p = [] \<or> key_category (activeTab p) \<noteq> None"
  obtains tab where "choose_tab result p = Inr tab"
    "tab = activeTab p \<or> (\<exists>c. tab = category_key c \<and> of_category c result \<noteq> [])"
  using assms best_tab_cases[of result page_categories 0 "activeTab p"]
  by (fastforce simp: choose_tab_def split: option.splits if_splits)

lemma dot_tab_cases:
  "dot_tab result term tab = tab \<or> (\<exists>c. dot_tab result term tab = category_key c \<and> of_category c result \<noteq> [])"
proof -
  have "dot_tab result term tab = tab
      \<or> dot_tab result term tab = category_key Members \<and> length (of_category Types result) < length (of_category Members result)
      \<or> dot_tab result term tab = category_key Types \<and> length (of_category Packages result) < length (of_category Types result)"
    by (auto simp: dot_tab_def Let_def)
  then show ?thesis by fastforce
qed

subsection \<open>The invariant of the page\<close>

definition tab_ok :: "page \<Rightarrow> bool" where
  "tab_ok p \<longleftrightarrow> activeTab p = [] \<or> key_category (activeTab p) \<noteq> None"

lemma tab_ok_iff: "tab_ok p \<longleftrightarrow> activeTab p = [] \<or> (\<exists>c. activeTab p = category_key c)"
  by (metis tab_ok_def key_category_Some key_category_inverse not_Some_eq)

text \<open>
  What is shown agrees with the active tab: the highlighted button and the table under the buttons
  are its own, and every button stands for a tab that the arrow keys visit.
\<close>

definition view_ok :: "string \<Rightarrow> category list \<Rightarrow> block list \<Rightarrow> bool" where
  "view_ok tab tabs bs \<longleftrightarrow>
     (\<forall>c l a. TabButton c l a \<in> set bs \<longrightarrow> c \<in> set tabs \<and> a = (category_key c = tab)
        \<and> (\<forall>t. ResultTable t \<in> set bs \<longrightarrow> category_key (tableCategory t) = tab))"

definition page_ok :: "page \<Rightarrow> bool" where
  "page_ok p \<longleftrightarrow> tab_ok p \<and> indexed (results p) \<and> distinct (visibleTabs p)
     \<and> view_ok (activeTab p) (visibleTabs p) (resultContainer p)
     \<and> pendingTerm p = None \<and> (feelingLucky p \<longrightarrow> \<not> timer p)"

lemma show_results_ok:
  assumes "indexed result" "tab_ok p"
  obtains p' where "show_results packages result p = Inr p'" "tab_ok p'" "results p' = result" "distinct (visibleTabs p')"
    "view_ok (activeTab p') (visibleTabs p') (resultContainer p')" "pendingTerm p' = pendingTerm p"
    "feelingLucky p' = feelingLucky p" "timer p' = timer p" "sectionShown p'"
proof -
  define tab where "tab = dot_tab result (searchTerm p) (activeTab p)"
  define present where "present = filter (\<lambda>c. of_category c result \<noteq> []) page_categories"
  define tabbed where "tabbed = (length result > 20 \<and> length present > 1)"
  from render_categories_returns[OF assms(1), of packages tabbed tab page_categories] obtain bs where
    bs: "render_categories packages result tabbed tab page_categories = Inr bs"
    "if tabbed then buttons_ok result tab bs \<and> (\<forall>t. ResultTable t \<notin> set bs) else (\<forall>c l a. TabButton c l a \<notin> set bs)" by blast
  have tab: "tab = [] \<or> (\<exists>c. tab = category_key c)"
    using dot_tab_cases[of result "searchTerm p" "activeTab p"] assms(2)
    by (auto simp: tab_def tab_ok_iff)
  have inp: "c \<in> set present" if "of_category c result \<noteq> []" for c
    using that all_categories(1) by (simp add: present_def)
  have dist: "distinct present" by (simp add: present_def all_categories(2))
  define p1 where "p1 = p\<lparr>activeTab := tab, results := result, visibleTabs := (if tabbed then present else []), sectionShown := True\<rparr>"
  have eq: "show_results packages result p =
      (if tab \<noteq> [] \<and> tabbed
       then (case key_category tab of None \<Rightarrow> Inl TypeError
             | Some c \<Rightarrow> (case renderTable packages c (of_category c result) of
                 Inl e \<Rightarrow> Inl e | Inr t \<Rightarrow> Inr (p1\<lparr>resultContainer := bs @ [ResultTable t]\<rparr>)))
       else Inr (p1\<lparr>resultContainer := bs\<rparr>))"
    using bs(1) unfolding show_results_def Let_def tab_def[symmetric] present_def[symmetric] tabbed_def[symmetric] p1_def
    by simp
  show thesis
  proof (cases "tab \<noteq> [] \<and> tabbed")
    case True
    with tab obtain c where c: "tab = category_key c" by blast
    obtain t where t: "renderTable packages c (of_category c result) = Inr t" "tableCategory t = c"
      using renderTable_returns[OF indexed_of_category[OF assms(1)]] by blast
    show thesis
      by (rule that[of "p1\<lparr>resultContainer := bs @ [ResultTable t]\<rparr>"])
        (use True t c eq dist bs(2) inp in \<open>auto simp: p1_def tab_ok_def view_ok_def buttons_ok_def\<close>)
  next
    case False
    show thesis
      by (rule that[of "p1\<lparr>resultContainer := bs\<rparr>"])
        (use False eq dist bs(2) inp tab in \<open>auto simp: p1_def tab_ok_def view_ok_def buttons_ok_def split: if_splits\<close>)
  qed
qed

lemma page_ok_setSearchUrl [simp]: "page_ok (setSearchUrl enc path p) = page_ok p"
  by (simp add: page_ok_def setSearchUrl_def Let_def tab_ok_def)

lemma setSearchUrl_fields [simp]:
  "activeTab (setSearchUrl enc path p) = activeTab p" "feelingLucky (setSearchUrl enc path p) = feelingLucky p"
  "timer (setSearchUrl enc path p) = timer p" "pendingTerm (setSearchUrl enc path p) = pendingTerm p"
  "visibleTabs (setSearchUrl enc path p) = visibleTabs p" "results (setSearchUrl enc path p) = results p"
  "resultContainer (setSearchUrl enc path p) = resultContainer p" "fixedTab (setSearchUrl enc path p) = fixedTab p"
  by (simp_all add: setSearchUrl_def Let_def)

text \<open>A lucky page that starts without a tab has either a first result to go to or no result at all.\<close>

lemma renderResults_ok:
  assumes "indexed result" "page_ok p" "feelingLucky p \<longrightarrow> activeTab p = []"
  obtains p' where "renderResults packages result p = Inr p'" "page_ok p'"
proof -
  have t: "tab_ok p" using assms(2) by (simp add: page_ok_def)
  from choose_tab_returns[of p result] t obtain tab where tab: "choose_tab result p = Inr tab"
    "tab = activeTab p \<or> (\<exists>c. tab = category_key c \<and> of_category c result \<noteq> [])" unfolding tab_ok_def by blast
  define p1 where "p1 = p\<lparr>notify := result_notice (length result), resultContainer := [], activeTab := tab\<rparr>"
  have p1: "tab_ok p1" using tab(2) t by (auto simp: p1_def tab_ok_iff)
  show thesis
  proof (cases "feelingLucky p \<and> tab \<noteq> []")
    case True
    with tab(2) assms(3) obtain c first rest where c: "tab = category_key c" "of_category c result = first # rest"
      by (metis neq_Nil_conv)
    with assms(1) obtain idx where idx: "indexItem first = Some idx"
      using indexed_of_category[of result c] by (auto simp: indexed_def)
    show thesis
      by (rule that[of "p1\<lparr>notify := ''Redirecting to first result...'', redirect := Some (fst (getURL packages idx c))\<rparr>"])
        (use True tab(1) c idx assms(2) in \<open>simp_all add: renderResults_def p1_def page_ok_def tab_ok_def view_ok_def\<close>)
  next
    case False
    have "renderResults packages result p = show_results packages result p1"
      using False tab(1) unfolding renderResults_def p1_def Let_def by auto
    moreover have "pendingTerm p1 = None" "feelingLucky p1 \<longrightarrow> \<not> timer p1"
      using assms(2) by (simp_all add: p1_def page_ok_def)
    ultimately show thesis
      using show_results_ok[OF assms(1) p1, of packages] that assms(1) unfolding page_ok_def by metis
  qed
qed

lemma doSearch_indexed:
  assumes "index_wf I" "indexFilesLoaded I" "js_trim query \<noteq> []"
  obtains rs where "doSearch I query maxResults = Some (Inr (Some (rs, False)))" "indexed rs"
proof -
  from doSearch_results[OF assms(1,3), of maxResults] obtain R where
    R: "doSearch I query maxResults = Some (Inr (Some (R Modules @ R Packages @ R Types @ R Members @ R SearchTags, \<not> indexFilesLoaded I)))"
    "\<And>c. category_results I (result_limit maxResults) c (R c)" by blast
  have "indexed (R c)" for c
    using R(2)[of c] assms(2)
    by (cases c) (fastforce simp: category_results_def index_of_category_def indexFilesLoaded_def result_ok_def indexed_def)+
  then have "indexed (R Modules @ R Packages @ R Types @ R Members @ R SearchTags)" by (auto simp: indexed_def)
  with R(1) that assms(2) show thesis by simp
qed

lemma doPageSearch_ok:
  assumes "index_wf (index V)" "indexFilesLoaded (index V)" "page_ok p" "feelingLucky p \<longrightarrow> activeTab p = []"
  obtains p' where "doPageSearch V p = Some (Inr p')" "page_ok p'"
proof (cases "js_trim (inputVal p) = []")
  case True
  show thesis
    by (rule that[OF _, of "(setSearchUrl (encodeURI V) (pathname V) p)\<lparr>searchTerm := [], notify := ''Enter a search term'',
          activeTab := [], fixedTab := False, resultContainer := [], sectionShown := False\<rparr>"])
      (use True assms(3) in \<open>simp_all add: doPageSearch_def js_ret_def page_ok_def tab_ok_def view_ok_def\<close>)
next
  case False
  then have "js_trim (js_trim (inputVal p)) \<noteq> []" by simp
  from doSearch_indexed[OF assms(1,2) this, of "Some 1200"] obtain rs where
    rs: "doSearch (index V) (js_trim (inputVal p)) (Some 1200) = Some (Inr (Some (rs, False)))" "indexed rs" by blast
  define p1 where "p1 = (setSearchUrl (encodeURI V) (pathname V) p)\<lparr>searchTerm := js_trim (inputVal p), notify := ''Searching...'', pendingTerm := None\<rparr>"
  have "page_ok p1" "feelingLucky p1 \<longrightarrow> activeTab p1 = []"
    using assms(3,4) by (simp_all add: p1_def page_ok_def tab_ok_def)
  from renderResults_ok[OF rs(2) this, of "page_packages V"] obtain p' where
    p': "renderResults (page_packages V) rs p1 = Inr p'" "page_ok p'" by blast
  show thesis
    by (rule that[OF _ p'(2)]) (use False rs(1) p'(1) in \<open>simp add: doPageSearch_def run_search_def Let_def p1_def\<close>)
qed

lemma renderResult_ok:
  assumes "page_ok p" "list_ex (is_button c) (resultContainer p)"
  obtains p' where "renderResult V c p = Inr p'" "page_ok p'" "activeTab p' = category_key c"
    "visibleTabs p' = visibleTabs p" "results p' = results p"
    "\<And>d. list_ex (is_button d) (resultContainer p') = list_ex (is_button d) (resultContainer p)"
proof -
  obtain t where t: "renderTable (page_packages V) c (of_category c (results p)) = Inr t" "tableCategory t = c"
    using renderTable_returns[OF indexed_of_category] assms(1) unfolding page_ok_def by blast
  define bs where "bs = map (mark_button c) (filter (\<lambda>b. \<not> is_table b) (resultContainer p))"
  have button: "TabButton d l a \<in> set bs \<Longrightarrow> a = (d = c) \<and> (\<exists>a'. TabButton d l a' \<in> set (resultContainer p))" for d l a
    unfolding bs_def by (auto elim!: mark_button.elims[OF sym])
  have table: "ResultTable s \<notin> set bs" for s
    unfolding bs_def by (auto elim!: mark_button.elims[OF sym])
  have same: "list_ex (is_button d) bs = list_ex (is_button d) (resultContainer p)" for d
  proof -
    have "is_button d (mark_button c b) = is_button d b" "is_table b \<Longrightarrow> \<not> is_button d b" for b
      by (cases b; simp)+
    then show ?thesis by (auto simp: bs_def list_ex_iff)
  qed
  define p' where "p' = (setSearchUrl (encodeURI V) (pathname V) (p\<lparr>activeTab := category_key c\<rparr>))\<lparr>resultContainer := bs @ [ResultTable t]\<rparr>"
  have "renderResult V c p = Inr p'" using t(1) by (simp add: renderResult_def p'_def bs_def)
  moreover have "page_ok p'"
    using assms(1) button table t(2) by (fastforce simp: p'_def page_ok_def tab_ok_def view_ok_def)
  ultimately show thesis using that[of p'] same by (simp add: p'_def)
qed

lemma selectTab_ok:
  assumes "page_ok p"
  obtains p' where "selectTab V c p = Inr p'" "page_ok p'"
proof (cases "list_ex (is_button c) (resultContainer p)")
  case True
  have "page_ok (p\<lparr>fixedTab := True\<rparr>)" using assms by (simp add: page_ok_def tab_ok_def)
  from renderResult_ok[OF this, where c = c and V = V] True that show thesis by (auto simp: selectTab_def)
qed (use assms that in \<open>simp add: selectTab_def\<close>)

lemma handle_ok:
  assumes "index_wf (index V)" "indexFilesLoaded (index V)" "page_ok p"
  obtains p' where "handle V e p = Some (Inr p')" "page_ok p'"
proof (cases e)
  case (Input v)
  show thesis
    by (rule that[of "on_input v p"])
      (use assms(3) Input in \<open>simp_all add: handle_def js_ret_def page_ok_def tab_ok_def on_input_def\<close>)
next
  case Timer
  show thesis
  proof (cases "timer p")
    case True
    have "page_ok (p\<lparr>timer := False\<rparr>)" "feelingLucky (p\<lparr>timer := False\<rparr>) \<longrightarrow> activeTab (p\<lparr>timer := False\<rparr>) = []"
      using assms(3) True by (simp_all add: page_ok_def tab_ok_def)
    from doPageSearch_ok[OF assms(1,2) this] obtain p' where p': "doPageSearch V (p\<lparr>timer := False\<rparr>) = Some (Inr p')" "page_ok p'" .
    show thesis by (rule that[OF _ p'(2)]) (simp add: Timer True handle_def on_timer_def p'(1))
  qed (use assms(3) that[of p] Timer in \<open>simp add: handle_def on_timer_def js_ret_def\<close>)
next
  case Reset
  show thesis
    by (rule that[of "on_reset V p"])
      (use assms(3) Reset in \<open>simp_all add: handle_def js_ret_def page_ok_def tab_ok_def view_ok_def on_reset_def\<close>)
next
  case (Keydown m key)
  from selectTab_ok[OF assms(3), where V = V and c = "arrow_target key p"] obtain p' where
    p': "selectTab V (arrow_target key p) p = Inr p'" "page_ok p'" .
  with Keydown assms(3) have "handle V e p = Some (Inr p') \<or> handle V e p = Some (Inr p)"
    by (simp add: handle_def on_keydown_def)
  with p'(2) assms(3) that show thesis by blast
next
  case (Click c)
  from selectTab_ok[OF assms(3), where V = V and c = c] obtain p' where p': "selectTab V c p = Inr p'" "page_ok p'" .
  show thesis by (rule that[OF _ p'(2)]) (simp add: Click handle_def p'(1))
next
  case IndexLoaded
  with that assms(3) show thesis by (simp add: handle_def on_index_loaded_def js_ret_def page_ok_def)
qed

lemma run_events_ok:
  assumes "index_wf (index V)" "indexFilesLoaded (index V)" "page_ok p"
  shows "\<exists>p'. run_events V es p = Some (Inr p') \<and> page_ok p'"
  using assms(3)
proof (induction es arbitrary: p)
  case (Cons e es)
  from handle_ok[OF assms(1,2) Cons.prems] obtain q where "handle V e p = Some (Inr q)" "page_ok q" by blast
  with Cons.IH show ?case by simp
qed (simp add: js_ret_def)

lemma init_page_ok:
  assumes "index_wf (index V)" "indexFilesLoaded (index V)"
    and "c = None \<or> (\<exists>k. c = Some (category_key k)) \<and> \<not> truthy r"
  obtains p where "init_page V q c r = Some (Inr p)" "page_ok p"
proof -
  define p0 where "p0 = \<lparr>inputVal = (case q of None \<Rightarrow> [] | Some s \<Rightarrow> s), notify = [], searchTerm = [],
     activeTab = (case c of None \<Rightarrow> [] | Some s \<Rightarrow> s), fixedTab = (c \<noteq> None), visibleTabs = [],
     feelingLucky = truthy r, results = [], resultContainer = [], sectionShown = False, redirect = None,
     timer = False, pendingTerm = None, pageUrl = []\<rparr>"
  have ok: "page_ok p0" "feelingLucky p0 \<longrightarrow> activeTab p0 = []"
    using assms(3) by (auto simp: p0_def page_ok_def tab_ok_def indexed_def view_ok_def)
  have init: "init_page V q c r = (if inputVal p0 \<noteq> [] then doPageSearch V p0 else js_ret (p0\<lparr>notify := ''Enter a search term''\<rparr>))"
    unfolding init_page_def p0_def Let_def by simp
  from doPageSearch_ok[OF assms(1,2) ok] obtain p' where "doPageSearch V p0 = Some (Inr p')" "page_ok p'" by blast
  moreover have "page_ok (p0\<lparr>notify := ''Enter a search term''\<rparr>)" using ok(1) by (simp add: page_ok_def tab_ok_def)
  ultimately show thesis using that init by (auto simp: js_ret_def split: if_splits)
qed

text \<open>
  C12. Once the indexes are loaded, the page survives every sequence of events: opened with a category of
  its own (or none, then also with an automatic redirect), it starts, and no handler throws or fails
  to return; after each event the active tab is a category or none, the highlighted button and the
  table under the buttons are those of the active tab, and every shown result is an entry of an index.
\<close>

theorem page_events_safe:
  assumes "index_wf (index V)" "indexFilesLoaded (index V)"
    and "c = None \<or> (\<exists>k. c = Some (category_key k)) \<and> \<not> truthy r"
  shows "\<exists>p p'. init_page V q c r = Some (Inr p) \<and> run_events V es p = Some (Inr p') \<and> page_ok p'"
proof -
  from init_page_ok[OF assms, of q] obtain p where "init_page V q c r = Some (Inr p)" "page_ok p" by blast
  with run_events_ok[OF assms(1,2)] show ?thesis by blast
qed

lemma index_of_nth: "distinct xs \<Longrightarrow> i < length xs \<Longrightarrow> index_of (xs ! i) xs k = k + int i"
  by (induction xs arbitrary: i k) (auto simp: nth_Cons split: nat.splits)

lemma arrow_target_nth:
  assumes "distinct (visibleTabs p)" "i < length (visibleTabs p)" "activeTab p = category_key (visibleTabs p ! i)"
  shows "arrow_target key p = visibleTabs p ! ((i + (if key = ArrowLeft then length (visibleTabs p) - 1 else 1)) mod length (visibleTabs p))"
proof -
  let ?n = "length (visibleTabs p)" and ?d = "if key = ArrowLeft then length (visibleTabs p) - 1 else 1"
  have "(if key = ArrowLeft then int ?n - 1 else 1) = int ?d" using assms(2) by auto
  then have "arrow_target key p = visibleTabs p ! nat ((int i + int ?d) mod int ?n)"
    using assms index_of_nth[OF assms(1,2), of 0] by (simp add: arrow_target_def js_indexOf_def Let_def)
  then show ?thesis by (metis nat_int of_nat_add zmod_int)
qed

fun opposite :: "arrow \<Rightarrow> arrow" where
  "opposite ArrowLeft = ArrowRight"
| "opposite ArrowRight = ArrowLeft"

lemma ring_step:
  fixes i n a b :: nat
  assumes "1 < n" "i < n" "a + b = n" "0 < a" "a < n"
  shows "(i + a) mod n < n" "(i + a) mod n \<noteq> i" "((i + a) mod n + b) mod n = i"
proof -
  show "(i + a) mod n < n" using assms by simp
  show "(i + a) mod n \<noteq> i" using assms by (auto simp: mod_if)
  have "((i + a) mod n + b) mod n = (i + n) mod n" using assms(3) by (metis add.assoc mod_add_left_eq)
  then show "((i + a) mod n + b) mod n = i" using assms(2) by simp
qed

text \<open>
  The arrow keys walk a ring: with buttons for all visible tabs, going right
  and then left (or left and then right) comes back to the active tab.
\<close>

theorem arrows_inverse:
  assumes ok: "page_ok p" and tabs: "length (visibleTabs p) > 1" "\<forall>c \<in> set (visibleTabs p). list_ex (is_button c) (resultContainer p)"
    and act: "activeTab p = category_key c" "c \<in> set (visibleTabs p)"
  shows "\<exists>p1 p2. on_keydown V True key p = Inr p1 \<and> activeTab p1 \<noteq> activeTab p
    \<and> on_keydown V True (opposite key) p1 = Inr p2 \<and> activeTab p2 = activeTab p"
proof -
  define n where "n = length (visibleTabs p)"
  define d where "d = (\<lambda>k. if k = ArrowLeft then n - 1 else (1 :: nat))"
  have dist: "distinct (visibleTabs p)" using ok by (simp add: page_ok_def)
  from act(2) obtain i where i: "i < n" "c = visibleTabs p ! i" by (auto simp: in_set_conv_nth n_def)
  define j where "j = (i + d key) mod n"
  have n: "1 < n" using tabs(1) by (simp add: n_def)
  have j: "j < n" "j \<noteq> i" "(j + d (opposite key)) mod n = i"
    using ring_step[OF n i(1), of "d key" "d (opposite key)"] n by (cases key; simp add: j_def d_def)+
  have step: "\<exists>q'. on_keydown V True k q = Inr q' \<and> page_ok q' \<and> activeTab q' = category_key (visibleTabs p ! ((m + d k) mod n))
      \<and> visibleTabs q' = visibleTabs p \<and> (\<forall>c \<in> set (visibleTabs p). list_ex (is_button c) (resultContainer q'))"
    if q: "page_ok q" "visibleTabs q = visibleTabs p" "activeTab q = category_key (visibleTabs p ! m)" "m < n"
      "\<forall>c \<in> set (visibleTabs p). list_ex (is_button c) (resultContainer q)" for q m k
  proof -
    let ?t = "visibleTabs p ! ((m + d k) mod n)"
    have target: "arrow_target k q = ?t"
      using arrow_target_nth[of q m k] q dist by (simp add: n_def d_def)
    have "(m + d k) mod n < n" using n by simp
    then have "?t \<in> set (visibleTabs p)" unfolding n_def by (rule nth_mem)
    then have b: "list_ex (is_button ?t) (resultContainer (q\<lparr>fixedTab := True\<rparr>))" using q(5) by simp
    have "page_ok (q\<lparr>fixedTab := True\<rparr>)" using q(1) by (simp add: page_ok_def tab_ok_def)
    from renderResult_ok[OF this b, where V = V] obtain q' where q': "renderResult V ?t (q\<lparr>fixedTab := True\<rparr>) = Inr q'"
      "page_ok q'" "activeTab q' = category_key ?t" "visibleTabs q' = visibleTabs q"
      "\<And>c. list_ex (is_button c) (resultContainer q') = list_ex (is_button c) (resultContainer q)" by auto
    have "on_keydown V True k q = Inr q'"
      using q(2,3) tabs(1) target b q'(1) by (simp add: on_keydown_def selectTab_def)
    with q' q(2,5) show ?thesis by auto
  qed
  from step[of p i key] ok act i tabs(2) obtain p1 where p1: "on_keydown V True key p = Inr p1" "page_ok p1"
    "activeTab p1 = category_key (visibleTabs p ! j)" "visibleTabs p1 = visibleTabs p"
    "\<forall>c \<in> set (visibleTabs p). list_ex (is_button c) (resultContainer p1)" unfolding j_def by blast
  from step[OF p1(2,4,3) j(1) p1(5), of "opposite key"] obtain p2 where
    p2: "on_keydown V True (opposite key) p1 = Inr p2" "activeTab p2 = category_key (visibleTabs p ! i)"
    unfolding j(3) by blast
  have "visibleTabs p ! j \<noteq> visibleTabs p ! i" using dist i(1) j by (simp add: n_def nth_eq_iff_index_eq)
  with p1(1,3) p2 act(1) i(2) show ?thesis by auto
qed

subsection \<open>What goes wrong\<close>

text \<open>
  Before the indexes are loaded, a query makes the page throw: the notice that takes the place of the
  results of a missing index has no name, and the table of its category is rendered like any other.
\<close>

theorem page_throws_while_loading:
  assumes "index V = \<lparr>moduleSearchIndex = None, packageSearchIndex = None, typeSearchIndex = None, memberSearchIndex = None, tagSearchIndex = None\<rparr>"
    and "js_trim q \<noteq> []"
  shows "init_page V (Some q) None r = Some (Inl TypeError)"
proof -
  have q: "q \<noteq> []" using assms(2) by (auto simp: js_trim_def)
  obtain rs where rs: "doSearch (index V) (js_trim q) (Some 1200) = Some (Inr (Some (rs, True)))"
      "length rs = 5" "\<forall>r \<in> set rs. indexItem r = None" "of_category Types rs \<noteq> []"
    using assms by (auto simp: doSearch_def searchIndex_def js_ret_def indexFilesLoaded_def Let_def of_category_def)
  have best: "best_tab rs cs prev tab = tab" for cs prev tab
  proof (induction cs)
    case (Cons c cs)
    have "indexItem first = None" if "of_category c rs = first # rest" for first rest
      using that rs(3) by (metis filter_is_subset list.set_intros(1) of_category_def subsetD)
    with Cons show ?case by (auto split: list.split)
  qed simp
  have "\<not> indexed (of_category Types rs)"
    using rs(3,4) by (metis filter_is_subset indexed_def last_in_set of_category_def subsetD)
  then have "render_categories packages rs False tab page_categories = Inl TypeError" for packages tab
    using rs(4) by (simp add: page_categories_def renderTable_def render_rows_fails)
  then have shown: "show_results packages rs p = Inl TypeError" for packages p
    using rs(2) by (simp add: show_results_def)
  have "renderResults packages rs p = Inl TypeError" if "activeTab p = []" for packages p
    using that shown by (simp add: renderResults_def choose_tab_def best)
  then show ?thesis using q assms(2) rs(1) by (simp add: init_page_def doPageSearch_def run_search_def setSearchUrl_def Let_def)
qed

text \<open>The column of the container loses a character: the end position \<open>prefix.length - 1\<close> is \<open>-1\<close> for an
  entry without a prefix, and \<open>slice\<close> counts that from the end of the name.\<close>

lemma slice_minus_one: "js_slice s 0 (- 1) = butlast s"
  by (cases s) (simp_all add: js_slice_def clip_def butlast_conv_take)

text \<open>
  An entry of the tables of packages, types and members whose prefix is empty (a package without a
  module, a class of the unnamed package) is shown with its own name, less the last character, in the
  column of its container, where the container of the others is their prefix less its separator.
\<close>

theorem container_column:
  assumes "indexItem item = Some idx" "minput item = rprefix item @ il idx" "mboundaries item = []"
    "rcategory item \<in> {Packages, Types, Members}"
  shows "\<exists>row. renderItem packages item color = Inr row \<and> linkText row = escapeHtml (il idx)
    \<and> container row = Some (escapeHtml (if rprefix item = [] then butlast (il idx) else butlast (rprefix item)))"
proof -
  let ?n = "int (length (rprefix item))"
  have "js_slice (rprefix item @ il idx) ?n (?n + int (length (il idx))) = il idx"
    by (simp add: js_slice_def clip_def nat_add_distrib)
  moreover have "js_slice (rprefix item @ il idx) 0 (?n - 1) = (if rprefix item = [] then butlast (il idx) else butlast (rprefix item))"
  proof (cases "rprefix item = []")
    case False
    then show ?thesis by (simp add: js_slice_def clip_def butlast_conv_take nat_diff_distrib' min_def Suc_leI take_append)
  qed (simp add: slice_minus_one)
  ultimately show ?thesis using assms by (auto simp: renderItem_def Let_def getHighlightedText_def)
qed

text \<open>
  The parameter \<open>c\<close> of the address is not checked: with a value that names no category (nor a member
  of every object), the first list of results that arrives throws.
\<close>

theorem unknown_category_throws:
  assumes "index_wf (index V)" "js_trim q \<noteq> []" "c \<noteq> []" "\<forall>k. category_key k \<noteq> c" "c \<notin> set object_members"
  shows "init_page V (Some q) (Some c) r = Some (Inl TypeError)"
proof -
  have q: "q \<noteq> []" using assms(2) by (auto simp: js_trim_def)
  have key: "key_category c = None" using assms(4) by (metis key_category_Some not_Some_eq)
  have "js_trim (js_trim q) \<noteq> []" using assms(2) by simp
  from doSearch_results[OF assms(1) this, of "Some 1200"] obtain rs again where
    rs: "doSearch (index V) (js_trim q) (Some 1200) = Some (Inr (Some (rs, again)))" by blast
  have "renderResults packages rs p = Inl TypeError" if "activeTab p = c" for packages p
    using that assms(3) key by (simp add: renderResults_def choose_tab_def)
  then show ?thesis using q assms(2) rs by (simp add: init_page_def doPageSearch_def run_search_def setSearchUrl_def Let_def)
qed

text \<open>
  An automatic redirect (\<open>r\<close>) to a tab (\<open>c\<close>) needs a result: when the search finds none, the page throws
  instead of showing that there are no results.
\<close>

theorem lucky_without_results:
  assumes "feelingLucky p" "activeTab p = category_key c"
  shows "renderResults packages [] p = Inl TypeError"
proof -
  have "best_tab [] cs prev tab = tab" for cs prev tab
    by (induction cs) (simp_all add: of_category_def)
  with assms show ?thesis by (simp add: renderResults_def choose_tab_def of_category_def)
qed

text \<open>
  Clearing the search does not withdraw a search that waits for an index: when the index arrives,
  its results are rendered on the page that was reset.
\<close>

theorem reset_keeps_pending:
  assumes "pendingTerm p = Some term"
  shows "pendingTerm (on_reset V p) = Some term \<and> on_index_loaded V (on_reset V p) = run_search V term (on_reset V p)"
  using assms by (simp add: on_reset_def on_index_loaded_def)

subsection \<open>Witnesses\<close>

definition demo_env :: page_env where
  "demo_env = \<lparr>index = demo_index\<lparr>tagSearchIndex := Some []\<rparr>, encodeURI = (\<lambda>s. s), pathname = ''/search.html''\<rparr>"

lemma demo_env_ok: "index_wf (index demo_env)" "indexFilesLoaded (index demo_env)"
  by (auto simp: demo_env_def indexFilesLoaded_def index_wf_def demo_index_def index_of_category_def item_wf_def demo_item_def
      no_dot_def js_nth_def split: category.splits)

theorem page_events_safe_witness:
  "\<exists>p p'. init_page demo_env (Some ''cert'') (Some ''members'') None = Some (Inr p)
     \<and> run_events demo_env [Input ''utils'', Timer, Keydown True ArrowLeft, Reset, IndexLoaded] p = Some (Inr p') \<and> page_ok p'"
  by (rule page_events_safe[OF demo_env_ok]) (auto simp: truthy_def intro: exI[of _ Members])

definition demo_page :: page where
  "demo_page = \<lparr>inputVal = ''cert'', notify = [], searchTerm = ''cert'', activeTab = ''members'', fixedTab = False,
     visibleTabs = [Types, Members], feelingLucky = False, results = [],
     resultContainer = [TabButton Types ''Classes and Interfaces (20)'' False, TabButton Members ''Members (7)'' True],
     sectionShown = True, redirect = None, timer = False, pendingTerm = None, pageUrl = []\<rparr>"

theorem arrows_inverse_witness:
  "\<exists>p1 p2. on_keydown demo_env True ArrowRight demo_page = Inr p1 \<and> activeTab p1 \<noteq> ''members''
    \<and> on_keydown demo_env True ArrowLeft p1 = Inr p2 \<and> activeTab p2 = ''members''"
  using arrows_inverse[of demo_page Members demo_env ArrowRight]
  by (simp add: demo_page_def page_ok_def tab_ok_def view_ok_def indexed_def key_category_def page_categories_def)

theorem page_throws_while_loading_witness:
  "init_page (demo_env\<lparr>index := \<lparr>moduleSearchIndex = None, packageSearchIndex = None, typeSearchIndex = None, memberSearchIndex = None, tagSearchIndex = None\<rparr>\<rparr>)
     (Some ''cert'') None None = Some (Inl TypeError)"
  by (rule page_throws_while_loading) (simp_all add: js_trim_def js_space_def)

theorem container_column_witness:
  "\<exists>row. renderItem [] \<lparr>minput = ''Demo'', mscore = 1, mboundaries = [], indexItem = Some (demo_item ''Demo'' None), rprefix = [],
       rcategory = Types, rlabel = None\<rparr> ''even-row-color'' = Inr row \<and> linkText row = ''Demo'' \<and> container row = Some ''Dem''"
  using container_column[of "\<lparr>minput = ''Demo'', mscore = 1, mboundaries = [], indexItem = Some (demo_item ''Demo'' None), rprefix = [],
       rcategory = Types, rlabel = None\<rparr>" "demo_item ''Demo'' None" "[]" "''even-row-color''"]
  by (simp add: demo_item_def escapeHtml_def)

theorem unknown_category_throws_witness:
  "init_page demo_env (Some ''cert'') (Some ''tags'') None = Some (Inl TypeError)"
proof (rule unknown_category_throws[OF demo_env_ok(1)])
  show "\<forall>k. category_key k \<noteq> ''tags''"
  proof
    fix k show "category_key k \<noteq> ''tags''" by (cases k) simp_all
  qed
qed (simp_all add: js_trim_def js_space_def object_members_def)

theorem lucky_without_results_witness:
  "renderResults [] [] (demo_page\<lparr>feelingLucky := True\<rparr>) = Inl TypeError"
  by (rule lucky_without_results[where c = Members]) (simp_all add: demo_page_def)

theorem reset_keeps_pending_witness:
  "on_index_loaded demo_env (on_reset demo_env (demo_page\<lparr>pendingTerm := Some ''cert''\<rparr>))
     = run_search demo_env ''cert'' (on_reset demo_env (demo_page\<lparr>pendingTerm := Some ''cert''\<rparr>))"
  using reset_keeps_pending[of "demo_page\<lparr>pendingTerm := Some ''cert''\<rparr>" "''cert''" demo_env] by simp

end
