(* ===== verification/Doc_Menu.thy ===== *)
theory Doc_Menu
  imports Doc_Search
begin

text \<open>
  The rest of the documentation's own scripts: the menu of the search field and the navigation bar
  (second half of \<open>docs/javadoc/*/search.js\<close>), the button that copies a snippet and the scroll position
  in the history (\<open>script.js\<close>), the template of a search link (\<open>search-page.js\<close>). Events of the browser
  are values, timers are lists of what is still to run, and the document is the part that is changed.
\<close>

subsection \<open>The menu of results\<close>

text \<open>
  An entry of the menu: a result of the search, or a notice, which has a label and maybe a category, and no
  index entry. A result has no property \<open>l\<close> of its own.
\<close>

record menu_item =
  ml :: "string option"
  mcategory :: "category option"
  mresult :: "search_result option"

definition menu_of_result :: "search_result \<Rightarrow> menu_item" where
  "menu_of_result r = \<lparr>ml = rlabel r, mcategory = Some (rcategory r), mresult = (if indexItem r = None then None else Some r)\<rparr>"

definition categories_title :: "category \<Rightarrow> string" where
  "categories_title c =
     (case c of
        Modules \<Rightarrow> ''Modules'' | Packages \<Rightarrow> ''Packages'' | Types \<Rightarrow> ''Classes and Interfaces''
      | Members \<Rightarrow> ''Members'' | SearchTags \<Rightarrow> ''Search Tags'')"

text \<open>The handler of the event \<open>response\<close>: an empty list of results is replaced by a notice.\<close>

definition on_response :: "search_result list \<Rightarrow> menu_item list" where
  "on_response content =
     (if content = [] then [\<lparr>ml = Some ''No results found'', mcategory = None, mresult = None\<rparr>] else map menu_of_result content)"

definition renderItem_html :: "menu_item \<Rightarrow> js_exn + string" where
  "renderItem_html item =
     (let label = (if truthy (ml item) then Inr (the (ml item))
                   else (case mresult item of
                           None \<Rightarrow> Inl TypeError
                         | Some r \<Rightarrow> Inr (getHighlightedText (minput r) (mboundaries r) 0 (int (length (minput r))))))
      in case label of
           Inl e \<Rightarrow> Inl e
         | Inr text \<Rightarrow>
             Inr (case mresult item of
                    None \<Rightarrow> text
                  | Some r \<Rightarrow>
                      (case indexItem r of
                         None \<Rightarrow> text
                       | Some idx \<Rightarrow>
                           if mcategory item = Some SearchTags \<and> truthy (ih idx)
                           then if truthy (idesc idx)
                                then text @ ''<span class='' @ [CHR 0x27] @ ''search-tag-holder-result'' @ [CHR 0x27] @ ''> ('' @ the (ih idx)
                                     @ '')</span><br><span class='' @ [CHR 0x27] @ ''search-tag-desc-result'' @ [CHR 0x27] @ ''>''
                                     @ the (idesc idx) @ ''</span><br>''
                                else text @ ''<span class='' @ [CHR 0x27] @ ''search-tag-holder-result'' @ [CHR 0x27] @ ''> ('' @ the (ih idx) @ '')</span>''
                           else text)))"

datatype menu_line =
    CategoryLine category
  | ItemLine (line_html: string) (aria_label: string) (line_item: menu_item)
  | PageLink string

definition aria_text :: "menu_item \<Rightarrow> string" where
  "aria_text item =
     (case mcategory item of
        Some c \<Rightarrow> categories_title c @ '' : '' @ as_string (ml item)
      | None \<Rightarrow> as_string (ml item))"

fun menu_lines :: "category option \<Rightarrow> menu_item list \<Rightarrow> js_exn + menu_line list" where
  "menu_lines current [] = Inr []"
| "menu_lines current (item # items) =
     (let fresh = (mcategory item \<noteq> None \<and> mcategory item \<noteq> current);
          current' = (if fresh then mcategory item else current)
      in case renderItem_html item of
           Inl e \<Rightarrow> Inl e
         | Inr html \<Rightarrow>
             (case menu_lines current' items of
                Inl e \<Rightarrow> Inl e
              | Inr ls \<Rightarrow> Inr ((if fresh then [CategoryLine (the (mcategory item))] else []) @ ItemLine html (aria_text item) item # ls)))"

definition renderMenu :: "(string \<Rightarrow> string) \<Rightarrow> string \<Rightarrow> string \<Rightarrow> menu_item list \<Rightarrow> js_exn + menu_line list" where
  "renderMenu encodeURI pathtoroot term items =
     (case menu_lines None items of
        Inl e \<Rightarrow> Inl e
      | Inr ls \<Rightarrow> Inr (ls @ [PageLink (pathtoroot @ ''search.html?q='' @ encodeURI term)]))"

text \<open>The handler of \<open>select\<close>: the address to go to, if any.\<close>

definition on_select :: "index_item list \<Rightarrow> string \<Rightarrow> menu_item \<Rightarrow> string option" where
  "on_select packages pathtoroot item =
     (case mresult item of
        None \<Rightarrow> None
      | Some r \<Rightarrow> map_option (\<lambda>idx. pathtoroot @ fst (getURL packages idx (rcategory r))) (indexItem r))"

text \<open>\<open>_scrollIntoView\<close>: the new scroll position for an item at an offset from the top of the menu.\<close>

definition scrollIntoView :: "bool \<Rightarrow> int \<Rightarrow> int \<Rightarrow> int \<Rightarrow> int \<Rightarrow> int" where
  "scrollIntoView hasScroll offset scroll menuHeight itemHeight =
     (let elementHeight = menuHeight - 26 in
      if hasScroll
      then if offset < 0 then scroll + offset
           else if offset + itemHeight > elementHeight then scroll + offset - elementHeight + itemHeight
           else scroll
      else scroll)"

subsection \<open>The navigation bar\<close>

record navbar =
  expanded :: bool
  windowWidth :: "int option"
  navStyle :: "int option"
  buttonExpanded :: bool
  ariaExpanded :: bool

definition collapse :: "navbar \<Rightarrow> navbar" where
  "collapse n = (if expanded n then n\<lparr>navStyle := None, buttonExpanded := False, ariaExpanded := False, expanded := False\<rparr> else n)"

definition toggle_click :: "int \<Rightarrow> int \<Rightarrow> navbar \<Rightarrow> navbar" where
  "toggle_click scrollHeight innerWidth n =
     (if expanded n then collapse n
      else n\<lparr>navStyle := Some scrollHeight, buttonExpanded := True, ariaExpanded := True, expanded := True, windowWidth := Some innerWidth\<rparr>)"

definition on_resize :: "int \<Rightarrow> navbar \<Rightarrow> navbar" where
  "on_resize innerWidth n = (if expanded n \<and> windowWidth n \<noteq> Some innerWidth then collapse n else n)"

inductive nav_step :: "navbar \<Rightarrow> navbar \<Rightarrow> bool" where
  nav_toggle: "nav_step n (toggle_click h w n)"
| nav_collapse: "nav_step n (collapse n)"
| nav_resize: "nav_step n (on_resize w n)"

inductive nav_reach :: "navbar \<Rightarrow> bool" where
  nav_start: "nav_reach \<lparr>expanded = False, windowWidth = None, navStyle = None, buttonExpanded = False, ariaExpanded = False\<rparr>"
| nav_next: "nav_reach n \<Longrightarrow> nav_step n n' \<Longrightarrow> nav_reach n'"

inductive_cases nav_stepE: "nav_step n n'"

text \<open>The anchor that is added to a header: its own identifier, its section's, or its link's.\<close>

definition header_anchor :: "string \<Rightarrow> string option \<Rightarrow> string option \<Rightarrow> string option \<Rightarrow> string" where
  "header_anchor pathtoroot hdr section link =
     (let ident = (if truthy hdr then hdr else if truthy section then section else link); q = [CHR 0x27] in
      if truthy ident
      then '' <a href='' @ q @ ''#'' @ the ident @ q @ '' class='' @ q @ ''anchor-link'' @ q @ '' aria-label='' @ q @ ''Link to this section''
           @ q @ ''><img src='' @ q @ pathtoroot @ ''link.svg'' @ q @ '' alt='' @ q @ ''Link icon'' @ q @ '' tabindex='' @ q @ ''0'' @ q
           @ '' width='' @ q @ ''16'' @ q @ '' height='' @ q @ ''16'' @ q @ ''></a>''
      else [])"

subsection \<open>The copy button\<close>

text \<open>
  The first timer hides the button and starts the second one, which puts the label back that the
  click found.
\<close>

datatype copy_timer = HideButton (saved: string) | RestoreLabel (saved: string)

record copy_button =
  visible :: bool
  innerHTML :: string
  timers :: "copy_timer list"

definition switchCopyLabel :: "string \<Rightarrow> copy_button \<Rightarrow> copy_button" where
  "switchCopyLabel copied b = b\<lparr>visible := True, innerHTML := copied, timers := timers b @ [HideButton (innerHTML b)]\<rparr>"

fun run_timer :: "string \<Rightarrow> copy_timer \<Rightarrow> copy_button \<Rightarrow> copy_button" where
  "run_timer copied (HideButton s) b = b\<lparr>visible := False, timers := timers b @ [RestoreLabel s]\<rparr>"
| "run_timer copied (RestoreLabel s) b = (if s \<noteq> copied then b\<lparr>innerHTML := s\<rparr> else b)"

text \<open>Clicks and timers in any order: also one that the delays rule out.\<close>

inductive copy_reach :: "string \<Rightarrow> string \<Rightarrow> copy_button \<Rightarrow> bool" for copied initial where
  copy_start: "copy_reach copied initial \<lparr>visible = False, innerHTML = initial, timers = []\<rparr>"
| copy_click: "copy_reach copied initial b \<Longrightarrow> copy_reach copied initial (switchCopyLabel copied b)"
| copy_timer: "copy_reach copied initial b \<Longrightarrow> timers b = before @ t # after
    \<Longrightarrow> copy_reach copied initial (run_timer copied t (b\<lparr>timers := before @ after\<rparr>))"

subsection \<open>The scroll position in the history\<close>

record scroll_page =
  scrollTop :: int
  historyState :: "int option"
  scrollTimer :: bool

definition replaceState :: "scroll_page \<Rightarrow> scroll_page" where
  "replaceState p = p\<lparr>historyState := Some (scrollTop p)\<rparr>"

definition on_popstate :: "int option \<Rightarrow> scroll_page \<Rightarrow> scroll_page" where
  "on_popstate st p = (case st of None \<Rightarrow> p\<lparr>historyState := st\<rparr> | Some y \<Rightarrow> p\<lparr>historyState := st, scrollTop := y\<rparr>)"

definition on_scroll :: "int \<Rightarrow> scroll_page \<Rightarrow> scroll_page" where
  "on_scroll y p = p\<lparr>scrollTop := y, scrollTimer := True\<rparr>"

definition on_scroll_timer :: "scroll_page \<Rightarrow> scroll_page" where
  "on_scroll_timer p = (if scrollTimer p then (replaceState p)\<lparr>scrollTimer := False\<rparr> else p)"

definition content_loaded :: "bool \<Rightarrow> scroll_page \<Rightarrow> scroll_page" where
  "content_loaded hasHash p = (if \<not> hasHash then replaceState p else p)"

text \<open>The template of a search link: the address without its query and fragment.\<close>

definition setSearchUrlTemplate :: "string \<Rightarrow> bool \<Rightarrow> string" where
  "setSearchUrlTemplate href checked =
     takeWhile (\<lambda>c. c \<noteq> CHR ''#'' \<and> c \<noteq> CHR ''?'') href @ ''?q=%s'' @ (if checked then ''&r=1'' else [])"

subsection \<open>Properties\<close>

lemma renderItem_html_returns: "truthy (ml item) \<or> mresult item \<noteq> None \<Longrightarrow> \<exists>h. renderItem_html item = Inr h"
  by (auto simp: renderItem_html_def Let_def)

fun item_lines :: "menu_line list \<Rightarrow> menu_item list" where
  "item_lines [] = []"
| "item_lines (ItemLine h a i # ls) = i # item_lines ls"
| "item_lines (_ # ls) = item_lines ls"

fun category_lines :: "menu_line list \<Rightarrow> category list" where
  "category_lines [] = []"
| "category_lines (CategoryLine c # ls) = c # category_lines ls"
| "category_lines (_ # ls) = category_lines ls"

lemma item_lines_append [simp]: "item_lines (xs @ ys) = item_lines xs @ item_lines ys"
  by (induction xs rule: item_lines.induct) simp_all

lemma category_lines_append [simp]: "category_lines (xs @ ys) = category_lines xs @ category_lines ys"
  by (induction xs rule: category_lines.induct) simp_all

text \<open>The categories of consecutive items, without repetitions.\<close>

lemma menu_lines_returns:
  assumes "\<forall>item \<in> set items. (truthy (ml item) \<or> mresult item \<noteq> None) \<and> mcategory item \<noteq> None"
  shows "\<exists>ls. menu_lines current items = Inr ls \<and> item_lines ls = items
    \<and> category_lines ls = (let cs = remdups_adj (map (\<lambda>i. the (mcategory i)) items)
                          in if items \<noteq> [] \<and> mcategory (hd items) = current then tl cs else cs)"
  using assms
proof (induction items arbitrary: current)
  case (Cons item items)
  from Cons.prems obtain h where h: "renderItem_html item = Inr h" using renderItem_html_returns by force
  from Cons.prems obtain c where c: "mcategory item = Some c" by auto
  have "\<forall>item \<in> set items. (truthy (ml item) \<or> mresult item \<noteq> None) \<and> mcategory item \<noteq> None" using Cons.prems by simp
  from Cons.IH[OF this, of "Some c"] obtain ls where ls: "menu_lines (Some c) items = Inr ls" "item_lines ls = items"
    "category_lines ls = (let cs = remdups_adj (map (\<lambda>i. the (mcategory i)) items)
        in if items \<noteq> [] \<and> mcategory (hd items) = Some c then tl cs else cs)" by blast
  have cats: "remdups_adj (map (\<lambda>i. the (mcategory i)) (item # items)) = c # category_lines ls"
  proof (cases items)
    case (Cons i rest)
    moreover from this Cons.prems(1) obtain d where "mcategory i = Some d" by auto
    ultimately show ?thesis using ls(3) c
      by (cases "c = d") (simp_all add: remdups_adj_Cons Let_def split: list.split)
  qed (use ls(3) c in simp)
  show ?case
  proof (cases "current = Some c")
    case True
    with h c ls(1,2) cats show ?thesis by simp
  next
    case False
    with h c ls(1,2) cats show ?thesis by (auto simp: Let_def)
  qed
qed simp

text \<open>
  The menu lists the results in their order, with a line for the category in front of each group, and ends with
  the link to the search page; no result leaves a notice that leads nowhere.
\<close>

theorem menu_of_results:
  assumes "\<forall>r \<in> set rs. indexItem r \<noteq> None \<or> truthy (rlabel r)"
  shows "\<exists>ls. renderMenu enc path term (on_response rs) = Inr (ls @ [PageLink (path @ ''search.html?q='' @ enc term)])
    \<and> item_lines ls = on_response rs
    \<and> category_lines ls = remdups_adj (map rcategory rs)
    \<and> (rs = [] \<longrightarrow> (\<forall>i \<in> set (item_lines ls). on_select packages path i = None))"
proof (cases "rs = []")
  case True
  then show ?thesis by (simp add: renderMenu_def on_response_def renderItem_html_def truthy_def Let_def on_select_def)
next
  case False
  have "\<forall>item \<in> set (map menu_of_result rs). (truthy (ml item) \<or> mresult item \<noteq> None) \<and> mcategory item \<noteq> None"
    using assms by (auto simp: menu_of_result_def)
  from menu_lines_returns[OF this, of None] obtain ls where
    "menu_lines None (map menu_of_result rs) = Inr ls" "item_lines ls = map menu_of_result rs"
    "category_lines ls = remdups_adj (map (\<lambda>i. the (mcategory i)) (map menu_of_result rs))"
    by (auto simp: Let_def menu_of_result_def hd_map split: if_splits)
  moreover have "map (\<lambda>i. the (mcategory i)) (map menu_of_result rs) = map rcategory rs" by (simp add: menu_of_result_def)
  ultimately show ?thesis using False by (simp only: renderMenu_def on_response_def) simp
qed

text \<open>
  Assistive technology reads ``undefined'' for every result: the label of a line is made from the property \<open>l\<close>, which
  results do not have.
\<close>

theorem aria_label_undefined:
  assumes "result_ok items c r" "rlabel r = None"
  shows "aria_text (menu_of_result r) = categories_title c @ '' : undefined''"
  using assms by (simp add: aria_text_def menu_of_result_def as_string_def result_ok_def)

text \<open>
  The item that gets the focus is scrolled into the visible part of the menu: its new offset (the old one less
  the distance scrolled) is not negative, and its lower edge is inside when the item fits.
\<close>

theorem scroll_into_view:
  assumes "0 \<le> itemHeight" "itemHeight \<le> menuHeight - 26"
  shows "let offset' = offset - (scrollIntoView True offset scroll menuHeight itemHeight - scroll)
         in 0 \<le> offset' \<and> offset' + itemHeight \<le> menuHeight - 26"
  using assms by (simp add: scrollIntoView_def Let_def)

text \<open>
  In every reachable state the navigation bar, its button and the attribute for assistive technology agree with the
  flag that the handlers test.
\<close>

theorem navbar_consistent:
  assumes "nav_reach n"
  shows "buttonExpanded n = expanded n \<and> ariaExpanded n = expanded n \<and> (navStyle n \<noteq> None) = expanded n
    \<and> (expanded n \<longrightarrow> windowWidth n \<noteq> None)"
  using assms
proof induction
  case (nav_next n n')
  then show ?case by (auto elim!: nav_stepE simp: toggle_click_def collapse_def on_resize_def split: if_splits)
qed simp

text \<open>
  However clicks on the copy button and its timers interleave, once no timer is left the button shows
  the label that it started with and is hidden again.
\<close>

theorem copy_label_restored:
  assumes "copy_reach copied initial b"
  shows "(innerHTML b = initial \<or> innerHTML b = copied) \<and> (timers b = [] \<longrightarrow> innerHTML b = initial \<and> \<not> visible b)"
proof -
  have "(innerHTML b = initial \<or> innerHTML b = copied \<and> (\<exists>t \<in> set (timers b). saved t = initial))
      \<and> (\<forall>t \<in> set (timers b). saved t = initial \<or> saved t = copied)
      \<and> (visible b \<longrightarrow> (\<exists>s. HideButton s \<in> set (timers b)))"
    using assms
  proof induction
    case (copy_timer b before t after)
    show ?case
    proof (cases t)
      case (RestoreLabel s)
      with copy_timer show ?thesis by (cases "initial = copied") auto
    next
      case (HideButton s)
      with copy_timer show ?thesis by auto
    qed
  qed (auto simp: switchCopyLabel_def)
  then show ?thesis by auto
qed

text \<open>The position that the timer has written is the one a later \<open>popstate\<close> scrolls to.\<close>

lemma scroll_restored:
  "scrollTop (on_popstate (historyState (on_scroll_timer (on_scroll y p))) (on_scroll z q)) = y"
  by (simp add: on_scroll_timer_def on_scroll_def replaceState_def on_popstate_def)

subsection \<open>Witnesses\<close>

definition demo_result :: "category \<Rightarrow> string \<Rightarrow> search_result" where
  "demo_result c n = \<lparr>minput = n, mscore = 1, mboundaries = [0, 1], indexItem = Some (demo_item n None), rprefix = [],
     rcategory = c, rlabel = None\<rparr>"

theorem menu_of_results_witness:
  "\<exists>ls. renderMenu (\<lambda>s. s) ''../'' ''c'' (on_response [demo_result Modules ''cm'', demo_result SearchTags ''ct'', demo_result SearchTags ''cu''])
       = Inr (ls @ [PageLink ''../search.html?q=c'']) \<and> category_lines ls = [Modules, SearchTags]"
  using menu_of_results[of "[demo_result Modules ''cm'', demo_result SearchTags ''ct'', demo_result SearchTags ''cu'']" "\<lambda>s. s" "''../''" "''c''"]
  by (auto simp: demo_result_def)

theorem aria_label_undefined_witness:
  "aria_text (menu_of_result (demo_result Modules ''cm'')) = ''Modules : undefined''"
  using aria_label_undefined[of "[demo_item ''cm'' None]" Modules "demo_result Modules ''cm''"]
  by (simp add: result_ok_def demo_result_def demo_item_def getPrefix_def bounds_ok_def categories_title_def)

theorem scroll_into_view_witness: "scrollIntoView True 300 100 226 20 = 220 \<and> 300 - (220 - 100) + 20 \<le> (226 - 26 :: int)"
  using scroll_into_view[of 20 226 300 100] by (simp add: scrollIntoView_def Let_def)

theorem navbar_consistent_witness:
  "let n = toggle_click 400 800 \<lparr>expanded = False, windowWidth = None, navStyle = None, buttonExpanded = False, ariaExpanded = False\<rparr>
   in expanded n \<and> buttonExpanded n \<and> ariaExpanded n"
proof -
  let ?n = "toggle_click 400 800 \<lparr>expanded = False, windowWidth = None, navStyle = None, buttonExpanded = False, ariaExpanded = False\<rparr>"
  have "nav_reach ?n" by (rule nav_next[OF nav_start nav_toggle])
  from navbar_consistent[OF this] show ?thesis by (simp add: toggle_click_def Let_def)
qed

theorem copy_label_restored_witness:
  "innerHTML (run_timer ''Copied!'' (RestoreLabel ''Copy'') (run_timer ''Copied!'' (HideButton ''Copy'')
     (switchCopyLabel ''Copied!'' \<lparr>visible = False, innerHTML = ''Copy'', timers = []\<rparr>\<lparr>timers := []\<rparr>)\<lparr>timers := []\<rparr>)) = ''Copy''"
proof -
  let ?b0 = "\<lparr>visible = False, innerHTML = ''Copy'', timers = []\<rparr>"
  let ?b1 = "switchCopyLabel ''Copied!'' ?b0"
  let ?b2 = "run_timer ''Copied!'' (HideButton ''Copy'') (?b1\<lparr>timers := [] @ []\<rparr>)"
  let ?b3 = "run_timer ''Copied!'' (RestoreLabel ''Copy'') (?b2\<lparr>timers := [] @ []\<rparr>)"
  have "copy_reach ''Copied!'' ''Copy'' ?b1" by (rule copy_click[OF copy_start])
  then have "copy_reach ''Copied!'' ''Copy'' ?b2" by (rule copy_timer) (simp add: switchCopyLabel_def)
  then have "copy_reach ''Copied!'' ''Copy'' ?b3" by (rule copy_timer) (simp add: switchCopyLabel_def)
  from copy_label_restored[OF this] show ?thesis by (simp add: switchCopyLabel_def)
qed

end
