(* ===== verification/JQ_Data.thy ===== *)
theory JQ_Data
  imports JSBase "HOL-Library.AList"
begin

text \<open>
  The data that jQuery keeps for elements and objects (\<open>docs/javadoc/*/jquery/jquery-3.5.1.js\<close>): \<open>camelCase\<close>, the class
  \<open>Data\<close> and its two instances. An owner has a slot for the cache of each instance; a cache is an object, whose
  properties are an association list, with the names of its prototype behind them. The key \<open>__proto__\<close>, an
  accessor of the prototype, is not one of the keys meant here.
\<close>

subsection \<open>Keys\<close>

definition is_az :: "char \<Rightarrow> bool" where
  "is_az c \<longleftrightarrow> (let n = of_char c :: nat in 97 \<le> n \<and> n \<le> 122)"

text \<open>The replacement of \<open>/-([a-z])/g\<close>.\<close>

fun fcamelCase :: "string \<Rightarrow> string" where
  "fcamelCase (c # l # s) = (if c = CHR ''-'' \<and> is_az l then upper_char l # fcamelCase s else c # fcamelCase (l # s))"
| "fcamelCase s = s"

definition camelCase :: "string \<Rightarrow> string" where
  "camelCase s = fcamelCase (if take 4 s = ''-ms-'' then ''ms-'' @ drop 4 s else s)"

subsection \<open>Owners\<close>

text \<open>A value that is read: missing, a member of the prototype, or a stored one, which may be \<open>undefined\<close> itself.\<close>

datatype 'v data_value = Undefined | Inherited string | Val 'v

type_synonym 'v cache = "(string \<times> 'v data_value) list"

record 'v owner =
  nodeType :: "nat option"
  slots :: "nat \<Rightarrow> 'v cache option"

definition acceptData :: "'v owner \<Rightarrow> bool" where
  "acceptData ob \<longleftrightarrow> nodeType ob = Some 1 \<or> nodeType ob = Some 9 \<or> nodeType ob = None \<or> nodeType ob = Some 0"

text \<open>The instances: \<open>dataPriv\<close> and \<open>dataUser\<close> are told apart by the number in their \<open>expando\<close>.\<close>

definition Data :: "nat \<Rightarrow> nat \<times> nat" where
  "Data uid = (uid, uid + 1)"

definition dataPriv :: nat where
  "dataPriv = fst (Data 1)"

definition dataUser :: nat where
  "dataUser = fst (Data (snd (Data 1)))"

definition cache_get :: "'v cache \<Rightarrow> string \<Rightarrow> 'v data_value" where
  "cache_get c k = (case map_of c k of Some v \<Rightarrow> v | None \<Rightarrow> if k \<in> set object_members then Inherited k else Undefined)"

text \<open>The cache of an owner, which is made where it is missing; it is only kept where the owner accepts data.\<close>

definition data_cache :: "nat \<Rightarrow> 'v owner \<Rightarrow> 'v cache \<times> 'v owner" where
  "data_cache d ob =
     (case slots ob d of
        Some c \<Rightarrow> (c, ob)
      | None \<Rightarrow> ([], if acceptData ob then ob\<lparr>slots := (slots ob)(d := Some [])\<rparr> else ob))"

text \<open>The argument of \<open>set\<close> and \<open>access\<close>: a name or an object with properties.\<close>

datatype 'v data_key = Name string | Props "(string \<times> 'v data_value) list"

fun put_all :: "'v data_key \<Rightarrow> 'v data_value \<Rightarrow> 'v cache \<Rightarrow> 'v cache" where
  "put_all (Name k) v c = AList.update (camelCase k) v c"
| "put_all (Props ps) v c = fold (\<lambda>(k, w). AList.update (camelCase k) w) ps c"

definition data_set :: "nat \<Rightarrow> 'v data_key \<Rightarrow> 'v data_value \<Rightarrow> 'v owner \<Rightarrow> 'v cache \<times> 'v owner" where
  "data_set d k v ob =
     (case data_cache d ob of
        (c, ob1) \<Rightarrow>
          (let c' = put_all k v c
           in (c', case slots ob1 d of None \<Rightarrow> ob1 | Some _ \<Rightarrow> ob1\<lparr>slots := (slots ob1)(d := Some c')\<rparr>)))"

datatype 'v data_result = Whole "'v cache" | Single "'v data_value" | TheKey "'v data_key"

definition get_value :: "nat \<Rightarrow> string \<Rightarrow> 'v owner \<Rightarrow> 'v data_value" where
  "get_value d k ob = (case slots ob d of None \<Rightarrow> Undefined | Some c \<Rightarrow> cache_get c (camelCase k))"

definition data_get :: "nat \<Rightarrow> string option \<Rightarrow> 'v owner \<Rightarrow> 'v data_result \<times> 'v owner" where
  "data_get d key ob =
     (case key of
        None \<Rightarrow> (case data_cache d ob of (c, ob1) \<Rightarrow> (Whole c, ob1))
      | Some k \<Rightarrow> (Single (get_value d k ob), ob))"

definition data_access :: "nat \<Rightarrow> 'v data_key option \<Rightarrow> 'v data_value \<Rightarrow> 'v owner \<Rightarrow> 'v data_result \<times> 'v owner" where
  "data_access d key v ob =
     (case key of
        None \<Rightarrow> data_get d None ob
      | Some (Name k) \<Rightarrow>
          if k \<noteq> [] \<and> v = Undefined then data_get d (Some k) ob
          else (if v \<noteq> Undefined then Single v else TheKey (Name k), snd (data_set d (Name k) v ob))
      | Some (Props ps) \<Rightarrow> (if v \<noteq> Undefined then Single v else TheKey (Props ps), snd (data_set d (Props ps) v ob)))"

datatype removal = RemoveAll | RemoveKeys "string list" | RemoveName string

definition html_space :: "char \<Rightarrow> bool" where
  "html_space c \<longleftrightarrow> c \<in> {CHR '' '', CHR 0x09, CHR 0x0A, CHR 0x0C, CHR 0x0D}"

fun removal_keys :: "removal \<Rightarrow> 'v cache \<Rightarrow> string list" where
  "removal_keys RemoveAll c = []"
| "removal_keys (RemoveKeys ks) c = map camelCase ks"
| "removal_keys (RemoveName k) c =
     (let key = camelCase k in
      if map_of c key \<noteq> None \<or> key \<in> set object_members then [key] else runs (\<lambda>c. \<not> html_space c) key)"

definition data_remove :: "nat \<Rightarrow> removal \<Rightarrow> 'v owner \<Rightarrow> 'v owner" where
  "data_remove d key ob =
     (case slots ob d of
        None \<Rightarrow> ob
      | Some c \<Rightarrow>
          (let c' = foldr AList.delete (removal_keys key c) c in
           if key = RemoveAll \<or> c' = [] then ob\<lparr>slots := (slots ob)(d := None)\<rparr> else ob\<lparr>slots := (slots ob)(d := Some c')\<rparr>))"

definition data_hasData :: "nat \<Rightarrow> 'v owner \<Rightarrow> bool" where
  "data_hasData d ob = (case slots ob d of None \<Rightarrow> False | Some c \<Rightarrow> c \<noteq> [])"

definition hasData :: "'v owner \<Rightarrow> bool" where
  "hasData ob \<longleftrightarrow> data_hasData dataUser ob \<or> data_hasData dataPriv ob"

subsection \<open>Keys are normalised once\<close>

fun no_dashes :: "string \<Rightarrow> bool" where
  "no_dashes (c # l # s) = (\<not> (c = CHR ''-'' \<and> is_az l) \<and> no_dashes (l # s))"
| "no_dashes s = True"

lemma upper_char_az: "is_az c \<Longrightarrow> \<not> is_az (upper_char c) \<and> upper_char c \<noteq> CHR ''-''"
proof -
  assume "is_az c"
  then have n: "97 \<le> (of_char c :: nat)" "(of_char c :: nat) \<le> 122" by (simp_all add: is_az_def Let_def)
  then have u: "of_char (upper_char c) = (of_char c :: nat) - 32" by (simp add: upper_char_def)
  then have "(of_char (upper_char c) :: nat) \<noteq> of_char (CHR ''-'')" using n by simp
  then have "upper_char c \<noteq> CHR ''-''" by metis
  with u n show ?thesis by (simp add: is_az_def Let_def)
qed

lemma fcamelCase_id: "no_dashes s \<Longrightarrow> fcamelCase s = s"
  by (induction s rule: fcamelCase.induct) auto

lemma fcamelCase_Cons: "\<exists>t. fcamelCase (c # s) = c # t \<or> (c = CHR ''-'' \<and> (\<exists>l. is_az l \<and> fcamelCase (c # s) = upper_char l # t))"
  by (cases s) auto

lemma fcamelCase_no_dashes: "no_dashes (fcamelCase s)"
proof (induction s rule: fcamelCase.induct)
  case (1 c l s)
  show ?case
  proof (cases "c = CHR ''-'' \<and> is_az l")
    case True
    with 1 upper_char_az[of l] show ?thesis by (cases "fcamelCase s") auto
  next
    case False
    have dash: "\<not> is_az (CHR ''-'')" by (simp add: is_az_def)
    from fcamelCase_Cons[of l s] obtain t where
      "fcamelCase (l # s) = l # t \<or> (l = CHR ''-'' \<and> (\<exists>x. is_az x \<and> fcamelCase (l # s) = upper_char x # t))" by blast
    moreover have "no_dashes (fcamelCase (l # s))" using 1(2) False by simp
    moreover have "fcamelCase (c # l # s) = c # fcamelCase (l # s)" using False by auto
    ultimately show ?thesis using False upper_char_az by (metis no_dashes.simps(1))
  qed
qed simp_all

text \<open>Normalising a key twice changes nothing more, so that a key and its camel-cased form are the same key.\<close>

lemma camelCase_idem [simp]: "camelCase (camelCase s) = camelCase s"
proof -
  define t where "t = camelCase s"
  have t: "no_dashes t" by (simp add: t_def camelCase_def fcamelCase_no_dashes)
  have "take 4 t \<noteq> ''-ms-''"
  proof
    assume "take 4 t = ''-ms-''"
    then obtain u where "t = ''-ms-'' @ u" by (metis append_take_drop_id)
    with t show False by (simp add: is_az_def)
  qed
  with fcamelCase_id[OF t] have "camelCase t = t" by (simp add: camelCase_def)
  then show ?thesis by (simp add: t_def)
qed

subsection \<open>The store\<close>

lemma map_of_deletes: "map_of (foldr AList.delete ks c) k = (if k \<in> set ks then None else map_of c k)"
  by (induction ks) (auto simp: AList.delete_conv)

definition proper :: "string \<Rightarrow> bool" where
  "proper k \<longleftrightarrow> camelCase k \<notin> set object_members"

lemma get_set:
  assumes "acceptData ob" "proper k'"
  shows "get_value d' k' (snd (data_set d (Name k) v ob)) = (if d' = d \<and> camelCase k' = camelCase k then v else get_value d' k' ob)"
  using assms by (auto simp: get_value_def data_set_def data_cache_def cache_get_def update_conv proper_def Let_def split: option.splits)

lemma get_remove:
  assumes "proper k'"
  shows "get_value d' k' (data_remove d (RemoveKeys ks) ob)
    = (if d' = d \<and> camelCase k' \<in> camelCase ` set ks then Undefined else get_value d' k' ob)"
proof (cases "slots ob d")
  case (Some c)
  have "cache_get (foldr AList.delete (map camelCase ks) c) (camelCase k')
      = (if camelCase k' \<in> camelCase ` set ks then Undefined else cache_get c (camelCase k'))"
    using assms by (simp add: cache_get_def map_of_deletes proper_def split: option.split)
  moreover have "foldr AList.delete (map camelCase ks) c = [] \<Longrightarrow> cache_get (foldr AList.delete (map camelCase ks) c) (camelCase k') = Undefined"
    using assms by (simp add: cache_get_def proper_def)
  ultimately show ?thesis using Some by (auto simp: get_value_def data_remove_def Let_def)
qed (auto simp: get_value_def data_remove_def split: option.splits)

lemma nodeType_kept [simp]: "nodeType (snd (data_set d k v ob)) = nodeType ob" "nodeType (data_remove d r ob) = nodeType ob"
  by (auto simp: data_set_def data_cache_def data_remove_def Let_def split: option.splits)

lemma acceptData_kept [simp]: "acceptData (snd (data_set d k v ob)) = acceptData ob" "acceptData (data_remove d r ob) = acceptData ob"
  by (simp_all add: acceptData_def)

text \<open>What the rest of the library relies on: a key reads what was last written under an equal key.\<close>

locale data_store =
  fixes get :: "string \<Rightarrow> 's \<Rightarrow> 'v data_value" and put :: "string \<Rightarrow> 'v data_value \<Rightarrow> 's \<Rightarrow> 's" and del :: "string list \<Rightarrow> 's \<Rightarrow> 's"
    and ok :: "'s \<Rightarrow> bool" and key :: "string \<Rightarrow> string" and usable :: "string \<Rightarrow> bool"
  assumes get_put: "ok s \<Longrightarrow> usable k' \<Longrightarrow> get k' (put k v s) = (if key k' = key k then v else get k' s)"
    and get_del: "ok s \<Longrightarrow> usable k' \<Longrightarrow> get k' (del ks s) = (if key k' \<in> key ` set ks then Undefined else get k' s)"
    and ok_put: "ok s \<Longrightarrow> ok (put k v s)" and ok_del: "ok s \<Longrightarrow> ok (del ks s)"
begin

lemma put_put: "ok s \<Longrightarrow> usable k' \<Longrightarrow> get k' (put k v (put k w s)) = get k' (put k v s)"
  by (simp add: get_put ok_put)

lemma del_put: "ok s \<Longrightarrow> usable k' \<Longrightarrow> key k \<in> key ` set ks \<Longrightarrow> get k' (del ks (put k v s)) = get k' (del ks s)"
  by (simp add: get_put get_del ok_put)

lemma put_frame: "ok s \<Longrightarrow> usable k' \<Longrightarrow> key k' \<noteq> key k \<Longrightarrow> get k' (put k v s) = get k' s"
  by (simp add: get_put)

end

interpretation priv: data_store "get_value dataPriv" "\<lambda>k v ob. snd (data_set dataPriv (Name k) v ob)"
  "\<lambda>ks. data_remove dataPriv (RemoveKeys ks)" acceptData camelCase proper
  by unfold_locales (auto simp: get_set get_remove)

interpretation user: data_store "get_value dataUser" "\<lambda>k v ob. snd (data_set dataUser (Name k) v ob)"
  "\<lambda>ks. data_remove dataUser (RemoveKeys ks)" acceptData camelCase proper
  by unfold_locales (auto simp: get_set get_remove)

subsection \<open>Properties\<close>

text \<open>
  C38. What is written under a name is read back under every name with the same camel-cased form, and under the
  same instance only; the other names and the other instance read what they read before.
\<close>

theorem data_read_after_write:
  assumes "acceptData ob" "k \<noteq> []" "k' \<noteq> []" "camelCase k' \<notin> set object_members"
  shows "fst (data_access d' (Some (Name k')) Undefined (snd (data_access d (Some (Name k)) (Val v) ob)))
    = (if d' = d \<and> camelCase k' = camelCase k then Single (Val v) else fst (data_access d' (Some (Name k')) Undefined ob))"
  using assms get_set[of ob k' d' d k "Val v"] by (simp add: data_access_def data_get_def proper_def)

text \<open>
  A text or comment node does not keep data, without a sign of it: the write returns its value and the owner stays as it
  was.
\<close>

theorem data_refused:
  assumes "\<not> acceptData ob" "slots ob d = None" "k \<noteq> []"
  shows "data_access d (Some (Name k)) (Val v) ob = (Single (Val v), ob)
    \<and> fst (data_access d (Some (Name k)) Undefined ob) = Single Undefined"
  using assms by (simp add: data_access_def data_set_def data_cache_def data_get_def get_value_def Let_def)

text \<open>
  An owner that has any data answers the names of the members of every object, which nobody has written: a cache is an
  ordinary object with a prototype.
\<close>

theorem data_inherited:
  assumes "slots ob d = Some c" "camelCase k \<in> set object_members" "map_of c (camelCase k) = None" "k \<noteq> []"
  shows "fst (data_access d (Some (Name k)) Undefined ob) = Single (Inherited (camelCase k))"
  using assms by (simp add: data_access_def data_get_def get_value_def cache_get_def)

text \<open>Removing the last key removes the cache from its owner; removing a name leaves the others.\<close>

theorem data_remove_last:
  assumes "slots ob d = Some c"
  shows "slots (data_remove d (RemoveKeys ks) ob) d = None \<longleftrightarrow> fst ` set c \<subseteq> camelCase ` set ks"
proof -
  let ?c = "foldr AList.delete (map camelCase ks) c"
  have dom: "fst ` set ?c = fst ` set c - camelCase ` set ks"
  proof -
    have "dom (map_of ?c) = dom (map_of c) - camelCase ` set ks" by (auto simp: map_of_deletes dom_def split: if_splits)
    then show ?thesis by (simp add: dom_map_of_conv_image_fst)
  qed
  have "?c = [] \<longleftrightarrow> fst ` set ?c = {}" by simp
  with dom have "?c = [] \<longleftrightarrow> fst ` set c \<subseteq> camelCase ` set ks" by auto
  with assms show ?thesis by (simp add: data_remove_def Let_def)
qed

subsection \<open>Witnesses\<close>

definition plain_owner :: "nat owner" where
  "plain_owner = \<lparr>nodeType = Some 1, slots = Map.empty\<rparr>"

lemma camel_examples: "camelCase ''foo-bar'' = ''fooBar''" "camelCase ''fooBar'' = ''fooBar''" "camelCase ''to-string'' = ''toString''"
  "camelCase ''a-b'' = ''aB''" "camelCase ''c'' = ''c''"
  by code_simp+

theorem data_read_after_write_witness:
  "fst (data_access dataUser (Some (Name ''fooBar'')) Undefined (snd (data_access dataUser (Some (Name ''foo-bar'')) (Val 5) plain_owner))) = Single (Val 5)"
  using data_read_after_write[of plain_owner "''foo-bar''" "''fooBar''" dataUser dataUser 5]
  by (simp add: plain_owner_def acceptData_def camel_examples object_members_def)

theorem data_refused_witness:
  "data_access dataUser (Some (Name ''x'')) (Val 5) (plain_owner\<lparr>nodeType := Some 3\<rparr>) = (Single (Val 5), plain_owner\<lparr>nodeType := Some 3\<rparr>)"
  using data_refused[of "plain_owner\<lparr>nodeType := Some 3\<rparr>" dataUser "''x''" 5] by (simp add: plain_owner_def acceptData_def)

theorem data_inherited_witness:
  "fst (data_access dataUser (Some (Name ''to-string'')) Undefined (plain_owner\<lparr>slots := [dataUser \<mapsto> [(''x'', Val 1)]]\<rparr>))
     = Single (Inherited ''toString'')"
  using data_inherited[of "plain_owner\<lparr>slots := [dataUser \<mapsto> [(''x'', Val 1)]]\<rparr>" dataUser "[(''x'', Val 1)]" "''to-string''"]
  by (simp add: camel_examples object_members_def)

theorem data_remove_last_witness:
  "slots (data_remove dataUser (RemoveKeys [''a-b'', ''c'']) (plain_owner\<lparr>slots := [dataUser \<mapsto> [(''aB'', Val 1), (''c'', Val 2)]]\<rparr>)) dataUser = None"
  using data_remove_last[of "plain_owner\<lparr>slots := [dataUser \<mapsto> [(''aB'', Val 1), (''c'', Val 2)]]\<rparr>" dataUser "[(''aB'', Val 1), (''c'', Val 2)]" "[''a-b'', ''c'']"]
  by (simp add: camel_examples)

end
