(* ===== verification/JQ_Callbacks.thy ===== *)
theory JQ_Callbacks
  imports JSBase
begin

text \<open>
  \<open>jQuery.Callbacks\<close> (\<open>docs/javadoc/*/jquery/jquery-3.5.1.js\<close>): the list of callbacks behind events and
  deferred objects. A callback is a number; what it does when it is called is a parameter: it changes a world of
  its own, may call the operations of the list it is in, and returns false, something else, or throws.
\<close>

subsection \<open>Options\<close>

definition html_white :: "char \<Rightarrow> bool" where
  "html_white c \<longleftrightarrow> c \<in> {CHR '' '', CHR 0x09, CHR 0x0A, CHR 0x0C, CHR 0x0D}"

text \<open>The flags that the object made from a string of options has.\<close>

definition createOptions :: "string \<Rightarrow> string list" where
  "createOptions options = runs (\<lambda>c. \<not> html_white c) options"

record cb_options =
  once :: bool
  opt_memory :: bool
  unique :: bool
  stopOnFalse :: bool

definition options_of :: "string list \<Rightarrow> cb_options" where
  "options_of flags =
     \<lparr>once = (''once'' \<in> set flags), opt_memory = (''memory'' \<in> set flags),
      unique = (''unique'' \<in> set flags), stopOnFalse = (''stopOnFalse'' \<in> set flags)\<rparr>"

subsection \<open>The list and its operations\<close>

text \<open>
  The variables of the closure. \<open>memory\<close> is \<open>None\<close> while it is false, \<open>cb_list\<close> is \<open>None\<close> when it is
  the empty string of a spent list.
\<close>

record 'v callbacks =
  firing :: bool
  memory :: "'v option"
  fired :: bool
  locked :: bool
  cb_list :: "nat list option"
  queue :: "'v list"
  firingIndex :: int

definition Callbacks :: "'v callbacks" where
  "Callbacks = \<lparr>firing = False, memory = None, fired = False, locked = False, cb_list = Some [], queue = [], firingIndex = - 1\<rparr>"

definition entries :: "'v callbacks \<Rightarrow> nat list" where
  "entries s = (case cb_list s of None \<Rightarrow> [] | Some fs \<Rightarrow> fs)"

text \<open>An argument of \<open>add\<close>: a function, an array of arguments, or something that is skipped.\<close>

datatype cb_arg = Fn nat | Args "cb_arg list" | Skipped

fun add_arg :: "bool \<Rightarrow> cb_arg \<Rightarrow> nat list \<Rightarrow> nat list" where
  "add_arg uniq (Fn f) fs = (if \<not> uniq \<or> f \<notin> set fs then fs @ [f] else fs)"
| "add_arg uniq (Args as) fs = fold (add_arg uniq) as fs"
| "add_arg uniq Skipped fs = fs"

definition add_args :: "bool \<Rightarrow> cb_arg list \<Rightarrow> nat list \<Rightarrow> nat list" where
  "add_args uniq as fs = fold (add_arg uniq) as fs"

text \<open>\<open>inArray\<close> from a position.\<close>

function in_array_from :: "nat \<Rightarrow> nat list \<Rightarrow> nat \<Rightarrow> nat option" where
  "in_array_from f fs i = (if i < length fs then if fs ! i = f then Some i else in_array_from f fs (Suc i) else None)"
  by pat_completeness auto
termination
  by (relation "measure (\<lambda>(f, fs, i). length fs - i)") auto

declare in_array_from.simps [simp del]

lemma in_array_from_Some: "in_array_from f fs i = Some j \<Longrightarrow> i \<le> j \<and> j < length fs \<and> fs ! j = f"
  by (induction f fs i rule: in_array_from.induct) (subst (asm) in_array_from.simps, auto split: if_splits)

text \<open>The loop of \<open>remove\<close> over the occurrences of one callback.\<close>

function remove_loop :: "nat \<Rightarrow> nat \<Rightarrow> nat list \<Rightarrow> int \<Rightarrow> nat list \<times> int" where
  "remove_loop f i fs idx =
     (case in_array_from f fs i of
        None \<Rightarrow> (fs, idx)
      | Some j \<Rightarrow> remove_loop f j (take j fs @ drop (Suc j) fs) (if int j \<le> idx then idx - 1 else idx))"
  by pat_completeness auto
termination
  by (relation "measure (\<lambda>(f, i, fs, idx). length fs)") (auto dest!: in_array_from_Some)

declare remove_loop.simps [simp del]

fun cb_remove :: "nat list \<Rightarrow> 'v callbacks \<Rightarrow> 'v callbacks" where
  "cb_remove [] s = s"
| "cb_remove (f # args) s =
     cb_remove args
       (let (fs, idx) = remove_loop f 0 (entries s) (firingIndex s)
        in s\<lparr>cb_list := map_option (\<lambda>_. fs) (cb_list s), firingIndex := idx\<rparr>)"

definition cb_has :: "nat \<Rightarrow> 'v callbacks \<Rightarrow> bool" where
  "cb_has f s = (f \<in> set (entries s))"

definition cb_empty :: "'v callbacks \<Rightarrow> 'v callbacks" where
  "cb_empty s = (if cb_list s \<noteq> None then s\<lparr>cb_list := Some []\<rparr> else s)"

definition cb_disable :: "'v callbacks \<Rightarrow> 'v callbacks" where
  "cb_disable s = s\<lparr>locked := True, queue := [], cb_list := None, memory := None\<rparr>"

definition cb_disabled :: "'v callbacks \<Rightarrow> bool" where
  "cb_disabled s = (cb_list s = None)"

definition cb_lock :: "'v callbacks \<Rightarrow> 'v callbacks" where
  "cb_lock s =
     (let s1 = s\<lparr>locked := True, queue := []\<rparr> in
      if memory s1 = None \<and> \<not> firing s1 then s1\<lparr>cb_list := None, memory := None\<rparr> else s1)"

text \<open>
  \<open>add\<close> and \<open>fireWith\<close> up to their call of \<open>fire\<close>, with whether they make it. While the list is firing they never do: so
  the operations that a callback calls on its own list return without calling a callback.
\<close>

definition add_entry :: "cb_options \<Rightarrow> cb_arg list \<Rightarrow> 'v callbacks \<Rightarrow> 'v callbacks \<times> bool" where
  "add_entry opts as s =
     (case cb_list s of
        None \<Rightarrow> (s, False)
      | Some fs \<Rightarrow>
          (let s1 = (case memory s of
                       Some v \<Rightarrow> if \<not> firing s then s\<lparr>firingIndex := int (length fs) - 1, queue := queue s @ [v]\<rparr> else s
                     | None \<Rightarrow> s);
               s2 = s1\<lparr>cb_list := Some (add_args (unique opts) as fs)\<rparr>
           in (s2, memory s2 \<noteq> None \<and> \<not> firing s2)))"

definition fire_entry :: "'v \<Rightarrow> 'v callbacks \<Rightarrow> 'v callbacks \<times> bool" where
  "fire_entry v s = (if \<not> locked s then (s\<lparr>queue := queue s @ [v]\<rparr>, \<not> firing s) else (s, False))"

datatype 'v cb_op = Add "cb_arg list" | Remove "nat list" | Empty | Disable | Lock | FireWith 'v

fun op_entry :: "cb_options \<Rightarrow> 'v cb_op \<Rightarrow> 'v callbacks \<Rightarrow> 'v callbacks \<times> bool" where
  "op_entry opts (Add as) s = add_entry opts as s"
| "op_entry opts (Remove fs) s = (cb_remove fs s, False)"
| "op_entry opts Empty s = (cb_empty s, False)"
| "op_entry opts Disable s = (cb_disable s, False)"
| "op_entry opts Lock s = (cb_lock s, False)"
| "op_entry opts (FireWith v) s = fire_entry v s"

datatype cb_outcome = ReturnsFalse | Returns | Throws

type_synonym ('v, 'w) behaviour = "'w \<Rightarrow> nat \<Rightarrow> 'v option \<Rightarrow> 'w \<times> 'v cb_op list \<times> cb_outcome"

text \<open>The operations that a callback calls on the firing list.\<close>

definition inner_ops :: "cb_options \<Rightarrow> 'v cb_op list \<Rightarrow> 'v callbacks \<Rightarrow> 'v callbacks" where
  "inner_ops opts ops s = fold (\<lambda>oper s. fst (op_entry opts oper s)) ops s"

text \<open>The inner loop of \<open>fire\<close>: the state, the world and whether a callback threw.\<close>

partial_function (option) fire_list ::
  "('v, 'w) behaviour \<Rightarrow> cb_options \<Rightarrow> 'v callbacks \<Rightarrow> 'w \<Rightarrow> ('v callbacks \<times> 'w \<times> bool) option" where
  "fire_list beh opts s w =
     (let s1 = s\<lparr>firingIndex := firingIndex s + 1\<rparr> in
      if firingIndex s1 < int (length (entries s1))
      then (case beh w (entries s1 ! nat (firingIndex s1)) (memory s1) of
              (w', ops, outcome) \<Rightarrow>
                (let s2 = inner_ops opts ops s1 in
                 if outcome = Throws then Some (s2, w', True)
                 else if outcome = ReturnsFalse \<and> stopOnFalse opts
                 then fire_list beh opts (s2\<lparr>firingIndex := int (length (entries s2)), memory := None\<rparr>) w'
                 else fire_list beh opts s2 w'))
      else Some (s1, w, False))"

declare fire_list.simps [code]

partial_function (option) fire_queue ::
  "('v, 'w) behaviour \<Rightarrow> cb_options \<Rightarrow> 'v callbacks \<Rightarrow> 'w \<Rightarrow> ('v callbacks \<times> 'w \<times> bool) option" where
  "fire_queue beh opts s w =
     (case queue s of
        [] \<Rightarrow> Some (s, w, False)
      | v # vs \<Rightarrow>
          Option.bind (fire_list beh opts (s\<lparr>memory := Some v, queue := vs\<rparr>) w) (\<lambda>(s1, w1, threw).
            if threw then Some (s1, w1, True) else fire_queue beh opts (s1\<lparr>firingIndex := - 1\<rparr>) w1))"

declare fire_queue.simps [code]

definition finish_fire :: "cb_options \<Rightarrow> 'v callbacks \<Rightarrow> 'v callbacks" where
  "finish_fire opts s =
     (let s1 = (if \<not> opt_memory opts then s\<lparr>memory := None\<rparr> else s);
          s2 = s1\<lparr>firing := False\<rparr>
      in if locked s2 then if memory s2 \<noteq> None then s2\<lparr>cb_list := Some []\<rparr> else s2\<lparr>cb_list := None\<rparr> else s2)"

definition fire :: "('v, 'w) behaviour \<Rightarrow> cb_options \<Rightarrow> 'v callbacks \<Rightarrow> 'w \<Rightarrow> ('v callbacks \<times> 'w \<times> bool) option" where
  "fire beh opts s w =
     Option.bind (fire_queue beh opts (s\<lparr>locked := locked s \<or> once opts, fired := True, firing := True\<rparr>) w) (\<lambda>(s1, w1, threw).
       if threw then Some (s1, w1, True) else Some (finish_fire opts s1, w1, False))"

text \<open>A call of an operation from outside.\<close>

definition cb_call ::
  "('v, 'w) behaviour \<Rightarrow> cb_options \<Rightarrow> 'v cb_op \<Rightarrow> 'v callbacks \<Rightarrow> 'w \<Rightarrow> ('v callbacks \<times> 'w \<times> bool) option" where
  "cb_call beh opts oper s w =
     (case op_entry opts oper s of (s1, fires) \<Rightarrow> if fires then fire beh opts s1 w else Some (s1, w, False))"

subsection \<open>Options and arguments\<close>

lemma fold_distinct:
  "(\<And>a fs. a \<in> set as \<Longrightarrow> distinct fs \<Longrightarrow> distinct (g a fs)) \<Longrightarrow> distinct fs \<Longrightarrow> distinct (fold g as fs)"
  by (induction as arbitrary: fs) simp_all

lemma add_arg_distinct: "distinct fs \<Longrightarrow> distinct (add_arg True a fs)"
proof (induction a arbitrary: fs)
  case (Args as)
  then show ?case by (simp add: fold_distinct)
qed simp_all

lemma add_args_distinct: "distinct fs \<Longrightarrow> distinct (add_args True as fs)"
  by (simp add: add_args_def fold_distinct add_arg_distinct)

text \<open>Without \<open>unique\<close>, the functions among the arguments are appended in their order.\<close>

fun arg_functions :: "cb_arg \<Rightarrow> nat list" where
  "arg_functions (Fn f) = [f]"
| "arg_functions (Args as) = concat (map arg_functions as)"
| "arg_functions Skipped = []"

lemma add_arg_append: "add_arg False a fs = fs @ arg_functions a"
proof (induction a arbitrary: fs)
  case (Args as)
  have "(\<And>a fs. a \<in> set as \<Longrightarrow> add_arg False a fs = fs @ arg_functions a)
      \<Longrightarrow> fold (add_arg False) as fs = fs @ concat (map arg_functions as)" for fs
    by (induction as arbitrary: fs) simp_all
  with Args show ?case by simp
qed simp_all

lemma add_args_append: "add_args False as fs = fs @ concat (map arg_functions as)"
  by (induction as arbitrary: fs) (simp_all add: add_args_def add_arg_append)

subsection \<open>Removal while firing\<close>

lemma in_array_from_None: "in_array_from f fs i = None \<longleftrightarrow> f \<notin> set (drop i fs)"
proof (induction f fs i rule: in_array_from.induct)
  case (1 f fs i)
  show ?case
  proof (cases "i < length fs")
    case True
    then have "drop i fs = fs ! i # drop (Suc i) fs" by (rule Cons_nth_drop_Suc[symmetric])
    with 1 True show ?thesis by (subst in_array_from.simps) auto
  qed (subst in_array_from.simps, simp)
qed

lemma in_array_from_first:
  "in_array_from f fs i = Some j \<Longrightarrow> f \<notin> set (take (j - i) (drop i fs))"
proof (induction f fs i rule: in_array_from.induct)
  case (1 f fs i)
  show ?case
  proof (cases "i < length fs \<and> fs ! i \<noteq> f")
    case True
    then have nxt: "in_array_from f fs (Suc i) = Some j" using "1.prems" by (subst (asm) in_array_from.simps) simp
    with in_array_from_Some[OF nxt] have "j - i = Suc (j - Suc i)" by arith
    moreover have "drop i fs = fs ! i # drop (Suc i) fs" using True by (simp add: Cons_nth_drop_Suc)
    ultimately show ?thesis using "1.IH"[OF _ _ nxt] True by simp
  next
    case False
    then show ?thesis using "1.prems" by (subst (asm) in_array_from.simps) (auto split: if_splits)
  qed
qed

lemma removeAll_delete_at: "j < length fs \<Longrightarrow> fs ! j = f \<Longrightarrow> removeAll f (take j fs @ drop (Suc j) fs) = removeAll f fs"
  by (metis id_take_nth_drop removeAll.simps(2) removeAll_append)

lemma drop_delete_after: "j \<le> n \<Longrightarrow> j < length fs \<Longrightarrow> drop n (take j fs @ drop (Suc j) fs) = drop (Suc n) fs"
  by (simp add: min_def)

lemma removeAll_drop_delete:
  assumes "n \<le> j" "j < length fs" "fs ! j = f"
  shows "removeAll f (drop n (take j fs @ drop (Suc j) fs)) = removeAll f (drop n fs)"
proof -
  have "drop n (take j fs @ drop (Suc j) fs) = take (j - n) (drop n fs) @ drop (Suc (j - n)) (drop n fs)"
    using assms by (simp add: drop_take min_def)
  then show ?thesis using removeAll_delete_at[of "j - n" "drop n fs" f] assms by simp
qed

text \<open>
  Removing a callback from a list that is firing removes all its occurrences and keeps the position: the
  callbacks that are still to be called are the former ones without it.
\<close>

lemma remove_loop_exact:
  assumes "f \<notin> set (take i fs)" "- 1 \<le> idx"
  shows "fst (remove_loop f i fs idx) = removeAll f fs \<and> - 1 \<le> snd (remove_loop f i fs idx)
    \<and> drop (nat (snd (remove_loop f i fs idx) + 1)) (removeAll f fs) = removeAll f (drop (nat (idx + 1)) fs)"
  using assms
proof (induction f i fs idx rule: remove_loop.induct)
  case (1 f i fs idx)
  show ?case
  proof (cases "in_array_from f fs i")
    case None
    then have "f \<notin> set fs" using "1.prems"(1) by (metis UnE append_take_drop_id in_array_from_None set_append)
    moreover from this have "f \<notin> set (drop n fs)" for n by (meson in_set_dropD)
    ultimately show ?thesis using None "1.prems"(2) by (subst (1 2 3) remove_loop.simps) simp
  next
    case (Some j)
    define fs' where "fs' = take j fs @ drop (Suc j) fs"
    define idx' where "idx' = (if int j \<le> idx then idx - 1 else idx)"
    have j: "i \<le> j" "j < length fs" "fs ! j = f" using in_array_from_Some[OF Some] by auto
    have step: "remove_loop f i fs idx = remove_loop f j fs' idx'"
      using Some by (subst remove_loop.simps) (simp add: fs'_def idx'_def)
    have fresh: "f \<notin> set (take j fs')"
    proof -
      have "take j fs = take i fs @ take (j - i) (drop i fs)" using j(1) by (metis le_add_diff_inverse take_add)
      then show ?thesis using "1.prems"(1) in_array_from_first[OF Some] j by (simp add: fs'_def)
    qed
    have low: "- 1 \<le> idx'" using "1.prems"(2) by (auto simp: idx'_def)
    have rest: "removeAll f (drop (nat (idx' + 1)) fs') = removeAll f (drop (nat (idx + 1)) fs)"
    proof (cases "int j \<le> idx")
      case True
      then have "nat (idx + 1) = Suc (nat (idx' + 1))" "j \<le> nat (idx' + 1)" by (auto simp: idx'_def)
      then show ?thesis using drop_delete_after[OF _ j(2)] by (simp add: fs'_def)
    next
      case False
      then show ?thesis using removeAll_drop_delete[OF _ j(2,3), of "nat (idx + 1)"] by (simp add: idx'_def fs'_def)
    qed
    have all: "removeAll f fs' = removeAll f fs" unfolding fs'_def by (rule removeAll_delete_at[OF j(2,3)])
    from "1.IH"[OF Some, folded fs'_def idx'_def, OF fresh low] rest all step show ?thesis by simp
  qed
qed

lemma entries_update [simp]:
  "entries (s\<lparr>firingIndex := i\<rparr>) = entries s" "entries (s\<lparr>memory := v\<rparr>) = entries s" "entries (s\<lparr>queue := q\<rparr>) = entries s"
  "entries (s\<lparr>firing := b\<rparr>) = entries s" "entries (s\<lparr>fired := b\<rparr>) = entries s" "entries (s\<lparr>locked := b\<rparr>) = entries s"
  "entries (s\<lparr>cb_list := Some fs\<rparr>) = fs" "entries (s\<lparr>cb_list := None\<rparr>) = []"
  by (simp_all add: entries_def)

definition to_call :: "'v callbacks \<Rightarrow> nat list" where
  "to_call s = drop (nat (firingIndex s + 1)) (entries s)"

lemma cb_remove_exact:
  assumes "- 1 \<le> firingIndex s"
  shows "entries (cb_remove args s) = filter (\<lambda>f. f \<notin> set args) (entries s)
    \<and> to_call (cb_remove args s) = filter (\<lambda>f. f \<notin> set args) (to_call s) \<and> - 1 \<le> firingIndex (cb_remove args s)"
  using assms
proof (induction args s rule: cb_remove.induct)
  case (2 f args s)
  obtain fs idx where loop: "remove_loop f 0 (entries s) (firingIndex s) = (fs, idx)" by fastforce
  define s' where "s' = s\<lparr>cb_list := map_option (\<lambda>_. fs) (cb_list s), firingIndex := idx\<rparr>"
  have r: "fs = removeAll f (entries s)" "- 1 \<le> idx" "drop (nat (idx + 1)) fs = removeAll f (to_call s)"
    using remove_loop_exact[of f 0 "entries s" "firingIndex s"] 2(2) by (auto simp: loop to_call_def)
  have e: "entries s' = fs" using r(1) by (cases "cb_list s") (simp_all add: s'_def entries_def)
  have c: "to_call s' = removeAll f (to_call s)" using e r(3) by (simp add: to_call_def[of s']) (simp add: s'_def)
  have step: "cb_remove (f # args) s = cb_remove args s'" by (simp add: loop s'_def)
  have "- 1 \<le> firingIndex s'" using r(2) by (simp add: s'_def)
  from 2(1)[unfolded loop Let_def prod.case, folded s'_def, OF this] step e c r(1) show ?case
    by (auto simp: removeAll_filter_not_eq filter_filter intro: filter_cong)
qed simp

text \<open>
  \<open>remove\<close> called by a callback of a firing list: the list and the callbacks that are still to be called lose exactly
  the removed ones, none is skipped and none is called twice.
\<close>

theorem remove_keeps_position:
  assumes "- 1 \<le> firingIndex s"
  shows "entries (inner_ops opts [Remove args] s) = filter (\<lambda>f. f \<notin> set args) (entries s)
    \<and> to_call (inner_ops opts [Remove args] s) = filter (\<lambda>f. f \<notin> set args) (to_call s)"
  using cb_remove_exact[OF assms, of args] by (simp add: inner_ops_def)

subsection \<open>Callbacks that leave their list alone\<close>

text \<open>The calls that one firing makes, with a value, until a callback stops it: the world and whether all were called.\<close>

fun call_all :: "('v, 'w) behaviour \<Rightarrow> bool \<Rightarrow> 'v \<Rightarrow> nat list \<Rightarrow> 'w \<Rightarrow> 'w \<times> bool" where
  "call_all beh stop v [] w = (w, True)"
| "call_all beh stop v (f # fs) w =
     (case beh w f (Some v) of (w', _, outcome) \<Rightarrow> if outcome = ReturnsFalse \<and> stop then (w', False) else call_all beh stop v fs w')"

definition quiet :: "('v, 'w) behaviour \<Rightarrow> bool" where
  "quiet beh \<longleftrightarrow> (\<forall>w f v. fst (snd (beh w f v)) = [] \<and> snd (snd (beh w f v)) \<noteq> Throws)"

lemma fire_list_done: "int (length (entries s)) \<le> firingIndex s + 1 \<Longrightarrow>
  fire_list beh opts s w = Some (s\<lparr>firingIndex := firingIndex s + 1\<rparr>, w, False)"
  by (subst fire_list.simps) simp

lemma fire_list_quiet:
  assumes "quiet beh" "memory s = Some v" "- 1 \<le> firingIndex s"
  shows "\<exists>i. fire_list beh opts s w =
    (case call_all beh (stopOnFalse opts) v (to_call s) w of
       (w', completed) \<Rightarrow> Some (s\<lparr>firingIndex := i, memory := (if completed then Some v else None)\<rparr>, w', False))"
  using assms(2,3)
proof (induction "to_call s" arbitrary: s w)
  case Nil
  then have "fire_list beh opts s w = Some (s\<lparr>firingIndex := firingIndex s + 1\<rparr>, w, False)"
    by (intro fire_list_done) (simp add: to_call_def)
  with Nil show ?case by (auto intro!: exI[of _ "firingIndex s + 1"])
next
  case (Cons f fs)
  let ?s = "s\<lparr>firingIndex := firingIndex s + 1\<rparr>"
  define n where "n = nat (firingIndex s + 1)"
  have drop: "drop n (entries s) = f # fs" using Cons(2) by (simp add: to_call_def n_def)
  then have n: "n < length (entries s)" by (metis drop_all leI list.distinct(1))
  have f: "entries s ! n = f" using drop by (rule nth_via_drop)
  have "drop (Suc n) (entries s) = fs" using drop Cons_nth_drop_Suc[OF n] f by simp
  moreover have "nat (firingIndex s + 1 + 1) = Suc n" using Cons(4) by (simp add: n_def)
  ultimately have fs: "fs = to_call ?s" by (simp add: to_call_def)
  obtain w' out where beh: "beh w f (Some v) = (w', [], out)" "out \<noteq> Throws"
    using assms(1) unfolding quiet_def by (metis prod.collapse)
  have "firingIndex s + 1 < int (length (entries s))" using n Cons(4) by (simp add: n_def)
  then have step: "fire_list beh opts s w =
      (if out = ReturnsFalse \<and> stopOnFalse opts
       then fire_list beh opts (?s\<lparr>firingIndex := int (length (entries s)), memory := None\<rparr>) w'
       else fire_list beh opts ?s w')"
    using f beh Cons(3) by (subst fire_list.simps) (simp add: inner_ops_def n_def[symmetric] Let_def)
  show ?case
  proof (cases "out = ReturnsFalse \<and> stopOnFalse opts")
    case True
    then show ?thesis using step beh Cons(2)
      by (simp add: fire_list_done) (auto simp: Cons(2)[symmetric] intro!: exI[of _ "int (length (entries s)) + 1"])
  next
    case False
    have "memory ?s = Some v" "- 1 \<le> firingIndex ?s" using Cons(3,4) by simp_all
    from Cons(1)[OF fs this, of w'] obtain i where
      "fire_list beh opts ?s w' = (case call_all beh (stopOnFalse opts) v (to_call ?s) w' of
        (w'', completed) \<Rightarrow> Some (?s\<lparr>firingIndex := i, memory := (if completed then Some v else None)\<rparr>, w'', False))" by blast
    then show ?thesis using step False beh Cons(2) fs
      by (auto simp: Cons(2)[symmetric] split: prod.splits intro!: exI[of _ i])
  qed
qed

text \<open>One firing of an idle list: it calls what is to be called, and what is left depends on the options.\<close>

definition after_fire :: "cb_options \<Rightarrow> 'v \<Rightarrow> bool \<Rightarrow> 'v callbacks \<Rightarrow> 'v callbacks" where
  "after_fire opts v completed s =
     finish_fire opts (s\<lparr>locked := locked s \<or> once opts, fired := True, firing := True, queue := [],
       memory := (if completed then Some v else None), firingIndex := - 1\<rparr>)"

lemma fire_quiet:
  assumes "quiet beh" "queue s = [v]" "- 1 \<le> firingIndex s"
  shows "fire beh opts s w =
    (case call_all beh (stopOnFalse opts) v (to_call s) w of (w', completed) \<Rightarrow> Some (after_fire opts v completed s, w', False))"
proof -
  let ?s = "s\<lparr>locked := locked s \<or> once opts, fired := True, firing := True, memory := Some v, queue := []\<rparr>"
  have c: "to_call ?s = to_call s" by (simp add: to_call_def)
  obtain w' completed where call: "call_all beh (stopOnFalse opts) v (to_call s) w = (w', completed)" by fastforce
  from fire_list_quiet[of beh ?s v opts w] assms c call obtain i where
    "fire_list beh opts ?s w = Some (?s\<lparr>firingIndex := i, memory := (if completed then Some v else None)\<rparr>, w', False)" by auto
  then show ?thesis using assms(2) call
    by (simp add: fire_def fire_queue.simps[of _ _ "s\<lparr>locked := _, fired := _, firing := _\<rparr>"] fire_queue.simps after_fire_def)
qed

subsection \<open>Lists that are fired once and remember\<close>

text \<open>What such a list promises: it is pending with its callbacks, or settled with a value, or spent.\<close>

datatype 'v promise = Pending "nat list" | Settled 'v | Spent

fun promise_step :: "('v, 'w) behaviour \<Rightarrow> 'v cb_op \<Rightarrow> 'v promise \<Rightarrow> 'w \<Rightarrow> 'v promise \<times> 'w" where
  "promise_step beh (Add as) (Pending fs) w = (Pending (fs @ concat (map arg_functions as)), w)"
| "promise_step beh (Add as) (Settled v) w = (Settled v, fst (call_all beh False v (concat (map arg_functions as)) w))"
| "promise_step beh (Remove rs) (Pending fs) w = (Pending (filter (\<lambda>f. f \<notin> set rs) fs), w)"
| "promise_step beh Empty (Pending fs) w = (Pending [], w)"
| "promise_step beh (FireWith v) (Pending fs) w = (Settled v, fst (call_all beh False v fs w))"
| "promise_step beh Lock (Pending fs) w = (Spent, w)"
| "promise_step beh Disable p w = (Spent, w)"
| "promise_step beh oper p w = (p, w)"

definition once_memory :: cb_options where
  "once_memory = options_of (createOptions ''once memory'')"

lemma once_memory_flags [simp]: "once once_memory" "opt_memory once_memory" "\<not> unique once_memory" "\<not> stopOnFalse once_memory"
  by (simp_all add: once_memory_def options_of_def createOptions_def html_white_def)

definition promise_of :: "'v callbacks \<Rightarrow> 'v promise" where
  "promise_of s = (if cb_list s = None then Spent else case memory s of None \<Rightarrow> Pending (entries s) | Some v \<Rightarrow> Settled v)"

definition once_ok :: "'v callbacks \<Rightarrow> bool" where
  "once_ok s \<longleftrightarrow> \<not> firing s \<and> queue s = [] \<and> firingIndex s = - 1
     \<and> (cb_list s = None \<longrightarrow> memory s = None \<and> locked s)
     \<and> (memory s = None \<and> cb_list s \<noteq> None \<longrightarrow> \<not> locked s)
     \<and> (memory s \<noteq> None \<longrightarrow> locked s \<and> fired s \<and> cb_list s = Some [])"

lemma once_ok_cases:
  assumes "once_ok s"
  obtains (pending) fs where "cb_list s = Some fs" "memory s = None" "\<not> locked s" "promise_of s = Pending fs"
  | (settled) v where "cb_list s = Some []" "memory s = Some v" "locked s" "fired s" "promise_of s = Settled v"
  | (spent) "cb_list s = None" "memory s = None" "locked s" "promise_of s = Spent"
  using assms by (cases "cb_list s"; cases "memory s") (auto simp: once_ok_def promise_of_def entries_def)

lemma call_all_completes: "snd (call_all beh False v fs w)"
  by (induction fs arbitrary: w) (auto split: prod.split)

lemma call_all_False: "call_all beh False v fs w = (fst (call_all beh False v fs w), True)"
  using call_all_completes[of beh v fs w] by (metis prod.collapse)

lemma cb_remove_fields [simp]:
  "firing (cb_remove fs s) = firing s" "memory (cb_remove fs s) = memory s" "queue (cb_remove fs s) = queue s"
  "locked (cb_remove fs s) = locked s" "fired (cb_remove fs s) = fired s" "(cb_list (cb_remove fs s) = None) = (cb_list s = None)"
  by (induction fs s rule: cb_remove.induct) (simp_all add: Let_def split: prod.splits)

text \<open>
  The interface that the users of such lists rely on: every operation takes a step of the promise, and returns.
  A list is used through a function that calls its operations.
\<close>

locale settle_once =
  fixes call :: "('v, 'w) behaviour \<Rightarrow> 'v cb_op \<Rightarrow> 's \<Rightarrow> 'w \<Rightarrow> ('s \<times> 'w \<times> bool) option"
    and abs :: "'s \<Rightarrow> 'v promise" and invar :: "'s \<Rightarrow> bool"
  assumes step: "invar s \<Longrightarrow> quiet beh \<Longrightarrow>
    \<exists>s'. call beh oper s w = Some (s', snd (promise_step beh oper (abs s) w), False)
      \<and> invar s' \<and> abs s' = fst (promise_step beh oper (abs s) w)"
begin

fun calls :: "('v, 'w) behaviour \<Rightarrow> 'v cb_op list \<Rightarrow> 's \<Rightarrow> 'w \<Rightarrow> ('s \<times> 'w \<times> bool) option" where
  "calls beh [] s w = Some (s, w, False)"
| "calls beh (oper # ops) s w =
     Option.bind (call beh oper s w) (\<lambda>(s', w', threw). if threw then Some (s', w', True) else calls beh ops s' w')"

fun steps :: "('v, 'w) behaviour \<Rightarrow> 'v cb_op list \<Rightarrow> 'v promise \<Rightarrow> 'w \<Rightarrow> 'v promise \<times> 'w" where
  "steps beh [] p w = (p, w)"
| "steps beh (oper # ops) p w = (case promise_step beh oper p w of (p', w') \<Rightarrow> steps beh ops p' w')"

lemma calls_refine:
  assumes "invar s" "quiet beh"
  shows "\<exists>s'. calls beh ops s w = Some (s', snd (steps beh ops (abs s) w), False) \<and> invar s' \<and> abs s' = fst (steps beh ops (abs s) w)"
  using assms(1)
proof (induction ops arbitrary: s w)
  case (Cons oper ops)
  from step[OF Cons.prems assms(2), of oper w] obtain s1 where
    "call beh oper s w = Some (s1, snd (promise_step beh oper (abs s) w), False)" "invar s1"
    "abs s1 = fst (promise_step beh oper (abs s) w)" by blast
  with Cons.IH[of s1 "snd (promise_step beh oper (abs s) w)"] show ?case by (simp add: case_prod_beta)
qed simp

text \<open>A settled promise keeps its value for good, unless it is disabled.\<close>

lemma settled_for_good: "fst (steps beh ops (Settled v) w) \<in> {Settled v, Spent}"
proof (induction ops arbitrary: w)
  case (Cons oper ops)
  have spent: "fst (steps beh ops Spent w) = Spent" for w
  proof (induction ops arbitrary: w)
    case (Cons oper ops)
    then show ?case by (cases oper) (simp_all add: case_prod_beta)
  qed simp
  show ?case using Cons spent by (cases oper) (simp_all add: case_prod_beta)
qed simp

end

lemma remove_loop_idle: "remove_loop f i fs (- 1) = (fst (remove_loop f i fs (- 1)), - 1)"
proof (induction f i fs "- 1 :: int" rule: remove_loop.induct)
  case (1 f i fs)
  show ?case
  proof (cases "in_array_from f fs i")
    case None
    then show ?thesis by (subst (1 2) remove_loop.simps) simp
  next
    case (Some j)
    with 1[OF Some] show ?thesis by (subst (1 2) remove_loop.simps) simp
  qed
qed

lemma cb_remove_idle: "firingIndex s = - 1 \<Longrightarrow> firingIndex (cb_remove rs s) = - 1"
proof (induction rs s rule: cb_remove.induct)
  case (2 f rs s)
  obtain fs idx where loop: "remove_loop f 0 (entries s) (firingIndex s) = (fs, idx)" by fastforce
  with remove_loop_idle[of f 0 "entries s"] 2(2) have "idx = - 1" by simp
  with 2 loop show ?case by simp
qed simp

lemma once_step:
  assumes ok: "once_ok s" and quiet: "quiet beh"
  shows "\<exists>s'. cb_call beh once_memory oper s w = Some (s', snd (promise_step beh oper (promise_of s) w), False)
    \<and> once_ok s' \<and> promise_of s' = fst (promise_step beh oper (promise_of s) w)"
  using ok
proof (cases rule: once_ok_cases)
  case (pending fs)
  then have e: "entries s = fs" and idle: "\<not> firing s" "queue s = []" "firingIndex s = - 1"
    using ok by (simp_all add: entries_def once_ok_def)
  show ?thesis
  proof (cases oper)
    case (Remove rs)
    have "entries (cb_remove rs s) = filter (\<lambda>f. f \<notin> set rs) fs" "firingIndex (cb_remove rs s) = - 1"
      using cb_remove_exact[of s rs] idle e cb_remove_idle[of s rs] by simp_all
    with Remove pending idle show ?thesis by (auto simp: cb_call_def once_ok_def promise_of_def)
  next
    case (FireWith v)
    have "to_call (s\<lparr>queue := [v]\<rparr>) = fs" using e idle by (simp add: to_call_def)
    with fire_quiet[OF quiet, of "s\<lparr>queue := [v]\<rparr>" v once_memory w] call_all_False[of beh v fs w]
    have "fire beh once_memory (s\<lparr>queue := [v]\<rparr>) w
        = Some (after_fire once_memory v True (s\<lparr>queue := [v]\<rparr>), fst (call_all beh False v fs w), False)"
      using idle by (simp split: prod.splits)
    with FireWith pending idle show ?thesis
      by (simp add: cb_call_def fire_entry_def after_fire_def finish_fire_def once_ok_def promise_of_def)
  qed (use pending idle e in \<open>auto simp: cb_call_def add_entry_def cb_empty_def cb_disable_def cb_lock_def once_ok_def promise_of_def
        add_args_append Let_def\<close>)
next
  case (settled v)
  then have idle: "\<not> firing s" "queue s = []" "firingIndex s = - 1" using ok by (simp_all add: once_ok_def)
  show ?thesis
  proof (cases oper)
    case (Add as)
    define fs where "fs = concat (map arg_functions as)"
    let ?s = "s\<lparr>firingIndex := - 1, queue := [v], cb_list := Some fs\<rparr>"
    have "to_call ?s = fs" by (simp add: to_call_def)
    with fire_quiet[OF quiet, of ?s v once_memory w] call_all_False[of beh v fs w]
    have "fire beh once_memory ?s w = Some (after_fire once_memory v True ?s, fst (call_all beh False v fs w), False)"
      by (simp split: prod.splits)
    with Add settled idle show ?thesis
      by (simp add: cb_call_def add_entry_def add_args_append fs_def after_fire_def finish_fire_def once_ok_def promise_of_def Let_def)
  next
    case (Remove rs)
    with settled idle cb_remove_exact[of s rs] cb_remove_idle[of s rs] show ?thesis
      by (cases "cb_list (cb_remove rs s)") (auto simp: cb_call_def once_ok_def promise_of_def entries_def)
  qed (use settled idle ok in \<open>auto simp: cb_call_def fire_entry_def cb_empty_def cb_disable_def cb_lock_def once_ok_def promise_of_def Let_def\<close>)
next
  case spent
  show ?thesis
    using spent ok by (cases oper)
      (auto simp: cb_call_def add_entry_def fire_entry_def cb_empty_def cb_disable_def cb_lock_def once_ok_def promise_of_def cb_remove_idle Let_def)
qed

interpretation once_memory: settle_once "\<lambda>beh oper. cb_call beh once_memory oper" promise_of once_ok
  by unfold_locales (rule once_step)

lemma Callbacks_once_ok: "once_ok Callbacks" "promise_of Callbacks = Pending []"
  by (simp_all add: once_ok_def Callbacks_def promise_of_def entries_def)

fun cb_calls ::
  "('v, 'w) behaviour \<Rightarrow> cb_options \<Rightarrow> 'v cb_op list \<Rightarrow> 'v callbacks \<Rightarrow> 'w \<Rightarrow> ('v callbacks \<times> 'w \<times> bool) option" where
  "cb_calls beh opts [] s w = Some (s, w, False)"
| "cb_calls beh opts (oper # ops) s w =
     Option.bind (cb_call beh opts oper s w) (\<lambda>(s', w', threw). if threw then Some (s', w', True) else cb_calls beh opts ops s' w')"

fun promise_steps :: "('v, 'w) behaviour \<Rightarrow> 'v cb_op list \<Rightarrow> 'v promise \<Rightarrow> 'w \<Rightarrow> 'v promise \<times> 'w" where
  "promise_steps beh [] p w = (p, w)"
| "promise_steps beh (oper # ops) p w = (case promise_step beh oper p w of (p', w') \<Rightarrow> promise_steps beh ops p' w')"

lemma once_memory_calls: "once_memory.calls beh ops s w = cb_calls beh once_memory ops s w"
  by (induction ops arbitrary: s w) (auto intro!: bind_option_cong)

lemma once_memory_steps: "once_memory.steps beh ops p w = promise_steps beh ops p w"
  by (induction ops arbitrary: p w) (simp_all add: case_prod_beta)

text \<open>
  C15. A list made with \<open>once memory\<close> implements a promise: with callbacks that leave the list alone, every
  sequence of operations returns, and its state and the calls it makes are those of the promise, which calls
  every added callback once, with the value of the first firing, at once when it is added later.
\<close>

theorem callbacks_refine_promise:
  assumes "quiet beh"
  shows "\<exists>s. cb_calls beh once_memory ops Callbacks w = Some (s, snd (promise_steps beh ops (Pending []) w), False)
    \<and> promise_of s = fst (promise_steps beh ops (Pending []) w)"
  using once_memory.calls_refine[OF Callbacks_once_ok(1) assms, of ops w]
  by (auto simp: once_memory_calls once_memory_steps Callbacks_once_ok(2))

text \<open>The value of a settled promise does not change.\<close>

theorem settled_value_kept:
  assumes "quiet beh" "once_ok s" "memory s = Some v"
  shows "\<exists>s' w'. cb_calls beh once_memory ops s w = Some (s', w', False) \<and> (memory s' = Some v \<or> cb_disabled s')"
proof -
  have p: "promise_of s = Settled v" using assms(2,3) by (auto simp: promise_of_def once_ok_def)
  from once_memory.calls_refine[OF assms(2,1), of ops w] obtain s' where
    s': "cb_calls beh once_memory ops s w = Some (s', snd (promise_steps beh ops (Settled v) w), False)" "once_ok s'"
    "promise_of s' = fst (promise_steps beh ops (Settled v) w)" by (auto simp: p once_memory_calls once_memory_steps)
  with once_memory.settled_for_good[of beh ops v w] have "promise_of s' \<in> {Settled v, Spent}" by (simp add: once_memory_steps)
  with s' show ?thesis by (auto simp: promise_of_def cb_disabled_def split: if_splits option.splits)
qed

subsection \<open>Callbacks that throw\<close>

text \<open>
  A callback that throws leaves the list in the middle of its firing: the flag \<open>firing\<close> stays set, the
  callbacks after it are not called, and every later firing only adds to the queue.
\<close>

lemma fire_list_throws:
  assumes "beh w f (Some v) = (w', [], Throws)" "entries s = f # fs" "memory s = Some v" "firingIndex s = - 1"
  shows "fire_list beh opts s w = Some (s\<lparr>firingIndex := 0\<rparr>, w', True)"
  using assms by (subst fire_list.simps) (simp add: inner_ops_def)

theorem throw_blocks_list:
  assumes "beh w f (Some v) = (w', [], Throws)" "entries s = f # fs" "\<not> locked s" "\<not> firing s" "queue s = []" "firingIndex s = - 1"
    "\<not> once opts"
  shows "\<exists>s'. cb_call beh opts (FireWith v) s w = Some (s', w', True)
    \<and> (\<forall>u w2. cb_call beh opts (FireWith u) s' w2 = Some (s'\<lparr>queue := [u]\<rparr>, w2, False))"
proof -
  define s0 where "s0 = s\<lparr>queue := [v], locked := False, fired := True, firing := True, memory := Some v, queue := []\<rparr>"
  have "fire_list beh opts s0 w = Some (s0\<lparr>firingIndex := 0\<rparr>, w', True)"
    by (rule fire_list_throws) (use assms in \<open>simp_all add: s0_def\<close>)
  then have "cb_call beh opts (FireWith v) s w = Some (s0\<lparr>firingIndex := 0\<rparr>, w', True)"
    using assms(3-5,7) by (simp add: cb_call_def fire_entry_def fire_def fire_queue.simps s0_def)
  then show ?thesis by (auto simp: cb_call_def fire_entry_def s0_def)
qed

subsection \<open>Callbacks that use their own list\<close>

text \<open>The state while the list fires, and between calls from outside.\<close>

definition fire_ok :: "cb_options \<Rightarrow> 'v callbacks \<Rightarrow> bool" where
  "fire_ok opts s \<longleftrightarrow> firing s \<and> fired s \<and> - 1 \<le> firingIndex s \<and> (unique opts \<longrightarrow> distinct (entries s)) \<and> (once opts \<longrightarrow> locked s)
     \<and> (cb_list s = None \<longrightarrow> locked s \<and> queue s = [] \<and> memory s = None)"

definition cb_ok :: "cb_options \<Rightarrow> 'v callbacks \<Rightarrow> bool" where
  "cb_ok opts s \<longleftrightarrow> \<not> firing s \<and> queue s = [] \<and> firingIndex s = - 1 \<and> (unique opts \<longrightarrow> distinct (entries s))
     \<and> (once opts \<and> fired s \<longrightarrow> locked s) \<and> (memory s \<noteq> None \<longrightarrow> opt_memory opts \<and> fired s)
     \<and> (cb_list s = None \<longleftrightarrow> locked s \<and> memory s = None)"

lemma op_while_firing:
  assumes "fire_ok opts s"
  shows "fire_ok opts (fst (op_entry opts oper s))" "\<not> snd (op_entry opts oper s)"
proof -
  show "fire_ok opts (fst (op_entry opts oper s))"
  proof (cases oper)
    case (Add as)
    then show ?thesis using assms add_args_distinct
      by (auto simp: fire_ok_def add_entry_def Let_def entries_def split: option.splits)
  next
    case (Remove rs)
    then show ?thesis using assms cb_remove_exact[of s rs] by (auto simp: fire_ok_def)
  qed (use assms in \<open>auto simp: fire_ok_def cb_empty_def cb_disable_def cb_lock_def fire_entry_def Let_def\<close>)
  show "\<not> snd (op_entry opts oper s)"
    using assms by (cases oper) (auto simp: fire_ok_def add_entry_def fire_entry_def Let_def split: option.splits)
qed

lemma inner_ops_ok: "fire_ok opts s \<Longrightarrow> fire_ok opts (inner_ops opts ops s)"
  unfolding inner_ops_def by (induction ops arbitrary: s) (simp_all add: op_while_firing)

lemma fire_list_ok:
  assumes "fire_list beh opts s w = Some r" "fire_ok opts s"
  shows "fire_ok opts (fst r)"
proof -
  have "fire_ok opts s \<longrightarrow> fire_ok opts (fst r)"
  proof (rule fire_list.raw_induct[where P = "\<lambda>beh opts s w r. fire_ok opts s \<longrightarrow> fire_ok opts (fst r)", OF _ assms(1)], intro impI)
    fix rec :: "('a, 'b) behaviour \<Rightarrow> cb_options \<Rightarrow> 'a callbacks \<Rightarrow> 'b \<Rightarrow> ('a callbacks \<times> 'b \<times> bool) option"
    fix beh :: "('a, 'b) behaviour" and opts s w r
    assume ih: "\<And>beh opts s w r. rec beh opts s w = Some r \<Longrightarrow> fire_ok opts s \<longrightarrow> fire_ok opts (fst r)"
    assume body: "(let s1 = s\<lparr>firingIndex := firingIndex s + 1\<rparr>
          in if firingIndex s1 < int (length (entries s1))
             then case beh w (entries s1 ! nat (firingIndex s1)) (memory s1) of
                    (w', ops, outcome) \<Rightarrow>
                      let s2 = inner_ops opts ops s1
                      in if outcome = Throws then Some (s2, w', True)
                         else if outcome = ReturnsFalse \<and> stopOnFalse opts
                         then rec beh opts (s2\<lparr>firingIndex := int (length (entries s2)), memory := None\<rparr>) w'
                         else rec beh opts s2 w'
             else Some (s1, w, False)) = Some r"
    assume "fire_ok opts s"
    let ?s = "s\<lparr>firingIndex := firingIndex s + 1\<rparr>"
    have ok: "fire_ok opts ?s" using \<open>fire_ok opts s\<close> by (auto simp: fire_ok_def)
    obtain w' ops out where beh: "beh w (entries ?s ! nat (firingIndex ?s)) (memory ?s) = (w', ops, out)" by (metis prod.collapse)
    define s2 where "s2 = inner_ops opts ops ?s"
    define s3 where "s3 = s2\<lparr>firingIndex := int (length (entries s2)), memory := None\<rparr>"
    have s2: "fire_ok opts s2" unfolding s2_def by (rule inner_ops_ok[OF ok])
    have s3: "fire_ok opts s3" using s2 by (auto simp: fire_ok_def s3_def)
    have "r = (?s, w, False) \<or> r = (s2, w', True) \<or> rec beh opts s3 w' = Some r \<or> rec beh opts s2 w' = Some r"
      using body beh unfolding Let_def s3_def s2_def by (auto split: if_splits)
    then show "fire_ok opts (fst r)" using ih s2 s3 ok by fastforce
  qed
  with assms(2) show ?thesis by simp
qed

lemma fire_queue_ok:
  assumes "fire_queue beh opts s w = Some r" "fire_ok opts s" "queue s \<noteq> []"
  shows "fire_ok opts (fst r) \<and> (\<not> snd (snd r) \<longrightarrow> queue (fst r) = [] \<and> firingIndex (fst r) = - 1)"
proof -
  define P where "P = (\<lambda>(opts :: cb_options) (s :: 'a callbacks) (r :: 'a callbacks \<times> 'b \<times> bool).
    fire_ok opts s \<and> (queue s = [] \<longrightarrow> firingIndex s = - 1)
      \<longrightarrow> fire_ok opts (fst r) \<and> (\<not> snd (snd r) \<longrightarrow> queue (fst r) = [] \<and> firingIndex (fst r) = - 1))"
  have "P opts s r"
  proof (rule fire_queue.raw_induct[where P = "\<lambda>beh opts s w r. P opts s r", OF _ assms(1)])
    fix rec :: "('a, 'b) behaviour \<Rightarrow> cb_options \<Rightarrow> 'a callbacks \<Rightarrow> 'b \<Rightarrow> ('a callbacks \<times> 'b \<times> bool) option"
    fix beh :: "('a, 'b) behaviour" and opts s w r
    assume ih: "\<And>beh opts s w r. rec beh opts s w = Some r \<Longrightarrow> P opts s r"
    assume body: "(case queue s of [] \<Rightarrow> Some (s, w, False)
        | v # vs \<Rightarrow> Option.bind (fire_list beh opts (s\<lparr>memory := Some v, queue := vs\<rparr>) w)
            (\<lambda>(s1, w1, threw). if threw then Some (s1, w1, True) else rec beh opts (s1\<lparr>firingIndex := - 1\<rparr>) w1)) = Some r"
    show "P opts s r"
    proof (cases "queue s")
      case (Cons v vs)
      from body Cons obtain s1 w1 threw where
        l: "fire_list beh opts (s\<lparr>memory := Some v, queue := vs\<rparr>) w = Some (s1, w1, threw)"
        and r: "if threw then r = (s1, w1, True) else rec beh opts (s1\<lparr>firingIndex := - 1\<rparr>) w1 = Some r"
        by (auto simp: bind_eq_Some_conv split: if_splits)
      show ?thesis unfolding P_def
      proof (intro impI, elim conjE)
        assume "fire_ok opts s"
        then have "fire_ok opts (s\<lparr>memory := Some v, queue := vs\<rparr>)" using Cons by (auto simp: fire_ok_def)
        from fire_list_ok[OF l this] have s1: "fire_ok opts s1" by simp
        then have "fire_ok opts (s1\<lparr>firingIndex := - 1\<rparr>)" by (auto simp: fire_ok_def)
        with r s1 ih[of beh opts "s1\<lparr>firingIndex := - 1\<rparr>" w1 r]
        show "fire_ok opts (fst r) \<and> (\<not> snd (snd r) \<longrightarrow> queue (fst r) = [] \<and> firingIndex (fst r) = - 1)"
          by (auto simp: P_def split: if_splits)
      qed
    qed (use body in \<open>auto simp: P_def\<close>)
  qed
  with assms(2,3) show ?thesis by (simp add: P_def)
qed

lemma fire_cb_ok:
  assumes "fire beh opts s w = Some (s', w', False)" "\<not> firing s" "queue s \<noteq> []" "- 1 \<le> firingIndex s" "cb_list s \<noteq> None"
    "unique opts \<longrightarrow> distinct (entries s)"
  shows "cb_ok opts s'"
proof -
  let ?s = "s\<lparr>locked := locked s \<or> once opts, fired := True, firing := True\<rparr>"
  have ok: "fire_ok opts ?s" using assms(4-6) by (auto simp: fire_ok_def)
  from assms(1) obtain s1 where q: "fire_queue beh opts ?s w = Some (s1, w', False)" and s': "s' = finish_fire opts s1"
    by (auto simp: fire_def bind_eq_Some_conv split: if_splits)
  from fire_queue_ok[OF q ok] assms(3) have "fire_ok opts s1" "queue s1 = []" "firingIndex s1 = - 1" by simp_all
  then show ?thesis by (auto simp: s' finish_fire_def fire_ok_def cb_ok_def Let_def)
qed

lemma cb_simple_ok:
  assumes "cb_ok opts s"
  shows "cb_ok opts (cb_empty s)" "cb_ok opts (cb_disable s)" "cb_ok opts (cb_lock s)"
proof -
  show "cb_ok opts (cb_empty s)" using assms by (cases "cb_list s") (simp_all add: cb_ok_def cb_empty_def)
  show "cb_ok opts (cb_disable s)" using assms by (simp add: cb_ok_def cb_disable_def)
  show "cb_ok opts (cb_lock s)" using assms by (cases "memory s") (simp_all add: cb_ok_def cb_lock_def Let_def)
qed

text \<open>
  C16. The invariant of a list of callbacks, for callbacks that may use their own list in every way: after every
  call from outside that returns without an exception, the list is idle with an empty queue, \<open>unique\<close> keeps it without
  duplicates, \<open>once\<close> has locked it when it has fired, only \<open>memory\<close> remembers a value, and a spent list is
  locked and remembers nothing.
\<close>

theorem callbacks_invariant:
  assumes "cb_ok opts s" "cb_call beh opts oper s w = Some (s', w', False)"
  shows "cb_ok opts s'"
proof (cases "snd (op_entry opts oper s)")
  case True
  define s1 where "s1 = fst (op_entry opts oper s)"
  have fire: "fire beh opts s1 w = Some (s', w', False)"
    using assms(2) True by (simp add: cb_call_def s1_def split: prod.splits)
  have ok: "\<not> firing s1 \<and> queue s1 \<noteq> [] \<and> - 1 \<le> firingIndex s1 \<and> cb_list s1 \<noteq> None \<and> (unique opts \<longrightarrow> distinct (entries s1))"
  proof (cases oper)
    case (Add as)
    with True obtain fs v where l: "cb_list s = Some fs" "memory s = Some v" "\<not> firing s"
      by (cases "cb_list s"; cases "memory s") (simp_all add: add_entry_def Let_def split: if_splits)
    then have "s1 = s\<lparr>firingIndex := int (length fs) - 1, queue := queue s @ [v], cb_list := Some (add_args (unique opts) as fs)\<rparr>"
      using Add by (simp add: s1_def add_entry_def Let_def)
    moreover have "unique opts \<longrightarrow> distinct (add_args (unique opts) as fs)"
      using assms(1) l(1) add_args_distinct[of fs as] by (simp add: cb_ok_def entries_def)
    ultimately show ?thesis using l(3) by simp
  next
    case (FireWith v)
    with True have "\<not> locked s" "s1 = s\<lparr>queue := queue s @ [v]\<rparr>"
      by (simp_all add: s1_def fire_entry_def split: if_splits)
    moreover from this have "\<not> firing s \<and> firingIndex s = - 1 \<and> cb_list s \<noteq> None \<and> (unique opts \<longrightarrow> distinct (entries s))"
      using assms(1) unfolding cb_ok_def by blast
    ultimately show ?thesis by simp
  qed (use True in simp_all)
  show ?thesis using fire_cb_ok[OF fire] ok by simp
next
  case False
  then have s': "s' = fst (op_entry opts oper s)" using assms(2) by (simp add: cb_call_def split: prod.splits)
  show ?thesis
  proof (cases oper)
    case (Add as)
    have idle: "\<not> firing s" using assms(1) by (simp add: cb_ok_def)
    show ?thesis
    proof (cases "cb_list s")
      case (Some fs)
      with False Add idle have m: "memory s = None" by (cases "memory s") (simp_all add: add_entry_def Let_def)
      with Some Add s' idle have "s' = s\<lparr>cb_list := Some (add_args (unique opts) as fs)\<rparr>" by (simp add: add_entry_def)
      then show ?thesis using assms(1) Some m add_args_distinct[of fs as] by (auto simp: cb_ok_def entries_def)
    qed (use Add s' assms(1) in \<open>simp add: add_entry_def\<close>)
  next
    case (Remove rs)
    have idle: "firingIndex s = - 1" using assms(1) by (simp add: cb_ok_def)
    then have "entries (cb_remove rs s) = filter (\<lambda>f. f \<notin> set rs) (entries s)" "firingIndex (cb_remove rs s) = - 1"
      using cb_remove_exact[of s rs] cb_remove_idle[of s rs] by simp_all
    moreover have "distinct (entries s) \<Longrightarrow> distinct (filter (\<lambda>f. f \<notin> set rs) (entries s))" by (rule distinct_filter)
    ultimately have "cb_ok opts (cb_remove rs s)" using assms(1) unfolding cb_ok_def cb_remove_fields by metis
    with Remove s' show ?thesis by simp
  next
    case (FireWith v)
    moreover have "\<not> firing s" using assms(1) by (simp add: cb_ok_def)
    ultimately have "s' = s" using False s' by (simp add: fire_entry_def split: if_splits)
    then show ?thesis using assms(1) by simp
  qed (use s' cb_simple_ok[OF assms(1)] in simp_all)
qed

subsection \<open>Witnesses\<close>

text \<open>Callbacks that note their calls; number 9 throws.\<close>

definition log_call :: "(nat, (nat \<times> nat option) list) behaviour" where
  "log_call w f v = (w @ [(f, v)], [], Returns)"

definition log_or_throw :: "(nat, (nat \<times> nat option) list) behaviour" where
  "log_or_throw w f v = (w @ [(f, v)], [], if f = 9 then Throws else Returns)"

lemma log_call_quiet: "quiet log_call"
  by (simp add: quiet_def log_call_def)

theorem callbacks_refine_promise_witness:
  "\<exists>s. cb_calls log_call once_memory [Add [Fn 1, Args [Fn 2, Skipped]], FireWith 7, FireWith 8, Add [Fn 3]] Callbacks []
     = Some (s, [(1, Some 7), (2, Some 7), (3, Some 7)], False) \<and> promise_of s = Settled 7"
  using callbacks_refine_promise[OF log_call_quiet, of "[Add [Fn 1, Args [Fn 2, Skipped]], FireWith 7, FireWith 8, Add [Fn 3]]" "[]"]
  by (simp add: log_call_def)

theorem settled_value_kept_witness:
  "\<exists>s' w'. cb_calls log_call once_memory [FireWith 8, Empty, Lock] (Callbacks\<lparr>memory := Some 7, locked := True, fired := True\<rparr>) []
     = Some (s', w', False) \<and> (memory s' = Some 7 \<or> cb_disabled s')"
  by (rule settled_value_kept[OF log_call_quiet]) (simp_all add: once_ok_def Callbacks_def)

theorem remove_keeps_position_witness:
  "to_call (inner_ops once_memory [Remove [2, 5]] ((Callbacks :: nat callbacks)\<lparr>cb_list := Some [2, 1, 2, 3, 5, 4], firingIndex := 2\<rparr>)) = [3, 4]"
  using remove_keeps_position[of "(Callbacks :: nat callbacks)\<lparr>cb_list := Some [2, 1, 2, 3, 5, 4], firingIndex := 2\<rparr>" once_memory "[2, 5]"]
  by (simp add: to_call_def[of "(Callbacks :: nat callbacks)\<lparr>cb_list := _, firingIndex := _\<rparr>"] eval_nat_numeral)

theorem throw_blocks_list_witness:
  "\<exists>s'. cb_call log_or_throw (options_of []) (FireWith 7) (Callbacks\<lparr>cb_list := Some [9, 1]\<rparr>) [] = Some (s', [(9, Some 7)], True)
     \<and> (\<forall>u w2. cb_call log_or_throw (options_of []) (FireWith u) s' w2 = Some (s'\<lparr>queue := [u]\<rparr>, w2, False))"
  by (rule throw_blocks_list[where f = 9 and fs = "[1]"]) (simp_all add: log_or_throw_def Callbacks_def options_of_def entries_def)

theorem callbacks_invariant_witness:
  "cb_ok (options_of [''unique'']) ((Callbacks :: nat callbacks)\<lparr>cb_list := Some [1, 2]\<rparr>)"
proof -
  let ?o = "options_of [''unique'']"
  have "cb_ok ?o (Callbacks :: nat callbacks)" by (simp add: cb_ok_def Callbacks_def entries_def)
  moreover have "cb_call log_call ?o (Add [Fn 1, Fn 2, Fn 1]) Callbacks [] = Some (Callbacks\<lparr>cb_list := Some [1, 2]\<rparr>, [], False)"
    by (simp add: cb_call_def add_entry_def add_args_def options_of_def Callbacks_def)
  ultimately show ?thesis by (rule callbacks_invariant)
qed

end
