(* ===== verification/JQ_Queue.thy ===== *)
theory JQ_Queue
  imports JQ_Data JQ_Callbacks
begin

text \<open>
  The queues of functions that jQuery keeps for an element (\<open>docs/javadoc/*/jquery/jquery-3.5.1.js\<close>: \<open>queue\<close>,
  \<open>dequeue\<close>, \<open>_queueHooks\<close>, \<open>clearQueue\<close>), over the private data of the element and lists of callbacks. A queued function is
  a number; it is called with \<open>next\<close>, and when it calls that is an event of its own: a function that
  was called was taken from a queue that was not empty, so nothing follows its call in \<open>dequeue\<close>.
\<close>

datatype qitem = InProgress | Task nat

text \<open>The hooks of a queue; callback 0 of the list \<open>empty\<close> is the one that removes the queue from the data.\<close>

record hooks =
  hstop :: bool
  hempty :: "unit callbacks"

datatype qval = QueueVal "qitem list" | HooksVal hooks

type_synonym elem = "qval owner"

definition read_queue :: "string \<Rightarrow> elem \<Rightarrow> qitem list option" where
  "read_queue ty e = (case get_value dataPriv (ty @ ''queue'') e of Val (QueueVal q) \<Rightarrow> Some q | _ \<Rightarrow> None)"

definition write_queue :: "string \<Rightarrow> qitem list \<Rightarrow> elem \<Rightarrow> elem" where
  "write_queue ty q e = snd (data_access dataPriv (Some (Name (ty @ ''queue''))) (Val (QueueVal q)) e)"

text \<open>The third argument of \<open>jQuery.queue\<close>: nothing, a function, or an array.\<close>

datatype qdata = Lookup | Push nat | Replace "qitem list"

definition jq_queue :: "string \<Rightarrow> qdata \<Rightarrow> elem \<Rightarrow> qitem list \<times> elem" where
  "jq_queue ty0 data e =
     (let ty = (if ty0 = [] then ''fx'' else ty0) in
      case data of
        Lookup \<Rightarrow> (case read_queue ty e of None \<Rightarrow> [] | Some q \<Rightarrow> q, e)
      | Push f \<Rightarrow>
          (case read_queue ty e of
             None \<Rightarrow> ([Task f], write_queue ty [Task f] e)
           | Some q \<Rightarrow> (q @ [Task f], write_queue ty (q @ [Task f]) e))
      | Replace q \<Rightarrow> (q, write_queue ty q e))"

definition new_hooks :: hooks where
  "new_hooks = \<lparr>hstop = False, hempty = Callbacks\<lparr>cb_list := Some [0]\<rparr>\<rparr>"

definition write_hooks :: "string \<Rightarrow> hooks \<Rightarrow> elem \<Rightarrow> elem" where
  "write_hooks ty h e = snd (data_access dataPriv (Some (Name (ty @ ''queueHooks''))) (Val (HooksVal h)) e)"

definition queueHooks :: "string \<Rightarrow> elem \<Rightarrow> hooks \<times> elem" where
  "queueHooks ty e =
     (case get_value dataPriv (ty @ ''queueHooks'') e of
        Val (HooksVal h) \<Rightarrow> (h, e)
      | _ \<Rightarrow> (new_hooks, write_hooks ty new_hooks e))"

text \<open>The callbacks of \<open>hooks.empty\<close>: the first removes the data, the others are noted.\<close>

definition empty_beh :: "string \<Rightarrow> (unit, elem \<times> nat list) behaviour" where
  "empty_beh ty w f v =
     (case w of (e, told) \<Rightarrow>
        if f = 0 then ((data_remove dataPriv (RemoveKeys [ty @ ''queue'', ty @ ''queueHooks'']) e, told), [], Returns)
        else ((e, told @ [f]), [], Returns))"

definition fire_empty :: "string \<Rightarrow> hooks \<Rightarrow> elem \<Rightarrow> (elem \<times> nat list) option" where
  "fire_empty ty h e =
     Option.bind (cb_call (empty_beh ty) once_memory (FireWith ()) (hempty h) (e, [])) (\<lambda>(s, (e', told), _).
       Some (case get_value dataPriv (ty @ ''queueHooks'') e' of
               Val (HooksVal _) \<Rightarrow> (write_hooks ty (h\<lparr>hempty := s\<rparr>) e', told)
             | _ \<Rightarrow> (e', told)))"

text \<open>The element, the function that is called, and the callbacks that are told that the queue is empty.\<close>

definition dequeue :: "string \<Rightarrow> elem \<Rightarrow> (elem \<times> nat option \<times> nat list) jsr" where
  "dequeue ty0 e =
     (let ty = (if ty0 = [] then ''fx'' else ty0);
          (q, _) = jq_queue ty Lookup e;
          (fn, q1, start) = (case q of
                               [] \<Rightarrow> (None, [], 0)
                             | InProgress # q' \<Rightarrow> (case q' of [] \<Rightarrow> (None, [], length q - 1) | x # q'' \<Rightarrow> (Some x, q'', length q - 1))
                             | Task f # q' \<Rightarrow> (Some (Task f), q', length q));
          q2 = (case fn of None \<Rightarrow> q1 | Some _ \<Rightarrow> if ty = ''fx'' then InProgress # q1 else q1);
          e1 = (if read_queue ty e = None then e else write_queue ty q2 e);
          (h, e2) = queueHooks ty e1
      in case fn of
           Some InProgress \<Rightarrow> js_throw TypeError
         | Some (Task f) \<Rightarrow>
             js_ret (case get_value dataPriv (ty @ ''queueHooks'') e2 of
                       Val (HooksVal _) \<Rightarrow> write_hooks ty (h\<lparr>hstop := False\<rparr>) e2
                     | _ \<Rightarrow> e2, Some f, [])
         | None \<Rightarrow>
             if start = 0
             then (case fire_empty ty h e2 of None \<Rightarrow> None | Some (e3, told) \<Rightarrow> js_ret (e3, None, told))
             else js_ret (e2, None, []))"

text \<open>The method \<open>queue\<close> of a collection, for one element and with data; \<open>clearQueue\<close> is a replacement by the empty array.\<close>

definition fn_queue :: "string \<Rightarrow> qdata \<Rightarrow> elem \<Rightarrow> (elem \<times> nat option \<times> nat list) jsr" where
  "fn_queue ty data e =
     (let (q, e1) = jq_queue ty data e;
          (h, e2) = queueHooks ty e1
      in if ty = ''fx'' \<and> (q = [] \<or> hd q \<noteq> InProgress) then dequeue ty e2 else js_ret (e2, None, []))"

text \<open>What \<open>promise\<close> does with one element: where the element has hooks, a callback is added to their list \<open>empty\<close>.\<close>

definition watch_queue :: "string \<Rightarrow> nat \<Rightarrow> elem \<Rightarrow> (elem \<times> nat option \<times> nat list) jsr" where
  "watch_queue ty f e =
     (case get_value dataPriv (ty @ ''queueHooks'') e of
        Val (HooksVal h) \<Rightarrow>
          (case cb_call (empty_beh ty) once_memory (Add [Fn f]) (hempty h) (e, []) of
             None \<Rightarrow> None
           | Some (s, (e', told), _) \<Rightarrow> js_ret (write_hooks ty (h\<lparr>hempty := s\<rparr>) e', None, told))
      | _ \<Rightarrow> js_ret (e, None, []))"

definition clearQueue :: "string \<Rightarrow> elem \<Rightarrow> (elem \<times> nat option \<times> nat list) jsr" where
  "clearQueue ty e = fn_queue (if ty = [] then ''fx'' else ty) (Replace []) e"

subsection \<open>The queue of effects\<close>

lemma fx_keys [simp]: "camelCase ''fxqueue'' = ''fxqueue''" "camelCase ''fxqueueHooks'' = ''fxqueueHooks''"
  by code_simp+

lemma fx_proper [simp]: "proper ''fxqueue''" "proper ''fxqueueHooks''"
  by (simp_all add: proper_def object_members_def)

abbreviation hooks_of :: "elem \<Rightarrow> qval data_value" where
  "hooks_of e \<equiv> get_value dataPriv ''fxqueueHooks'' e"

lemma write_queue_fx:
  assumes "acceptData e"
  shows "read_queue ''fx'' (write_queue ''fx'' q e) = Some q" "hooks_of (write_queue ''fx'' q e) = hooks_of e"
    "acceptData (write_queue ''fx'' q e)"
  using assms by (simp_all add: read_queue_def write_queue_def data_access_def priv.get_put)

lemma write_hooks_fx:
  assumes "acceptData e"
  shows "read_queue ''fx'' (write_hooks ''fx'' h e) = read_queue ''fx'' e" "hooks_of (write_hooks ''fx'' h e) = Val (HooksVal h)"
    "acceptData (write_hooks ''fx'' h e)"
  using assms by (simp_all add: read_queue_def write_hooks_def data_access_def priv.get_put)

lemma remove_fx:
  assumes "acceptData e"
  shows "read_queue ''fx'' (data_remove dataPriv (RemoveKeys [''fxqueue'', ''fxqueueHooks'']) e) = None"
    "hooks_of (data_remove dataPriv (RemoveKeys [''fxqueue'', ''fxqueueHooks'']) e) = Undefined"
    "acceptData (data_remove dataPriv (RemoveKeys [''fxqueue'', ''fxqueueHooks'']) e)"
  using assms by (simp_all add: read_queue_def priv.get_del)

lemmas fx_store = write_queue_fx write_hooks_fx remove_fx

text \<open>The abstract queue: nothing runs, or one function runs and others wait; with it, who waits for its end.\<close>

datatype fx_state = Idle | Busy "nat list" "nat list"

datatype fx_event = Enqueue nat | Next | Clear | Watch nat

fun fx_step :: "fx_event \<Rightarrow> fx_state \<Rightarrow> fx_state \<times> nat option \<times> nat list" where
  "fx_step (Enqueue f) Idle = (Busy [] [], Some f, [])"
| "fx_step (Enqueue f) (Busy fs ws) = (Busy (fs @ [f]) ws, None, [])"
| "fx_step Next Idle = (Idle, None, [])"
| "fx_step Next (Busy [] ws) = (Idle, None, ws)"
| "fx_step Next (Busy (f # fs) ws) = (Busy fs ws, Some f, [])"
| "fx_step Clear Idle = (Idle, None, [])"
| "fx_step Clear (Busy fs ws) = (Idle, None, ws)"
| "fx_step (Watch f) Idle = (Idle, None, [])"
| "fx_step (Watch f) (Busy fs ws) = (Busy fs (ws @ [f]), None, [])"

fun fx_handle :: "fx_event \<Rightarrow> elem \<Rightarrow> (elem \<times> nat option \<times> nat list) jsr" where
  "fx_handle (Enqueue f) e = fn_queue ''fx'' (Push f) e"
| "fx_handle Next e = dequeue ''fx'' e"
| "fx_handle Clear e = clearQueue ''fx'' e"
| "fx_handle (Watch f) e = watch_queue ''fx'' f e"

definition fx_rel :: "elem \<Rightarrow> fx_state \<Rightarrow> bool" where
  "fx_rel e st \<longleftrightarrow> acceptData e \<and>
     (case st of
        Idle \<Rightarrow> read_queue ''fx'' e = None \<and> hooks_of e = Undefined
      | Busy fs ws \<Rightarrow> read_queue ''fx'' e = Some (InProgress # map Task fs)
          \<and> (\<exists>h. hooks_of e = Val (HooksVal h) \<and> once_ok (hempty h) \<and> promise_of (hempty h) = Pending (0 # ws) \<and> 0 \<notin> set ws))"

lemma empty_beh_quiet: "quiet (empty_beh ty)"
  by (auto simp: quiet_def empty_beh_def split: prod.split)

lemma empty_calls:
  "0 \<notin> set ws \<Longrightarrow> fst (call_all (empty_beh ty) False () ws (e, told)) = (e, told @ ws)"
  by (induction ws arbitrary: told) (simp_all add: empty_beh_def)

lemma fire_empty_fx:
  assumes "acceptData e" "once_ok (hempty h)" "promise_of (hempty h) = Pending (0 # ws)" "0 \<notin> set ws"
  shows "fire_empty ''fx'' h e = Some (data_remove dataPriv (RemoveKeys [''fxqueue'', ''fxqueueHooks'']) e, ws)"
proof -
  let ?e = "data_remove dataPriv (RemoveKeys [''fxqueue'', ''fxqueueHooks'']) e"
  have "fst (call_all (empty_beh ''fx'') False () (0 # ws) (e, [])) = (?e, ws)"
    using empty_calls[OF assms(4), of "''fx''" ?e "[]"] by (simp add: empty_beh_def)
  with once_step[OF assms(2) empty_beh_quiet, of "''fx''" "FireWith ()" "(e, [])"] assms(3)
  obtain s where "cb_call (empty_beh ''fx'') once_memory (FireWith ()) (hempty h) (e, []) = Some (s, (?e, ws), False)" by auto
  then show ?thesis using remove_fx(2)[OF assms(1)] by (simp add: fire_empty_def)
qed

lemma new_hooks_ok: "once_ok (hempty new_hooks)" "promise_of (hempty new_hooks) = Pending [0]"
  by (simp_all add: new_hooks_def once_ok_def Callbacks_def promise_of_def entries_def)

lemma queueHooks_fx:
  assumes "hooks_of e = Val (HooksVal h)"
  shows "queueHooks ''fx'' e = (h, e)"
  using assms by (simp add: queueHooks_def)

lemma queueHooks_new:
  assumes "hooks_of e = Undefined"
  shows "queueHooks ''fx'' e = (new_hooks, write_hooks ''fx'' new_hooks e)"
  using assms by (simp add: queueHooks_def)

text \<open>\<open>dequeue\<close> on an element without a queue, and on a queue whose function has ended.\<close>

lemma dequeue_idle:
  assumes "acceptData e" "read_queue ''fx'' e = None \<or> read_queue ''fx'' e = Some []" "hooks_of e = Undefined"
  obtains e' where "dequeue ''fx'' e = js_ret (e', None, [])" "fx_rel e' Idle"
proof -
  define e1 where "e1 = (if read_queue ''fx'' e = None then e else write_queue ''fx'' [] e)"
  have e1: "acceptData e1" "hooks_of e1 = Undefined" using assms fx_store by (simp_all add: e1_def)
  let ?e2 = "write_hooks ''fx'' new_hooks e1"
  let ?e3 = "data_remove dataPriv (RemoveKeys [''fxqueue'', ''fxqueueHooks'']) ?e2"
  have f: "fire_empty ''fx'' new_hooks ?e2 = Some (?e3, [])"
    by (rule fire_empty_fx) (use e1 fx_store new_hooks_ok in simp_all)
  have "dequeue ''fx'' e = js_ret (?e3, None, [])"
    using assms(2) queueHooks_new[OF e1(2)] f by (auto simp: dequeue_def jq_queue_def e1_def Let_def)
  moreover have "fx_rel ?e3 Idle" using e1(1) fx_store by (simp add: fx_rel_def)
  ultimately show thesis by (rule that)
qed

lemma dequeue_ended:
  assumes "acceptData e" "read_queue ''fx'' e = Some [] \<or> read_queue ''fx'' e = Some [InProgress]" "hooks_of e = Val (HooksVal h)"
    "once_ok (hempty h)" "promise_of (hempty h) = Pending (0 # ws)" "0 \<notin> set ws"
  obtains e' where "dequeue ''fx'' e = js_ret (e', None, ws)" "fx_rel e' Idle"
proof -
  let ?e1 = "write_queue ''fx'' [] e"
  let ?e3 = "data_remove dataPriv (RemoveKeys [''fxqueue'', ''fxqueueHooks'']) ?e1"
  have e1: "acceptData ?e1" "hooks_of ?e1 = Val (HooksVal h)" using assms(1,3) fx_store by simp_all
  have f: "fire_empty ''fx'' h ?e1 = Some (?e3, ws)" by (rule fire_empty_fx[OF e1(1) assms(4-6)])
  have "dequeue ''fx'' e = js_ret (?e3, None, ws)"
    using assms(2) queueHooks_fx[OF e1(2)] f by (auto simp: dequeue_def jq_queue_def Let_def)
  moreover have "fx_rel ?e3 Idle" using e1(1) fx_store by (simp add: fx_rel_def)
  ultimately show thesis by (rule that)
qed

lemma dequeue_task:
  assumes "acceptData e" "read_queue ''fx'' e = Some (Task f # map Task fs) \<or> read_queue ''fx'' e = Some (InProgress # Task f # map Task fs)"
    "hooks_of e = Val (HooksVal h)" "once_ok (hempty h)" "promise_of (hempty h) = Pending (0 # ws)" "0 \<notin> set ws"
  obtains e' where "dequeue ''fx'' e = js_ret (e', Some f, [])" "fx_rel e' (Busy fs ws)"
proof -
  let ?e1 = "write_queue ''fx'' (InProgress # map Task fs) e"
  let ?e2 = "write_hooks ''fx'' (h\<lparr>hstop := False\<rparr>) ?e1"
  have e1: "acceptData ?e1" "hooks_of ?e1 = Val (HooksVal h)" using assms(1,3) fx_store by simp_all
  have "dequeue ''fx'' e = js_ret (?e2, Some f, [])"
    using assms(2) queueHooks_fx[OF e1(2)] e1(2) by (auto simp: dequeue_def jq_queue_def Let_def)
  moreover have "fx_rel ?e2 (Busy fs ws)" using e1(1) assms fx_store by (simp add: fx_rel_def)
  ultimately show thesis by (rule that)
qed

lemma enqueue_step:
  assumes "fx_rel e st"
  obtains e' where "fn_queue ''fx'' (Push f) e = js_ret (e', snd (fx_step (Enqueue f) st))" "fx_rel e' (fst (fx_step (Enqueue f) st))"
proof (cases st)
  case Idle
  with assms have e: "acceptData e" "read_queue ''fx'' e = None" "hooks_of e = Undefined" by (simp_all add: fx_rel_def)
  let ?e1 = "write_queue ''fx'' [Task f] e" and ?e2 = "write_hooks ''fx'' new_hooks (write_queue ''fx'' [Task f] e)"
  have q: "queueHooks ''fx'' ?e1 = (new_hooks, ?e2)" by (rule queueHooks_new) (use e fx_store in simp)
  have e2: "acceptData ?e2" "read_queue ''fx'' ?e2 = Some (Task f # map Task [])" "hooks_of ?e2 = Val (HooksVal new_hooks)"
    using e fx_store by simp_all
  have l: "jq_queue ''fx'' (Push f) e = ([Task f], ?e1)" using e by (simp add: jq_queue_def)
  have "fn_queue ''fx'' (Push f) e = dequeue ''fx'' ?e2" unfolding fn_queue_def l q Let_def prod.case by simp
  with dequeue_task[OF e2(1) disjI1[OF e2(2)] e2(3) new_hooks_ok, of thesis] that show thesis by (simp add: Idle)
next
  case (Busy fs ws)
  with assms obtain h where e: "acceptData e" "read_queue ''fx'' e = Some (InProgress # map Task fs)" "hooks_of e = Val (HooksVal h)"
    "once_ok (hempty h)" "promise_of (hempty h) = Pending (0 # ws)" "0 \<notin> set ws" by (auto simp: fx_rel_def)
  let ?e1 = "write_queue ''fx'' (InProgress # map Task fs @ [Task f]) e"
  have q: "queueHooks ''fx'' ?e1 = (h, ?e1)" by (rule queueHooks_fx) (use e fx_store in simp)
  have l: "jq_queue ''fx'' (Push f) e = (InProgress # map Task fs @ [Task f], ?e1)" using e by (simp add: jq_queue_def)
  have "fn_queue ''fx'' (Push f) e = js_ret (?e1, None, [])" unfolding fn_queue_def l q Let_def prod.case by simp
  moreover have "fx_rel ?e1 (Busy (fs @ [f]) ws)" using e fx_store by (simp add: fx_rel_def)
  ultimately show thesis using that by (simp add: Busy)
qed

lemma next_step:
  assumes "fx_rel e st"
  obtains e' where "dequeue ''fx'' e = js_ret (e', snd (fx_step Next st))" "fx_rel e' (fst (fx_step Next st))"
proof (cases st)
  case Idle
  with assms have e: "acceptData e" "read_queue ''fx'' e = None" "hooks_of e = Undefined" by (simp_all add: fx_rel_def)
  from dequeue_idle[OF e(1) disjI1[OF e(2)] e(3)] that show thesis by (auto simp: Idle)
next
  case (Busy fs ws)
  with assms obtain h where e: "acceptData e" "read_queue ''fx'' e = Some (InProgress # map Task fs)" "hooks_of e = Val (HooksVal h)"
    "once_ok (hempty h)" "promise_of (hempty h) = Pending (0 # ws)" "0 \<notin> set ws" by (auto simp: fx_rel_def)
  show thesis
  proof (cases fs)
    case Nil
    with e(2) have "read_queue ''fx'' e = Some [] \<or> read_queue ''fx'' e = Some [InProgress]" by simp
    from dequeue_ended[OF e(1) this e(3-6)] that Nil Busy show thesis by auto
  next
    case (Cons f gs)
    with e(2) have "read_queue ''fx'' e = Some (Task f # map Task gs) \<or> read_queue ''fx'' e = Some (InProgress # Task f # map Task gs)" by simp
    from dequeue_task[OF e(1) this e(3-6)] that Cons Busy show thesis by auto
  qed
qed

lemma clear_step:
  assumes "fx_rel e st"
  obtains e' where "clearQueue ''fx'' e = js_ret (e', snd (fx_step Clear st))" "fx_rel e' (fst (fx_step Clear st))"
proof (cases st)
  case Idle
  with assms have e: "acceptData e" "hooks_of e = Undefined" by (simp_all add: fx_rel_def)
  let ?e1 = "write_queue ''fx'' [] e" and ?e2 = "write_hooks ''fx'' new_hooks (write_queue ''fx'' [] e)"
  have q: "queueHooks ''fx'' ?e1 = (new_hooks, ?e2)" by (rule queueHooks_new) (use e fx_store in simp)
  have e2: "acceptData ?e2" "read_queue ''fx'' ?e2 = Some []" "hooks_of ?e2 = Val (HooksVal new_hooks)" using e fx_store by simp_all
  have l: "jq_queue ''fx'' (Replace []) e = ([], ?e1)" by (simp add: jq_queue_def)
  have "clearQueue ''fx'' e = dequeue ''fx'' ?e2" unfolding clearQueue_def fn_queue_def by (simp add: l q)
  with dequeue_ended[OF e2(1) disjI1[OF e2(2)] e2(3) new_hooks_ok, of thesis] that show thesis by (simp add: Idle)
next
  case (Busy fs ws)
  with assms obtain h where e: "acceptData e" "hooks_of e = Val (HooksVal h)"
    "once_ok (hempty h)" "promise_of (hempty h) = Pending (0 # ws)" "0 \<notin> set ws" by (auto simp: fx_rel_def)
  let ?e1 = "write_queue ''fx'' [] e"
  have e1: "acceptData ?e1" "read_queue ''fx'' ?e1 = Some []" "hooks_of ?e1 = Val (HooksVal h)" using e fx_store by simp_all
  have q: "queueHooks ''fx'' ?e1 = (h, ?e1)" by (rule queueHooks_fx[OF e1(3)])
  have l: "jq_queue ''fx'' (Replace []) e = ([], ?e1)" by (simp add: jq_queue_def)
  have "clearQueue ''fx'' e = dequeue ''fx'' ?e1" unfolding clearQueue_def fn_queue_def by (simp add: l q)
  with dequeue_ended[OF e1(1) disjI1[OF e1(2)] e1(3) e(3-5)] that show thesis by (auto simp: Busy)
qed

lemma watch_step:
  assumes "fx_rel e st" "f \<noteq> 0"
  obtains e' where "watch_queue ''fx'' f e = js_ret (e', snd (fx_step (Watch f) st))" "fx_rel e' (fst (fx_step (Watch f) st))"
proof (cases st)
  case Idle
  with assms that show thesis by (simp add: fx_rel_def watch_queue_def)
next
  case (Busy fs ws)
  with assms obtain h where e: "acceptData e" "read_queue ''fx'' e = Some (InProgress # map Task fs)" "hooks_of e = Val (HooksVal h)"
    "once_ok (hempty h)" "promise_of (hempty h) = Pending (0 # ws)" "0 \<notin> set ws" by (auto simp: fx_rel_def)
  from once_step[OF e(4) empty_beh_quiet, of "''fx''" "Add [Fn f]" "(e, [])"] e(5) obtain s where
    s: "cb_call (empty_beh ''fx'') once_memory (Add [Fn f]) (hempty h) (e, []) = Some (s, (e, []), False)" "once_ok s"
    "promise_of s = Pending (0 # ws @ [f])" by auto
  let ?e1 = "write_hooks ''fx'' (h\<lparr>hempty := s\<rparr>) e"
  have "watch_queue ''fx'' f e = js_ret (?e1, None, [])" using e(3) s(1) by (simp add: watch_queue_def)
  moreover have "fx_rel ?e1 (Busy fs (ws @ [f]))" using e s fx_store assms(2) by (simp add: fx_rel_def)
  ultimately show thesis using that by (simp add: Busy)
qed

subsection \<open>Properties\<close>

fun fx_run :: "fx_event list \<Rightarrow> elem \<Rightarrow> (elem \<times> nat list \<times> nat list) jsr" where
  "fx_run [] e = js_ret (e, [], [])"
| "fx_run (ev # evs) e =
     js_bind (fx_handle ev e) (\<lambda>(e1, fn, told).
     js_bind (fx_run evs e1) (\<lambda>(e2, fns, tolds). js_ret (e2, (case fn of None \<Rightarrow> fns | Some f \<Rightarrow> f # fns), told @ tolds)))"

fun fx_steps :: "fx_event list \<Rightarrow> fx_state \<Rightarrow> fx_state \<times> nat list \<times> nat list" where
  "fx_steps [] st = (st, [], [])"
| "fx_steps (ev # evs) st =
     (case fx_step ev st of
        (st1, fn, told) \<Rightarrow>
          (case fx_steps evs st1 of (st2, fns, tolds) \<Rightarrow> (st2, (case fn of None \<Rightarrow> fns | Some f \<Rightarrow> f # fns), told @ tolds)))"

lemma fx_handle_step:
  assumes "fx_rel e st" "ev \<noteq> Watch 0"
  obtains e' where "fx_handle ev e = js_ret (e', snd (fx_step ev st))" "fx_rel e' (fst (fx_step ev st))"
  using assms by (cases ev) (auto elim: enqueue_step next_step clear_step watch_step)

text \<open>
  C14. The queue of effects implements a queue with one running function: every sequence of events on an
  element returns, without an exception; functions are called in the order in which they were queued, a function that is
  queued while another runs waits for \<open>next\<close>, and when the last has ended the data is removed and exactly those are told who
  asked for it since the queue was started.
\<close>

theorem fx_queue_refines:
  assumes "acceptData e" "read_queue ''fx'' e = None" "hooks_of e = Undefined" "Watch 0 \<notin> set evs"
  shows "\<exists>e'. fx_run evs e = js_ret (e', snd (fx_steps evs Idle)) \<and> fx_rel e' (fst (fx_steps evs Idle))"
proof -
  have "\<exists>e'. fx_run evs e = js_ret (e', snd (fx_steps evs st)) \<and> fx_rel e' (fst (fx_steps evs st))"
    if "fx_rel e st" "Watch 0 \<notin> set evs" for e st evs
    using that
  proof (induction evs arbitrary: e st)
    case (Cons ev evs)
    from fx_handle_step[OF Cons.prems(1), of ev] Cons.prems(2) obtain e1 where
      e1: "fx_handle ev e = js_ret (e1, snd (fx_step ev st))" "fx_rel e1 (fst (fx_step ev st))" by auto
    from Cons.IH[OF e1(2)] Cons.prems(2) obtain e2 where
      "fx_run evs e1 = js_ret (e2, snd (fx_steps evs (fst (fx_step ev st))))" "fx_rel e2 (fst (fx_steps evs (fst (fx_step ev st))))" by auto
    with e1(1) show ?case by (simp add: case_prod_beta)
  qed simp
  moreover have "fx_rel e Idle" using assms by (simp add: fx_rel_def)
  ultimately show ?thesis using assms(4) by blast
qed

text \<open>
  On a node that does not keep data (text, comment) a queued function is lost: it is not called, now or later.
\<close>

theorem queue_lost_without_data:
  assumes "\<not> acceptData e" "slots e dataPriv = None"
  shows "fn_queue ''fx'' (Push f) e = js_ret (e, None, [])"
proof -
  have w: "write_queue ''fx'' q e = e" "write_hooks ''fx'' h e = e" for q h
    using assms by (simp_all add: write_queue_def write_hooks_def data_access_def data_set_def data_cache_def Let_def)
  have r: "read_queue ''fx'' e = None" "hooks_of e = Undefined" using assms(2) by (simp_all add: read_queue_def get_value_def)
  have d: "data_remove dataPriv ks e = e" for ks using assms(2) by (simp add: data_remove_def)
  have "fst (call_all (empty_beh ''fx'') False () [0] (e, [])) = (e, [])" by (simp add: empty_beh_def d)
  with once_step[OF new_hooks_ok(1) empty_beh_quiet, of "''fx''" "FireWith ()" "(e, [])"] new_hooks_ok(2)
  obtain s where "cb_call (empty_beh ''fx'') once_memory (FireWith ()) (hempty new_hooks) (e, []) = Some (s, (e, []), False)" by auto
  then have "fire_empty ''fx'' new_hooks e = Some (e, [])" using r by (simp add: fire_empty_def)
  moreover have q: "queueHooks ''fx'' e = (new_hooks, e)" using queueHooks_new[OF r(2)] w by simp
  ultimately have "dequeue ''fx'' e = js_ret (e, None, [])" using r by (simp add: dequeue_def jq_queue_def Let_def)
  then show ?thesis using r w q by (simp add: fn_queue_def jq_queue_def)
qed

subsection \<open>Witnesses\<close>

definition bare_elem :: elem where
  "bare_elem = \<lparr>nodeType = Some 1, slots = Map.empty\<rparr>"

theorem fx_queue_refines_witness:
  "\<exists>e'. fx_run [Enqueue 1, Enqueue 2, Watch 7, Next, Enqueue 3, Next, Next, Enqueue 4] bare_elem = js_ret (e', [1, 2, 3, 4], [7]) \<and> fx_rel e' (Busy [] [])"
  using fx_queue_refines[of bare_elem "[Enqueue 1, Enqueue 2, Watch 7, Next, Enqueue 3, Next, Next, Enqueue 4]"]
  by (simp add: bare_elem_def acceptData_def read_queue_def get_value_def)

theorem queue_lost_without_data_witness:
  "fn_queue ''fx'' (Push 1) (bare_elem\<lparr>nodeType := Some 3\<rparr>) = js_ret (bare_elem\<lparr>nodeType := Some 3\<rparr>, None, [])"
  by (rule queue_lost_without_data) (simp_all add: bare_elem_def acceptData_def)

end
