(* ===== verification/JQ_Class.thy ===== *)
theory JQ_Class
  imports JQ_Data
begin

text \<open>
  The classes of elements (\<open>docs/javadoc/*/jquery/jquery-3.5.1.js\<close>: \<open>addClass\<close>, \<open>removeClass\<close>, \<open>toggleClass\<close>, \<open>hasClass\<close>), which the
  code keeps and edits as one string. The properties say what that does to the list of class names.
\<close>

subsection \<open>Strings\<close>

text \<open>\<open>indexOf\<close> for a string, and \<open>replace\<close> of the first occurrence of a string.\<close>

fun sub_index :: "string \<Rightarrow> string \<Rightarrow> nat option" where
  "sub_index p [] = (if p = [] then Some 0 else None)"
| "sub_index p (c # s) = (if take (length p) (c # s) = p then Some 0 else map_option Suc (sub_index p s))"

definition replace_first :: "string \<Rightarrow> string \<Rightarrow> string \<Rightarrow> string" where
  "replace_first p r s = (case sub_index p s of None \<Rightarrow> s | Some i \<Rightarrow> take i s @ r @ drop (i + length p) s)"

definition class_tokens :: "string \<Rightarrow> string list" where
  "class_tokens value = runs (\<lambda>c. \<not> html_space c) value"

fun join_space :: "string list \<Rightarrow> string" where
  "join_space [] = []"
| "join_space [t] = t"
| "join_space (t # u # ts) = t @ '' '' @ join_space (u # ts)"

definition stripAndCollapse :: "string \<Rightarrow> string" where
  "stripAndCollapse value = join_space (class_tokens value)"

subsection \<open>Elements\<close>

record class_elem =
  cdata :: "string owner"
  classAttr :: "string option"

definition getClass :: "class_elem \<Rightarrow> string" where
  "getClass e = (case classAttr e of None \<Rightarrow> [] | Some s \<Rightarrow> s)"

datatype class_arg = ClassArray "string list" | ClassString string | OtherArg

fun classesToArray :: "class_arg \<Rightarrow> string list" where
  "classesToArray (ClassArray cs) = cs"
| "classesToArray (ClassString s) = class_tokens s"
| "classesToArray OtherArg = []"

definition padded :: "string \<Rightarrow> string" where
  "padded s = '' '' @ s @ '' ''"

definition is_element :: "class_elem \<Rightarrow> bool" where
  "is_element e \<longleftrightarrow> nodeType (cdata e) = Some 1"

text \<open>The common end: the attribute is only written when it changes.\<close>

definition put_class :: "string \<Rightarrow> class_elem \<Rightarrow> class_elem" where
  "put_class cur e = (let finalValue = stripAndCollapse cur in if getClass e \<noteq> finalValue then e\<lparr>classAttr := Some finalValue\<rparr> else e)"

text \<open>The loops over the names end at the first empty one.\<close>

fun add_names :: "string list \<Rightarrow> string \<Rightarrow> string" where
  "add_names [] cur = cur"
| "add_names (c # cs) cur =
     (if c = [] then cur else add_names cs (if sub_index (padded c) cur = None then cur @ c @ '' '' else cur))"

definition addClass :: "class_arg \<Rightarrow> class_elem \<Rightarrow> class_elem" where
  "addClass value e =
     (let classes = classesToArray value in
      if classes \<noteq> [] \<and> is_element e then put_class (add_names classes (padded (stripAndCollapse (getClass e)))) e else e)"

lemma sub_index_bound: "sub_index p s = Some i \<Longrightarrow> i + length p \<le> length s"
proof (induction s arbitrary: i)
  case (Cons c s)
  show ?case
  proof (cases "take (length p) (c # s) = p")
    case True
    with Cons.prems have "i = 0" by simp
    moreover have "length p \<le> length (c # s)" using True by (metis length_take min.bounded_iff order_refl)
    ultimately show ?thesis by simp
  qed (use Cons in auto)
qed (auto split: if_splits)

lemma replace_first_shorter:
  assumes "sub_index (padded c) cur \<noteq> None"
  shows "length (replace_first (padded c) '' '' cur) < length cur"
proof -
  from assms obtain i where i: "sub_index (padded c) cur = Some i" by auto
  from sub_index_bound[OF i] have "i + length c + 2 \<le> length cur" by (simp add: padded_def)
  then show ?thesis by (simp add: replace_first_def i) (simp add: padded_def)
qed

function remove_all :: "string \<Rightarrow> string \<Rightarrow> string" where
  "remove_all c cur = (if sub_index (padded c) cur \<noteq> None then remove_all c (replace_first (padded c) '' '' cur) else cur)"
  by pat_completeness auto
termination
  by (relation "measure (\<lambda>(c, cur). length cur)") (use replace_first_shorter in auto)

declare remove_all.simps [simp del]

fun remove_names :: "string list \<Rightarrow> string \<Rightarrow> string" where
  "remove_names [] cur = cur"
| "remove_names (c # cs) cur = (if c = [] then cur else remove_names cs (remove_all c cur))"

definition removeClass :: "class_arg option \<Rightarrow> class_elem \<Rightarrow> class_elem" where
  "removeClass value e =
     (case value of
        None \<Rightarrow> if is_element e then e\<lparr>classAttr := Some []\<rparr> else e
      | Some v \<Rightarrow>
          (let classes = classesToArray v in
           if classes \<noteq> [] \<and> is_element e then put_class (remove_names classes (padded (stripAndCollapse (getClass e)))) e else e))"

definition hasClass :: "string \<Rightarrow> class_elem list \<Rightarrow> bool" where
  "hasClass selector es \<longleftrightarrow> list_ex (\<lambda>e. is_element e \<and> sub_index (padded selector) (padded (stripAndCollapse (getClass e))) \<noteq> None) es"

fun toggle_names :: "string list \<Rightarrow> class_elem \<Rightarrow> class_elem" where
  "toggle_names [] e = e"
| "toggle_names (c # cs) e =
     (if c = [] then e
      else toggle_names cs (if hasClass c [e] then removeClass (Some (ClassString c)) e else addClass (ClassString c) e))"

text \<open>Without a name the whole attribute is switched off, and back on to what it was, which is kept in the private data.\<close>

definition toggle_whole :: "bool \<Rightarrow> class_elem \<Rightarrow> class_elem" where
  "toggle_whole isFalse e =
     (let className = getClass e;
          d = (if className \<noteq> [] then snd (data_set dataPriv (Name ''__className__'') (Val className) (cdata e)) else cdata e);
          saved = (case get_value dataPriv ''__className__'' d of Val s \<Rightarrow> s | _ \<Rightarrow> [])
      in if is_element e then e\<lparr>cdata := d, classAttr := Some (if className \<noteq> [] \<or> isFalse then [] else saved)\<rparr>
         else e\<lparr>cdata := d\<rparr>)"

text \<open>The arguments \<open>value\<close> and \<open>stateVal\<close>: names with or without a state, or no names.\<close>

datatype toggle_arg = Names class_arg "bool option" | WholeClass bool

fun toggleClass :: "toggle_arg \<Rightarrow> class_elem \<Rightarrow> class_elem" where
  "toggleClass (Names v (Some True)) e = addClass v e"
| "toggleClass (Names v (Some False)) e = removeClass (Some v) e"
| "toggleClass (Names v None) e = toggle_names (classesToArray v) e"
| "toggleClass (WholeClass isFalse) e = toggle_whole isFalse e"

subsection \<open>Strings as lists of names\<close>

definition token :: "string \<Rightarrow> bool" where
  "token t \<longleftrightarrow> t \<noteq> [] \<and> (\<forall>c \<in> set t. \<not> html_space c)"

definition spaced :: "string list \<Rightarrow> string" where
  "spaced ts = CHR '' '' # concat (map (\<lambda>t. t @ '' '') ts)"

lemma spaced_simps [simp]: "spaced [] = '' ''" "spaced (t # ts) = CHR '' '' # t @ spaced ts"
  by (simp_all add: spaced_def)

lemma html_space_space [simp]: "html_space (CHR '' '')"
  by (simp add: html_space_def)

lemma token_no_space: "token t \<Longrightarrow> CHR '' '' \<notin> set t"
  by (auto simp: token_def)

lemma sub_index_skip: "CHR '' '' \<notin> set t \<Longrightarrow> sub_index (CHR '' '' # p) (t @ s) = map_option (\<lambda>i. length t + i) (sub_index (CHR '' '' # p) s)"
  by (cases "sub_index (CHR '' '' # p) s"; induction t) auto

lemma token_prefix:
  assumes "token c" "token t"
  shows "take (length c + 1) (t @ CHR '' '' # s) = c @ '' '' \<longleftrightarrow> c = t"
proof
  assume *: "take (length c + 1) (t @ CHR '' '' # s) = c @ '' ''"
  have "takeWhile (\<lambda>x. x \<noteq> CHR '' '') (t @ CHR '' '' # s) = t" "takeWhile (\<lambda>x. x \<noteq> CHR '' '') (c @ CHR '' '' # drop (length c + 1) (t @ CHR '' '' # s)) = c"
    using token_no_space[OF assms(1)] token_no_space[OF assms(2)] by (auto simp: takeWhile_append2 takeWhile_append)
  moreover have "t @ CHR '' '' # s = c @ CHR '' '' # drop (length c + 1) (t @ CHR '' '' # s)"
    by (metis * append.assoc append_Cons append_Nil append_take_drop_id)
  ultimately show "c = t" by metis
qed simp

lemma sub_index_spaced:
  assumes "token c" "token t"
  shows "sub_index (padded c) (spaced (t # ts)) = (if c = t then Some 0 else map_option (\<lambda>i. Suc (length t + i)) (sub_index (padded c) (spaced ts)))"
proof -
  have "take (length (padded c)) (spaced (t # ts)) = padded c \<longleftrightarrow> c = t"
    using token_prefix[OF assms, of "concat (map (\<lambda>t. t @ '' '') ts)"] by (simp add: padded_def spaced_def)
  moreover have "sub_index (padded c) (t @ spaced ts) = map_option (\<lambda>i. length t + i) (sub_index (padded c) (spaced ts))"
    using sub_index_skip[OF token_no_space[OF assms(2)], of "c @ '' ''" "spaced ts"] by (simp add: padded_def)
  ultimately show ?thesis by (simp add: option.map_comp comp_def)
qed

lemma sub_index_blank: "token c \<Longrightarrow> sub_index (padded c) '' '' = None"
  by (auto simp: padded_def token_def)

lemma spaced_has:
  assumes "token c" "\<forall>t \<in> set ts. token t"
  shows "sub_index (padded c) (spaced ts) = None \<longleftrightarrow> c \<notin> set ts"
  using assms(2)
proof (induction ts)
  case Nil
  then show ?case using sub_index_blank[OF assms(1)] by simp
next
  case (Cons t ts)
  then show ?case using sub_index_spaced[OF assms(1), of t ts] by auto
qed

lemma spaced_replace:
  assumes "token c" "\<forall>t \<in> set ts. token t"
  shows "replace_first (padded c) '' '' (spaced ts) = spaced (remove1 c ts)"
  using assms(2)
proof (induction ts)
  case Nil
  then show ?case using sub_index_blank[OF assms(1)] by (simp add: replace_first_def)
next
  case (Cons t ts)
  have idx: "sub_index (padded c) (spaced (t # ts)) = (if c = t then Some 0 else map_option (\<lambda>i. Suc (length t + i)) (sub_index (padded c) (spaced ts)))"
    using sub_index_spaced[OF assms(1), of t ts] Cons.prems by simp
  show ?case
  proof (cases "c = t")
    case True
    have "spaced ts = CHR '' '' # drop (Suc 0) (spaced ts)" by (simp add: spaced_def)
    with True idx show ?thesis by (simp add: replace_first_def padded_def del: sub_index.simps)
  next
    case False
    have "replace_first (padded c) '' '' (spaced (t # ts)) = CHR '' '' # t @ replace_first (padded c) '' '' (spaced ts)"
      using idx False by (cases "sub_index (padded c) (spaced ts)") (simp_all add: replace_first_def del: sub_index.simps)
    with Cons False show ?thesis by simp
  qed
qed

text \<open>The string that the loops edit: blanks, and then the names with a blank around each.\<close>

definition lists_names :: "string \<Rightarrow> string list \<Rightarrow> bool" where
  "lists_names cur ts \<longleftrightarrow> (\<forall>t \<in> set ts. token t) \<and> (\<exists>n. cur = replicate n (CHR '' '') @ spaced ts)"

lemma blanks_Cons: "\<exists>s. replicate n (CHR '' '') @ spaced ts = CHR '' '' # s"
  by (cases n) (simp_all add: spaced_def)

lemma sub_index_blanks:
  assumes "token c"
  shows "sub_index (padded c) (replicate n (CHR '' '') @ spaced ts) = map_option (\<lambda>i. n + i) (sub_index (padded c) (spaced ts))"
proof (induction n)
  case 0
  show ?case by (cases "sub_index (padded c) (spaced ts)") simp_all
next
  case (Suc n)
  obtain s where s: "replicate n (CHR '' '') @ spaced ts = CHR '' '' # s" using blanks_Cons by blast
  obtain x c' where c: "c = x # c'" "x \<noteq> CHR '' ''"
    using assms token_no_space[OF assms] by (cases c) (auto simp: token_def)
  have "take (length (padded c)) (CHR '' '' # CHR '' '' # s) \<noteq> padded c" using c by (simp add: padded_def)
  then have "sub_index (padded c) (CHR '' '' # CHR '' '' # s) = map_option Suc (sub_index (padded c) (CHR '' '' # s))"
    by (subst sub_index.simps(2)) (simp only: if_False)
  with Suc s show ?case by (simp add: option.map_comp comp_def del: sub_index.simps)
qed

lemma lists_names_has: "lists_names cur ts \<Longrightarrow> token c \<Longrightarrow> sub_index (padded c) cur = None \<longleftrightarrow> c \<notin> set ts"
  using sub_index_blanks spaced_has by (fastforce simp: lists_names_def)

lemma lists_names_replace:
  assumes "lists_names cur ts" "token c"
  shows "lists_names (replace_first (padded c) '' '' cur) (remove1 c ts)"
proof -
  from assms(1) obtain n where n: "cur = replicate n (CHR '' '') @ spaced ts" "\<forall>t \<in> set ts. token t" by (auto simp: lists_names_def)
  have "replace_first (padded c) '' '' cur = replicate n (CHR '' '') @ replace_first (padded c) '' '' (spaced ts)"
    unfolding n(1) replace_first_def sub_index_blanks[OF assms(2)] by (cases "sub_index (padded c) (spaced ts)") simp_all
  then have "replace_first (padded c) '' '' cur = replicate n (CHR '' '') @ spaced (remove1 c ts)"
    using spaced_replace[OF assms(2) n(2)] by simp
  moreover have "\<forall>t \<in> set (remove1 c ts). token t" using n(2) set_remove1_subset[of c ts] by blast
  ultimately show ?thesis unfolding lists_names_def by blast
qed

lemma spaced_snoc: "spaced (ts @ [c]) = spaced ts @ c @ '' ''"
  by (simp add: spaced_def)

lemma lists_names_add: "lists_names cur ts \<Longrightarrow> token c \<Longrightarrow> lists_names (cur @ c @ '' '') (ts @ [c])"
  by (auto simp: lists_names_def spaced_snoc)

lemma removeAll_of_remove1: "removeAll c (remove1 c ts) = removeAll c ts"
  by (induction ts) simp_all

lemma lists_names_remove_all:
  "lists_names cur ts \<Longrightarrow> token c \<Longrightarrow> lists_names (remove_all c cur) (removeAll c ts)"
proof (induction c cur arbitrary: ts rule: remove_all.induct)
  case (1 c cur)
  show ?case
  proof (cases "c \<in> set ts")
    case True
    then have some: "sub_index (padded c) cur \<noteq> None" using lists_names_has[OF "1.prems"] by simp
    from "1.IH"[OF some lists_names_replace[OF "1.prems"] "1.prems"(2)] some show ?thesis
      by (subst remove_all.simps) (simp add: removeAll_of_remove1)
  next
    case False
    then have "sub_index (padded c) cur = None" using lists_names_has[OF "1.prems"] by simp
    with "1.prems"(1) False show ?thesis by (subst remove_all.simps) simp
  qed
qed

lemma runs_skip: "(\<forall>x \<in> set t. P x) \<Longrightarrow> t \<noteq> [] \<Longrightarrow> \<not> P y \<Longrightarrow> runs P (t @ y # s) = t # runs P (y # s)"
  by (cases t) (simp_all add: takeWhile_append2 dropWhile_append2 takeWhile_tail dropWhile_append3)

lemma tokens_spaced: "\<forall>t \<in> set ts. token t \<Longrightarrow> class_tokens (spaced ts) = ts"
proof (induction ts)
  case (Cons t ts)
  have "spaced ts = CHR '' '' # drop 1 (spaced ts)" by (simp add: spaced_def)
  moreover have "runs (\<lambda>c. \<not> html_space c) (t @ CHR '' '' # drop 1 (spaced ts)) = t # runs (\<lambda>c. \<not> html_space c) (CHR '' '' # drop 1 (spaced ts))"
    by (rule runs_skip) (use Cons.prems in \<open>auto simp: token_def\<close>)
  ultimately have "class_tokens (t @ spaced ts) = t # class_tokens (spaced ts)" unfolding class_tokens_def by metis
  with Cons show ?case by (simp add: class_tokens_def)
qed (simp add: class_tokens_def)

lemma lists_names_tokens: "lists_names cur ts \<Longrightarrow> class_tokens cur = ts"
proof -
  assume "lists_names cur ts"
  then obtain n where n: "cur = replicate n (CHR '' '') @ spaced ts" "\<forall>t \<in> set ts. token t" by (auto simp: lists_names_def)
  have "class_tokens (replicate n (CHR '' '') @ spaced ts) = class_tokens (spaced ts)" by (induction n) (simp_all add: class_tokens_def)
  with n tokens_spaced show ?thesis by simp
qed

lemma padded_join: "lists_names (padded (join_space ts)) ts" if "\<forall>t \<in> set ts. token t"
proof -
  have "padded (join_space ts) = (if ts = [] then replicate 1 (CHR '' '') @ spaced ts else replicate 0 (CHR '' '') @ spaced ts)"
    by (induction ts rule: join_space.induct) (simp_all add: padded_def)
  with that show ?thesis unfolding lists_names_def by metis
qed

lemma class_tokens_token: "t \<in> set (class_tokens s) \<Longrightarrow> token t"
  using runs_nonempty[of t "\<lambda>c. \<not> html_space c" s] by (simp add: class_tokens_def token_def)

lemma lists_names_start: "lists_names (padded (stripAndCollapse s)) (class_tokens s)"
  unfolding stripAndCollapse_def by (rule padded_join) (simp add: class_tokens_token)

lemma tokens_join: "\<forall>t \<in> set ts. token t \<Longrightarrow> class_tokens (join_space ts) = ts"
proof (induction ts rule: join_space.induct)
  case (2 t)
  then show ?case by (cases t) (auto simp: class_tokens_def token_def dropWhile_eq_Nil_conv[THEN iffD2])
next
  case (3 t u ts)
  have "class_tokens (t @ CHR '' '' # join_space (u # ts)) = t # class_tokens (CHR '' '' # join_space (u # ts))"
    unfolding class_tokens_def by (rule runs_skip) (use 3(2) in \<open>auto simp: token_def\<close>)
  with 3 show ?case by (simp add: class_tokens_def)
qed (simp add: class_tokens_def)

lemma stripAndCollapse_idem: "stripAndCollapse (stripAndCollapse s) = stripAndCollapse s"
  unfolding stripAndCollapse_def using tokens_join[of "class_tokens s"] class_tokens_token by simp

subsection \<open>Properties\<close>

definition names_of :: "class_elem \<Rightarrow> string list" where
  "names_of e = class_tokens (getClass e)"

lemma names_token: "t \<in> set (names_of e) \<Longrightarrow> token t"
  by (simp add: names_of_def class_tokens_token)

lemma put_class_names:
  assumes "lists_names cur ts"
  shows "names_of (put_class cur e) = ts" "getClass (put_class cur e) = join_space ts" "cdata (put_class cur e) = cdata e"
proof -
  have s: "stripAndCollapse cur = join_space ts" using lists_names_tokens[OF assms] by (simp add: stripAndCollapse_def)
  then show g: "getClass (put_class cur e) = join_space ts" by (simp add: put_class_def getClass_def Let_def)
  then show "names_of (put_class cur e) = ts" using tokens_join[of ts] assms by (simp add: names_of_def lists_names_def)
  show "cdata (put_class cur e) = cdata e" by (simp add: put_class_def Let_def)
qed

definition add_name :: "string \<Rightarrow> string list \<Rightarrow> string list" where
  "add_name c ts = (if c \<in> set ts then ts else ts @ [c])"

lemma add_names_lists:
  "lists_names cur ts \<Longrightarrow> \<forall>c \<in> set cs. token c \<Longrightarrow> lists_names (add_names cs cur) (fold add_name cs ts)"
proof (induction cs arbitrary: cur ts)
  case (Cons c cs)
  have c: "token c" "c \<noteq> []" using Cons.prems(2) by (simp_all add: token_def)
  have "lists_names (if sub_index (padded c) cur = None then cur @ c @ '' '' else cur) (add_name c ts)"
    using lists_names_has[OF Cons.prems(1) c(1)] lists_names_add[OF Cons.prems(1) c(1)] Cons.prems(1) by (simp add: add_name_def)
  from Cons.IH[OF this] Cons.prems(2) c(2) show ?case by simp
qed simp

lemma remove_names_lists:
  "lists_names cur ts \<Longrightarrow> \<forall>c \<in> set cs. token c \<Longrightarrow> lists_names (remove_names cs cur) (filter (\<lambda>t. t \<notin> set cs) ts)"
proof (induction cs arbitrary: cur ts)
  case (Cons c cs)
  have c: "token c" "c \<noteq> []" using Cons.prems(2) by (simp_all add: token_def)
  from Cons.IH[OF lists_names_remove_all[OF Cons.prems(1) c(1)]] Cons.prems(2) c(2) show ?case
    by (simp add: removeAll_filter_not_eq filter_filter conj_commute eq_commute)
qed simp

lemma names_add:
  assumes "is_element e" "\<forall>c \<in> set (classesToArray v). token c"
  shows "names_of (addClass v e) = fold add_name (classesToArray v) (names_of e)"
proof (cases "classesToArray v = []")
  case False
  have "lists_names (padded (stripAndCollapse (getClass e))) (names_of e)" unfolding names_of_def by (rule lists_names_start)
  from put_class_names(1)[OF add_names_lists[OF this assms(2)], of e] False assms(1) show ?thesis by (simp add: addClass_def)
qed (simp add: addClass_def)

lemma names_remove:
  assumes "is_element e" "\<forall>c \<in> set (classesToArray v). token c"
  shows "names_of (removeClass (Some v) e) = filter (\<lambda>t. t \<notin> set (classesToArray v)) (names_of e)"
proof (cases "classesToArray v = []")
  case False
  have "lists_names (padded (stripAndCollapse (getClass e))) (names_of e)" unfolding names_of_def by (rule lists_names_start)
  from put_class_names(1)[OF remove_names_lists[OF this assms(2)], of e] False assms(1) show ?thesis by (simp add: removeClass_def)
qed (simp add: removeClass_def)

lemma has_iff: "is_element e \<Longrightarrow> token c \<Longrightarrow> hasClass c [e] \<longleftrightarrow> c \<in> set (names_of e)"
  using lists_names_has[OF lists_names_start[of "getClass e"], of c] by (simp add: hasClass_def names_of_def del: not_None_eq)

text \<open>
  What the methods promise about the set of class names of an element; toggling needs nothing else.
\<close>

locale name_set =
  fixes names :: "'e \<Rightarrow> string set" and add :: "string \<Rightarrow> 'e \<Rightarrow> 'e" and del :: "string \<Rightarrow> 'e \<Rightarrow> 'e" and has :: "string \<Rightarrow> 'e \<Rightarrow> bool"
    and ok :: "'e \<Rightarrow> bool" and name :: "string \<Rightarrow> bool"
  assumes add: "ok e \<Longrightarrow> name c \<Longrightarrow> names (add c e) = insert c (names e) \<and> ok (add c e)"
    and del: "ok e \<Longrightarrow> name c \<Longrightarrow> names (del c e) = names e - {c} \<and> ok (del c e)"
    and has: "ok e \<Longrightarrow> name c \<Longrightarrow> has c e \<longleftrightarrow> c \<in> names e"
begin

fun toggle_all :: "string list \<Rightarrow> 'e \<Rightarrow> 'e" where
  "toggle_all [] e = e"
| "toggle_all (c # cs) e = toggle_all cs (if has c e then del c e else add c e)"

lemma toggle_one:
  assumes "ok e" "name c"
  shows "names (if has c e then del c e else add c e) = names e - {c} \<union> ({c} - names e)" "ok (if has c e then del c e else add c e)"
  using assms add del has by auto

lemma toggle_all_names:
  assumes "ok e" "\<forall>c \<in> set cs. name c" "distinct cs"
  shows "names (toggle_all cs e) = names e - set cs \<union> (set cs - names e) \<and> ok (toggle_all cs e)"
  using assms
proof (induction cs arbitrary: e)
  case (Cons c cs)
  define e1 where "e1 = (if has c e then del c e else add c e)"
  have e1: "names e1 = names e - {c} \<union> ({c} - names e)" "ok e1" using toggle_one[of e c] Cons.prems by (simp_all add: e1_def)
  from Cons.IH[OF e1(2)] Cons.prems have "names (toggle_all cs e1) = names e1 - set cs \<union> (set cs - names e1) \<and> ok (toggle_all cs e1)" by simp
  with e1(1) Cons.prems(3) show ?case by (auto simp: e1_def)
qed simp

lemma toggle_twice:
  assumes "ok e" "\<forall>c \<in> set cs. name c" "distinct cs"
  shows "names (toggle_all cs (toggle_all cs e)) = names e"
  using toggle_all_names[OF assms] toggle_all_names[OF _ assms(2,3), of "toggle_all cs e"] by auto

end

lemma class_tokens_one: "token c \<Longrightarrow> class_tokens c = [c]"
  using tokens_join[of "[c]"] by simp

lemma is_element_kept [simp]: "is_element (addClass v e) = is_element e" "is_element (removeClass r e) = is_element e"
  by (auto simp: is_element_def addClass_def removeClass_def put_class_def Let_def split: option.splits)

interpretation class_names: name_set "\<lambda>e. set (names_of e)" "\<lambda>c. addClass (ClassString c)" "\<lambda>c. removeClass (Some (ClassString c))"
  "\<lambda>c e. hasClass c [e]" is_element token
  by unfold_locales (auto simp: names_add names_remove class_tokens_one add_name_def has_iff)

lemma toggle_names_all: "\<forall>c \<in> set cs. token c \<Longrightarrow> toggle_names cs e = class_names.toggle_all cs e"
  by (induction cs arbitrary: e) (auto simp: token_def)

text \<open>
  C17. The class string is edited like a list of names: \<open>addClass\<close> appends the names that are missing, in their order, \<open>removeClass\<close> removes
  every occurrence of its names and nothing else, \<open>hasClass\<close> tells whether a name is in the list.
\<close>

theorem class_string_edits:
  assumes "is_element e" "\<forall>c \<in> set (classesToArray v). token c" "token c"
  shows "names_of (addClass v e) = fold add_name (classesToArray v) (names_of e)
    \<and> names_of (removeClass (Some v) e) = filter (\<lambda>t. t \<notin> set (classesToArray v)) (names_of e)
    \<and> hasClass c [e] = (c \<in> set (names_of e))"
  using names_add[OF assms(1,2)] names_remove[OF assms(1,2)] has_iff[OF assms(1,3)] by simp

text \<open>Toggling a list of different names twice gives the same set of names.\<close>

theorem toggle_class_twice:
  assumes "is_element e" "distinct (classesToArray v)" "\<forall>c \<in> set (classesToArray v). token c"
  shows "set (names_of (toggleClass (Names v None) (toggleClass (Names v None) e))) = set (names_of e)"
  using class_names.toggle_twice[OF assms(1,3,2)] by (simp add: toggle_names_all[OF assms(3)])

text \<open>Toggling the whole attribute twice restores it, letter by letter, where the element had one.\<close>

lemma class_key [simp]: "camelCase ''__className__'' = ''__className__''"
  by code_simp

theorem toggle_whole_twice:
  assumes "is_element e" "getClass e \<noteq> []"
  shows "getClass (toggleClass (WholeClass False) e) = [] \<and> getClass (toggleClass (WholeClass False) (toggleClass (WholeClass False) e)) = getClass e"
proof -
  define d where "d = snd (data_set dataPriv (Name ''__className__'') (Val (getClass e)) (cdata e))"
  have acc: "acceptData (cdata e)" using assms(1) by (simp add: is_element_def acceptData_def)
  have saved: "get_value dataPriv ''__className__'' d = Val (getClass e)"
    using get_set[OF acc, of "''__className__''"] by (simp add: d_def proper_def object_members_def)
  have elem: "nodeType d = Some 1" using assms(1) by (simp add: d_def is_element_def)
  have first: "toggleClass (WholeClass False) e = e\<lparr>cdata := d, classAttr := Some []\<rparr>"
    using assms by (simp add: toggle_whole_def d_def Let_def)
  have "getClass (toggleClass (WholeClass False) (e\<lparr>cdata := d, classAttr := Some []\<rparr>)) = getClass e"
    using saved elem by (simp add: toggle_whole_def getClass_def is_element_def Let_def)
  with first show ?thesis by (simp add: getClass_def)
qed

subsection \<open>Witnesses\<close>

definition demo_elem :: class_elem where
  "demo_elem = \<lparr>cdata = \<lparr>nodeType = Some 1, slots = Map.empty\<rparr>, classAttr = Some ''  a b a''\<rparr>"

lemma demo_names: "names_of demo_elem = [''a'', ''b'', ''a'']"
  by (simp add: names_of_def demo_elem_def getClass_def class_tokens_def html_space_def)

theorem class_string_edits_witness:
  "names_of (addClass (ClassString ''c a d'') demo_elem) = [''a'', ''b'', ''a'', ''c'', ''d'']
   \<and> names_of (removeClass (Some (ClassArray [''a''])) demo_elem) = [''b''] \<and> hasClass ''b'' [demo_elem]"
  using class_string_edits[of demo_elem "ClassString ''c a d''" "''b''"] class_string_edits[of demo_elem "ClassArray [''a'']" "''b''"] demo_names
  by (simp add: is_element_def demo_elem_def class_tokens_def html_space_def token_def add_name_def)

theorem toggle_class_twice_witness:
  "set (names_of (toggleClass (Names (ClassString ''b x'') None) (toggleClass (Names (ClassString ''b x'') None) demo_elem))) = {''a'', ''b''}"
  using toggle_class_twice[of demo_elem "ClassString ''b x''"] demo_names
  by (auto simp: is_element_def demo_elem_def class_tokens_def html_space_def token_def)

theorem toggle_whole_twice_witness:
  "getClass (toggleClass (WholeClass False) (toggleClass (WholeClass False) demo_elem)) = ''  a b a''"
  using toggle_whole_twice[of demo_elem] by (simp add: is_element_def demo_elem_def getClass_def)

end
