(* ===== verification/JQ_Ajax.thy ===== *)
theory JQ_Ajax
  imports JQ_Class
begin

text \<open>
  The parts of jQuery's requests that decide about data types (\<open>docs/javadoc/*/jquery/jquery-3.5.1.js\<close>): the registration and inspection
  of prefilters and transports, the choice of a response, and the chain of conversions. Data types are
  strings other than the members of every object; functions of the user are numbers, or functions on responses.
\<close>

subsection \<open>Prefilters and transports\<close>

type_synonym handlers = "(string \<times> nat list) list"

definition handlers_at :: "handlers \<Rightarrow> string \<Rightarrow> nat list" where
  "handlers_at st k = (case map_of st k of None \<Rightarrow> [] | Some fs \<Rightarrow> fs)"

fun add_types :: "string list \<Rightarrow> nat \<Rightarrow> handlers \<Rightarrow> handlers" where
  "add_types [] func st = st"
| "add_types (t # ts) func st =
     add_types ts func
       (if hd t = CHR ''+''
        then (let k = (if tl t = [] then ''*'' else tl t) in AList.update k (func # handlers_at st k) st)
        else AList.update t (handlers_at st t @ [func]) st)"

definition addToPrefiltersOrTransports :: "string option \<Rightarrow> nat \<Rightarrow> handlers \<Rightarrow> handlers" where
  "addToPrefiltersOrTransports dataTypeExpression func st =
     add_types (class_tokens (toLowerCase (case dataTypeExpression of None \<Rightarrow> ''*'' | Some e \<Rightarrow> e))) func st"

text \<open>What a prefilter or a factory returns: a data type, another value that counts as true, or nothing.\<close>

datatype selection = DataType string | Transport nat | Nothing

definition selected_truthy :: "selection \<Rightarrow> bool" where
  "selected_truthy r \<longleftrightarrow> (case r of DataType s \<Rightarrow> s \<noteq> [] | Transport _ \<Rightarrow> True | Nothing \<Rightarrow> False)"

record 'w inspection =
  inspected :: "string list"
  dataTypes :: "string list"
  world :: 'w

definition open_types :: "handlers \<Rightarrow> string list \<Rightarrow> nat" where
  "open_types st seen = card (fst ` set st - set seen)"

lemma open_types_step:
  assumes "t \<notin> set seen"
  shows "open_types st (t # seen) < open_types st seen \<or> open_types st (t # seen) = open_types st seen \<and> handlers_at st t = []"
proof (cases "t \<in> fst ` set st")
  case True
  with assms have "fst ` set st - set (t # seen) \<subset> fst ` set st - set seen" by auto
  then show ?thesis unfolding open_types_def by (intro disjI1 psubset_card_mono) simp_all
next
  case False
  then have "fst ` set st - set (t # seen) = fst ` set st - set seen" "map_of st t = None" by (auto simp: map_of_eq_None_iff)
  then show ?thesis by (simp add: open_types_def handlers_at_def)
qed

text \<open>
  \<open>inspect\<close>: a prefilter that returns a data type which has not been inspected redirects to it and ends the
  inspection of its own list; the result of the redirection is dropped. The names that have been inspected limit the redirections.
\<close>

function inspect_all ::
  "('w \<Rightarrow> nat \<Rightarrow> 'w \<times> selection) \<Rightarrow> handlers \<Rightarrow> bool \<Rightarrow> nat list \<Rightarrow> 'w inspection \<Rightarrow> selection \<times> 'w inspection" where
  "inspect_all call st seeking [] i = (Nothing, i)"
| "inspect_all call st seeking (f # fs) i =
     (case call (world i) f of
        (w, r) \<Rightarrow>
          (let i1 = i\<lparr>world := w\<rparr> in
           case r of
             DataType t \<Rightarrow>
               if \<not> seeking \<and> t \<notin> set (inspected i1)
               then (Nothing, snd (inspect_all call st seeking (handlers_at st t)
                       (i1\<lparr>dataTypes := t # dataTypes i1, inspected := t # inspected i1\<rparr>)))
               else if seeking then if selected_truthy r then (r, i1) else inspect_all call st seeking fs i1
               else inspect_all call st seeking fs i1
           | _ \<Rightarrow>
               if seeking then if selected_truthy r then (r, i1) else inspect_all call st seeking fs i1
               else inspect_all call st seeking fs i1))"
  by pat_completeness auto

termination
  by (relation "measures [\<lambda>(call, st, seeking, fs, i). open_types st (inspected i), \<lambda>(call, st, seeking, fs, i). length fs]")
    (use open_types_step in fastforce)+

definition inspectPrefiltersOrTransports ::
  "('w \<Rightarrow> nat \<Rightarrow> 'w \<times> selection) \<Rightarrow> handlers \<Rightarrow> bool \<Rightarrow> string list \<Rightarrow> 'w \<Rightarrow> selection \<times> string list \<times> 'w" where
  "inspectPrefiltersOrTransports call st seeking types w =
     (let t0 = (case types of [] \<Rightarrow> ''undefined'' | t # _ \<Rightarrow> t);
          (r, i1) = inspect_all call st seeking (handlers_at st t0) \<lparr>inspected = [t0], dataTypes = types, world = w\<rparr>
      in if selected_truthy r then (r, dataTypes i1, world i1)
         else if ''*'' \<notin> set (inspected i1)
         then (let (r2, i2) = inspect_all call st seeking (handlers_at st ''*'') (i1\<lparr>inspected := ''*'' # inspected i1\<rparr>)
               in (r2, dataTypes i2, world i2))
         else (Nothing, dataTypes i1, world i1))"

subsection \<open>The choice of a response\<close>

text \<open>The leading automatic types are dropped; whether there was one decides whether the content type is read.\<close>

fun drop_auto :: "string list \<Rightarrow> string list" where
  "drop_auto [] = []"
| "drop_auto (t # ts) = (if t = ''*'' then drop_auto ts else t # ts)"

fun first_content :: "(string \<times> (string \<Rightarrow> bool) option) list \<Rightarrow> string \<Rightarrow> string option" where
  "first_content [] ct = None"
| "first_content ((ty, test) # cs) ct = (if (case test of None \<Rightarrow> False | Some p \<Rightarrow> p ct) then Some ty else first_content cs ct)"

text \<open>The loop over the responses: the first convertible type, and the first type.\<close>

fun convertible :: "string list \<Rightarrow> string list \<Rightarrow> string list \<Rightarrow> string option \<Rightarrow> string option" where
  "convertible converters types [] first = first"
| "convertible converters types (ty # tys) first =
     (if types = [] \<or> hd types = [] \<or> ty @ '' '' @ hd types \<in> set converters then Some ty
      else convertible converters types tys (if first = None then Some ty else first))"

definition ajaxHandleResponses ::
  "(string \<times> (string \<Rightarrow> bool) option) list \<Rightarrow> string list \<Rightarrow> string \<Rightarrow> string list \<Rightarrow> (string \<times> 'r) list \<Rightarrow> string list \<times> 'r option" where
  "ajaxHandleResponses contents converters contentType types responses =
     (let rest = drop_auto types;
          ct = (if types \<noteq> [] \<and> hd types = ''*'' then contentType else []);
          types1 = (if ct \<noteq> [] then (case first_content contents ct of None \<Rightarrow> rest | Some ty \<Rightarrow> ty # rest) else rest);
          head = (case types1 of [] \<Rightarrow> ''undefined'' | t # _ \<Rightarrow> t);
          finalDataType = (if head \<in> fst ` set responses then Some head
                           else convertible converters types1 (map fst responses) None)
      in case finalDataType of
           None \<Rightarrow> (types1, None)
         | Some ty \<Rightarrow> (if types1 \<noteq> [] \<and> ty = hd types1 then types1 else ty # types1, map_of responses ty))"

subsection \<open>The chain of conversions\<close>

text \<open>A converter: the value \<open>true\<close>, for types that need no conversion, or a function, which may throw.\<close>

datatype 'r conv = Same | Conv "'r \<Rightarrow> js_exn + 'r"

fun is_Same :: "'r conv \<Rightarrow> bool" where
  "is_Same Same = True"
| "is_Same (Conv f) = False"

datatype conv_error = Raised js_exn | NoConversion string string

datatype 'r converted = Success 'r | ParserError conv_error

record 'r ajax_settings =
  sTypes :: "string list"
  sConverters :: "(string \<times> 'r conv) list"
  responseFields :: "(string \<times> string) list"
  dataFilter :: "('r \<Rightarrow> js_exn + 'r) option"
  throws :: bool

definition lower_converters :: "(string \<times> 'r conv) list \<Rightarrow> (string \<times> 'r conv) list" where
  "lower_converters cs = fold (\<lambda>(k, c). AList.update (toLowerCase k) c) cs []"

definition lookup :: "(string \<times> 'r conv) list \<Rightarrow> string \<Rightarrow> string \<Rightarrow> 'r conv option" where
  "lookup cs from into = (case map_of cs (from @ '' '' @ into) of Some c \<Rightarrow> Some c | None \<Rightarrow> map_of cs (''* '' @ into))"

text \<open>The first two parts of a key that is split at blanks.\<close>

definition split_key :: "string \<Rightarrow> string \<times> string option" where
  "split_key k =
     (let rest = dropWhile (\<lambda>c. c \<noteq> CHR '' '') k
      in (takeWhile (\<lambda>c. c \<noteq> CHR '' '') k, case rest of [] \<Rightarrow> None | _ # s \<Rightarrow> Some (takeWhile (\<lambda>c. c \<noteq> CHR '' '') s)))"

fun find_pair :: "(string \<times> 'r conv) list \<Rightarrow> (string \<times> 'r conv) list \<Rightarrow> string \<Rightarrow> string \<Rightarrow> (string \<times> 'r conv \<times> 'r conv) option" where
  "find_pair cs [] prev current = None"
| "find_pair cs ((k, c2) # rest) prev current =
     (case split_key k of
        (t0, t1) \<Rightarrow>
          if t1 = Some current
          then (case lookup cs prev t0 of Some c1 \<Rightarrow> Some (t0, c1, c2) | None \<Rightarrow> find_pair cs rest prev current)
          else find_pair cs rest prev current)"

text \<open>The converter for a step, the type it leads to, and the types that are left.\<close>

definition seek_converter ::
  "(string \<times> 'r conv) list \<Rightarrow> string \<Rightarrow> string \<Rightarrow> string list \<Rightarrow> 'r conv option \<times> string \<times> string list" where
  "seek_converter cs prev current types =
     (case lookup cs prev current of
        Some c \<Rightarrow> (Some c, current, types)
      | None \<Rightarrow>
          (case find_pair cs cs prev current of
             None \<Rightarrow> (None, current, types)
           | Some (t0, c1, c2) \<Rightarrow>
               if is_Same c1 then (Some c2, current, types)
               else if \<not> is_Same c2 then (Some c1, t0, current # types)
               else (Some c1, current, types)))"

definition apply_converter :: "bool \<Rightarrow> string \<Rightarrow> string \<Rightarrow> 'r conv option \<Rightarrow> 'r \<Rightarrow> js_exn + ('r converted)" where
  "apply_converter throw_on prev current conv response =
     (case conv of
        None \<Rightarrow> Inr (ParserError (NoConversion prev current))
      | Some Same \<Rightarrow> Inr (Success response)
      | Some (Conv f) \<Rightarrow>
          (case f response of
             Inr r \<Rightarrow> Inr (Success r)
           | Inl e \<Rightarrow> if throw_on then Inl e else Inr (ParserError (Raised e))))"

text \<open>The filter is applied in the first round, after the response field of the first type has been set.\<close>

definition filter_response :: "'r ajax_settings \<Rightarrow> bool \<Rightarrow> 'r \<Rightarrow> js_exn + 'r" where
  "filter_response S apply response = (case dataFilter S of Some f \<Rightarrow> if apply then f response else Inr response | None \<Rightarrow> Inr response)"

partial_function (option) convert_loop ::
  "'r ajax_settings \<Rightarrow> (string \<times> 'r conv) list \<Rightarrow> bool \<Rightarrow> string \<Rightarrow> string list \<Rightarrow> 'r \<Rightarrow> (string \<times> 'r) list
     \<Rightarrow> (js_exn + 'r converted \<times> (string \<times> 'r) list) option" where
  "convert_loop S cs filtering current types response flds =
     (let flds1 = (case map_of (responseFields S) current of None \<Rightarrow> flds | Some fd \<Rightarrow> AList.update fd response flds) in
      case filter_response S filtering response of
        Inl e \<Rightarrow> Some (Inl e)
      | Inr response1 \<Rightarrow>
          (case types of
             [] \<Rightarrow> Some (Inr (Success response1, flds1))
           | c # rest \<Rightarrow>
               if c = [] then Some (Inr (Success response1, flds1))
               else if c = ''*'' then convert_loop S cs False current rest response1 flds1
               else if current \<noteq> ''*'' \<and> current \<noteq> c
               then (case seek_converter cs current c rest of
                       (conv, current', rest') \<Rightarrow>
                         (case apply_converter (throws S) current current' conv response1 of
                            Inl e \<Rightarrow> Some (Inl e)
                          | Inr (ParserError e) \<Rightarrow> Some (Inr (ParserError e, flds1))
                          | Inr (Success r) \<Rightarrow>
                              if current' = [] then Some (Inr (Success r, flds1)) else convert_loop S cs False current' rest' r flds1))
               else convert_loop S cs False c rest response1 flds1))"

declare convert_loop.simps [code]

definition ajaxConvert :: "'r ajax_settings \<Rightarrow> 'r \<Rightarrow> bool \<Rightarrow> (js_exn + 'r converted \<times> (string \<times> 'r) list) option" where
  "ajaxConvert S response isSuccess =
     (case sTypes S of
        [] \<Rightarrow> Some (Inr (Success response, []))
      | current # types \<Rightarrow>
          if current = [] then Some (Inr (Success response, []))
          else convert_loop S (lower_converters (sConverters S)) isSuccess current types response [])"

subsection \<open>Termination of the conversions\<close>

definition one_blank :: "string \<Rightarrow> bool" where
  "one_blank k \<longleftrightarrow> (\<exists>a b. k = a @ '' '' @ b \<and> CHR '' '' \<notin> set a \<and> CHR '' '' \<notin> set b)"

lemma split_key_one_blank:
  assumes "one_blank k" "split_key k = (t0, Some t1)"
  shows "k = t0 @ '' '' @ t1"
proof -
  from assms(1) obtain a b where k: "k = a @ CHR '' '' # b" "CHR '' '' \<notin> set a" "CHR '' '' \<notin> set b" by (auto simp: one_blank_def)
  have a: "\<And>x. x \<in> set a \<Longrightarrow> x \<noteq> CHR '' ''" using k(2) by blast
  have tw: "takeWhile (\<lambda>c. c \<noteq> CHR '' '') (a @ CHR '' '' # b) = a @ takeWhile (\<lambda>c. c \<noteq> CHR '' '') (CHR '' '' # b)"
    by (rule takeWhile_append2) (rule a)
  have dw: "dropWhile (\<lambda>c. c \<noteq> CHR '' '') (a @ CHR '' '' # b) = dropWhile (\<lambda>c. c \<noteq> CHR '' '') (CHR '' '' # b)"
    by (rule dropWhile_append2) (rule a)
  have "\<forall>x \<in> set b. x \<noteq> CHR '' ''" using k(3) by blast
  then have "takeWhile (\<lambda>c. c \<noteq> CHR '' '') b = b" by (simp only: takeWhile_eq_all_conv)
  then have "split_key k = (a, Some b)" unfolding split_key_def k(1) tw dw by simp
  with assms(2) k(1) show ?thesis by simp
qed

lemma find_pair_Some:
  assumes "find_pair cs ds prev current = Some (t0, c1, c2)" "\<forall>k \<in> fst ` set ds. one_blank k"
  shows "t0 @ '' '' @ current \<in> fst ` set ds \<and> lookup cs prev t0 = Some c1"
  using assms
proof (induction cs ds prev current rule: find_pair.induct)
  case (2 cs k c2' rest prev current)
  obtain u v where s: "split_key k = (u, v)" by fastforce
  show ?case
  proof (cases "v = Some current \<and> lookup cs prev u \<noteq> None")
    case True
    then have "u = t0" "lookup cs prev u = Some c1" using "2.prems"(1) s by auto
    moreover have "k = u @ '' '' @ current" using split_key_one_blank[of k u current] "2.prems"(2) s True by simp
    ultimately show ?thesis by simp
  next
    case False
    then have "find_pair cs rest prev current = Some (t0, c1, c2)" using "2.prems"(1) s by (auto split: if_splits option.splits)
    moreover have "\<forall>k \<in> fst ` set rest. one_blank k" using "2.prems"(2) by simp
    ultimately have "t0 @ '' '' @ current \<in> fst ` set rest \<and> lookup cs prev t0 = Some c1"
      using "2.IH"(1)[OF s[symmetric]] "2.IH"(2)[OF s[symmetric]] False by blast
    then show ?thesis by simp
  qed
qed simp

definition pending_step :: "(string \<times> 'r conv) list \<Rightarrow> string \<Rightarrow> string list \<Rightarrow> bool" where
  "pending_step cs current types \<longleftrightarrow> (case types of [] \<Rightarrow> False | c # _ \<Rightarrow> lookup cs current c = None)"

text \<open>
  A step leaves fewer types, or it goes through an intermediate type, from which the next type is reached directly.
\<close>

lemma seek_converter_progress:
  assumes "seek_converter cs prev c rest = (conv, current', rest')" "\<forall>k \<in> fst ` set cs. one_blank k"
  shows "rest' = rest \<or> rest' = c # rest \<and> lookup cs prev c = None \<and> lookup cs current' c \<noteq> None"
proof (cases "lookup cs prev c")
  case None
  show ?thesis
  proof (cases "find_pair cs cs prev c")
    case (Some p)
    obtain t0 c1 c2 where p: "p = (t0, c1, c2)" by (metis prod.collapse)
    from Some p have "find_pair cs cs prev c = Some (t0, c1, c2)" by simp
    from conjunct1[OF find_pair_Some[OF this assms(2)]] have "t0 @ '' '' @ c \<in> fst ` set cs" .
    then have "map_of cs (t0 @ '' '' @ c) \<noteq> None" unfolding map_of_eq_None_iff by blast
    then have "lookup cs t0 c \<noteq> None" by (auto simp: lookup_def)
    with None Some p assms(1) show ?thesis by (auto simp: seek_converter_def split: if_splits)
  qed (use None assms(1) in \<open>simp add: seek_converter_def\<close>)
qed (use assms(1) in \<open>simp add: seek_converter_def\<close>)

lemma convert_loop_returns:
  assumes "\<forall>k \<in> fst ` set cs. one_blank k"
  shows "\<exists>r. convert_loop S cs filtering current types response flds = Some r"
proof (induction "2 * length types + (if pending_step cs current types then 1 else 0)" arbitrary: filtering current types response flds rule: less_induct)
  case less
  define flds1 where "flds1 = (case map_of (responseFields S) current of None \<Rightarrow> flds | Some fd \<Rightarrow> AList.update fd response flds)"
  show ?case
  proof (cases "filter_response S filtering response")
    case (Inl e)
    then show ?thesis by (subst convert_loop.simps) (simp add: Let_def)
  next
    case (Inr response1)
    show ?thesis
    proof (cases types)
      case Nil
      with Inr show ?thesis by (subst convert_loop.simps) (simp add: Let_def)
    next
      case (Cons c rest)
      have shorter: "\<exists>r. convert_loop S cs filtering' current' rest response' flds' = Some r" for filtering' current' response' flds'
        by (rule less) (simp add: Cons)
      obtain conv current' rest' where seek: "seek_converter cs current c rest = (conv, current', rest')" by (metis prod.collapse)
      have "\<exists>r. convert_loop S cs False current' rest' response' flds' = Some r" for response' flds'
      proof (cases "rest' = rest")
        case False
        with seek_converter_progress[OF seek assms] have "rest' = c # rest" "lookup cs current c = None" "lookup cs current' c \<noteq> None" by auto
        then show ?thesis by (intro less) (simp add: Cons pending_step_def)
      qed (use shorter in simp)
      with Inr Cons shorter seek show ?thesis
        by (subst convert_loop.simps) (auto simp: Let_def split: sum.split converted.split)
    qed
  qed
qed

lemma lower_blank: "lower_char c = CHR '' '' \<longleftrightarrow> c = CHR '' ''"
proof
  assume *: "lower_char c = CHR '' ''"
  show "c = CHR '' ''"
  proof (rule ccontr)
    assume "c \<noteq> CHR '' ''"
    with * have r: "65 \<le> (of_char c :: nat)" "(of_char c :: nat) \<le> 90" "lower_char c = char_of ((of_char c :: nat) + 32)"
      by (auto simp: lower_char_def split: if_splits)
    then have "(of_char (lower_char c) :: nat) = of_char c + 32" by simp
    with * r(1) show False by simp
  qed
qed (simp add: lower_char_def)

lemma lower_blank_free: "CHR '' '' \<notin> set a \<Longrightarrow> CHR '' '' \<notin> set (toLowerCase a)"
proof
  assume "CHR '' '' \<in> set (toLowerCase a)"
  then obtain c where c: "c \<in> set a" "lower_char c = CHR '' ''" unfolding toLowerCase_def set_map by (metis imageE)
  from c(2) have "c = CHR '' ''" by (simp only: lower_blank)
  with c(1) show "CHR '' '' \<notin> set a \<Longrightarrow> False" by simp
qed

lemma one_blank_lower:
  assumes "one_blank k"
  shows "one_blank (toLowerCase k)"
proof -
  from assms obtain a b where k: "k = a @ '' '' @ b" "CHR '' '' \<notin> set a" "CHR '' '' \<notin> set b" by (auto simp: one_blank_def)
  have "toLowerCase k = toLowerCase a @ '' '' @ toLowerCase b" by (simp add: k(1) toLowerCase_def lower_char_def)
  moreover have "CHR '' '' \<notin> set (toLowerCase a)" "CHR '' '' \<notin> set (toLowerCase b)"
    using lower_blank_free[OF k(2)] lower_blank_free[OF k(3)] .
  ultimately show ?thesis unfolding one_blank_def by blast
qed

lemma lower_converters_keys: "fst ` set (lower_converters cs) \<subseteq> toLowerCase ` fst ` set cs"
proof -
  have "fst ` set (fold (\<lambda>(k, c). AList.update (toLowerCase k) c) cs acc) \<subseteq> fst ` set acc \<union> toLowerCase ` fst ` set cs" for acc
  proof (induction cs arbitrary: acc)
    case (Cons p cs)
    obtain k c where p: "p = (k, c)" by fastforce
    have "fst ` set (AList.update (toLowerCase k) c acc) = insert (toLowerCase k) (fst ` set acc)" by (simp add: dom_update)
    with Cons[of "AList.update (toLowerCase k) c acc"] p show ?case by auto
  qed simp
  from this[of "[]"] show ?thesis by (simp add: lower_converters_def)
qed

subsection \<open>Properties\<close>

text \<open>
  C18. The chain of conversions ends, whatever the types and the converters: with keys of the form of two types and a blank between them, an
  intermediate type is followed by a direct conversion.
\<close>

theorem ajax_convert_returns:
  assumes "\<forall>k \<in> fst ` set (sConverters S). one_blank k"
  shows "\<exists>r. ajaxConvert S response isSuccess = Some r"
proof -
  have "\<forall>k \<in> fst ` set (lower_converters (sConverters S)). one_blank k"
  proof
    fix k assume "k \<in> fst ` set (lower_converters (sConverters S))"
    then have "k \<in> toLowerCase ` fst ` set (sConverters S)" using lower_converters_keys[of "sConverters S"] by (rule rev_subsetD)
    then obtain k' where "k = toLowerCase k'" "k' \<in> fst ` set (sConverters S)" by (rule imageE)
    with one_blank_lower[OF bspec[OF assms]] show "one_blank k" by blast
  qed
  from convert_loop_returns[OF this] show ?thesis by (auto simp: ajaxConvert_def split: list.split)
qed

text \<open>
  Without a direct converter the response goes through an intermediate type: the first converter that leads to the wanted type
  and whose source can be reached is applied after the one that reaches it.
\<close>

theorem ajax_convert_pair:
  assumes "cs = lower_converters (sConverters S)" "sTypes S = [a, b]" "responseFields S = []" "dataFilter S = None" "a \<noteq> []" "b \<noteq> []" "a \<noteq> ''*''" "b \<noteq> ''*''" "t \<noteq> ''*''" "t \<noteq> []" "a \<noteq> b" "t \<noteq> b"
    and "lookup cs a b = None" "find_pair cs cs a b = Some (t, Conv f, Conv g)" "lookup cs t b = Some (Conv g)"
    and "f response = Inr x" "g x = Inr y"
  shows "ajaxConvert S response isSuccess = Some (Inr (Success y, []))"
proof -
  have last: "convert_loop S cs False b [] y [] = Some (Inr (Success y, []))"
    using assms by (subst convert_loop.simps) (simp add: filter_response_def)
  have "convert_loop S cs False t [b] x [] = convert_loop S cs False b [] y []"
    using assms by (subst convert_loop.simps) (simp add: filter_response_def seek_converter_def apply_converter_def)
  moreover have "convert_loop S cs isSuccess a [b] response [] = convert_loop S cs False t [b] x []"
    using assms by (subst convert_loop.simps) (simp add: filter_response_def seek_converter_def apply_converter_def)
  ultimately show ?thesis using assms(1,2,5) last by (simp add: ajaxConvert_def)
qed

text \<open>
  The choice of a response never comes away empty: where there are responses, one of them is returned, and its type is the first of the types that the
  conversion starts from.
\<close>

lemma convertible_Some: "tys \<noteq> [] \<or> first \<noteq> None \<Longrightarrow> \<exists>ty. convertible cs types tys first = Some ty \<and> (ty \<in> set tys \<or> first = Some ty)"
proof (induction cs types tys first rule: convertible.induct)
  case (2 cs types ty tys first)
  show ?case
  proof (cases "types = [] \<or> hd types = [] \<or> ty @ '' '' @ hd types \<in> set cs")
    case False
    have "tys \<noteq> [] \<or> (if first = None then Some ty else first) \<noteq> None" by (cases first) simp_all
    from "2.IH"[OF False this] obtain u where "convertible cs types tys (if first = None then Some ty else first) = Some u"
      "u \<in> set tys \<or> (if first = None then Some ty else first) = Some u" by blast
    with False show ?thesis by (auto split: if_splits)
  qed simp
qed simp

theorem response_chosen:
  assumes "responses \<noteq> []"
  shows "\<exists>ty r rest. ajaxHandleResponses contents converters ct types responses = (ty # rest, Some r) \<and> map_of responses ty = Some r"
proof -
  define types1 where "types1 = (let rest = drop_auto types; ct' = (if types \<noteq> [] \<and> hd types = ''*'' then ct else [])
     in if ct' \<noteq> [] then (case first_content contents ct' of None \<Rightarrow> rest | Some ty \<Rightarrow> ty # rest) else rest)"
  define head where "head = (case types1 of [] \<Rightarrow> ''undefined'' | t # _ \<Rightarrow> t)"
  define final where "final = (if head \<in> fst ` set responses then Some head else convertible converters types1 (map fst responses) None)"
  have "\<exists>ty. final = Some ty \<and> ty \<in> fst ` set responses"
    using convertible_Some[of "map fst responses" None converters types1] assms by (auto simp: final_def)
  then obtain ty where ty: "final = Some ty" "ty \<in> fst ` set responses" by blast
  then have r: "map_of responses ty \<noteq> None" by (simp add: map_of_eq_None_iff)
  have eq: "ajaxHandleResponses contents converters ct types responses
      = (if types1 \<noteq> [] \<and> ty = hd types1 then types1 else ty # types1, map_of responses ty)"
    using ty(1) unfolding ajaxHandleResponses_def Let_def final_def head_def types1_def by (simp add: Let_def)
  show ?thesis
  proof (cases "types1 \<noteq> [] \<and> ty = hd types1")
    case True
    then obtain rest where "types1 = ty # rest" by (cases types1) auto
    with True r eq show ?thesis by auto
  qed (use r eq in auto)
qed

text \<open>
  The transport is the first one that a factory of the first data type offers, or else a factory for all types, in the order of
  registration; the factories after it are not asked.
\<close>

definition first_offer :: "(nat \<Rightarrow> selection) \<Rightarrow> nat list \<Rightarrow> selection" where
  "first_offer offer fs = (case List.find (\<lambda>f. selected_truthy (offer f)) fs of None \<Rightarrow> Nothing | Some f \<Rightarrow> offer f)"

lemma inspect_transports:
  "inspect_all (\<lambda>w f. (w @ [f], offer f)) st True fs i
   = (first_offer offer fs,
      i\<lparr>world := world i @ (case List.find (\<lambda>f. selected_truthy (offer f)) fs of None \<Rightarrow> fs | Some f \<Rightarrow> takeWhile (\<lambda>g. \<not> selected_truthy (offer g)) fs @ [f])\<rparr>)"
proof (induction fs arbitrary: i)
  case Nil
  show ?case by (simp add: first_offer_def)
next
  case (Cons f fs)
  then show ?case
    by (cases "offer f"; cases "selected_truthy (offer f)")
      (simp_all add: first_offer_def selected_truthy_def split: option.splits)
qed

theorem transport_selected:
  fixes offer :: "nat \<Rightarrow> selection"
  assumes "t0 \<noteq> ''*''"
  shows "fst (inspectPrefiltersOrTransports (\<lambda>w f. (w @ [f], offer f)) st True (t0 # types) [])
    = first_offer offer (handlers_at st t0 @ handlers_at st ''*'')"
proof -
  have app: "first_offer offer (xs @ ys) = (if selected_truthy (first_offer offer xs) then first_offer offer xs else first_offer offer ys)" for xs ys
  proof (induction xs)
    case (Cons x xs)
    then show ?case by (cases "selected_truthy (offer x)") (simp_all add: first_offer_def)
  qed (simp add: first_offer_def selected_truthy_def)
  show ?thesis unfolding inspectPrefiltersOrTransports_def Let_def app using assms by (simp add: inspect_transports)
qed

text \<open>Registration: in front of the others with a plus sign, behind them without; the other types keep their lists.\<close>

lemma register_order:
  assumes "token t" "toLowerCase t = t" "hd t \<noteq> CHR ''+''"
  shows "handlers_at (addToPrefiltersOrTransports (Some t) f st) k = (if k = t then handlers_at st t @ [f] else handlers_at st k)"
    and "handlers_at (addToPrefiltersOrTransports (Some (CHR ''+'' # t)) f st) k = (if k = t then f # handlers_at st t else handlers_at st k)"
proof -
  have "class_tokens (toLowerCase t) = [t]" using class_tokens_one[OF assms(1)] assms(2) by simp
  then show "handlers_at (addToPrefiltersOrTransports (Some t) f st) k = (if k = t then handlers_at st t @ [f] else handlers_at st k)"
    using assms(3) by (simp add: addToPrefiltersOrTransports_def handlers_at_def update_conv)
  have "toLowerCase (CHR ''+'' # t) = CHR ''+'' # t" using assms(2) by (simp add: toLowerCase_def lower_char_def)
  moreover have "token (CHR ''+'' # t)" using assms(1) by (auto simp: token_def html_space_def)
  ultimately have "class_tokens (toLowerCase (CHR ''+'' # t)) = [CHR ''+'' # t]" using class_tokens_one by simp
  moreover have "t \<noteq> []" using assms(1) by (simp add: token_def)
  ultimately show "handlers_at (addToPrefiltersOrTransports (Some (CHR ''+'' # t)) f st) k = (if k = t then f # handlers_at st t else handlers_at st k)"
    by (simp add: addToPrefiltersOrTransports_def handlers_at_def update_conv)
qed

subsection \<open>Witnesses\<close>

text \<open>The converters that jQuery starts with, on strings: markup is text, and a text is parsed by noting the type.\<close>

definition demo_settings :: "string list \<Rightarrow> string ajax_settings" where
  "demo_settings types = \<lparr>sTypes = types,
     sConverters = [(''* text'', Conv (\<lambda>s. Inr (''text:'' @ s))), (''text html'', Same), (''text json'', Conv (\<lambda>s. Inr (''json:'' @ s)))],
     responseFields = [], dataFilter = None, throws = False\<rparr>"

lemma demo_blanks: "\<forall>k \<in> fst ` set (sConverters (demo_settings types)). one_blank k"
proof -
  have "one_blank ''* text''" unfolding one_blank_def by (rule exI[of _ "''*''"], rule exI[of _ "''text''"]) simp
  moreover have "one_blank ''text html''" unfolding one_blank_def by (rule exI[of _ "''text''"], rule exI[of _ "''html''"]) simp
  moreover have "one_blank ''text json''" unfolding one_blank_def by (rule exI[of _ "''text''"], rule exI[of _ "''json''"]) simp
  ultimately show ?thesis by (simp add: demo_settings_def)
qed

theorem ajax_convert_returns_witness: "\<exists>r. ajaxConvert (demo_settings [''script'', ''html'', ''*'', ''json'', ''xml'']) ''x'' True = Some r"
  by (rule ajax_convert_returns[OF demo_blanks])

theorem ajax_convert_pair_witness:
  "ajaxConvert (demo_settings [''blob'', ''json'']) ''x'' True = Some (Inr (Success ''json:text:x'', []))"
proof (rule ajax_convert_pair[where t = "''text''" and f = "\<lambda>s. Inr (''text:'' @ s)" and g = "\<lambda>s. Inr (''json:'' @ s)" and x = "''text:x''", OF refl])
  show "find_pair (lower_converters (sConverters (demo_settings [''blob'', ''json'']))) (lower_converters (sConverters (demo_settings [''blob'', ''json''])))
      ''blob'' ''json'' = Some (''text'', Conv (\<lambda>s. Inr (''text:'' @ s)), Conv (\<lambda>s. Inr (''json:'' @ s)))"
    by (simp add: demo_settings_def lower_converters_def toLowerCase_def lower_char_def lookup_def split_key_def)
qed (simp_all add: demo_settings_def lower_converters_def toLowerCase_def lower_char_def lookup_def)

theorem response_chosen_witness:
  "\<exists>ty r rest. ajaxHandleResponses [] [] [] [''json''] [(''text'', 5 :: nat)] = (ty # rest, Some r) \<and> map_of [(''text'', 5)] ty = Some r"
  by (rule response_chosen) simp

theorem transport_selected_witness:
  "fst (inspectPrefiltersOrTransports (\<lambda>w f. (w @ [f], if f = 3 then Transport 3 else Nothing)) [(''json'', [1, 2]), (''*'', [3, 4])] True [''json''] [])
     = Transport 3"
  using transport_selected[of "''json''" "\<lambda>f. if f = 3 then Transport 3 else Nothing" "[(''json'', [1, 2]), (''*'', [3, 4])]" "[]"]
  by (simp add: first_offer_def handlers_at_def selected_truthy_def)

end
