(* ===== verification/UI_Position.thy ===== *)
theory UI_Position
  imports JQ_Class
begin

text \<open>
  Positioning in jQuery UI (\<open>docs/javadoc/*/jquery/jquery-ui.js\<close>: \<open>$.position\<close>, \<open>fn.position\<close>, \<open>$.ui.position\<close>), by which the menu of the search
  field is placed. What the browser measures (sizes, offsets, scroll positions, margins) is data; numbers are rationals.
\<close>

subsection \<open>Options\<close>

text \<open>The first offset in a position, as \<open>roffset\<close> finds it: its value, and whether it is a percentage.\<close>

fun digits_value :: "rat \<Rightarrow> string \<Rightarrow> rat" where
  "digits_value acc [] = acc"
| "digits_value acc (c # s) = digits_value (10 * acc + of_nat (of_char c - 48)) s"

fun fraction_value :: "string \<Rightarrow> rat" where
  "fraction_value [] = 0"
| "fraction_value (c # s) = (of_nat (of_char c - 48) + fraction_value s) / 10"

definition offset_here :: "string \<Rightarrow> (rat \<times> bool) option" where
  "offset_here s =
     (case s of
        [] \<Rightarrow> None
      | sign # t \<Rightarrow>
          (let ds = takeWhile is_digit t; u = dropWhile is_digit t;
               fs = (case u of c # v \<Rightarrow> if c = CHR ''.'' then takeWhile is_digit v else [] | [] \<Rightarrow> []);
               u' = (if fs = [] then u else drop (1 + length fs) u)
           in if (sign = CHR ''+'' \<or> sign = CHR ''-'') \<and> ds \<noteq> []
              then Some ((if sign = CHR ''-'' then - 1 else 1) * (digits_value 0 ds + fraction_value fs), u' \<noteq> [] \<and> hd u' = CHR ''%'')
              else None))"

fun roffset :: "string \<Rightarrow> (rat \<times> bool) option" where
  "roffset [] = None"
| "roffset (c # s) = (case offset_here (c # s) of Some r \<Rightarrow> Some r | None \<Rightarrow> roffset s)"

definition contains_any :: "string list \<Rightarrow> string \<Rightarrow> bool" where
  "contains_any ws s \<longleftrightarrow> list_ex (\<lambda>w. sub_index w s \<noteq> None) ws"

definition rhorizontal :: "string \<Rightarrow> bool" where
  "rhorizontal s = contains_any [''left'', ''center'', ''right''] s"

definition rvertical :: "string \<Rightarrow> bool" where
  "rvertical s = contains_any [''top'', ''center'', ''bottom''] s"

definition rposition :: "string \<Rightarrow> js_exn + string" where
  "rposition s = (let w = takeWhile is_word_char s in if w = [] then Inl TypeError else Inr w)"

fun split_space :: "string \<Rightarrow> string list" where
  "split_space [] = [[]]"
| "split_space (c # s) =
     (if c = CHR '' '' then [] # split_space s else (case split_space s of [] \<Rightarrow> [[c]] | w # ws \<Rightarrow> (c # w) # ws))"

record side =
  word :: string
  shift :: rat
  percent :: bool

definition side_of :: "string \<Rightarrow> js_exn + side" where
  "side_of p =
     (case rposition p of
        Inl e \<Rightarrow> Inl e
      | Inr w \<Rightarrow> Inr (case roffset p of None \<Rightarrow> \<lparr>word = w, shift = 0, percent = False\<rparr> | Some (x, pc) \<Rightarrow> \<lparr>word = w, shift = x, percent = pc\<rparr>))"

text \<open>One of the options \<open>my\<close> and \<open>pat\<close>: what is missing or unknown is taken as centre.\<close>

definition normal_option :: "string option \<Rightarrow> js_exn + (side \<times> side)" where
  "normal_option opt =
     (let pos = split_space (case opt of None \<Rightarrow> [] | Some s \<Rightarrow> s);
          pos1 = (case pos of
                    [p] \<Rightarrow> if rhorizontal p then [p, ''center''] else if rvertical p then [''center'', p] else [''center'', ''center'']
                  | _ \<Rightarrow> pos);
          h = (if rhorizontal (pos1 ! 0) then pos1 ! 0 else ''center'');
          v = (if rvertical (pos1 ! 1) then pos1 ! 1 else ''center'')
      in case side_of h of
           Inl e \<Rightarrow> Inl e
         | Inr sh \<Rightarrow> (case side_of v of Inl e \<Rightarrow> Inl e | Inr sv \<Rightarrow> Inr (sh, sv)))"

definition offset_value :: "side \<Rightarrow> rat \<Rightarrow> rat" where
  "offset_value s len = shift s * (if percent s then len / 100 else 1)"

definition getOffsets :: "side \<times> side \<Rightarrow> rat \<Rightarrow> rat \<Rightarrow> rat \<times> rat" where
  "getOffsets sides width height = (offset_value (fst sides) width, offset_value (snd sides) height)"

subsection \<open>Measures\<close>

record point =
  pleft :: rat
  ptop :: rat

record dimensions =
  dwidth :: rat
  dheight :: rat
  doffset :: point

text \<open>What an element is positioned at: a document, a window, an event, or an element.\<close>

datatype target =
    DocumentTarget rat rat
  | WindowTarget rat rat rat rat
  | EventTarget rat rat
  | ElementTarget rat rat point

fun getDimensions :: "target \<Rightarrow> dimensions" where
  "getDimensions (DocumentTarget w h) = \<lparr>dwidth = w, dheight = h, doffset = \<lparr>pleft = 0, ptop = 0\<rparr>\<rparr>"
| "getDimensions (WindowTarget w h st sl) = \<lparr>dwidth = w, dheight = h, doffset = \<lparr>pleft = sl, ptop = st\<rparr>\<rparr>"
| "getDimensions (EventTarget x y) = \<lparr>dwidth = 0, dheight = 0, doffset = \<lparr>pleft = x, ptop = y\<rparr>\<rparr>"
| "getDimensions (ElementTarget w h off) = \<lparr>dwidth = w, dheight = h, doffset = off\<rparr>"

datatype container_kind = IsWindow | IsDocument | IsElement

record within_info =
  kind :: container_kind
  woffset :: point
  scrollLeft :: rat
  scrollTop :: rat
  wwidth :: rat
  wheight :: rat
  overflowX :: string
  overflowY :: string
  scrollWidth :: rat
  scrollHeight :: rat

text \<open>\<open>getWithinInfo\<close>: a window or a document has no offset, and its overflow is not asked for.\<close>

definition getWithinInfo :: "within_info \<Rightarrow> within_info" where
  "getWithinInfo raw = (if kind raw = IsElement then raw else raw\<lparr>woffset := \<lparr>pleft = 0, ptop = 0\<rparr>, overflowX := [], overflowY := []\<rparr>)"

definition getScrollInfo :: "rat \<Rightarrow> within_info \<Rightarrow> rat \<times> rat" where
  "getScrollInfo scrollbarWidth pwithin =
     (let hasOverflowX = (overflowX pwithin = ''scroll'' \<or> overflowX pwithin = ''auto'' \<and> wwidth pwithin < scrollWidth pwithin);
          hasOverflowY = (overflowY pwithin = ''scroll'' \<or> overflowY pwithin = ''auto'' \<and> wheight pwithin < scrollHeight pwithin)
      in (if hasOverflowY then scrollbarWidth else 0, if hasOverflowX then scrollbarWidth else 0))"

record position_data =
  targetWidth :: rat
  targetHeight :: rat
  elemWidth :: rat
  elemHeight :: rat
  marginLeft :: rat
  marginTop :: rat
  collisionWidth :: rat
  collisionHeight :: rat
  poffset :: "rat \<times> rat"
  pmy :: "string \<times> string"
  pat :: "string \<times> string"
  pwithin :: within_info

subsection \<open>Collisions\<close>

definition fit_left :: "position_data \<Rightarrow> point \<Rightarrow> point" where
  "fit_left data position =
     (let withinOffset = (if kind (pwithin data) = IsWindow then scrollLeft (pwithin data) else pleft (woffset (pwithin data)));
          outerWidth = wwidth (pwithin data);
          collisionPosLeft = pleft position - marginLeft data;
          overLeft = withinOffset - collisionPosLeft;
          overRight = collisionPosLeft + collisionWidth data - outerWidth - withinOffset
      in if collisionWidth data > outerWidth
         then if overLeft > 0 \<and> overRight \<le> 0
              then (let newOverRight = pleft position + overLeft + collisionWidth data - outerWidth - withinOffset
                    in position\<lparr>pleft := pleft position + (overLeft - newOverRight)\<rparr>)
              else if overRight > 0 \<and> overLeft \<le> 0 then position\<lparr>pleft := withinOffset\<rparr>
              else if overLeft > overRight then position\<lparr>pleft := withinOffset + outerWidth - collisionWidth data\<rparr>
              else position\<lparr>pleft := withinOffset\<rparr>
         else if overLeft > 0 then position\<lparr>pleft := pleft position + overLeft\<rparr>
         else if overRight > 0 then position\<lparr>pleft := pleft position - overRight\<rparr>
         else position\<lparr>pleft := max (pleft position - collisionPosLeft) (pleft position)\<rparr>)"

definition fit_top :: "position_data \<Rightarrow> point \<Rightarrow> point" where
  "fit_top data position =
     (let withinOffset = (if kind (pwithin data) = IsWindow then scrollTop (pwithin data) else ptop (woffset (pwithin data)));
          outerHeight = wheight (pwithin data);
          collisionPosTop = ptop position - marginTop data;
          overTop = withinOffset - collisionPosTop;
          overBottom = collisionPosTop + collisionHeight data - outerHeight - withinOffset
      in if collisionHeight data > outerHeight
         then if overTop > 0 \<and> overBottom \<le> 0
              then (let newOverBottom = ptop position + overTop + collisionHeight data - outerHeight - withinOffset
                    in position\<lparr>ptop := ptop position + (overTop - newOverBottom)\<rparr>)
              else if overBottom > 0 \<and> overTop \<le> 0 then position\<lparr>ptop := withinOffset\<rparr>
              else if overTop > overBottom then position\<lparr>ptop := withinOffset + outerHeight - collisionHeight data\<rparr>
              else position\<lparr>ptop := withinOffset\<rparr>
         else if overTop > 0 then position\<lparr>ptop := ptop position + overTop\<rparr>
         else if overBottom > 0 then position\<lparr>ptop := ptop position - overBottom\<rparr>
         else position\<lparr>ptop := max (ptop position - collisionPosTop) (ptop position)\<rparr>)"

definition flip_left :: "position_data \<Rightarrow> point \<Rightarrow> point" where
  "flip_left data position =
     (let withinOffset = pleft (woffset (pwithin data)) + scrollLeft (pwithin data);
          outerWidth = wwidth (pwithin data);
          offsetLeft = (if kind (pwithin data) = IsWindow then scrollLeft (pwithin data) else pleft (woffset (pwithin data)));
          collisionPosLeft = pleft position - marginLeft data;
          overLeft = collisionPosLeft - offsetLeft;
          overRight = collisionPosLeft + collisionWidth data - outerWidth - offsetLeft;
          myOffset = (if fst (pmy data) = ''left'' then - elemWidth data else if fst (pmy data) = ''right'' then elemWidth data else 0);
          atOffset = (if fst (pat data) = ''left'' then targetWidth data else if fst (pat data) = ''right'' then - targetWidth data else 0);
          offset = - 2 * fst (poffset data)
      in if overLeft < 0
         then (let newOverRight = pleft position + myOffset + atOffset + offset + collisionWidth data - outerWidth - withinOffset
               in if newOverRight < 0 \<or> newOverRight < abs overLeft
                  then position\<lparr>pleft := pleft position + (myOffset + atOffset + offset)\<rparr> else position)
         else if overRight > 0
         then (let newOverLeft = pleft position - marginLeft data + myOffset + atOffset + offset - offsetLeft
               in if newOverLeft > 0 \<or> abs newOverLeft < overRight
                  then position\<lparr>pleft := pleft position + (myOffset + atOffset + offset)\<rparr> else position)
         else position)"

definition flip_top :: "position_data \<Rightarrow> point \<Rightarrow> point" where
  "flip_top data position =
     (let withinOffset = ptop (woffset (pwithin data)) + scrollTop (pwithin data);
          outerHeight = wheight (pwithin data);
          offsetTop = (if kind (pwithin data) = IsWindow then scrollTop (pwithin data) else ptop (woffset (pwithin data)));
          collisionPosTop = ptop position - marginTop data;
          overTop = collisionPosTop - offsetTop;
          overBottom = collisionPosTop + collisionHeight data - outerHeight - offsetTop;
          myOffset = (if snd (pmy data) = ''top'' then - elemHeight data else if snd (pmy data) = ''bottom'' then elemHeight data else 0);
          atOffset = (if snd (pat data) = ''top'' then targetHeight data else if snd (pat data) = ''bottom'' then - targetHeight data else 0);
          offset = - 2 * snd (poffset data)
      in if overTop < 0
         then (let newOverBottom = ptop position + myOffset + atOffset + offset + collisionHeight data - outerHeight - withinOffset
               in if newOverBottom < 0 \<or> newOverBottom < abs overTop
                  then position\<lparr>ptop := ptop position + (myOffset + atOffset + offset)\<rparr> else position)
         else if overBottom > 0
         then (let newOverTop = ptop position - marginTop data + myOffset + atOffset + offset - offsetTop
               in if newOverTop > 0 \<or> abs newOverTop < overBottom
                  then position\<lparr>ptop := ptop position + (myOffset + atOffset + offset)\<rparr> else position)
         else position)"

definition collide_left :: "string \<Rightarrow> position_data \<Rightarrow> point \<Rightarrow> point" where
  "collide_left c data p =
     (if c = ''fit'' then fit_left data p else if c = ''flip'' then flip_left data p
      else if c = ''flipfit'' then fit_left data (flip_left data p) else p)"

definition collide_top :: "string \<Rightarrow> position_data \<Rightarrow> point \<Rightarrow> point" where
  "collide_top c data p =
     (if c = ''fit'' then fit_top data p else if c = ''flip'' then flip_top data p
      else if c = ''flipfit'' then fit_top data (flip_top data p) else p)"

subsection \<open>The position of an element\<close>

record elem_box =
  outerWidth :: rat
  outerHeight :: rat
  mLeft :: rat
  mTop :: rat
  mRight :: rat
  mBottom :: rat

record position_options =
  opt_my :: "string option"
  opt_at :: "string option"
  opt_of :: target
  opt_collision :: "string option"

definition part :: "string \<Rightarrow> string \<Rightarrow> rat \<Rightarrow> rat" where
  "part far s size' = (if s = far then size' else if s = ''center'' then size' / 2 else 0)"

fun is_event :: "target \<Rightarrow> bool" where
  "is_event (EventTarget x y) = True"
| "is_event _ = False"

text \<open>The position before collisions are resolved, and the data of the collisions.\<close>

definition base_position :: "rat \<Rightarrow> within_info \<Rightarrow> position_options \<Rightarrow> elem_box \<Rightarrow> js_exn + (point \<times> position_data)" where
  "base_position scrollbarWidth raw options box =
     (let win = getWithinInfo raw;
          scrollInfo = getScrollInfo scrollbarWidth win;
          dims = getDimensions (opt_of options)
      in case normal_option (opt_my options) of
           Inl e \<Rightarrow> Inl e
         | Inr pmy' \<Rightarrow>
             (case normal_option (if is_event (opt_of options) then Some ''left top'' else opt_at options) of
                Inl e \<Rightarrow> Inl e
              | Inr at' \<Rightarrow>
                  (let atOffset = getOffsets at' (dwidth dims) (dheight dims);
                       myOffset = getOffsets pmy' (outerWidth box) (outerHeight box);
                       myWords = (word (fst pmy'), word (snd pmy'));
                       atWords = (word (fst at'), word (snd at'));
                       p = \<lparr>pleft = pleft (doffset dims) + part ''right'' (fst atWords) (dwidth dims) + fst atOffset
                                     - part ''right'' (fst myWords) (outerWidth box) + fst myOffset,
                            ptop = ptop (doffset dims) + part ''bottom'' (snd atWords) (dheight dims) + snd atOffset
                                     - part ''bottom'' (snd myWords) (outerHeight box) + snd myOffset\<rparr>
                   in Inr (p, \<lparr>targetWidth = dwidth dims, targetHeight = dheight dims, elemWidth = outerWidth box, elemHeight = outerHeight box,
                               marginLeft = mLeft box, marginTop = mTop box,
                               collisionWidth = outerWidth box + mLeft box + mRight box + fst scrollInfo,
                               collisionHeight = outerHeight box + mTop box + mBottom box + snd scrollInfo,
                               poffset = (fst atOffset + fst myOffset, snd atOffset + snd myOffset),
                               pmy = myWords, pat = atWords, pwithin = win\<rparr>))))"

definition fn_position :: "rat \<Rightarrow> within_info \<Rightarrow> position_options \<Rightarrow> elem_box \<Rightarrow> js_exn + point" where
  "fn_position scrollbarWidth raw options box =
     (let collision = split_space (case opt_collision options of None \<Rightarrow> ''flip'' | Some c \<Rightarrow> if c = [] then ''flip'' else c);
          cl = collision ! 0;
          ct = (if length collision = 1 then collision ! 0 else collision ! 1)
      in case base_position scrollbarWidth raw options box of
           Inl e \<Rightarrow> Inl e
         | Inr (p, data) \<Rightarrow> Inr (collide_top ct data (collide_left cl data p)))"

text \<open>What the callback \<open>using\<close> is told: on which side of the target the element is, and which direction is the important one.\<close>

record feedback =
  horizontal :: string
  vertical :: string
  important :: string

definition using_feedback :: "dimensions \<Rightarrow> elem_box \<Rightarrow> point \<Rightarrow> feedback" where
  "using_feedback dims box position =
     (let l = pleft (doffset dims) - pleft position;
          r = l + dwidth dims - outerWidth box;
          t = ptop (doffset dims) - ptop position;
          b = t + dheight dims - outerHeight box
      in \<lparr>horizontal = (if dwidth dims < outerWidth box \<and> abs (l + r) < dwidth dims then ''center''
                        else if r < 0 then ''left'' else if l > 0 then ''right'' else ''center''),
          vertical = (if dheight dims < outerHeight box \<and> abs (t + b) < dheight dims then ''middle''
                      else if b < 0 then ''top'' else if t > 0 then ''bottom'' else ''middle''),
          important = (if max (abs l) (abs r) > max (abs t) (abs b) then ''horizontal'' else ''vertical'')\<rparr>)"

subsection \<open>The two directions\<close>

text \<open>Exchanging the axes turns the functions for one direction into those for the other.\<close>

definition swap_point :: "point \<Rightarrow> point" where
  "swap_point p = \<lparr>pleft = ptop p, ptop = pleft p\<rparr>"

definition swap_word :: "string \<Rightarrow> string" where
  "swap_word w = (if w = ''left'' then ''top'' else if w = ''right'' then ''bottom'' else if w = ''top'' then ''left''
     else if w = ''bottom'' then ''right'' else w)"

definition swap_within :: "within_info \<Rightarrow> within_info" where
  "swap_within w = w\<lparr>woffset := swap_point (woffset w), scrollLeft := scrollTop w, scrollTop := scrollLeft w, wwidth := wheight w, wheight := wwidth w\<rparr>"

definition swap_data :: "position_data \<Rightarrow> position_data" where
  "swap_data d = \<lparr>targetWidth = targetHeight d, targetHeight = targetWidth d, elemWidth = elemHeight d, elemHeight = elemWidth d,
     marginLeft = marginTop d, marginTop = marginLeft d, collisionWidth = collisionHeight d, collisionHeight = collisionWidth d,
     poffset = (snd (poffset d), fst (poffset d)), pmy = (swap_word (snd (pmy d)), swap_word (fst (pmy d))),
     pat = (swap_word (snd (pat d)), swap_word (fst (pat d))), pwithin = swap_within (pwithin d)\<rparr>"

lemma swap_word_iff [simp]:
  "swap_word w = ''left'' \<longleftrightarrow> w = ''top''" "swap_word w = ''right'' \<longleftrightarrow> w = ''bottom''"
  by (auto simp: swap_word_def)

lemma swap_point_simps [simp]:
  "pleft (swap_point p) = ptop p" "ptop (swap_point p) = pleft p"
  "swap_point (p\<lparr>ptop := x\<rparr>) = (swap_point p)\<lparr>pleft := x\<rparr>" "swap_point (p\<lparr>pleft := x\<rparr>) = (swap_point p)\<lparr>ptop := x\<rparr>"
  by (simp_all add: swap_point_def)

lemma swap_within_simps [simp]:
  "kind (swap_within w) = kind w" "woffset (swap_within w) = swap_point (woffset w)" "scrollLeft (swap_within w) = scrollTop w" "wwidth (swap_within w) = wheight w"
  by (simp_all add: swap_within_def)

lemma swap_data_simps [simp]:
  "targetWidth (swap_data d) = targetHeight d" "elemWidth (swap_data d) = elemHeight d" "marginLeft (swap_data d) = marginTop d"
  "collisionWidth (swap_data d) = collisionHeight d" "fst (poffset (swap_data d)) = snd (poffset d)" "fst (pmy (swap_data d)) = swap_word (snd (pmy d))"
  "fst (pat (swap_data d)) = swap_word (snd (pat d))" "pwithin (swap_data d) = swap_within (pwithin d)"
  by (simp_all add: swap_data_def)

lemma fit_top_swap: "swap_point (fit_top d p) = fit_left (swap_data d) (swap_point p)"
  unfolding fit_top_def fit_left_def Let_def if_distrib[of swap_point] swap_point_simps swap_data_simps swap_within_simps ..

lemma flip_top_swap: "swap_point (flip_top d p) = flip_left (swap_data d) (swap_point p)"
  unfolding flip_top_def flip_left_def Let_def if_distrib[of swap_point] swap_point_simps swap_data_simps swap_within_simps swap_word_iff ..

subsection \<open>Properties\<close>

definition area_left :: "within_info \<Rightarrow> rat" where
  "area_left w = (if kind w = IsWindow then scrollLeft w else pleft (woffset w))"

definition area_top :: "within_info \<Rightarrow> rat" where
  "area_top w = (if kind w = IsWindow then scrollTop w else ptop (woffset w))"

lemma area_top_swap: "area_top w = area_left (swap_within w)"
  by (simp add: area_top_def area_left_def)

lemma fit_left_inside:
  assumes "collisionWidth d \<le> wwidth (pwithin d)" "0 \<le> area_left (pwithin d)"
  shows "area_left (pwithin d) \<le> pleft (fit_left d p) - marginLeft d"
    "pleft (fit_left d p) - marginLeft d + collisionWidth d \<le> area_left (pwithin d) + wwidth (pwithin d)"
    "ptop (fit_left d p) = ptop p"
proof -
  define a where "a = area_left (pwithin d)"
  have "fit_left d p =
      (if a - (pleft p - marginLeft d) > 0 then p\<lparr>pleft := a + marginLeft d\<rparr>
       else if pleft p - marginLeft d + collisionWidth d - wwidth (pwithin d) - a > 0
       then p\<lparr>pleft := marginLeft d - collisionWidth d + wwidth (pwithin d) + a\<rparr>
       else p\<lparr>pleft := max (marginLeft d) (pleft p)\<rparr>)"
    using assms(1) unfolding fit_left_def Let_def area_left_def[symmetric] a_def[symmetric] by (simp add: algebra_simps)
  then show "area_left (pwithin d) \<le> pleft (fit_left d p) - marginLeft d"
    "pleft (fit_left d p) - marginLeft d + collisionWidth d \<le> area_left (pwithin d) + wwidth (pwithin d)"
    "ptop (fit_left d p) = ptop p"
    using assms unfolding a_def[symmetric] by (auto simp: max_def)
qed

lemma fit_left_covers:
  assumes "collisionWidth d > wwidth (pwithin d)"
  shows "pleft (fit_left d p) \<le> area_left (pwithin d)"
    "area_left (pwithin d) + wwidth (pwithin d) \<le> pleft (fit_left d p) + collisionWidth d"
proof -
  define a where "a = area_left (pwithin d)"
  have "pleft (fit_left d p) = a \<or> pleft (fit_left d p) = a + wwidth (pwithin d) - collisionWidth d"
    using assms unfolding fit_left_def Let_def area_left_def[symmetric] a_def[symmetric] by (simp add: algebra_simps)
  with assms show "pleft (fit_left d p) \<le> area_left (pwithin d)"
    "area_left (pwithin d) + wwidth (pwithin d) \<le> pleft (fit_left d p) + collisionWidth d" unfolding a_def[symmetric] by auto
qed

text \<open>
  C19. Fitting moves an element that is small enough into the containing area, with its margins, in both directions, where the area
  does not start at a negative position.
\<close>

theorem fit_inside:
  assumes "collisionWidth d \<le> wwidth (pwithin d)" "collisionHeight d \<le> wheight (pwithin d)"
    and "0 \<le> area_left (pwithin d)" "0 \<le> area_top (pwithin d)"
  shows "let p' = collide_top ''fit'' d (collide_left ''fit'' d p) in
      area_left (pwithin d) \<le> pleft p' - marginLeft d
    \<and> pleft p' - marginLeft d + collisionWidth d \<le> area_left (pwithin d) + wwidth (pwithin d)
    \<and> area_top (pwithin d) \<le> ptop p' - marginTop d
    \<and> ptop p' - marginTop d + collisionHeight d \<le> area_top (pwithin d) + wheight (pwithin d)"
proof -
  let ?q = "fit_left d p" and ?p = "fit_top d (fit_left d p)"
  have s: "pleft (fit_left (swap_data d) (swap_point ?q)) = ptop ?p" "ptop (fit_left (swap_data d) (swap_point ?q)) = pleft ?p"
    unfolding fit_top_swap[symmetric] by simp_all
  have c: "collisionWidth (swap_data d) \<le> wwidth (pwithin (swap_data d))" "0 \<le> area_left (pwithin (swap_data d))"
    using assms(2,4) by (simp_all add: area_top_swap)
  have "pleft ?p = pleft ?q" using fit_left_inside(3)[OF c, of "swap_point ?q"] s by simp
  then show ?thesis
    using fit_left_inside[OF assms(1,3), of p] fit_left_inside(1,2)[OF c, of "swap_point ?q"] s
    by (simp add: collide_left_def collide_top_def area_top_swap Let_def)
qed

text \<open>Fitting an element that is too wide leaves none of the area uncovered.\<close>

theorem fit_covers_area:
  assumes "collisionWidth d > wwidth (pwithin d)"
  shows "pleft (collide_left ''fit'' d p) \<le> area_left (pwithin d)
    \<and> area_left (pwithin d) + wwidth (pwithin d) \<le> pleft (collide_left ''fit'' d p) + collisionWidth d"
  using fit_left_covers[OF assms, of p] by (simp add: collide_left_def)

text \<open>
  Where the area starts at a negative position, fitting may push an element out of it that was inside: the last case takes the
  larger of the position and the margin, whatever the area is.
\<close>

theorem fit_pushes_out:
  "\<exists>d p. collisionWidth d \<le> wwidth (pwithin d) \<and> area_left (pwithin d) \<le> pleft p \<and> pleft p + collisionWidth d \<le> area_left (pwithin d) + wwidth (pwithin d)
    \<and> marginLeft d = 0 \<and> pleft (fit_left d p) + collisionWidth d > area_left (pwithin d) + wwidth (pwithin d)"
proof -
  define w where "w = \<lparr>kind = IsElement, woffset = \<lparr>pleft = - 50, ptop = 0\<rparr>, scrollLeft = 0, scrollTop = 0, wwidth = 40, wheight = 40,
    overflowX = [], overflowY = [], scrollWidth = 40, scrollHeight = 40\<rparr>"
  define d where "d = \<lparr>targetWidth = 0, targetHeight = 0, elemWidth = 10, elemHeight = 10, marginLeft = 0, marginTop = 0, collisionWidth = 10,
    collisionHeight = 10, poffset = (0, 0), pmy = (''left'', ''top''), pat = (''left'', ''top''), pwithin = w\<rparr>"
  have "collisionWidth d \<le> wwidth (pwithin d) \<and> area_left (pwithin d) \<le> pleft \<lparr>pleft = - 40, ptop = 0\<rparr>
    \<and> pleft \<lparr>pleft = - 40, ptop = 0\<rparr> + collisionWidth d \<le> area_left (pwithin d) + wwidth (pwithin d)
    \<and> marginLeft d = 0 \<and> pleft (fit_left d \<lparr>pleft = - 40, ptop = 0\<rparr>) + collisionWidth d > area_left (pwithin d) + wwidth (pwithin d)"
    by (simp add: d_def w_def area_left_def fit_left_def Let_def)
  then show ?thesis by blast
qed

lemma if_moves:
  "(if a then if b then x else y else if c then if e then x else y else y) = y \<or> (if a then if b then x else y else if c then if e then x else y else y) = x"
  by simp

text \<open>
  Flipping puts the element where the mirrored options would have put it (left for right, the offset reversed), or leaves it
  where it is.
\<close>

theorem flip_mirrors:
  assumes base: "base_position sb raw options box = Inr (p, d)"
    and words: "fst (pmy d) \<in> {''left'', ''center'', ''right''}" "fst (pat d) \<in> {''left'', ''center'', ''right''}"
  shows "flip_left d p = p \<or> flip_left d p = p\<lparr>pleft := pleft (doffset (getDimensions (opt_of options)))
    + part ''left'' (fst (pat d)) (targetWidth d) - part ''left'' (fst (pmy d)) (elemWidth d) - fst (poffset d)\<rparr>"
proof -
  let ?tl = "pleft (doffset (getDimensions (opt_of options)))"
  have p: "pleft p = ?tl + part ''right'' (fst (pat d)) (targetWidth d) - part ''right'' (fst (pmy d)) (elemWidth d) + fst (poffset d)"
    using base by (auto simp: base_position_def Let_def split: sum.splits)
  let ?m = "(if fst (pmy d) = ''left'' then - elemWidth d else if fst (pmy d) = ''right'' then elemWidth d else 0)
    + (if fst (pat d) = ''left'' then targetWidth d else if fst (pat d) = ''right'' then - targetWidth d else 0) + - 2 * fst (poffset d)"
  have "pleft p + ?m = ?tl + part ''left'' (fst (pat d)) (targetWidth d) - part ''left'' (fst (pmy d)) (elemWidth d) - fst (poffset d)"
    unfolding p using words by (auto simp: part_def)
  moreover have "flip_left d p = p \<or> flip_left d p = p\<lparr>pleft := pleft p + ?m\<rparr>"
    unfolding flip_left_def Let_def by (rule if_moves)
  ultimately show ?thesis by metis
qed

subsection \<open>Witnesses\<close>

definition demo_window :: within_info where
  "demo_window = \<lparr>kind = IsWindow, woffset = \<lparr>pleft = 0, ptop = 0\<rparr>, scrollLeft = 0, scrollTop = 100, wwidth = 800, wheight = 600,
    overflowX = [], overflowY = [], scrollWidth = 800, scrollHeight = 2000\<rparr>"

definition demo_data :: position_data where
  "demo_data = \<lparr>targetWidth = 200, targetHeight = 20, elemWidth = 300, elemHeight = 400, marginLeft = 5, marginTop = 5, collisionWidth = 310,
    collisionHeight = 410, poffset = (0, 0), pmy = (''left'', ''top''), pat = (''left'', ''bottom''), pwithin = demo_window\<rparr>"

theorem fit_inside_witness:
  "let p' = collide_top ''fit'' demo_data (collide_left ''fit'' demo_data \<lparr>pleft = 700, ptop = 650\<rparr>)
   in pleft p' - 5 + 310 \<le> 800 \<and> ptop p' - 5 + 410 \<le> 700 \<and> 100 \<le> ptop p' - 5"
  using fit_inside[of demo_data "\<lparr>pleft = 700, ptop = 650\<rparr>"]
  by (simp add: demo_data_def demo_window_def area_left_def area_top_def Let_def)

theorem fit_covers_area_witness:
  "pleft (collide_left ''fit'' (demo_data\<lparr>collisionWidth := 900\<rparr>) \<lparr>pleft = 30, ptop = 0\<rparr>) \<le> 0"
  using fit_covers_area[of "demo_data\<lparr>collisionWidth := 900\<rparr>" "\<lparr>pleft = 30, ptop = 0\<rparr>"]
  by (simp add: demo_data_def demo_window_def area_left_def)

definition menu_options :: position_options where
  "menu_options = \<lparr>opt_my = Some ''left top'', opt_at = Some ''left bottom'', opt_of = ElementTarget 200 20 \<lparr>pleft = 700, ptop = 150\<rparr>, opt_collision = Some ''flip''\<rparr>"

definition menu_box :: elem_box where
  "menu_box = \<lparr>outerWidth = 300, outerHeight = 400, mLeft = 0, mTop = 0, mRight = 0, mBottom = 0\<rparr>"

theorem flip_mirrors_witness:
  "\<exists>p d. base_position 15 demo_window menu_options menu_box = Inr (p, d) \<and> pleft p = 700 \<and> (flip_left d p = p \<or> pleft (flip_left d p) = 600)"
proof -
  have n: "normal_option (Some ''left top'') = Inr (\<lparr>word = ''left'', shift = 0, percent = False\<rparr>, \<lparr>word = ''top'', shift = 0, percent = False\<rparr>)"
    "normal_option (Some ''left bottom'') = Inr (\<lparr>word = ''left'', shift = 0, percent = False\<rparr>, \<lparr>word = ''bottom'', shift = 0, percent = False\<rparr>)"
    by code_simp+
  obtain p d where b: "base_position 15 demo_window menu_options menu_box = Inr (p, d)" and f: "pleft p = 700" "fst (pmy d) = ''left''" "fst (pat d) = ''left''"
      "targetWidth d = 200" "elemWidth d = 300" "fst (poffset d) = 0"
    by (simp add: base_position_def menu_options_def menu_box_def n Let_def part_def getOffsets_def offset_value_def)
  from flip_mirrors[OF b] f have "flip_left d p = p \<or> pleft (flip_left d p) = 600" by (auto simp: part_def menu_options_def)
  with b f(1) show ?thesis by blast
qed

end
