(* ===== verification/UI_Menu.thy ===== *)
theory UI_Menu
  imports JSBase "HOL-Library.Sublist"
begin

text \<open>
  The menu widget of jQuery UI (\<open>docs/javadoc/*/jquery/jquery-ui.js\<close>), which shows the results of the search
  field. The document is a list of nodes, each a child of the menu's element or of a nested list; what the browser
  measures is a parameter, and timers are a list of what is still to run, so that they may run in any order.
  The handlers of the events that a menu triggers are parameters of its operations: the widget that owns the menu
  gives them, and they may use the menu again.
\<close>

subsection \<open>Calls that change a state and may throw\<close>

type_synonym 's res = "'s \<times> js_exn option"

definition ok :: "'s \<Rightarrow> 's res" where
  "ok s = (s, None)"

definition thn :: "'s res \<Rightarrow> ('s \<Rightarrow> 's res) \<Rightarrow> 's res" where
  "thn m f = (case snd m of None \<Rightarrow> f (fst m) | Some e \<Rightarrow> m)"

lemma thn_simps [simp]: "thn (ok s) f = f s" "thn (s, None) f = f s" "thn (s, Some e) f = (s, Some e)"
  by (simp_all add: thn_def ok_def)

lemma ok_sel [simp]: "fst (ok s) = s" "snd (ok s) = None"
  by (simp_all add: ok_def)

text \<open>A property of the state that a call keeps, whether or not it throws.\<close>

definition keeps_inv :: "('s \<Rightarrow> bool) \<Rightarrow> 's res \<Rightarrow> bool" where
  "keeps_inv K m \<longleftrightarrow> K (fst m)"

named_theorems keeps_rules

lemma keeps_ok [keeps_rules]: "K s \<Longrightarrow> keeps_inv K (ok s)"
  by (simp add: keeps_inv_def)

lemma keeps_thrown [keeps_rules]: "K s \<Longrightarrow> keeps_inv K (s, Some e)"
  by (simp add: keeps_inv_def)

lemma keeps_thn [keeps_rules]: "keeps_inv K m \<Longrightarrow> (\<And>s. K s \<Longrightarrow> keeps_inv K (f s)) \<Longrightarrow> keeps_inv K (thn m f)"
  by (cases m; cases "snd m") (auto simp: keeps_inv_def)

lemma keeps_cond [keeps_rules]: "(b \<Longrightarrow> keeps_inv K m) \<Longrightarrow> (\<not> b \<Longrightarrow> keeps_inv K m') \<Longrightarrow> keeps_inv K (if b then m else m')"
  by simp

lemma keeps_option [keeps_rules]:
  "(x = None \<Longrightarrow> keeps_inv K m) \<Longrightarrow> (\<And>y. x = Some y \<Longrightarrow> keeps_inv K (f y)) \<Longrightarrow> keeps_inv K (case x of None \<Rightarrow> m | Some y \<Rightarrow> f y)"
  by (simp split: option.split)

subsection \<open>Patterns made from text\<close>

text \<open>
  \<open>RegExp\<close> for the patterns that the widgets build: an optional start, and characters that stand for themselves, with a
  backslash in front or not. Other syntax is not modelled (\<open>None\<close>). The flag for case compares upper case letters.
\<close>

datatype rx = RStart | RLit char

definition rx_syntax :: "char \<Rightarrow> bool" where
  "rx_syntax c \<longleftrightarrow> c \<in> set ''$.*+?()[]{}|''"

fun rx_parse :: "string \<Rightarrow> rx list option" where
  "rx_parse [] = Some []"
| "rx_parse (c # s) =
     (if c = CHR 0x5C
      then (case s of
              [] \<Rightarrow> None
            | d # s' \<Rightarrow> if is_word_char d then None else map_option (\<lambda>r. RLit d # r) (rx_parse s'))
      else if c = CHR ''^'' then map_option (\<lambda>r. RStart # r) (rx_parse s)
      else if rx_syntax c then None
      else map_option (\<lambda>r. RLit c # r) (rx_parse s))"

fun rx_match :: "rx list \<Rightarrow> bool \<Rightarrow> string \<Rightarrow> bool" where
  "rx_match [] start s = True"
| "rx_match (RStart # r) start s = (start \<and> rx_match r start s)"
| "rx_match (RLit c # r) start [] = False"
| "rx_match (RLit c # r) start (d # s) = (upper_char c = upper_char d \<and> rx_match r False s)"

fun rx_search :: "rx list \<Rightarrow> bool \<Rightarrow> string \<Rightarrow> bool" where
  "rx_search r start [] = rx_match r start []"
| "rx_search r start (d # s) = (rx_match r start (d # s) \<or> rx_search r False s)"

definition rx_test :: "string \<Rightarrow> string \<Rightarrow> bool option" where
  "rx_test pattern s = map_option (\<lambda>r. rx_search r True s) (rx_parse pattern)"

definition rx_special :: "char \<Rightarrow> bool" where
  "rx_special c \<longleftrightarrow> c \<in> set ''-[]{}()*+?.,^$|#'' \<or> c = CHR 0x5C \<or> js_space c"

definition escapeRegex :: "string \<Rightarrow> string" where
  "escapeRegex s = concat (map (\<lambda>c. if rx_special c then [CHR 0x5C, c] else [c]) s)"

lemma rx_special_no_word: "rx_special c \<Longrightarrow> \<not> is_word_char c"
  by (auto simp: rx_special_def is_word_char_def js_space_def Let_def)

lemma rx_parse_escape [simp]: "rx_parse (escapeRegex s @ t) = map_option (\<lambda>r. map RLit s @ r) (rx_parse t)"
proof (induction s)
  case (Cons c s)
  have "\<not> rx_special c \<Longrightarrow> c \<noteq> CHR 0x5C \<and> c \<noteq> CHR ''^'' \<and> \<not> rx_syntax c" by (auto simp: rx_special_def rx_syntax_def)
  with Cons rx_special_no_word[of c] show ?case by (simp add: escapeRegex_def option.map_comp o_def)
qed (simp add: escapeRegex_def option.map_ident)

lemma rx_match_literal: "rx_match (map RLit p) b s \<longleftrightarrow> prefix (toUpperCase p) (toUpperCase s)"
proof (induction p arbitrary: b s)
  case (Cons c p)
  then show ?case by (cases s) (simp_all add: toUpperCase_def)
qed (simp add: toUpperCase_def)

lemma rx_search_literal: "rx_search (map RLit p) b s \<longleftrightarrow> sublist (toUpperCase p) (toUpperCase s)"
proof (induction s arbitrary: b)
  case Nil
  then show ?case by (simp only: rx_search.simps rx_match_literal) (simp add: toUpperCase_def)
next
  case (Cons d s)
  then show ?case by (simp only: rx_search.simps rx_match_literal) (simp add: toUpperCase_def sublist_Cons_right)
qed

lemma rx_search_no_start: "rx_search (RStart # r) False s = False"
  by (induction s) simp_all

lemma rx_search_start: "rx_search (RStart # map RLit p) True s \<longleftrightarrow> prefix (toUpperCase p) (toUpperCase s)"
  by (cases s) (simp_all add: rx_match_literal rx_search_no_start)

text \<open>Text from the user has no special meaning in a pattern: it is searched for, or compared with the beginning, as it is.\<close>

lemma rx_test_escape:
  "rx_test (escapeRegex p) s = Some (sublist (toUpperCase p) (toUpperCase s))"
  "rx_test (CHR ''^'' # escapeRegex p) s = Some (prefix (toUpperCase p) (toUpperCase s))"
  using rx_parse_escape[of p "[]"] by (simp_all add: rx_test_def rx_search_literal rx_search_start)

subsection \<open>State\<close>

text \<open>
  A node: the list it is a child of (0 is the element of the menu), the text of its wrapper, whether it matches the
  option \<open>items\<close>, its classes (\<open>ui-menu-item\<close>, \<open>ui-menu-divider\<close>, \<open>ui-state-disabled\<close>; \<open>ui-state-active\<close> on the wrapper)
  and the nested list it contains.
\<close>

record node =
  n_menu :: nat
  n_text :: string
  n_selected :: bool
  n_item :: bool
  n_divider :: bool
  n_disabled :: bool
  n_active :: bool
  n_sub :: "nat option"

record sublist_state =
  s_menu :: bool
  s_shown :: bool
  s_hidden :: bool
  s_expanded :: bool

text \<open>
  An event: its type, the nearest item and the nearest nested menu around its target, whether the target is inside a menu,
  contains a menu, or has itself the class of disabled elements, and the key with whether a modifier is held.
\<close>

record ev =
  ev_type :: string
  ev_item :: "nat option"
  ev_menu :: "nat option"
  ev_in_menu :: bool
  ev_has_menu :: bool
  ev_disabled :: bool
  keyCode :: nat
  modifierKey :: bool

datatype menu_act =
    CloseAct
  | OpenAct "nat list"
  | CollapseAct "ev option" bool
  | ForgetFilter
  | FocusAct "ev option" "nat list"
  | BlurAct ev

text \<open>
  The widget. \<open>active\<close> is null or a collection of at most one item, \<open>activeMenu\<close> a collection of lists; the timers that have not
  run are kept with their numbers, and \<open>timer\<close> and \<open>filterTimer\<close> are the numbers that are cleared. \<open>scrolled\<close> lists the
  scroll positions that were set.
\<close>

record menu =
  nodes :: "(nat \<times> node) list"
  lists :: "(nat \<times> sublist_state) list"
  active :: "nat list option"
  activeMenu :: "nat list"
  mouseHandled :: bool
  previousFilter :: string
  menu_timers :: "(nat \<times> menu_act) list"
  next_timer :: nat
  timer :: "nat option"
  filterTimer :: "nat option"
  menu_role :: "string option"
  activedescendant :: "nat list"
  menu_disabled :: bool
  scrolled :: "(nat \<times> rat) list"

text \<open>What is measured: whether the element scrolls, offsets, heights, scroll positions, and borders with paddings.\<close>

record geometry =
  hasScroll :: bool
  item_top :: "nat \<Rightarrow> rat"
  menu_top :: "nat \<Rightarrow> rat"
  menu_inset :: "nat \<Rightarrow> rat"
  menu_scroll :: "nat \<Rightarrow> rat"
  menu_height :: "nat \<Rightarrow> rat"
  item_height :: "nat \<Rightarrow> rat"
  element_height :: rat

type_synonym 's hook = "ev option \<Rightarrow> nat list \<Rightarrow> 's \<Rightarrow> 's res"

subsection \<open>The document\<close>

definition node_of :: "'a menu_scheme \<Rightarrow> nat \<Rightarrow> node option" where
  "node_of s i = map_of (nodes s) i"

definition node_test :: "(node \<Rightarrow> bool) \<Rightarrow> 'a menu_scheme \<Rightarrow> nat \<Rightarrow> bool" where
  "node_test P s i = (case node_of s i of None \<Rightarrow> False | Some n \<Rightarrow> P n)"

definition find_nodes :: "(node \<Rightarrow> bool) \<Rightarrow> 'a menu_scheme \<Rightarrow> nat list \<Rightarrow> nat list" where
  "find_nodes P s ms = map fst (filter (\<lambda>(i, n). n_menu n \<in> set ms \<and> P n) (nodes s))"

definition find_items :: "'a menu_scheme \<Rightarrow> nat list \<Rightarrow> nat list" where
  "find_items = find_nodes n_selected"

definition parent_menus :: "'a menu_scheme \<Rightarrow> nat list \<Rightarrow> nat list" where
  "parent_menus s is = remdups (map n_menu (List.map_filter (node_of s) is))"

definition siblings :: "'a menu_scheme \<Rightarrow> nat \<Rightarrow> nat list" where
  "siblings s i = (case node_of s i of None \<Rightarrow> [] | Some n \<Rightarrow> find_nodes (\<lambda>_. True) s [n_menu n])"

definition nextAll :: "'a menu_scheme \<Rightarrow> nat list \<Rightarrow> nat list" where
  "nextAll s is = concat (map (\<lambda>i. filter (node_test n_item s) (tl (dropWhile (\<lambda>j. j \<noteq> i) (siblings s i)))) is)"

definition prevAll :: "'a menu_scheme \<Rightarrow> nat list \<Rightarrow> nat list" where
  "prevAll s is = concat (map (\<lambda>i. rev (filter (node_test n_item s) (takeWhile (\<lambda>j. j \<noteq> i) (siblings s i)))) is)"

definition next_sibling :: "'a menu_scheme \<Rightarrow> nat list \<Rightarrow> nat list" where
  "next_sibling s is = concat (map (\<lambda>i. take 1 (tl (dropWhile (\<lambda>j. j \<noteq> i) (siblings s i)))) is)"

text \<open>The lists around a list, from the inside, and the nested menus below some lists.\<close>

definition owner_node :: "'a menu_scheme \<Rightarrow> nat \<Rightarrow> (nat \<times> node) option" where
  "owner_node s m = find (\<lambda>(i, n). n_sub n = Some m) (nodes s)"

fun ancestors :: "'a menu_scheme \<Rightarrow> nat \<Rightarrow> nat \<Rightarrow> nat list" where
  "ancestors s 0 m = []"
| "ancestors s (Suc k) m = (case owner_node s m of None \<Rightarrow> [] | Some (i, n) \<Rightarrow> n_menu n # ancestors s k (n_menu n))"

fun closest_item :: "'a menu_scheme \<Rightarrow> nat \<Rightarrow> nat \<Rightarrow> nat option" where
  "closest_item s 0 m = None"
| "closest_item s (Suc k) m =
     (case owner_node s m of None \<Rightarrow> None | Some (i, n) \<Rightarrow> if n_item n then Some i else closest_item s k (n_menu n))"

definition parents_of :: "'a menu_scheme \<Rightarrow> nat \<Rightarrow> nat list" where
  "parents_of s m = ancestors s (length (nodes s)) m"

definition parent_item :: "'a menu_scheme \<Rightarrow> nat list \<Rightarrow> nat list" where
  "parent_item s is = List.map_filter (closest_item s (length (nodes s))) (parent_menus s is)"

definition is_menu :: "'a menu_scheme \<Rightarrow> nat \<Rightarrow> bool" where
  "is_menu s m = (case map_of (lists s) m of None \<Rightarrow> False | Some l \<Rightarrow> s_menu l)"

definition submenus_of :: "'a menu_scheme \<Rightarrow> nat list \<Rightarrow> nat list" where
  "submenus_of s is = filter (is_menu s) (List.map_filter (\<lambda>i. Option.bind (node_of s i) n_sub) is)"

definition below :: "'a menu_scheme \<Rightarrow> nat list \<Rightarrow> nat \<Rightarrow> bool" where
  "below s ms m = list_ex (\<lambda>a. a \<in> set ms) (parents_of s m)"

definition map_nodes :: "(nat \<Rightarrow> node \<Rightarrow> node) \<Rightarrow> 'a menu_scheme \<Rightarrow> 'a menu_scheme" where
  "map_nodes f s = s\<lparr>nodes := map (\<lambda>(i, n). (i, f i n)) (nodes s)\<rparr>"

definition map_lists :: "(nat \<Rightarrow> sublist_state \<Rightarrow> sublist_state) \<Rightarrow> 'a menu_scheme \<Rightarrow> 'a menu_scheme" where
  "map_lists f s = s\<lparr>lists := map (\<lambda>(i, l). (i, f i l)) (lists s)\<rparr>"

definition set_active :: "bool \<Rightarrow> nat list \<Rightarrow> 'a menu_scheme \<Rightarrow> 'a menu_scheme" where
  "set_active b is = map_nodes (\<lambda>i n. if i \<in> set is then n\<lparr>n_active := b\<rparr> else n)"

definition clear_timer :: "nat option \<Rightarrow> 'a menu_scheme \<Rightarrow> 'a menu_scheme" where
  "clear_timer h s = s\<lparr>menu_timers := filter (\<lambda>(t, a). Some t \<noteq> h) (menu_timers s)\<rparr>"

definition delay :: "menu_act \<Rightarrow> 'a menu_scheme \<Rightarrow> 'a menu_scheme" where
  "delay a s = s\<lparr>menu_timers := menu_timers s @ [(next_timer s, a)], next_timer := Suc (next_timer s)\<rparr>"

definition delay_timer :: "menu_act \<Rightarrow> 'a menu_scheme \<Rightarrow> 'a menu_scheme" where
  "delay_timer a s = (delay a s)\<lparr>timer := Some (next_timer s)\<rparr>"

definition ev_is :: "string \<Rightarrow> ev option \<Rightarrow> bool" where
  "ev_is t e = (case e of None \<Rightarrow> False | Some e \<Rightarrow> ev_type e = t)"

definition ev_starts :: "string \<Rightarrow> ev option \<Rightarrow> bool" where
  "ev_starts t e = (case e of None \<Rightarrow> False | Some e \<Rightarrow> take (length t) (ev_type e) = t)"

subsection \<open>Focus and blur\<close>

definition menu_blur :: "'a menu_scheme hook \<Rightarrow> ev option \<Rightarrow> bool \<Rightarrow> 'a menu_scheme \<Rightarrow> 'a menu_scheme res" where
  "menu_blur hb e fromFocus s =
     (let s1 = (if \<not> fromFocus then clear_timer (timer s) s else s) in
      case active s1 of
        None \<Rightarrow> ok s1
      | Some a \<Rightarrow> thn (hb e a (set_active False a s1)) (\<lambda>s2. ok (s2\<lparr>active := None\<rparr>)))"

definition scroll_menu :: "geometry \<Rightarrow> nat \<Rightarrow> nat \<Rightarrow> rat option" where
  "scroll_menu g m i =
     (let offset = item_top g i - menu_top g m - menu_inset g m in
      if offset < 0 then Some (menu_scroll g m + offset)
      else if offset + item_height g i > menu_height g m
      then Some (menu_scroll g m + offset - menu_height g m + item_height g i)
      else None)"

definition menu_scrollIntoView :: "geometry \<Rightarrow> nat list \<Rightarrow> 'a menu_scheme \<Rightarrow> 'a menu_scheme res" where
  "menu_scrollIntoView g is s =
     (if hasScroll g
      then (case (is, activeMenu s) of
              (i # _, m # _) \<Rightarrow> (case scroll_menu g m i of None \<Rightarrow> ok s | Some y \<Rightarrow> ok (s\<lparr>scrolled := scrolled s @ [(m, y)]\<rparr>))
            | _ \<Rightarrow> (s, Some TypeError))
      else ok s)"

definition menu_close :: "nat list option \<Rightarrow> 'a menu_scheme \<Rightarrow> 'a menu_scheme" where
  "menu_close startMenu s =
     (let start = (case startMenu of Some ms \<Rightarrow> ms | None \<Rightarrow> (case active s of Some a \<Rightarrow> parent_menus s a | None \<Rightarrow> [0]))
      in map_lists (\<lambda>m l. if s_menu l \<and> below s start m then l\<lparr>s_shown := False, s_hidden := True, s_expanded := False\<rparr> else l) s)"

definition startOpening :: "nat list \<Rightarrow> 'a menu_scheme \<Rightarrow> 'a menu_scheme" where
  "startOpening submenu s =
     (let s1 = clear_timer (timer s) s in
      case Option.bind (case submenu of [] \<Rightarrow> None | m # _ \<Rightarrow> Some m) (map_of (lists s1)) of
        None \<Rightarrow> s1
      | Some l \<Rightarrow> if \<not> s_hidden l then s1 else delay_timer (OpenAct submenu) s1)"

definition menu_open :: "nat list \<Rightarrow> 'a menu_scheme \<Rightarrow> 'a menu_scheme" where
  "menu_open submenu s =
     (let s1 = clear_timer (timer s) s;
          around = concat (map (parents_of s1) submenu);
          s2 = map_lists (\<lambda>m l. if s_menu l \<and> below s1 [0] m \<and> m \<notin> set around then l\<lparr>s_shown := False, s_hidden := True\<rparr> else l) s1
      in map_lists (\<lambda>m l. if m \<in> set submenu then l\<lparr>s_shown := True, s_hidden := False, s_expanded := True\<rparr> else l) s2)"

definition menu_focus ::
  "geometry \<Rightarrow> 'a menu_scheme hook \<Rightarrow> 'a menu_scheme hook \<Rightarrow> ev option \<Rightarrow> nat list \<Rightarrow> 'a menu_scheme \<Rightarrow> 'a menu_scheme res" where
  "menu_focus g hb hf e item s =
     thn (menu_blur hb e (ev_is ''focus'' e) s) (\<lambda>s1.
     thn (menu_scrollIntoView g item s1) (\<lambda>s2.
       (let a = take 1 item;
            s3 = set_active True a (s2\<lparr>active := Some a\<rparr>);
            s4 = (if menu_role s3 \<noteq> None then s3\<lparr>activedescendant := a\<rparr> else s3);
            s5 = set_active True (parent_item s4 a) s4;
            s6 = (if ev_is ''keydown'' e then menu_close None s5 else delay_timer CloseAct s5);
            nested = submenus_of s6 item;
            s7 = (if nested \<noteq> [] \<and> ev_starts ''mouse'' e then startOpening nested s6 else s6)
        in hf e item (s7\<lparr>activeMenu := parent_menus s7 item\<rparr>))))"

definition collapseAll :: "ev option \<Rightarrow> bool \<Rightarrow> 'a menu_scheme \<Rightarrow> 'a menu_scheme" where
  "collapseAll e all s = delay_timer (CollapseAct e all) (clear_timer (timer s) s)"

definition collapse_now :: "'a menu_scheme hook \<Rightarrow> ev option \<Rightarrow> bool \<Rightarrow> 'a menu_scheme \<Rightarrow> 'a menu_scheme res" where
  "collapse_now hb e all s =
     (let current = (if all then [0] else (case Option.bind e ev_menu of None \<Rightarrow> [0] | Some m \<Rightarrow> [m]))
      in thn (menu_blur hb e False (menu_close (Some current) s)) (\<lambda>s1.
           ok ((map_nodes (\<lambda>i n. if n_menu n \<in> set current \<or> below s1 current (n_menu n) then n\<lparr>n_active := False\<rparr> else n) s1)
                \<lparr>activeMenu := current\<rparr>)))"

definition menu_collapse ::
  "geometry \<Rightarrow> 'a menu_scheme hook \<Rightarrow> 'a menu_scheme hook \<Rightarrow> ev option \<Rightarrow> 'a menu_scheme \<Rightarrow> 'a menu_scheme res" where
  "menu_collapse g hb hf e s =
     (case active s of
        None \<Rightarrow> ok s
      | Some a \<Rightarrow>
          (let newItem = parent_item s a in
           if newItem \<noteq> [] then menu_focus g hb hf e newItem (menu_close None s) else ok s))"

definition menu_expand :: "ev option \<Rightarrow> 'a menu_scheme \<Rightarrow> 'a menu_scheme" where
  "menu_expand e s =
     (case active s of
        None \<Rightarrow> s
      | Some a \<Rightarrow>
          (let newItem = take 1 (find_items s (submenus_of s a)) in
           if newItem \<noteq> [] then delay (FocusAct e newItem) (menu_open (parent_menus s newItem) s) else s))"

subsection \<open>Moving through the items\<close>

datatype direction = Next | Prev | First | Last

definition end_of :: "direction \<Rightarrow> nat list \<Rightarrow> nat list" where
  "end_of d is = (if is = [] then [] else if d = First then [hd is] else [last is])"

definition isFirstItem :: "'a menu_scheme \<Rightarrow> bool" where
  "isFirstItem s = (case active s of None \<Rightarrow> False | Some a \<Rightarrow> prevAll s a = [])"

definition isLastItem :: "'a menu_scheme \<Rightarrow> bool" where
  "isLastItem s = (case active s of None \<Rightarrow> False | Some a \<Rightarrow> nextAll s a = [])"

definition move_target :: "direction \<Rightarrow> direction \<Rightarrow> 'a menu_scheme \<Rightarrow> nat list" where
  "move_target d fil s =
     (let nxt = (case active s of
                   None \<Rightarrow> []
                 | Some a \<Rightarrow>
                     (case d of
                        First \<Rightarrow> end_of Last (prevAll s a)
                      | Last \<Rightarrow> end_of Last (nextAll s a)
                      | Next \<Rightarrow> end_of First (nextAll s a)
                      | Prev \<Rightarrow> end_of First (prevAll s a)))
      in if nxt = [] \<or> active s = None then end_of fil (find_items s (activeMenu s)) else nxt)"

definition menu_move ::
  "geometry \<Rightarrow> 'a menu_scheme hook \<Rightarrow> 'a menu_scheme hook \<Rightarrow> direction \<Rightarrow> direction \<Rightarrow> ev option \<Rightarrow> 'a menu_scheme \<Rightarrow> 'a menu_scheme res" where
  "menu_move g hb hf d fil e s = menu_focus g hb hf e (move_target d fil s) s"

definition menu_next :: "geometry \<Rightarrow> 'a menu_scheme hook \<Rightarrow> 'a menu_scheme hook \<Rightarrow> ev option \<Rightarrow> 'a menu_scheme \<Rightarrow> 'a menu_scheme res" where
  "menu_next g hb hf e s = menu_move g hb hf Next First e s"

definition menu_previous :: "geometry \<Rightarrow> 'a menu_scheme hook \<Rightarrow> 'a menu_scheme hook \<Rightarrow> ev option \<Rightarrow> 'a menu_scheme \<Rightarrow> 'a menu_scheme res" where
  "menu_previous g hb hf e s = menu_move g hb hf Prev Last e s"

text \<open>The loop of a page: the last item that is visited, the first that fails the test.\<close>

fun page_item :: "(nat \<Rightarrow> bool) \<Rightarrow> nat list \<Rightarrow> nat list" where
  "page_item P [] = []"
| "page_item P (i # is) = (if P i \<and> is \<noteq> [] then page_item P is else [i])"

definition nextPage :: "geometry \<Rightarrow> 'a menu_scheme hook \<Rightarrow> 'a menu_scheme hook \<Rightarrow> ev option \<Rightarrow> 'a menu_scheme \<Rightarrow> 'a menu_scheme res" where
  "nextPage g hb hf e s =
     (case active s of
        None \<Rightarrow> menu_next g hb hf e s
      | Some a \<Rightarrow>
          if isLastItem s then ok s
          else if hasScroll g
          then menu_focus g hb hf e
                 (page_item (\<lambda>i. item_top g i - item_top g (hd a) - element_height g < 0) (nextAll s a)) s
          else menu_focus g hb hf e (end_of Last (find_items s (activeMenu s))) s)"

definition previousPage :: "geometry \<Rightarrow> 'a menu_scheme hook \<Rightarrow> 'a menu_scheme hook \<Rightarrow> ev option \<Rightarrow> 'a menu_scheme \<Rightarrow> 'a menu_scheme res" where
  "previousPage g hb hf e s =
     (case active s of
        None \<Rightarrow> menu_next g hb hf e s
      | Some a \<Rightarrow>
          if isFirstItem s then ok s
          else if hasScroll g
          then menu_focus g hb hf e
                 (page_item (\<lambda>i. item_top g i - item_top g (hd a) + element_height g > 0) (prevAll s a)) s
          else menu_focus g hb hf e (end_of First (find_items s (activeMenu s))) s)"

subsection \<open>Selection\<close>

definition menu_select :: "'a menu_scheme hook \<Rightarrow> ev option \<Rightarrow> 'a menu_scheme \<Rightarrow> 'a menu_scheme res" where
  "menu_select hs e s =
     (case (active s, e) of
        (None, None) \<Rightarrow> (s, Some TypeError)
      | _ \<Rightarrow>
          (let a = (case active s of Some a \<Rightarrow> a | None \<Rightarrow> (case Option.bind e ev_item of None \<Rightarrow> [] | Some i \<Rightarrow> [i]));
               s1 = s\<lparr>active := Some a\<rparr>;
               s2 = (if submenus_of s1 a = [] then collapseAll e True s1 else s1)
           in hs e a s2))"

definition menu_activate :: "'a menu_scheme hook \<Rightarrow> ev option \<Rightarrow> 'a menu_scheme \<Rightarrow> 'a menu_scheme res" where
  "menu_activate hs e s =
     (case active s of
        None \<Rightarrow> ok s
      | Some a \<Rightarrow>
          if list_ex (node_test n_disabled s) a then ok s
          else if submenus_of s a \<noteq> [] then ok (menu_expand e s)
          else menu_select hs e s)"

definition filterMenuItems :: "string \<Rightarrow> 'a menu_scheme \<Rightarrow> nat list" where
  "filterMenuItems character s =
     filter (node_test (\<lambda>n. n_item n \<and> rx_test (CHR ''^'' # escapeRegex character) (js_trim (n_text n)) = Some True) s)
       (find_items s (activeMenu s))"

text \<open>The characters of key codes: those of a keyboard are below 256. Codes 96 to 105 are the digits of the number pad.\<close>

definition fromCharCode :: "nat \<Rightarrow> string" where
  "fromCharCode k = [char_of k]"

definition key_character :: "nat \<Rightarrow> string" where
  "key_character k = (if 96 \<le> k \<and> k \<le> 105 then [char_of (48 + (k - 96))] else fromCharCode k)"

definition typeahead ::
  "geometry \<Rightarrow> 'a menu_scheme hook \<Rightarrow> 'a menu_scheme hook \<Rightarrow> ev \<Rightarrow> 'a menu_scheme \<Rightarrow> 'a menu_scheme res" where
  "typeahead g hb hf e s =
     (let prev = previousFilter s;
          skip = (key_character (keyCode e) = prev);
          character = (if skip then key_character (keyCode e) else prev @ key_character (keyCode e));
          s1 = clear_timer (filterTimer s) s;
          found = filterMenuItems character s1
      in if skip \<and> active s1 = None then (s1, Some TypeError)
         else (let a = (case active s1 of None \<Rightarrow> [] | Some a \<Rightarrow> a);
                   found1 = (if skip \<and> next_sibling s1 a \<noteq> [] \<and> hd (next_sibling s1 a) \<in> set found then nextAll s1 a else found);
                   character2 = (if found1 = [] then fromCharCode (keyCode e) else character);
                   found2 = (if found1 = [] then filterMenuItems character2 s1 else found1)
               in if found2 \<noteq> []
                  then thn (menu_focus g hb hf (Some e) found2 s1) (\<lambda>s2.
                         ok ((delay ForgetFilter s2)\<lparr>previousFilter := character2, filterTimer := Some (next_timer s2)\<rparr>))
                  else ok (s1\<lparr>previousFilter := []\<rparr>)))"

text \<open>Key codes (\<open>jQuery.ui.keyCode\<close>).\<close>

definition DOWN :: nat where "DOWN = 40"
definition END_key :: nat where "END_key = 35"
definition ENTER :: nat where "ENTER = 13"
definition ESCAPE :: nat where "ESCAPE = 27"
definition HOME :: nat where "HOME = 36"
definition LEFT :: nat where "LEFT = 37"
definition PAGE_DOWN :: nat where "PAGE_DOWN = 34"
definition PAGE_UP :: nat where "PAGE_UP = 33"
definition RIGHT :: nat where "RIGHT = 39"
definition SPACE :: nat where "SPACE = 32"
definition TAB :: nat where "TAB = 9"
definition UP :: nat where "UP = 38"

lemmas key_codes = DOWN_def END_key_def ENTER_def ESCAPE_def HOME_def LEFT_def PAGE_DOWN_def PAGE_UP_def RIGHT_def SPACE_def TAB_def UP_def

definition menu_keydown ::
  "geometry \<Rightarrow> 'a menu_scheme hook \<Rightarrow> 'a menu_scheme hook \<Rightarrow> 'a menu_scheme hook \<Rightarrow> ev \<Rightarrow> 'a menu_scheme \<Rightarrow> 'a menu_scheme res" where
  "menu_keydown g hb hf hs e s =
     (if keyCode e = PAGE_UP then previousPage g hb hf (Some e) s
      else if keyCode e = PAGE_DOWN then nextPage g hb hf (Some e) s
      else if keyCode e = HOME then menu_move g hb hf First First (Some e) s
      else if keyCode e = END_key then menu_move g hb hf Last Last (Some e) s
      else if keyCode e = UP then menu_previous g hb hf (Some e) s
      else if keyCode e = DOWN then menu_next g hb hf (Some e) s
      else if keyCode e = LEFT then menu_collapse g hb hf (Some e) s
      else if keyCode e = RIGHT
      then (case active s of
              None \<Rightarrow> ok s
            | Some a \<Rightarrow> if list_ex (node_test n_disabled s) a then ok s else ok (menu_expand (Some e) s))
      else if keyCode e = ENTER \<or> keyCode e = SPACE then menu_activate hs (Some e) s
      else if keyCode e = ESCAPE then menu_collapse g hb hf (Some e) s
      else typeahead g hb hf e s)"

subsection \<open>Refreshing\<close>

definition isDivider :: "string \<Rightarrow> bool" where
  "isDivider s = list_all (\<lambda>c. c = CHR ''-'' \<or> js_space c) s"

definition refresh_node :: "nat \<Rightarrow> node \<Rightarrow> node" where
  "refresh_node i n =
     (let n1 = (if n_selected n \<and> \<not> n_item n \<and> isDivider (n_text n) then n\<lparr>n_divider := True\<rparr> else n)
      in if n_selected n1 \<and> \<not> n_item n1 \<and> \<not> n_divider n1 then n1\<lparr>n_item := True\<rparr> else n1)"

definition refresh_list :: "nat \<Rightarrow> sublist_state \<Rightarrow> sublist_state" where
  "refresh_list m l = (if \<not> s_menu l then \<lparr>s_menu = True, s_shown = False, s_hidden = True, s_expanded = False\<rparr> else l)"

definition menu_refresh :: "'a menu_scheme hook \<Rightarrow> 'a menu_scheme \<Rightarrow> 'a menu_scheme res" where
  "menu_refresh hb s =
     (let s1 = map_nodes refresh_node (map_lists refresh_list s) in
      case active s1 of
        None \<Rightarrow> ok s1
      | Some a \<Rightarrow> if a \<noteq> [] \<and> node_of s1 (hd a) \<noteq> None then ok s1 else menu_blur hb None False s1)"

subsection \<open>Events\<close>

text \<open>
  The handlers that \<open>_create\<close> binds run unless the menu, or the element they are bound to, is disabled. A click goes from the
  item around its target to the items around that one, and then to the document.
\<close>

datatype menu_event =
    MClick ev bool bool
  | MEnter ev nat
  | MLeave ev
  | MFocus ev bool
  | MBlur ev
  | MKeydown ev
  | MTimer nat bool
  | MDisable bool

definition click_runs :: "ev \<Rightarrow> nat \<Rightarrow> 'a menu_scheme \<Rightarrow> bool" where
  "click_runs e cur s \<longleftrightarrow> \<not> menu_disabled s \<and> \<not> node_test n_disabled s cur \<and> \<not> mouseHandled s \<and> \<not> ev_disabled e"

definition click_item :: "'a menu_scheme hook \<Rightarrow> bool \<Rightarrow> bool \<Rightarrow> ev \<Rightarrow> nat \<Rightarrow> 'a menu_scheme \<Rightarrow> 'a menu_scheme res" where
  "click_item hs stopped focusInMenu e cur s =
     (if \<not> click_runs e cur s then ok s
      else thn (menu_select hs (Some e) s) (\<lambda>s1.
        (let s2 = (if \<not> stopped then s1\<lparr>mouseHandled := True\<rparr> else s1) in
         if ev_has_menu e then ok (menu_expand (Some e) s2)
         else if focusInMenu
         then (case active s2 of
                 None \<Rightarrow> ok s2
               | Some a \<Rightarrow> if parent_menus s2 a = [0] then ok (clear_timer (timer s2) s2) else ok s2)
         else ok s2)))"

text \<open>The items around an item, from the inside.\<close>

definition item_path :: "'a menu_scheme \<Rightarrow> nat \<Rightarrow> nat list" where
  "item_path s i =
     (case node_of s i of
        None \<Rightarrow> []
      | Some n \<Rightarrow> filter (node_test n_item s) (i # List.map_filter (\<lambda>m. map_option fst (owner_node s m)) (n_menu n # parents_of s (n_menu n))))"

definition document_click :: "ev \<Rightarrow> 'a menu_scheme \<Rightarrow> 'a menu_scheme" where
  "document_click e s =
     (if menu_disabled s then s
      else (let s1 = (if \<not> ev_in_menu e then collapseAll (Some e) False s else s) in s1\<lparr>mouseHandled := False\<rparr>))"

text \<open>\<open>stopped\<close> says whether the handlers of the selection stop the event.\<close>

fun click_path :: "'a menu_scheme hook \<Rightarrow> bool \<Rightarrow> bool \<Rightarrow> ev \<Rightarrow> nat list \<Rightarrow> 'a menu_scheme \<Rightarrow> 'a menu_scheme res" where
  "click_path hs stopped focusInMenu e [] s = ok (document_click e s)"
| "click_path hs stopped focusInMenu e (i # is) s =
     thn (click_item hs stopped focusInMenu e i s) (\<lambda>s1.
       if stopped \<and> click_runs e i s then ok s1 else click_path hs stopped focusInMenu e is s1)"

definition mouse_enter ::
  "geometry \<Rightarrow> 'a menu_scheme hook \<Rightarrow> 'a menu_scheme hook \<Rightarrow> ev \<Rightarrow> nat \<Rightarrow> 'a menu_scheme \<Rightarrow> 'a menu_scheme res" where
  "mouse_enter g hb hf e cur s =
     (if menu_disabled s \<or> node_test n_disabled s cur \<or> previousFilter s \<noteq> [] \<or> ev_item e \<noteq> Some cur then ok s
      else menu_focus g hb hf (Some e) [cur] (set_active False (filter (\<lambda>i. i \<noteq> cur) (siblings s cur)) s))"

fun run_act ::
  "geometry \<Rightarrow> 'a menu_scheme hook \<Rightarrow> 'a menu_scheme hook \<Rightarrow> bool \<Rightarrow> menu_act \<Rightarrow> 'a menu_scheme \<Rightarrow> 'a menu_scheme res" where
  "run_act g hb hf inside CloseAct s = ok (menu_close None s)"
| "run_act g hb hf inside (OpenAct m) s = ok (menu_open m (menu_close None s))"
| "run_act g hb hf inside (CollapseAct e all) s = collapse_now hb e all s"
| "run_act g hb hf inside ForgetFilter s = ok (s\<lparr>previousFilter := []\<rparr>)"
| "run_act g hb hf inside (FocusAct e is) s = menu_focus g hb hf e is s"
| "run_act g hb hf inside (BlurAct e) s = (if \<not> inside then ok (collapseAll (Some e) False s) else ok s)"

text \<open>A timer runs once; \<open>inside\<close> says whether the focus is inside the menu when it runs.\<close>

definition run_menu_timer ::
  "geometry \<Rightarrow> 'a menu_scheme hook \<Rightarrow> 'a menu_scheme hook \<Rightarrow> bool \<Rightarrow> nat \<Rightarrow> 'a menu_scheme \<Rightarrow> 'a menu_scheme res" where
  "run_menu_timer g hb hf inside t s =
     (case map_of (menu_timers s) t of
        None \<Rightarrow> ok s
      | Some a \<Rightarrow> run_act g hb hf inside a (s\<lparr>menu_timers := filter (\<lambda>(u, b). u \<noteq> t) (menu_timers s)\<rparr>))"

fun menu_handle ::
  "'a menu_scheme hook \<Rightarrow> 'a menu_scheme hook \<Rightarrow> 'a menu_scheme hook \<Rightarrow> geometry \<times> menu_event \<Rightarrow> 'a menu_scheme \<Rightarrow> 'a menu_scheme res" where
  "menu_handle hb hf hs (g, MClick e stopped inMenu) s =
     click_path hs stopped inMenu e (case ev_item e of None \<Rightarrow> [] | Some i \<Rightarrow> item_path s i) s"
| "menu_handle hb hf hs (g, MEnter e i) s = mouse_enter g hb hf e i s"
| "menu_handle hb hf hs (g, MLeave e) s = (if menu_disabled s then ok s else ok (collapseAll (Some e) False s))"
| "menu_handle hb hf hs (g, MFocus e keepActiveItem) s =
     (if menu_disabled s \<or> keepActiveItem then ok s
      else menu_focus g hb hf (Some e) (case active s of Some a \<Rightarrow> a | None \<Rightarrow> take 1 (find_items s [0])) s)"
| "menu_handle hb hf hs (g, MBlur e) s = (if menu_disabled s then ok s else ok (delay (BlurAct e) s))"
| "menu_handle hb hf hs (g, MKeydown e) s = (if menu_disabled s then ok s else menu_keydown g hb hf hs e s)"
| "menu_handle hb hf hs (g, MTimer t inside) s = run_menu_timer g hb hf inside t s"
| "menu_handle hb hf hs (g, MDisable b) s = ok (s\<lparr>menu_disabled := b\<rparr>)"

text \<open>An exception ends a handler, not the page: the next event finds the state that was left.\<close>

definition menu_run ::
  "'a menu_scheme hook \<Rightarrow> 'a menu_scheme hook \<Rightarrow> 'a menu_scheme hook \<Rightarrow> (geometry \<times> menu_event) list \<Rightarrow> 'a menu_scheme \<Rightarrow> 'a menu_scheme" where
  "menu_run hb hf hs evs s = fold (\<lambda>e s. fst (menu_handle hb hf hs e s)) evs s"

subsection \<open>The invariant\<close>

text \<open>
  Timers have different numbers, older than the next one, and the handles \<open>timer\<close> and \<open>filterTimer\<close> are different; at most one
  item is active. As long as the typed text is remembered, the timer that forgets it is still to run.
\<close>

definition menu_ok :: "'a menu_scheme \<Rightarrow> bool" where
  "menu_ok s \<longleftrightarrow>
     distinct (map fst (menu_timers s)) \<and> list_all (\<lambda>(t, a). t < next_timer s) (menu_timers s)
     \<and> list_all (\<lambda>h. \<forall>t. h = Some t \<longrightarrow> t < next_timer s) [timer s, filterTimer s]
     \<and> (timer s = filterTimer s \<longrightarrow> timer s = None)
     \<and> (\<forall>a. active s = Some a \<longrightarrow> length a \<le> 1)"

definition filter_ok :: "'a menu_scheme \<Rightarrow> bool" where
  "filter_ok s \<longleftrightarrow> previousFilter s = [] \<or> (\<exists>h. filterTimer s = Some h \<and> (h, ForgetFilter) \<in> set (menu_timers s))"

definition menu_inv :: "bool \<Rightarrow> 'a menu_scheme \<Rightarrow> bool" where
  "menu_inv b s \<longleftrightarrow> menu_ok s \<and> (b \<longrightarrow> filter_ok s)"

lemma menu_inv_cong:
  assumes "menu_timers s' = menu_timers s" "next_timer s' = next_timer s" "timer s' = timer s" "filterTimer s' = filterTimer s"
    "previousFilter s' = previousFilter s" "active s' = active s"
  shows "menu_inv b s' = menu_inv b s"
  using assms by (simp add: menu_inv_def menu_ok_def filter_ok_def)

lemma menu_inv_updates [simp]:
  "menu_inv b (map_nodes f s) = menu_inv b s" "menu_inv b (map_lists h s) = menu_inv b s" "menu_inv b (set_active v is s) = menu_inv b s"
  "menu_inv b (menu_close start s) = menu_inv b s"
  "menu_inv b (s\<lparr>activeMenu := ms\<rparr>) = menu_inv b s" "menu_inv b (s\<lparr>scrolled := ys\<rparr>) = menu_inv b s" "menu_inv b (s\<lparr>mouseHandled := v\<rparr>) = menu_inv b s"
  "menu_inv b (s\<lparr>activedescendant := is\<rparr>) = menu_inv b s" "menu_inv b (s\<lparr>menu_disabled := v\<rparr>) = menu_inv b s"
  by (rule menu_inv_cong; simp add: map_nodes_def map_lists_def set_active_def menu_close_def Let_def)+

lemma menu_more_updates [simp]:
  "menu.more (map_nodes f s) = menu.more s" "menu.more (map_lists h s) = menu.more s" "menu.more (set_active v is s) = menu.more s"
  "menu.more (menu_close start s) = menu.more s" "menu.more (clear_timer h' s) = menu.more s" "menu.more (delay a s) = menu.more s"
  "menu.more (delay_timer a s) = menu.more s" "menu.more (startOpening m s) = menu.more s" "menu.more (menu_open m s) = menu.more s"
  "menu.more (collapseAll e all s) = menu.more s" "menu.more (menu_expand e s) = menu.more s"
  by (simp_all add: map_nodes_def map_lists_def set_active_def menu_close_def clear_timer_def delay_def delay_timer_def startOpening_def
      menu_open_def collapseAll_def menu_expand_def Let_def split: option.split)

lemma active_updates [simp]:
  "active (map_nodes f s) = active s" "active (map_lists h s) = active s" "active (set_active v is s) = active s"
  "active (clear_timer t s) = active s" "active (delay a s) = active s" "active (delay_timer a s) = active s"
  "active (menu_close start s) = active s" "active (startOpening ms s) = active s" "active (collapseAll e all s) = active s"
  by (simp_all add: map_nodes_def map_lists_def set_active_def clear_timer_def delay_def delay_timer_def menu_close_def
      startOpening_def collapseAll_def Let_def split: option.split)

lemma disabled_updates [simp]:
  "menu_disabled (map_nodes f s) = menu_disabled s" "menu_disabled (map_lists h s) = menu_disabled s"
  "menu_disabled (set_active v is s) = menu_disabled s" "menu_disabled (clear_timer t s) = menu_disabled s"
  "menu_disabled (delay a s) = menu_disabled s" "menu_disabled (delay_timer a s) = menu_disabled s"
  "menu_disabled (menu_close start s) = menu_disabled s" "menu_disabled (startOpening ms s) = menu_disabled s"
  "menu_disabled (menu_open ms s) = menu_disabled s" "menu_disabled (collapseAll e all s) = menu_disabled s"
  "menu_disabled (menu_expand e s) = menu_disabled s"
  by (simp_all add: map_nodes_def map_lists_def set_active_def clear_timer_def delay_def delay_timer_def menu_close_def
      startOpening_def menu_open_def collapseAll_def menu_expand_def Let_def split: option.split)

lemma menu_inv_active: "menu_inv b s \<Longrightarrow> length a \<le> 1 \<Longrightarrow> menu_inv b (s\<lparr>active := Some a\<rparr>)" "menu_inv b s \<Longrightarrow> menu_inv b (s\<lparr>active := None\<rparr>)"
  by (simp_all add: menu_inv_def menu_ok_def filter_ok_def)

lemma menu_inv_clear: "menu_inv b s \<Longrightarrow> menu_inv b (clear_timer (timer s) s)"
  by (auto simp: menu_inv_def menu_ok_def filter_ok_def clear_timer_def list_all_iff distinct_map inj_on_def)

lemma menu_inv_delay: "menu_inv b s \<Longrightarrow> menu_inv b (delay a s)"
  by (fastforce simp: menu_inv_def menu_ok_def filter_ok_def delay_def list_all_iff)

lemma menu_inv_delay_timer:
  assumes "menu_inv b s"
  shows "menu_inv b (delay_timer a s)"
proof -
  have "filterTimer s \<noteq> Some (next_timer s)" using assms by (auto simp: menu_inv_def menu_ok_def)
  with menu_inv_delay[OF assms, of a] show ?thesis by (simp add: menu_inv_def menu_ok_def filter_ok_def delay_timer_def delay_def)
qed

lemma menu_inv_opening: "menu_inv b s \<Longrightarrow> menu_inv b (startOpening m s)"
  by (simp add: startOpening_def Let_def menu_inv_clear menu_inv_delay_timer split: option.split)

lemma menu_inv_open: "menu_inv b s \<Longrightarrow> menu_inv b (menu_open m s)"
  by (simp add: menu_open_def Let_def menu_inv_clear)

lemma menu_inv_collapseAll: "menu_inv b s \<Longrightarrow> menu_inv b (collapseAll e all s)"
  by (simp add: collapseAll_def menu_inv_clear menu_inv_delay_timer)

lemma menu_inv_expand: "menu_inv b s \<Longrightarrow> menu_inv b (menu_expand e s)"
  by (simp add: menu_expand_def Let_def menu_inv_open menu_inv_delay split: option.split)

lemmas menu_inv_steps = menu_inv_active menu_inv_clear menu_inv_delay menu_inv_delay_timer menu_inv_opening menu_inv_open
  menu_inv_collapseAll menu_inv_expand

lemma menu_inv_one: "menu_inv b s \<Longrightarrow> active s = Some a \<Longrightarrow> length a \<le> Suc 0"
  by (simp add: menu_inv_def menu_ok_def)

lemma menu_ok_run: "menu_ok s \<Longrightarrow> menu_ok (s\<lparr>menu_timers := filter P (menu_timers s)\<rparr>)"
  by (auto simp: menu_ok_def list_all_iff distinct_map inj_on_def)

lemma menu_inv_run:
  assumes "menu_inv b s" "map_of (menu_timers s) t = Some act" "act \<noteq> ForgetFilter"
  shows "menu_inv b (s\<lparr>menu_timers := filter (\<lambda>(u, x). u \<noteq> t) (menu_timers s)\<rparr>)"
proof -
  have "distinct (map fst (menu_timers s))" using assms(1) by (simp add: menu_inv_def menu_ok_def)
  with assms(2,3) have "(h, ForgetFilter) \<in> set (menu_timers s) \<Longrightarrow> h \<noteq> t" for h
    by (metis map_of_eq_Some_iff option.inject)
  then show ?thesis using assms(1) by (auto simp: menu_inv_def menu_ok_run filter_ok_def)
qed

lemma menu_inv_forget: "menu_inv b s \<Longrightarrow> menu_inv b (s\<lparr>menu_timers := filter P (menu_timers s), previousFilter := []\<rparr>)"
  using menu_ok_run[of s P] by (simp add: menu_inv_def filter_ok_def menu_ok_def)

subsection \<open>What the events of a menu keep\<close>

text \<open>
  A property that the elementary changes of a menu and the handlers of its events keep is kept by every operation. The one
  exception is the text that is typed to find an item, with its timer: what keeps that is a premise.
\<close>

locale menu_steps =
  fixes K :: "'a menu_scheme \<Rightarrow> bool"
    and hb hf hs :: "'a menu_scheme hook"
  assumes K_nodes: "K s \<Longrightarrow> K (map_nodes f s)"
    and K_lists: "K s \<Longrightarrow> K (map_lists h s)"
    and K_fields: "K s \<Longrightarrow> K (s\<lparr>activeMenu := ms\<rparr>)" "K s \<Longrightarrow> K (s\<lparr>scrolled := ys\<rparr>)" "K s \<Longrightarrow> K (s\<lparr>mouseHandled := v\<rparr>)"
      "K s \<Longrightarrow> K (s\<lparr>activedescendant := is\<rparr>)" "K s \<Longrightarrow> K (s\<lparr>menu_disabled := v\<rparr>)"
    and K_active: "K s \<Longrightarrow> length a \<le> 1 \<Longrightarrow> K (s\<lparr>active := Some a\<rparr>)" "K s \<Longrightarrow> K (s\<lparr>active := None\<rparr>)"
    and K_one: "K s \<Longrightarrow> active s = Some a \<Longrightarrow> length a \<le> 1"
    and K_clear: "K s \<Longrightarrow> K (clear_timer (timer s) s)"
    and K_delay: "K s \<Longrightarrow> act \<noteq> ForgetFilter \<Longrightarrow> K (delay act s)" "K s \<Longrightarrow> act \<noteq> ForgetFilter \<Longrightarrow> K (delay_timer act s)"
    and K_run: "K s \<Longrightarrow> map_of (menu_timers s) t = Some act \<Longrightarrow> act \<noteq> ForgetFilter
      \<Longrightarrow> K (s\<lparr>menu_timers := filter (\<lambda>(u, x). u \<noteq> t) (menu_timers s)\<rparr>)"
    and K_forget: "K s \<Longrightarrow> map_of (menu_timers s) t = Some ForgetFilter
      \<Longrightarrow> K (s\<lparr>menu_timers := filter (\<lambda>(u, x). u \<noteq> t) (menu_timers s), previousFilter := []\<rparr>)"
    and hooks_keep: "K s \<Longrightarrow> keeps_inv K (hb e is s)" "K s \<Longrightarrow> keeps_inv K (hf e is s)" "K s \<Longrightarrow> keeps_inv K (hs e is s)"
begin

lemma K_set_active: "K s \<Longrightarrow> K (set_active v is s)"
  by (simp add: set_active_def K_nodes)

lemma K_close: "K s \<Longrightarrow> K (menu_close start s)"
  by (simp add: menu_close_def Let_def K_lists)

lemma K_opening: "K s \<Longrightarrow> K (startOpening m s)"
  by (simp add: startOpening_def Let_def K_clear K_delay split: option.split)

lemma K_open: "K s \<Longrightarrow> K (menu_open m s)"
  by (simp add: menu_open_def Let_def K_clear K_lists)

lemma K_collapseAll: "K s \<Longrightarrow> K (collapseAll e all s)"
  by (simp add: collapseAll_def K_clear K_delay)

lemma K_expand: "K s \<Longrightarrow> K (menu_expand e s)"
  by (simp add: menu_expand_def Let_def K_open K_delay split: option.split)

lemmas K_steps = K_nodes K_lists K_fields K_active K_clear K_delay K_set_active K_close K_opening K_open K_collapseAll K_expand

lemma blur_keeps: "K s \<Longrightarrow> keeps_inv K (menu_blur hb e v s)"
  unfolding menu_blur_def Let_def by (intro keeps_rules hooks_keep) (auto simp: K_steps)

lemma scroll_keeps: "K s \<Longrightarrow> keeps_inv K (menu_scrollIntoView g is s)"
  by (auto simp: menu_scrollIntoView_def K_steps split: list.split option.split intro!: keeps_rules)

lemma focus_keeps: "K s \<Longrightarrow> keeps_inv K (menu_focus g hb hf e is s)"
  unfolding menu_focus_def
  by (intro keeps_thn blur_keeps scroll_keeps) (auto simp: Let_def K_steps intro!: hooks_keep)

lemma collapse_now_keeps: "K s \<Longrightarrow> keeps_inv K (collapse_now hb e all s)"
  unfolding collapse_now_def Let_def by (intro keeps_rules blur_keeps) (auto simp: K_steps)

lemma collapse_keeps: "K s \<Longrightarrow> keeps_inv K (menu_collapse g hb hf e s)"
  unfolding menu_collapse_def Let_def by (intro keeps_rules focus_keeps) (auto simp: K_steps)

lemma move_keeps:
  "K s \<Longrightarrow> keeps_inv K (menu_move g hb hf d fil e s)"
  "K s \<Longrightarrow> keeps_inv K (menu_next g hb hf e s)"
  "K s \<Longrightarrow> keeps_inv K (menu_previous g hb hf e s)"
  by (simp_all add: menu_move_def menu_next_def menu_previous_def focus_keeps)

lemma page_keeps: "K s \<Longrightarrow> keeps_inv K (nextPage g hb hf e s)" "K s \<Longrightarrow> keeps_inv K (previousPage g hb hf e s)"
  unfolding nextPage_def previousPage_def by (intro keeps_rules focus_keeps move_keeps; simp)+

lemma select_keeps:
  assumes "K s"
  shows "keeps_inv K (menu_select hs e s)"
proof -
  have "length (case Option.bind e ev_item of None \<Rightarrow> [] | Some i \<Rightarrow> [i]) \<le> 1" by (simp split: option.split)
  with K_one[OF assms] assms show ?thesis
    by (auto simp: menu_select_def Let_def K_steps split: option.split intro!: hooks_keep keeps_thrown)
qed

lemma activate_keeps: "K s \<Longrightarrow> keeps_inv K (menu_activate hs e s)"
  unfolding menu_activate_def by (intro keeps_rules select_keeps) (auto simp: K_steps)

lemma keydown_keeps: "K s \<Longrightarrow> keeps_inv K (typeahead g hb hf e s) \<Longrightarrow> keeps_inv K (menu_keydown g hb hf hs e s)"
  unfolding menu_keydown_def by (intro keeps_rules page_keeps move_keeps collapse_keeps activate_keeps; simp add: K_steps)

lemma refresh_keeps: "K s \<Longrightarrow> keeps_inv K (menu_refresh hb s)"
  unfolding menu_refresh_def Let_def by (intro keeps_rules blur_keeps) (auto simp: K_steps)

lemma click_item_keeps: "K s \<Longrightarrow> keeps_inv K (click_item hs stopped inMenu e i s)"
  unfolding click_item_def Let_def by (intro keeps_rules select_keeps) (auto simp: K_steps)

lemma click_path_keeps: "K s \<Longrightarrow> keeps_inv K (click_path hs stopped inMenu e is s)"
proof (induction "is" arbitrary: s)
  case Nil
  then show ?case by (simp add: document_click_def Let_def keeps_ok K_steps)
next
  case (Cons i "is")
  then show ?case by (simp add: keeps_thn click_item_keeps keeps_ok)
qed

lemma run_act_keeps: "K s \<Longrightarrow> a \<noteq> ForgetFilter \<Longrightarrow> keeps_inv K (run_act g hb hf v a s)"
  by (cases a) (auto simp: K_steps intro!: keeps_ok collapse_now_keeps focus_keeps)

lemma run_timer_keeps: "K s \<Longrightarrow> keeps_inv K (run_menu_timer g hb hf v t s)"
  unfolding run_menu_timer_def
proof (intro keeps_option keeps_ok)
  fix a
  assume s: "K s" and a: "map_of (menu_timers s) t = Some a"
  show "keeps_inv K (run_act g hb hf v a (s\<lparr>menu_timers := filter (\<lambda>(u, b). u \<noteq> t) (menu_timers s)\<rparr>))"
    using K_forget[OF s] a run_act_keeps[OF K_run[OF s a]] by (cases "a = ForgetFilter") (simp_all add: keeps_ok)
qed

lemma handle_keeps:
  assumes "K s" "\<And>g e. ge = (g, MKeydown e) \<Longrightarrow> keeps_inv K (typeahead g hb hf e s)"
  shows "keeps_inv K (menu_handle hb hf hs ge s)"
proof -
  obtain g e where ge: "ge = (g, e)" by (cases ge)
  from assms show ?thesis unfolding ge
    by (cases e) (auto simp: mouse_enter_def K_steps intro!: keeps_rules click_path_keeps focus_keeps keydown_keeps run_timer_keeps)
qed

end

subsection \<open>The owner of a menu\<close>

text \<open>
  What the menu asks of the widget that owns it: its handlers keep the invariant of the menu, and an invariant of the
  owner's own variables. Then so does every event.
\<close>

locale menu_owner =
  fixes I :: "'a \<Rightarrow> bool"
    and hb hf hs :: "'a menu_scheme hook"
  assumes hb_keeps: "menu_inv b s \<and> I (menu.more s) \<Longrightarrow> keeps_inv (\<lambda>s. menu_inv b s \<and> I (menu.more s)) (hb e is s)"
    and hf_keeps: "menu_inv b s \<and> I (menu.more s) \<Longrightarrow> keeps_inv (\<lambda>s. menu_inv b s \<and> I (menu.more s)) (hf e is s)"
    and hs_keeps: "menu_inv b s \<and> I (menu.more s) \<Longrightarrow> keeps_inv (\<lambda>s. menu_inv b s \<and> I (menu.more s)) (hs e is s)"
begin

sublocale any: menu_steps "\<lambda>s. menu_inv False s \<and> I (menu.more s)" hb hf hs
  by unfold_locales (auto simp: menu_inv_steps menu_inv_run menu_inv_forget hb_keeps hf_keeps hs_keeps intro: menu_inv_one)

sublocale remembered: menu_steps "\<lambda>s. menu_inv True s \<and> I (menu.more s)" hb hf hs
  by unfold_locales (auto simp: menu_inv_steps menu_inv_run menu_inv_forget hb_keeps hf_keeps hs_keeps intro: menu_inv_one)

lemma forget_later:
  assumes "menu_inv False s"
  shows "menu_inv b ((delay ForgetFilter s)\<lparr>previousFilter := c, filterTimer := Some (next_timer s)\<rparr>)"
proof -
  from assms have "timer s \<noteq> Some (next_timer s)" by (auto simp: menu_inv_def menu_ok_def)
  then show ?thesis using assms by (fastforce simp: menu_inv_def menu_ok_def filter_ok_def delay_def list_all_iff)
qed

lemma clear_filter: "menu_inv b s \<Longrightarrow> menu_inv False (clear_timer (filterTimer s) s)"
  by (auto simp: menu_inv_def menu_ok_def clear_timer_def list_all_iff distinct_map inj_on_def)

text \<open>Typing to find an item keeps the invariant, and remembers the text only with its timer, unless it throws.\<close>

lemma typeahead_keeps:
  assumes "menu_inv False s \<and> I (menu.more s)"
  shows "keeps_inv (\<lambda>s. menu_inv False s \<and> I (menu.more s)) (typeahead g hb hf e s)"
    and "snd (typeahead g hb hf e s) = None \<Longrightarrow> filter_ok (fst (typeahead g hb hf e s))"
proof -
  define s1 where "s1 = clear_timer (filterTimer s) s"
  have s1: "menu_inv False s1 \<and> I (menu.more s1)" using assms clear_filter[of False s] by (simp add: s1_def)
  let ?focus = "\<lambda>is c. thn (menu_focus g hb hf (Some e) is s1)
      (\<lambda>s2. ok ((delay ForgetFilter s2)\<lparr>previousFilter := c, filterTimer := Some (next_timer s2)\<rparr>))"
  have focused: "keeps_inv (\<lambda>s. menu_inv False s \<and> I (menu.more s)) (?focus is c)" for "is" c
    by (intro keeps_thn any.focus_keeps s1 keeps_ok) (simp add: forget_later)
  have forgotten: "menu_inv False (s1\<lparr>previousFilter := []\<rparr>)" using s1 by (simp add: menu_inv_def menu_ok_def)
  show "keeps_inv (\<lambda>s. menu_inv False s \<and> I (menu.more s)) (typeahead g hb hf e s)"
    unfolding typeahead_def Let_def s1_def[symmetric]
    by (intro keeps_cond keeps_thrown keeps_ok focused s1) (use s1 forgotten in simp)
  define Q where "Q m \<longleftrightarrow> (snd m = None \<longrightarrow> filter_ok (fst m))" for m :: "'a menu_scheme res"
  have cond: "(c \<Longrightarrow> Q m) \<Longrightarrow> (\<not> c \<Longrightarrow> Q m') \<Longrightarrow> Q (if c then m else m')" for c m m' by simp
  have focus_Q: "Q (?focus is c)" for "is" c
    by (cases "snd (menu_focus g hb hf (Some e) is s1)") (simp_all add: Q_def thn_def filter_ok_def delay_def)
  have "Q (typeahead g hb hf e s)"
    unfolding typeahead_def Let_def s1_def[symmetric] by (intro cond focus_Q) (simp_all add: Q_def filter_ok_def)
  then show "snd (typeahead g hb hf e s) = None \<Longrightarrow> filter_ok (fst (typeahead g hb hf e s))" by (simp add: Q_def)
qed

lemma run_keeps:
  assumes "menu_inv False s \<and> I (menu.more s)"
  shows "menu_inv False (menu_run hb hf hs evs s) \<and> I (menu.more (menu_run hb hf hs evs s))"
  using assms
proof (induction evs arbitrary: s)
  case (Cons e evs)
  from any.handle_keeps[OF Cons.prems typeahead_keeps(1)[OF Cons.prems], of e]
  have "menu_inv False (fst (menu_handle hb hf hs e s)) \<and> I (menu.more (fst (menu_handle hb hf hs e s)))" by (simp add: keeps_inv_def)
  from Cons.IH[OF this] show ?case by (simp add: menu_run_def)
qed (simp add: menu_run_def)

end

subsection \<open>Properties\<close>

text \<open>A menu without callbacks (its options \<open>blur\<close>, \<open>focus\<close> and \<open>select\<close> are null).\<close>

definition no_hook :: "'a menu_scheme hook" where
  "no_hook e is s = ok s"

interpretation plain_menu: menu_owner "\<lambda>_. True" no_hook no_hook no_hook
  by unfold_locales (simp_all add: no_hook_def keeps_ok)

lemma click_sets_handled:
  assumes "snd (click_item hs False f e i s) = None" "click_runs e i s"
  shows "mouseHandled (fst (click_item hs False f e i s))"
proof (cases "menu_select hs (Some e) s")
  case (Pair s1 err)
  then show ?thesis using assms
    by (cases err) (auto simp: click_item_def Let_def menu_expand_def menu_open_def delay_def map_lists_def clear_timer_def split: option.splits)
qed

lemma click_path_handled: "mouseHandled s \<Longrightarrow> click_path hs False f e is s = ok (document_click e s)"
  by (induction "is") (simp_all add: click_item_def click_runs_def)

lemma click_path_once:
  "click_path hs False f e is s =
     (case find (\<lambda>i. click_runs e i s) is of
        None \<Rightarrow> ok (document_click e s)
      | Some i \<Rightarrow> thn (click_item hs False f e i s) (\<lambda>s1. ok (document_click e s1)))"
proof (induction "is")
  case (Cons i "is")
  show ?case
  proof (cases "click_runs e i s")
    case True
    show ?thesis
    proof (cases "snd (click_item hs False f e i s)")
      case None
      from click_path_handled[OF click_sets_handled[OF None True]] None True show ?thesis by (simp add: thn_def)
    qed (simp add: True thn_def)
  next
    case False
    then show ?thesis using Cons by (simp add: click_item_def)
  qed
qed simp

text \<open>The calls of the handler of \<open>select\<close>, counted by an owner that does nothing else.\<close>

definition count_select :: "nat menu_scheme hook" where
  "count_select e is s = ok (menu.more_update Suc s)"

lemma count_click:
  "menu.more (fst (click_item count_select False f e i s)) = (if click_runs e i s then Suc (menu.more s) else menu.more s)"
  "snd (click_item count_select False f e i s) = None"
  "menu_disabled (fst (click_item count_select False f e i s)) = menu_disabled s"
  by (auto simp: click_item_def count_select_def menu_select_def Let_def split: option.split)

lemma document_click_more [simp]: "menu.more (document_click e s) = menu.more s"
  by (simp add: document_click_def Let_def)

lemma document_click_ready: "\<not> menu_disabled s \<Longrightarrow> \<not> mouseHandled (document_click e s)"
  by (simp add: document_click_def Let_def)

text \<open>
  A click on an item reaches the handlers of all the items around it, and of the document: one of them selects, once,
  and afterwards the menu is ready for the next click.
\<close>

theorem click_selects_once:
  "menu.more (fst (menu_handle no_hook no_hook count_select (g, MClick e False f) s)) =
     menu.more s + (if \<exists>i \<in> set (case ev_item e of None \<Rightarrow> [] | Some i \<Rightarrow> item_path s i). click_runs e i s then 1 else 0)
   \<and> (\<not> menu_disabled s \<longrightarrow> \<not> mouseHandled (fst (menu_handle no_hook no_hook count_select (g, MClick e False f) s)))"
proof -
  define path where "path = (case ev_item e of None \<Rightarrow> [] | Some i \<Rightarrow> item_path s i)"
  show ?thesis
  proof (cases "find (\<lambda>i. click_runs e i s) path")
    case None
    then have "\<not> (\<exists>i \<in> set path. click_runs e i s)" by (simp add: find_None_iff)
    with None show ?thesis by (simp add: path_def[symmetric] click_path_once document_click_ready)
  next
    case (Some i)
    then have i: "i \<in> set path" "click_runs e i s" by (auto dest: find_Some_in)
    then have "\<exists>i \<in> set path. click_runs e i s" by blast
    with Some i show ?thesis
      by (simp add: path_def[symmetric] click_path_once thn_def count_click document_click_ready)
  qed
qed

text \<open>The order of the items of a list.\<close>

lemma split_around:
  assumes "distinct ys" "xs = filter P ys" "k < length xs"
  shows "filter P (tl (dropWhile (\<lambda>j. j \<noteq> xs ! k) ys)) = drop (Suc k) xs"
    and "filter P (takeWhile (\<lambda>j. j \<noteq> xs ! k) ys) = take k xs"
proof -
  define x where "x = xs ! k"
  have x: "x \<in> set ys" "P x" using assms(2,3) nth_mem[of k xs] by (auto simp: x_def)
  then obtain as bs where ys: "ys = as @ x # bs" by (meson split_list)
  have "x \<notin> set as" using assms(1) by (simp add: ys)
  then have around: "takeWhile (\<lambda>j. j \<noteq> x) ys = as" "dropWhile (\<lambda>j. j \<noteq> x) ys = x # bs"
    by (auto simp: ys takeWhile_append dropWhile_append)
  have xs: "xs = filter P as @ x # filter P bs" using assms(2) x(2) by (simp add: ys)
  have "distinct xs" using assms(1,2) by simp
  moreover have "xs ! length (filter P as) = x" "length (filter P as) < length xs" by (subst xs, simp)+
  ultimately have k: "k = length (filter P as)" using assms(3) by (simp add: nth_eq_iff_index_eq x_def)
  show "filter P (tl (dropWhile (\<lambda>j. j \<noteq> xs ! k) ys)) = drop (Suc k) xs" "filter P (takeWhile (\<lambda>j. j \<noteq> xs ! k) ys) = take k xs"
    unfolding x_def[symmetric] around by (simp_all add: k, subst xs, simp, subst xs, simp)
qed

lemma node_test_nodes: "distinct (map fst (nodes s)) \<Longrightarrow> (i, n) \<in> set (nodes s) \<Longrightarrow> node_test P s i = P n"
  by (simp add: node_test_def node_of_def)

lemma filter_find_nodes:
  assumes "distinct (map fst (nodes s))"
  shows "filter (node_test P s) (find_nodes (\<lambda>_. True) s ms) = find_nodes P s ms"
proof -
  have "filter (\<lambda>p. node_test P s (fst p)) (filter (\<lambda>(i, n). n_menu n \<in> set ms) (nodes s)) = filter (\<lambda>(i, n). n_menu n \<in> set ms \<and> P n) (nodes s)"
    unfolding filter_filter by (rule filter_cong) (auto simp: node_test_nodes[OF assms])
  then show ?thesis by (simp add: find_nodes_def filter_map o_def)
qed

lemma item_order:
  assumes "distinct (map fst (nodes s))" "find_nodes n_item s [m] = xs" "k < length xs"
  shows "nextAll s [xs ! k] = drop (Suc k) xs" "prevAll s [xs ! k] = rev (take k xs)" "parent_menus s [xs ! k] = [m]"
    "node_test n_item s (xs ! k)"
proof -
  have "xs ! k \<in> set (find_nodes n_item s [m])" using assms(2,3) by simp
  then obtain n where n: "(xs ! k, n) \<in> set (nodes s)" "n_menu n = m" "n_item n" by (auto simp: find_nodes_def)
  then have node: "node_of s (xs ! k) = Some n" using assms(1) by (simp add: node_of_def)
  then have sib: "siblings s (xs ! k) = find_nodes (\<lambda>_. True) s [m]" using n(2) by (simp add: siblings_def)
  have "distinct (find_nodes (\<lambda>_. True) s [m])" using assms(1) by (simp add: find_nodes_def distinct_map_filter)
  note split = split_around[OF this filter_find_nodes[OF assms(1), of n_item "[m]", symmetric, unfolded assms(2)] assms(3)]
  show "nextAll s [xs ! k] = drop (Suc k) xs" "prevAll s [xs ! k] = rev (take k xs)"
    by (simp_all add: nextAll_def prevAll_def sib split)
  show "parent_menus s [xs ! k] = [m]" "node_test n_item s (xs ! k)"
    using node n by (simp_all add: parent_menus_def node_test_def map_filter_simps)
qed

text \<open>In a list whose items are the only nodes to visit, moving goes round.\<close>

lemma move_targets:
  assumes "distinct (map fst (nodes s))" "find_nodes n_item s [m] = xs" "find_items s [m] = xs" "k < length xs"
    "active s = Some [xs ! k]" "activeMenu s = [m]"
  shows "move_target Next First s = [xs ! (Suc k mod length xs)]"
    and "move_target Prev Last s = [xs ! ((k + length xs - 1) mod length xs)]"
    and "isFirstItem s \<longleftrightarrow> k = 0" "isLastItem s \<longleftrightarrow> Suc k = length xs"
proof -
  note ord = item_order[OF assms(1,2,4)]
  have xs: "xs \<noteq> []" using assms(4) by auto
  show "move_target Next First s = [xs ! (Suc k mod length xs)]"
  proof (cases "Suc k = length xs")
    case True
    then show ?thesis using assms ord xs by (simp add: move_target_def end_of_def hd_conv_nth)
  next
    case False
    then have "Suc k < length xs" using assms(4) by simp
    then show ?thesis using assms(3,5,6) ord by (simp add: move_target_def end_of_def hd_drop_conv_nth)
  qed
  show "move_target Prev Last s = [xs ! ((k + length xs - 1) mod length xs)]"
  proof (cases k)
    case 0
    then show ?thesis using assms ord xs by (simp add: move_target_def end_of_def last_conv_nth)
  next
    case (Suc j)
    then have "(k + length xs - 1) mod length xs = j" using assms(4) by simp
    then show ?thesis using assms(3-6) ord xs Suc
      by (simp add: move_target_def end_of_def hd_rev last_conv_nth take_Suc_conv_app_nth)
  qed
  show "isFirstItem s \<longleftrightarrow> k = 0" "isLastItem s \<longleftrightarrow> Suc k = length xs"
    using assms(4,5) ord xs by (auto simp: isFirstItem_def isLastItem_def)
qed

text \<open>What focusing an item does where no handler interferes: the item becomes the active one, and its list the active list.\<close>

lemma menu_blur_no_hook: "menu_blur no_hook e b s =
   ok (let s1 = (if \<not> b then clear_timer (timer s) s else s) in case active s1 of None \<Rightarrow> s1 | Some a \<Rightarrow> (set_active False a s1)\<lparr>active := None\<rparr>)"
  by (simp add: menu_blur_def no_hook_def Let_def split: option.split)

text \<open>The nodes without the class of the active item: what moving the focus does not change.\<close>

definition shape :: "'a menu_scheme \<Rightarrow> (nat \<times> node) list" where
  "shape s = map (\<lambda>(i, n). (i, n\<lparr>n_active := False\<rparr>)) (nodes s)"

lemma shape_updates [simp]:
  "shape (set_active v is s) = shape s" "shape (map_lists h s) = shape s" "shape (clear_timer t s) = shape s"
  "shape (delay a s) = shape s" "shape (delay_timer a s) = shape s" "shape (menu_close start s) = shape s" "shape (startOpening ms s) = shape s"
  "shape (s\<lparr>active := x\<rparr>) = shape s" "shape (s\<lparr>activeMenu := ms\<rparr>) = shape s" "shape (s\<lparr>activedescendant := is\<rparr>) = shape s"
  "shape (s\<lparr>scrolled := ys\<rparr>) = shape s"
  by (auto simp: shape_def set_active_def map_nodes_def map_lists_def clear_timer_def delay_def delay_timer_def menu_close_def
      startOpening_def Let_def split: option.split)

lemma shape_find:
  fixes s s' :: "'a menu_scheme"
  assumes "shape s = shape s'" "\<And>n v. P (n\<lparr>n_active := v\<rparr>) = P n"
  shows "find_nodes P s ms = find_nodes P s' ms"
proof -
  have "find_nodes P s ms = map fst (filter (\<lambda>(i, n). n_menu n \<in> set ms \<and> P n) (shape s))" for s :: "'a menu_scheme"
    using assms(2) by (simp add: find_nodes_def shape_def filter_map o_def case_prod_beta')
  with assms(1) show ?thesis by simp
qed

lemma shape_nodes: "shape s = shape s' \<Longrightarrow> map fst (nodes s) = map fst (nodes s')"
  by (drule arg_cong[where f = "map fst"]) (simp add: shape_def o_def case_prod_beta')

lemma blur_shape: "shape (fst (menu_blur no_hook e b s)) = shape s \<and> snd (menu_blur no_hook e b s) = None
   \<and> activeMenu (fst (menu_blur no_hook e b s)) = activeMenu s \<and> menu_disabled (fst (menu_blur no_hook e b s)) = menu_disabled s"
  by (simp add: menu_blur_no_hook Let_def clear_timer_def set_active_def map_nodes_def shape_def case_prod_beta' split: option.split)

lemma scroll_shape:
  assumes "is \<noteq> []" "activeMenu s \<noteq> []"
  obtains ys where "menu_scrollIntoView g is s = ok (s\<lparr>scrolled := ys\<rparr>)"
proof -
  obtain i "is'" m ms where l: "is = i # is'" "activeMenu s = m # ms" using assms by (meson neq_Nil_conv)
  show ?thesis
  proof (cases "if hasScroll g then scroll_menu g m i else None")
    case None
    then have "menu_scrollIntoView g is s = ok (s\<lparr>scrolled := scrolled s\<rparr>)"
      by (simp add: menu_scrollIntoView_def l split: if_splits)
    then show ?thesis by (rule that)
  next
    case (Some y)
    then have "menu_scrollIntoView g is s = ok (s\<lparr>scrolled := scrolled s @ [(m, y)]\<rparr>)"
      by (simp add: menu_scrollIntoView_def l split: if_splits)
    then show ?thesis by (rule that)
  qed
qed

lemma focus_plain:
  assumes "is \<noteq> []" "activeMenu s \<noteq> []"
  obtains s' where "menu_focus g no_hook no_hook e is s = ok (s'\<lparr>activeMenu := parent_menus s' is\<rparr>)"
    "shape s' = shape s" "active s' = Some (take 1 is)" "menu_disabled s' = menu_disabled s"
proof -
  define s1 where "s1 = fst (menu_blur no_hook e (ev_is ''focus'' e) s)"
  have b: "menu_blur no_hook e (ev_is ''focus'' e) s = ok s1" "shape s1 = shape s" "activeMenu s1 \<noteq> []" "menu_disabled s1 = menu_disabled s"
    using blur_shape[of e "ev_is ''focus'' e" s] assms(2) by (auto simp: s1_def prod_eq_iff)
  obtain ys where ys: "menu_scrollIntoView g is s1 = ok (s1\<lparr>scrolled := ys\<rparr>)" by (rule scroll_shape[OF assms(1) b(3)])
  show ?thesis
    by (rule that, simp only: menu_focus_def b(1) ys thn_simps Let_def no_hook_def) (simp_all add: b)
qed

text \<open>The item at a position of a list has the focus, and its items are the only nodes to visit.\<close>

definition on_item :: "nat \<Rightarrow> nat list \<Rightarrow> nat \<Rightarrow> 'a menu_scheme \<Rightarrow> bool" where
  "on_item m xs k s \<longleftrightarrow> distinct (map fst (nodes s)) \<and> find_nodes n_item s [m] = xs \<and> find_items s [m] = xs \<and> k < length xs
     \<and> active s = Some [xs ! k] \<and> activeMenu s = [m] \<and> \<not> menu_disabled s"

lemma on_item_focus:
  assumes "on_item m xs k s" "j < length xs"
  shows "on_item m xs j (fst (menu_focus g no_hook no_hook e [xs ! j] s))"
proof -
  have "[xs ! j] \<noteq> []" "activeMenu s \<noteq> []" using assms(1) by (auto simp: on_item_def)
  then obtain s' where s': "menu_focus g no_hook no_hook e [xs ! j] s = ok (s'\<lparr>activeMenu := parent_menus s' [xs ! j]\<rparr>)"
    "shape s' = shape s" "active s' = Some [xs ! j]" "menu_disabled s' = menu_disabled s"
    by (rule focus_plain[where g = g and e = e]) simp
  have same: "find_nodes n_item s' [m] = xs" "find_items s' [m] = xs" "distinct (map fst (nodes s'))"
    using assms(1) shape_find[OF s'(2)] shape_nodes[OF s'(2)] by (simp_all add: on_item_def find_items_def)
  have "parent_menus s' [xs ! j] = [m]" by (rule item_order(3)[OF same(3,1) assms(2)])
  with s' same assms show ?thesis by (simp add: on_item_def find_nodes_def find_items_def)
qed

definition key_event :: "nat \<Rightarrow> ev" where
  "key_event k = \<lparr>ev_type = ''keydown'', ev_item = None, ev_menu = None, ev_in_menu = True, ev_has_menu = False, ev_disabled = False,
     keyCode = k, modifierKey = False\<rparr>"

lemma key_event_sel [simp]: "keyCode (key_event k) = k" "modifierKey (key_event k) = False" "ev_type (key_event k) = ''keydown''"
  by (simp_all add: key_event_def)

lemma on_item_key:
  assumes "on_item m xs k s"
  shows "on_item m xs (Suc k mod length xs) (fst (menu_handle no_hook no_hook hs (g, MKeydown (key_event DOWN)) s))"
    and "on_item m xs ((k + length xs - 1) mod length xs) (fst (menu_handle no_hook no_hook hs (g, MKeydown (key_event UP)) s))"
proof -
  have n: "0 < length xs" using assms by (auto simp: on_item_def)
  have "move_target Next First s = [xs ! (Suc k mod length xs)]" "move_target Prev Last s = [xs ! ((k + length xs - 1) mod length xs)]"
    using assms move_targets[of s m xs k] by (auto simp: on_item_def)
  moreover have "\<not> menu_disabled s" using assms by (simp add: on_item_def)
  ultimately show "on_item m xs (Suc k mod length xs) (fst (menu_handle no_hook no_hook hs (g, MKeydown (key_event DOWN)) s))"
    "on_item m xs ((k + length xs - 1) mod length xs) (fst (menu_handle no_hook no_hook hs (g, MKeydown (key_event UP)) s))"
    using on_item_focus[OF assms mod_less_divisor[OF n]]
    by (simp_all add: menu_keydown_def key_codes menu_next_def menu_previous_def menu_move_def)
qed

lemma on_item_downs:
  "on_item m xs k s \<Longrightarrow> on_item m xs ((k + n) mod length xs) (menu_run no_hook no_hook hs (replicate n (g, MKeydown (key_event DOWN))) s)"
proof (induction n arbitrary: k s)
  case (Suc n)
  from Suc.IH[OF on_item_key(1)[OF Suc.prems]] show ?case by (simp add: menu_run_def mod_add_left_eq)
qed (simp add: menu_run_def on_item_def)

lemma on_item_ups:
  "on_item m xs ((k + n) mod length xs) s \<Longrightarrow> k < length xs
   \<Longrightarrow> on_item m xs k (menu_run no_hook no_hook hs (replicate n (g, MKeydown (key_event UP))) s)"
proof (induction n arbitrary: s)
  case (Suc n)
  have "((k + Suc n) mod length xs + length xs - 1) mod length xs = (k + n) mod length xs"
  proof (cases "(k + Suc n) mod length xs = 0")
    case True
    then have "(k + n) mod length xs = length xs - 1" using Suc.prems(2) by (auto simp: mod_Suc split: if_splits)
    with True show ?thesis using Suc.prems(2) by simp
  next
    case False
    then have "(k + Suc n) mod length xs = Suc ((k + n) mod length xs)" by (auto simp: mod_Suc)
    then show ?thesis by simp
  qed
  with on_item_key(2)[OF Suc.prems(1)] have "on_item m xs ((k + n) mod length xs) (fst (menu_handle no_hook no_hook hs (g, MKeydown (key_event UP)) s))"
    by metis
  from Suc.IH[OF this Suc.prems(2)] show ?case by (simp add: menu_run_def)
qed (simp add: menu_run_def)

text \<open>
  The arrow keys go round the items of a list in their order: \<open>n\<close> times down moves by \<open>n\<close>, past the end to the
  beginning, and \<open>n\<close> times up comes back.
\<close>

theorem menu_arrow_keys:
  assumes "on_item m xs k s"
  shows "let s' = menu_run no_hook no_hook no_hook (replicate n (g, MKeydown (key_event DOWN))) s in
    active s' = Some [xs ! ((k + n) mod length xs)]
    \<and> active (menu_run no_hook no_hook no_hook (replicate n (g', MKeydown (key_event UP))) s') = Some [xs ! k]"
proof -
  have k: "k < length xs" using assms by (simp add: on_item_def)
  note down = on_item_downs[OF assms, of n no_hook g]
  with on_item_ups[OF down k, of no_hook g'] show ?thesis by (simp add: on_item_def Let_def)
qed

text \<open>Typing finds the items whose text begins with the typed text, whatever its characters, in any case.\<close>

theorem typed_text_is_prefix:
  "set (filterMenuItems c s) = {i \<in> set (find_items s (activeMenu s)). \<exists>n. node_of s i = Some n \<and> n_item n
     \<and> prefix (toUpperCase c) (toUpperCase (js_trim (n_text n)))}"
  by (auto simp: filterMenuItems_def node_test_def rx_test_escape split: option.splits)

text \<open>
  The text that was typed is not forgotten any more, and a menu that remembers such a text ignores the mouse.
\<close>

definition deaf :: "string \<Rightarrow> 'a menu_scheme \<Rightarrow> bool" where
  "deaf c s \<longleftrightarrow> previousFilter s = c \<and> list_all (\<lambda>(t, a). a \<noteq> ForgetFilter) (menu_timers s) \<and> (\<forall>a. active s = Some a \<longrightarrow> length a \<le> 1)"

interpretation deaf_menu: menu_steps "deaf c" no_hook no_hook no_hook for c
proof (unfold_locales, goal_cases)
  case (15 s t)
  then show ?case by (auto simp: deaf_def list_all_iff dest!: map_of_SomeD)
qed (auto simp: deaf_def map_nodes_def map_lists_def clear_timer_def delay_def delay_timer_def list_all_iff no_hook_def intro!: keeps_ok)

lemma deaf_run:
  assumes "deaf c s" "list_all (\<lambda>(g, v). \<forall>e. v \<noteq> MKeydown e) evs"
  shows "deaf c (menu_run no_hook no_hook no_hook evs s)"
  using assms
proof (induction evs arbitrary: s)
  case (Cons v evs)
  from Cons.prems(2) have "keeps_inv (deaf c) (menu_handle no_hook no_hook no_hook v s)"
    by (intro deaf_menu.handle_keeps[OF Cons.prems(1)]) auto
  with Cons.IH Cons.prems(2) show ?case by (simp add: menu_run_def keeps_inv_def)
qed (simp add: menu_run_def)

text \<open>
  A letter that was typed to find an item, typed again after the item has lost the focus, throws; the timer that would
  forget the letter is cleared by then. From there on, until another key is typed, the menu ignores that the mouse enters its
  items, whatever else happens.
\<close>

theorem typeahead_deaf:
  assumes "previousFilter s = key_character (keyCode e)" "active s = None" "\<not> menu_disabled s"
    and "keyCode e \<notin> {PAGE_UP, PAGE_DOWN, HOME, END_key, UP, DOWN, LEFT, RIGHT, ENTER, SPACE, ESCAPE}"
    and "list_all (\<lambda>(t, a). a = ForgetFilter \<longrightarrow> filterTimer s = Some t) (menu_timers s)"
    and "list_all (\<lambda>(g, v). \<forall>k. v \<noteq> MKeydown k) evs"
  shows "let (s', err) = menu_handle no_hook no_hook no_hook (g, MKeydown e) s; s'' = menu_run no_hook no_hook no_hook evs s' in
    err = Some TypeError \<and> menu_handle no_hook no_hook no_hook (g', MEnter e' i) s'' = ok s''"
proof -
  define s' where "s' = clear_timer (filterTimer s) s"
  have "menu_handle no_hook no_hook no_hook (g, MKeydown e) s = (s', Some TypeError)"
    using assms(1-4) by (simp add: menu_keydown_def typeahead_def Let_def s'_def)
  moreover have "deaf (key_character (keyCode e)) s'"
    using assms(1,2,5) by (auto simp: deaf_def s'_def list_all_iff) (auto simp: clear_timer_def)
  from deaf_run[OF this assms(6)] have "previousFilter (menu_run no_hook no_hook no_hook evs s') \<noteq> []"
    by (simp add: deaf_def key_character_def fromCharCode_def)
  ultimately show ?thesis by (simp add: mouse_enter_def)
qed

text \<open>
  Going past the end takes the first node of the list even when it is a divider, which no other movement visits.
\<close>

theorem wrap_to_divider:
  assumes "active s = Some a" "nextAll s a = []" "find_items s (activeMenu s) = d # rest" "node_of s d = Some n" "n_divider n" "activeMenu s \<noteq> []"
  shows "\<exists>i n. active (fst (menu_next g no_hook no_hook e s)) = Some [i] \<and> node_of s i = Some n \<and> n_divider n"
proof -
  have "move_target Next First s = [d]" using assms(1-3) by (simp add: move_target_def end_of_def)
  moreover obtain s' where "menu_focus g no_hook no_hook e [d] s = ok (s'\<lparr>activeMenu := parent_menus s' [d]\<rparr>)" "active s' = Some [d]"
    by (rule focus_plain[of "[d]" s g e]) (use assms(6) in auto)
  ultimately show ?thesis using assms(4,5) by (simp add: menu_next_def menu_move_def)
qed

subsection \<open>Witnesses\<close>

definition demo_node :: "string \<Rightarrow> bool \<Rightarrow> node" where
  "demo_node t item = \<lparr>n_menu = 0, n_text = t, n_selected = True, n_item = item, n_divider = \<not> item, n_disabled = False, n_active = False, n_sub = None\<rparr>"

definition demo_menu :: "(nat \<times> node) list \<Rightarrow> menu" where
  "demo_menu ns = \<lparr>nodes = ns, lists = [], active = None, activeMenu = [0], mouseHandled = False, previousFilter = [], menu_timers = [],
     next_timer = 0, timer = None, filterTimer = None, menu_role = Some ''menu'', activedescendant = [], menu_disabled = False, scrolled = []\<rparr>"

definition flat_geometry :: geometry where
  "flat_geometry = \<lparr>hasScroll = False, item_top = (\<lambda>_. 0), menu_top = (\<lambda>_. 0), menu_inset = (\<lambda>_. 0), menu_scroll = (\<lambda>_. 0),
     menu_height = (\<lambda>_. 0), item_height = (\<lambda>_. 0), element_height = 0\<rparr>"

lemmas demo_simps = demo_menu_def demo_node_def flat_geometry_def

theorem menu_arrow_keys_witness:
  "active (menu_run no_hook no_hook no_hook (replicate 5 (flat_geometry, MKeydown (key_event DOWN)))
     ((demo_menu [(1, demo_node ''Apple'' True), (2, demo_node ''Axe'' True), (3, demo_node ''Bee'' True)])\<lparr>active := Some [2]\<rparr>)) = Some [1]"
proof -
  let ?s = "(demo_menu [(1, demo_node ''Apple'' True), (2, demo_node ''Axe'' True), (3, demo_node ''Bee'' True)])\<lparr>active := Some [2]\<rparr>"
  have "on_item 0 [1, 2, 3] 1 ?s" by (simp add: on_item_def demo_simps find_nodes_def find_items_def)
  note run = menu_arrow_keys[OF this, of 5 flat_geometry flat_geometry, unfolded Let_def, THEN conjunct1]
  have "[1, 2, 3 :: nat] ! ((1 + 5) mod length [1, 2, 3 :: nat]) = 1" by simp
  with run show ?thesis by (simp only:)
qed

definition demo_click :: ev where
  "demo_click = \<lparr>ev_type = ''click'', ev_item = Some 2, ev_menu = Some 7, ev_in_menu = True, ev_has_menu = False, ev_disabled = False,
     keyCode = 0, modifierKey = False\<rparr>"

text \<open>A nested menu: a click on the inner item reaches the handlers of both items.\<close>

definition demo_nested :: "nat menu_scheme" where
  "demo_nested = menu.extend ((demo_menu [(1, (demo_node ''Files'' True)\<lparr>n_sub := Some 7\<rparr>), (2, (demo_node ''Open'' True)\<lparr>n_menu := 7\<rparr>)])
     \<lparr>lists := [(7, \<lparr>s_menu = True, s_shown = True, s_hidden = False, s_expanded = True\<rparr>)]\<rparr>) 0"

theorem click_selects_once_witness:
  "item_path demo_nested 2 = [2, 1] \<and> menu.more (fst (menu_handle no_hook no_hook count_select (flat_geometry, MClick demo_click False False) demo_nested)) = 1
   \<and> \<not> mouseHandled (fst (menu_handle no_hook no_hook count_select (flat_geometry, MClick demo_click False False) demo_nested))"
proof -
  have path: "item_path demo_nested 2 = [2, 1]"
    by (simp add: demo_nested_def demo_simps menu.defs item_path_def node_of_def node_test_def parents_of_def owner_node_def map_filter_simps)
  have "click_runs demo_click 2 demo_nested" "\<not> menu_disabled demo_nested" "menu.more demo_nested = 0" "ev_item demo_click = Some 2"
    by (simp_all add: demo_nested_def demo_simps menu.defs click_runs_def node_test_def node_of_def demo_click_def)
  with path click_selects_once[of flat_geometry demo_click False demo_nested] show ?thesis by auto
qed

text \<open>A letter is typed, the mouse leaves the menu, and the timer of that runs: the letter is remembered, no item is active.\<close>

definition demo_typed :: menu where
  "demo_typed = menu_run no_hook no_hook no_hook
     [(flat_geometry, MKeydown (key_event 65)), (flat_geometry, MLeave demo_click), (flat_geometry, MTimer 1 False)]
     (demo_menu [(1, demo_node ''Apple'' True), (2, demo_node ''Axe'' True)])"

lemma demo_typed_state:
  "active demo_typed = None" "previousFilter demo_typed = ''A''" "menu_timers demo_typed = [(0, ForgetFilter)]" "filterTimer demo_typed = Some 0"
  "\<not> menu_disabled demo_typed" "key_character 65 = ''A''"
  by code_simp+

theorem typeahead_deaf_witness:
  "let (s', err) = menu_handle no_hook no_hook no_hook (flat_geometry, MKeydown (key_event 65)) demo_typed;
       s'' = menu_run no_hook no_hook no_hook [(flat_geometry, MLeave demo_click), (flat_geometry, MTimer 0 False)] s' in
   err = Some TypeError \<and> menu_handle no_hook no_hook no_hook (flat_geometry, MEnter demo_click 2) s'' = ok s''"
  by (rule typeahead_deaf) (simp_all add: demo_typed_state key_codes)

definition demo_divided :: menu where
  "demo_divided = (demo_menu [(1, demo_node ''-'' False), (2, demo_node ''Axe'' True)])\<lparr>active := Some [2]\<rparr>"

theorem wrap_to_divider_witness:
  "\<exists>i n. active (fst (menu_next flat_geometry no_hook no_hook None demo_divided)) = Some [i] \<and> node_of demo_divided i = Some n \<and> n_divider n"
  by (rule wrap_to_divider[of _ "[2]" 1 "[2]" "demo_node ''-'' False"])
    (simp_all add: demo_divided_def demo_simps nextAll_def siblings_def node_of_def find_nodes_def find_items_def)

end
