(* ===== verification/UI_Autocomplete.thy ===== *)
theory UI_Autocomplete
  imports UI_Menu
begin

text \<open>
  The autocomplete widget of jQuery UI (\<open>docs/javadoc/*/jquery/jquery-ui.js\<close>), on which the search field of the documentation is
  built, for a text field. Its state extends the state of the menu that it owns, whose events it handles. The source of
  suggestions answers a request at once or later, through a function that it may call in any order; keys, the mouse, timers
  and answers are events of one sequence.
\<close>

subsection \<open>Items\<close>

text \<open>A suggestion of the source: a text, or an object with a label, a value and whatever else.\<close>

record 'x ac_item =
  label :: "string option"
  ivalue :: "string option"
  extra :: 'x

datatype 'x raw = RString string | RItem "'x ac_item"

definition given :: "string option \<Rightarrow> bool" where
  "given v \<longleftrightarrow> (case v of None \<Rightarrow> False | Some s \<Rightarrow> s \<noteq> [])"

definition either :: "string option \<Rightarrow> string option \<Rightarrow> string option" where
  "either a b = (if given a then a else b)"

fun label_of :: "'x raw \<Rightarrow> string option" where
  "label_of (RString s) = None"
| "label_of (RItem it) = label it"

fun value_of :: "'x raw \<Rightarrow> string option" where
  "value_of (RString s) = None"
| "value_of (RItem it) = ivalue it"

definition complete_first :: "'x raw list \<Rightarrow> bool" where
  "complete_first items \<longleftrightarrow> items \<noteq> [] \<and> given (label_of (hd items)) \<and> given (value_of (hd items))"

fun normalize_item :: "'x \<Rightarrow> 'x raw \<Rightarrow> 'x raw" where
  "normalize_item none (RString s) = RItem \<lparr>label = Some s, ivalue = Some s, extra = none\<rparr>"
| "normalize_item none (RItem it) = RItem (it\<lparr>label := either (label it) (ivalue it), ivalue := either (ivalue it) (label it)\<rparr>)"

definition normalize :: "'x \<Rightarrow> 'x raw list \<Rightarrow> 'x raw list" where
  "normalize none items = (if complete_first items then items else map (normalize_item none) items)"

text \<open>
  The source made from an array: the suggestions in which the text of the field occurs. An object without label and value is
  matched as a text.
\<close>

fun tested_text :: "'x raw \<Rightarrow> string" where
  "tested_text (RString s) = s"
| "tested_text (RItem it) = (case either (label it) (ivalue it) of None \<Rightarrow> ''[object Object]'' | Some s \<Rightarrow> if s = [] then ''[object Object]'' else s)"

definition ac_filter :: "'x raw list \<Rightarrow> string \<Rightarrow> 'x raw list" where
  "ac_filter array t = filter (\<lambda>v. rx_test (escapeRegex t) (tested_text v) = Some True) array"

subsection \<open>State\<close>

datatype 'x ac_act =
    SearchAct ev
  | AllowBlur
  | RestoreAct "string option" "'x raw option"

text \<open>What is triggered for the user of the widget.\<close>

datatype 'x ac_trigger =
    TSearch | TResponse | TOpen | TClose | TChange "'x raw option" | TFocus "'x raw option" | TSelect "'x raw option"

record 'x ac = menu +
  inputValue :: string
  ac_term :: "string option"
  previous :: "string option"
  selectedItem :: "'x raw option"
  requestIndex :: nat
  pending :: int
  loading :: bool
  cancelSearch :: bool
  cancelBlur :: bool
  isNewMenu :: bool
  isMultiLine :: bool
  menuVisible :: bool
  outsideListener :: bool
  suppressKeyPress :: bool
  suppressKeyPressRepeat :: bool
  suppressInput :: bool
  searching :: "nat option"
  ac_timers :: "(nat \<times> 'x ac_act) list"
  next_ac_timer :: nat
  next_node :: nat
  item_data :: "(nat \<times> ('x raw \<times> string option)) list"
  replays :: "ev list"
  liveRegion :: "string list"
  inputReadOnly :: bool
  inputFocused :: bool
  ac_disabled :: bool
  triggered :: "'x ac_trigger list"

text \<open>
  Options and callbacks. \<open>source\<close> answers the request with a number at once, or later. \<open>render\<close> makes the nodes of the menu,
  with the suggestion of each node that has one and its attribute for assistive technology. The handler of \<open>response\<close> may change the
  suggestions; those of \<open>search\<close>, \<open>focus\<close> and \<open>select\<close> may prevent the default.
\<close>

record 'x ac_env =
  minLength :: nat
  autoFocus :: bool
  source :: "nat \<Rightarrow> string \<Rightarrow> 'x raw list option option"
  render :: "string option \<Rightarrow> 'x raw list \<Rightarrow> (node \<times> ('x raw \<times> string option) option) list"
  noExtra :: 'x
  onSearch :: "string \<Rightarrow> bool"
  onResponse :: "'x raw list option \<Rightarrow> 'x raw list option"
  onFocus :: "'x raw option \<Rightarrow> bool"
  onSelect :: "'x raw option \<Rightarrow> bool"
  noResults :: string
  resultsMessage :: "nat \<Rightarrow> string"

definition default_render :: "string option \<Rightarrow> 'x raw list \<Rightarrow> (node \<times> ('x raw \<times> string option) option) list" where
  "default_render t items =
     map (\<lambda>v. (\<lparr>n_menu = 0, n_text = (case label_of v of None \<Rightarrow> [] | Some l \<Rightarrow> l), n_selected = True, n_item = False, n_divider = False,
                 n_disabled = False, n_active = False, n_sub = None\<rparr>, Some (v, None))) items"

definition trigger :: "'x ac_trigger \<Rightarrow> ('x, 'a) ac_scheme \<Rightarrow> ('x, 'a) ac_scheme" where
  "trigger t s = s\<lparr>triggered := triggered s @ [t]\<rparr>"

definition set_value :: "string option \<Rightarrow> ('x, 'a) ac_scheme \<Rightarrow> ('x, 'a) ac_scheme" where
  "set_value v s = s\<lparr>inputValue := (case v of None \<Rightarrow> [] | Some t \<Rightarrow> t)\<rparr>"

definition announce :: "string \<Rightarrow> ('x, 'a) ac_scheme \<Rightarrow> ('x, 'a) ac_scheme" where
  "announce msg s = s\<lparr>liveRegion := liveRegion s @ [msg]\<rparr>"

definition ac_delay :: "'x ac_act \<Rightarrow> ('x, 'a) ac_scheme \<Rightarrow> ('x, 'a) ac_scheme" where
  "ac_delay a s = s\<lparr>ac_timers := ac_timers s @ [(next_ac_timer s, a)], next_ac_timer := Suc (next_ac_timer s)\<rparr>"

definition clear_searching :: "('x, 'a) ac_scheme \<Rightarrow> ('x, 'a) ac_scheme" where
  "clear_searching s = s\<lparr>ac_timers := filter (\<lambda>(t, a). Some t \<noteq> searching s) (ac_timers s)\<rparr>"

definition data_of :: "nat list \<Rightarrow> ('x, 'a) ac_scheme \<Rightarrow> ('x raw \<times> string option) option" where
  "data_of is s = (case is of [] \<Rightarrow> None | i # _ \<Rightarrow> map_of (item_data s) i)"

subsection \<open>Closing and the events of the menu\<close>

definition ac_close_menu :: "('x, 'a) ac_scheme \<Rightarrow> ('x, 'a) ac_scheme res" where
  "ac_close_menu s =
     (let s1 = s\<lparr>outsideListener := False\<rparr> in
      if menuVisible s1
      then thn (menu_blur no_hook None False (s1\<lparr>menuVisible := False\<rparr>)) (\<lambda>s2. ok (trigger TClose (s2\<lparr>isNewMenu := True\<rparr>)))
      else ok s1)"

definition ac_close :: "('x, 'a) ac_scheme \<Rightarrow> ('x, 'a) ac_scheme res" where
  "ac_close s = ac_close_menu (s\<lparr>cancelSearch := True\<rparr>)"

text \<open>
  The handlers on the menu's element run unless the widget is disabled or that element has the class of disabled elements, which it has
  while the menu is disabled.
\<close>

definition unless_menu_disabled :: "('x, 'a) ac_scheme \<Rightarrow> ('x, 'a) ac_scheme res \<Rightarrow> ('x, 'a) ac_scheme res" where
  "unless_menu_disabled s m = (if ac_disabled s \<or> menu_disabled s then ok s else m)"

text \<open>\<open>menufocus\<close>. The announcement and a key need the suggestion of the item.\<close>

definition ac_announce :: "nat list \<Rightarrow> ('x, 'a) ac_scheme \<Rightarrow> ('x, 'a) ac_scheme res" where
  "ac_announce item s =
     (let aria = Option.bind (data_of item s) snd in
      if given aria \<or> data_of item s \<noteq> None
      then (let l = (if given aria then aria else value_of (fst (the (data_of item s)))) in
            if given l \<and> js_trim (the l) \<noteq> [] then ok (announce (the l) s) else ok s)
      else (s, Some TypeError))"

definition ac_menufocus :: "'x ac_env \<Rightarrow> ('x, 'a) ac_scheme hook" where
  "ac_menufocus E e item s = unless_menu_disabled s
     (let s1 = (if isNewMenu s then s\<lparr>isNewMenu := False\<rparr> else s) in
      if isNewMenu s \<and> ev_starts ''mouse'' e
      then thn (menu_blur no_hook None False s1) (\<lambda>s2. ok (s2\<lparr>replays := replays s2 @ [the e]\<rparr>))
      else (let d = data_of item s1;
                s2 = trigger (TFocus (map_option fst d)) s1
            in thn (if onFocus E (map_option fst d) \<and> ev_starts ''key'' e
                    then (case d of None \<Rightarrow> (s2, Some TypeError) | Some (v, _) \<Rightarrow> ok (set_value (value_of v) s2))
                    else ok s2)
                 (ac_announce item)))"

text \<open>The field's own handler of \<open>focus\<close>, and \<open>menuselect\<close>.\<close>

definition on_focus :: "('x, 'a) ac_scheme \<Rightarrow> ('x, 'a) ac_scheme" where
  "on_focus s = (if ac_disabled s then s else s\<lparr>selectedItem := None, previous := Some (inputValue s)\<rparr>)"

definition ac_menuselect :: "'x ac_env \<Rightarrow> ('x, 'a) ac_scheme hook" where
  "ac_menuselect E e item s = unless_menu_disabled s
     (let d = data_of item s; item' = map_option fst d; prev = previous s;
          s1 = (if \<not> inputFocused s
                then ac_delay (RestoreAct prev item') ((on_focus (s\<lparr>inputFocused := True\<rparr>))\<lparr>previous := prev\<rparr>)
                else s);
          s2 = trigger (TSelect item') s1
      in thn (if onSelect E item'
              then (case d of None \<Rightarrow> (s2, Some TypeError) | Some (v, _) \<Rightarrow> ok (set_value (value_of v) s2))
              else ok s2) (\<lambda>s3.
         thn (ac_close (s3\<lparr>ac_term := Some (inputValue s3)\<rparr>)) (\<lambda>s4. ok (s4\<lparr>selectedItem := item'\<rparr>))))"

subsection \<open>Suggestions\<close>

text \<open>\<open>_renderMenu\<close> on the emptied element: the nodes get new identities.\<close>

definition fill_menu :: "(node \<times> ('x raw \<times> string option) option) list \<Rightarrow> ('x, 'a) ac_scheme \<Rightarrow> ('x, 'a) ac_scheme" where
  "fill_menu rs s =
     (let ids = [next_node s ..< next_node s + length rs] in
      s\<lparr>nodes := zip ids (map fst rs), lists := [],
        item_data := List.map_filter (\<lambda>(i, r). map_option (\<lambda>d. (i, d)) (snd r)) (zip ids rs),
        next_node := next_node s + length rs\<rparr>)"

definition suggest :: "'x ac_env \<Rightarrow> geometry \<Rightarrow> 'x raw list \<Rightarrow> ('x, 'a) ac_scheme \<Rightarrow> ('x, 'a) ac_scheme res" where
  "suggest E g items s =
     (let s1 = (fill_menu (render E (ac_term s) items) s)\<lparr>isNewMenu := True\<rparr> in
      thn (menu_refresh no_hook s1) (\<lambda>s2.
      thn (let s3 = s2\<lparr>menuVisible := True\<rparr> in
           if autoFocus E then menu_next g no_hook (ac_menufocus E) None s3 else ok s3) (\<lambda>s4.
      ok (s4\<lparr>outsideListener := True\<rparr>))))"

text \<open>
  \<open>__response\<close> with its extension for messages. The extension counts the suggestions it was given: those that the handler
  of \<open>response\<close> has changed only if they are the same array.
\<close>

definition response_base :: "'x ac_env \<Rightarrow> geometry \<Rightarrow> 'x raw list option \<Rightarrow> ('x, 'a) ac_scheme \<Rightarrow> ('x, 'a) ac_scheme res" where
  "response_base E g content s =
     (let s1 = trigger TResponse s in
      case onResponse E (map_option (normalize (noExtra E)) content) of
        Some (v # vs) \<Rightarrow>
          if \<not> ac_disabled s1 \<and> \<not> cancelSearch s1
          then thn (suggest E g (v # vs) s1) (\<lambda>s2. ok (trigger TOpen s2))
          else ac_close_menu s1
      | _ \<Rightarrow> ac_close_menu s1)"

definition counted :: "'x ac_env \<Rightarrow> 'x raw list option \<Rightarrow> nat" where
  "counted E content =
     (case content of
        None \<Rightarrow> 0
      | Some items \<Rightarrow>
          if complete_first items then (case onResponse E (Some items) of None \<Rightarrow> 0 | Some items' \<Rightarrow> length items') else length items)"

definition ac_response :: "'x ac_env \<Rightarrow> geometry \<Rightarrow> 'x raw list option \<Rightarrow> ('x, 'a) ac_scheme \<Rightarrow> ('x, 'a) ac_scheme res" where
  "ac_response E g content s =
     thn (response_base E g content s) (\<lambda>s1.
       if ac_disabled s1 \<or> cancelSearch s1 then ok s1
       else ok (announce (if counted E content \<noteq> 0 then resultsMessage E (counted E content) else noResults E) s1))"

text \<open>The function that answers the request with a number.\<close>

definition respond :: "'x ac_env \<Rightarrow> geometry \<Rightarrow> nat \<Rightarrow> 'x raw list option \<Rightarrow> ('x, 'a) ac_scheme \<Rightarrow> ('x, 'a) ac_scheme res" where
  "respond E g index content s =
     thn (if index = requestIndex s then ac_response E g content s else ok s) (\<lambda>s1.
       (let s2 = s1\<lparr>pending := pending s1 - 1\<rparr> in ok (if pending s2 = 0 then s2\<lparr>loading := False\<rparr> else s2)))"

definition do_search :: "'x ac_env \<Rightarrow> geometry \<Rightarrow> string \<Rightarrow> ('x, 'a) ac_scheme \<Rightarrow> ('x, 'a) ac_scheme res" where
  "do_search E g v s =
     (let s1 = s\<lparr>pending := pending s + 1, loading := True, cancelSearch := False, requestIndex := Suc (requestIndex s)\<rparr> in
      case source E (requestIndex s1) v of
        None \<Rightarrow> ok s1
      | Some content \<Rightarrow> respond E g (requestIndex s1) content s1)"

definition ac_search :: "'x ac_env \<Rightarrow> geometry \<Rightarrow> string option \<Rightarrow> ('x, 'a) ac_scheme \<Rightarrow> ('x, 'a) ac_scheme res" where
  "ac_search E g given_value s =
     (let v = (case given_value of Some v \<Rightarrow> v | None \<Rightarrow> inputValue s);
          s1 = s\<lparr>ac_term := Some (inputValue s)\<rparr>
      in if length v < minLength E then ac_close s1
         else (let s2 = trigger TSearch s1 in if \<not> onSearch E v then ok s2 else do_search E g v s2))"

definition searchTimeout :: "ev \<Rightarrow> ('x, 'a) ac_scheme \<Rightarrow> ('x, 'a) ac_scheme" where
  "searchTimeout e s = (let s1 = clear_searching s in (ac_delay (SearchAct e) s1)\<lparr>searching := Some (next_ac_timer s1)\<rparr>)"

subsection \<open>Keys\<close>

datatype ac_move = NextItem | PreviousItem | NextPage | PreviousPage

definition moves_back :: "ac_move \<Rightarrow> bool" where
  "moves_back d \<longleftrightarrow> d = PreviousItem \<or> d = PreviousPage"

definition menu_call :: "'x ac_env \<Rightarrow> geometry \<Rightarrow> ac_move \<Rightarrow> ev \<Rightarrow> ('x, 'a) ac_scheme \<Rightarrow> ('x, 'a) ac_scheme res" where
  "menu_call E g d e s =
     (case d of
        NextItem \<Rightarrow> menu_next g no_hook (ac_menufocus E) (Some e) s
      | PreviousItem \<Rightarrow> menu_previous g no_hook (ac_menufocus E) (Some e) s
      | NextPage \<Rightarrow> nextPage g no_hook (ac_menufocus E) (Some e) s
      | PreviousPage \<Rightarrow> previousPage g no_hook (ac_menufocus E) (Some e) s)"

definition ac_moves :: "'x ac_env \<Rightarrow> geometry \<Rightarrow> ac_move \<Rightarrow> ev \<Rightarrow> ('x, 'a) ac_scheme \<Rightarrow> ('x, 'a) ac_scheme res" where
  "ac_moves E g d e s =
     (if \<not> menuVisible s then ac_search E g None s
      else if isFirstItem s \<and> moves_back d \<or> isLastItem s \<and> \<not> moves_back d
      then menu_blur no_hook None False (if \<not> isMultiLine s then set_value (ac_term s) s else s)
      else menu_call E g d e s)"

definition keyEvent :: "'x ac_env \<Rightarrow> geometry \<Rightarrow> ac_move \<Rightarrow> ev \<Rightarrow> ('x, 'a) ac_scheme \<Rightarrow> ('x, 'a) ac_scheme res" where
  "keyEvent E g d e s = (if \<not> isMultiLine s \<or> menuVisible s then ac_moves E g d e s else ok s)"

definition select_active :: "'x ac_env \<Rightarrow> ev \<Rightarrow> ('x, 'a) ac_scheme \<Rightarrow> ('x, 'a) ac_scheme res" where
  "select_active E e s = menu_select (ac_menuselect E) (Some e) s"

definition ac_keydown :: "'x ac_env \<Rightarrow> geometry \<Rightarrow> ev \<Rightarrow> ('x, 'a) ac_scheme \<Rightarrow> ('x, 'a) ac_scheme res" where
  "ac_keydown E g e s =
     (if inputReadOnly s then ok (s\<lparr>suppressKeyPress := True, suppressInput := True, suppressKeyPressRepeat := True\<rparr>)
      else (let s1 = s\<lparr>suppressKeyPress := False, suppressInput := False, suppressKeyPressRepeat := False\<rparr> in
        if keyCode e = PAGE_UP then ac_moves E g PreviousPage e (s1\<lparr>suppressKeyPress := True\<rparr>)
        else if keyCode e = PAGE_DOWN then ac_moves E g NextPage e (s1\<lparr>suppressKeyPress := True\<rparr>)
        else if keyCode e = UP then keyEvent E g PreviousItem e (s1\<lparr>suppressKeyPress := True\<rparr>)
        else if keyCode e = DOWN then keyEvent E g NextItem e (s1\<lparr>suppressKeyPress := True\<rparr>)
        else if keyCode e = ENTER
        then if active s1 \<noteq> None then select_active E e (s1\<lparr>suppressKeyPress := True\<rparr>) else ok s1
        else if keyCode e = TAB
        then if active s1 \<noteq> None then select_active E e s1 else ok s1
        else if keyCode e = ESCAPE
        then if menuVisible s1 then ac_close (if \<not> isMultiLine s1 then set_value (ac_term s1) s1 else s1) else ok s1
        else ok (searchTimeout e (s1\<lparr>suppressKeyPressRepeat := True\<rparr>))))"

definition ac_keypress :: "'x ac_env \<Rightarrow> geometry \<Rightarrow> ev \<Rightarrow> ('x, 'a) ac_scheme \<Rightarrow> ('x, 'a) ac_scheme res" where
  "ac_keypress E g e s =
     (if suppressKeyPress s then ok (s\<lparr>suppressKeyPress := False\<rparr>)
      else if suppressKeyPressRepeat s then ok s
      else if keyCode e = PAGE_UP then ac_moves E g PreviousPage e s
      else if keyCode e = PAGE_DOWN then ac_moves E g NextPage e s
      else if keyCode e = UP then keyEvent E g PreviousItem e s
      else if keyCode e = DOWN then keyEvent E g NextItem e s
      else ok s)"

subsection \<open>Events\<close>

definition ac_input :: "ev \<Rightarrow> ('x, 'a) ac_scheme \<Rightarrow> ('x, 'a) ac_scheme" where
  "ac_input e s = (if suppressInput s then s\<lparr>suppressInput := False\<rparr> else searchTimeout e s)"

definition ac_change :: "('x, 'a) ac_scheme \<Rightarrow> ('x, 'a) ac_scheme" where
  "ac_change s = (if previous s \<noteq> Some (inputValue s) then trigger (TChange (selectedItem s)) s else s)"

definition on_blur :: "('x, 'a) ac_scheme \<Rightarrow> ('x, 'a) ac_scheme res" where
  "on_blur s =
     (if cancelBlur s then ok (s\<lparr>cancelBlur := False\<rparr>)
      else thn (ac_close (clear_searching s)) (\<lambda>s1. ok (ac_change s1)))"

definition run_ac_act :: "'x ac_env \<Rightarrow> geometry \<Rightarrow> 'x ac_act \<Rightarrow> ('x, 'a) ac_scheme \<Rightarrow> ('x, 'a) ac_scheme res" where
  "run_ac_act E g a s =
     (case a of
        SearchAct e \<Rightarrow>
          (let equalValues = (ac_term s = Some (inputValue s)) in
           if \<not> equalValues \<or> \<not> menuVisible s \<and> \<not> modifierKey e then ac_search E g None (s\<lparr>selectedItem := None\<rparr>) else ok s)
      | AllowBlur \<Rightarrow>
          (let s1 = s\<lparr>cancelBlur := False\<rparr> in ok (if \<not> inputFocused s1 then on_focus (s1\<lparr>inputFocused := True\<rparr>) else s1))
      | RestoreAct prev item \<Rightarrow> ok (s\<lparr>previous := prev, selectedItem := item\<rparr>))"

definition run_ac_timer :: "'x ac_env \<Rightarrow> geometry \<Rightarrow> nat \<Rightarrow> ('x, 'a) ac_scheme \<Rightarrow> ('x, 'a) ac_scheme res" where
  "run_ac_timer E g t s =
     (case map_of (ac_timers s) t of
        None \<Rightarrow> ok s
      | Some a \<Rightarrow> run_ac_act E g a (s\<lparr>ac_timers := filter (\<lambda>(u, b). u \<noteq> t) (ac_timers s)\<rparr>))"

fun run_replays :: "'x ac_env \<Rightarrow> geometry \<Rightarrow> ev list \<Rightarrow> ('x, 'a) ac_scheme \<Rightarrow> ('x, 'a) ac_scheme res" where
  "run_replays E g [] s = ok s"
| "run_replays E g (e # es) s =
     thn (case ev_item e of None \<Rightarrow> ok s | Some i \<Rightarrow> mouse_enter g no_hook (ac_menufocus E) e i s) (run_replays E g es)"

text \<open>
  \<open>Typed\<close> is the browser's change of the text. Events of the menu's element need it to be visible; its timers do not.
\<close>

datatype 'x ac_event =
    KeyDown ev
  | KeyPress ev
  | Typed string
  | InputEv ev
  | FieldFocus
  | FieldBlur
  | MenuMouseDown
  | MenuEvent menu_event
  | MouseMove
  | OutsideMouseDown bool
  | Respond nat "'x raw list option"
  | AcTimer nat
  | CallSearch "string option"
  | CallClose
  | SetDisabled bool

fun is_timer :: "menu_event \<Rightarrow> bool" where
  "is_timer (MTimer t b) = True"
| "is_timer _ = False"

definition unless_disabled :: "('x, 'a) ac_scheme \<Rightarrow> ('x, 'a) ac_scheme res \<Rightarrow> ('x, 'a) ac_scheme res" where
  "unless_disabled s m = (if ac_disabled s then ok s else m)"

fun ac_handle :: "'x ac_env \<Rightarrow> geometry \<times> 'x ac_event \<Rightarrow> ('x, 'a) ac_scheme \<Rightarrow> ('x, 'a) ac_scheme res" where
  "ac_handle E (g, KeyDown e) s = unless_disabled s (ac_keydown E g e s)"
| "ac_handle E (g, KeyPress e) s = unless_disabled s (ac_keypress E g e s)"
| "ac_handle E (g, Typed v) s = ok (s\<lparr>inputValue := v\<rparr>)"
| "ac_handle E (g, InputEv e) s = unless_disabled s (ok (ac_input e s))"
| "ac_handle E (g, FieldFocus) s = ok (on_focus (s\<lparr>inputFocused := True\<rparr>))"
| "ac_handle E (g, FieldBlur) s = (let s1 = s\<lparr>inputFocused := False\<rparr> in unless_disabled s1 (on_blur s1))"
| "ac_handle E (g, MenuMouseDown) s = unless_menu_disabled s (if menuVisible s then ok (ac_delay AllowBlur (s\<lparr>cancelBlur := True\<rparr>)) else ok s)"
| "ac_handle E (g, MenuEvent m) s =
     (if menuVisible s \<or> is_timer m then menu_handle no_hook (ac_menufocus E) (ac_menuselect E) (g, m) s else ok s)"
| "ac_handle E (g, MouseMove) s = run_replays E g (replays s) (s\<lparr>replays := []\<rparr>)"
| "ac_handle E (g, OutsideMouseDown inWidget) s =
     unless_disabled s (if outsideListener s \<and> \<not> inWidget then ac_close s else ok s)"
| "ac_handle E (g, Respond k content) s = (if 0 < k \<and> k \<le> requestIndex s then respond E g k content s else ok s)"
| "ac_handle E (g, AcTimer t) s = run_ac_timer E g t s"
| "ac_handle E (g, CallSearch v) s = ac_search E g v s"
| "ac_handle E (g, CallClose) s = ac_close s"
| "ac_handle E (g, SetDisabled b) s = ok (s\<lparr>ac_disabled := b\<rparr>)"

definition ac_run :: "'x ac_env \<Rightarrow> (geometry \<times> 'x ac_event) list \<Rightarrow> ('x, 'a) ac_scheme \<Rightarrow> ('x, 'a) ac_scheme" where
  "ac_run E evs s = fold (\<lambda>e s. fst (ac_handle E e s)) evs s"

definition ac_init :: "bool \<Rightarrow> 'x ac" where
  "ac_init multi =
     \<lparr>nodes = [], lists = [], active = None, activeMenu = [0], mouseHandled = False, previousFilter = [], menu_timers = [],
      next_timer = 0, timer = None, filterTimer = None, menu_role = None, activedescendant = [], menu_disabled = False, scrolled = [],
      inputValue = [], ac_term = None, previous = None, selectedItem = None, requestIndex = 0, pending = 0, loading = False,
      cancelSearch = False, cancelBlur = False, isNewMenu = True, isMultiLine = multi, menuVisible = False, outsideListener = False,
      suppressKeyPress = False, suppressKeyPressRepeat = False, suppressInput = False, searching = None, ac_timers = [],
      next_ac_timer = 0, next_node = 0, item_data = [], replays = [], liveRegion = [], inputReadOnly = False, inputFocused = False,
      ac_disabled = False, triggered = []\<rparr>"

subsection \<open>Filtering\<close>

text \<open>The source made from an array keeps, in their order, the suggestions whose text contains the text of the field, in any case.\<close>

theorem autocomplete_filter:
  "ac_filter array t = filter (\<lambda>v. sublist (toUpperCase t) (toUpperCase (tested_text v))) array"
  by (simp add: ac_filter_def rx_test_escape)

subsection \<open>The autocomplete as the owner of its menu\<close>

lemma set_updates_menu [simp]:
  "menu_inv b (trigger t s) = menu_inv b s" "menu_inv b (set_value v s) = menu_inv b s" "menu_inv b (announce m s) = menu_inv b s"
  "menu_inv b (ac_delay a s) = menu_inv b s" "menu_inv b (on_focus s) = menu_inv b s"
  by (simp_all add: trigger_def set_value_def announce_def ac_delay_def on_focus_def menu_inv_def menu_ok_def filter_ok_def)

lemma own_updates_menu [simp]:
  "menu_inv b (s\<lparr>isNewMenu := v1\<rparr>) = menu_inv b s" "menu_inv b (s\<lparr>replays := v2\<rparr>) = menu_inv b s"
  "menu_inv b (s\<lparr>previous := v3\<rparr>) = menu_inv b s" "menu_inv b (s\<lparr>inputFocused := v4\<rparr>) = menu_inv b s"
  "menu_inv b (s\<lparr>outsideListener := v5\<rparr>) = menu_inv b s" "menu_inv b (s\<lparr>menuVisible := v6\<rparr>) = menu_inv b s"
  "menu_inv b (s\<lparr>cancelSearch := v7\<rparr>) = menu_inv b s" "menu_inv b (s\<lparr>selectedItem := v8\<rparr>) = menu_inv b s"
  "menu_inv b (s\<lparr>ac_term := v9\<rparr>) = menu_inv b s"
  by (simp_all add: menu_inv_def menu_ok_def filter_ok_def)

lemma blur_menu_inv: "menu_inv b s \<Longrightarrow> keeps_inv (menu_inv b) (menu_blur no_hook e v s)"
  by (simp add: menu_blur_no_hook keeps_inv_def Let_def menu_inv_steps split: option.split)

lemma announce_keeps: "K s \<Longrightarrow> (\<And>m. K (announce m s)) \<Longrightarrow> keeps_inv K (ac_announce item s)"
  by (simp add: ac_announce_def Let_def keeps_inv_def)

lemma menufocus_keeps:
  assumes "K s" and "\<And>s v. K s \<Longrightarrow> K (s\<lparr>isNewMenu := v\<rparr>)" "\<And>s v. K s \<Longrightarrow> K (s\<lparr>replays := v\<rparr>)" "\<And>s t. K s \<Longrightarrow> K (trigger t s)"
    "\<And>s v. K s \<Longrightarrow> K (set_value v s)" "\<And>s m. K s \<Longrightarrow> K (announce m s)" "\<And>s e v. K s \<Longrightarrow> keeps_inv K (menu_blur no_hook e v s)"
  shows "keeps_inv K (ac_menufocus E e item s)"
  unfolding ac_menufocus_def unless_menu_disabled_def Let_def
  by (intro keeps_rules announce_keeps) (use assms in \<open>auto simp: keeps_inv_def split: option.split\<close>)

text \<open>The events that start a search.\<close>

fun may_search :: "'x ac_event \<Rightarrow> bool" where
  "may_search (KeyDown e) = True"
| "may_search (KeyPress e) = True"
| "may_search (AcTimer t) = True"
| "may_search (CallSearch v) = True"
| "may_search _ = False"

text \<open>The text that an event asks the source for, if it does.\<close>

definition asked_text :: "'x ac_event \<Rightarrow> ('x, 'a) ac_scheme \<Rightarrow> string" where
  "asked_text v s = (case v of CallSearch (Some w) \<Rightarrow> w | _ \<Rightarrow> inputValue s)"

text \<open>Code that keeps a property, or does so up to the start of one request, with which it ends.\<close>

definition once :: "(('x, 'a) ac_scheme \<Rightarrow> bool) \<Rightarrow> 'x ac_env \<Rightarrow> geometry \<Rightarrow> string \<Rightarrow> ('x, 'a) ac_scheme res \<Rightarrow> bool" where
  "once K E g v m \<longleftrightarrow> keeps_inv K m \<or> (\<exists>s. K s \<and> m = do_search E g v s)"

lemma once_keeps: "keeps_inv K m \<Longrightarrow> once K E g v m"
  by (simp add: once_def)

lemma once_ok: "K s \<Longrightarrow> once K E g v (ok s)"
  by (simp add: once_def keeps_ok)

lemma once_if: "(b \<Longrightarrow> once K E g v m) \<Longrightarrow> (\<not> b \<Longrightarrow> once K E g v m') \<Longrightarrow> once K E g v (if b then m else m')"
  by simp

text \<open>
  A property that the elementary changes of the widget keep, other than starting a request, answering one and showing
  suggestions, is kept by every event that does none of these.
\<close>

locale ac_steps = menu_steps K no_hook no_hook no_hook
  for K :: "('x, 'a) ac_scheme \<Rightarrow> bool" +
  assumes K_text: "K s \<Longrightarrow> K (s\<lparr>inputValue := v1\<rparr>)" "K s \<Longrightarrow> K (s\<lparr>ac_term := v2\<rparr>)" "K s \<Longrightarrow> K (s\<lparr>previous := v2\<rparr>)"
      "K s \<Longrightarrow> K (s\<lparr>selectedItem := v3\<rparr>)" "K s \<Longrightarrow> K (s\<lparr>liveRegion := v4\<rparr>)" "K s \<Longrightarrow> K (s\<lparr>triggered := v5\<rparr>)" "K s \<Longrightarrow> K (s\<lparr>replays := v6\<rparr>)"
    and K_flags: "K s \<Longrightarrow> K (s\<lparr>cancelBlur := b\<rparr>)" "K s \<Longrightarrow> K (s\<lparr>isNewMenu := b\<rparr>)" "K s \<Longrightarrow> K (s\<lparr>outsideListener := b\<rparr>)"
      "K s \<Longrightarrow> K (s\<lparr>suppressKeyPress := b\<rparr>)" "K s \<Longrightarrow> K (s\<lparr>suppressKeyPressRepeat := b\<rparr>)" "K s \<Longrightarrow> K (s\<lparr>suppressInput := b\<rparr>)"
      "K s \<Longrightarrow> K (s\<lparr>inputFocused := b\<rparr>)" "K s \<Longrightarrow> K (s\<lparr>ac_disabled := b\<rparr>)"
    and K_closing: "K s \<Longrightarrow> K (s\<lparr>cancelSearch := True\<rparr>)" "K s \<Longrightarrow> K (s\<lparr>menuVisible := False\<rparr>)"
    and K_times: "K s \<Longrightarrow> K (s\<lparr>searching := v7\<rparr>)" "K s \<Longrightarrow> K (s\<lparr>ac_timers := v8\<rparr>)" "K s \<Longrightarrow> K (s\<lparr>next_ac_timer := v9\<rparr>)"
    and K_typing: "K s \<Longrightarrow> K (s\<lparr>previousFilter := v1\<rparr>)" "K s \<Longrightarrow> K (s\<lparr>filterTimer := v7\<rparr>)" "K s \<Longrightarrow> K (delay act s)" "K s \<Longrightarrow> K (clear_timer h s)"
begin

lemmas K_own = K_text K_flags K_closing K_times

lemma K_calls:
  "K s \<Longrightarrow> K (trigger t s)" "K s \<Longrightarrow> K (set_value v s)" "K s \<Longrightarrow> K (announce m s)" "K s \<Longrightarrow> K (ac_delay a s)" "K s \<Longrightarrow> K (clear_searching s)"
  "K s \<Longrightarrow> K (on_focus s)" "K s \<Longrightarrow> K (searchTimeout e s)" "K s \<Longrightarrow> K (ac_input e s)" "K s \<Longrightarrow> K (ac_change s)"
  by (simp_all add: trigger_def set_value_def announce_def ac_delay_def clear_searching_def on_focus_def searchTimeout_def ac_input_def
      ac_change_def Let_def K_own)

lemma close_menu_keeps: "K s \<Longrightarrow> keeps_inv K (ac_close_menu s)"
  unfolding ac_close_menu_def Let_def by (intro keeps_rules blur_keeps) (auto simp: K_own K_calls)

lemma close_keeps: "K s \<Longrightarrow> keeps_inv K (ac_close s)"
  by (simp add: ac_close_def close_menu_keeps K_own)

lemma focus_hook: "K s \<Longrightarrow> keeps_inv K (ac_menufocus E e item s)"
  by (rule menufocus_keeps) (auto simp: K_own K_calls blur_keeps)

lemma select_hook: "K s \<Longrightarrow> keeps_inv K (ac_menuselect E e item s)"
  unfolding ac_menuselect_def unless_menu_disabled_def Let_def
  by (intro keeps_rules close_keeps) (auto simp: K_own K_calls split: option.split intro!: keeps_rules)

sublocale own: menu_steps K no_hook "ac_menufocus E" "ac_menuselect E" for E
  by unfold_locales
    (use K_nodes K_lists K_fields K_active K_one K_clear K_delay K_run K_forget hooks_keep(1) focus_hook select_hook in auto)

lemma typing_keeps: "K s \<Longrightarrow> keeps_inv K (typeahead g no_hook (ac_menufocus E) e s)"
  unfolding typeahead_def Let_def
  by (intro keeps_rules own.focus_keeps) (auto simp: K_typing)

lemma menu_event_keeps: "K s \<Longrightarrow> keeps_inv K (menu_handle no_hook (ac_menufocus E) (ac_menuselect E) ge s)"
  by (intro own.handle_keeps typing_keeps) auto

lemma replays_keep: "K s \<Longrightarrow> keeps_inv K (run_replays E g es s)"
proof (induction es arbitrary: s)
  case (Cons e es)
  have "keeps_inv K (mouse_enter g no_hook (ac_menufocus E) e i s)" for i
    using Cons.prems by (auto simp: mouse_enter_def own.K_steps intro!: keeps_rules own.focus_keeps)
  with Cons show ?case by (auto intro!: keeps_thn keeps_ok split: option.split)
qed (simp add: keeps_ok)

lemma suggest_keeps:
  assumes "K s" "\<And>s rs. K s \<Longrightarrow> K (fill_menu rs s)" "\<And>s. K s \<Longrightarrow> K (s\<lparr>menuVisible := True\<rparr>)"
  shows "keeps_inv K (suggest E g items s)"
  unfolding suggest_def Let_def
  by (intro keeps_rules own.move_keeps refresh_keeps) (use assms in \<open>auto simp: K_own\<close>)

lemma response_keeps:
  assumes "K s" "\<And>items. \<not> cancelSearch s \<Longrightarrow> keeps_inv K (suggest E g items (trigger TResponse s))"
  shows "keeps_inv K (ac_response E g content s)"
proof -
  have "keeps_inv K (response_base E g content s)"
    unfolding response_base_def Let_def
    by (auto split: option.split list.split intro!: keeps_rules close_menu_keeps simp: K_calls assms)
       (use assms(2) in \<open>simp add: trigger_def\<close>)
  then show ?thesis unfolding ac_response_def by (intro keeps_rules) (auto simp: K_calls)
qed

lemma search_once:
  assumes "K s" "v = (case w of Some u \<Rightarrow> u | None \<Rightarrow> inputValue s)"
  shows "once K E g v (ac_search E g w s)"
proof (cases "length v < minLength E \<or> \<not> onSearch E v")
  case True
  then show ?thesis using assms unfolding ac_search_def Let_def
    by (intro once_keeps) (auto intro!: keeps_rules close_keeps simp: K_own K_calls)
next
  case False
  then have "ac_search E g w s = do_search E g v (trigger TSearch (s\<lparr>ac_term := Some (inputValue s)\<rparr>))"
    using assms(2) by (simp add: ac_search_def Let_def)
  moreover have "K (trigger TSearch (s\<lparr>ac_term := Some (inputValue s)\<rparr>))" using assms(1) by (simp add: K_own K_calls)
  ultimately show ?thesis unfolding once_def by blast
qed

lemma moves_once:
  assumes "K s" "v = inputValue s"
  shows "once K E g v (ac_moves E g d e s)" "once K E g v (keyEvent E g d e s)"
proof -
  have "keeps_inv K (menu_call E g d e s)" using assms(1) by (cases d) (simp_all add: menu_call_def own.move_keeps own.page_keeps)
  with assms show "once K E g v (ac_moves E g d e s)"
    unfolding ac_moves_def by (intro once_if search_once once_keeps blur_keeps) (auto simp: K_calls)
  with assms(1) show "once K E g v (keyEvent E g d e s)" by (simp add: keyEvent_def once_keeps keeps_ok)
qed

lemma keys_once:
  assumes "K s" "v = inputValue s"
  shows "once K E g v (ac_keydown E g e s)" "once K E g v (ac_keypress E g e s)"
proof -
  have sel: "K s \<Longrightarrow> keeps_inv K (select_active E e s)" for s by (simp add: select_active_def own.select_keeps)
  show "once K E g v (ac_keydown E g e s)"
    unfolding ac_keydown_def Let_def
    by (intro once_if moves_once; (intro once_keeps keeps_rules sel close_keeps)?) (use assms in \<open>auto simp: K_own K_calls\<close>)
  show "once K E g v (ac_keypress E g e s)"
    unfolding ac_keypress_def by (intro once_if moves_once; (intro once_keeps keeps_rules)?) (use assms in \<open>auto simp: K_own\<close>)
qed

lemma timer_once:
  assumes "K s"
  shows "once K E g (inputValue s) (run_ac_timer E g t s)"
proof -
  have act: "K s \<Longrightarrow> once K E g (inputValue s) (run_ac_act E g a s)" for a s
    by (cases a) (auto simp: run_ac_act_def Let_def K_own K_calls intro!: search_once once_ok)
  show ?thesis unfolding run_ac_timer_def
    by (cases "map_of (ac_timers s) t") (use assms act[of "s\<lparr>ac_timers := filter (\<lambda>(u, b). u \<noteq> t) (ac_timers s)\<rparr>"] in \<open>auto simp: K_own once_ok\<close>)
qed

lemma on_blur_keeps: "K s \<Longrightarrow> keeps_inv K (on_blur s)"
  unfolding on_blur_def by (intro keeps_rules close_keeps) (auto simp: K_own K_calls)

lemma quiet_handle_keeps:
  assumes "K s" "\<not> may_search (snd ge)"
    and "\<And>g k c. ge = (g, Respond k c) \<Longrightarrow> 0 < k \<Longrightarrow> k \<le> requestIndex s \<Longrightarrow> keeps_inv K (respond E g k c s)"
  shows "keeps_inv K (ac_handle E ge s)"
proof -
  obtain g v where ge: "ge = (g, v)" by (cases ge)
  show ?thesis using assms unfolding ge
    by (cases v) (auto simp: unless_disabled_def unless_menu_disabled_def Let_def K_own K_calls
        intro!: keeps_rules menu_event_keeps replays_keep close_keeps on_blur_keeps)
qed

lemma search_handle_once:
  assumes "K s" "may_search (snd ge)"
  shows "once K E (fst ge) (asked_text (snd ge) s) (ac_handle E ge s)"
proof -
  obtain g v where ge: "ge = (g, v)" by (cases ge)
  show ?thesis using assms unfolding ge
    by (cases v) (auto simp: unless_disabled_def asked_text_def intro!: keys_once timer_once search_once once_ok split: option.split)
qed

lemma ac_handle_keeps:
  assumes "K s" "\<And>s g v. K s \<Longrightarrow> keeps_inv K (do_search E g v s)"
    and "\<And>g k c. ge = (g, Respond k c) \<Longrightarrow> 0 < k \<Longrightarrow> k \<le> requestIndex s \<Longrightarrow> keeps_inv K (respond E g k c s)"
  shows "keeps_inv K (ac_handle E ge s)"
proof (cases "may_search (snd ge)")
  case True
  from search_handle_once[OF assms(1) this, of E] assms(2) show ?thesis by (auto simp: once_def)
next
  case False
  then show ?thesis by (intro quiet_handle_keeps assms)
qed

end

interpretation ac_menu: menu_owner "\<lambda>_ :: ('x, 'y) ac_ext. True" no_hook "ac_menufocus E" "ac_menuselect E" for E :: "'x ac_env"
proof unfold_locales
  fix b e "is" and s :: "('x, 'y) ac_scheme"
  let ?K = "\<lambda>s :: ('x, 'y) ac_scheme. menu_inv b s \<and> True"
  have blur: "?K s \<Longrightarrow> keeps_inv ?K (menu_blur no_hook e v s)" for s e v using blur_menu_inv[of b s e v] by (simp add: keeps_inv_def)
  have close: "?K s \<Longrightarrow> keeps_inv ?K (ac_close s)" for s
    unfolding ac_close_def ac_close_menu_def Let_def by (intro keeps_rules blur) auto
  assume s: "?K s"
  show "keeps_inv ?K (no_hook e is s)" using s by (simp add: no_hook_def keeps_ok)
  show "keeps_inv ?K (ac_menufocus E e is s)" by (rule menufocus_keeps) (use s blur in auto)
  show "keeps_inv ?K (ac_menuselect E e is s)"
    unfolding ac_menuselect_def unless_menu_disabled_def Let_def
    by (intro keeps_rules close) (use s in \<open>auto split: option.split intro!: keeps_rules\<close>)
qed

subsection \<open>The sign that a search is going on\<close>

definition one_active :: "'a menu_scheme \<Rightarrow> bool" where
  "one_active s \<longleftrightarrow> (\<forall>a. active s = Some a \<longrightarrow> length a \<le> 1)"

lemma one_active_updates [simp]:
  "one_active (map_nodes f s) = one_active s" "one_active (map_lists h s) = one_active s" "one_active (clear_timer t s) = one_active s"
  "one_active (delay a s) = one_active s" "one_active (delay_timer a s) = one_active s" "one_active (s\<lparr>active := None\<rparr>)"
  by (simp_all add: one_active_def)

lemma frame_updates [simp]:
  "pending (map_nodes f s) = pending s" "pending (map_lists h s) = pending s" "pending (clear_timer t s) = pending s"
  "pending (delay a s) = pending s" "pending (delay_timer a s) = pending s"
  "loading (map_nodes f s) = loading s" "loading (map_lists h s) = loading s" "loading (clear_timer t s) = loading s"
  "loading (delay a s) = loading s" "loading (delay_timer a s) = loading s"
  "cancelSearch (map_nodes f s) = cancelSearch s" "cancelSearch (map_lists h s) = cancelSearch s" "cancelSearch (clear_timer t s) = cancelSearch s"
  "cancelSearch (delay a s) = cancelSearch s" "cancelSearch (delay_timer a s) = cancelSearch s"
  "menuVisible (map_nodes f s) = menuVisible s" "menuVisible (map_lists h s) = menuVisible s" "menuVisible (clear_timer t s) = menuVisible s"
  "menuVisible (delay a s) = menuVisible s" "menuVisible (delay_timer a s) = menuVisible s"
  by (simp_all add: map_nodes_def map_lists_def clear_timer_def delay_def delay_timer_def)

definition account :: "int \<Rightarrow> bool \<Rightarrow> ('x, 'a) ac_scheme \<Rightarrow> bool" where
  "account p l s \<longleftrightarrow> pending s = p \<and> loading s = l \<and> one_active s"

text \<open>The same with the number of the last request.\<close>

definition tally :: "nat \<Rightarrow> int \<Rightarrow> bool \<Rightarrow> ('x, 'a) ac_scheme \<Rightarrow> bool" where
  "tally n p l s \<longleftrightarrow> requestIndex s = n \<and> account p l s"

interpretation tally: ac_steps "tally n p l" for n p l
  by unfold_locales (auto simp: tally_def account_def no_hook_def keeps_inv_def one_active_def map_nodes_def map_lists_def clear_timer_def delay_def delay_timer_def)

lemma response_tally: "tally n p l s \<Longrightarrow> keeps_inv (tally n p l) (ac_response E g content s)"
  by (intro tally.response_keeps tally.suggest_keeps tally.K_calls) (auto simp: fill_menu_def tally_def account_def one_active_def Let_def)

text \<open>An answer takes one from the requests that are open, unless the code it runs throws.\<close>

lemma respond_tally:
  assumes "tally n p l s"
  shows "(snd (respond E g k c s) = None \<longrightarrow> tally n (p - 1) (l \<and> p \<noteq> 1) (fst (respond E g k c s)))
    \<and> (snd (respond E g k c s) \<noteq> None \<longrightarrow> tally n p l (fst (respond E g k c s)))"
proof -
  define m where "m = (if k = requestIndex s then ac_response E g c s else ok s)"
  have m: "tally n p l (fst m)" using response_tally[OF assms, of E g c] assms by (simp add: m_def keeps_inv_def)
  show ?thesis
  proof (cases "snd m")
    case None
    then show ?thesis using m by (simp add: respond_def m_def[symmetric] thn_def tally_def account_def one_active_def Let_def)
  next
    case (Some e)
    then show ?thesis using m by (simp add: respond_def m_def[symmetric] thn_def)
  qed
qed

lemma respond_account:
  assumes "account p l s"
  shows "(snd (respond E g k c s) = None \<longrightarrow> account (p - 1) (l \<and> p \<noteq> 1) (fst (respond E g k c s)))
    \<and> (snd (respond E g k c s) \<noteq> None \<longrightarrow> account p l (fst (respond E g k c s)))"
  using respond_tally[of "requestIndex s" p l s E g k c] assms by (auto simp: tally_def)

text \<open>A request adds one, and is answered at once or stays open.\<close>

lemma search_tally:
  assumes "tally n p l s" "0 \<le> p"
  shows "let r = do_search E g v s; answered = (\<not> Option.is_none (source E (Suc n) v) \<and> snd r = None)
    in tally (Suc n) (if answered then p else p + 1) (\<not> answered \<or> p \<noteq> 0) (fst r)"
proof -
  define s1 where "s1 = s\<lparr>pending := pending s + 1, loading := True, cancelSearch := False, requestIndex := Suc (requestIndex s)\<rparr>"
  have s1: "tally (Suc n) (p + 1) True s1" using assms(1) by (simp add: s1_def tally_def account_def one_active_def)
  then have idx: "requestIndex s1 = Suc n" by (simp add: tally_def)
  have "do_search E g v s = (case source E (Suc n) v of None \<Rightarrow> ok s1 | Some c \<Rightarrow> respond E g (Suc n) c s1)"
    by (simp add: do_search_def s1_def[symmetric] idx split: option.split)
  then show ?thesis
    using s1 respond_tally[OF s1, of E g "Suc n"] assms(2) by (cases "source E (Suc n) v") (auto simp: Let_def)
qed

text \<open>
  The requests that are open, told by the events alone: an event that makes a request, whose number is then that of the last
  request, opens it unless the source answers it at once; an answer to a request closes it. An answer whose handling throws does not.
\<close>

definition open_step :: "'x ac_env \<Rightarrow> geometry \<times> 'x ac_event \<Rightarrow> ('x, 'a) ac_scheme \<Rightarrow> nat list \<Rightarrow> nat list" where
  "open_step E ge s opened =
     (let r = ac_handle E ge s; n = requestIndex (fst r) in
      case snd ge of
        Respond k c \<Rightarrow> if snd r = None then removeAll k opened else opened
      | v \<Rightarrow> if n = requestIndex s \<or> \<not> Option.is_none (source E n (asked_text v s)) \<and> snd r = None then opened else opened @ [n])"

fun open_requests :: "'x ac_env \<Rightarrow> (geometry \<times> 'x ac_event) list \<Rightarrow> ('x, 'a) ac_scheme \<Rightarrow> nat list \<Rightarrow> nat list" where
  "open_requests E [] s opened = opened"
| "open_requests E (ge # evs) s opened = open_requests E evs (fst (ac_handle E ge s)) (open_step E ge s opened)"

text \<open>Every answer in a sequence of events is to a request that is open.\<close>

fun answers_due :: "'x ac_env \<Rightarrow> (geometry \<times> 'x ac_event) list \<Rightarrow> ('x, 'a) ac_scheme \<Rightarrow> nat list \<Rightarrow> bool" where
  "answers_due E [] s opened = True"
| "answers_due E (ge # evs) s opened =
     ((case snd ge of Respond k c \<Rightarrow> k \<in> set opened | _ \<Rightarrow> True)
      \<and> answers_due E evs (fst (ac_handle E ge s)) (open_step E ge s opened))"

definition loading_ok :: "nat list \<Rightarrow> ('x, 'a) ac_scheme \<Rightarrow> bool" where
  "loading_ok opened s \<longleftrightarrow> tally (requestIndex s) (int (length opened)) (opened \<noteq> []) s
     \<and> distinct opened \<and> (\<forall>k \<in> set opened. 0 < k \<and> k \<le> requestIndex s)"

lemma length_removeAll: "distinct xs \<Longrightarrow> k \<in> set xs \<Longrightarrow> Suc (length (removeAll k xs)) = length xs"
  by (simp add: distinct_remove1_removeAll[symmetric] length_remove1) (metis Suc_pred length_pos_if_in_set)

lemma loading_answer:
  assumes "loading_ok opened s" "k \<in> set opened"
  shows "loading_ok (open_step E (g, Respond k c) s opened) (fst (ac_handle E (g, Respond k c) s))"
proof -
  have k: "0 < k" "k \<le> requestIndex s" using assms by (auto simp: loading_ok_def)
  let ?r = "respond E g k c s" and ?p = "int (length opened)"
  have ne: "opened \<noteq> []" using assms(2) by auto
  have t: "tally (requestIndex s) ?p True s" using assms(1) ne by (simp add: loading_ok_def)
  note len = length_removeAll[OF _ assms(2)]
  show ?thesis
  proof (cases "snd ?r")
    case None
    then have "tally (requestIndex s) (?p - 1) (?p \<noteq> 1) (fst ?r)" using respond_tally[OF t, of E g k c] by simp
    moreover have "int (length (removeAll k opened)) = ?p - 1" "(removeAll k opened \<noteq> []) = (?p \<noteq> 1)"
      using len assms(1) by (auto simp: loading_ok_def)
    ultimately show ?thesis using assms(1) None k by (auto simp: loading_ok_def open_step_def Let_def tally_def removeAll_filter_not_eq)
  next
    case (Some x)
    then have "tally (requestIndex s) ?p True (fst ?r)" using respond_tally[OF t, of E g k c] by simp
    then show ?thesis using assms Some k ne by (simp add: loading_ok_def open_step_def Let_def tally_def)
  qed
qed

lemma loading_search:
  assumes "loading_ok opened s" "may_search (snd ge)"
  shows "loading_ok (open_step E ge s opened) (fst (ac_handle E ge s))"
proof -
  let ?n = "requestIndex s" and ?p = "int (length opened)" and ?r = "ac_handle E ge s" and ?v = "asked_text (snd ge) s"
  have t: "tally ?n ?p (opened \<noteq> []) s" using assms(1) by (simp add: loading_ok_def)
  have step: "open_step E ge s opened = (let n = requestIndex (fst ?r) in
      if n = ?n \<or> \<not> Option.is_none (source E n ?v) \<and> snd ?r = None then opened else opened @ [n])"
    using assms(2) by (cases "snd ge") (simp_all add: open_step_def Let_def)
  from tally.search_handle_once[OF t assms(2), of E] consider
    "tally ?n ?p (opened \<noteq> []) (fst ?r)" | s0 where "tally ?n ?p (opened \<noteq> []) s0" "?r = do_search E (fst ge) ?v s0"
    by (auto simp: once_def keeps_inv_def)
  then show ?thesis
  proof cases
    case 1
    then show ?thesis using assms(1) by (simp add: step Let_def loading_ok_def tally_def)
  next
    case 2
    define a where "a = (\<not> Option.is_none (source E (Suc ?n) ?v) \<and> snd ?r = None)"
    have r: "tally (Suc ?n) (if a then ?p else ?p + 1) (\<not> a \<or> ?p \<noteq> 0) (fst ?r)"
      using search_tally[OF 2(1), of E "fst ge" ?v] unfolding Let_def a_def 2(2) by simp
    then have "requestIndex (fst ?r) = Suc ?n" by (simp add: tally_def)
    then have "open_step E ge s opened = (if a then opened else opened @ [Suc ?n])" by (simp add: step Let_def a_def)
    moreover have "\<forall>k \<in> set opened. 0 < k \<and> k \<le> Suc ?n" "Suc ?n \<notin> set opened" "distinct opened"
      using assms(1) by (auto simp: loading_ok_def)
    ultimately show ?thesis using r \<open>requestIndex (fst ?r) = Suc ?n\<close> by (cases a) (simp_all add: loading_ok_def add.commute)
  qed
qed

lemma loading_step:
  assumes "loading_ok opened s" "case snd ge of Respond k c \<Rightarrow> k \<in> set opened | _ \<Rightarrow> True"
  shows "loading_ok (open_step E ge s opened) (fst (ac_handle E ge s))"
proof (cases "may_search (snd ge) \<or> (\<exists>k c. snd ge = Respond k c)")
  case True
  then show ?thesis using loading_search[OF assms(1)] loading_answer[OF assms(1)] assms(2) by (cases ge) auto
next
  case False
  have "tally (requestIndex s) (int (length opened)) (opened \<noteq> []) s" using assms(1) by (simp add: loading_ok_def)
  then have t: "tally (requestIndex s) (int (length opened)) (opened \<noteq> []) (fst (ac_handle E ge s))"
    using tally.quiet_handle_keeps False by (fastforce simp: keeps_inv_def)
  then have "open_step E ge s opened = opened" using False by (cases "snd ge") (auto simp: open_step_def Let_def tally_def)
  with t assms(1) show ?thesis by (simp add: loading_ok_def tally_def)
qed

lemma loading_run: "loading_ok opened s \<Longrightarrow> answers_due E evs s opened \<Longrightarrow> loading_ok (open_requests E evs s opened) (ac_run E evs s)"
proof (induction evs arbitrary: s opened)
  case (Cons ge evs)
  from Cons.prems have due: "case snd ge of Respond k c \<Rightarrow> k \<in> set opened | _ \<Rightarrow> True" by simp
  from Cons.IH[OF loading_step[OF Cons.prems(1) due]] Cons.prems(2) show ?case by (simp add: ac_run_def)
qed (simp add: ac_run_def)

text \<open>
  C27. The sign that a search is going on is shown exactly while a request that was made has not been answered, and the widget's
  count is the number of such requests, in every sequence of keys, mouse events, timers and answers, in whatever order the answers come and
  whatever handlers throw, in which every answer is to a request that is still open. Requests and answers are read off the events; a
  request whose answer could not be handled, because the handling threw, stays open. What a second answer to a request does, as the
  search of the documentation gives it, is the matter of \<open>loading_stuck\<close>.
\<close>

theorem loading_exact:
  assumes "answers_due E evs (ac_init multi) []"
  shows "let s = ac_run E evs (ac_init multi); opened = open_requests E evs (ac_init multi) []
    in (loading s \<longleftrightarrow> opened \<noteq> []) \<and> pending s = int (length opened)"
proof -
  have "loading_ok [] (ac_init multi :: 'a ac)" by (simp add: loading_ok_def tally_def account_def ac_init_def one_active_def)
  from loading_run[OF this assms] show ?thesis by (simp add: loading_ok_def tally_def account_def Let_def)
qed

text \<open>One search after the other, each answered once, at once or later.\<close>

fun search_session :: "'x ac_env \<Rightarrow> geometry \<Rightarrow> (string \<times> 'x raw list option) list \<Rightarrow> ('x, 'a) ac_scheme \<Rightarrow> ('x, 'a) ac_scheme" where
  "search_session E g [] s = s"
| "search_session E g ((v, c) # vs) s =
     (let s1 = fst (ac_handle E (g, CallSearch (Some v)) s)
      in search_session E g vs
           (if Option.is_none (source E (Suc (requestIndex s)) v) then fst (ac_handle E (g, Respond (Suc (requestIndex s)) c) s1) else s1))"

lemma quiet_account: "account p l s \<Longrightarrow> snd (respond E g k c s) = None \<Longrightarrow> p < 1 \<Longrightarrow> account (p - 1) l (fst (respond E g k c s))"
  using respond_account[of p l s E g k c] by auto

lemma session_step:
  fixes s :: "('x, 'a) ac_scheme"
  assumes "account p l s" "p < 0" "minLength E \<le> length v" "onSearch E v"
    and quiet: "\<And>c (s :: ('x, 'a) ac_scheme). snd (ac_response E g c s) = None"
  shows "account p True (search_session E g [(v, c)] s)"
proof -
  define s0 where "s0 = (trigger TSearch (s\<lparr>ac_term := Some (inputValue s)\<rparr>))\<lparr>pending := pending s + 1, loading := True, cancelSearch := False,
      requestIndex := Suc (requestIndex s)\<rparr>"
  define s1 where "s1 = fst (ac_search E g (Some v) s)"
  have acc: "account (p + 1) True s0" using assms(1) by (simp add: s0_def account_def one_active_def trigger_def)
  have silent: "snd (respond E g k d x) = None" for k d and x :: "('x, 'a) ac_scheme" using quiet by (simp add: respond_def thn_def Let_def)
  have search: "ac_search E g (Some v) s = do_search E g v (trigger TSearch (s\<lparr>ac_term := Some (inputValue s)\<rparr>))"
    using assms(3,4) by (simp add: ac_search_def Let_def)
  have idx: "requestIndex s0 = Suc (requestIndex s)" by (simp add: s0_def)
  show ?thesis
  proof (cases "source E (requestIndex s0) v")
    case None
    then have "s1 = s0" by (simp add: s1_def search do_search_def Let_def s0_def trigger_def)
    then show ?thesis using quiet_account[OF acc silent] assms(2) None idx by (simp add: Let_def s1_def[symmetric])
  next
    case (Some d)
    then have s1: "s1 = fst (respond E g (requestIndex s0) d s0)" by (simp add: s1_def search do_search_def Let_def s0_def trigger_def)
    have "account p True s1" using quiet_account[OF acc silent] assms(2) by (simp add: s1)
    then show ?thesis using Some idx by (simp add: Let_def s1_def[symmetric])
  qed
qed

text \<open>
  A source that answers a request twice, as the search of the documentation does while its indexes are loading, leaves the sign
  on for ever: the count of open requests is negative, and no number of searches that are answered once each brings it back to zero.
\<close>

theorem loading_stuck:
  fixes s :: "('a, 'b) ac_scheme"
  assumes "pending s < 0" "one_active s" "vs \<noteq> []"
    and "\<forall>(v, c) \<in> set vs. minLength E \<le> length v \<and> onSearch E v"
    and "\<not> autoFocus E"
  shows "loading (search_session E g vs s) \<and> pending (search_session E g vs s) < 0"
proof -
  have quiet: "snd (ac_response E g c s) = None" for c and s :: "('a, 'b) ac_scheme"
  proof -
    have blur: "snd (menu_blur no_hook e b s) = None" for e b and s :: "('a, 'b) ac_scheme" by (simp add: menu_blur_no_hook)
    have "snd (menu_refresh no_hook s) = None" for s :: "('a, 'b) ac_scheme"
      by (simp add: menu_refresh_def Let_def blur split: option.split)
    then have sug: "snd (suggest E g items s) = None" for items and s :: "('a, 'b) ac_scheme"
      using assms(5) by (simp add: suggest_def Let_def thn_def)
    have "snd (response_base E g c s) = None"
      by (auto simp: response_base_def Let_def thn_def sug ac_close_menu_def blur split: option.split list.split)
    then show ?thesis by (simp add: ac_response_def thn_def)
  qed
  have "account (pending s) (loading s) s" using assms(2) by (simp add: account_def)
  then have "account (pending s) True (search_session E g vs s)"
    using assms(1,3,4)
  proof (induction vs arbitrary: s)
    case (Cons vc vs)
    obtain v c where vc: "vc = (v, c)" by (cases vc)
    from Cons.prems have "minLength E \<le> length v" "onSearch E v" by (auto simp: vc)
    from session_step[OF Cons.prems(1,2) this quiet] have step: "account (pending s) True (search_session E g [vc] s)" by (simp add: vc)
    show ?case
    proof (cases "vs = []")
      case False
      from step have "pending (search_session E g [vc] s) = pending s" "loading (search_session E g [vc] s)" by (simp_all add: account_def)
      then show ?thesis using Cons.IH[of "search_session E g [vc] s"] step Cons.prems(2,4) False by (simp add: vc Let_def)
    qed (use step in \<open>simp add: vc\<close>)
  qed simp
  with assms(1) show ?thesis by (simp add: account_def)
qed

subsection \<open>Closing\<close>

definition closed :: "('x, 'a) ac_scheme \<Rightarrow> bool" where
  "closed s \<longleftrightarrow> cancelSearch s \<and> \<not> menuVisible s \<and> one_active s"

interpretation closed: ac_steps closed
  by unfold_locales (auto simp: closed_def no_hook_def keeps_inv_def one_active_def map_nodes_def map_lists_def clear_timer_def delay_def delay_timer_def)

lemma closed_respond: "closed s \<Longrightarrow> keeps_inv closed (respond E g k c s)"
  unfolding respond_def Let_def
  by (intro keeps_rules closed.response_keeps) (auto simp: closed_def one_active_def)

text \<open>
  Once the suggestions have been closed, by a key, by leaving the field or by a click elsewhere, no answer that is still
  to come shows them again, to whatever request it belongs and whatever else happens, until a search is started.
\<close>

theorem closed_stays_closed:
  assumes "one_active s" "list_all (\<lambda>ge. \<not> may_search (snd ge)) evs"
  shows "\<not> menuVisible (ac_run E evs (fst (ac_close s)))"
proof -
  have "closed (fst (ac_close s))"
    using assms(1) by (auto simp: ac_close_def ac_close_menu_def Let_def menu_blur_no_hook thn_def closed_def trigger_def set_active_def
        one_active_def map_nodes_def clear_timer_def split: option.splits if_splits)
  then have "closed (ac_run E evs (fst (ac_close s)))" using assms(2)
  proof (induction evs arbitrary: s rule: rev_induct)
    case (snoc ge evs)
    then have "keeps_inv closed (ac_handle E ge (ac_run E evs (fst (ac_close s))))"
      by (intro closed.quiet_handle_keeps closed_respond) auto
    then show ?case by (simp add: ac_run_def keeps_inv_def)
  qed (simp add: ac_run_def)
  then show ?thesis by (simp add: closed_def)
qed

subsection \<open>Answers in any order\<close>

text \<open>An answer to another request than the latest one changes nothing but the count of open requests.\<close>

lemma stale_answer:
  "k \<noteq> requestIndex s \<Longrightarrow> \<exists>p l. fst (ac_handle E (g, Respond k c) s) = s\<lparr>pending := p, loading := l\<rparr>"
proof (cases "0 < k \<and> k \<le> requestIndex s")
  case True
  assume "k \<noteq> requestIndex s"
  with True have "fst (ac_handle E (g, Respond k c) s) = s\<lparr>pending := pending s - 1, loading := loading s \<and> pending s \<noteq> 1\<rparr>"
    by (cases "pending s = 1") (simp_all add: respond_def Let_def)
  then show ?thesis by (intro exI)
next
  case False
  then have "fst (ac_handle E (g, Respond k c) s) = s\<lparr>pending := pending s, loading := loading s\<rparr>" by auto
  then show ?thesis by (intro exI)
qed

lemma stale_answers:
  "list_all (\<lambda>(g, k, c). k \<noteq> requestIndex s) as
   \<Longrightarrow> \<exists>p l. ac_run E (map (\<lambda>(g, k, c). (g, Respond k c)) as) s = s\<lparr>pending := p, loading := l\<rparr>"
proof (induction as arbitrary: s)
  case Nil
  have "ac_run E [] s = s\<lparr>pending := pending s, loading := loading s\<rparr>" by (simp add: ac_run_def)
  then show ?case unfolding list.map by (intro exI)
next
  case (Cons a as)
  obtain g k c where a: "a = (g, k, c)" by (cases a)
  with Cons.prems have "k \<noteq> requestIndex s" by simp
  from stale_answer[OF this, of E g c] obtain p l where
    step: "fst (ac_handle E (g, Respond k c) s) = s\<lparr>pending := p, loading := l\<rparr>" (is "_ = ?s1") by blast
  have "list_all (\<lambda>(g, k, c). k \<noteq> requestIndex ?s1) as" using Cons.prems by simp
  from Cons.IH[OF this] obtain p' l' where
    "ac_run E (map (\<lambda>(g, k, c). (g, Respond k c)) as) ?s1 = ?s1\<lparr>pending := p', loading := l'\<rparr>" by blast
  with step have "ac_run E (map (\<lambda>(g, k, c). (g, Respond k c)) (a # as)) s = s\<lparr>pending := p', loading := l'\<rparr>" by (simp add: ac_run_def a)
  then show ?case by (intro exI)
qed

definition shown :: "(nat \<times> ('x raw \<times> string option)) list \<Rightarrow> nat \<Rightarrow> ('x, 'a) ac_scheme \<Rightarrow> bool" where
  "shown d r s \<longleftrightarrow> item_data s = d \<and> requestIndex s = r \<and> menuVisible s \<and> one_active s"

interpretation shown: menu_steps "shown d r" no_hook "ac_menufocus E" no_hook for d r E
proof (unfold_locales, goal_cases)
  case (17 s e "is")
  have "shown d r s \<Longrightarrow> keeps_inv (shown d r) (menu_blur no_hook e v s)" for s e v
    by (auto simp: menu_blur_no_hook shown_def keeps_inv_def Let_def set_active_def map_nodes_def clear_timer_def one_active_def split: option.split)
  with 17 show ?case by (intro menufocus_keeps) (auto simp: shown_def trigger_def set_value_def announce_def one_active_def)
qed (auto simp: shown_def no_hook_def keeps_inv_def one_active_def map_nodes_def map_lists_def clear_timer_def delay_def delay_timer_def)

lemma suggest_shows:
  assumes "one_active s"
  shows "\<exists>d. map snd d = List.map_filter snd (render E (ac_term s) items) \<and> shown d (requestIndex s) (fst (suggest E g items s))"
proof -
  define s1 where "s1 = (fill_menu (render E (ac_term s) items) s)\<lparr>isNewMenu := True\<rparr>"
  define s2 where "s2 = fst (menu_refresh no_hook s1)"
  have "map snd (item_data s1) = List.map_filter snd (render E (ac_term s) items)"
  proof -
    have "map snd (List.map_filter (\<lambda>(i, r). map_option (\<lambda>d. (i, d)) (snd r)) (zip ids rs)) = List.map_filter snd rs"
      if "length ids = length rs" for ids :: "nat list" and rs :: "(node \<times> ('a raw \<times> string option) option) list"
      using that by (induction ids rs rule: list_induct2) (auto simp: map_filter_simps split: option.split)
    then show ?thesis by (simp add: s1_def fill_menu_def Let_def)
  qed
  moreover have s2: "menu_refresh no_hook s1 = ok s2" "item_data s2 = item_data s1" "requestIndex s2 = requestIndex s" "one_active s2"
    using assms by (auto simp: s2_def s1_def fill_menu_def menu_refresh_def menu_blur_no_hook Let_def one_active_def map_nodes_def map_lists_def
        set_active_def clear_timer_def split: option.splits)
  have s3: "shown (item_data s1) (requestIndex s) (s2\<lparr>menuVisible := True\<rparr>)" using s2 by (simp add: shown_def one_active_def)
  have "keeps_inv (shown (item_data s1) (requestIndex s)) (suggest E g items s)"
    unfolding suggest_def s1_def[symmetric] Let_def s2(1) thn_simps
    by (intro keeps_rules shown.move_keeps s3) (auto simp: shown_def one_active_def)
  ultimately show ?thesis by (auto simp: keeps_inv_def)
qed

lemma latest_answer:
  assumes "one_active s" "\<not> ac_disabled s" "\<not> cancelSearch s" "0 < requestIndex s"
    "onResponse E (Some (normalize (noExtra E) content)) = Some items" "items \<noteq> []"
  shows "\<exists>d. map snd d = List.map_filter snd (render E (ac_term s) items)
    \<and> shown d (requestIndex s) (fst (ac_handle E (g, Respond (requestIndex s) (Some content)) s))"
proof -
  have "one_active (trigger TResponse s)" "ac_term (trigger TResponse s) = ac_term s" "requestIndex (trigger TResponse s) = requestIndex s"
    using assms(1) by (simp_all add: trigger_def one_active_def)
  with suggest_shows[of "trigger TResponse s" E items g] obtain d where
    d: "map snd d = List.map_filter snd (render E (ac_term s) items)" "shown d (requestIndex s) (fst (suggest E g items (trigger TResponse s)))"
    by auto
  have pass: "shown d r (trigger t x) = shown d r x" "shown d r (announce m x) = shown d r x"
    "shown d r (x\<lparr>pending := p\<rparr>) = shown d r x" "shown d r (x\<lparr>loading := l\<rparr>) = shown d r x" for r t m p l and x :: "('a, 'b) ac_scheme"
    by (simp_all add: shown_def trigger_def announce_def one_active_def)
  have "response_base E g (Some content) s = thn (suggest E g items (trigger TResponse s)) (\<lambda>s2. ok (trigger TOpen s2))"
    using assms(2,3,5,6) by (simp add: response_base_def Let_def trigger_def split: list.split)
  then have "keeps_inv (shown d (requestIndex s)) (response_base E g (Some content) s)"
    using d(2) by (simp add: keeps_inv_def thn_def pass split: option.split)
  then have "keeps_inv (shown d (requestIndex s)) (ac_response E g (Some content) s)"
    unfolding ac_response_def by (intro keeps_rules) (auto simp: pass)
  then have "keeps_inv (shown d (requestIndex s)) (respond E g (requestIndex s) (Some content) s)"
    unfolding respond_def Let_def by (intro keeps_rules) (auto simp: pass)
  with d(1) assms(4) show ?thesis by (auto simp: keeps_inv_def)
qed

text \<open>
  C26. Whatever answers to earlier requests arrive before and after it, the answer to the latest request is the one whose suggestions
  the menu shows, unless the search has been cancelled.
\<close>

theorem latest_answer_shown:
  assumes "one_active s" "\<not> ac_disabled s" "\<not> cancelSearch s" "0 < requestIndex s"
    and "onResponse E (Some (normalize (noExtra E) content)) = Some items" "items \<noteq> []"
    and "list_all (\<lambda>(g, k, c). k \<noteq> requestIndex s) (before @ after)"
  shows "let s' = ac_run E (map (\<lambda>(g, k, c). (g, Respond k c)) (before @ (g, requestIndex s, Some content) # after)) s
    in menuVisible s' \<and> map snd (item_data s') = List.map_filter snd (render E (ac_term s) items)"
proof -
  have "list_all (\<lambda>(g, k, c). k \<noteq> requestIndex s) before" "list_all (\<lambda>(g, k, c). k \<noteq> requestIndex s) after"
    using assms(7) by simp_all
  then obtain p l where b: "ac_run E (map (\<lambda>(g, k, c). (g, Respond k c)) before) s = s\<lparr>pending := p, loading := l\<rparr>" (is "_ = ?s1")
    using stale_answers by blast
  have "one_active ?s1" using assms(1) by (simp add: one_active_def)
  with latest_answer[of ?s1 E content items g] assms(2-6) obtain d where
    d: "map snd d = List.map_filter snd (render E (ac_term s) items)"
      "shown d (requestIndex s) (fst (ac_handle E (g, Respond (requestIndex s) (Some content)) ?s1))" (is "shown _ _ ?s2") by auto
  then have "requestIndex ?s2 = requestIndex s" by (simp add: shown_def)
  then have "list_all (\<lambda>(g, k, c). k \<noteq> requestIndex ?s2) after" using assms(7) by (simp only: list_all_append)
  from stale_answers[OF this, of E] obtain p' l' where
    "ac_run E (map (\<lambda>(g, k, c). (g, Respond k c)) after) ?s2 = ?s2\<lparr>pending := p', loading := l'\<rparr>" by blast
  with b d show ?thesis by (simp add: ac_run_def shown_def Let_def)
qed

subsection \<open>The arrow keys\<close>

lemma thn_assoc: "thn (thn m f) h = thn m (\<lambda>s. thn (f s) h)"
  by (cases m; cases "snd m") auto

text \<open>The handler of \<open>focus\<close> runs at the end of focusing.\<close>

lemma focus_then_hook: "menu_focus g hb hf e item s = thn (menu_focus g hb no_hook e item s) (hf e item)"
  unfolding menu_focus_def thn_assoc by (simp only: Let_def no_hook_def thn_simps)

text \<open>
  The suggestions are shown, and the cursor is in the field (position 0) or on the item before a position: the field has the text that was
  searched for, or the value of the item.
\<close>

definition suggestions :: "string \<Rightarrow> nat list \<Rightarrow> ('x, 'a) ac_scheme \<Rightarrow> bool" where
  "suggestions t xs s \<longleftrightarrow> distinct (map fst (nodes s)) \<and> find_nodes n_item s [0] = xs \<and> find_items s [0] = xs \<and> xs \<noteq> [] \<and> activeMenu s = [0]
     \<and> list_all (\<lambda>x. map_of (item_data s) x \<noteq> None) xs \<and> menuVisible s \<and> \<not> isMultiLine s \<and> \<not> ac_disabled s \<and> \<not> menu_disabled s \<and> \<not> inputReadOnly s
     \<and> ac_term s = Some t"

definition item_text :: "nat \<Rightarrow> ('x, 'a) ac_scheme \<Rightarrow> string" where
  "item_text x s = (case map_of (item_data s) x of None \<Rightarrow> [] | Some (v, _) \<Rightarrow> (case value_of v of None \<Rightarrow> [] | Some u \<Rightarrow> u))"

definition cursor :: "string \<Rightarrow> nat list \<Rightarrow> nat \<Rightarrow> ('x, 'a) ac_scheme \<Rightarrow> bool" where
  "cursor t xs p s \<longleftrightarrow> suggestions t xs s \<and> p \<le> length xs
     \<and> (if p = 0 then active s = None \<and> inputValue s = t else active s = Some [xs ! (p - 1)] \<and> inputValue s = item_text (xs ! (p - 1)) s)"

lemma menu_ops_own:
  "menu.more (fst (menu_blur no_hook e b s)) = menu.more s"
  "menu.more (fst (menu_scrollIntoView g is s)) = menu.more s"
  by (simp_all add: menu_blur_no_hook Let_def menu_scrollIntoView_def split: option.split list.split)

lemma focus_own: "menu.more (fst (menu_focus g no_hook no_hook e item s)) = menu.more s"
proof -
  have thn_more: "menu.more (fst m) = menu.more s \<Longrightarrow> (\<And>x. menu.more x = menu.more s \<Longrightarrow> menu.more (fst (f x)) = menu.more s)
      \<Longrightarrow> menu.more (fst (thn m f)) = menu.more s" for m f
    by (cases "snd m") (auto simp: thn_def)
  show ?thesis unfolding menu_focus_def
    by (intro thn_more) (simp_all add: menu_ops_own Let_def no_hook_def)
qed

lemma same_own:
  "menu.more s = menu.more s' \<Longrightarrow> item_data s = item_data s' \<and> menuVisible s = menuVisible s' \<and> isMultiLine s = isMultiLine s'
     \<and> ac_disabled s = ac_disabled s' \<and> inputReadOnly s = inputReadOnly s' \<and> ac_term s = ac_term s' \<and> inputValue s = inputValue s'
     \<and> isNewMenu s = isNewMenu s'"
  by (cases s, cases s') simp

lemma suggestions_shape:
  fixes s s' :: "('x, 'a) ac_scheme"
  assumes "suggestions t xs s" "shape s' = shape s" "menu.more s' = menu.more s" "activeMenu s' = [0]" "menu_disabled s' = menu_disabled s"
  shows "suggestions t xs s'"
  using assms(1,4,5) shape_find[OF assms(2)] shape_nodes[OF assms(2)] same_own[OF assms(3)]
  by (simp add: suggestions_def find_items_def)

lemma cursor_focus:
  assumes s: "suggestions t xs s" and j: "j < length xs" and "\<And>v. onFocus E v"
  shows "cursor t xs (Suc j) (fst (menu_focus g no_hook (ac_menufocus E) (Some (key_event k)) [xs ! j] s))"
proof -
  let ?e = "Some (key_event k)"
  have "[xs ! j] \<noteq> []" "activeMenu s \<noteq> []" using s by (auto simp: suggestions_def)
  then obtain s1 where f: "menu_focus g no_hook no_hook ?e [xs ! j] s = ok (s1\<lparr>activeMenu := parent_menus s1 [xs ! j]\<rparr>)"
    "shape s1 = shape s" "active s1 = Some [xs ! j]" "menu_disabled s1 = menu_disabled s"
    by (rule focus_plain[where g = g and e = ?e]) simp
  define s2 where "s2 = s1\<lparr>activeMenu := parent_menus s1 [xs ! j]\<rparr>"
  have own: "menu.more s2 = menu.more s" using focus_own[of g ?e "[xs ! j]" s] f(1) by (simp add: s2_def)
  have "find_nodes n_item s1 [0] = xs" "distinct (map fst (nodes s1))"
    using s shape_find[OF f(2)] shape_nodes[OF f(2)] by (simp_all add: suggestions_def)
  from item_order(3)[OF this(2,1) j] have "activeMenu s2 = [0]" by (simp add: s2_def)
  moreover have "shape s2 = shape s" "menu_disabled s2 = menu_disabled s" using f(2,4) by (simp_all add: s2_def)
  ultimately have s2: "suggestions t xs s2" by (intro suggestions_shape[OF s _ own])
  obtain v a where d: "map_of (item_data s2) (xs ! j) = Some (v, a)" using s2 j by (auto simp: suggestions_def list_all_length)
  define s3 where "s3 = set_value (value_of v) (trigger (TFocus (Some v)) (if isNewMenu s2 then s2\<lparr>isNewMenu := False\<rparr> else s2))"
  have "ac_menufocus E ?e [xs ! j] s2 = ac_announce [xs ! j] s3"
    using assms(3) d s2 by (simp add: ac_menufocus_def unless_menu_disabled_def suggestions_def ev_starts_def Let_def data_of_def s3_def)
  then have run: "menu_focus g no_hook (ac_menufocus E) ?e [xs ! j] s = ac_announce [xs ! j] s3"
    by (subst focus_then_hook) (simp add: f(1) s2_def[symmetric])
  have keep: "cursor t xs p (announce m x) = cursor t xs p x" for p m and x :: "('a, 'b) ac_scheme"
    by (simp add: announce_def cursor_def suggestions_def find_nodes_def find_items_def item_text_def)
  have "cursor t xs (Suc j) s3"
    using s2 j d f(3) by (simp add: s3_def s2_def cursor_def suggestions_def find_nodes_def find_items_def item_text_def set_value_def trigger_def)
  then have "keeps_inv (cursor t xs (Suc j)) (ac_announce [xs ! j] s3)" by (intro announce_keeps) (simp_all add: keep)
  with run show ?thesis by (simp add: keeps_inv_def)
qed

lemma cursor_leave:
  assumes "suggestions t xs s"
  shows "cursor t xs 0 (fst (menu_blur no_hook e b (set_value (ac_term s) s)))"
proof -
  define s1 where "s1 = set_value (ac_term s) s"
  have s1: "suggestions t xs s1" "inputValue s1 = t"
    using assms by (simp_all add: s1_def set_value_def suggestions_def find_nodes_def find_items_def)
  have "suggestions t xs (fst (menu_blur no_hook e b s1))"
    using blur_shape[of e b s1] menu_ops_own(1)[of e b s1] s1 by (intro suggestions_shape[OF s1(1)]) (auto simp: suggestions_def)
  moreover have "active (fst (menu_blur no_hook e b s1)) = None" by (simp add: menu_blur_no_hook Let_def split: option.split)
  ultimately show ?thesis using same_own[OF menu_ops_own(1)[of e b s1]] s1(2) by (simp add: cursor_def s1_def)
qed

lemma cursor_flags:
  "cursor t xs p (s\<lparr>suppressInput := b, suppressKeyPressRepeat := c, suppressKeyPress := a\<rparr>) = cursor t xs p s"
  by (simp add: cursor_def suggestions_def find_nodes_def find_items_def item_text_def)

lemma cursor_moves:
  assumes s: "cursor t xs p s" and focus: "\<And>v. onFocus E v"
  shows "cursor t xs (Suc p mod Suc (length xs)) (fst (ac_moves E g NextItem (key_event k) s))"
    and "cursor t xs ((p + length xs) mod Suc (length xs)) (fst (ac_moves E g PreviousItem (key_event k) s))"
proof -
  have sug: "suggestions t xs s" and p: "p \<le> length xs" using s by (auto simp: cursor_def)
  then have xs: "xs \<noteq> []" "menuVisible s" "\<not> isMultiLine s" "find_items s [0] = xs" "activeMenu s = [0]" by (auto simp: suggestions_def)
  note focused = cursor_focus[OF sug _ focus, of _ g k]
  show "cursor t xs (Suc p mod Suc (length xs)) (fst (ac_moves E g NextItem (key_event k) s))"
  proof (cases p)
    case 0
    then have "active s = None" using s by (simp add: cursor_def)
    then have "move_target Next First s = [xs ! 0]" "\<not> isFirstItem s" "\<not> isLastItem s"
      using xs by (simp_all add: move_target_def end_of_def hd_conv_nth isFirstItem_def isLastItem_def)
    with focused[of 0] 0 xs show ?thesis by (simp add: ac_moves_def moves_back_def menu_call_def menu_next_def menu_move_def)
  next
    case (Suc j)
    then have a: "active s = Some [xs ! j]" "j < length xs" using s p by (simp_all add: cursor_def)
    note mv = move_targets[of s 0 xs j, OF _ _ xs(4) a(2,1) xs(5)]
    show ?thesis
    proof (cases "Suc j = length xs")
      case True
      then have "isLastItem s" using mv(4) sug by (simp add: suggestions_def)
      with cursor_leave[OF sug] xs True Suc show ?thesis by (simp add: ac_moves_def moves_back_def)
    next
      case False
      then have "\<not> isLastItem s" "move_target Next First s = [xs ! Suc j]" "Suc j < length xs" using mv(1,4) sug a(2) by (auto simp: suggestions_def)
      with focused[of "Suc j"] xs Suc show ?thesis by (simp add: ac_moves_def moves_back_def menu_call_def menu_next_def menu_move_def)
    qed
  qed
  show "cursor t xs ((p + length xs) mod Suc (length xs)) (fst (ac_moves E g PreviousItem (key_event k) s))"
  proof (cases p)
    case 0
    then have "active s = None" using s by (simp add: cursor_def)
    then have "move_target Prev Last s = [xs ! (length xs - 1)]" "\<not> isFirstItem s" "\<not> isLastItem s"
      using xs by (simp_all add: move_target_def end_of_def last_conv_nth isFirstItem_def isLastItem_def)
    with focused[of "length xs - 1"] 0 xs show ?thesis
      by (simp add: ac_moves_def moves_back_def menu_call_def menu_previous_def menu_move_def)
  next
    case (Suc j)
    then have a: "active s = Some [xs ! j]" "j < length xs" using s p by (simp_all add: cursor_def)
    note mv = move_targets[of s 0 xs j, OF _ _ xs(4) a(2,1) xs(5)]
    show ?thesis
    proof (cases j)
      case 0
      then have "isFirstItem s" using mv(3) sug by (simp add: suggestions_def)
      with cursor_leave[OF sug] xs 0 Suc show ?thesis by (simp add: ac_moves_def moves_back_def)
    next
      case (Suc i)
      then have "\<not> isFirstItem s" "move_target Prev Last s = [xs ! i]" using mv(2,3) sug a(2) by (auto simp: suggestions_def)
      moreover have "(p + length xs) mod Suc (length xs) = Suc i" using Suc \<open>p = Suc j\<close> a(2) by (simp add: mod_if)
      ultimately show ?thesis using focused[of i] xs Suc a(2) by (simp add: ac_moves_def moves_back_def menu_call_def menu_previous_def menu_move_def)
    qed
  qed
qed

lemma cursor_keys:
  assumes "cursor t xs p s" "\<And>v. onFocus E v"
  shows "cursor t xs (Suc p mod Suc (length xs)) (fst (ac_handle E (g, KeyDown (key_event DOWN)) s))"
    and "cursor t xs ((p + length xs) mod Suc (length xs)) (fst (ac_handle E (g, KeyDown (key_event UP)) s))"
proof -
  define s1 where "s1 = s\<lparr>suppressInput := False, suppressKeyPressRepeat := False, suppressKeyPress := True\<rparr>"
  have s1: "cursor t xs p s1" using assms(1) by (simp add: s1_def cursor_flags)
  have "\<not> ac_disabled s" "\<not> inputReadOnly s" "\<not> isMultiLine s" using assms(1) by (simp_all add: cursor_def suggestions_def)
  then have "ac_handle E (g, KeyDown (key_event DOWN)) s = ac_moves E g NextItem (key_event DOWN) s1"
    "ac_handle E (g, KeyDown (key_event UP)) s = ac_moves E g PreviousItem (key_event UP) s1"
    by (simp_all add: unless_disabled_def ac_keydown_def key_codes keyEvent_def Let_def s1_def)
  with cursor_moves[OF s1 assms(2)] show "cursor t xs (Suc p mod Suc (length xs)) (fst (ac_handle E (g, KeyDown (key_event DOWN)) s))"
    "cursor t xs ((p + length xs) mod Suc (length xs)) (fst (ac_handle E (g, KeyDown (key_event UP)) s))" by simp_all
qed

lemma cursor_downs:
  "cursor t xs p s \<Longrightarrow> (\<And>v. onFocus E v)
   \<Longrightarrow> cursor t xs ((p + n) mod Suc (length xs)) (ac_run E (replicate n (g, KeyDown (key_event DOWN))) s)"
proof (induction n arbitrary: p s)
  case 0
  then have "p mod Suc (length xs) = p" by (simp add: cursor_def)
  with 0 show ?case by (simp add: ac_run_def)
next
  case (Suc n)
  have "(Suc p mod Suc (length xs) + n) mod Suc (length xs) = (p + Suc n) mod Suc (length xs)" by (simp add: mod_add_left_eq)
  with Suc.IH[OF cursor_keys(1)[OF Suc.prems] Suc.prems(2)] show ?case by (simp add: ac_run_def del: ac_handle.simps)
qed

lemma cursor_ups:
  "cursor t xs ((p + n) mod Suc (length xs)) s \<Longrightarrow> (\<And>v. onFocus E v) \<Longrightarrow> p \<le> length xs
   \<Longrightarrow> cursor t xs p (ac_run E (replicate n (g, KeyDown (key_event UP))) s)"
proof (induction n arbitrary: s)
  case (Suc n)
  have "((p + Suc n) mod Suc (length xs) + length xs) mod Suc (length xs) = (p + n) mod Suc (length xs)"
    by (metis add.assoc add_Suc_right add_Suc_shift mod_add_left_eq mod_add_self2)
  with cursor_keys(2)[OF Suc.prems(1,2), of g] have "cursor t xs ((p + n) mod Suc (length xs)) (fst (ac_handle E (g, KeyDown (key_event UP)) s))" by metis
  from Suc.IH[OF this Suc.prems(2,3)] show ?case by (simp add: ac_run_def del: ac_handle.simps)
qed (simp add: ac_run_def)

text \<open>
  The arrow keys go round the field and its suggestions: past the last suggestion the field gets back the text that
  was searched for, everywhere else it has the value of the suggestion with the focus. As many times up as down comes back.
\<close>

theorem autocomplete_arrow_keys:
  assumes "cursor t xs p s" "\<And>v. onFocus E v"
  shows "let s' = ac_run E (replicate n (g, KeyDown (key_event DOWN))) s
    in cursor t xs ((p + n) mod Suc (length xs)) s' \<and> cursor t xs p (ac_run E (replicate n (g', KeyDown (key_event UP))) s')"
proof -
  have "p \<le> length xs" using assms(1) by (simp add: cursor_def)
  from cursor_downs[OF assms, of n g] cursor_ups[OF cursor_downs[OF assms] assms(2) this] show ?thesis by (simp add: Let_def)
qed

subsection \<open>Witnesses\<close>

definition demo_ac :: "unit ac_env" where
  "demo_ac = \<lparr>minLength = 1, autoFocus = False, source = (\<lambda>_ _. None), render = default_render, noExtra = (), onSearch = (\<lambda>_. True),
     onResponse = (\<lambda>c. c), onFocus = (\<lambda>_. True), onSelect = (\<lambda>_. True), noResults = ''No search results.'', resultsMessage = (\<lambda>_. ''Results'')\<rparr>"

text \<open>Two searches, and the answers in the wrong order.\<close>

definition demo_events :: "(geometry \<times> unit ac_event) list" where
  "demo_events = [(flat_geometry, CallSearch (Some ''ce'')), (flat_geometry, CallSearch (Some ''cer'')),
     (flat_geometry, Respond 2 (Some [RString ''Cert'', RString ''Certificate''])), (flat_geometry, Respond 1 (Some [RString ''Cell'']))]"

theorem loading_exact_witness:
  "loading (ac_run demo_ac (take 3 demo_events) (ac_init False)) \<and> \<not> loading (ac_run demo_ac demo_events (ac_init False))"
proof -
  have "answers_due demo_ac (take 3 demo_events) (ac_init False) []" "answers_due demo_ac demo_events (ac_init False) []" by code_simp+
  moreover have "open_requests demo_ac (take 3 demo_events) (ac_init False) [] = [1]" "open_requests demo_ac demo_events (ac_init False) [] = []"
    by code_simp+
  ultimately show ?thesis
    using loading_exact[of demo_ac "take 3 demo_events" False] loading_exact[of demo_ac demo_events False] by (simp add: Let_def)
qed

text \<open>One search that is answered twice.\<close>

definition demo_twice :: "unit ac" where
  "demo_twice = ac_run demo_ac [(flat_geometry, CallSearch (Some ''ce'')), (flat_geometry, Respond 1 (Some [])),
     (flat_geometry, Respond 1 (Some [RString ''Cell'']))] (ac_init False)"

lemma demo_twice_state: "pending demo_twice = - 1" "active demo_twice = None"
  by code_simp+

theorem loading_stuck_witness:
  "loading (search_session demo_ac flat_geometry [(''ce'', Some []), (''cer'', None)] demo_twice)
   \<and> pending (search_session demo_ac flat_geometry [(''ce'', Some []), (''cer'', None)] demo_twice) < 0"
  by (rule loading_stuck) (simp_all add: demo_twice_state one_active_def demo_ac_def)

definition demo_asked :: "unit ac" where
  "demo_asked = ac_run demo_ac (take 2 demo_events) (ac_init False)"

lemma demo_asked_state: "requestIndex demo_asked = 2" "active demo_asked = None" "\<not> ac_disabled demo_asked" "\<not> cancelSearch demo_asked"
  by code_simp+

theorem latest_answer_shown_witness:
  "let s = ac_run demo_ac (map (\<lambda>(g, k, c). (g, Respond k c))
        ([(flat_geometry, 1, Some [RString ''Cell''])] @ (flat_geometry, requestIndex demo_asked, Some [RString ''Cert'']) # [(flat_geometry, 1, None)])) demo_asked
   in menuVisible s \<and> map snd (item_data s) = List.map_filter snd (render demo_ac (ac_term demo_asked) [normalize_item () (RString ''Cert'')])"
  by (rule latest_answer_shown) (simp_all add: demo_asked_state one_active_def demo_ac_def normalize_def complete_first_def given_def)

theorem closed_stays_closed_witness:
  "\<not> menuVisible (ac_run demo_ac [(flat_geometry, Respond 2 (Some [RString ''Cert''])), (flat_geometry, FieldBlur)] (fst (ac_close demo_asked)))"
  by (rule closed_stays_closed) (simp_all add: demo_asked_state one_active_def)

definition demo_shown :: "unit ac" where
  "demo_shown = ac_run demo_ac ((flat_geometry, Typed ''ce'') # demo_events) (ac_init False)"

lemma demo_shown_cursor: "cursor ''ce'' [0, 1] 0 demo_shown"
  by code_simp

theorem autocomplete_arrow_keys_witness:
  "cursor ''ce'' [0, 1] 2 (ac_run demo_ac (replicate 2 (flat_geometry, KeyDown (key_event DOWN))) demo_shown)
   \<and> inputValue (ac_run demo_ac (replicate 3 (flat_geometry, KeyDown (key_event DOWN))) demo_shown) = ''ce''"
proof -
  have focus: "onFocus demo_ac v" for v by (simp add: demo_ac_def)
  note run = autocomplete_arrow_keys[OF demo_shown_cursor focus, unfolded Let_def, THEN conjunct1]
  have e: "(0 + 2) mod Suc (length [0 :: nat, 1]) = 2" "(0 + 3) mod Suc (length [0 :: nat, 1]) = 0" by simp_all
  have "cursor ''ce'' [0, 1] 0 (ac_run demo_ac (replicate 3 (flat_geometry, KeyDown (key_event DOWN))) demo_shown)"
    using run[of 3 flat_geometry] by (simp only: e)
  then have "inputValue (ac_run demo_ac (replicate 3 (flat_geometry, KeyDown (key_event DOWN))) demo_shown) = ''ce''"
    unfolding cursor_def by (simp only: if_True refl)
  with run[of 2 flat_geometry] show ?thesis by (simp only: e)
qed

end
