(* ===== verification/JQ_Object.thy ===== *)
theory JQ_Object
  imports JSBase "HOL-Library.AList"
begin

text \<open>
  Objects and their copies: \<open>jQuery.extend\<close>, \<open>isPlainObject\<close> and \<open>isEmptyObject\<close> (\<open>docs/javadoc/*/jquery/jquery-3.5.1.js\<close>),
  and the \<open>extend\<close> and \<open>option\<close> of jQuery UI's widgets (\<open>jquery-ui.js\<close>). Objects are in a heap, with their
  prototypes, because what these functions promise is which objects they change and share.
\<close>

subsection \<open>Objects\<close>

datatype jval = Undef | JNull | JBool bool | JNum int | JStr string | Ref nat

text \<open>
  An object: its tag (what \<open>toString\<close> of \<open>Object.prototype\<close> shows), its prototype, its own properties in the order of
  enumeration, those that are not enumerated, and the text of a function. The heap holds \<open>Object.prototype\<close> at 0,
  the function \<open>Object\<close> at 1 and \<open>Array.prototype\<close> at 2.
\<close>

record obj =
  otag :: string
  oproto :: "nat option"
  oprops :: "(string \<times> jval) list"
  ohidden :: "(string \<times> jval) list"
  ofunction :: "string option"

type_synonym heap = "obj list"

definition ObjectFunctionString :: string where
  "ObjectFunctionString = ''function Object() { [native code] }''"

definition own :: "heap \<Rightarrow> nat \<Rightarrow> string \<Rightarrow> jval option" where
  "own h a name = (case map_of (oprops (h ! a)) name of Some v \<Rightarrow> Some v | None \<Rightarrow> map_of (ohidden (h ! a)) name)"

text \<open>An object and its prototypes. Prototypes have no cycle, so that there are at most as many as objects.\<close>

fun proto_chain :: "heap \<Rightarrow> nat \<Rightarrow> nat \<Rightarrow> nat list" where
  "proto_chain h 0 a = []"
| "proto_chain h (Suc k) a = a # (case oproto (h ! a) of None \<Rightarrow> [] | Some p \<Rightarrow> proto_chain h k p)"

definition chain_of :: "heap \<Rightarrow> nat \<Rightarrow> nat list" where
  "chain_of h a = proto_chain h (length h) a"

fun first_own :: "heap \<Rightarrow> string \<Rightarrow> nat list \<Rightarrow> jval option" where
  "first_own h name [] = None"
| "first_own h name (a # as) = (case own h a name of Some v \<Rightarrow> Some v | None \<Rightarrow> first_own h name as)"

text \<open>
  Reading and writing a property. The name \<open>__proto__\<close> stands for the prototype where \<open>Object.prototype\<close> is among the
  prototypes and no own property has that name.
\<close>

definition js_get :: "heap \<Rightarrow> nat \<Rightarrow> string \<Rightarrow> jval" where
  "js_get h a name =
     (case first_own h name (chain_of h a) of
        Some v \<Rightarrow> v
      | None \<Rightarrow>
          if name = ''__proto__'' \<and> 0 \<in> set (chain_of h a)
          then (case oproto (h ! a) of None \<Rightarrow> JNull | Some p \<Rightarrow> Ref p)
          else Undef)"

text \<open>
  Names that are positions come first, in their order; the others come in the order in which they were set. The \<open>length\<close> of
  an array is not a property here.
\<close>

definition array_index :: "string \<Rightarrow> int option" where
  "array_index name =
     (if name \<noteq> [] \<and> list_all is_digit name \<and> (hd name \<noteq> CHR ''0'' \<or> length name = 1)
      then (let n = foldl (\<lambda>k c. 10 * k + (of_char c - 48)) 0 name in if n < 4294967295 then Some n else None)
      else None)"

definition before_index :: "int \<Rightarrow> string \<times> jval \<Rightarrow> bool" where
  "before_index i p = (case array_index (fst p) of Some j \<Rightarrow> j < i | None \<Rightarrow> False)"

definition set_in :: "string \<Rightarrow> jval \<Rightarrow> (string \<times> jval) list \<Rightarrow> (string \<times> jval) list" where
  "set_in name v ps =
     (if map_of ps name \<noteq> None then AList.update name v ps
      else case array_index name of
             None \<Rightarrow> ps @ [(name, v)]
           | Some i \<Rightarrow> takeWhile (before_index i) ps @ (name, v) # dropWhile (before_index i) ps)"

definition put_prop :: "string \<Rightarrow> jval \<Rightarrow> obj \<Rightarrow> obj" where
  "put_prop name v ob =
     (if map_of (oprops ob) name = None \<and> map_of (ohidden ob) name \<noteq> None
      then ob\<lparr>ohidden := AList.update name v (ohidden ob)\<rparr>
      else ob\<lparr>oprops := set_in name v (oprops ob)\<rparr>)"

definition js_set :: "nat \<Rightarrow> string \<Rightarrow> jval \<Rightarrow> heap \<Rightarrow> heap" where
  "js_set a name v h =
     (if name = ''__proto__'' \<and> first_own h name (chain_of h a) = None \<and> 0 \<in> set (chain_of h a)
      then (case v of
              Ref p \<Rightarrow> h[a := (h ! a)\<lparr>oproto := Some p\<rparr>]
            | JNull \<Rightarrow> h[a := (h ! a)\<lparr>oproto := None\<rparr>]
            | _ \<Rightarrow> h)
      else h[a := put_prop name v (h ! a)])"

definition new_object :: obj where
  "new_object = \<lparr>otag = ''Object'', oproto = Some 0, oprops = [], ohidden = [], ofunction = None\<rparr>"

definition new_array :: obj where
  "new_array = \<lparr>otag = ''Array'', oproto = Some 2, oprops = [], ohidden = [], ofunction = None\<rparr>"

definition isArray :: "heap \<Rightarrow> jval \<Rightarrow> bool" where
  "isArray h v = (case v of Ref a \<Rightarrow> otag (h ! a) = ''Array'' | _ \<Rightarrow> False)"

definition isPlainObject :: "heap \<Rightarrow> jval \<Rightarrow> bool" where
  "isPlainObject h v =
     (case v of
        Ref a \<Rightarrow>
          otag (h ! a) = ''Object''
          \<and> (case oproto (h ! a) of
               None \<Rightarrow> True
             | Some p \<Rightarrow> (case own h p ''constructor'' of Some (Ref c) \<Rightarrow> ofunction (h ! c) = Some ObjectFunctionString | _ \<Rightarrow> False))
      | _ \<Rightarrow> False)"

text \<open>
  The names that \<open>for in\<close> visits, read when the loop starts: those of the object, then those of its prototypes that are not
  shadowed. Texts have the names of their positions.
\<close>

fun enum_chain :: "heap \<Rightarrow> string list \<Rightarrow> nat list \<Rightarrow> string list" where
  "enum_chain h seen [] = []"
| "enum_chain h seen (a # as) =
     filter (\<lambda>n. n \<notin> set seen) (map fst (oprops (h ! a))) @ enum_chain h (map fst (oprops (h ! a)) @ map fst (ohidden (h ! a)) @ seen) as"

fun digits :: "nat \<Rightarrow> string" where
  "digits n = (if n < 10 then [char_of (48 + n)] else digits (n div 10) @ [char_of (48 + n mod 10)])"

declare digits.simps [simp del]

definition names_in :: "heap \<Rightarrow> jval \<Rightarrow> string list" where
  "names_in h v = (case v of Ref a \<Rightarrow> enum_chain h [] (chain_of h a) | JStr s \<Rightarrow> map digits [0 ..< length s] | _ \<Rightarrow> [])"

definition get_of :: "heap \<Rightarrow> jval \<Rightarrow> string \<Rightarrow> jval" where
  "get_of h v name =
     (case v of
        Ref a \<Rightarrow> js_get h a name
      | JStr s \<Rightarrow> (case List.find (\<lambda>i. digits i = name) [0 ..< length s] of None \<Rightarrow> Undef | Some i \<Rightarrow> JStr [s ! i])
      | _ \<Rightarrow> Undef)"

definition isEmptyObject :: "heap \<Rightarrow> jval \<Rightarrow> bool" where
  "isEmptyObject h v = (names_in h v = [])"

subsection \<open>Extending\<close>

text \<open>The object that a deep copy goes on in: the one that is there, or a new one.\<close>

definition clone_target :: "heap \<Rightarrow> jval \<Rightarrow> jval \<Rightarrow> heap \<times> jval" where
  "clone_target h src copy =
     (if isArray h copy \<and> \<not> isArray h src then (h @ [new_array], Ref (length h))
      else if \<not> isArray h copy \<and> \<not> isPlainObject h src then (h @ [new_object], Ref (length h))
      else (h, src))"

text \<open>
  The loop over the names of one source. The recursive call has a target that is an object and a source that is not null, and
  is the same loop. A cyclic source makes it run for ever: \<open>None\<close>.
\<close>

partial_function (option) extend_names :: "bool \<Rightarrow> nat \<Rightarrow> jval \<Rightarrow> string list \<Rightarrow> heap \<Rightarrow> heap option" where
  "extend_names deep t options names h =
     (case names of
        [] \<Rightarrow> Some h
      | name # rest \<Rightarrow>
          (let copy = get_of h options name in
           if name = ''__proto__'' \<or> copy = Ref t then extend_names deep t options rest h
           else if deep \<and> (isPlainObject h copy \<or> isArray h copy)
           then (case clone_target h (js_get h t name) copy of
                   (h1, Ref c) \<Rightarrow>
                     Option.bind (extend_names deep c copy (names_in h1 copy) h1) (\<lambda>h2.
                       extend_names deep t options rest (js_set t name (Ref c) h2))
                 | _ \<Rightarrow> None)
           else if copy \<noteq> Undef then extend_names deep t options rest (js_set t name copy h)
           else extend_names deep t options rest h))"

lemma bind_case: "Option.bind m f = (case m of None \<Rightarrow> None | Some x \<Rightarrow> f x)"
  by (cases m) simp_all

lemma extend_names_code [code]:
  "extend_names deep t options [] h = Some h"
  "extend_names deep t options (name # rest) h =
     (let copy = get_of h options name in
      if name = ''__proto__'' \<or> copy = Ref t then extend_names deep t options rest h
      else if deep \<and> (isPlainObject h copy \<or> isArray h copy)
      then (case snd (clone_target h (js_get h t name) copy) of
              Ref c \<Rightarrow>
                (case extend_names deep c copy (names_in (fst (clone_target h (js_get h t name) copy)) copy) (fst (clone_target h (js_get h t name) copy)) of
                   None \<Rightarrow> None
                 | Some h2 \<Rightarrow> extend_names deep t options rest (js_set t name (Ref c) h2))
            | _ \<Rightarrow> None)
      else if copy \<noteq> Undef then extend_names deep t options rest (js_set t name copy h)
      else extend_names deep t options rest h)"
  by (subst extend_names.simps, simp) (subst extend_names.simps, simp only: bind_case split_beta Let_def list.case)

fun extend_sources :: "bool \<Rightarrow> nat \<Rightarrow> jval list \<Rightarrow> heap \<Rightarrow> heap option" where
  "extend_sources deep t [] h = Some h"
| "extend_sources deep t (options # later) h =
     (if options = JNull \<or> options = Undef then extend_sources deep t later h
      else case extend_names deep t options (names_in h options) h of None \<Rightarrow> None | Some h' \<Rightarrow> extend_sources deep t later h')"

definition arg :: "jval list \<Rightarrow> nat \<Rightarrow> jval" where
  "arg args i = (if i < length args then args ! i else Undef)"

text \<open>\<open>jQuery.extend\<close>, called on an object, with the heap and the object it returns.\<close>

definition extend :: "nat \<Rightarrow> jval list \<Rightarrow> heap \<Rightarrow> (heap \<times> nat) option" where
  "extend this args h =
     (let deep = (arg args 0 = JBool True);
          i = (if deep then 2 else 1);
          first = arg args (i - 1)
      in if i = length args
         then map_option (\<lambda>h'. (h', this)) (extend_sources deep this (drop (i - 1) args) h)
         else (case first of
                 Ref a \<Rightarrow> map_option (\<lambda>h'. (h', a)) (extend_sources deep a (drop i args) h)
               | _ \<Rightarrow> map_option (\<lambda>h'. (h', length h)) (extend_sources deep (length h) (drop i args) (h @ [new_object]))))"


subsection \<open>What the loop may write\<close>

text \<open>
  The objects that an extension may write: those of a list \<open>R\<close> and those from the address \<open>n\<close> on. The value of a property
  is a structure when a deep copy goes into it.
\<close>

definition mine :: "nat list \<Rightarrow> nat \<Rightarrow> nat \<Rightarrow> bool" where
  "mine R n a \<longleftrightarrow> a \<in> set R \<or> n \<le> a"

definition cloneable :: "heap \<Rightarrow> jval \<Rightarrow> bool" where
  "cloneable h v \<longleftrightarrow> isPlainObject h v \<or> isArray h v"

definition values_of :: "obj \<Rightarrow> jval list" where
  "values_of ob = map snd (oprops ob) @ map snd (ohidden ob)"

definition valid :: "heap \<Rightarrow> jval \<Rightarrow> bool" where
  "valid h v = (case v of Ref c \<Rightarrow> c < length h | _ \<Rightarrow> True)"

definition sound_heap :: "heap \<Rightarrow> bool" where
  "sound_heap h \<longleftrightarrow>
     (\<forall>a < length h. list_all (valid h) (values_of (h ! a)) \<and> list_all (\<lambda>b. b < length h) (chain_of h a)
        \<and> oproto (h ! last (chain_of h a)) = None)"

definition calm :: "heap \<Rightarrow> nat \<Rightarrow> bool" where
  "calm h p \<longleftrightarrow> list_all (\<lambda>b. list_all (\<lambda>w. \<not> cloneable h w) (values_of (h ! b))) (chain_of h p)"

definition held_in :: "nat list \<Rightarrow> nat \<Rightarrow> heap \<Rightarrow> jval \<Rightarrow> bool" where
  "held_in R n h w \<longleftrightarrow> (cloneable h w \<longrightarrow> (case w of Ref c \<Rightarrow> mine R n c | _ \<Rightarrow> False))"

text \<open>
  A region: none of its objects is a prototype, the prototypes of its objects hold no structures, and the structures that
  its objects hold are in the region.
\<close>

definition region :: "nat list \<Rightarrow> nat \<Rightarrow> heap \<Rightarrow> bool" where
  "region R n h \<longleftrightarrow>
     sound_heap h \<and> 2 < n \<and> n \<le> length h \<and> \<not> mine R n 0 \<and> \<not> mine R n 2 \<and> calm h 0 \<and> calm h 2
     \<and> (\<forall>a < length h.
          (case oproto (h ! a) of None \<Rightarrow> True | Some p \<Rightarrow> \<not> mine R n p \<and> (mine R n a \<longrightarrow> calm h p))
          \<and> (mine R n a \<longrightarrow> list_all (held_in R n h) (values_of (h ! a))))"

definition evolves :: "nat list \<Rightarrow> nat \<Rightarrow> heap \<Rightarrow> heap \<Rightarrow> bool" where
  "evolves R n h h' \<longleftrightarrow>
     length h \<le> length h'
     \<and> (\<forall>a < length h. (\<not> mine R n a \<longrightarrow> h' ! a = h ! a) \<and> otag (h' ! a) = otag (h ! a) \<and> oproto (h' ! a) = oproto (h ! a)
          \<and> ofunction (h' ! a) = ofunction (h ! a))"

lemma evolves_refl [simp]: "evolves R n h h"
  by (simp add: evolves_def)

lemma evolves_length: "evolves R n h g \<Longrightarrow> length h \<le> length g"
  by (simp add: evolves_def)

lemma evolves_trans [trans]: "evolves R n h g \<Longrightarrow> evolves R n g k \<Longrightarrow> evolves R n h k"
  by (auto simp: evolves_def dest: order_less_le_trans)

lemma evolves_alloc [simp]: "evolves R n h (h @ xs)"
  by (simp add: evolves_def nth_append)

lemma proto_chain_more:
  "0 < k \<Longrightarrow> oproto (h ! last (proto_chain h k a)) = None \<Longrightarrow> proto_chain h (k + j) a = proto_chain h k a"
proof (induction k arbitrary: a)
  case (Suc k)
  show ?case
  proof (cases "oproto (h ! a)")
    case (Some p)
    with Suc.prems have "0 < k" by (cases k) auto
    then have "proto_chain h k p \<noteq> []" by (cases k) simp_all
    with Suc.prems Some Suc.IH[OF \<open>0 < k\<close>, of p] show ?thesis by simp
  qed simp
qed simp

lemma chain_Cons: "a < length h \<Longrightarrow> \<exists>as. chain_of h a = a # as"
  by (cases "length h") (auto simp: chain_of_def)

lemma chain_step:
  assumes "sound_heap h" "a < length h"
  shows "chain_of h a = a # (case oproto (h ! a) of None \<Rightarrow> [] | Some p \<Rightarrow> chain_of h p)"
proof -
  obtain k where k: "length h = Suc k" using assms(2) by (cases "length h") auto
  have "last (chain_of h a) < length h \<and> oproto (h ! last (chain_of h a)) = None"
    using assms chain_Cons[OF assms(2)] by (auto simp: sound_heap_def list_all_iff)
  then have last: "oproto (h ! last (chain_of h a)) = None" by simp
  show ?thesis
  proof (cases "oproto (h ! a)")
    case None then show ?thesis by (simp add: chain_of_def k)
  next
    case (Some p)
    then have chain: "chain_of h a = a # proto_chain h k p" by (simp add: chain_of_def k)
    with last Some have "0 < k" by (cases k) auto
    then have "proto_chain h k p \<noteq> []" by (cases k) simp_all
    with last chain have "oproto (h ! last (proto_chain h k p)) = None" by simp
    from proto_chain_more[OF \<open>0 < k\<close> this, of 1] Some chain show ?thesis by (simp add: chain_of_def k)
  qed
qed

lemma proto_chain_same:
  "list_all (\<lambda>b. b < length h) (proto_chain h k a) \<Longrightarrow> \<forall>b < length h. oproto (g ! b) = oproto (h ! b)
   \<Longrightarrow> proto_chain g k a = proto_chain h k a"
proof (induction k arbitrary: a)
  case (Suc k)
  then show ?case by (cases "oproto (h ! a)") auto
qed simp

lemma evolves_chain:
  assumes "evolves R n h g" "sound_heap h" "a < length h"
  shows "chain_of g a = chain_of h a"
proof -
  have pos: "0 < length h" using assms(3) by (cases h) auto
  have inside: "list_all (\<lambda>b. b < length h) (chain_of h a)" "oproto (h ! last (chain_of h a)) = None"
    using assms(2,3) by (auto simp: sound_heap_def)
  then have same: "proto_chain g (length h) a = chain_of h a"
    using assms(1) proto_chain_same[of h "length h" a g] by (auto simp: chain_of_def evolves_def)
  have "last (chain_of h a) < length h"
    using inside(1) chain_Cons[OF assms(3)] by (auto simp: list_all_iff)
  with inside(2) assms(1) have "oproto (g ! last (chain_of h a)) = None" by (simp add: evolves_def)
  with proto_chain_more[OF pos, of g a "length g - length h"] same assms(1) show ?thesis
    by (simp add: chain_of_def evolves_def)
qed


lemma map_of_set_in [simp]: "map_of (set_in name v ps) = (map_of ps)(name \<mapsto> v)"
proof (cases "map_of ps name = None \<and> array_index name \<noteq> None")
  case True
  then obtain i where i: "array_index name = Some i" "map_of ps name = None" by auto
  let ?t = "takeWhile (before_index i) ps" and ?d = "dropWhile (before_index i) ps"
  have split: "map_of ps = map_of ?d ++ map_of ?t" by (metis map_of_append takeWhile_dropWhile_id)
  with i(2) have "map_of ?t name = None" by (metis map_add_None)
  then show ?thesis using i by (simp add: set_in_def split map_add_upd_left domIff)
qed (auto simp: set_in_def update_conv' map_add_def fun_eq_iff split: option.splits)

lemma update_values: "(n, w) \<in> set (AList.update name v ps) \<Longrightarrow> w = v \<or> w \<in> snd ` set ps"
  by (induction ps) (force split: if_splits)+

lemma set_in_values: "(n, w) \<in> set (set_in name v ps) \<Longrightarrow> w = v \<or> w \<in> snd ` set ps"
  by (force simp: set_in_def split: if_splits option.splits dest: set_takeWhileD set_dropWhileD update_values)

lemma put_prop_values: "w \<in> set (values_of (put_prop name v ob)) \<Longrightarrow> w = v \<or> w \<in> set (values_of ob)"
  by (auto simp: put_prop_def values_of_def split: if_splits dest: update_values set_in_values)

lemma put_prop_keeps [simp]:
  "otag (put_prop name v ob) = otag ob" "oproto (put_prop name v ob) = oproto ob" "ofunction (put_prop name v ob) = ofunction ob"
  by (simp_all add: put_prop_def)

lemma own_values: "own h a name = Some v \<Longrightarrow> v \<in> set (values_of (h ! a))"
  by (force simp: own_def values_of_def split: option.splits dest: map_of_SomeD)

lemma first_own_values: "first_own h name as = Some v \<Longrightarrow> \<exists>a \<in> set as. v \<in> set (values_of (h ! a))"
  by (induction as) (auto split: option.splits dest: own_values)

lemma sound_proto:
  assumes "sound_heap h" "a < length h" "oproto (h ! a) = Some p"
  shows "p < length h"
proof -
  obtain k where k: "length h = Suc k" using assms(2) by (cases "length h") auto
  with assms have "0 < k" by (cases k) (auto simp: sound_heap_def chain_of_def)
  then obtain j where "k = Suc j" by (cases k) auto
  with assms k show ?thesis by (auto simp: sound_heap_def chain_of_def)
qed

lemma own_valid: "sound_heap h \<Longrightarrow> a < length h \<Longrightarrow> own h a name = Some v \<Longrightarrow> valid h v"
  by (auto simp: sound_heap_def list_all_iff dest: own_values)

lemma valid_evolves: "evolves R n h g \<Longrightarrow> valid h v \<Longrightarrow> valid g v"
  by (auto simp: valid_def evolves_def split: jval.splits)

lemma isArray_same: "evolves R n h g \<Longrightarrow> valid h v \<Longrightarrow> isArray g v = isArray h v"
  by (auto simp: valid_def evolves_def isArray_def split: jval.splits)

text \<open>Whether a value is a plain object is settled by objects that are not written.\<close>

lemma isPlainObject_same:
  assumes reg: "region R n h" and ev: "evolves R n h g" and v: "valid h v"
  shows "isPlainObject g v = isPlainObject h v"
proof (cases v)
  case (Ref a)
  with v have a: "a < length h" by (simp add: valid_def)
  have snd: "sound_heap h" using reg by (simp add: region_def)
  show ?thesis
  proof (cases "oproto (h ! a)")
    case (Some p)
    have p: "p < length h" "\<not> mine R n p" using reg a Some sound_proto[OF snd a Some] by (auto simp: region_def)
    with ev have "g ! p = h ! p" by (simp add: evolves_def)
    then have own: "own g p = own h p" by (simp add: own_def fun_eq_iff cong: option.case_cong)
    have "ofunction (g ! c) = ofunction (h ! c)" if "own h p ''constructor'' = Some (Ref c)" for c
      using own_valid[OF snd p(1) that] ev by (simp add: valid_def evolves_def)
    with Ref a ev Some own show ?thesis
      by (auto simp: isPlainObject_def evolves_def split: option.splits jval.splits)
  qed (use Ref a ev in \<open>auto simp: isPlainObject_def evolves_def\<close>)
qed (simp_all add: isPlainObject_def)

lemma cloneable_same: "region R n h \<Longrightarrow> evolves R n h g \<Longrightarrow> valid h v \<Longrightarrow> cloneable g v = cloneable h v"
  using isArray_same isPlainObject_same by (metis cloneable_def)

lemma held_same: "region R n h \<Longrightarrow> evolves R n h g \<Longrightarrow> valid h v \<Longrightarrow> held_in R n g v = held_in R n h v"
  using cloneable_same by (metis held_in_def)


lemma js_get_plain_name: "name \<noteq> ''__proto__'' \<Longrightarrow> js_get h a name = (case first_own h name (chain_of h a) of None \<Rightarrow> Undef | Some v \<Rightarrow> v)"
  by (simp add: js_get_def split: option.split)

lemma js_get_valid:
  assumes "sound_heap h" "a < length h"
  shows "valid h (js_get h a name)"
proof (cases "first_own h name (chain_of h a)")
  case (Some v)
  then obtain b where "b \<in> set (chain_of h a)" "v \<in> set (values_of (h ! b))" using first_own_values by blast
  with assms Some show ?thesis by (auto simp: sound_heap_def list_all_iff js_get_def)
next
  case None
  then show ?thesis using sound_proto[OF assms] by (auto simp: js_get_def valid_def split: option.split)
qed

lemma get_of_valid: "sound_heap h \<Longrightarrow> valid h v \<Longrightarrow> valid h (get_of h v name)"
  by (cases v) (auto simp: get_of_def valid_def[of h "Ref _"] js_get_valid, auto simp: valid_def split: option.split)

text \<open>What is found under a name of an object of the region, there or in its prototypes, is in the region.\<close>

lemma js_get_held:
  assumes reg: "region R n h" and t: "mine R n t" "t < length h" and name: "name \<noteq> ''__proto__''"
  shows "held_in R n h (js_get h t name)"
proof (cases "first_own h name (chain_of h t)")
  case None
  then show ?thesis by (simp add: js_get_plain_name name held_in_def cloneable_def isArray_def isPlainObject_def)
next
  case (Some v)
  have held: "held_in R n h w" if "w \<in> set (values_of (h ! t))" for w
    using reg t that by (auto simp: region_def list_all_iff)
  have still: "\<not> cloneable h w" if "oproto (h ! t) = Some p" "b \<in> set (chain_of h p)" "w \<in> set (values_of (h ! b))" for p b w
    using reg t that by (auto simp: region_def list_all_iff calm_def)
  obtain b where b: "b \<in> set (chain_of h t)" "v \<in> set (values_of (h ! b))" using Some first_own_values by blast
  have "chain_of h t = t # (case oproto (h ! t) of None \<Rightarrow> [] | Some p \<Rightarrow> chain_of h p)"
    using reg t(2) chain_step by (simp add: region_def)
  with b have "held_in R n h v"
    using held[of v] still[of _ b v] by (auto simp: held_in_def split: option.splits)
  with Some show ?thesis by (simp add: js_get_plain_name name)
qed

lemma calm_same:
  assumes reg: "region R n h" and ev: "evolves R n h g" and p: "p < length h" and c: "calm h p"
    and same: "\<And>b w. b \<in> set (chain_of h p) \<Longrightarrow> w \<in> set (values_of (g ! b)) \<Longrightarrow> w \<in> set (values_of (h ! b))"
  shows "calm g p"
proof -
  have snd: "sound_heap h" using reg by (simp add: region_def)
  have "\<not> cloneable g w" if "b \<in> set (chain_of h p)" "w \<in> set (values_of (g ! b))" for b w
  proof -
    have "b < length h" "w \<in> set (values_of (h ! b))"
      using same[OF that] snd p that by (auto simp: sound_heap_def list_all_iff)
    then have "valid h w" "\<not> cloneable h w" using snd c that by (auto simp: sound_heap_def list_all_iff calm_def)
    then show ?thesis using cloneable_same[OF reg ev] by simp
  qed
  then show ?thesis using evolves_chain[OF ev snd p] by (simp add: calm_def list_all_iff)
qed

text \<open>No prototype of an object is in the region.\<close>

lemma chain_not_mine:
  assumes reg: "region R n h" and a: "a < length h" and b: "b \<in> set (chain_of h a)" "b \<noteq> a"
  shows "\<not> mine R n b"
proof -
  have tail: "b \<in> set (tl (proto_chain h k a)) \<Longrightarrow> list_all (\<lambda>b. b < length h) (proto_chain h k a) \<Longrightarrow> \<not> mine R n b" for k a
  proof (induction k arbitrary: a)
    case (Suc k)
    show ?case
    proof (cases "oproto (h ! a)")
      case (Some p)
      then have "\<not> mine R n p" using Suc.prems reg by (auto simp: region_def)
      moreover have "b = p \<or> b \<in> set (tl (proto_chain h k p))"
        using Suc.prems(1) Some by (cases k) auto
      ultimately show ?thesis using Suc Some by auto
    qed (use Suc in auto)
  qed simp
  obtain as where "chain_of h a = a # as" using chain_Cons[OF a] by blast
  moreover have "list_all (\<lambda>b. b < length h) (chain_of h a)" using reg a by (simp add: region_def sound_heap_def)
  ultimately show ?thesis using tail[of "length h" a] b by (simp add: chain_of_def)
qed


lemma region_bounds: "region R n h \<Longrightarrow> 2 < n \<and> n \<le> length h \<and> sound_heap h \<and> 0 < length h \<and> 2 < length h"
  by (auto simp: region_def)

lemma chain_end:
  assumes "sound_heap h" "a < length h"
  shows "list_all (\<lambda>b. b < length h) (chain_of h a)" "last (chain_of h a) < length h" "oproto (h ! last (chain_of h a)) = None"
  using assms chain_Cons[OF assms(2)] by (auto simp: sound_heap_def list_all_iff)

lemma evolves_fuel:
  assumes ev: "evolves R n h g" and snd: "sound_heap h" and a: "a < length h" and k: "length h \<le> k"
  shows "proto_chain g k a = chain_of h a"
proof -
  have "proto_chain g (length h) a = chain_of h a"
    using proto_chain_same[of h "length h" a g] chain_end[OF snd a] ev by (simp add: chain_of_def evolves_def)
  moreover have "oproto (g ! last (chain_of h a)) = None" using chain_end[OF snd a] ev by (simp add: evolves_def)
  moreover have "0 < length h" using a by (cases h) auto
  ultimately show ?thesis using proto_chain_more[of "length h" g a "k - length h"] k by simp
qed

lemma new_chain:
  assumes "evolves R n h g" "sound_heap h" "length h \<le> a" "a < length g" "oproto (g ! a) = Some p" "p < length h"
  shows "chain_of g a = a # chain_of h p"
proof -
  obtain k where k: "length g = Suc k" using assms(4) by (cases "length g") auto
  with assms(3,4) have "length h \<le> k" by simp
  from evolves_fuel[OF assms(1,2,6) this] assms(5) show ?thesis by (simp add: chain_of_def[of g] k)
qed

lemma sound_evolves:
  assumes ev: "evolves R n h g" and snd: "sound_heap h"
    and new: "\<And>a. length h \<le> a \<Longrightarrow> a < length g \<Longrightarrow> \<exists>p < length h. oproto (g ! a) = Some p"
    and vals: "\<And>a w. a < length g \<Longrightarrow> w \<in> set (values_of (g ! a)) \<Longrightarrow> valid g w"
  shows "sound_heap g"
  unfolding sound_heap_def
proof (intro allI impI conjI)
  have len: "length h \<le> length g" using ev by (simp add: evolves_def)
  have old: "list_all (\<lambda>b. b < length g) (chain_of h p) \<and> chain_of h p \<noteq> [] \<and> oproto (g ! last (chain_of h p)) = None"
    if "p < length h" for p
    using chain_end[OF snd that] chain_Cons[OF that] ev by (auto simp: evolves_def list_all_iff)
  fix a assume a: "a < length g"
  show "list_all (valid g) (values_of (g ! a))" using vals[OF a] by (simp add: list_all_iff)
  consider "a < length h" "chain_of g a = chain_of h a" | p where "p < length h" "chain_of g a = a # chain_of h p"
  proof (cases "a < length h")
    case False
    then show ?thesis using that(2) new[of a] new_chain[OF ev snd] a by (metis not_le)
  qed (use that(1) evolves_chain[OF ev snd] in blast)
  then have "list_all (\<lambda>b. b < length g) (chain_of g a) \<and> oproto (g ! last (chain_of g a)) = None"
    using old a len by cases auto
  then show "list_all (\<lambda>b. b < length g) (chain_of g a)" "oproto (g ! last (chain_of g a)) = None" by auto
qed

lemma calm_kept:
  assumes reg: "region R n h" and ev: "evolves R n h g" and p: "p < length h" "\<not> mine R n p" "calm h p"
  shows "calm g p"
proof (rule calm_same[OF reg ev p(1,3)])
  fix b w assume b: "b \<in> set (chain_of h p)" "w \<in> set (values_of (g ! b))"
  then have "\<not> mine R n b" using chain_not_mine[OF reg p(1), of b] p(2) by blast
  moreover have "b < length h" using chain_end(1)[of h p] region_bounds[OF reg] p(1) b by (simp add: list_all_iff)
  ultimately show "w \<in> set (values_of (h ! b))" using b(2) ev by (simp add: evolves_def)
qed

text \<open>A region after its objects have been written: what is left to show is that the values are still good.\<close>

lemma region_evolves:
  assumes reg: "region R n h" and ev: "evolves R n h g"
    and new: "\<And>a. length h \<le> a \<Longrightarrow> a < length g \<Longrightarrow> oproto (g ! a) = Some 0 \<or> oproto (g ! a) = Some 2"
    and vals: "\<And>a w. a < length g \<Longrightarrow> mine R n a \<Longrightarrow> w \<in> set (values_of (g ! a)) \<Longrightarrow> valid g w \<and> held_in R n g w"
  shows "region R n g"
proof -
  have snd: "sound_heap h" and b: "2 < n" "n \<le> length h" "0 < length h" "2 < length h" using region_bounds[OF reg] by auto
  have len: "length h \<le> length g" using ev by (simp add: evolves_def)
  have base: "\<not> mine R n 0" "\<not> mine R n 2" "calm g 0" "calm g 2"
    using reg b calm_kept[OF reg ev] by (auto simp: region_def)
  have "valid g w" if a: "a < length g" "w \<in> set (values_of (g ! a))" for a w
  proof (cases "mine R n a")
    case False
    then have "a < length h" "g ! a = h ! a" using b ev by (auto simp: mine_def evolves_def)
    with a(2) snd have "valid h w" by (auto simp: sound_heap_def list_all_iff)
    then show ?thesis using valid_evolves[OF ev] by simp
  qed (use vals a in blast)
  moreover have "\<exists>p < length h. oproto (g ! a) = Some p" if "length h \<le> a" "a < length g" for a
    using new[OF that] b by auto
  ultimately have sound: "sound_heap g" using sound_evolves[OF ev snd] by blast
  have protos: "case oproto (g ! a) of None \<Rightarrow> True | Some p \<Rightarrow> \<not> mine R n p \<and> (mine R n a \<longrightarrow> calm g p)" if a: "a < length g" for a
  proof (cases "a < length h")
    case True
    then have "oproto (g ! a) = oproto (h ! a)" using ev by (simp add: evolves_def)
    with True reg calm_kept[OF reg ev] sound_proto[OF snd True] show ?thesis by (auto simp: region_def split: option.splits)
  next
    case False
    with new[of a] a base show ?thesis by auto
  qed
  have "list_all (held_in R n g) (values_of (g ! a))" if "a < length g" "mine R n a" for a
    using vals[OF that] by (simp add: list_all_iff)
  then show ?thesis unfolding region_def using sound b len base protos by auto
qed


lemma js_set_name: "name \<noteq> ''__proto__'' \<Longrightarrow> js_set a name v h = h[a := put_prop name v (h ! a)]"
  by (simp add: js_set_def)

lemma region_values:
  assumes "region R n h" "evolves R n h g" "a < length h" "mine R n a" "w \<in> set (values_of (h ! a))"
  shows "valid g w \<and> held_in R n g w"
proof -
  have "valid h w" "held_in R n h w" using assms(1,3-5) by (auto simp: region_def sound_heap_def list_all_iff)
  then show ?thesis using held_same[OF assms(1,2)] valid_evolves[OF assms(2)] by simp
qed

lemma region_alloc:
  assumes "region R n h" "oproto ob = Some 0 \<or> oproto ob = Some 2" "values_of ob = []"
  shows "region R n (h @ [ob])"
proof (rule region_evolves[OF assms(1)])
  fix a w assume "a < length (h @ [ob])" "mine R n a" "w \<in> set (values_of ((h @ [ob]) ! a))"
  with assms(3) have "a < length h" "w \<in> set (values_of (h ! a))" by (auto simp: nth_append split: if_splits)
  with assms(1) \<open>mine R n a\<close> show "valid (h @ [ob]) w \<and> held_in R n (h @ [ob]) w" by (intro region_values) auto
qed (use assms(2) in \<open>auto simp: nth_append\<close>)

lemma evolves_set: "mine R n t \<Longrightarrow> evolves R n h (h[t := put_prop name v (h ! t)])"
  by (cases "t < length h") (auto simp: evolves_def nth_list_update)

lemma region_set:
  assumes reg: "region R n h" and t: "mine R n t" "t < length h" and name: "name \<noteq> ''__proto__''"
    and v: "valid h v" "held_in R n h v"
  shows "region R n (js_set t name v h)" "evolves R n h (js_set t name v h)"
proof -
  let ?g = "js_set t name v h"
  show ev: "evolves R n h ?g" using evolves_set[OF t(1)] by (simp add: js_set_name[OF name])
  show "region R n ?g"
  proof (rule region_evolves[OF reg ev])
    fix a w assume a: "a < length ?g" "mine R n a" "w \<in> set (values_of (?g ! a))"
    show "valid ?g w \<and> held_in R n ?g w"
    proof (cases "w \<in> set (values_of (h ! a))")
      case True
      then show ?thesis using region_values[OF reg ev _ a(2)] a(1) by (simp add: js_set_name[OF name])
    next
      case False
      then have "w = v" using a(1,3) t(2) put_prop_values[of w name v "h ! t"]
        by (auto simp: js_set_name[OF name] nth_list_update split: if_splits)
      then show ?thesis using v held_same[OF reg ev] valid_evolves[OF ev] by simp
    qed
  qed (simp_all add: js_set_name[OF name])
qed

lemma new_values [simp]: "values_of new_object = []" "values_of new_array = []"
  by (simp_all add: values_of_def new_object_def new_array_def)

lemma new_proto [simp]: "oproto new_object = Some 0" "oproto new_array = Some 2"
  by (simp_all add: new_object_def new_array_def)

lemma clone_target_region:
  assumes reg: "region R n h" and src: "valid h src" "held_in R n h src" and clone: "clone_target h src copy = (g, v)"
  shows "\<exists>c. v = Ref c \<and> mine R n c \<and> c < length g \<and> region R n g \<and> evolves R n h g"
proof -
  have top: "mine R n (length h)" using reg by (simp add: region_def mine_def)
  from clone consider "g = h @ [new_array]" "v = Ref (length h)" | "g = h @ [new_object]" "v = Ref (length h)"
    | "g = h" "v = src" "cloneable h src"
    by (auto simp: clone_target_def cloneable_def split: if_splits)
  then show ?thesis
  proof cases
    case 3
    with src show ?thesis using reg by (auto simp: held_in_def valid_def split: jval.splits)
  qed (use reg top region_alloc[OF reg] in auto)
qed


lemma nested_region:
  assumes reg: "region R n h" and t: "mine R n t" "t < length h" and name: "name \<noteq> ''__proto__''"
    and g: "clone_target h (js_get h t name) copy = (g, v)"
    and inner: "\<And>c. v = Ref c \<Longrightarrow> mine R n c \<Longrightarrow> c < length g \<Longrightarrow> region R n g \<Longrightarrow> evolves R n h g \<Longrightarrow> region R n h2 \<and> evolves R n g h2"
  shows "\<exists>c. v = Ref c \<and> region R n (js_set t name (Ref c) h2) \<and> evolves R n h (js_set t name (Ref c) h2)"
proof -
  have src: "valid h (js_get h t name)" "held_in R n h (js_get h t name)"
    using js_get_held[OF reg t name] js_get_valid reg t by (auto simp: region_def)
  from clone_target_region[OF reg src g] obtain c where c: "v = Ref c" "mine R n c" "c < length g" "region R n g" "evolves R n h g"
    by blast
  from inner[OF c] have reg2: "region R n h2" and ev2: "evolves R n h h2" "evolves R n g h2" using evolves_trans c(5) by blast+
  have "valid h2 (Ref c)" "held_in R n h2 (Ref c)" "t < length h2"
    using ev2 c t by (auto simp: valid_def held_in_def evolves_def)
  with region_set[OF reg2 t(1) _ name] ev2(1) evolves_trans c(1) show ?thesis by blast
qed

text \<open>The body of the loop, over the function that it calls.\<close>

definition extend_body :: "(bool \<Rightarrow> nat \<Rightarrow> jval \<Rightarrow> string list \<Rightarrow> heap \<Rightarrow> heap option) \<Rightarrow> bool \<Rightarrow> nat \<Rightarrow> jval \<Rightarrow> string list \<Rightarrow> heap \<Rightarrow> heap option" where
  "extend_body f deep t options names h =
     (case names of [] \<Rightarrow> Some h
      | name # rest \<Rightarrow>
          let copy = get_of h options name
          in if name = ''__proto__'' \<or> copy = Ref t then f deep t options rest h
             else if deep \<and> (isPlainObject h copy \<or> isArray h copy)
                  then case clone_target h (js_get h t name) copy of
                         (h1, Ref c) \<Rightarrow> Option.bind (f deep c copy (names_in h1 copy) h1) (\<lambda>h2. f deep t options rest (js_set t name (Ref c) h2))
                       | (h1, _) \<Rightarrow> None
                  else if copy \<noteq> Undef then f deep t options rest (js_set t name copy h) else f deep t options rest h)"

lemmas extend_induct = extend_names.raw_induct[folded extend_body_def]

definition keeps_region :: "nat list \<Rightarrow> nat \<Rightarrow> bool \<Rightarrow> nat \<Rightarrow> jval \<Rightarrow> string list \<Rightarrow> heap \<Rightarrow> heap \<Rightarrow> bool" where
  "keeps_region R n deep t options names h h' \<longleftrightarrow>
     (deep \<longrightarrow> region R n h \<longrightarrow> mine R n t \<longrightarrow> t < length h \<longrightarrow> valid h options \<longrightarrow> region R n h' \<and> evolves R n h h')"

text \<open>A deep extension of an object of a region writes objects of the region only.\<close>

lemma body_keeps_region:
  assumes ih: "\<And>deep t options names h h'. f deep t options names h = Some h' \<Longrightarrow> keeps_region R n deep t options names h h'"
    and step: "extend_body f deep t options names h = Some h'"
  shows "keeps_region R n deep t options names h h'"
  unfolding keeps_region_def
proof (intro impI)
  assume deep and reg: "region R n h" and t: "mine R n t" "t < length h" and val: "valid h options"
  note ih = ih[unfolded keeps_region_def, THEN mp, OF _ \<open>deep\<close>, THEN mp, THEN mp, THEN mp, THEN mp]
  have rest: "region R n h' \<and> evolves R n h h'" if "f deep t options rest g = Some h'" "region R n g" "evolves R n h g" for rest g
  proof -
    have "t < length g" "valid g options" using that(3) t val valid_evolves by (auto simp: evolves_def)
    with ih[OF that(1,2) t(1)] evolves_trans[OF that(3)] show ?thesis by blast
  qed
  show "region R n h' \<and> evolves R n h h'"
  proof (cases names)
    case Nil with step reg show ?thesis by (simp add: extend_body_def)
  next
    case (Cons name more_names)
    define copy where "copy = get_of h options name"
    have copy: "valid h copy" using get_of_valid reg val by (simp add: copy_def region_def)
    note step = step[unfolded extend_body_def Cons list.case Let_def, folded copy_def]
    consider "name = ''__proto__'' \<or> copy = Ref t" | "name \<noteq> ''__proto__''" "copy \<noteq> Ref t" "cloneable h copy"
      | "name \<noteq> ''__proto__''" "copy \<noteq> Ref t" "\<not> cloneable h copy" by blast
    then show ?thesis
    proof cases
      case 1 with step reg rest show ?thesis by auto
    next
      case 2
      obtain g v where g: "clone_target h (js_get h t name) copy = (g, v)" by fastforce
      from step 2 \<open>deep\<close> g obtain c h2 where h2: "v = Ref c" "f deep c copy (names_in g copy) g = Some h2"
        "f deep t options more_names (js_set t name (Ref c) h2) = Some h'"
        by (cases v) (auto simp: cloneable_def bind_eq_Some_conv)
      have inner: "region R n h2 \<and> evolves R n g h2" if "v = Ref c'" "mine R n c'" "c' < length g" "region R n g" "evolves R n h g" for c'
        using ih[OF h2(2)] h2(1) that valid_evolves[OF _ copy] by blast
      have "\<exists>c. v = Ref c \<and> region R n (js_set t name (Ref c) h2) \<and> evolves R n h (js_set t name (Ref c) h2)"
        by (rule nested_region[OF reg t 2(1) g]) (rule inner)
      with h2(1) rest[OF h2(3)] show ?thesis by blast
    next
      case 3
      then have "held_in R n h copy" by (simp add: held_in_def)
      from region_set[OF reg t 3(1) copy this] step 3 rest reg show ?thesis
        by (auto simp: cloneable_def split: if_splits)
    qed
  qed
qed

lemma extend_names_region:
  assumes "extend_names deep t options names h = Some h'" deep "region R n h" "mine R n t" "t < length h" "valid h options"
  shows "region R n h' \<and> evolves R n h h'"
proof -
  have "keeps_region R n deep t options names h h'"
    by (rule extend_induct[OF _ assms(1)]) (rule body_keeps_region)
  with assms(2-) show ?thesis by (simp add: keeps_region_def)
qed

subsection \<open>Copies\<close>

text \<open>The names whose values are copied.\<close>

definition copied_names :: "heap \<Rightarrow> jval \<Rightarrow> string list" where
  "copied_names h v = filter (\<lambda>x. x \<noteq> ''__proto__'' \<and> get_of h v x \<noteq> Undef) (names_in h v)"

text \<open>A value whose structures are nested at most \<open>k\<close> deep: in particular without cycles.\<close>

fun nested :: "heap \<Rightarrow> nat \<Rightarrow> jval \<Rightarrow> bool" where
  "nested h 0 v \<longleftrightarrow> \<not> cloneable h v"
| "nested h (Suc k) v \<longleftrightarrow> (cloneable h v \<longrightarrow> list_all (\<lambda>x. nested h k (get_of h v x)) (copied_names h v))"

text \<open>
  \<open>w\<close> in the heap \<open>g\<close> is a copy of \<open>v\<close> of the heap \<open>h\<close>: what is not a structure is the same value, a structure is one at an
  address from \<open>lo\<close> on, of the same kind, whose own properties are the copied names, with copies of the values.
\<close>

fun copied :: "heap \<Rightarrow> heap \<Rightarrow> nat \<Rightarrow> nat \<Rightarrow> jval \<Rightarrow> jval \<Rightarrow> bool" where
  "copied h g lo 0 v w \<longleftrightarrow> \<not> cloneable h v \<and> w = v"
| "copied h g lo (Suc k) v w \<longleftrightarrow>
     (if cloneable h v
      then (case w of
              Ref c \<Rightarrow>
                lo \<le> c \<and> c < length g
                \<and> otag (g ! c) = (if isArray h v then ''Array'' else ''Object'')
                \<and> oproto (g ! c) = Some (if isArray h v then 2 else 0) \<and> ohidden (g ! c) = []
                \<and> set (map fst (oprops (g ! c))) = set (copied_names h v)
                \<and> list_all (\<lambda>x. case map_of (oprops (g ! c)) x of None \<Rightarrow> False | Some w' \<Rightarrow> copied h g lo k (get_of h v x) w')
                    (copied_names h v)
            | _ \<Rightarrow> False)
      else w = v)"

lemma copied_leaf: "\<not> cloneable h v \<Longrightarrow> copied h g lo k v v"
  by (cases k) simp_all

lemma copied_kept:
  assumes "\<And>i. lo \<le> i \<Longrightarrow> i < length g \<Longrightarrow> g' ! i = g ! i" "length g \<le> length g'"
  shows "copied h g lo k v w \<Longrightarrow> lo' \<le> lo \<Longrightarrow> copied h g' lo' k v w"
proof (induction k arbitrary: v w)
  case (Suc k)
  show ?case
  proof (cases "cloneable h v")
    case True
    with Suc.prems obtain c where c: "w = Ref c" "lo \<le> c" "c < length g" by (auto split: jval.splits)
    then have "g' ! c = g ! c" using assms(1) by simp
    then show ?thesis using True Suc c assms(2) by (auto simp: list_all_iff split: option.splits)
  qed (use Suc in simp)
qed simp

text \<open>Names and values are read from objects that a copy does not write.\<close>

lemma first_own_same:
  "(\<And>b. b \<in> set as \<Longrightarrow> g ! b = h ! b) \<Longrightarrow> first_own g name as = first_own h name as"
  by (induction as) (auto simp: own_def split: option.split)

lemma enum_chain_same:
  "(\<And>b. b \<in> set as \<Longrightarrow> g ! b = h ! b) \<Longrightarrow> enum_chain g seen as = enum_chain h seen as"
  by (induction as arbitrary: seen) auto

definition distinct_names :: "heap \<Rightarrow> bool" where
  "distinct_names h \<longleftrightarrow> (\<forall>a < length h. distinct (map fst (oprops (h ! a))))"

lemma enum_chain_distinct:
  assumes "\<And>a. a \<in> set as \<Longrightarrow> distinct (map fst (oprops (h ! a)))"
  shows "distinct (enum_chain h seen as) \<and> set (enum_chain h seen as) \<inter> set seen = {}"
  using assms
proof (induction as arbitrary: seen)
  case (Cons a as)
  then have "distinct (enum_chain h (map fst (oprops (h ! a)) @ map fst (ohidden (h ! a)) @ seen) as)
      \<and> set (enum_chain h (map fst (oprops (h ! a)) @ map fst (ohidden (h ! a)) @ seen) as)
        \<inter> set (map fst (oprops (h ! a)) @ map fst (ohidden (h ! a)) @ seen) = {}" by (intro Cons.IH) simp
  moreover have "distinct (map fst (oprops (h ! a)))" using Cons.prems by simp
  ultimately show ?case by auto
qed simp


lemma chain_kept:
  assumes "region [] n h" "evolves [] n h g" "a < length h" "length h = n" "b \<in> set (chain_of h a)"
  shows "g ! b = h ! b"
  using assms chain_end(1)[of h a] by (auto simp: region_def evolves_def mine_def list_all_iff)

lemma old_names:
  assumes "region [] n h" "evolves [] n h g" "length h = n" "valid h v"
  shows "names_in g v = names_in h v"
proof (cases v)
  case (Ref a)
  then have "a < length h" using assms(4) by (simp add: valid_def)
  with Ref evolves_chain[OF assms(2)] chain_kept[OF assms(1,2)] assms(1,3) enum_chain_same[of "chain_of h a" g h "[]"]
  show ?thesis by (simp add: names_in_def region_def)
qed (simp_all add: names_in_def)

lemma old_value:
  assumes "region [] n h" "evolves [] n h g" "length h = n" "valid h v"
  shows "get_of g v name = get_of h v name"
proof (cases v)
  case (Ref a)
  then have a: "a < length h" using assms(4) by (simp add: valid_def)
  have "chain_of g a = chain_of h a" using evolves_chain[OF assms(2)] assms(1) a by (simp add: region_def)
  moreover have "first_own g name (chain_of h a) = first_own h name (chain_of h a)"
    using first_own_same[of "chain_of h a" g h name] chain_kept[OF assms(1,2) a assms(3)] by blast
  moreover have "oproto (g ! a) = oproto (h ! a)" using assms(2) a by (simp add: evolves_def)
  ultimately show ?thesis using Ref by (simp add: get_of_def js_get_def cong: option.case_cong)
qed (simp_all add: get_of_def)

lemma names_distinct:
  assumes "sound_heap h" "distinct_names h" "valid h v" "cloneable h v"
  shows "distinct (names_in h v)"
proof -
  from assms(3,4) obtain a where a: "v = Ref a" "a < length h"
    by (auto simp: cloneable_def isArray_def isPlainObject_def valid_def split: jval.splits)
  have "distinct (map fst (oprops (h ! b)))" if "b \<in> set (chain_of h a)" for b
    using chain_end(1)[OF assms(1) a(2)] assms(2) that by (simp add: list_all_iff distinct_names_def)
  from enum_chain_distinct[of "chain_of h a" h "[]", OF this] a show ?thesis by (simp add: names_in_def)
qed

text \<open>A name that an object of the region does not have itself gives no structure to go on in.\<close>

lemma js_get_missing:
  assumes reg: "region R n h" and t: "mine R n t" "t < length h" and name: "name \<noteq> ''__proto__''" "own h t name = None"
  shows "\<not> cloneable h (js_get h t name)"
proof (cases "first_own h name (chain_of h t)")
  case None
  then show ?thesis by (simp add: js_get_plain_name name cloneable_def isArray_def isPlainObject_def)
next
  case (Some v)
  have step: "chain_of h t = t # (case oproto (h ! t) of None \<Rightarrow> [] | Some p \<Rightarrow> chain_of h p)"
    using reg t(2) chain_step by (simp add: region_def)
  with Some name(2) obtain p where p: "oproto (h ! t) = Some p" "first_own h name (chain_of h p) = Some v"
    by (auto split: option.splits)
  with reg t have "calm h p" by (auto simp: region_def)
  with first_own_values[OF p(2)] have "\<not> cloneable h v" by (auto simp: calm_def list_all_iff)
  with Some name(1) show ?thesis by (simp add: js_get_plain_name)
qed

lemma clone_target_new:
  assumes "\<not> cloneable h src"
  shows "clone_target h src copy = (h @ [if isArray h copy then new_array else new_object], Ref (length h))"
  using assms by (simp add: clone_target_def cloneable_def)


text \<open>Every structure of \<open>h\<close> that is nested \<open>k\<close> deep is copied into a new object, and nothing else is written.\<close>

definition copies :: "heap \<Rightarrow> nat \<Rightarrow> bool" where
  "copies h k \<longleftrightarrow>
     (\<forall>u c g. valid h u \<longrightarrow> cloneable h u \<longrightarrow> nested h k u \<longrightarrow> region [] (length h) g \<longrightarrow> evolves [] (length h) h g \<longrightarrow> length h \<le> c \<longrightarrow>
        c < length g \<longrightarrow> g ! c = (if isArray h u then new_array else new_object) \<longrightarrow>
        (\<exists>g'. extend_names True c u (names_in g u) g = Some g' \<and> (\<forall>i < length g. i \<noteq> c \<longrightarrow> g' ! i = g ! i) \<and> copied h g' c k u (Ref c)))"

definition good_name :: "heap \<Rightarrow> jval \<Rightarrow> string \<Rightarrow> bool" where
  "good_name h v x \<longleftrightarrow> x \<noteq> ''__proto__'' \<and> get_of h v x \<noteq> Undef"

text \<open>One name of the loop: the heap after it, with the copy of the value under the name.\<close>

lemma copy_one:
  assumes h: "region [] (length h) h" "copies h k" "valid h v"
    and g: "region [] (length h) g" "evolves [] (length h) h g"
    and t: "length h \<le> t" "t < length g" "ohidden (g ! t) = []" "map_of (oprops (g ! t)) x = None"
    and x: "good_name h v x" "nested h k (get_of h v x)"
  shows "\<exists>g' w. (\<forall>rest. extend_names True t v (x # rest) g = extend_names True t v rest g')
           \<and> region [] (length h) g' \<and> evolves [] (length h) g g' \<and> (\<forall>i < length g. i \<noteq> t \<longrightarrow> g' ! i = g ! i)
           \<and> g' ! t = put_prop x w (g ! t) \<and> copied h g' (length g) k (get_of h v x) w"
proof -
  let ?n = "length h" and ?u = "get_of h v x"
  have name: "x \<noteq> ''__proto__''" and def: "?u \<noteq> Undef" using x(1) by (auto simp: good_name_def)
  have u: "valid h ?u" using get_of_valid h by (simp add: region_def)
  have same: "get_of g v x = ?u" using old_value[OF h(1) g(2) _ h(3)] by simp
  have kind: "cloneable g ?u = cloneable h ?u" "isArray g ?u = isArray h ?u"
    using cloneable_same[OF h(1) g(2) u] isArray_same[OF g(2) u] by auto
  have other: "?u \<noteq> Ref t" using u t(1) by (auto simp: valid_def)
  have mine: "mine [] ?n t" using t(1) by (simp add: mine_def)
  show ?thesis
  proof (cases "cloneable h ?u")
    case False
    have held: "held_in [] ?n g ?u" using False kind by (simp add: held_in_def)
    let ?g = "js_set t x ?u g"
    have "extend_names True t v (x # rest) g = extend_names True t v rest ?g" for rest
      using False kind same name other def by (subst extend_names.simps) (simp add: Let_def cloneable_def)
    moreover have "region [] ?n ?g" "evolves [] ?n g ?g"
      using region_set[OF g(1) mine t(2) name valid_evolves[OF g(2) u] held] by auto
    moreover have "?g ! t = put_prop x ?u (g ! t)" "\<forall>i < length g. i \<noteq> t \<longrightarrow> ?g ! i = g ! i"
      using t(2) by (simp_all add: js_set_name[OF name])
    ultimately show ?thesis using copied_leaf[OF False] by blast
  next
    case True
    let ?c = "length g" and ?g1 = "g @ [if isArray h ?u then new_array else new_object]"
    have src: "\<not> cloneable g (js_get g t x)" using js_get_missing[OF g(1) mine t(2) name] t(3,4) by (simp add: own_def)
    have reg1: "region [] ?n ?g1" using region_alloc[OF g(1)] by simp
    have ev1: "evolves [] ?n h ?g1" using evolves_trans[OF g(2)] by simp
    obtain g2 where g2: "extend_names True ?c ?u (names_in ?g1 ?u) ?g1 = Some g2" "\<forall>i < length g. g2 ! i = g ! i" "copied h g2 ?c k ?u (Ref ?c)"
      using h(2)[unfolded copies_def, rule_format, OF u True x(2) reg1 ev1, of ?c] t by (force simp: nth_append)
    have len: "?n \<le> length g" using t by simp
    have reg2: "region [] ?n g2" "evolves [] ?n ?g1 g2"
      using extend_names_region[OF g2(1) _ reg1] valid_evolves[OF ev1 u] len by (auto simp: mine_def)
    have long: "length g < length g2" using reg2(2) by (simp add: evolves_def)
    have ev2: "evolves [] ?n g g2" using evolves_trans[OF evolves_alloc reg2(2)] by simp
    let ?g = "js_set t x (Ref ?c) g2"
    have "held_in [] ?n g2 (Ref ?c)" "valid g2 (Ref ?c)" using len long by (auto simp: held_in_def mine_def valid_def)
    with region_set[OF reg2(1) mine _ name] long t(2) evolves_trans[OF ev2]
    have "region [] ?n ?g" "evolves [] ?n g ?g" by auto
    moreover have "extend_names True t v (x # rest) g = extend_names True t v rest ?g" for rest
      using True kind same name other src g2(1)
      by (subst extend_names.simps) (simp add: Let_def clone_target_new cloneable_def)
    moreover have at: "?g ! t = put_prop x (Ref ?c) (g ! t)" "\<forall>i < length g. i \<noteq> t \<longrightarrow> ?g ! i = g ! i"
      using t(2) long g2(2) by (simp_all add: js_set_name[OF name])
    moreover have "copied h ?g ?c k ?u (Ref ?c)"
      using t(2) by (intro copied_kept[OF _ _ g2(3)]) (simp_all add: js_set_name[OF name])
    ultimately show ?thesis by blast
  qed
qed


lemma copy_skip:
  assumes "region [] (length h) h" "valid h v" "evolves [] (length h) h g" "length h \<le> t" "\<not> good_name h v x"
  shows "extend_names True t v (x # rest) g = extend_names True t v rest g"
  using assms old_value[OF assms(1,3) _ assms(2), of x]
  by (subst extend_names.simps) (auto simp: Let_def good_name_def isPlainObject_def isArray_def)

lemma put_prop_new:
  assumes "ohidden ob = []"
  shows "ohidden (put_prop x w ob) = []" "map_of (oprops (put_prop x w ob)) = (map_of (oprops ob))(x \<mapsto> w)"
  using assms by (simp_all add: put_prop_def)

lemma copy_loop:
  assumes h: "region [] (length h) h" "copies h k" "valid h v"
  shows "region [] (length h) g \<Longrightarrow> evolves [] (length h) h g \<Longrightarrow> length h \<le> t \<Longrightarrow> t < length g \<Longrightarrow> ohidden (g ! t) = [] \<Longrightarrow> distinct names \<Longrightarrow>
    (\<And>x. x \<in> set names \<Longrightarrow> map_of (oprops (g ! t)) x = None \<and> (good_name h v x \<longrightarrow> nested h k (get_of h v x))) \<Longrightarrow>
    \<exists>g'. extend_names True t v names g = Some g' \<and> (\<forall>i < length g. i \<noteq> t \<longrightarrow> g' ! i = g ! i) \<and> ohidden (g' ! t) = []
      \<and> (\<forall>x. x \<notin> set (filter (good_name h v) names) \<longrightarrow> map_of (oprops (g' ! t)) x = map_of (oprops (g ! t)) x)
      \<and> (\<forall>x \<in> set (filter (good_name h v) names). \<exists>w. map_of (oprops (g' ! t)) x = Some w \<and> copied h g' (length g) k (get_of h v x) w)"
proof (induction names arbitrary: g)
  case Nil
  then show ?case by (subst extend_names.simps) simp
next
  case (Cons x names)
  note g = Cons.prems(1-5)
  show ?case
  proof (cases "good_name h v x")
    case False
    then show ?thesis using copy_skip[OF h(1,3) g(2,3)] Cons by auto
  next
    case True
    obtain g1 w where one: "extend_names True t v (x # names) g = extend_names True t v names g1" "region [] (length h) g1"
        "evolves [] (length h) g g1" "\<forall>i < length g. i \<noteq> t \<longrightarrow> g1 ! i = g ! i" "g1 ! t = put_prop x w (g ! t)"
        "copied h g1 (length g) k (get_of h v x) w"
      using copy_one[OF h g(1-5) _ True] Cons.prems(7)[of x] True by auto
    have long: "length g \<le> length g1" using one(3) by (simp add: evolves_def)
    note put = put_prop_new[OF g(5), of x w]
    have "evolves [] (length h) h g1" "t < length g1" "ohidden (g1 ! t) = []" using evolves_trans[OF g(2) one(3)] long g(4) one(5) put by auto
    moreover have "map_of (oprops (g1 ! t)) y = None \<and> (good_name h v y \<longrightarrow> nested h k (get_of h v y))" if "y \<in> set names" for y
      using Cons.prems(6,7) that one(5) put by auto
    ultimately obtain g' where g': "extend_names True t v names g1 = Some g'" "\<forall>i < length g1. i \<noteq> t \<longrightarrow> g' ! i = g1 ! i" "ohidden (g' ! t) = []"
        "\<forall>y. y \<notin> set (filter (good_name h v) names) \<longrightarrow> map_of (oprops (g' ! t)) y = map_of (oprops (g1 ! t)) y"
        "\<forall>y \<in> set (filter (good_name h v) names). \<exists>w. map_of (oprops (g' ! t)) y = Some w \<and> copied h g' (length g1) k (get_of h v y) w"
      using Cons.IH[OF one(2) _ g(3)] Cons.prems(6) by auto
    have more: "length g1 \<le> length g'" 
      using extend_names_region[OF g'(1) _ one(2)] g long h(3) valid_evolves[OF \<open>evolves [] (length h) h g1\<close>] 
      by (auto simp: mine_def evolves_def)
    have "copied h g' (length g) k (get_of h v x) w"
      using g(4) g'(2) more by (intro copied_kept[OF _ _ one(6)]) auto
    moreover have "copied h g' (length g) k u w'" if "copied h g' (length g1) k u w'" for u w'
      using copied_kept[OF _ _ that long, of g'] by simp
    ultimately show ?thesis
      using g' one(1,4,5) put long Cons.prems(6) by (intro exI[of _ g']) (fastforce simp: True)
  qed
qed


lemma copies_all:
  assumes h: "region [] (length h) h" "distinct_names h"
  shows "copies h k"
proof (induction k)
  case 0
  show ?case by (simp add: copies_def)
next
  case (Suc k)
  show ?case
    unfolding copies_def
  proof (intro allI impI)
    let ?n = "length h"
    fix u c g
    assume u: "valid h u" "cloneable h u" "nested h (Suc k) u" and g: "region [] ?n g" "evolves [] ?n h g"
      and c: "?n \<le> c" "c < length g" "g ! c = (if isArray h u then new_array else new_object)"
    have names: "names_in g u = names_in h u" using old_names[OF h(1) g(2) _ u(1)] by simp
    have new: "ohidden (g ! c) = []" "oprops (g ! c) = []" using c(3) by (auto simp: new_array_def new_object_def)
    have "map_of (oprops (g ! c)) x = None \<and> (good_name h u x \<longrightarrow> nested h k (get_of h u x))" if "x \<in> set (names_in h u)" for x
      using new u(2,3) that by (simp add: list_all_iff copied_names_def good_name_def)
    from copy_loop[OF h(1) Suc u(1) g c(1,2) new(1) names_distinct[OF _ h(2) u(1,2)] this]
    obtain g' where g': "extend_names True c u (names_in h u) g = Some g'" "\<forall>i < length g. i \<noteq> c \<longrightarrow> g' ! i = g ! i" "ohidden (g' ! c) = []"
        "\<forall>x. x \<notin> set (filter (good_name h u) (names_in h u)) \<longrightarrow> map_of (oprops (g' ! c)) x = None"
        "\<forall>x \<in> set (filter (good_name h u) (names_in h u)). \<exists>w. map_of (oprops (g' ! c)) x = Some w \<and> copied h g' (length g) k (get_of h u x) w"
      using h(1) new(2) by (auto simp: region_def)
    have ev: "evolves [] ?n g g'"
      using extend_names_region[OF g'(1) _ g(1)] c valid_evolves[OF g(2) u(1)] by (simp add: mine_def)
    have good: "filter (good_name h u) (names_in h u) = copied_names h u" by (simp add: copied_names_def good_name_def[abs_def])
    have "fst ` set (oprops (g' ! c)) = set (copied_names h u)"
      unfolding dom_map_of_conv_image_fst[symmetric] using g'(4,5) by (fastforce simp: good)
    moreover have "copied h g' c k (get_of h u x) w" if "copied h g' (length g) k (get_of h u x) w" for x w
      using copied_kept[OF _ _ that, of g' c] c(2) by simp
    ultimately have "copied h g' c (Suc k) u (Ref c)"
      using u(2) c ev g'(3,5) by (fastforce simp: good evolves_def list_all_iff new_array_def new_object_def)
    with g'(1,2) names show "\<exists>g'. extend_names True c u (names_in g u) g = Some g' \<and> (\<forall>i < length g. i \<noteq> c \<longrightarrow> g' ! i = g ! i) \<and> copied h g' c (Suc k) u (Ref c)"
      by (intro exI[of _ g']) simp
  qed
qed

text \<open>
  C20. A deep copy: extending a new object deeply with a plain object whose structures are nested returns, leaves every object
  that was there as it was, and gives a copy that shares no structure with the source.
\<close>

theorem extend_deep_copy:
  assumes "region [] (length h) h" "distinct_names h" "valid h v" "isPlainObject h v" "nested h k v"
  shows "\<exists>h'. extend this [JBool True, Ref (length h), v] (h @ [new_object]) = Some (h', length h)
           \<and> take (length h) h' = h \<and> copied h h' (length h) k v (Ref (length h))"
proof -
  have "\<not> isArray h v" using assms(4) by (auto simp: isArray_def isPlainObject_def split: jval.splits)
  moreover have "cloneable h v" using assms(4) by (simp add: cloneable_def)
  moreover have reg: "region [] (length h) (h @ [new_object])" using region_alloc[OF assms(1)] by simp
  ultimately obtain h' where h': "extend_names True (length h) v (names_in (h @ [new_object]) v) (h @ [new_object]) = Some h'"
      "copied h h' (length h) k v (Ref (length h))"
    using copies_all[OF assms(1,2), unfolded copies_def, rule_format, OF assms(3) _ assms(5) reg, of "length h"] by auto
  have "evolves [] (length h) (h @ [new_object]) h'"
    using extend_names_region[OF h'(1) _ reg] valid_evolves[OF evolves_alloc assms(3)] by (simp add: mine_def)
  with evolves_trans[OF evolves_alloc] have "evolves [] (length h) h h'" by blast
  then have "take (length h) h' = h" by (intro nth_equalityI) (auto simp: evolves_def mine_def)
  moreover have "v \<noteq> JNull" "v \<noteq> Undef" using assms(4) by (auto simp: isPlainObject_def)
  ultimately show ?thesis using h' by (simp add: extend_def arg_def)
qed


lemma extend_sources_region:
  "extend_sources True t sources h = Some h' \<Longrightarrow> region R n h \<Longrightarrow> mine R n t \<Longrightarrow> t < length h \<Longrightarrow> list_all (valid h) sources
   \<Longrightarrow> region R n h' \<and> evolves R n h h'"
proof (induction sources arbitrary: h)
  case (Cons v sources)
  show ?case
  proof (cases "v = JNull \<or> v = Undef")
    case False
    with Cons.prems(1) obtain g where g: "extend_names True t v (names_in h v) h = Some g" "extend_sources True t sources g = Some h'"
      by (auto split: option.splits)
    then have ev: "region R n g" "evolves R n h g" using extend_names_region[OF g(1) _ Cons.prems(2-4)] Cons.prems(5) by auto
    then have "t < length g" "list_all (valid g) sources"
      using Cons.prems(4,5) valid_evolves by (auto simp: evolves_def list_all_iff)
    with Cons.IH[OF g(2) ev(1) Cons.prems(3)] evolves_trans[OF ev(2)] show ?thesis by blast
  qed (use Cons in auto)
qed simp

text \<open>
  C21. Extending an existing object deeply writes the objects of its region and no others: \<open>Object.prototype\<close> is never written,
  whatever names the sources have.
\<close>

theorem extend_no_pollution:
  assumes "region R (length h) h" "t \<in> set R" "t < length h" "sources \<noteq> []" "list_all (valid h) sources"
    and "extend this (JBool True # Ref t # sources) h = Some (h', r)"
  shows "r = t \<and> (\<forall>a < length h. a \<notin> set R \<longrightarrow> h' ! a = h ! a) \<and> h' ! 0 = h ! 0 \<and> region R (length h) h'"
proof -
  have "extend_sources True t sources h = Some h'" "r = t"
    using assms(4,6) by (auto simp: extend_def arg_def neq_Nil_conv)
  then have "region R (length h) h'" "evolves R (length h) h h'" "r = t"
    using extend_sources_region[OF _ assms(1) _ assms(3,5)] assms(2) by (auto simp: mine_def)
  moreover have "0 < length h" "\<not> mine R (length h) 0" using assms(1) by (auto simp: region_def)
  ultimately show ?thesis by (auto simp: evolves_def mine_def)
qed

text \<open>The copy goes on as long as it finds structures: if it returns, the source is nested.\<close>

lemma nested_mono: "nested h k v \<Longrightarrow> k \<le> m \<Longrightarrow> nested h m v"
proof (induction k arbitrary: v m)
  case 0 then show ?case by (cases m) auto
next
  case (Suc k) then show ?case by (cases m) (auto simp: list_all_iff)
qed

lemma nested_all:
  assumes "\<And>x. x \<in> set (copied_names h v) \<Longrightarrow> \<exists>k. nested h k (get_of h v x)"
  shows "\<exists>k. nested h k v"
proof -
  from assms obtain K where K: "\<And>x. x \<in> set (copied_names h v) \<Longrightarrow> nested h (K x) (get_of h v x)" by metis
  let ?m = "Max (K ` set (copied_names h v))"
  have "nested h ?m (get_of h v x)" if "x \<in> set (copied_names h v)" for x
    using nested_mono[OF K[OF that], of ?m] that by simp
  then have "nested h (Suc ?m) v" by (simp add: list_all_iff)
  then show ?thesis ..
qed


lemma nested_names:
  assumes "\<forall>x \<in> set (names_in h v). good_name h v x \<longrightarrow> (\<exists>k. nested h k (get_of h v x))"
  shows "\<exists>k. nested h k v"
proof (rule nested_all)
  fix x assume "x \<in> set (copied_names h v)"
  then have "x \<in> set (names_in h v)" "good_name h v x" by (simp_all add: copied_names_def good_name_def)
  with assms show "\<exists>k. nested h k (get_of h v x)" by blast
qed

definition digs :: "heap \<Rightarrow> bool \<Rightarrow> nat \<Rightarrow> jval \<Rightarrow> string list \<Rightarrow> heap \<Rightarrow> heap \<Rightarrow> bool" where
  "digs h deep t v names g r \<longleftrightarrow>
     (deep \<longrightarrow> region [] (length h) g \<longrightarrow> evolves [] (length h) h g \<longrightarrow> length h \<le> t \<longrightarrow> t < length g \<longrightarrow> valid h v \<longrightarrow>
      (\<forall>x \<in> set names. good_name h v x \<longrightarrow> (\<exists>k. nested h k (get_of h v x))))"

lemma body_digs:
  assumes h: "region [] (length h) h"
    and ih: "\<And>deep t v names g r. f deep t v names g = Some r \<Longrightarrow> keeps_region [] (length h) deep t v names g r \<and> digs h deep t v names g r"
    and step: "extend_body f deep t v names g = Some r"
  shows "digs h deep t v names g r"
  unfolding digs_def
proof (intro impI)
  let ?n = "length h"
  assume deep and g: "region [] ?n g" "evolves [] ?n h g" and t: "?n \<le> t" "t < length g" and v: "valid h v"
  have mine: "mine [] ?n t" using t by (simp add: mine_def)
  show "\<forall>x \<in> set names. good_name h v x \<longrightarrow> (\<exists>k. nested h k (get_of h v x))"
  proof (cases names)
    case (Cons name rest)
    let ?copy = "get_of h v name"
    have copy: "valid h ?copy" using get_of_valid h v by (simp add: region_def)
    then have other: "?copy \<noteq> Ref t" using t by (auto simp: valid_def)
    have same: "get_of g v name = ?copy" using old_value[OF h g(2) _ v] by simp
    have kind: "cloneable g ?copy = cloneable h ?copy" using cloneable_same[OF h g(2) copy] .
    note step = step[unfolded extend_body_def Cons list.case Let_def same]
    have later: "\<forall>x \<in> set rest. good_name h v x \<longrightarrow> (\<exists>k. nested h k (get_of h v x))"
      if "f deep t v rest g1 = Some r" "region [] ?n g1" "evolves [] ?n g g1" for g1
      using ih[OF that(1)] that(2) evolves_trans[OF g(2) that(3)] evolves_length[OF that(3)] \<open>deep\<close> t v by (simp add: digs_def)
    consider "name = ''__proto__''" | "name \<noteq> ''__proto__''" "cloneable h ?copy" | "name \<noteq> ''__proto__''" "\<not> cloneable h ?copy" by blast
    then show ?thesis
    proof cases
      case 1
      with step later[of g] g show ?thesis by (simp add: Cons good_name_def)
    next
      case 2
      obtain g1 w where g1: "clone_target g (js_get g t name) ?copy = (g1, w)" by fastforce
      from step 2 \<open>deep\<close> g1 other kind obtain c h2 where h2: "w = Ref c" "f deep c ?copy (names_in g1 ?copy) g1 = Some h2"
        "f deep t v rest (js_set t name (Ref c) h2) = Some r"
        by (cases w) (auto simp: cloneable_def bind_eq_Some_conv)
      have src: "valid g (js_get g t name)" "held_in [] ?n g (js_get g t name)"
        using js_get_held[OF g(1) mine t(2) 2(1)] js_get_valid g(1) t(2) by (auto simp: region_def)
      from clone_target_region[OF g(1) src g1] h2(1) have c: "mine [] ?n c" "c < length g1" "region [] ?n g1" "evolves [] ?n g g1" by auto
      have ev1: "evolves [] ?n h g1" using evolves_trans[OF g(2) c(4)] .
      have "\<forall>x \<in> set (names_in h ?copy). good_name h ?copy x \<longrightarrow> (\<exists>k. nested h k (get_of h ?copy x))"
        using ih[OF h2(2)] \<open>deep\<close> c ev1 copy old_names[OF h ev1 _ copy] unfolding digs_def mine_def by simp
      then have "\<exists>k. nested h k ?copy" by (rule nested_names)
      moreover have inner: "region [] ?n h2 \<and> evolves [] ?n g1 h2"
        using ih[OF h2(2)] \<open>deep\<close> c valid_evolves[OF ev1 copy] by (simp add: keeps_region_def)
      have "\<exists>c. w = Ref c \<and> region [] ?n (js_set t name (Ref c) h2) \<and> evolves [] ?n g (js_set t name (Ref c) h2)"
        by (rule nested_region[OF g(1) mine t(2) 2(1) g1]) (rule inner)
      ultimately show ?thesis using h2(1) later[OF h2(3)] unfolding Cons by auto
    next
      case 3
      then have "\<exists>k. nested h k ?copy" by (intro exI[of _ 0]) simp
      moreover have "held_in [] ?n g ?copy" using 3 kind by (simp add: held_in_def)
      moreover from this have "\<forall>x \<in> set rest. good_name h v x \<longrightarrow> (\<exists>k. nested h k (get_of h v x))"
        using region_set[OF g(1) mine t(2) 3(1) valid_evolves[OF g(2) copy]] step 3 kind other later g(1)
        by (auto simp: cloneable_def split: if_splits)
      ultimately show ?thesis unfolding Cons by auto
    qed
  qed simp
qed

lemma body_both:
  assumes h: "region [] (length h) h"
    and ih: "\<And>deep t v names g r. f deep t v names g = Some r \<Longrightarrow> keeps_region [] (length h) deep t v names g r \<and> digs h deep t v names g r"
    and step: "extend_body f deep t v names g = Some r"
  shows "keeps_region [] (length h) deep t v names g r \<and> digs h deep t v names g r"
  using body_keeps_region[OF conjunct1[OF ih] step] body_digs[OF h ih step] ..

text \<open>
  C39. A deep copy of a plain object whose structures are not nested, because they contain each other in a cycle, does not
  return.
\<close>

theorem extend_cyclic:
  assumes "region [] (length h) h" "valid h v" "isPlainObject h v" "\<forall>k. \<not> nested h k v"
  shows "extend this [JBool True, Ref (length h), v] (h @ [new_object]) = None"
proof -
  let ?g = "h @ [new_object]"
  have "False" if run: "extend_names True (length h) v (names_in ?g v) ?g = Some r" for r
  proof -
    have "keeps_region [] (length h) True (length h) v (names_in ?g v) ?g r \<and> digs h True (length h) v (names_in ?g v) ?g r"
      by (rule extend_induct[OF _ run]) (rule body_both[OF assms(1)])
    moreover have "region [] (length h) ?g" "names_in ?g v = names_in h v"
      using region_alloc[OF assms(1)] old_names[OF assms(1) evolves_alloc _ assms(2)] by auto
    ultimately have "\<forall>x \<in> set (names_in h v). good_name h v x \<longrightarrow> (\<exists>k. nested h k (get_of h v x))"
      using assms(2) unfolding digs_def by simp
    then have "\<exists>k. nested h k v" by (rule nested_names)
    with assms(4) show False by blast
  qed
  moreover have "v \<noteq> JNull" "v \<noteq> Undef" using assms(3) by (auto simp: isPlainObject_def)
  ultimately have "extend_names True (length h) v (names_in ?g v) ?g = None" by (meson not_None_eq)
  then show ?thesis using \<open>v \<noteq> JNull\<close> \<open>v \<noteq> Undef\<close> by (simp add: extend_def arg_def)
qed


subsection \<open>A page\<close>

text \<open>
  Objects to try these on: the prototypes and \<open>Object\<close>, some options with options and a list in them, options made by
  \<open>JSON.parse\<close> that name \<open>__proto__\<close> and \<open>constructor\<close>, an object that holds itself, and a function.
\<close>

definition page :: heap where
  "page =
     [\<lparr>otag = ''Object'', oproto = None, oprops = [], ohidden = [(''constructor'', Ref 1), (''hasOwnProperty'', Ref 3)], ofunction = None\<rparr>,
      \<lparr>otag = ''Function'', oproto = Some 0, oprops = [], ohidden = [(''prototype'', Ref 0)], ofunction = Some ObjectFunctionString\<rparr>,
      \<lparr>otag = ''Array'', oproto = Some 0, oprops = [], ohidden = [(''constructor'', Ref 3)], ofunction = None\<rparr>,
      \<lparr>otag = ''Function'', oproto = Some 0, oprops = [], ohidden = [], ofunction = Some ''function() { [native code] }''\<rparr>,
      new_object\<lparr>oprops := [(''my'', JStr ''left''), (''within'', Ref 5), (''list'', Ref 6), (''using'', Ref 3), (''none'', Undef)]\<rparr>,
      new_object\<lparr>oprops := [(''x'', JNum 1)]\<rparr>,
      new_array\<lparr>oprops := [(''0'', Ref 5), (''1'', JNull)]\<rparr>,
      new_object\<lparr>oprops := [(''__proto__'', Ref 5), (''constructor'', Ref 8)]\<rparr>,
      new_object\<lparr>oprops := [(''prototype'', Ref 5)]\<rparr>]"

lemma page_region: "region [] (length page) page" "distinct_names page"
  by code_simp+


theorem extend_deep_copy_witness:
  "\<exists>h'. extend 0 [JBool True, Ref 9, Ref 4] (page @ [new_object]) = Some (h', 9) \<and> take 9 h' = page \<and> copied page h' 9 3 (Ref 4) (Ref 9)"
proof -
  have "length page = 9" "valid page (Ref 4)" "isPlainObject page (Ref 4)" "nested page 3 (Ref 4)" by code_simp+
  with extend_deep_copy[OF page_region, of "Ref 4" 3 0] show ?thesis by simp
qed

theorem extend_no_pollution_witness:
  "\<exists>h' r. extend 0 [JBool True, Ref 4, Ref 7] page = Some (h', r) \<and> r = 4 \<and> h' ! 0 = page ! 0 \<and> h' ! 8 = page ! 8"
proof -
  have "extend 0 [JBool True, Ref 4, Ref 7] page \<noteq> None" by code_simp
  then obtain h' r where run: "extend 0 [JBool True, Ref 4, Ref 7] page = Some (h', r)" by auto
  have "region [4, 5, 6] (length page) page" "list_all (valid page) [Ref 7]" "8 < length page" "4 < length page" by code_simp+
  with extend_no_pollution[of "[4, 5, 6]" page 4 "[Ref 7]" 0 h' r] run show ?thesis by auto
qed

definition knot :: heap where
  "knot = page @ [new_object\<lparr>oprops := [(''name'', JStr ''a''), (''self'', Ref 9)]\<rparr>]"

lemma knot_endless: "\<not> nested knot k (Ref 9)"
proof (induction k)
  case 0
  show ?case by code_simp
next
  case (Suc k)
  have "cloneable knot (Ref 9)" "copied_names knot (Ref 9) = [''name'', ''self'']" "get_of knot (Ref 9) ''self'' = Ref 9"
    by code_simp+
  with Suc show ?case by simp
qed

theorem extend_cyclic_witness: "extend 0 [JBool True, Ref 10, Ref 9] (knot @ [new_object]) = None"
proof -
  have "region [] (length knot) knot" "valid knot (Ref 9)" "isPlainObject knot (Ref 9)" "length knot = 10" by code_simp+
  with extend_cyclic[of knot "Ref 9" 0] knot_endless show ?thesis by simp
qed

subsection \<open>Extending options\<close>

text \<open>
  \<open>$.widget.extend\<close>. The call of \<open>hasOwnProperty\<close> finds what the object has under that name: the function of
  \<open>Object.prototype\<close> is at 3, another function is the parameter \<open>user_has\<close>, what is not a function throws.
\<close>

definition has_own :: "(nat \<Rightarrow> heap \<Rightarrow> nat \<Rightarrow> string \<Rightarrow> bool) \<Rightarrow> heap \<Rightarrow> jval \<Rightarrow> string \<Rightarrow> js_exn + bool" where
  "has_own user_has h v key =
     (case v of
        Ref a \<Rightarrow>
          (case js_get h a ''hasOwnProperty'' of
             Ref f \<Rightarrow> if f = 3 then Inr (own h a key \<noteq> None)
                      else if ofunction (h ! f) \<noteq> None then Inr (user_has f h a key) else Inl TypeError
           | _ \<Rightarrow> Inl TypeError)
      | _ \<Rightarrow> Inr True)"

text \<open>The two loops: the names left of an input, then the inputs left.\<close>

partial_function (option) widget_loop ::
  "(nat \<Rightarrow> heap \<Rightarrow> nat \<Rightarrow> string \<Rightarrow> bool) \<Rightarrow> nat \<Rightarrow> jval \<Rightarrow> string list \<Rightarrow> jval list \<Rightarrow> heap \<Rightarrow> heap jsr" where
  "widget_loop user_has t input keys inputs h =
     (case keys of
        [] \<Rightarrow> (case inputs of [] \<Rightarrow> Some (Inr h) | v # vs \<Rightarrow> widget_loop user_has t v (names_in h v) vs h)
      | key # rest \<Rightarrow>
          (let value = get_of h input key in
           case has_own user_has h input key of
             Inl e \<Rightarrow> Some (Inl e)
           | Inr has \<Rightarrow>
               if has \<and> value \<noteq> Undef
               then if isPlainObject h value
                    then Option.bind
                           (widget_loop user_has (length h) Undef []
                              (if isPlainObject h (js_get h t key) then [js_get h t key, value] else [value]) (h @ [new_object]))
                           (\<lambda>r. case r of
                                  Inl e \<Rightarrow> Some (Inl e)
                                | Inr h2 \<Rightarrow> widget_loop user_has t input rest inputs (js_set t key (Ref (length h)) h2))
                    else widget_loop user_has t input rest inputs (js_set t key value h)
               else widget_loop user_has t input rest inputs h))"

lemmas widget_loop_code [code] = widget_loop.simps[unfolded bind_case]

definition widget_extend :: "(nat \<Rightarrow> heap \<Rightarrow> nat \<Rightarrow> string \<Rightarrow> bool) \<Rightarrow> nat \<Rightarrow> jval list \<Rightarrow> heap \<Rightarrow> heap jsr" where
  "widget_extend user_has target input h = widget_loop user_has target Undef [] input h"


definition writes_only :: "nat \<Rightarrow> heap \<Rightarrow> heap \<Rightarrow> bool" where
  "writes_only t h h' \<longleftrightarrow> length h \<le> length h' \<and> (\<forall>a < length h. a \<noteq> t \<longrightarrow> h' ! a = h ! a)"

lemma writes_only_set: "writes_only t h g \<Longrightarrow> writes_only t h (js_set t key v g)"
  by (auto simp: writes_only_def js_set_def nth_list_update split: jval.split)

lemma writes_only_trans: "writes_only t h g \<Longrightarrow> writes_only t g k \<Longrightarrow> writes_only t h k"
  by (auto simp: writes_only_def dest: order_less_le_trans)

lemma writes_only_refl [simp]: "writes_only t h h"
  by (simp add: writes_only_def)

lemma writes_only_new: "writes_only (length h) (h @ [ob]) g \<Longrightarrow> writes_only t h g"
  by (auto simp: writes_only_def nth_append dest: order_less_le_trans)

lemma case_sum_Inr: "(case r of Inl e \<Rightarrow> Some (Inl e) | Inr x \<Rightarrow> g x) = Some (Inr y) \<longleftrightarrow> (\<exists>x. r = Inr x \<and> g x = Some (Inr y))"
  by (cases r) simp_all

lemma widget_loop_writes:
  assumes "widget_loop user_has t input keys inputs h = Some (Inr h')"
  shows "writes_only t h h'"
proof -
  let ?P = "\<lambda>user_has t input keys inputs h (r :: js_exn + heap). \<forall>h'. r = Inr h' \<longrightarrow> writes_only t h h'"
  have "?P user_has t input keys inputs h (Inr h')"
  proof (rule widget_loop.raw_induct[where P = ?P, OF _ assms], intro allI impI)
    fix f user_has t input keys inputs h r h'
    assume ih: "\<And>user_has t input keys inputs h r. f user_has t input keys inputs h = Some r \<Longrightarrow> ?P user_has t input keys inputs h r"
      and step: "(case keys of [] \<Rightarrow> (case inputs of [] \<Rightarrow> Some (Inr h) | v # vs \<Rightarrow> f user_has t v (names_in h v) vs h)
        | key # rest \<Rightarrow>
            let value = get_of h input key in
            case has_own user_has h input key of
              Inl e \<Rightarrow> Some (Inl e)
            | Inr has \<Rightarrow>
                if has \<and> value \<noteq> Undef
                then if isPlainObject h value
                     then Option.bind
                            (f user_has (length h) Undef []
                               (if isPlainObject h (js_get h t key) then [js_get h t key, value] else [value]) (h @ [new_object]))
                            (\<lambda>r. case r of
                                   Inl e \<Rightarrow> Some (Inl e)
                                 | Inr h2 \<Rightarrow> f user_has t input rest inputs (js_set t key (Ref (length h)) h2))
                     else f user_has t input rest inputs (js_set t key value h)
                else f user_has t input rest inputs h) = Some r" and r: "r = Inr h'"
    note ih = ih[rule_format, OF _ refl]
    have next_key: "writes_only t h h'" if "f user_has t input rest inputs (js_set t key v g) = Some (Inr h')" "writes_only t h g" for rest key v g
      using writes_only_trans[OF writes_only_set[OF that(2)] ih[OF that(1)]] .
    show "writes_only t h h'"
      using step ih next_key[of _ _ _ h] next_key[OF _ writes_only_new[OF ih]] writes_only_refl[of t h] unfolding r
      by (auto simp: Let_def bind_eq_Some_conv case_sum_Inr split: list.splits if_splits)
  qed
  then show ?thesis by simp
qed

text \<open>
  Extending options writes the target and no other object that was there: the objects in the target that are extended are
  copied first.
\<close>

theorem widget_extend_frame:
  assumes "widget_extend user_has target input h = Some (Inr h')"
  shows "length h \<le> length h' \<and> (\<forall>a < length h. a \<noteq> target \<longrightarrow> h' ! a = h ! a)"
  using widget_loop_writes assms by (fastforce simp: widget_extend_def writes_only_def)

theorem widget_extend_frame_witness:
  "\<exists>h'. widget_extend (\<lambda>f h a key. False) 4 [Ref 7] page = Some (Inr h') \<and> h' ! 0 = page ! 0 \<and> h' ! 5 = page ! 5"
proof -
  have "case widget_extend (\<lambda>f h a key. False) 4 [Ref 7] page of Some (Inr h') \<Rightarrow> True | _ \<Rightarrow> False" by code_simp
  then obtain h' where run: "widget_extend (\<lambda>f h a key. False) 4 [Ref 7] page = Some (Inr h')"
    by (auto split: option.splits sum.splits)
  have "length page = 9" by code_simp
  with widget_extend_frame[OF run] run show ?thesis by auto
qed

text \<open>
  A source with an own \<open>__proto__\<close>, as \<open>JSON.parse\<close> makes them, replaces the prototype of the target: \<open>extend\<close> of jQuery
  skips the name, this one does not.
\<close>

theorem widget_extend_proto:
  "case widget_extend (\<lambda>f h a key. False) 9 [Ref 7] (page @ [new_object]) of
     Some (Inr h') \<Rightarrow> js_get h' 9 ''x'' = JNum 1 \<and> own h' 9 ''x'' = None
   | _ \<Rightarrow> False"
  "case extend 0 [JBool True, Ref 9, Ref 7] (page @ [new_object]) of
     Some (h', t) \<Rightarrow> js_get h' 9 ''x'' = Undef
   | None \<Rightarrow> False"
  by code_simp+

end
