(* ===== verification/JQ_Regexp.thy ===== *)
theory JQ_Regexp
  imports JSBase "HOL-Library.Sublist"
begin

text \<open>
  The regular expressions that jQuery makes from the namespaces of events (\<open>jquery-3.5.1.js\<close>, in \<open>remove\<close> and in \<open>trigger\<close>): the part
  of the language that they need, with the matching of the language standard, by continuations. The names are put into
  the pattern as they are, so a name with a syntax character is a pattern of its own; what such a pattern matches,
  and whether it is one, is left to a parameter.
\<close>

subsection \<open>Matching\<close>

text \<open>Characters, the two assertions, \<open>.*\<close>, alternatives and sequences.\<close>

datatype regex = Lit char | Eps | Bol | Eol | AnyStar | Alt regex regex | Cat regex regex

definition line_terminator :: "char \<Rightarrow> bool" where
  "line_terminator c \<longleftrightarrow> c = CHR 0x0A \<or> c = CHR 0x0D"

text \<open>A position: whether it is the start of the text, and the text that follows.\<close>

fun any_star :: "(bool \<Rightarrow> string \<Rightarrow> bool) \<Rightarrow> bool \<Rightarrow> string \<Rightarrow> bool" where
  "any_star k b [] = k b []"
| "any_star k b (c # s) \<longleftrightarrow> (\<not> line_terminator c \<and> any_star k False s) \<or> k b (c # s)"

primrec re_match :: "regex \<Rightarrow> (bool \<Rightarrow> string \<Rightarrow> bool) \<Rightarrow> bool \<Rightarrow> string \<Rightarrow> bool" where
  "re_match (Lit x) k b s = (case s of [] \<Rightarrow> False | c # s' \<Rightarrow> c = x \<and> k False s')"
| "re_match Eps k b s = k b s"
| "re_match Bol k b s = (b \<and> k b s)"
| "re_match Eol k b s = (s = [] \<and> k b s)"
| "re_match AnyStar k b s = any_star k b s"
| "re_match (Alt r q) k b s = (re_match r k b s \<or> re_match q k b s)"
| "re_match (Cat r q) k b s = re_match r (re_match q k) b s"

fun re_search :: "regex \<Rightarrow> bool \<Rightarrow> string \<Rightarrow> bool" where
  "re_search r b [] = re_match r (\<lambda>b s. True) b []"
| "re_search r b (c # s) \<longleftrightarrow> re_match r (\<lambda>b s. True) b (c # s) \<or> re_search r False s"

text \<open>\<open>test\<close>.\<close>

definition re_test :: "regex \<Rightarrow> string \<Rightarrow> bool" where
  "re_test r s = re_search r True s"

subsection \<open>The pattern for namespaces\<close>

definition syntax_character :: "char \<Rightarrow> bool" where
  "syntax_character c \<longleftrightarrow> c \<in> set ''^$.*+?()[]{}|'' \<or> c = CHR 0x5C"

definition plain_name :: "string \<Rightarrow> bool" where
  "plain_name p \<longleftrightarrow> list_all (\<lambda>c. \<not> syntax_character c) p"

text \<open>The text that is passed to the constructor.\<close>

abbreviation backslash :: char where
  "backslash \<equiv> CHR 0x5C"

fun join_with :: "string \<Rightarrow> string list \<Rightarrow> string" where
  "join_with sep [] = []"
| "join_with sep [p] = p"
| "join_with sep (p # q # ps) = p @ sep @ join_with sep (q # ps)"

definition ns_pattern :: "string list \<Rightarrow> string" where
  "ns_pattern ns = ''(^|'' @ backslash # ''.)'' @ join_with (backslash # ''.(?:.*'' @ backslash # ''.|)'') ns @ ''('' @ backslash # ''.|$)''"

text \<open>What it denotes when every name stands for itself.\<close>

definition lits :: "string \<Rightarrow> regex" where
  "lits p = foldr (\<lambda>c. Cat (Lit c)) p Eps"

fun names_regex :: "string list \<Rightarrow> regex" where
  "names_regex [] = Alt (Lit CHR ''.'') Eol"
| "names_regex [p] = Cat (lits p) (Alt (Lit CHR ''.'') Eol)"
| "names_regex (p # q # ps) =
     Cat (lits p) (Cat (Lit CHR ''.'') (Cat (Alt (Cat AnyStar (Lit CHR ''.'')) Eps) (names_regex (q # ps))))"

definition ns_regex :: "string list \<Rightarrow> regex" where
  "ns_regex ns = Cat (Alt Bol (Lit CHR ''.'')) (names_regex ns)"

text \<open>
  \<open>new RegExp\<close> of the pattern: for names without syntax characters the expression above; otherwise the answer of the
  engine for the text, which may be that it is not a pattern.
\<close>

definition ns_regexp :: "(string \<Rightarrow> js_exn + (string \<Rightarrow> bool)) \<Rightarrow> string list \<Rightarrow> js_exn + (string \<Rightarrow> bool)" where
  "ns_regexp newRegExp ns = (if list_all plain_name ns then Inr (re_test (ns_regex ns)) else newRegExp (ns_pattern ns))"

subsection \<open>What the pattern finds\<close>

text \<open>Without expressions: the texts that follow the dots of a text, and the names at the start of a text with others between them.\<close>

definition cut_prefix :: "string \<Rightarrow> string \<Rightarrow> string option" where
  "cut_prefix p s = (if take (length p) s = p then Some (drop (length p) s) else None)"

fun dot_rests :: "string \<Rightarrow> string list" where
  "dot_rests [] = []"
| "dot_rests (c # s) = (if c = CHR ''.'' then s # dot_rests s else dot_rests s)"

fun ns_match :: "string list \<Rightarrow> string \<Rightarrow> bool" where
  "ns_match [] s \<longleftrightarrow> s = [] \<or> hd s = CHR ''.''"
| "ns_match [p] s = (case cut_prefix p s of None \<Rightarrow> False | Some r \<Rightarrow> r = [] \<or> hd r = CHR ''.'')"
| "ns_match (p # q # ps) s =
     (case cut_prefix p s of
        None \<Rightarrow> False
      | Some [] \<Rightarrow> False
      | Some (c # r) \<Rightarrow> c = CHR ''.'' \<and> list_ex (ns_match (q # ps)) (r # dot_rests r))"

definition ns_test :: "string list \<Rightarrow> string \<Rightarrow> bool" where
  "ns_test ns s = list_ex (ns_match ns) (s # dot_rests s)"

lemma cut_prefix_Cons:
  "cut_prefix (c # p) s = (case s of [] \<Rightarrow> None | x # s' \<Rightarrow> if x = c then cut_prefix p s' else None)"
  by (cases s) (auto simp: cut_prefix_def)

lemma cut_prefix_Nil [simp]: "cut_prefix [] s = Some s"
  by (simp add: cut_prefix_def)

lemma re_lits: "re_match (lits p) k b s = (case cut_prefix p s of None \<Rightarrow> False | Some r \<Rightarrow> k (b \<and> p = []) r)"
proof (induction p arbitrary: b s)
  case (Cons c p)
  show ?case
  proof (cases s)
    case (Cons x s')
    with Cons.IH[of False s'] show ?thesis by (simp add: lits_def cut_prefix_Cons split: option.split)
  qed (simp add: lits_def cut_prefix_Cons)
qed (simp add: lits_def)

lemma any_star_dot:
  assumes "list_all (\<lambda>c. \<not> line_terminator c) s" "\<And>b b' r. k b r = k b' r"
  shows "any_star (re_match (Lit CHR ''.'') k) b s \<longleftrightarrow> list_ex (k b) (dot_rests s)"
  using assms(1)
proof (induction s arbitrary: b)
  case (Cons c s)
  have k: "k b r = k False r" for r by (rule assms(2))
  have ext: "k b = k False" by (rule ext) (rule k)
  from Cons show ?case by (auto simp: ext)
qed simp

lemma dot_rests_terminators: "list_all (\<lambda>c. \<not> line_terminator c) s \<Longrightarrow> r \<in> set (dot_rests s) \<Longrightarrow> list_all (\<lambda>c. \<not> line_terminator c) r"
  by (induction s) (auto split: if_splits)

lemma cut_prefix_terminators: "list_all (\<lambda>c. \<not> line_terminator c) s \<Longrightarrow> cut_prefix p s = Some r \<Longrightarrow> list_all (\<lambda>c. \<not> line_terminator c) r"
  by (auto simp: cut_prefix_def list_all_iff split: if_splits dest: in_set_dropD)

lemma names_regex_match:
  "list_all (\<lambda>c. \<not> line_terminator c) s \<Longrightarrow> re_match (names_regex ns) (\<lambda>b s. True) b s = ns_match ns s"
proof (induction ns arbitrary: b s rule: names_regex.induct)
  case (3 p q ps)
  let ?k = "re_match (names_regex (q # ps)) (\<lambda>b s. True)"
  show ?case
  proof (cases "cut_prefix p s")
    case (Some r)
    show ?thesis
    proof (cases r)
      case (Cons c t)
      have t: "list_all (\<lambda>c. \<not> line_terminator c) t" using cut_prefix_terminators[OF "3.prems" Some] Cons by simp
      have "any_star (re_match (Lit CHR ''.'') ?k) False t = list_ex (ns_match (q # ps)) (dot_rests t)"
      proof -
        have "any_star (re_match (Lit CHR ''.'') k') False t = list_ex (k' False) (dot_rests t)"
          if "k' = (\<lambda>b r. list_all (\<lambda>c. \<not> line_terminator c) r \<and> ns_match (q # ps) r)" for k'
          using any_star_dot[OF t, of k' False] that by simp
        moreover have "any_star (re_match (Lit CHR ''.'') ?k) b u
            = any_star (re_match (Lit CHR ''.'') (\<lambda>b r. list_all (\<lambda>c. \<not> line_terminator c) r \<and> ns_match (q # ps) r)) b u"
          if "list_all (\<lambda>c. \<not> line_terminator c) u" for u b
          using that by (induction u arbitrary: b) (simp_all add: "3.IH")
        ultimately show ?thesis using t dot_rests_terminators[OF t] by (auto simp: list_ex_iff)
      qed
      with Some Cons t show ?thesis by (auto simp: re_lits "3.IH")
    qed (use Some in \<open>simp add: re_lits\<close>)
  qed (simp add: re_lits)
qed (auto simp: re_lits split: list.split option.split)

text \<open>On a text without line ends the pattern is the test for the names.\<close>

lemma ns_regex_test:
  assumes "list_all (\<lambda>c. \<not> line_terminator c) s"
  shows "re_test (ns_regex ns) s = ns_test ns s"
proof -
  have later: "list_all (\<lambda>c. \<not> line_terminator c) s \<Longrightarrow> re_search (ns_regex ns) False s = list_ex (ns_match ns) (dot_rests s)" for s
    by (induction s) (auto simp: ns_regex_def names_regex_match)
  show ?thesis
    using assms by (cases s) (auto simp: re_test_def ns_test_def later[unfolded ns_regex_def] ns_regex_def names_regex_match)
qed

end
