(* ===== verification/JQ_Event.thy ===== *)
theory JQ_Event
  imports JQ_Data JQ_Regexp "HOL-Library.List_Lexorder" "HOL-Library.Char_ord" "HOL-Library.Sublist" "HOL-Library.Multiset"
begin

text \<open>
  Events of jQuery (\<open>docs/javadoc/*/jquery/jquery-3.5.1.js\<close>): attaching, detaching, dispatching and triggering handlers.
  Elements and functions are numbers. What the functions do, the document, the selector engine and the table of special
  events are parameters; the table that jQuery comes with is one of its values. The hooks of special events for attaching
  and detaching are modelled with what they do (they may listen themselves, attach a handler of their own, or count the
  elements that need a listener on the document); the handler that they attach for native events, and the
  attaching in the hook for triggering, are not.
\<close>

subsection \<open>Types and namespaces\<close>

definition before_dot :: "string \<Rightarrow> string" where
  "before_dot tok = takeWhile (\<lambda>c. c \<noteq> CHR ''.'') tok"

definition after_dot :: "string \<Rightarrow> string" where
  "after_dot tok = drop 1 (dropWhile (\<lambda>c. c \<noteq> CHR ''.'') tok)"

text \<open>\<open>split\<close> and \<open>join\<close> at a dot.\<close>

fun split_dots :: "string \<Rightarrow> string list" where
  "split_dots [] = [[]]"
| "split_dots (c # s) =
     (if c = CHR ''.'' then [] # split_dots s
      else case split_dots s of [] \<Rightarrow> [[c]] | p # ps \<Rightarrow> (c # p) # ps)"

fun join_dots :: "string list \<Rightarrow> string" where
  "join_dots [] = []"
| "join_dots [p] = p"
| "join_dots (p # q # ps) = p @ CHR ''.'' # join_dots (q # ps)"

definition namespaces_of :: "string \<Rightarrow> string list" where
  "namespaces_of tok = sort (split_dots (after_dot tok))"

definition event_tokens :: "string \<Rightarrow> string list" where
  "event_tokens types = (case runs (\<lambda>c. \<not> html_space c) types of [] \<Rightarrow> [[]] | ts \<Rightarrow> ts)"

subsection \<open>State\<close>

record handle_obj =
  ho_type :: string
  ho_origType :: string
  ho_data :: "nat option"
  ho_handler :: nat
  ho_guid :: nat
  ho_selector :: "string option"
  ho_needsContext :: bool
  ho_namespace :: "string option"

text \<open>An object passed in place of a handler: the fields that it has replace those of the new one. The namespace may be \<open>false\<close>.\<close>

record handle_in =
  in_type :: "string option"
  in_origType :: "string option"
  in_data :: "nat option"
  in_handler :: nat
  in_guid :: "nat option"
  in_selector :: "string option"
  in_needsContext :: "bool option"
  in_namespace :: "string option option"

datatype handler_arg = Fn nat | HandleObj handle_in

text \<open>The handlers of a type: those with a selector in front, with their number.\<close>

record handler_list =
  hl_handlers :: "handle_obj list"
  delegateCount :: nat

record events =
  jq_guid :: nat
  fn_guid :: "nat \<Rightarrow> nat"
  ev_events :: "nat \<Rightarrow> (string \<times> handler_list) list option"
  ev_handle :: "nat \<Rightarrow> nat option"
  next_handle :: nat
  listeners :: "(nat \<times> string \<times> nat) list"
  captures :: "nat \<Rightarrow> string \<Rightarrow> nat"
  ev_global :: "string list"

text \<open>
  What a setup hook does for an element: whether it returns \<open>false\<close>, the function that it attaches by \<open>leverageNative\<close>, and whether
  it adds one to the count of elements for which the document listens. A teardown hook returns \<open>false\<close> or not, and takes one from the
  count or not.
\<close>

record setup_hook =
  su_false :: bool
  su_native :: "nat option"
  su_captures :: bool

record teardown_hook =
  td_false :: bool
  td_releases :: bool

record special =
  delegateType :: "string option"
  bindType :: "string option"
  sp_setup :: "(nat \<Rightarrow> setup_hook) option"
  sp_teardown :: "(nat \<Rightarrow> teardown_hook) option"
  sp_handle :: "nat option"
  sp_trigger :: "(nat \<Rightarrow> bool) option"
  sp_default :: "(nat \<Rightarrow> nat \<Rightarrow> bool) option"
  noBubble :: bool

text \<open>
  The document, the selector engine and the engine of regular expressions. The hooks for triggering and for the default action
  tell whether they return \<open>false\<close>.
\<close>

record ev_env =
  node_type :: "nat \<Rightarrow> nat option"
  has_listeners :: "nat \<Rightarrow> bool"
  parentNode :: "nat \<Rightarrow> nat option"
  node_count :: nat
  document :: nat
  ownerDocument :: "nat \<Rightarrow> nat"
  window :: nat
  has_method :: "nat \<Rightarrow> string \<Rightarrow> bool"
  is_disabled :: "nat \<Rightarrow> bool"
  selector_ok :: "string \<Rightarrow> bool"
  needs_context :: "string \<Rightarrow> bool"
  in_context :: "string \<Rightarrow> nat \<Rightarrow> nat \<Rightarrow> bool"
  is_match :: "string \<Rightarrow> nat \<Rightarrow> nat \<Rightarrow> bool"
  newRegExp :: "string \<Rightarrow> js_exn + (string \<Rightarrow> bool)"
  specials :: "string \<Rightarrow> special"

definition no_special :: special where
  "no_special = \<lparr>delegateType = None, bindType = None, sp_setup = None, sp_teardown = None, sp_handle = None, sp_trigger = None,
     sp_default = None, noBubble = False\<rparr>"

text \<open>
  The table that jQuery comes with. Parameters are which elements are checkable inputs, the functions that \<open>leverageNative\<close> makes, the
  functions that wrap the handlers of the mouse events, whether the click hook lets the default action happen, and whether the
  browser has \<open>focusin\<close>.
\<close>

record special_env =
  checkable :: "nat \<Rightarrow> bool"
  native_fn :: "nat \<Rightarrow> string \<Rightarrow> nat"
  enter_fn :: "string \<Rightarrow> nat"
  click_default :: "nat \<Rightarrow> bool"
  has_focusin :: bool

definition native_special :: "special_env \<Rightarrow> string \<Rightarrow> string option \<Rightarrow> special" where
  "native_special Q ty del = no_special\<lparr>
     sp_setup := Some (\<lambda>e. \<lparr>su_false = True, su_native = Some (native_fn Q e ty), su_captures = False\<rparr>),
     sp_trigger := Some (\<lambda>e. False), delegateType := del\<rparr>"

definition click_special :: "special_env \<Rightarrow> special" where
  "click_special Q = no_special\<lparr>
     sp_setup := Some (\<lambda>e. \<lparr>su_false = True, su_native = (if checkable Q e then Some (native_fn Q e ''click'') else None), su_captures = False\<rparr>),
     sp_trigger := Some (\<lambda>e. False), sp_default := Some (\<lambda>this target. click_default Q target)\<rparr>"

definition enter_special :: "special_env \<Rightarrow> string \<Rightarrow> string \<Rightarrow> special" where
  "enter_special Q orig fix = no_special\<lparr>delegateType := Some fix, bindType := Some fix, sp_handle := Some (enter_fn Q orig)\<rparr>"

definition focusin_special :: special where
  "focusin_special = no_special\<lparr>
     sp_setup := Some (\<lambda>e. \<lparr>su_false = False, su_native = None, su_captures = True\<rparr>),
     sp_teardown := Some (\<lambda>e. \<lparr>td_false = False, td_releases = True\<rparr>)\<rparr>"

definition jquery_specials :: "special_env \<Rightarrow> string \<Rightarrow> special" where
  "jquery_specials Q ty =
     (if ty = ''load'' then no_special\<lparr>noBubble := True\<rparr>
      else if ty = ''click'' then click_special Q
      else if ty = ''focus'' then native_special Q ty (Some ''focusin'')
      else if ty = ''blur'' then native_special Q ty (Some ''focusout'')
      else if ty = ''mouseenter'' then enter_special Q ty ''mouseover''
      else if ty = ''mouseleave'' then enter_special Q ty ''mouseout''
      else if ty = ''pointerenter'' then enter_special Q ty ''pointerover''
      else if ty = ''pointerleave'' then enter_special Q ty ''pointerout''
      else if (ty = ''focusin'' \<or> ty = ''focusout'') \<and> \<not> has_focusin Q then focusin_special
      else no_special)"

text \<open>A selector counts only when it is not empty.\<close>

definition has_selector :: "string option \<Rightarrow> bool" where
  "has_selector sel = (case sel of None \<Rightarrow> False | Some s \<Rightarrow> s \<noteq> [])"

definition mapped_type :: "ev_env \<Rightarrow> string option \<Rightarrow> string \<Rightarrow> string" where
  "mapped_type P sel ty =
     (case (if has_selector sel then delegateType (specials P ty) else bindType (specials P ty)) of
        Some t \<Rightarrow> if t \<noteq> [] then t else ty
      | None \<Rightarrow> ty)"

definition accepts_data :: "ev_env \<Rightarrow> nat \<Rightarrow> bool" where
  "accepts_data P elem = acceptData (\<lparr>nodeType = node_type P elem, slots = Map.empty\<rparr> :: unit owner)"

subsection \<open>Attaching\<close>

definition new_handle_obj ::
  "ev_env \<Rightarrow> string \<Rightarrow> nat option \<Rightarrow> nat \<Rightarrow> nat \<Rightarrow> string option \<Rightarrow> handle_in option \<Rightarrow> handle_obj" where
  "new_handle_obj P tok data handler guid sel given =
     (let ho = \<lparr>ho_type = mapped_type P sel (before_dot tok), ho_origType = before_dot tok, ho_data = data, ho_handler = handler,
                ho_guid = guid, ho_selector = sel, ho_needsContext = (has_selector sel \<and> needs_context P (the sel)),
                ho_namespace = Some (join_dots (namespaces_of tok))\<rparr>
      in case given of
           None \<Rightarrow> ho
         | Some i \<Rightarrow>
             \<lparr>ho_type = case_option (ho_type ho) id (in_type i), ho_origType = case_option (ho_origType ho) id (in_origType i),
              ho_data = case_option (ho_data ho) Some (in_data i), ho_handler = in_handler i,
              ho_guid = case_option (ho_guid ho) id (in_guid i), ho_selector = case_option (ho_selector ho) Some (in_selector i),
              ho_needsContext = case_option (ho_needsContext ho) id (in_needsContext i),
              ho_namespace = case_option (ho_namespace ho) id (in_namespace i)\<rparr>)"

definition listen :: "ev_env \<Rightarrow> nat \<Rightarrow> string \<Rightarrow> nat \<Rightarrow> events \<Rightarrow> events" where
  "listen P elem ty handle s =
     (if has_listeners P elem \<and> (elem, ty, handle) \<notin> set (listeners s) then s\<lparr>listeners := listeners s @ [(elem, ty, handle)]\<rparr> else s)"

text \<open>The handlers of a type in the table of an element.\<close>

definition hs_at :: "events \<Rightarrow> nat \<Rightarrow> string \<Rightarrow> handler_list option" where
  "hs_at s elem ty = Option.bind (ev_events s elem) (\<lambda>tab. map_of tab ty)"

definition handlers_for :: "nat \<Rightarrow> string \<Rightarrow> events \<Rightarrow> handler_list" where
  "handlers_for elem ty s = (case hs_at s elem ty of Some hs \<Rightarrow> hs | None \<Rightarrow> \<lparr>hl_handlers = [], delegateCount = 0\<rparr>)"

definition put_handlers :: "nat \<Rightarrow> string \<Rightarrow> handler_list \<Rightarrow> events \<Rightarrow> events" where
  "put_handlers elem ty hs s =
     (case ev_events s elem of
        None \<Rightarrow> s
      | Some tab \<Rightarrow> s\<lparr>ev_events := (ev_events s)(elem \<mapsto> AList.update ty hs tab)\<rparr>)"

definition insert_handler :: "string option \<Rightarrow> handle_obj \<Rightarrow> handler_list \<Rightarrow> handler_list" where
  "insert_handler sel ho hs =
     (if has_selector sel
      then \<lparr>hl_handlers = take (delegateCount hs) (hl_handlers hs) @ ho # drop (delegateCount hs) (hl_handlers hs),
            delegateCount = Suc (delegateCount hs)\<rparr>
      else hs\<lparr>hl_handlers := hl_handlers hs @ [ho]\<rparr>)"

text \<open>
  What \<open>leverageNative\<close> attaches: a new function with a number of its own, for all namespaces, to the type of the hook, which is not mapped
  to another one.
\<close>

definition native_obj :: "string \<Rightarrow> nat \<Rightarrow> nat \<Rightarrow> handle_obj" where
  "native_obj ty g guid =
     \<lparr>ho_type = ty, ho_origType = ty, ho_data = None, ho_handler = g, ho_guid = guid, ho_selector = None, ho_needsContext = False,
      ho_namespace = None\<rparr>"

definition add_native :: "nat \<Rightarrow> string \<Rightarrow> nat \<Rightarrow> events \<Rightarrow> events" where
  "add_native elem ty g s =
     (let s1 = s\<lparr>fn_guid := (fn_guid s)(g := jq_guid s), jq_guid := Suc (jq_guid s)\<rparr>;
          s2 = put_handlers elem ty (insert_handler None (native_obj ty g (jq_guid s)) (handlers_for elem ty s1)) s1
      in s2\<lparr>ev_global := ty # ev_global s2\<rparr>)"

definition run_setup :: "ev_env \<Rightarrow> nat \<Rightarrow> string \<Rightarrow> nat \<Rightarrow> events \<Rightarrow> events" where
  "run_setup P elem ty handle s =
     (case sp_setup (specials P ty) of
        None \<Rightarrow> listen P elem ty handle s
      | Some f \<Rightarrow>
          (let h = f elem;
               s1 = (case su_native h of None \<Rightarrow> s | Some g \<Rightarrow> add_native elem ty g s);
               doc = ownerDocument P elem;
               s2 = (if su_captures h then s1\<lparr>captures := (captures s1)(doc := (captures s1 doc)(ty := Suc (captures s1 doc ty)))\<rparr> else s1)
           in if su_false h then listen P elem ty handle s2 else s2))"

text \<open>One type: when it is the first of the type, the list is made and the setup hook runs.\<close>

definition add_one ::
  "ev_env \<Rightarrow> nat \<Rightarrow> nat option \<Rightarrow> nat \<Rightarrow> nat \<Rightarrow> string option \<Rightarrow> handle_in option \<Rightarrow> nat \<Rightarrow> string \<Rightarrow> events \<Rightarrow> events" where
  "add_one P elem data handler guid sel given handle tok s =
     (if before_dot tok = [] then s
      else let ty = mapped_type P sel (before_dot tok);
               s1 = (if hs_at s elem ty = None
                     then run_setup P elem ty handle (put_handlers elem ty \<lparr>hl_handlers = [], delegateCount = 0\<rparr> s) else s);
               s2 = put_handlers elem ty (insert_handler sel (new_handle_obj P tok data handler guid sel given) (handlers_for elem ty s1)) s1
           in s2\<lparr>ev_global := ty # ev_global s2\<rparr>)"

definition give_guid :: "nat \<Rightarrow> events \<Rightarrow> events" where
  "give_guid handler s =
     (if fn_guid s handler = 0 then s\<lparr>fn_guid := (fn_guid s)(handler := jq_guid s), jq_guid := Suc (jq_guid s)\<rparr> else s)"

definition init_events :: "nat \<Rightarrow> events \<Rightarrow> events" where
  "init_events elem s =
     (let s1 = (if ev_events s elem = None then s\<lparr>ev_events := (ev_events s)(elem \<mapsto> [])\<rparr> else s)
      in if ev_handle s1 elem = None
         then s1\<lparr>ev_handle := (ev_handle s1)(elem \<mapsto> next_handle s1), next_handle := Suc (next_handle s1)\<rparr> else s1)"

text \<open>\<open>jQuery.event.add\<close>.\<close>

definition event_add ::
  "ev_env \<Rightarrow> nat \<Rightarrow> string \<Rightarrow> handler_arg \<Rightarrow> nat option \<Rightarrow> string option \<Rightarrow> events \<Rightarrow> js_exn + events" where
  "event_add P elem types arg data selector s =
     (if \<not> accepts_data P elem then Inr s
      else let given = (case arg of Fn f \<Rightarrow> None | HandleObj i \<Rightarrow> Some i);
               handler = (case arg of Fn f \<Rightarrow> f | HandleObj i \<Rightarrow> in_handler i);
               sel = (case arg of Fn f \<Rightarrow> selector | HandleObj i \<Rightarrow> in_selector i)
           in if has_selector sel \<and> \<not> selector_ok P (the sel) then Inl (UserError ''Syntax error, unrecognized expression'')
              else let s1 = init_events elem (give_guid handler s)
                   in Inr (fold (add_one P elem data handler (fn_guid s1 handler) sel given (the (ev_handle s1 elem)))
                             (rev (event_tokens types)) s1))"


subsection \<open>Detaching\<close>

text \<open>The test of namespaces: everything passes when the type has none.\<close>

definition ns_filter :: "ev_env \<Rightarrow> string \<Rightarrow> js_exn + (string \<Rightarrow> bool)" where
  "ns_filter P tok = (if after_dot tok = [] then Inr (\<lambda>n. True) else ns_regexp (newRegExp P) (namespaces_of tok))"

text \<open>Whether a handler is to be removed. The test of a namespace that is \<open>false\<close> is on its text.\<close>

definition removes :: "(string \<Rightarrow> bool) \<Rightarrow> bool \<Rightarrow> string \<Rightarrow> nat option \<Rightarrow> string option \<Rightarrow> handle_obj \<Rightarrow> bool" where
  "removes test mapped tok guid sel ho \<longleftrightarrow>
     (mapped \<or> before_dot tok = ho_origType ho)
     \<and> (case guid of None \<Rightarrow> True | Some g \<Rightarrow> g \<noteq> 0 \<and> g = ho_guid ho)
     \<and> test (case ho_namespace ho of None \<Rightarrow> ''false'' | Some n \<Rightarrow> n)
     \<and> (\<not> has_selector sel \<or> sel = ho_selector ho \<or> sel = Some ''**'' \<and> has_selector (ho_selector ho))"

text \<open>The loop from the last handler to the first.\<close>

fun detach_loop :: "(handle_obj \<Rightarrow> bool) \<Rightarrow> nat \<Rightarrow> handler_list \<Rightarrow> handler_list" where
  "detach_loop test 0 hs = hs"
| "detach_loop test (Suc j) hs =
     detach_loop test j
       (if test (hl_handlers hs ! j)
        then \<lparr>hl_handlers = take j (hl_handlers hs) @ drop (Suc j) (hl_handlers hs),
              delegateCount = (if has_selector (ho_selector (hl_handlers hs ! j)) then delegateCount hs - 1 else delegateCount hs)\<rparr>
        else hs)"

definition unlisten :: "ev_env \<Rightarrow> nat \<Rightarrow> string \<Rightarrow> nat option \<Rightarrow> events \<Rightarrow> events" where
  "unlisten P elem ty handle s =
     (case handle of None \<Rightarrow> s
      | Some h \<Rightarrow> if has_listeners P elem then s\<lparr>listeners := removeAll (elem, ty, h) (listeners s)\<rparr> else s)"

definition drop_type :: "nat \<Rightarrow> string \<Rightarrow> events \<Rightarrow> events" where
  "drop_type elem ty s =
     (case ev_events s elem of None \<Rightarrow> s | Some tab \<Rightarrow> s\<lparr>ev_events := (ev_events s)(elem \<mapsto> AList.delete ty tab)\<rparr>)"

text \<open>The teardown hook is that of the type as it was asked for, not that of the type it is mapped to.\<close>

definition run_teardown :: "ev_env \<Rightarrow> nat \<Rightarrow> string \<Rightarrow> string \<Rightarrow> events \<Rightarrow> events" where
  "run_teardown P elem orig ty s =
     (case sp_teardown (specials P orig) of
        None \<Rightarrow> unlisten P elem ty (ev_handle s elem) s
      | Some f \<Rightarrow>
          (let h = f elem;
               doc = ownerDocument P elem;
               s1 = (if td_releases h then s\<lparr>captures := (captures s)(doc := (captures s doc)(orig := captures s doc orig - 1))\<rparr> else s)
           in if td_false h then unlisten P elem ty (ev_handle s1 elem) s1 else s1))"

definition remove_matching ::
  "ev_env \<Rightarrow> (string \<Rightarrow> bool) \<Rightarrow> nat \<Rightarrow> nat option \<Rightarrow> string option \<Rightarrow> bool \<Rightarrow> string \<Rightarrow> events \<Rightarrow> events" where
  "remove_matching P test elem guid sel mapped tok s =
     (let ty = mapped_type P sel (before_dot tok) in
      case hs_at s elem ty of
        None \<Rightarrow> s
      | Some hs \<Rightarrow>
          (let hs' = detach_loop (removes test mapped tok guid sel) (length (hl_handlers hs)) hs;
               s1 = put_handlers elem ty hs' s
           in if hl_handlers hs \<noteq> [] \<and> hl_handlers hs' = []
              then drop_type elem ty (run_teardown P elem (before_dot tok) ty s1)
              else s1))"

text \<open>The pattern is made before anything is removed, and may throw; what was done for other types before stays.\<close>

definition remove_typed ::
  "ev_env \<Rightarrow> nat \<Rightarrow> nat option \<Rightarrow> string option \<Rightarrow> bool \<Rightarrow> string \<Rightarrow> events \<Rightarrow> js_exn option \<times> events" where
  "remove_typed P elem guid sel mapped tok s =
     (case ns_filter P tok of
        Inl x \<Rightarrow> (Some x, s)
      | Inr test \<Rightarrow> (None, remove_matching P test elem guid sel mapped tok s))"

fun run_each :: "('x \<Rightarrow> events \<Rightarrow> js_exn option \<times> events) \<Rightarrow> 'x list \<Rightarrow> events \<Rightarrow> js_exn option \<times> events" where
  "run_each f [] s = (None, s)"
| "run_each f (x # xs) s = (case f x s of (None, s1) \<Rightarrow> run_each f xs s1 | (Some e, s1) \<Rightarrow> (Some e, s1))"

text \<open>The end of \<open>remove\<close>: without events the element needs no handle.\<close>

definition clean_events :: "nat \<Rightarrow> events \<Rightarrow> events" where
  "clean_events elem s =
     (if ev_events s elem = Some [] then s\<lparr>ev_events := (ev_events s)(elem := None), ev_handle := (ev_handle s)(elem := None)\<rparr> else s)"

text \<open>A token with no type stands for every type of the element, each removed by a call of its own.\<close>

definition cleaned :: "nat \<Rightarrow> js_exn option \<times> events \<Rightarrow> js_exn option \<times> events" where
  "cleaned elem r = (case r of (None, s) \<Rightarrow> (None, clean_events elem s) | (Some x, s) \<Rightarrow> (Some x, s))"

definition remove_token ::
  "ev_env \<Rightarrow> nat \<Rightarrow> nat option \<Rightarrow> string option \<Rightarrow> bool \<Rightarrow> string \<Rightarrow> events \<Rightarrow> js_exn option \<times> events" where
  "remove_token P elem guid sel mapped tok s =
     (if before_dot tok = []
      then run_each (\<lambda>ty s. cleaned elem (remove_typed P elem guid sel True (ty @ tok) s))
             (case ev_events s elem of None \<Rightarrow> [] | Some tab \<Rightarrow> map fst tab) s
      else remove_typed P elem guid sel mapped tok s)"

definition event_remove ::
  "ev_env \<Rightarrow> nat \<Rightarrow> string \<Rightarrow> nat option \<Rightarrow> string option \<Rightarrow> events \<Rightarrow> js_exn option \<times> events" where
  "event_remove P elem types handler selector s =
     (if ev_events s elem = None then (None, s)
      else cleaned elem
             (run_each (remove_token P elem (map_option (fn_guid s) handler) selector False) (rev (event_tokens types)) s))"

subsection \<open>Dispatching\<close>

datatype ret = RFalse | RVal nat

record event =
  e_type :: string
  e_target :: nat
  e_button :: int
  e_relatedTarget :: "nat option"
  e_result :: "ret option"
  isDefaultPrevented :: bool
  isPropagationStopped :: bool
  isImmediatePropagationStopped :: bool
  e_rnamespace :: "(string \<Rightarrow> bool) option"
  e_handleObj :: "handle_obj option"
  e_data :: "nat option"
  delegateTarget :: "nat option"
  currentTarget :: "nat option"
  isTrigger :: nat

definition preventDefault :: "event \<Rightarrow> event" where
  "preventDefault e = e\<lparr>isDefaultPrevented := True\<rparr>"

definition stopPropagation :: "event \<Rightarrow> event" where
  "stopPropagation e = e\<lparr>isPropagationStopped := True\<rparr>"

definition stopImmediatePropagation :: "event \<Rightarrow> event" where
  "stopImmediatePropagation e = stopPropagation (e\<lparr>isImmediatePropagationStopped := True\<rparr>)"

text \<open>
  The delegates that match a node. What a selector gives on the node is remembered, under the selector with a blank behind
  it.
\<close>

fun match_delegates :: "ev_env \<Rightarrow> nat \<Rightarrow> nat \<Rightarrow> (string \<times> bool) list \<Rightarrow> handle_obj list \<Rightarrow> handle_obj list" where
  "match_delegates P this cur memo [] = []"
| "match_delegates P this cur memo (ho # hos) =
     (let sel = (case ho_selector ho of None \<Rightarrow> ''undefined '' | Some s \<Rightarrow> s @ '' '');
          memo' = (case map_of memo sel of
                     Some b \<Rightarrow> memo
                   | None \<Rightarrow> (sel, if ho_needsContext ho then in_context P sel this cur else is_match P sel this cur) # memo)
      in if the (map_of memo' sel) then ho # match_delegates P this cur memo' hos else match_delegates P this cur memo' hos)"

text \<open>The nodes from the target up to the element that dispatches, which is not among them.\<close>

fun path_below :: "ev_env \<Rightarrow> nat \<Rightarrow> nat \<Rightarrow> nat \<Rightarrow> nat list" where
  "path_below P this 0 cur = []"
| "path_below P this (Suc k) cur =
     (if cur = this then [] else cur # (case parentNode P cur of None \<Rightarrow> [] | Some p \<Rightarrow> path_below P this k p))"

definition delegates_at :: "ev_env \<Rightarrow> nat \<Rightarrow> event \<Rightarrow> handle_obj list \<Rightarrow> nat \<Rightarrow> (nat \<times> handle_obj list) list" where
  "delegates_at P this e hos cur =
     (if node_type P cur = Some 1 \<and> \<not> (e_type e = ''click'' \<and> is_disabled P cur)
      then (case match_delegates P this cur [] hos of [] \<Rightarrow> [] | ms \<Rightarrow> [(cur, ms)])
      else [])"

definition event_handlers :: "ev_env \<Rightarrow> nat \<Rightarrow> event \<Rightarrow> handler_list \<Rightarrow> (nat \<times> handle_obj list) list" where
  "event_handlers P this e hs =
     (if delegateCount hs \<noteq> 0 \<and> node_type P (e_target e) \<noteq> None \<and> node_type P (e_target e) \<noteq> Some 0
         \<and> \<not> (e_type e = ''click'' \<and> 1 \<le> e_button e)
      then concat (map (delegates_at P this e (take (delegateCount hs) (hl_handlers hs)))
                     (path_below P this (node_count P) (e_target e)))
      else [])
     @ (if delegateCount hs < length (hl_handlers hs) then [(this, drop (delegateCount hs) (hl_handlers hs))] else [])"

text \<open>
  The functions that are called, with the element they are called on and the event: they return nothing or a value and
  may change the event and the world, or they throw.
\<close>

type_synonym 'w behaviour = "nat \<Rightarrow> nat \<Rightarrow> event \<Rightarrow> 'w \<Rightarrow> js_exn + (ret option \<times> event \<times> 'w)"

definition take_result :: "ret option \<Rightarrow> event \<Rightarrow> event" where
  "take_result r e =
     (case r of
        None \<Rightarrow> e
      | Some RFalse \<Rightarrow> stopPropagation (preventDefault (e\<lparr>e_result := r\<rparr>))
      | Some (RVal v) \<Rightarrow> e\<lparr>e_result := r\<rparr>)"

definition ns_admits :: "event \<Rightarrow> handle_obj \<Rightarrow> bool" where
  "ns_admits e ho =
     (case e_rnamespace e of None \<Rightarrow> True
      | Some test \<Rightarrow> (case ho_namespace ho of None \<Rightarrow> True | Some n \<Rightarrow> test n))"

fun run_handlers :: "ev_env \<Rightarrow> 'w behaviour \<Rightarrow> nat \<Rightarrow> handle_obj list \<Rightarrow> event \<Rightarrow> 'w \<Rightarrow> js_exn + (event \<times> 'w)" where
  "run_handlers P beh elem [] e w = Inr (e, w)"
| "run_handlers P beh elem (ho # hos) e w =
     (if isImmediatePropagationStopped e then Inr (e, w)
      else if ns_admits e ho
      then (case beh (case sp_handle (specials P (ho_origType ho)) of Some f \<Rightarrow> f | None \<Rightarrow> ho_handler ho) elem
                   (e\<lparr>e_handleObj := Some ho, e_data := ho_data ho\<rparr>) w of
              Inl x \<Rightarrow> Inl x
            | Inr (r, e1, w1) \<Rightarrow> run_handlers P beh elem hos (take_result r e1) w1)
      else run_handlers P beh elem hos e w)"

fun run_queue :: "ev_env \<Rightarrow> 'w behaviour \<Rightarrow> (nat \<times> handle_obj list) list \<Rightarrow> event \<Rightarrow> 'w \<Rightarrow> js_exn + (event \<times> 'w)" where
  "run_queue P beh [] e w = Inr (e, w)"
| "run_queue P beh ((elem, hos) # queue) e w =
     (if isPropagationStopped e then Inr (e, w)
      else case run_handlers P beh elem hos (e\<lparr>currentTarget := Some elem\<rparr>) w of
             Inl x \<Rightarrow> Inl x
           | Inr (e1, w1) \<Rightarrow> run_queue P beh queue e1 w1)"

text \<open>\<open>dispatch\<close>, on an element, with the part of the world that holds the events.\<close>

definition dispatch :: "ev_env \<Rightarrow> 'w behaviour \<Rightarrow> ('w \<Rightarrow> events) \<Rightarrow> nat \<Rightarrow> event \<Rightarrow> 'w \<Rightarrow> js_exn + (event \<times> 'w)" where
  "dispatch P beh evs elem e w =
     (let e1 = e\<lparr>delegateTarget := Some elem\<rparr>
      in run_queue P beh (event_handlers P elem e1 (handlers_for elem (e_type e1) (evs w))) e1 w)"


subsection \<open>Delegates are in front\<close>

text \<open>A list of handlers: those with a selector in front, counted; a list that is kept is not empty.\<close>

definition list_ok :: "handler_list \<Rightarrow> bool" where
  "list_ok hs \<longleftrightarrow>
     delegateCount hs \<le> length (hl_handlers hs)
     \<and> list_all (\<lambda>ho. has_selector (ho_selector ho)) (take (delegateCount hs) (hl_handlers hs))
     \<and> list_all (\<lambda>ho. \<not> has_selector (ho_selector ho)) (drop (delegateCount hs) (hl_handlers hs))"

definition delegates :: "handle_obj list \<Rightarrow> handle_obj list" where
  "delegates hos = filter (\<lambda>ho. has_selector (ho_selector ho)) hos"

definition directs :: "handle_obj list \<Rightarrow> handle_obj list" where
  "directs hos = filter (\<lambda>ho. \<not> has_selector (ho_selector ho)) hos"

text \<open>Such a list is determined by its delegates and its direct handlers.\<close>

lemma list_ok_iff:
  "list_ok hs \<longleftrightarrow> hl_handlers hs = delegates (hl_handlers hs) @ directs (hl_handlers hs)
     \<and> delegateCount hs = length (delegates (hl_handlers hs))"
proof
  assume ok: "list_ok hs"
  let ?t = "take (delegateCount hs) (hl_handlers hs)" and ?d = "drop (delegateCount hs) (hl_handlers hs)"
  have "delegates ?t = ?t" "directs ?t = []" "delegates ?d = []" "directs ?d = ?d"
    using ok by (auto simp: list_ok_def delegates_def directs_def list_all_iff filter_empty_conv)
  moreover have "delegates (?t @ ?d) = delegates ?t @ delegates ?d" "directs (?t @ ?d) = directs ?t @ directs ?d"
    by (simp_all only: delegates_def directs_def filter_append)
  ultimately have "delegates (hl_handlers hs) = ?t" "directs (hl_handlers hs) = ?d" by simp_all
  then show "hl_handlers hs = delegates (hl_handlers hs) @ directs (hl_handlers hs)
     \<and> delegateCount hs = length (delegates (hl_handlers hs))"
    using ok by (simp add: list_ok_def)
next
  assume "hl_handlers hs = delegates (hl_handlers hs) @ directs (hl_handlers hs) \<and> delegateCount hs = length (delegates (hl_handlers hs))"
  then obtain ds xs where l: "hl_handlers hs = ds @ xs" "delegateCount hs = length ds" "ds = delegates (hl_handlers hs)" "xs = directs (hl_handlers hs)"
    by blast
  then have "list_all (\<lambda>ho. has_selector (ho_selector ho)) ds" "list_all (\<lambda>ho. \<not> has_selector (ho_selector ho)) xs"
    by (auto simp: list_all_iff delegates_def directs_def)
  with l(1,2) show "list_ok hs" by (simp add: list_ok_def)
qed

lemma insert_handler_ok:
  assumes "list_ok hs" "has_selector (ho_selector ho) = has_selector sel"
  shows "list_ok (insert_handler sel ho hs)"
    "delegates (hl_handlers (insert_handler sel ho hs)) = delegates (hl_handlers hs) @ delegates [ho]"
    "directs (hl_handlers (insert_handler sel ho hs)) = directs (hl_handlers hs) @ directs [ho]"
proof -
  define ds xs where "ds = delegates (hl_handlers hs)" and "xs = directs (hl_handlers hs)"
  have hs: "hl_handlers hs = ds @ xs" "delegateCount hs = length ds"
    using assms(1) by (auto simp: list_ok_iff ds_def xs_def)
  have pure: "delegates ds = ds" "directs ds = []" "delegates xs = []" "directs xs = xs"
    by (auto simp: ds_def xs_def delegates_def directs_def filter_empty_conv)
  have app: "delegates (as @ bs) = delegates as @ delegates bs" "directs (as @ bs) = directs as @ directs bs" for as bs
    by (simp_all add: delegates_def directs_def)
  have ins: "hl_handlers (insert_handler sel ho hs) = (if has_selector sel then ds @ [ho] @ xs else ds @ xs @ [ho])"
    "delegateCount (insert_handler sel ho hs) = (if has_selector sel then Suc (length ds) else length ds)"
    using hs by (simp_all add: insert_handler_def)
  have one: "delegates [ho] = (if has_selector sel then [ho] else [])" "directs [ho] = (if has_selector sel then [] else [ho])"
    using assms(2) by (simp_all add: delegates_def directs_def)
  show del: "delegates (hl_handlers (insert_handler sel ho hs)) = delegates (hl_handlers hs) @ delegates [ho]"
    and dir: "directs (hl_handlers (insert_handler sel ho hs)) = directs (hl_handlers hs) @ directs [ho]"
    unfolding ins(1) hs(1) using pure one by (simp_all add: app del: append.simps)
  show "list_ok (insert_handler sel ho hs)"
    unfolding list_ok_iff del dir using ins hs pure one by (simp add: app)
qed

text \<open>The loop that removes handlers is a filter, and counts the delegates that stay.\<close>

lemma detach_loop_filter:
  "j \<le> length (hl_handlers hs) \<Longrightarrow>
   hl_handlers (detach_loop test j hs) = filter (\<lambda>ho. \<not> test ho) (take j (hl_handlers hs)) @ drop j (hl_handlers hs)
   \<and> delegateCount (detach_loop test j hs) = delegateCount hs - length (filter (\<lambda>ho. test ho \<and> has_selector (ho_selector ho)) (take j (hl_handlers hs)))"
proof (induction j arbitrary: hs)
  case (Suc j)
  let ?l = "hl_handlers hs"
  have j: "j < length ?l" using Suc.prems by simp
  have split: "take (Suc j) ?l = take j ?l @ [?l ! j]" using j by (simp add: take_Suc_conv_app_nth)
  show ?case
  proof (cases "test (?l ! j)")
    case True
    then show ?thesis
      using Suc.IH[of "\<lparr>hl_handlers = take j ?l @ drop (Suc j) ?l,
          delegateCount = (if has_selector (ho_selector (?l ! j)) then delegateCount hs - 1 else delegateCount hs)\<rparr>"] j
      by (simp add: split)
  next
    case False
    then show ?thesis using Suc.IH[of hs] j by (simp add: split Cons_nth_drop_Suc)
  qed
qed simp

lemma detach_loop_ok:
  assumes "list_ok hs"
  shows "hl_handlers (detach_loop test (length (hl_handlers hs)) hs) = filter (\<lambda>ho. \<not> test ho) (hl_handlers hs)"
    "list_ok (detach_loop test (length (hl_handlers hs)) hs)"
proof -
  let ?l = "hl_handlers hs"
  show hl: "hl_handlers (detach_loop test (length ?l) hs) = filter (\<lambda>ho. \<not> test ho) ?l"
    using detach_loop_filter[of "length ?l" hs test] by simp
  have hs: "?l = delegates ?l @ directs ?l" "delegateCount hs = length (delegates ?l)" using assms by (auto simp: list_ok_iff)
  have comm: "delegates (filter (\<lambda>ho. \<not> test ho) l) = filter (\<lambda>ho. \<not> test ho) (delegates l)"
    "directs (filter (\<lambda>ho. \<not> test ho) l) = filter (\<lambda>ho. \<not> test ho) (directs l)" for l
    by (simp_all add: delegates_def directs_def conj_commute)
  have "filter (\<lambda>ho. \<not> test ho) ?l = delegates (filter (\<lambda>ho. \<not> test ho) ?l) @ directs (filter (\<lambda>ho. \<not> test ho) ?l)"
    by (subst hs(1)) (simp add: comm)
  moreover have "delegateCount (detach_loop test (length ?l) hs) = length (delegates (filter (\<lambda>ho. \<not> test ho) ?l))"
    using detach_loop_filter[of "length ?l" hs test] hs(2) sum_length_filter_compl[of test "delegates ?l"]
    by (simp add: comm delegates_def conj_commute)
  ultimately show "list_ok (detach_loop test (length ?l) hs)" by (simp add: list_ok_iff hl)
qed


subsection \<open>The tables and the listeners\<close>

text \<open>Who listens: jQuery itself when there is no setup hook or it returns \<open>false\<close>, and it stops when the same holds of the teardown hook.\<close>

definition setup_listens :: "ev_env \<Rightarrow> nat \<Rightarrow> string \<Rightarrow> bool" where
  "setup_listens P elem ty = (case sp_setup (specials P ty) of None \<Rightarrow> True | Some f \<Rightarrow> su_false (f elem))"

definition teardown_unlistens :: "ev_env \<Rightarrow> nat \<Rightarrow> string \<Rightarrow> bool" where
  "teardown_unlistens P elem ty = (case sp_teardown (specials P ty) of None \<Rightarrow> True | Some f \<Rightarrow> td_false (f elem))"

definition setup_native :: "ev_env \<Rightarrow> nat \<Rightarrow> string \<Rightarrow> nat option" where
  "setup_native P elem ty = Option.bind (sp_setup (specials P ty)) (\<lambda>f. su_native (f elem))"

text \<open>Hooks that agree: where jQuery listens to a type, it stops when a type that is mapped to it is torn down.\<close>

definition hooks_agree :: "ev_env \<Rightarrow> bool" where
  "hooks_agree P \<longleftrightarrow> (\<forall>elem sel orig. setup_listens P elem (mapped_type P sel orig) \<longrightarrow> teardown_unlistens P elem orig)"

text \<open>The table that jQuery comes with has such hooks.\<close>

lemma jquery_specials_agree:
  assumes "specials P = jquery_specials Q"
  shows "hooks_agree P"
proof -
  have "teardown_unlistens P elem orig" if "setup_listens P elem (mapped_type P sel orig)" for elem sel orig
  proof (cases "(orig = ''focusin'' \<or> orig = ''focusout'') \<and> \<not> has_focusin Q")
    case True
    then have "specials P orig = focusin_special" by (auto simp: assms jquery_specials_def)
    then have "mapped_type P sel orig = orig" "\<not> setup_listens P elem orig"
      by (simp_all add: mapped_type_def setup_listens_def focusin_special_def no_special_def)
    with that show ?thesis by simp
  next
    case False
    then have "sp_teardown (specials P orig) = None"
      by (auto simp: assms jquery_specials_def no_special_def click_special_def native_special_def enter_special_def)
    then show ?thesis by (simp add: teardown_unlistens_def)
  qed
  then show ?thesis by (auto simp: hooks_agree_def)
qed

text \<open>
  What holds of the events between operations: the lists are in order and not empty, an element with a table has a handle,
  and an element listens, with its handle, to exactly the types in its table that jQuery listens to.
\<close>

definition events_ok :: "ev_env \<Rightarrow> events \<Rightarrow> bool" where
  "events_ok P s \<longleftrightarrow>
     (\<forall>elem ty hs. hs_at s elem ty = Some hs \<longrightarrow> list_ok hs \<and> hl_handlers hs \<noteq> [])
     \<and> (\<forall>elem. ev_events s elem = None \<longleftrightarrow> ev_handle s elem = None)
     \<and> (\<forall>elem ty h. (elem, ty, h) \<in> set (listeners s) \<longleftrightarrow>
          has_listeners P elem \<and> ev_handle s elem = Some h \<and> hs_at s elem ty \<noteq> None \<and> setup_listens P elem ty)"

lemma hs_at_events: "hs_at s e t = Some hs \<Longrightarrow> ev_events s e \<noteq> None"
  by (auto simp: hs_at_def bind_eq_Some_conv)

lemma hs_at_rest [simp]: "hs_at (s\<lparr>listeners := l\<rparr>) = hs_at s" "hs_at (s\<lparr>ev_global := g\<rparr>) = hs_at s" "hs_at (s\<lparr>captures := c\<rparr>) = hs_at s"
  "hs_at (s\<lparr>fn_guid := f, jq_guid := n\<rparr>) = hs_at s"
  by (simp_all add: hs_at_def fun_eq_iff)

lemma hs_at_put [simp]:
  "hs_at (put_handlers elem ty hs s) e t = (if e = elem \<and> t = ty \<and> ev_events s elem \<noteq> None then Some hs else hs_at s e t)"
  by (auto simp: hs_at_def put_handlers_def update_conv' split: option.split)

lemma hs_at_drop [simp]: "hs_at (drop_type elem ty s) e t = (if e = elem \<and> t = ty then None else hs_at s e t)"
  by (auto simp: hs_at_def drop_type_def delete_conv' split: option.split)

lemma hs_at_clean [simp]: "hs_at (clean_events elem s) e t = hs_at s e t"
  by (auto simp: hs_at_def clean_events_def)

lemma hs_at_init [simp]: "hs_at (init_events elem s) e t = hs_at s e t"
  by (auto simp: hs_at_def init_events_def Let_def)

lemma hs_at_guid [simp]: "hs_at (give_guid f s) e t = hs_at s e t"
  by (auto simp: hs_at_def give_guid_def)

lemma put_handlers_rest [simp]:
  "ev_handle (put_handlers elem ty hs s) = ev_handle s" "listeners (put_handlers elem ty hs s) = listeners s"
  "fn_guid (put_handlers elem ty hs s) = fn_guid s" "jq_guid (put_handlers elem ty hs s) = jq_guid s"
  "ev_events (put_handlers elem ty hs s) e = None \<longleftrightarrow> ev_events s e = None"
  by (auto simp: put_handlers_def split: option.split)

lemma drop_type_rest [simp]:
  "ev_handle (drop_type elem ty s) = ev_handle s" "listeners (drop_type elem ty s) = listeners s"
  "fn_guid (drop_type elem ty s) = fn_guid s" "jq_guid (drop_type elem ty s) = jq_guid s"
  "ev_events (drop_type elem ty s) e = None \<longleftrightarrow> ev_events s e = None"
  by (auto simp: drop_type_def split: option.split)

lemma listen_rest [simp]:
  "ev_handle (listen P elem ty h s) = ev_handle s" "ev_events (listen P elem ty h s) = ev_events s"
  "fn_guid (listen P elem ty h s) = fn_guid s" "jq_guid (listen P elem ty h s) = jq_guid s" "hs_at (listen P elem ty h s) = hs_at s"
  "set (listeners (listen P elem ty h s)) = set (listeners s) \<union> (if has_listeners P elem then {(elem, ty, h)} else {})"
  by (auto simp: listen_def)

lemma unlisten_rest [simp]:
  "ev_handle (unlisten P elem ty h s) = ev_handle s" "ev_events (unlisten P elem ty h s) = ev_events s"
  "fn_guid (unlisten P elem ty h s) = fn_guid s" "jq_guid (unlisten P elem ty h s) = jq_guid s" "hs_at (unlisten P elem ty h s) = hs_at s"
  "set (listeners (unlisten P elem ty h s)) = set (listeners s) - (if has_listeners P elem then {(elem, ty, x) | x. h = Some x} else {})"
  by (auto simp: unlisten_def split: option.splits)

lemma new_handle_obj_selector:
  "(given = None \<or> (\<exists>i. given = Some i \<and> sel = in_selector i)) \<Longrightarrow> ho_selector (new_handle_obj P tok data handler guid sel given) = sel"
  by (auto simp: new_handle_obj_def Let_def split: option.split)

text \<open>The list that a handler is added to: the one that is there, or a new one with what the setup hook attaches.\<close>

definition base_list :: "ev_env \<Rightarrow> nat \<Rightarrow> string \<Rightarrow> events \<Rightarrow> handler_list" where
  "base_list P elem ty s =
     (case hs_at s elem ty of
        Some hs \<Rightarrow> hs
      | None \<Rightarrow> (case setup_native P elem ty of
                   None \<Rightarrow> \<lparr>hl_handlers = [], delegateCount = 0\<rparr>
                 | Some g \<Rightarrow> insert_handler None (native_obj ty g (jq_guid s)) \<lparr>hl_handlers = [], delegateCount = 0\<rparr>))"

lemma run_setup_at:
  assumes "ev_events s elem \<noteq> None" "hs_at s elem ty = Some \<lparr>hl_handlers = [], delegateCount = 0\<rparr>"
  shows "hs_at (run_setup P elem ty handle s) e t =
    (if e = elem \<and> t = ty
     then Some (case setup_native P elem ty of None \<Rightarrow> \<lparr>hl_handlers = [], delegateCount = 0\<rparr>
                | Some g \<Rightarrow> insert_handler None (native_obj ty g (jq_guid s)) \<lparr>hl_handlers = [], delegateCount = 0\<rparr>)
     else hs_at s e t)"
  using assms
  by (auto simp: run_setup_def setup_native_def add_native_def handlers_for_def Let_def split: option.split)

lemma run_setup_rest [simp]:
  "ev_handle (run_setup P elem ty handle s) = ev_handle s"
  "ev_events (run_setup P elem ty handle s) e = None \<longleftrightarrow> ev_events s e = None"
  "set (listeners (run_setup P elem ty handle s)) =
     set (listeners s) \<union> (if setup_listens P elem ty \<and> has_listeners P elem then {(elem, ty, handle)} else {})"
  by (auto simp: run_setup_def setup_listens_def add_native_def Let_def split: option.split)

lemma run_setup_guid:
  "setup_native P elem ty = None \<Longrightarrow> fn_guid (run_setup P elem ty handle s) = fn_guid s \<and> jq_guid (run_setup P elem ty handle s) = jq_guid s"
  by (auto simp: run_setup_def setup_native_def Let_def split: option.split)

text \<open>The types and handlers of one step, and that it keeps the events in order.\<close>

lemma add_one_at:
  assumes "ev_events s elem \<noteq> None"
  shows "hs_at (add_one P elem data handler guid sel given handle tok s) e t =
    (if before_dot tok \<noteq> [] \<and> e = elem \<and> t = mapped_type P sel (before_dot tok)
     then Some (insert_handler sel (new_handle_obj P tok data handler guid sel given) (base_list P elem t s))
     else hs_at s e t)"
proof (cases "hs_at s elem (mapped_type P sel (before_dot tok))")
  case None
  let ?ty = "mapped_type P sel (before_dot tok)" and ?s = "put_handlers elem (mapped_type P sel (before_dot tok)) \<lparr>hl_handlers = [], delegateCount = 0\<rparr> s"
  have "ev_events ?s elem \<noteq> None" "hs_at ?s elem ?ty = Some \<lparr>hl_handlers = [], delegateCount = 0\<rparr>" using assms by simp_all
  from run_setup_at[OF this, of P handle] show ?thesis
    using None assms by (auto simp: add_one_def Let_def handlers_for_def base_list_def split: option.split)
qed (use assms in \<open>auto simp: add_one_def Let_def handlers_for_def base_list_def\<close>)

lemma add_one_rest [simp]:
  "ev_handle (add_one P elem data handler guid sel given handle tok s) = ev_handle s"
  "ev_events (add_one P elem data handler guid sel given handle tok s) e = None \<longleftrightarrow> ev_events s e = None"
  by (auto simp: add_one_def Let_def)

lemma add_one_guid:
  "setup_native P elem (mapped_type P sel (before_dot tok)) = None \<Longrightarrow>
   fn_guid (add_one P elem data handler guid sel given handle tok s) = fn_guid s"
  by (auto simp: add_one_def Let_def run_setup_guid)

lemma add_one_listeners:
  "set (listeners (add_one P elem data handler guid sel given handle tok s)) =
    set (listeners s) \<union>
      (if before_dot tok \<noteq> [] \<and> has_listeners P elem \<and> hs_at s elem (mapped_type P sel (before_dot tok)) = None
          \<and> setup_listens P elem (mapped_type P sel (before_dot tok))
       then {(elem, mapped_type P sel (before_dot tok), handle)} else {})"
  by (auto simp: add_one_def Let_def)

lemma list_ok_new [simp]: "list_ok \<lparr>hl_handlers = [], delegateCount = 0\<rparr>"
  by (simp add: list_ok_def)

lemma handlers_for_ok: "events_ok P s \<Longrightarrow> list_ok (handlers_for elem ty s)"
  by (auto simp: events_ok_def handlers_for_def split: option.split)

definition fits :: "string option \<Rightarrow> handle_in option \<Rightarrow> bool" where
  "fits sel given \<longleftrightarrow> (case given of None \<Rightarrow> True | Some i \<Rightarrow> sel = in_selector i)"

lemma fits_selector: "fits sel given \<Longrightarrow> ho_selector (new_handle_obj P tok data handler guid sel given) = sel"
  by (auto simp: fits_def new_handle_obj_def Let_def split: option.splits)

lemma base_list_ok: "events_ok P s \<Longrightarrow> list_ok (base_list P elem ty s)"
  by (auto simp: events_ok_def base_list_def native_obj_def has_selector_def intro!: insert_handler_ok(1) split: option.split)

lemma insert_handler_nonempty [simp]: "hl_handlers (insert_handler sel ho hs) \<noteq> []"
  by (simp add: insert_handler_def)

lemma add_one_ok:
  assumes ok: "events_ok P s" and h: "ev_handle s elem = Some handle" and fits: "fits sel given"
  shows "events_ok P (add_one P elem data handler guid sel given handle tok s)"
proof -
  let ?s = "add_one P elem data handler guid sel given handle tok s"
  have tab: "ev_events s elem \<noteq> None" using ok h by (simp add: events_ok_def)
  have lists: "list_ok hs \<and> hl_handlers hs \<noteq> []" if "hs_at ?s e t = Some hs" for e t hs
  proof (cases "before_dot tok \<noteq> [] \<and> e = elem \<and> t = mapped_type P sel (before_dot tok)")
    case True
    with that add_one_at[OF tab] insert_handler_ok(1)[OF base_list_ok[OF ok]] fits_selector[OF fits] show ?thesis by auto
  next
    case False
    with that add_one_at[OF tab] ok show ?thesis by (auto simp: events_ok_def)
  qed
  have "(e, t, k) \<in> set (listeners ?s) \<longleftrightarrow> has_listeners P e \<and> ev_handle ?s e = Some k \<and> hs_at ?s e t \<noteq> None \<and> setup_listens P e t" for e t k
    using ok h add_one_at[OF tab] add_one_listeners by (auto simp: events_ok_def)
  with lists show ?thesis using ok unfolding events_ok_def by simp
qed

lemma fold_add_ok:
  assumes "fits sel given"
  shows "events_ok P s \<Longrightarrow> ev_handle s elem = Some handle \<Longrightarrow> events_ok P (fold (add_one P elem data handler guid sel given handle) toks s)"
  by (induction toks arbitrary: s) (simp_all add: add_one_ok assms)

lemma init_events_ok:
  assumes "events_ok P s"
  shows "events_ok P (init_events elem (give_guid f s)) \<and> (\<exists>h. ev_handle (init_events elem (give_guid f s)) elem = Some h)"
proof -
  have same: "hs_at (init_events elem (give_guid f s)) = hs_at s" by (simp add: fun_eq_iff)
  have none: "(ev_events s elem = None) = (ev_handle s elem = None)" using assms by (simp add: events_ok_def)
  then have new: "hs_at s elem t = None" if "ev_handle s elem = None" for t
    using that by (simp add: hs_at_def)
  then show ?thesis
    using assms new unfolding events_ok_def same
    by (cases "ev_handle s elem") (auto simp: init_events_def give_guid_def Let_def)
qed

lemma event_add_ok:
  assumes "events_ok P s" "event_add P elem types arg data selector s = Inr s'"
  shows "events_ok P s'"
proof (cases "accepts_data P elem")
  case True
  let ?f = "case arg of Fn f \<Rightarrow> f | HandleObj i \<Rightarrow> in_handler i"
  let ?s = "init_events elem (give_guid ?f s)"
  obtain h where h: "ev_handle ?s elem = Some h" "events_ok P ?s" using init_events_ok[OF assms(1)] by blast
  have "fits (case arg of Fn f \<Rightarrow> selector | HandleObj i \<Rightarrow> in_selector i) (case arg of Fn f \<Rightarrow> None | HandleObj i \<Rightarrow> Some i)"
    by (simp add: fits_def split: handler_arg.split)
  from fold_add_ok[OF this h(2,1)] assms(2) True h(1) show ?thesis
    by (auto simp: event_add_def Let_def split: if_splits)
qed (use assms in \<open>simp add: event_add_def\<close>)


text \<open>Removing one type: what is left of its list, and nothing else changes.\<close>

definition after_removal :: "(handle_obj \<Rightarrow> bool) \<Rightarrow> handler_list \<Rightarrow> handler_list option" where
  "after_removal test hs =
     (let hs' = detach_loop test (length (hl_handlers hs)) hs in if hl_handlers hs' = [] then None else Some hs')"

lemma run_teardown_rest [simp]:
  "ev_handle (run_teardown P elem orig ty s) = ev_handle s" "ev_events (run_teardown P elem orig ty s) = ev_events s"
  "fn_guid (run_teardown P elem orig ty s) = fn_guid s" "jq_guid (run_teardown P elem orig ty s) = jq_guid s"
  "hs_at (run_teardown P elem orig ty s) = hs_at s"
  "set (listeners (run_teardown P elem orig ty s)) =
     set (listeners s) - (if teardown_unlistens P elem orig \<and> has_listeners P elem then {(elem, ty, x) | x. ev_handle s elem = Some x} else {})"
  by (auto simp: run_teardown_def teardown_unlistens_def Let_def split: option.split)

lemma remove_matching_at:
  assumes "events_ok P s"
  shows "hs_at (remove_matching P test elem guid sel mapped tok s) e t =
    (if e = elem \<and> t = mapped_type P sel (before_dot tok)
     then Option.bind (hs_at s elem t) (after_removal (removes test mapped tok guid sel)) else hs_at s e t)"
proof -
  have "ev_events s elem \<noteq> None" if "hs_at s elem t = Some hs" for t hs using that by (rule hs_at_events)
  moreover have "hl_handlers hs \<noteq> []" if "hs_at s elem t = Some hs" for t hs using assms that by (simp add: events_ok_def)
  ultimately show ?thesis
    by (auto simp: remove_matching_def Let_def after_removal_def split: option.split)
qed

lemma remove_matching_rest [simp]:
  "ev_handle (remove_matching P test elem guid sel mapped tok s) = ev_handle s"
  "fn_guid (remove_matching P test elem guid sel mapped tok s) = fn_guid s"
  "jq_guid (remove_matching P test elem guid sel mapped tok s) = jq_guid s"
  "ev_events (remove_matching P test elem guid sel mapped tok s) e = None \<longleftrightarrow> ev_events s e = None"
  by (auto simp: remove_matching_def Let_def split: option.split)

lemma remove_matching_listeners:
  assumes "hooks_agree P" "events_ok P s"
  shows "set (listeners (remove_matching P test elem guid sel mapped tok s)) =
    {(e, t, h) \<in> set (listeners s). hs_at (remove_matching P test elem guid sel mapped tok s) e t \<noteq> None}"
proof -
  have lis: "has_listeners P e \<and> ev_handle s e = Some h \<and> hs_at s e t \<noteq> None \<and> setup_listens P e t" if "(e, t, h) \<in> set (listeners s)" for e t h
    using assms(2) that by (simp add: events_ok_def)
  have "ev_events s elem \<noteq> None \<and> hl_handlers hs \<noteq> []" if "hs_at s elem t = Some hs" for t hs
    using assms(2) that hs_at_events[OF that] by (simp add: events_ok_def)
  moreover have "teardown_unlistens P elem (before_dot tok)" if "(elem, mapped_type P sel (before_dot tok), h) \<in> set (listeners s)" for h
    using lis[OF that] assms(1) unfolding hooks_agree_def by blast
  ultimately show ?thesis
    using lis unfolding remove_matching_def Let_def by (auto split: option.split)
qed

lemma remove_matching_ok:
  assumes ok: "events_ok P s" and P: "hooks_agree P"
  shows "events_ok P (remove_matching P test elem guid sel mapped tok s)"
proof -
  let ?s = "remove_matching P test elem guid sel mapped tok s"
  have sub: "hs_at ?s e t \<noteq> None \<Longrightarrow> hs_at s e t \<noteq> None" for e t
    using remove_matching_at[OF ok] by (cases "hs_at s e t") (auto split: if_splits)
  have "list_ok hs \<and> hl_handlers hs \<noteq> []" if "hs_at ?s e t = Some hs" for e t hs
  proof -
    have old: "list_ok hs'" if "hs_at s e t = Some hs'" for e t hs' using ok that by (simp add: events_ok_def)
    from that ok show ?thesis using detach_loop_ok(2)[OF old]
      unfolding remove_matching_at[OF ok] by (auto simp: events_ok_def bind_eq_Some_conv after_removal_def Let_def split: if_splits)
  qed
  moreover have "(e, t, k) \<in> set (listeners ?s) \<longleftrightarrow> has_listeners P e \<and> ev_handle ?s e = Some k \<and> hs_at ?s e t \<noteq> None \<and> setup_listens P e t" for e t k
    using remove_matching_listeners[OF P ok, of test elem guid sel mapped tok] sub[of e t] ok by (auto simp: events_ok_def)
  ultimately show ?thesis using ok unfolding events_ok_def by simp
qed

lemma clean_events_ok: "events_ok P s \<Longrightarrow> events_ok P (clean_events elem s)"
  unfolding events_ok_def hs_at_clean by (auto simp: clean_events_def hs_at_def)

lemma run_each_ok:
  assumes "\<And>x s. events_ok P s \<Longrightarrow> events_ok P (snd (f x s))"
  shows "events_ok P s \<Longrightarrow> events_ok P (snd (run_each f xs s))"
proof (induction xs arbitrary: s)
  case (Cons x xs)
  obtain r s1 where f: "f x s = (r, s1)" by (cases "f x s")
  with assms[OF Cons.prems, of x] have "events_ok P s1" by simp
  with f Cons.IH show ?case by (cases r) simp_all
qed simp

lemma cleaned_ok: "events_ok P (snd r) \<Longrightarrow> events_ok P (snd (cleaned elem r))"
  by (auto simp: cleaned_def clean_events_ok split: prod.split option.split)

lemma remove_typed_ok: "events_ok P s \<Longrightarrow> hooks_agree P \<Longrightarrow> events_ok P (snd (remove_typed P elem guid sel mapped tok s))"
  by (simp add: remove_typed_def remove_matching_ok split: sum.split)

lemma remove_token_ok: "events_ok P s \<Longrightarrow> hooks_agree P \<Longrightarrow> events_ok P (snd (remove_token P elem guid sel mapped tok s))"
  by (simp add: remove_token_def run_each_ok cleaned_ok remove_typed_ok)

lemma event_remove_ok: "events_ok P s \<Longrightarrow> hooks_agree P \<Longrightarrow> events_ok P (snd (event_remove P elem types handler selector s))"
  by (simp add: event_remove_def cleaned_ok run_each_ok remove_token_ok)


subsection \<open>What is removed\<close>

definition hl_at :: "events \<Rightarrow> nat \<Rightarrow> string \<Rightarrow> handle_obj list" where
  "hl_at s elem ty = hl_handlers (handlers_for elem ty s)"

lemma hl_at_clean [simp]: "hl_at (clean_events elem s) = hl_at s"
  by (simp add: hl_at_def handlers_for_def fun_eq_iff)

lemma hl_at_empty: "hs_at s e t = None \<Longrightarrow> hl_at s e t = []"
  by (simp add: hl_at_def handlers_for_def)

lemma hl_at_iff: "events_ok P s \<Longrightarrow> hs_at s e t \<noteq> None \<longleftrightarrow> hl_at s e t \<noteq> []"
  by (cases "hs_at s e t") (auto simp: events_ok_def hl_at_def handlers_for_def)

text \<open>A step that removes from one element the handlers that satisfy a condition, and keeps the events in order.\<close>

definition strips :: "ev_env \<Rightarrow> nat \<Rightarrow> (string \<Rightarrow> handle_obj \<Rightarrow> bool) \<Rightarrow> events \<Rightarrow> events \<Rightarrow> bool" where
  "strips P elem del s s' \<longleftrightarrow> events_ok P s' \<and> (\<forall>e t. hl_at s' e t = filter (\<lambda>ho. \<not> (e = elem \<and> del t ho)) (hl_at s e t))"

lemma strips_trans:
  "strips P elem del s s1 \<Longrightarrow> strips P elem del' s1 s2 \<Longrightarrow> strips P elem (\<lambda>t ho. del t ho \<or> del' t ho) s s2"
  by (auto simp: strips_def intro!: filter_cong)

lemma strips_clean: "strips P elem del s s' \<Longrightarrow> strips P elem del s (clean_events elem s')"
  by (simp add: strips_def clean_events_ok)

lemma strips_cong:
  assumes "strips P elem del s s'" "\<And>t ho. ho \<in> set (hl_at s elem t) \<Longrightarrow> del t ho = del' t ho"
  shows "strips P elem del' s s'"
  using assms by (auto simp: strips_def intro!: filter_cong)

lemma strips_sub: "events_ok P s \<Longrightarrow> strips P elem del s s' \<Longrightarrow> hs_at s' e t \<noteq> None \<Longrightarrow> hs_at s e t \<noteq> None"
  using hl_at_iff[of P s e t] hl_at_iff[of P s' e t] by (auto simp: strips_def)

lemma remove_matching_strips:
  assumes ok: "events_ok P s" and P: "hooks_agree P"
  shows "strips P elem (\<lambda>t ho. t = mapped_type P sel (before_dot tok) \<and> removes test mapped tok guid sel ho) s
    (remove_matching P test elem guid sel mapped tok s)"
proof -
  have "hl_at (remove_matching P test elem guid sel mapped tok s) e t =
    filter (\<lambda>ho. \<not> (e = elem \<and> t = mapped_type P sel (before_dot tok) \<and> removes test mapped tok guid sel ho)) (hl_at s e t)" for e t
  proof (cases "e = elem \<and> t = mapped_type P sel (before_dot tok)")
    case True
    show ?thesis
    proof (cases "hs_at s e t")
      case (Some hs)
      with ok have "list_ok hs" by (simp add: events_ok_def)
      with Some True detach_loop_ok(1)[OF this] show ?thesis
        by (simp add: hl_at_def handlers_for_def remove_matching_at[OF ok] after_removal_def Let_def)
    qed (use True in \<open>simp add: hl_at_def handlers_for_def remove_matching_at[OF ok]\<close>)
  qed (auto simp: hl_at_def handlers_for_def remove_matching_at[OF ok])
  with remove_matching_ok[OF ok P] show ?thesis by (simp add: strips_def)
qed

lemma run_each_strips:
  assumes "\<And>x s. x \<in> set xs \<Longrightarrow> events_ok P s \<Longrightarrow> I s \<Longrightarrow> \<exists>s'. f x s = (None, s') \<and> strips P elem (del x) s s'"
    and "\<And>s s' del. events_ok P s \<Longrightarrow> I s \<Longrightarrow> strips P elem del s s' \<Longrightarrow> I s'"
  shows "events_ok P s \<Longrightarrow> I s \<Longrightarrow> \<exists>s'. run_each f xs s = (None, s') \<and> strips P elem (\<lambda>t ho. \<exists>x \<in> set xs. del x t ho) s s'"
  using assms(1)
proof (induction xs arbitrary: s)
  case (Cons x xs)
  from Cons.prems(3)[of x s] Cons.prems(1,2) obtain s1 where s1: "f x s = (None, s1)" "strips P elem (del x) s s1" by auto
  have "events_ok P s1" using s1(2) by (simp add: strips_def)
  moreover have "I s1" using assms(2) Cons.prems(1,2) s1(2) by blast
  ultimately obtain s2 where s2: "run_each f xs s1 = (None, s2)" "strips P elem (\<lambda>t ho. \<exists>x \<in> set xs. del x t ho) s1 s2"
    using Cons.IH[of s1] Cons.prems(3) by auto
  from strips_trans[OF s1(2) s2(2)] s1(1) s2(1) show ?case by simp
qed (simp add: strips_def)

text \<open>The test that a type makes of the namespaces, when its pattern is one.\<close>

definition ns_ok :: "ev_env \<Rightarrow> string \<Rightarrow> bool" where
  "ns_ok P tok \<longleftrightarrow> (\<exists>test. ns_filter P tok = Inr test)"

definition test_of :: "ev_env \<Rightarrow> string \<Rightarrow> string \<Rightarrow> bool" where
  "test_of P tok = (case ns_filter P tok of Inl x \<Rightarrow> (\<lambda>n. False) | Inr test \<Rightarrow> test)"

lemma remove_typed_Inr: "ns_ok P tok \<Longrightarrow> remove_typed P elem guid sel mapped tok s = (None, remove_matching P (test_of P tok) elem guid sel mapped tok s)"
  by (auto simp: ns_ok_def test_of_def remove_typed_def)

text \<open>What a token of the types asks to remove from the handlers of a type.\<close>

definition token_removes :: "ev_env \<Rightarrow> nat option \<Rightarrow> string option \<Rightarrow> string \<Rightarrow> string \<Rightarrow> handle_obj \<Rightarrow> bool" where
  "token_removes P guid sel tok ty ho \<longleftrightarrow>
     (if before_dot tok = [] then removes (test_of P tok) True tok guid sel ho
      else mapped_type P sel (before_dot tok) = ty \<and> removes (test_of P tok) False tok guid sel ho)"

text \<open>Types that name themselves: no dot in them, and not mapped to others.\<close>

definition own_types :: "ev_env \<Rightarrow> string option \<Rightarrow> nat \<Rightarrow> events \<Rightarrow> bool" where
  "own_types P sel elem s \<longleftrightarrow> (\<forall>ty. hs_at s elem ty \<noteq> None \<longrightarrow> mapped_type P sel ty = ty \<and> CHR ''.'' \<notin> set ty)"

lemma before_dot_append: "CHR ''.'' \<notin> set ty \<Longrightarrow> before_dot tok = [] \<Longrightarrow> before_dot (ty @ tok) = ty"
  unfolding before_dot_def by (induction ty) auto

lemma after_dot_append: "CHR ''.'' \<notin> set ty \<Longrightarrow> after_dot (ty @ tok) = after_dot tok"
  unfolding after_dot_def by (induction ty) auto

lemma removes_append: "removes test True (ty @ tok) = removes test True tok"
  by (simp add: fun_eq_iff removes_def)

lemma ns_filter_append: "CHR ''.'' \<notin> set ty \<Longrightarrow> ns_filter P (ty @ tok) = ns_filter P tok"
  by (simp add: ns_filter_def after_dot_append namespaces_of_def)

lemma hs_at_keys: "hs_at s elem t \<noteq> None \<longleftrightarrow> t \<in> set (case ev_events s elem of None \<Rightarrow> [] | Some tab \<Rightarrow> map fst tab)"
  by (cases "ev_events s elem") (simp_all add: hs_at_def map_of_eq_None_iff)

lemma own_types_strips: "events_ok P s \<Longrightarrow> own_types P sel elem s \<Longrightarrow> strips P elem del s s' \<Longrightarrow> own_types P sel elem s'"
  unfolding own_types_def using strips_sub by blast

lemma remove_token_strips:
  assumes ok: "events_ok P s" and P: "hooks_agree P" and ns: "ns_ok P tok" and own: "before_dot tok = [] \<Longrightarrow> own_types P sel elem s"
  shows "\<exists>s'. remove_token P elem guid sel False tok s = (None, s') \<and> strips P elem (token_removes P guid sel tok) s s'"
proof (cases "before_dot tok = []")
  case False
  have "strips P elem (token_removes P guid sel tok) s (remove_matching P (test_of P tok) elem guid sel False tok s)"
    by (rule strips_cong[OF remove_matching_strips[OF ok P]]) (use False in \<open>auto simp: token_removes_def\<close>)
  with False ns show ?thesis by (simp add: remove_token_def remove_typed_Inr)
next
  case True
  let ?keys = "case ev_events s elem of None \<Rightarrow> [] | Some tab \<Rightarrow> map fst tab"
  let ?f = "\<lambda>ty s. cleaned elem (remove_typed P elem guid sel True (ty @ tok) s)"
  have keys: "mapped_type P sel ty = ty \<and> CHR ''.'' \<notin> set ty" if "ty \<in> set ?keys" for ty
    using own[OF True] that unfolding own_types_def hs_at_keys by blast
  have step: "\<exists>s'. ?f ty s = (None, s') \<and> strips P elem (\<lambda>t ho. t = ty \<and> removes (test_of P tok) True tok guid sel ho) s s'"
    if "ty \<in> set ?keys" "events_ok P s" for ty s
  proof -
    have "ns_ok P (ty @ tok)" "test_of P (ty @ tok) = test_of P tok" "before_dot (ty @ tok) = ty"
      using keys[OF that(1)] ns True by (simp_all add: ns_ok_def test_of_def ns_filter_append before_dot_append)
    with strips_clean[OF remove_matching_strips[OF that(2) P, of elem sel "ty @ tok" "test_of P tok" True guid]] keys[OF that(1)]
    show ?thesis by (simp add: cleaned_def remove_typed_Inr removes_append)
  qed
  have "\<exists>s'. run_each ?f ?keys s = (None, s')
      \<and> strips P elem (\<lambda>t ho. \<exists>ty \<in> set ?keys. t = ty \<and> removes (test_of P tok) True tok guid sel ho) s s'"
    by (rule run_each_strips[where I = "\<lambda>s. True" and del = "\<lambda>ty t ho. t = ty \<and> removes (test_of P tok) True tok guid sel ho"])
       (use step ok in auto)
  then obtain s' where
    s': "run_each ?f ?keys s = (None, s')" "strips P elem (\<lambda>t ho. \<exists>ty \<in> set ?keys. t = ty \<and> removes (test_of P tok) True tok guid sel ho) s s'"
    by blast
  have "strips P elem (token_removes P guid sel tok) s s'"
  proof (rule strips_cong[OF s'(2)])
    fix t ho assume "ho \<in> set (hl_at s elem t)"
    then have "t \<in> set ?keys" using hl_at_empty[of s elem t] hs_at_keys[of s elem t] by fastforce
    then show "(\<exists>ty \<in> set ?keys. t = ty \<and> removes (test_of P tok) True tok guid sel ho) = token_removes P guid sel tok t ho"
      using True by (auto simp: token_removes_def)
  qed
  with s'(1) True show ?thesis by (simp add: remove_token_def)
qed

lemma event_remove_strips:
  assumes ok: "events_ok P s" and P: "hooks_agree P" and ns: "list_all (ns_ok P) (event_tokens types)"
    and own: "own_types P sel elem s \<or> list_all (\<lambda>tok. before_dot tok \<noteq> []) (event_tokens types)"
  shows "\<exists>s'. event_remove P elem types handler sel s = (None, s')
    \<and> strips P elem (\<lambda>t ho. \<exists>tok \<in> set (event_tokens types). token_removes P (map_option (fn_guid s) handler) sel tok t ho) s s'"
proof (cases "ev_events s elem")
  case None
  then have "hl_at s elem t = []" for t by (simp add: hl_at_empty hs_at_def)
  then have "strips P elem del s s" for del using ok by (auto simp: strips_def filter_id_conv)
  with None show ?thesis by (simp add: event_remove_def)
next
  case (Some tab)
  let ?I = "\<lambda>s. own_types P sel elem s \<or> list_all (\<lambda>tok. before_dot tok \<noteq> []) (event_tokens types)"
  let ?g = "map_option (fn_guid s) handler"
  have step: "\<exists>s'. remove_token P elem ?g sel False tok s = (None, s') \<and> strips P elem (token_removes P ?g sel tok) s s'"
    if "tok \<in> set (rev (event_tokens types))" "events_ok P s" "?I s" for tok s
    using that ns by (intro remove_token_strips P) (auto simp: list_all_iff)
  have keep: "?I s'" if "events_ok P s" "?I s" "strips P elem del s s'" for s s' del
    using that own_types_strips by blast
  have "\<exists>s'. run_each (remove_token P elem ?g sel False) (rev (event_tokens types)) s = (None, s')
      \<and> strips P elem (\<lambda>t ho. \<exists>tok \<in> set (rev (event_tokens types)). token_removes P ?g sel tok t ho) s s'"
    by (rule run_each_strips[where I = ?I and del = "token_removes P ?g sel"]) (fact step, fact keep, fact ok, fact own)
  then obtain s' where
    "run_each (remove_token P elem ?g sel False) (rev (event_tokens types)) s = (None, s')"
    "strips P elem (\<lambda>t ho. \<exists>tok \<in> set (event_tokens types). token_removes P ?g sel tok t ho) s s'" by auto
  with Some strips_clean show ?thesis by (auto simp: event_remove_def cleaned_def)
qed

text \<open>Sequences of operations; when attaching throws nothing has changed, when detaching throws some types may be done.\<close>

datatype event_op = EventAdd nat string handler_arg "nat option" "string option" | EventRemove nat string "nat option" "string option"

fun event_step :: "ev_env \<Rightarrow> event_op \<Rightarrow> events \<Rightarrow> events" where
  "event_step P (EventAdd elem types arg data sel) s = (case event_add P elem types arg data sel s of Inl x \<Rightarrow> s | Inr s' \<Rightarrow> s')"
| "event_step P (EventRemove elem types handler sel) s = snd (event_remove P elem types handler sel s)"

definition no_events :: events where
  "no_events = \<lparr>jq_guid = 1, fn_guid = (\<lambda>f. 0), ev_events = (\<lambda>e. None), ev_handle = (\<lambda>e. None), next_handle = 0, listeners = [],
     captures = (\<lambda>d t. 0), ev_global = []\<rparr>"

text \<open>
  C23. Whatever is attached and detached, in whatever order and whether or not detaching throws: delegates stay in front of the other
  handlers and are counted, no empty list is kept, and an element listens to exactly the types that it has handlers for and
  that jQuery listens to itself, which are those whose setup hook, if there is one, returns \<open>false\<close>. The hooks have to agree, as they do
  in the table that jQuery comes with.
\<close>

theorem events_invariant:
  assumes "hooks_agree P"
  shows "events_ok P (fold (event_step P) ops no_events)"
proof -
  have step: "events_ok P (event_step P op s)" if "events_ok P s" for op s
    using that assms event_add_ok event_remove_ok by (cases op) (auto split: sum.split)
  have "events_ok P no_events" by (simp add: events_ok_def no_events_def hs_at_def)
  moreover have "events_ok P s \<Longrightarrow> events_ok P (fold (event_step P) ops s)" for s
    by (induction ops arbitrary: s) (simp_all add: step)
  ultimately show ?thesis by blast
qed


subsection \<open>Namespaces\<close>

definition dotless :: "string \<Rightarrow> bool" where
  "dotless s \<longleftrightarrow> CHR ''.'' \<notin> set s"

fun tails :: "'a list \<Rightarrow> 'a list list" where
  "tails [] = []"
| "tails (x # xs) = (x # xs) # tails xs"

lemma dot_rests_dotless: "dotless p \<Longrightarrow> dot_rests p = []"
  by (induction p) (auto simp: dotless_def)

lemma dot_rests_append: "dotless p \<Longrightarrow> dot_rests (p @ CHR ''.'' # r) = r # dot_rests r"
  by (induction p) (auto simp: dotless_def)

lemma join_tails: "hs \<noteq> [] \<Longrightarrow> list_all dotless hs \<Longrightarrow> join_dots hs # dot_rests (join_dots hs) = map join_dots (tails hs)"
proof (induction hs)
  case (Cons h hs)
  then show ?case by (cases hs) (simp_all add: dot_rests_dotless dot_rests_append)
qed simp

lemma cut_dotless:
  assumes "dotless p" "dotless h" "r = [] \<or> hd r = CHR ''.''"
  shows "(case cut_prefix p (h @ r) of None \<Rightarrow> False | Some r' \<Rightarrow> r' = [] \<or> hd r' = CHR ''.'') \<longleftrightarrow> p = h"
    "cut_prefix h (h @ r) = Some r"
proof -
  show self: "cut_prefix h (h @ r) = Some r" by (simp add: cut_prefix_def)
  have "p = h" if cut: "cut_prefix p (h @ r) = Some r'" and r': "r' = [] \<or> hd r' = CHR ''.''" for r'
  proof -
    from cut have "take (length p) (h @ r) = p" "r' = drop (length p) (h @ r)"
      unfolding cut_prefix_def by (metis option.distinct(1), metis option.distinct(1) option.inject)
    then have eq: "h @ r = p @ r'" by (metis append_take_drop_id)
    have "takeWhile (\<lambda>c. c \<noteq> CHR ''.'') (x @ y) = x" if "dotless x" "y = [] \<or> hd y = CHR ''.''" for x y
      using that by (subst takeWhile_append2) (auto simp: dotless_def takeWhile_eq_Nil_iff)
    from this[of h r] this[of p r'] assms r' eq show ?thesis by simp
  qed
  then show "(case cut_prefix p (h @ r) of None \<Rightarrow> False | Some r' \<Rightarrow> r' = [] \<or> hd r' = CHR ''.'') \<longleftrightarrow> p = h"
    using self assms(3) by (auto split: option.splits)
qed

lemma subseq_tails: "subseq (q # ps) hs \<longleftrightarrow> (\<exists>xs. q # xs \<in> set (tails hs) \<and> subseq ps xs)"
  by (induction hs) (auto dest: subseq_Cons')

lemma tails_dotless: "list_all dotless hs \<Longrightarrow> t \<in> set (tails hs) \<Longrightarrow> t \<noteq> [] \<and> list_all dotless t"
  by (induction hs) auto

lemma ns_match_join:
  "list_all dotless (p # ps) \<Longrightarrow> list_all dotless (h # hs) \<Longrightarrow> ns_match (p # ps) (join_dots (h # hs)) \<longleftrightarrow> p = h \<and> subseq ps hs"
proof (induction ps arbitrary: p h hs)
  case Nil
  then show ?case using cut_dotless(1)[of p h "case hs of [] \<Rightarrow> [] | x # xs \<Rightarrow> CHR ''.'' # join_dots hs"] by (cases hs) auto
next
  case (Cons q ps)
  show ?case
  proof (cases hs)
    case Nil
    then have "cut_prefix p h = Some (c # r) \<Longrightarrow> c \<noteq> CHR ''.''" for c r
      using cut_dotless(1)[of p h "[]"] Cons.prems by (auto simp: cut_prefix_def)
    then show ?thesis using Nil by (auto split: option.split list.split)
  next
    case (Cons h' hs')
    let ?r = "join_dots hs"
    have join: "join_dots (h # hs) = h @ CHR ''.'' # ?r" using Cons by simp
    have rest: "list_ex (ns_match (q # ps)) (?r # dot_rests ?r) \<longleftrightarrow> subseq (q # ps) hs"
    proof -
      have "list_ex (ns_match (q # ps)) (?r # dot_rests ?r) \<longleftrightarrow> (\<exists>t \<in> set (tails hs). ns_match (q # ps) (join_dots t))"
        using join_tails[of hs] Cons Cons.prems by (simp add: list_ex_iff)
      also have "\<dots> \<longleftrightarrow> (\<exists>x xs. x # xs \<in> set (tails hs) \<and> q = x \<and> subseq ps xs)"
      proof -
        have "ns_match (q # ps) (join_dots (x # xs)) \<longleftrightarrow> q = x \<and> subseq ps xs" if "x # xs \<in> set (tails hs)" for x xs
          using Cons.IH[of q x xs] Cons.prems tails_dotless[OF _ that] by simp
        moreover have "t \<noteq> []" if "t \<in> set (tails hs)" for t using tails_dotless[OF _ that] Cons.prems(2) by simp
        ultimately show ?thesis by (metis neq_Nil_conv)
      qed
      finally show ?thesis by (auto simp: subseq_tails)
    qed
    have "ns_match (p # q # ps) (join_dots (h # hs)) \<longleftrightarrow> p = h \<and> list_ex (ns_match (q # ps)) (?r # dot_rests ?r)"
      unfolding join using cut_dotless[of p h "CHR ''.'' # ?r"] Cons.prems by (auto split: option.splits list.splits)
    with rest show ?thesis by simp
  qed
qed


text \<open>The pattern of sorted names finds them in a sorted list of names when they are among them, with their repetitions.\<close>

lemma sorted_subseq:
  "sorted xs \<Longrightarrow> sorted ys \<Longrightarrow> mset xs \<subseteq># mset ys \<Longrightarrow> subseq xs ys" for xs ys :: "'a :: linorder list"
proof (induction ys arbitrary: xs)
  case (Cons y ys)
  show ?case
  proof (cases xs)
    case (Cons x xs')
    show ?thesis
    proof (cases "x = y")
      case True
      with Cons Cons.prems Cons.IH[of xs'] show ?thesis by simp
    next
      case False
      have "x \<in> set (y # ys)" using Cons.prems(3) Cons by (metis list.set_intros(1) mset_subset_eqD set_mset_mset)
      with False Cons.prems(2) have "y < x" by auto
      with Cons Cons.prems(1) have "y \<notin> set xs" by auto
      then have "mset xs - {#y#} = mset xs" by (simp add: diff_single_trivial)
      with Cons.prems(3) have "mset xs \<subseteq># mset ys" using subset_eq_diff_conv[of "mset xs" "{#y#}" "mset ys"] by simp
      with Cons.IH[of xs] Cons.prems show ?thesis by (auto intro: list_emb_Cons)
    qed
  qed simp
qed simp

lemma subseq_mset: "subseq xs ys \<Longrightarrow> mset xs \<subseteq># mset ys"
proof (induction rule: list_emb.induct)
  case (list_emb_Cons xs ys y)
  then show ?case by (metis add_mset_add_single mset.simps(2) mset_subset_eq_add_left subset_mset.order_trans)
qed auto

lemma ns_test_subseq:
  assumes "ns \<noteq> []" "list_all dotless ns" "list_all dotless hs" "hs \<noteq> []"
  shows "ns_test ns (join_dots hs) \<longleftrightarrow> subseq ns hs"
proof -
  obtain p ps where ns: "ns = p # ps" using assms(1) by (cases ns) auto
  have "ns_test ns (join_dots hs) \<longleftrightarrow> (\<exists>t \<in> set (tails hs). ns_match ns (join_dots t))"
    unfolding ns_test_def join_tails[OF assms(4,3)] by (simp add: list_ex_iff)
  also have "\<dots> \<longleftrightarrow> (\<exists>xs. p # xs \<in> set (tails hs) \<and> subseq ps xs)"
  proof -
    have "ns_match ns (join_dots (x # xs)) \<longleftrightarrow> p = x \<and> subseq ps xs" if "x # xs \<in> set (tails hs)" for x xs
      using ns_match_join[of p ps x xs] assms(2) ns tails_dotless[OF assms(3) that] by simp
    moreover have "t \<noteq> []" if "t \<in> set (tails hs)" for t using tails_dotless[OF assms(3) that] by simp
    ultimately show ?thesis by (metis neq_Nil_conv)
  qed
  finally show ?thesis by (simp add: ns subseq_tails)
qed


lemma split_dots_dotless: "list_all dotless (split_dots s) \<and> split_dots s \<noteq> []"
  by (induction s) (auto simp: dotless_def split: list.split)

lemma namespaces_dotless: "list_all dotless (namespaces_of tok)" "namespaces_of tok \<noteq> []"
  using split_dots_dotless[of "after_dot tok"] by (auto simp: namespaces_of_def list_all_iff) (metis length_0_conv length_sort)

text \<open>
  The pattern that is made from the namespaces of a type finds them in the stored namespace of a handler exactly when they
  are among those that the handler was attached with, in any order, whatever lies between them.
\<close>

theorem namespaces_superset:
  "ns_test (namespaces_of tok) (join_dots (namespaces_of tok')) \<longleftrightarrow>
   mset (split_dots (after_dot tok)) \<subseteq># mset (split_dots (after_dot tok'))"
proof -
  have "subseq (namespaces_of tok) (namespaces_of tok') \<longleftrightarrow> mset (namespaces_of tok) \<subseteq># mset (namespaces_of tok')"
    using sorted_subseq[of "namespaces_of tok" "namespaces_of tok'"] subseq_mset[of "namespaces_of tok" "namespaces_of tok'"]
    by (auto simp: namespaces_of_def)
  then show ?thesis
    using ns_test_subseq[OF namespaces_dotless(2,1,1,2), of tok tok'] by (simp add: namespaces_of_def)
qed


text \<open>The names of a handler. A handler for all namespaces has the text \<open>false\<close>.\<close>

definition ns_text :: "handle_obj \<Rightarrow> string" where
  "ns_text ho = (case ho_namespace ho of None \<Rightarrow> ''false'' | Some n \<Rightarrow> n)"

definition handler_names :: "handle_obj \<Rightarrow> string list" where
  "handler_names ho = split_dots (ns_text ho)"

text \<open>Names as they are stored for a handler that is attached as a function: in order, and without line ends.\<close>

definition stored_ok :: "handle_obj \<Rightarrow> bool" where
  "stored_ok ho \<longleftrightarrow> sorted (handler_names ho) \<and> list_all (\<lambda>c. \<not> line_terminator c) (ns_text ho)"

text \<open>Types whose namespaces have no syntax characters.\<close>

definition plain_types :: "string \<Rightarrow> bool" where
  "plain_types types \<longleftrightarrow> list_all (\<lambda>tok. list_all plain_name (split_dots (after_dot tok))) (event_tokens types)"

lemma join_split: "join_dots (split_dots s) = s"
proof (induction s)
  case (Cons c s)
  obtain p ps where ps: "split_dots s = p # ps" using split_dots_dotless[of s] by (cases "split_dots s") auto
  with Cons show ?case by (cases ps) (auto simp: ps)
qed simp

lemma split_join: "ns \<noteq> [] \<Longrightarrow> list_all dotless ns \<Longrightarrow> split_dots (join_dots ns) = ns"
proof (induction ns rule: join_dots.induct)
  case (2 p)
  then show ?case by (induction p) (auto simp: dotless_def)
next
  case (3 p q ps)
  have "split_dots (p @ CHR ''.'' # s) = p # split_dots s" if "dotless p" for p s
    using that by (induction p) (auto simp: dotless_def)
  with 3 show ?case by simp
qed simp

lemma plain_filter:
  assumes "list_all plain_name (split_dots (after_dot tok))"
  shows "ns_filter P tok = Inr (if after_dot tok = [] then (\<lambda>n. True) else re_test (ns_regex (namespaces_of tok)))"
proof -
  have "list_all plain_name (namespaces_of tok)" using assms by (simp add: namespaces_of_def list_all_iff)
  then show ?thesis by (simp add: ns_filter_def ns_regexp_def)
qed

lemma plain_ok: "plain_types types \<Longrightarrow> list_all (ns_ok P) (event_tokens types)"
  by (auto simp: plain_types_def list_all_iff ns_ok_def plain_filter)

lemma plain_test:
  assumes "list_all plain_name (split_dots (after_dot tok))" "stored_ok ho"
  shows "test_of P tok (ns_text ho) \<longleftrightarrow> after_dot tok = [] \<or> mset (split_dots (after_dot tok)) \<subseteq># mset (handler_names ho)"
proof (cases "after_dot tok = []")
  case False
  have "test_of P tok (ns_text ho) = ns_test (namespaces_of tok) (ns_text ho)"
    using False assms by (simp add: test_of_def plain_filter ns_regex_test stored_ok_def)
  also have "\<dots> \<longleftrightarrow> subseq (namespaces_of tok) (handler_names ho)"
    using ns_test_subseq[OF namespaces_dotless(2,1), of "handler_names ho" tok] split_dots_dotless[of "ns_text ho"]
    by (simp add: handler_names_def join_split)
  also have "\<dots> \<longleftrightarrow> mset (namespaces_of tok) \<subseteq># mset (handler_names ho)"
    using sorted_subseq[of "namespaces_of tok" "handler_names ho"] subseq_mset[of "namespaces_of tok" "handler_names ho"] assms(2)
    by (auto simp: stored_ok_def namespaces_of_def)
  finally show ?thesis using False by (simp add: namespaces_of_def)
qed (use assms in \<open>simp add: test_of_def plain_filter\<close>)

text \<open>
  What a type asks for: handlers of that type, or of any type when it has none, of the function if one is given, with at least the
  names of the type, and with the selector if one is given.
\<close>

definition asks_for :: "ev_env \<Rightarrow> nat option \<Rightarrow> string option \<Rightarrow> string \<Rightarrow> string \<Rightarrow> handle_obj \<Rightarrow> bool" where
  "asks_for P guid sel tok ty ho \<longleftrightarrow>
     (before_dot tok = [] \<or> mapped_type P sel (before_dot tok) = ty \<and> ho_origType ho = before_dot tok)
     \<and> (guid = None \<or> guid = Some (ho_guid ho) \<and> ho_guid ho \<noteq> 0)
     \<and> (after_dot tok = [] \<or> mset (split_dots (after_dot tok)) \<subseteq># mset (handler_names ho))
     \<and> (\<not> has_selector sel \<or> ho_selector ho = sel \<or> sel = Some ''**'' \<and> has_selector (ho_selector ho))"

lemma token_removes_asks:
  assumes "list_all plain_name (split_dots (after_dot tok))" "stored_ok ho"
  shows "token_removes P guid sel tok ty ho \<longleftrightarrow> asks_for P guid sel tok ty ho"
  using plain_test[OF assms, of P] unfolding token_removes_def removes_def asks_for_def ns_text_def[symmetric]
  by (auto split: option.split)

text \<open>
  C24. Detaching with namespaces that have no syntax characters of patterns returns, and removes exactly the handlers that one of the
  types asks for, with all of its namespaces among those of the handler, from the element it is called for; it leaves the others
  in their order. The names of the element's handlers are stored in order, as attaching a function does. When a type is left out, the
  types of the element must not be mapped to others.
\<close>

theorem event_remove_exact:
  assumes "events_ok P s" "hooks_agree P" "plain_types types"
    and "own_types P sel elem s \<or> list_all (\<lambda>tok. before_dot tok \<noteq> []) (event_tokens types)"
    and "\<forall>ty. \<forall>ho \<in> set (hl_handlers (handlers_for elem ty s)). stored_ok ho"
  shows "\<exists>s'. event_remove P elem types handler sel s = (None, s')
    \<and> (\<forall>e ty. hl_handlers (handlers_for e ty s') =
         filter (\<lambda>ho. \<not> (e = elem \<and> (\<exists>tok \<in> set (event_tokens types). asks_for P (map_option (fn_guid s) handler) sel tok ty ho)))
           (hl_handlers (handlers_for e ty s)))"
proof -
  let ?g = "map_option (fn_guid s) handler"
  from event_remove_strips[OF assms(1,2) plain_ok[OF assms(3)] assms(4), of handler] obtain s' where
    s': "event_remove P elem types handler sel s = (None, s')"
    "strips P elem (\<lambda>t ho. \<exists>tok \<in> set (event_tokens types). token_removes P ?g sel tok t ho) s s'" by blast
  have "strips P elem (\<lambda>t ho. \<exists>tok \<in> set (event_tokens types). asks_for P ?g sel tok t ho) s s'"
  proof (rule strips_cong[OF s'(2)])
    fix t ho assume "ho \<in> set (hl_at s elem t)"
    then have "stored_ok ho" using assms(5) by (simp add: hl_at_def)
    then show "(\<exists>tok \<in> set (event_tokens types). token_removes P ?g sel tok t ho) = (\<exists>tok \<in> set (event_tokens types). asks_for P ?g sel tok t ho)"
      using token_removes_asks assms(3) by (auto simp: plain_types_def list_all_iff)
  qed
  with s'(1) show ?thesis by (auto simp: strips_def hl_at_def)
qed

text \<open>Functions and the native handlers are attached with names in order.\<close>

lemma tokens_clean: "tok \<in> set (event_tokens types) \<Longrightarrow> c \<in> set tok \<Longrightarrow> \<not> html_space c"
  using runs_nonempty[of tok "\<lambda>c. \<not> html_space c" types] by (auto simp: event_tokens_def split: list.splits)

lemma split_dots_chars: "p \<in> set (split_dots r) \<Longrightarrow> c \<in> set p \<Longrightarrow> c \<in> set r"
proof (induction r arbitrary: p)
  case (Cons x r)
  then show ?case by (cases "split_dots r") (fastforce split: if_splits)+
qed simp

lemma join_dots_chars: "c \<in> set (join_dots ns) \<Longrightarrow> c = CHR ''.'' \<or> (\<exists>n \<in> set ns. c \<in> set n)"
  by (induction ns rule: join_dots.induct) auto

lemma stored_chars: "c \<in> set (join_dots (namespaces_of tok)) \<Longrightarrow> c = CHR ''.'' \<or> c \<in> set tok"
  using join_dots_chars[of c "namespaces_of tok"] split_dots_chars[of _ "after_dot tok" c]
  by (auto simp: namespaces_of_def after_dot_def dest!: in_set_dropD set_dropWhileD)

lemma new_handle_obj_names:
  "ns_text (new_handle_obj P tok data f g sel None) = join_dots (namespaces_of tok)"
  "handler_names (new_handle_obj P tok data f g sel None) = namespaces_of tok"
  using split_join[OF namespaces_dotless(2,1)] by (simp_all add: ns_text_def handler_names_def new_handle_obj_def)

lemma new_handle_obj_stored:
  assumes "\<forall>c \<in> set tok. \<not> html_space c"
  shows "stored_ok (new_handle_obj P tok data f g sel None)"
proof -
  have "\<not> line_terminator c" if "c \<in> set (join_dots (namespaces_of tok))" for c
    using stored_chars[OF that] assms by (auto simp: line_terminator_def html_space_def)
  then show ?thesis by (simp add: stored_ok_def new_handle_obj_names list_all_iff namespaces_of_def)
qed

lemma native_obj_stored: "stored_ok (native_obj ty g guid)"
  by (simp add: stored_ok_def handler_names_def ns_text_def native_obj_def line_terminator_def)

subsection \<open>Attaching and detaching again\<close>

lemma insert_handler_set: "set (hl_handlers (insert_handler sel ho hs)) = insert ho (set (hl_handlers hs))"
  by (auto simp: insert_handler_def dest: in_set_takeD in_set_dropD) (metis UnE append_take_drop_id set_append)

lemma insert_handler_filter:
  "\<not> p ho \<Longrightarrow> filter p (hl_handlers (insert_handler sel ho hs)) = filter p (hl_handlers hs)"
  by (simp add: insert_handler_def) (metis append_take_drop_id filter_append)

text \<open>What is attached under a new number can be told from what was there.\<close>

text \<open>Types for which the setup hook, if there is one, attaches nothing itself.\<close>

definition no_native :: "ev_env \<Rightarrow> nat \<Rightarrow> string option \<Rightarrow> string list \<Rightarrow> bool" where
  "no_native P elem sel toks \<longleftrightarrow> (\<forall>tok \<in> set toks. setup_native P elem (mapped_type P sel (before_dot tok)) = None)"

lemma base_list_plain: "setup_native P elem ty = None \<Longrightarrow> base_list P elem ty s = handlers_for elem ty s"
  by (simp add: base_list_def handlers_for_def split: option.split)

lemma fold_add_new:
  assumes "ev_events s elem \<noteq> None" "no_native P elem sel toks"
  shows "filter (\<lambda>ho. ho_guid ho \<noteq> g) (hl_at (fold (add_one P elem data f g sel None handle) toks s) e t) = filter (\<lambda>ho. ho_guid ho \<noteq> g) (hl_at s e t)
    \<and> (\<forall>ho \<in> set (hl_at (fold (add_one P elem data f g sel None handle) toks s) e t). ho \<in> set (hl_at s e t)
          \<or> e = elem \<and> (\<exists>tok \<in> set toks. before_dot tok \<noteq> [] \<and> t = mapped_type P sel (before_dot tok) \<and> ho = new_handle_obj P tok data f g sel None))"
  using assms
proof (induction toks arbitrary: s)
  case (Cons tok toks)
  let ?s = "add_one P elem data f g sel None handle tok s"
  have g: "ho_guid (new_handle_obj P tok data f g sel None) = g" by (simp add: new_handle_obj_def)
  have nn: "setup_native P elem (mapped_type P sel (before_dot tok)) = None" "no_native P elem sel toks"
    using Cons.prems(2) by (simp_all add: no_native_def)
  have hl: "hl_at ?s e t = (if before_dot tok \<noteq> [] \<and> e = elem \<and> t = mapped_type P sel (before_dot tok)
      then hl_handlers (insert_handler sel (new_handle_obj P tok data f g sel None) (handlers_for elem t s)) else hl_at s e t)"
    using add_one_at[OF Cons.prems(1), of P data f g sel None handle tok e t] base_list_plain[OF nn(1)] by (simp add: hl_at_def handlers_for_def)
  have "ev_events ?s elem \<noteq> None" using Cons.prems(1) by simp
  from Cons.IH[OF this nn(2)] show ?case
    using g by (auto simp: hl insert_handler_set insert_handler_filter hl_at_def[of s] split: if_splits)
qed simp

lemma new_handle_obj_removed:
  assumes "before_dot tok \<noteq> []" "g \<noteq> 0" "list_all plain_name (split_dots (after_dot tok))" "\<forall>c \<in> set tok. \<not> html_space c"
  shows "token_removes P (Some g) sel tok (mapped_type P sel (before_dot tok)) (new_handle_obj P tok data f g sel None)"
  unfolding token_removes_asks[OF assms(3) new_handle_obj_stored[OF assms(4)]] asks_for_def new_handle_obj_names
  using assms(1,2) by (simp add: new_handle_obj_def namespaces_of_def)

lemma fold_add_guid: "no_native P elem sel toks \<Longrightarrow> fn_guid (fold (add_one P elem data f g sel given h) toks s) = fn_guid s"
  by (induction toks arbitrary: s) (simp_all add: add_one_guid no_native_def)

lemma new_or_old:
  assumes "ho_guid ho \<noteq> g \<or> (e = elem \<and> (\<exists>tok \<in> set toks. before_dot tok \<noteq> [] \<and> t = mapped_type P sel (before_dot tok)
      \<and> ho = new_handle_obj P tok data f g sel None))" "g \<noteq> 0"
    and "\<forall>tok \<in> set toks. list_all plain_name (split_dots (after_dot tok)) \<and> (\<forall>c \<in> set tok. \<not> html_space c)"
  shows "(\<not> (e = elem \<and> (\<exists>tok \<in> set toks. token_removes P (Some g) sel tok t ho))) = (ho_guid ho \<noteq> g)"
proof (cases "ho_guid ho = g")
  case True
  with assms(1) obtain tok where "e = elem" "tok \<in> set toks" "before_dot tok \<noteq> []" "t = mapped_type P sel (before_dot tok)"
    "ho = new_handle_obj P tok data f g sel None" by blast
  with True new_handle_obj_removed[of tok g P sel data f] assms(2,3) show ?thesis by auto
qed (auto simp: token_removes_def removes_def)

lemma add_remove_strips:
  assumes ok1: "events_ok P s1" and P: "hooks_agree P" and new: "fn_guid s f = 0" "0 < jq_guid s"
    and unused: "\<forall>e t. \<forall>ho \<in> set (hl_at s e t). ho_guid ho \<noteq> jq_guid s"
    and typed: "list_all (\<lambda>tok. before_dot tok \<noteq> []) (event_tokens types)"
    and plain: "plain_types types" and nn: "no_native P elem sel (event_tokens types)"
    and add: "event_add P elem types (Fn f) data sel s = Inr s1"
  shows "\<exists>s2. event_remove P elem types (Some f) sel s1 = (None, s2) \<and> events_ok P s2 \<and> (\<forall>e t. hl_at s2 e t = hl_at s e t)"
proof -
  let ?toks = "event_tokens types"
  from event_remove_strips[OF ok1 P plain_ok[OF plain], of sel elem "Some f"] typed obtain s2 where
    s2: "event_remove P elem types (Some f) sel s1 = (None, s2)"
    "strips P elem (\<lambda>t ho. \<exists>tok \<in> set ?toks. token_removes P (Some (fn_guid s1 f)) sel tok t ho) s1 s2" by auto
  have "hl_at s2 e t = hl_at s e t" for e t
  proof (cases "accepts_data P elem")
    case True
    let ?g = "jq_guid s" and ?s0 = "init_events elem (give_guid f s)"
    let ?s1 = "fold (add_one P elem data f ?g sel None (the (ev_handle ?s0 elem))) (rev ?toks) ?s0"
    have g: "fn_guid ?s0 f = ?g" using new by (simp add: give_guid_def init_events_def Let_def)
    have s1: "s1 = ?s1" using add True g by (auto simp: event_add_def Let_def split: if_splits)
    have tab: "ev_events ?s0 elem \<noteq> None" by (simp add: init_events_def Let_def)
    have nn': "no_native P elem sel (rev ?toks)" using nn by (simp add: no_native_def)
    have g1: "fn_guid s1 f = ?g" using g fold_add_guid[OF nn'] by (simp add: s1)
    have hl0: "hl_at ?s0 e t = hl_at s e t" by (simp add: hl_at_def handlers_for_def)
    note added = fold_add_new[OF tab nn', of ?g data f "the (ev_handle ?s0 elem)" e t, folded s1, unfolded hl0]
    have "hl_at s2 e t = filter (\<lambda>ho. ho_guid ho \<noteq> ?g) (hl_at s1 e t)"
      unfolding s2(2)[unfolded strips_def, THEN conjunct2, rule_format] g1
    proof (rule filter_cong[OF refl])
      fix ho assume "ho \<in> set (hl_at s1 e t)"
      then have "ho_guid ho \<noteq> ?g \<or> (e = elem \<and> (\<exists>tok \<in> set ?toks. before_dot tok \<noteq> [] \<and> t = mapped_type P sel (before_dot tok)
          \<and> ho = new_handle_obj P tok data f ?g sel None))" using added unused by auto
      then show "(\<not> (e = elem \<and> (\<exists>tok \<in> set ?toks. token_removes P (Some ?g) sel tok t ho))) = (ho_guid ho \<noteq> ?g)"
        by (rule new_or_old) (use new plain tokens_clean in \<open>auto simp: plain_types_def list_all_iff\<close>)
    qed
    also have "\<dots> = hl_at s e t" using added unused by (simp add: filter_id_conv)
    finally show ?thesis .
  next
    case False
    with add have s1: "s1 = s" by (simp add: event_add_def)
    have "\<not> token_removes P (Some (fn_guid s1 f)) sel tok t ho" for tok ho using new(1) by (simp add: s1 token_removes_def removes_def)
    with s2(2) s1 show ?thesis by (simp add: strips_def)
  qed
  with s2 show ?thesis by (auto simp: strips_def)
qed

lemma listens_iff:
  "events_ok P s \<Longrightarrow> (\<exists>h. (e, t, h) \<in> set (listeners s)) \<longleftrightarrow> has_listeners P e \<and> hl_at s e t \<noteq> [] \<and> setup_listens P e t"
  using hs_at_events[of s e t] by (cases "hs_at s e t") (auto simp: events_ok_def hl_at_def handlers_for_def)

text \<open>
  C25. A function that is attached for the first time and detached with the same types and selector leaves the handlers of every element and
  type, and the types that elements listen to, as they were; detaching does not throw. The types have namespaces without syntax
  characters of patterns, and setup hooks that attach no handler of their own: in the table that jQuery comes with these are all
  types but focus and blur without a selector and, on checkable inputs, click.
\<close>

theorem event_add_remove:
  assumes "events_ok P s" "hooks_agree P" "fn_guid s f = 0" "0 < jq_guid s"
    and "\<forall>e t. \<forall>ho \<in> set (hl_handlers (handlers_for e t s)). ho_guid ho \<noteq> jq_guid s"
    and "list_all (\<lambda>tok. before_dot tok \<noteq> []) (event_tokens types)" "plain_types types" "no_native P elem sel (event_tokens types)"
    and "event_add P elem types (Fn f) data sel s = Inr s1"
  shows "\<exists>s2. event_remove P elem types (Some f) sel s1 = (None, s2)
    \<and> (\<forall>e t. hl_handlers (handlers_for e t s2) = hl_handlers (handlers_for e t s)
         \<and> ((\<exists>h. (e, t, h) \<in> set (listeners s2)) \<longleftrightarrow> (\<exists>h. (e, t, h) \<in> set (listeners s))))"
proof -
  have ok1: "events_ok P s1" using event_add_ok[OF assms(1,9)] .
  from add_remove_strips[OF ok1 assms(2,3,4) _ assms(6,7,8,9)] assms(5) obtain s2 where
    s2: "event_remove P elem types (Some f) sel s1 = (None, s2)" "events_ok P s2" "\<forall>e t. hl_at s2 e t = hl_at s e t"
    by (auto simp: hl_at_def)
  then show ?thesis using listens_iff[OF assms(1)] listens_iff[OF s2(2)] by (auto simp: hl_at_def)
qed


subsection \<open>The order of calls\<close>

definition selector_key :: "handle_obj \<Rightarrow> string" where
  "selector_key ho = (case ho_selector ho of None \<Rightarrow> ''undefined '' | Some s \<Rightarrow> s @ '' '')"

definition selector_hit :: "ev_env \<Rightarrow> nat \<Rightarrow> nat \<Rightarrow> handle_obj \<Rightarrow> bool" where
  "selector_hit P this cur ho =
     (if ho_needsContext ho then in_context P (selector_key ho) this cur else is_match P (selector_key ho) this cur)"

text \<open>Remembering what a selector gave changes nothing, when the handlers with one selector agree on what it needs.\<close>

lemma match_delegates_filter:
  assumes "\<And>a b. a \<in> set hos \<Longrightarrow> b \<in> set hos \<Longrightarrow> selector_key a = selector_key b \<Longrightarrow> ho_needsContext a = ho_needsContext b"
    and "\<And>k v ho. map_of memo k = Some v \<Longrightarrow> ho \<in> set hos \<Longrightarrow> selector_key ho = k \<Longrightarrow> v = selector_hit P this cur ho"
  shows "match_delegates P this cur memo hos = filter (selector_hit P this cur) hos"
  using assms
proof (induction hos arbitrary: memo)
  case (Cons ho hos)
  let ?k = "selector_key ho"
  define memo' where "memo' = (case map_of memo ?k of Some b \<Rightarrow> memo | None \<Rightarrow> (?k, selector_hit P this cur ho) # memo)"
  have hit: "map_of memo' ?k = Some (selector_hit P this cur ho)"
    using Cons.prems(2)[of ?k _ ho] by (cases "map_of memo ?k") (simp_all add: memo'_def)
  have "v = selector_hit P this cur x" if "map_of memo' k = Some v" "x \<in> set hos" "selector_key x = k" for k v x
  proof (cases "k = ?k")
    case True
    with that(2,3) Cons.prems(1)[of x ho] have "selector_hit P this cur x = selector_hit P this cur ho"
      by (simp add: selector_hit_def)
    with that(1) hit True show ?thesis by simp
  next
    case False
    with that(1) have "map_of memo k = Some v" by (cases "map_of memo ?k") (simp_all add: memo'_def)
    with Cons.prems(2)[of k v x] that(2,3) show ?thesis by simp
  qed
  moreover have "ho_needsContext a = ho_needsContext b" if "a \<in> set hos" "b \<in> set hos" "selector_key a = selector_key b" for a b
    using Cons.prems(1)[of a b] that by simp
  ultimately have rest: "match_delegates P this cur memo' hos = filter (selector_hit P this cur) hos"
    using Cons.IH[of memo'] by blast
  have "match_delegates P this cur memo (ho # hos) =
      (if the (map_of memo' ?k) then ho # match_delegates P this cur memo' hos else match_delegates P this cur memo' hos)"
    unfolding match_delegates.simps Let_def selector_key_def[symmetric] selector_hit_def[symmetric] memo'_def[symmetric] ..
  then show ?case by (simp add: hit rest)
qed simp

definition fn_of :: "ev_env \<Rightarrow> handle_obj \<Rightarrow> nat" where
  "fn_of P ho = (case sp_handle (specials P (ho_origType ho)) of Some f \<Rightarrow> f | None \<Rightarrow> ho_handler ho)"

definition calls_of :: "ev_env \<Rightarrow> event \<Rightarrow> (nat \<times> handle_obj list) list \<Rightarrow> (nat \<times> nat) list" where
  "calls_of P e queue = concat (map (\<lambda>(elem, hos). map (\<lambda>ho. (elem, fn_of P ho)) (filter (ns_admits e) hos)) queue)"

text \<open>The order that the code intends: from the target upwards the delegates that match, then the handlers of the element itself.\<close>

definition planned :: "ev_env \<Rightarrow> nat \<Rightarrow> event \<Rightarrow> handle_obj list \<Rightarrow> (nat \<times> nat) list" where
  "planned P this e hos =
     calls_of P e
       ((if node_type P (e_target e) \<noteq> None \<and> node_type P (e_target e) \<noteq> Some 0 \<and> \<not> (e_type e = ''click'' \<and> 1 \<le> e_button e)
         then map (\<lambda>n. (n, if node_type P n = Some 1 \<and> \<not> (e_type e = ''click'' \<and> is_disabled P n)
                           then filter (selector_hit P this n) (delegates hos) else []))
                (path_below P this (node_count P) (e_target e))
         else [])
        @ [(this, directs hos)])"

definition contexts_agree :: "handle_obj list \<Rightarrow> bool" where
  "contexts_agree hos \<longleftrightarrow> (\<forall>a \<in> set hos. \<forall>b \<in> set hos. selector_key a = selector_key b \<longrightarrow> ho_needsContext a = ho_needsContext b)"

lemma calls_of_simps [simp]:
  "calls_of P e [] = []"
  "calls_of P e ((n, hos) # qs) = map (\<lambda>ho. (n, fn_of P ho)) (filter (ns_admits e) hos) @ calls_of P e qs"
  "calls_of P e (qs @ rs) = calls_of P e qs @ calls_of P e rs"
  by (auto simp: calls_of_def)

lemma delegates_at_calls:
  assumes "match_delegates P this n [] hos = filter (selector_hit P this n) hos"
  shows "calls_of P e (delegates_at P this e hos n) =
    calls_of P e [(n, if node_type P n = Some 1 \<and> \<not> (e_type e = ''click'' \<and> is_disabled P n) then filter (selector_hit P this n) hos else [])]"
  by (cases "filter (selector_hit P this n) hos") (auto simp: delegates_at_def assms simp del: filter_filter)

lemma event_handlers_planned:
  assumes ok: "list_ok hs" and agree: "contexts_agree (hl_handlers hs)"
  shows "calls_of P e (event_handlers P this e hs) = planned P this e (hl_handlers hs)"
proof -
  define ds xs where "ds = delegates (hl_handlers hs)" and "xs = directs (hl_handlers hs)"
  have hs: "take (length ds) (hl_handlers hs) = ds" "drop (length ds) (hl_handlers hs) = xs" "delegateCount hs = length ds"
    using ok unfolding list_ok_iff ds_def xs_def by (metis append_eq_conv_conj)+
  let ?at = "\<lambda>n. (n, if node_type P n = Some 1 \<and> \<not> (e_type e = ''click'' \<and> is_disabled P n) then filter (selector_hit P this n) ds else [])"
  let ?ns = "path_below P this (node_count P) (e_target e)"
  have hit: "match_delegates P this n [] ds = filter (selector_hit P this n) ds" for n
    using agree by (intro match_delegates_filter) (auto simp: contexts_agree_def ds_def delegates_def)
  have path: "calls_of P e (concat (map (delegates_at P this e ds) ns)) = calls_of P e (map ?at ns)" for ns
    by (induction ns) (simp_all only: list.map concat.simps calls_of_simps delegates_at_calls[OF hit] append_Nil2)
  have none: "calls_of P e (map ?at ns) = []" if "ds = []" for ns
    using that by (induction ns) simp_all
  have direct: "calls_of P e (if length ds < length (hl_handlers hs) then [(this, xs)] else []) = calls_of P e [(this, xs)]"
    using hs(2) by auto
  have "calls_of P e (if length ds \<noteq> 0 \<and> A then concat (map (delegates_at P this e ds) ?ns) else []) = calls_of P e (if A then map ?at ?ns else [])" for A
    using path[of ?ns] none[of ?ns] by (cases "ds = []"; cases A) (simp_all only: list.size refl if_True if_False simp_thms length_0_conv calls_of_simps)
  then show ?thesis
    unfolding event_handlers_def planned_def hs calls_of_simps(3) direct ds_def[symmetric] xs_def[symmetric] by (simp only:)
qed


text \<open>
  A behaviour that writes down its calls: the element and the function, and whether the event was stopped, or stopped at
  once, when the call was made.
\<close>

type_synonym call_log = "((nat \<times> nat) \<times> bool \<times> bool) list"

definition logged :: "'w behaviour \<Rightarrow> ('w \<times> call_log) behaviour" where
  "logged beh f elem e w =
     (case beh f elem e (fst w) of
        Inl x \<Rightarrow> Inl x
      | Inr (r, e1, w1) \<Rightarrow> Inr (r, e1, (w1, snd w @ [((elem, f), isPropagationStopped e, isImmediatePropagationStopped e)])))"

text \<open>
  A log that heeds the stops: no call when the event was stopped at once, and a call with the event stopped is on the
  element of the call before it.
\<close>

definition heeds_stops :: "call_log \<Rightarrow> bool" where
  "heeds_stops made \<longleftrightarrow>
     list_all (\<lambda>c. \<not> snd (snd c)) made \<and> successively (\<lambda>c d. fst (snd d) \<longrightarrow> fst (fst d) = fst (fst c)) made
     \<and> (made \<noteq> [] \<longrightarrow> \<not> fst (snd (hd made)))"

definition keeps_namespace :: "'w behaviour \<Rightarrow> bool" where
  "keeps_namespace beh \<longleftrightarrow> (\<forall>f elem e w r e1 w1. beh f elem e w = Inr (r, e1, w1) \<longrightarrow> e_rnamespace e1 = e_rnamespace e)"

lemma take_result_rest [simp]:
  "e_rnamespace (take_result r e) = e_rnamespace e"
  "isImmediatePropagationStopped (take_result r e) = isImmediatePropagationStopped e"
  by (auto simp: take_result_def stopPropagation_def preventDefault_def split: option.split ret.split)

lemma ns_admits_cong: "e_rnamespace e1 = e_rnamespace e \<Longrightarrow> ns_admits e1 = ns_admits e"
  by (simp add: ns_admits_def fun_eq_iff)

lemma logged_call:
  "logged beh f elem e (w, made) = (case beh f elem e w of Inl x \<Rightarrow> Inl x | Inr (r, e1, w1) \<Rightarrow> Inr (r, e1, (w1, made @ [((elem, f), isPropagationStopped e, isImmediatePropagationStopped e)])))"
  by (simp add: logged_def split: sum.split prod.split)

lemma run_handlers_log:
  assumes "keeps_namespace beh"
  shows "run_handlers P (logged beh) elem hos e (w, made) = Inr (e', (w', made')) \<Longrightarrow>
    e_rnamespace e' = e_rnamespace e
    \<and> (\<exists>cs. made' = made @ cs \<and> prefix (map fst cs) (calls_of P e [(elem, hos)])
          \<and> (\<not> isImmediatePropagationStopped e' \<longrightarrow> map fst cs = calls_of P e [(elem, hos)])
          \<and> list_all (\<lambda>c. fst (fst c) = elem \<and> \<not> snd (snd c)) cs \<and> (cs \<noteq> [] \<longrightarrow> fst (snd (hd cs)) = isPropagationStopped e))"
proof (induction hos arbitrary: e w made)
  case (Cons ho hos)
  consider "isImmediatePropagationStopped e" | "\<not> isImmediatePropagationStopped e" "\<not> ns_admits e ho"
    | "\<not> isImmediatePropagationStopped e" "ns_admits e ho" by blast
  then show ?case
  proof cases
    case 1
    with Cons.prems show ?thesis by auto
  next
    case 2
    with Cons.prems Cons.IH[of e w made] show ?thesis by simp
  next
    case 3
    let ?e = "e\<lparr>e_handleObj := Some ho, e_data := ho_data ho\<rparr>"
    from 3 Cons.prems obtain r e1 w1 where call: "beh (fn_of P ho) elem ?e w = Inr (r, e1, w1)"
      and rest: "run_handlers P (logged beh) elem hos (take_result r e1) (w1, made @ [((elem, fn_of P ho), isPropagationStopped e, False)]) = Inr (e', (w', made'))"
      by (auto simp: logged_call fn_of_def[symmetric] split: sum.splits)
    have "e_rnamespace e1 = e_rnamespace ?e" using assms call unfolding keeps_namespace_def by blast
    then have ns: "e_rnamespace e1 = e_rnamespace e" by simp
    from Cons.IH[OF rest] obtain cs where "e_rnamespace e' = e_rnamespace e1" "made' = (made @ [((elem, fn_of P ho), isPropagationStopped e, False)]) @ cs"
        "prefix (map fst cs) (calls_of P (take_result r e1) [(elem, hos)])"
        "\<not> isImmediatePropagationStopped e' \<longrightarrow> map fst cs = calls_of P (take_result r e1) [(elem, hos)]"
        "list_all (\<lambda>c. fst (fst c) = elem \<and> \<not> snd (snd c)) cs"
      by auto
    moreover have "calls_of P (take_result r e1) [(elem, hos)] = calls_of P e [(elem, hos)]"
      using ns_admits_cong[of "take_result r e1" e] ns by simp
    ultimately show ?thesis using 3(2) ns by auto
  qed
qed auto

lemma stopped_handlers: "isImmediatePropagationStopped e \<Longrightarrow> run_handlers P b elem hos e w = Inr (e, w)"
  by (cases hos) simp_all

lemma stopped_queue:
  "isImmediatePropagationStopped e \<Longrightarrow> run_queue P (logged beh) queue e (w, made) = Inr (e', (w', made')) \<Longrightarrow>
   made' = made \<and> isImmediatePropagationStopped e'"
proof (induction queue arbitrary: e)
  case (Cons q queue)
  obtain elem hos where "q = (elem, hos)" by (cases q)
  with Cons.prems Cons.IH[of "e\<lparr>currentTarget := Some elem\<rparr>"] show ?case by (auto simp: stopped_handlers split: if_splits)
qed simp

lemma heeds_stops_append:
  assumes "list_all (\<lambda>c. fst (fst c) = elem \<and> \<not> snd (snd c)) cs" "cs \<noteq> [] \<longrightarrow> \<not> fst (snd (hd cs))" "heeds_stops ds"
  shows "heeds_stops (cs @ ds)"
proof -
  have "successively (\<lambda>c d. fst (snd d) \<longrightarrow> fst (fst d) = fst (fst c)) cs"
    using assms(1) by (induction cs rule: induct_list012) auto
  then have "successively (\<lambda>c d. fst (snd d) \<longrightarrow> fst (fst d) = fst (fst c)) (cs @ ds)"
    using assms(3) by (auto simp: heeds_stops_def successively_append_iff)
  then show ?thesis using assms by (auto simp: heeds_stops_def list_all_iff hd_append)
qed

lemma run_queue_log:
  assumes "keeps_namespace beh"
  shows "run_queue P (logged beh) queue e (w, made) = Inr (e', (w', made')) \<Longrightarrow>
    \<exists>cs. made' = made @ cs \<and> prefix (map fst cs) (calls_of P e queue) \<and> heeds_stops cs
      \<and> (\<not> isPropagationStopped e' \<and> \<not> isImmediatePropagationStopped e' \<longrightarrow> map fst cs = calls_of P e queue)"
proof (induction queue arbitrary: e w made)
  case (Cons q queue)
  obtain elem hos where q: "q = (elem, hos)" by (cases q)
  show ?case
  proof (cases "isPropagationStopped e")
    case True
    with Cons.prems q show ?thesis by (auto simp: heeds_stops_def)
  next
    case False
    let ?e = "e\<lparr>currentTarget := Some elem\<rparr>"
    from False Cons.prems q obtain e1 w1 made1 where hd: "run_handlers P (logged beh) elem hos ?e (w, made) = Inr (e1, (w1, made1))"
      and tl: "run_queue P (logged beh) queue e1 (w1, made1) = Inr (e', (w', made'))"
      by (auto split: sum.splits)
    from run_handlers_log[OF assms hd] obtain cs where cs: "e_rnamespace e1 = e_rnamespace e" "made1 = made @ cs"
        "prefix (map fst cs) (calls_of P ?e [(elem, hos)])" "\<not> isImmediatePropagationStopped e1 \<longrightarrow> map fst cs = calls_of P ?e [(elem, hos)]"
        "list_all (\<lambda>c. fst (fst c) = elem \<and> \<not> snd (snd c)) cs" "cs \<noteq> [] \<longrightarrow> \<not> fst (snd (hd cs))"
      using False by auto
    from Cons.IH[OF tl] obtain ds where ds: "made' = made1 @ ds" "prefix (map fst ds) (calls_of P e1 queue)" "heeds_stops ds"
        "\<not> isPropagationStopped e' \<and> \<not> isImmediatePropagationStopped e' \<longrightarrow> map fst ds = calls_of P e1 queue" by blast
    have stops: "heeds_stops (cs @ ds)" by (rule heeds_stops_append[OF cs(5,6) ds(3)])
    have eqs: "calls_of P ?e [(elem, hos)] = calls_of P e [(elem, hos)]" "calls_of P e1 queue = calls_of P e queue"
      using ns_admits_cong[of ?e e] ns_admits_cong[OF cs(1)] by (simp_all add: calls_of_def)
    show ?thesis
    proof (cases "isImmediatePropagationStopped e1")
      case True
      then have "ds = [] \<and> isImmediatePropagationStopped e'" using stopped_queue[OF True tl] ds(1) by auto
      then show ?thesis using cs(2,3) ds(1) stops ns_admits_cong[of ?e e] by (auto simp: q)
    next
      case False
      then show ?thesis using cs(2,4) ds stops ns_admits_cong[of ?e e] by (intro exI[of _ "cs @ ds"]) (auto simp: q eqs)
    qed
  qed
qed (auto simp: heeds_stops_def)


text \<open>
  C22. The calls that an event makes are the planned ones, in their order, up to the point where the event is stopped: handlers
  that are attached or detached by the handlers themselves make no difference. After a handler stops the event, or returns
  false, no other element is called, and after it is stopped at once nothing is.
\<close>

theorem dispatch_order:
  assumes "events_ok P (evs w)" "contexts_agree (hl_handlers (handlers_for elem (e_type e) (evs w)))" "keeps_namespace beh"
    and "dispatch P (logged beh) (\<lambda>v. evs (fst v)) elem e (w, []) = Inr (e', (w', made))"
  shows "prefix (map fst made) (planned P elem e (hl_handlers (handlers_for elem (e_type e) (evs w))))
    \<and> heeds_stops made
    \<and> (\<not> isPropagationStopped e' \<and> \<not> isImmediatePropagationStopped e'
        \<longrightarrow> map fst made = planned P elem e (hl_handlers (handlers_for elem (e_type e) (evs w))))"
proof -
  let ?e = "e\<lparr>delegateTarget := Some elem\<rparr>" and ?hs = "handlers_for elem (e_type e) (evs w)"
  have "run_queue P (logged beh) (event_handlers P elem ?e ?hs) ?e (w, []) = Inr (e', (w', made))"
    using assms(4) by (simp add: dispatch_def Let_def)
  from run_queue_log[OF assms(3) this] event_handlers_planned[OF handlers_for_ok[OF assms(1)] assms(2), of P ?e elem]
  have "prefix (map fst made) (planned P elem ?e (hl_handlers ?hs)) \<and> heeds_stops made
    \<and> (\<not> isPropagationStopped e' \<and> \<not> isImmediatePropagationStopped e' \<longrightarrow> map fst made = planned P elem ?e (hl_handlers ?hs))" by auto
  moreover have "planned P elem ?e (hl_handlers ?hs) = planned P elem e (hl_handlers ?hs)"
    using ns_admits_cong[of ?e e] by (simp add: planned_def calls_of_def)
  ultimately show ?thesis by simp
qed


subsection \<open>Triggering\<close>

text \<open>
  What triggering needs of the world: the events, the type that is being triggered (\<open>jQuery.event.triggered\<close>) and the
  handlers in the \<open>on\<close> properties of elements.
\<close>

record tworld =
  tw_events :: events
  tw_triggered :: "string option"
  tw_on :: "nat \<Rightarrow> string \<Rightarrow> nat option"

definition focusMorph :: "string \<Rightarrow> bool" where
  "focusMorph s \<longleftrightarrow> s = ''focusinfocus'' \<or> s = ''focusoutblur''"

text \<open>The parents of a node, up to the one without a parent.\<close>

fun parents_from :: "ev_env \<Rightarrow> nat \<Rightarrow> nat option \<Rightarrow> nat list" where
  "parents_from P 0 cur = []"
| "parents_from P (Suc k) cur = (case cur of None \<Rightarrow> [] | Some n \<Rightarrow> n # parents_from P k (parentNode P n))"

definition bubble_type :: "ev_env \<Rightarrow> string \<Rightarrow> string" where
  "bubble_type P ty = (case delegateType (specials P ty) of Some t \<Rightarrow> if t \<noteq> [] then t else ty | None \<Rightarrow> ty)"

definition event_path :: "ev_env \<Rightarrow> bool \<Rightarrow> string \<Rightarrow> nat \<Rightarrow> nat list" where
  "event_path P onlyHandlers ty elem =
     elem # (if \<not> onlyHandlers \<and> \<not> noBubble (specials P ty) \<and> elem \<noteq> window P
             then let ups = parents_from P (Suc (node_count P)) (if focusMorph (bubble_type P ty @ ty) then Some elem else parentNode P elem)
                  in ups @ (if last (elem # ups) = document P then [window P] else [])
             else [])"

text \<open>The function that an element listens with: it discards the second event of a trigger.\<close>

definition event_handle :: "ev_env \<Rightarrow> 'x tworld_scheme behaviour \<Rightarrow> nat \<Rightarrow> event \<Rightarrow> 'x tworld_scheme \<Rightarrow> js_exn + (event \<times> 'x tworld_scheme)" where
  "event_handle P beh elem e w = (if tw_triggered w \<noteq> Some (e_type e) then dispatch P beh tw_events elem e w else Inr (e, w))"

text \<open>The handler in the \<open>on\<close> property of an element. There is none for a type with a colon.\<close>

definition on_handler :: "ev_env \<Rightarrow> string \<Rightarrow> nat \<Rightarrow> 'x tworld_scheme \<Rightarrow> nat option" where
  "on_handler P ty cur w = (if CHR '':'' \<notin> set ty \<and> accepts_data P cur then tw_on w cur ty else None)"

definition fire_at :: "ev_env \<Rightarrow> 'x tworld_scheme behaviour \<Rightarrow> string \<Rightarrow> nat \<Rightarrow> event \<Rightarrow> 'x tworld_scheme \<Rightarrow> js_exn + (event \<times> 'x tworld_scheme)" where
  "fire_at P beh ty cur e w =
     (case (if hs_at (tw_events w) cur (e_type e) \<noteq> None \<and> ev_handle (tw_events w) cur \<noteq> None then event_handle P beh cur e w else Inr (e, w)) of
        Inl x \<Rightarrow> Inl x
      | Inr (e1, w1) \<Rightarrow>
          (case on_handler P ty cur w1 of
             None \<Rightarrow> Inr (e1, w1)
           | Some f \<Rightarrow>
               (case beh f cur e1 w1 of
                  Inl x \<Rightarrow> Inl x
                | Inr (r, e2, w2) \<Rightarrow> Inr (if r = Some RFalse then preventDefault (e2\<lparr>e_result := r\<rparr>) else e2\<lparr>e_result := r\<rparr>, w2))))"

text \<open>The loop over the path: the first element has the type itself, the others the type that bubbles.\<close>

fun fire_path :: "ev_env \<Rightarrow> 'x tworld_scheme behaviour \<Rightarrow> string \<Rightarrow> bool \<Rightarrow> nat list \<Rightarrow> event \<Rightarrow> 'x tworld_scheme \<Rightarrow> js_exn + (event \<times> 'x tworld_scheme)" where
  "fire_path P beh ty first [] e w = Inr (e, w)"
| "fire_path P beh ty first (cur # path) e w =
     (if isPropagationStopped e then Inr (e, w)
      else case fire_at P beh ty cur (e\<lparr>e_type := if first then mapped_type P None ty else bubble_type P ty\<rparr>) w of
             Inl x \<Rightarrow> Inl x
           | Inr (e1, w1) \<Rightarrow> fire_path P beh ty False path e1 w1)"

text \<open>
  The default action: the method of the element that has the name of the event. It may throw, and then what comes after it is
  not done.
\<close>

definition default_action ::
  "ev_env \<Rightarrow> (nat \<Rightarrow> string \<Rightarrow> 'x tworld_scheme \<Rightarrow> js_exn option \<times> 'x tworld_scheme) \<Rightarrow> string \<Rightarrow> nat \<Rightarrow> nat \<Rightarrow> 'x tworld_scheme
     \<Rightarrow> js_exn option \<times> 'x tworld_scheme" where
  "default_action P native ty elem last_elem w =
     (if (case sp_default (specials P ty) of None \<Rightarrow> True | Some f \<Rightarrow> f last_elem elem) \<and> accepts_data P elem
         \<and> CHR '':'' \<notin> set ty \<and> has_method P elem ty \<and> elem \<noteq> window P
      then let tmp = tw_on w elem ty;
               w1 = w\<lparr>tw_on := (tw_on w)(elem := (tw_on w elem)(ty := None)), tw_triggered := Some ty\<rparr>
           in case native elem ty w1 of
                (Some x, w2) \<Rightarrow> (Some x, w2)
              | (None, w2) \<Rightarrow>
                  (None, w2\<lparr>tw_triggered := None,
                            tw_on := (case tmp of None \<Rightarrow> tw_on w2 | Some f \<Rightarrow> (tw_on w2)(elem := (tw_on w2 elem)(ty := Some f)))\<rparr>)
      else (None, w))"

definition new_event :: "string \<Rightarrow> nat \<Rightarrow> event" where
  "new_event ty target =
     \<lparr>e_type = ty, e_target = target, e_button = 0, e_relatedTarget = None, e_result = None, isDefaultPrevented = False,
      isPropagationStopped = False, isImmediatePropagationStopped = False, e_rnamespace = None, e_handleObj = None, e_data = None,
      delegateTarget = None, currentTarget = None, isTrigger = 0\<rparr>"

text \<open>\<open>jQuery.event.trigger\<close> with the type as a text, which may have namespaces.\<close>

definition event_trigger ::
  "ev_env \<Rightarrow> 'x tworld_scheme behaviour \<Rightarrow> (nat \<Rightarrow> string \<Rightarrow> 'x tworld_scheme \<Rightarrow> js_exn option \<times> 'x tworld_scheme) \<Rightarrow> bool \<Rightarrow> string \<Rightarrow> nat
     \<Rightarrow> 'x tworld_scheme \<Rightarrow> js_exn + (event option \<times> 'x tworld_scheme)" where
  "event_trigger P beh native onlyHandlers types elem w =
     (if node_type P elem = Some 3 \<or> node_type P elem = Some 8 then Inr (None, w)
      else if focusMorph (types @ (case tw_triggered w of None \<Rightarrow> ''undefined'' | Some t \<Rightarrow> t)) then Inr (None, w)
      else let ty = before_dot types;
               ns = (if CHR ''.'' \<in> set types then sort (split_dots (after_dot types)) else []);
               path = event_path P onlyHandlers ty elem
           in case (if join_dots ns = [] then Inr (\<lambda>n. True) else ns_regexp (newRegExp P) ns) of
                Inl x \<Rightarrow> Inl x
              | Inr test \<Rightarrow>
             (let e = (new_event ty elem)\<lparr>isTrigger := if onlyHandlers then 2 else 3,
                          e_rnamespace := if join_dots ns = [] then None else Some test\<rparr> in
              if \<not> onlyHandlers \<and> (case sp_trigger (specials P ty) of None \<Rightarrow> False | Some f \<Rightarrow> f elem) then Inr (None, w)
              else case fire_path P beh ty True path e w of
                     Inl x \<Rightarrow> Inl x
                   | Inr (e1, w1) \<Rightarrow>
                       (let e2 = e1\<lparr>e_type := ty\<rparr> in
                        if \<not> onlyHandlers \<and> \<not> isDefaultPrevented e2
                        then (case default_action P native ty elem (last path) w1 of
                                (Some x, w2) \<Rightarrow> Inl x
                              | (None, w2) \<Rightarrow> Inr (Some e2, w2))
                        else Inr (Some e2, w1))))"


text \<open>
  An exception in the method that is the default action leaves the type marked as triggered: from then on handlers are
  called for no event of that type, on any element.
\<close>

theorem default_action_throws:
  assumes "native elem ty (w\<lparr>tw_on := (tw_on w)(elem := (tw_on w elem)(ty := None)), tw_triggered := Some ty\<rparr>) = (Some x, w2)"
    and "tw_triggered w2 = Some ty"
    and "case sp_default (specials P ty) of None \<Rightarrow> True | Some f \<Rightarrow> f last_elem elem"
    and "accepts_data P elem" "CHR '':'' \<notin> set ty" "has_method P elem ty" "elem \<noteq> window P" "e_type e = ty"
  shows "default_action P native ty elem last_elem w = (Some x, w2) \<and> event_handle P beh cur e w2 = Inr (e, w2)"
  using assms by (simp add: default_action_def event_handle_def Let_def)

text \<open>A default action that returns clears the mark and puts the handler in the \<open>on\<close> property back.\<close>

lemma default_action_returns:
  assumes "default_action P native ty elem last_elem w = (None, w')" "has_method P elem ty" "accepts_data P elem" "CHR '':'' \<notin> set ty"
    "elem \<noteq> window P" "sp_default (specials P ty) = None"
  shows "tw_triggered w' = None" "tw_on w elem ty \<noteq> None \<Longrightarrow> tw_on w' elem ty = tw_on w elem ty"
  using assms by (auto simp: default_action_def Let_def split: prod.splits option.splits)

subsection \<open>Handlers that run once\<close>

text \<open>
  \<open>one\<close>: a new function \<open>g\<close> in place of \<open>f\<close>, with the number of \<open>f\<close>. It detaches itself from where the event was
  dispatched, then calls \<open>f\<close>.
\<close>

definition one_wrap :: "nat \<Rightarrow> nat \<Rightarrow> events \<Rightarrow> events" where
  "one_wrap f g s = (let s1 = give_guid f s in s1\<lparr>fn_guid := (fn_guid s1)(g := fn_guid s1 f)\<rparr>)"

fun on_each :: "ev_env \<Rightarrow> nat list \<Rightarrow> string \<Rightarrow> nat \<Rightarrow> nat option \<Rightarrow> string option \<Rightarrow> events \<Rightarrow> js_exn + events" where
  "on_each P [] types f data sel s = Inr s"
| "on_each P (elem # elems) types f data sel s =
     (case event_add P elem types (Fn f) data sel s of Inl x \<Rightarrow> Inl x | Inr s1 \<Rightarrow> on_each P elems types f data sel s1)"

text \<open>\<open>off\<close> with an event that is being dispatched.\<close>

definition off_type :: "handle_obj \<Rightarrow> string" where
  "off_type ho =
     (case ho_namespace ho of
        Some n \<Rightarrow> if n \<noteq> [] then ho_origType ho @ CHR ''.'' # n else ho_origType ho
      | None \<Rightarrow> ho_origType ho)"

definition off_event :: "ev_env \<Rightarrow> event \<Rightarrow> events \<Rightarrow> js_exn option \<times> events" where
  "off_event P e s =
     (case (e_handleObj e, delegateTarget e) of
        (Some ho, Some elem) \<Rightarrow> event_remove P elem (off_type ho) (Some (ho_handler ho)) (ho_selector ho) s
      | _ \<Rightarrow> (None, s))"

definition one_call :: "ev_env \<Rightarrow> nat \<Rightarrow> events behaviour \<Rightarrow> nat \<Rightarrow> event \<Rightarrow> events \<Rightarrow> js_exn + (ret option \<times> event \<times> events)" where
  "one_call P f beh elem e s = (case off_event P e s of (Some x, s1) \<Rightarrow> Inl x | (None, s1) \<Rightarrow> beh f elem e s1)"

lemma off_type_parts:
  assumes "dotless oty" "ho_origType ho = oty" "ho_namespace ho = Some (join_dots ns)" "sorted ns" "ns \<noteq> []" "list_all dotless ns"
  shows "before_dot (off_type ho) = oty" "after_dot (off_type ho) = join_dots ns" "namespaces_of (off_type ho) = ns"
proof -
  have dot: "before_dot (oty @ CHR ''.'' # r) = oty" "after_dot (oty @ CHR ''.'' # r) = r" for r
    using assms(1) by (induction oty) (auto simp: before_dot_def after_dot_def dotless_def)
  have plain: "before_dot oty = oty" "after_dot oty = []"
    using assms(1) by (induction oty) (auto simp: before_dot_def after_dot_def dotless_def)
  show "before_dot (off_type ho) = oty" and after: "after_dot (off_type ho) = join_dots ns"
    using assms(2,3) dot plain by (auto simp: off_type_def)
  show "namespaces_of (off_type ho) = ns"
    unfolding namespaces_of_def after using split_join[OF assms(5,6)] assms(4) by (simp add: sorted_sort_id)
qed

lemma token_alone:
  assumes "t \<noteq> []" "\<forall>c \<in> set t. \<not> html_space c"
  shows "event_tokens t = [t]"
proof (cases t)
  case (Cons c cs)
  with assms(2) have all: "takeWhile (\<lambda>c. \<not> html_space c) cs = cs" "dropWhile (\<lambda>c. \<not> html_space c) cs = []"
    by (simp_all add: takeWhile_eq_all_conv dropWhile_eq_Nil_conv)
  from Cons assms(2) show ?thesis by (simp add: event_tokens_def all)
qed (use assms(1) in simp)

lemma off_type_token:
  assumes "before_dot tok \<noteq> []" "\<forall>c \<in> set tok. \<not> html_space c"
    and "ho_origType ho = before_dot tok" "ho_namespace ho = Some (join_dots (namespaces_of tok))"
  shows "event_tokens (off_type ho) = [off_type ho]"
proof (rule token_alone)
  have "c = CHR ''.'' \<or> c \<in> set tok" if "c \<in> set (join_dots (namespaces_of tok))" for c
    using stored_chars[OF that] .
  moreover have "set (before_dot tok) \<subseteq> set tok" by (auto simp: before_dot_def dest: set_takeWhileD)
  ultimately have "set (off_type ho) \<subseteq> insert (CHR ''.'') (set tok)"
    unfolding off_type_def assms(3,4) by (auto split: if_splits)
  then show "\<forall>c \<in> set (off_type ho). \<not> html_space c" using assms(2) by (auto simp: html_space_def)
  show "off_type ho \<noteq> []" using assms(1,3,4) by (simp add: off_type_def)
qed

text \<open>
  A handler that was attached to run once is detached before it runs: whatever handlers there are, the one that the event is
  being dispatched to is no longer among those of its type.
\<close>

theorem off_event_detaches:
  assumes ok: "events_ok P s" "hooks_agree P"
    and ho: "ho = new_handle_obj P tok data f (fn_guid s f) sel None" "fn_guid s f \<noteq> 0"
    and tok: "before_dot tok \<noteq> []" "\<forall>c \<in> set tok. \<not> html_space c" "list_all plain_name (split_dots (after_dot tok))"
    and e: "e_handleObj e = Some ho" "delegateTarget e = Some elem"
  shows "\<exists>s'. off_event P e s = (None, s') \<and> ho \<notin> set (hl_handlers (handlers_for elem (ho_type ho) s'))"
proof -
  have fields: "ho_origType ho = before_dot tok" "ho_handler ho = f" "ho_guid ho = fn_guid s f" "ho_selector ho = sel"
    "ho_type ho = mapped_type P sel (before_dot tok)" "ho_namespace ho = Some (join_dots (namespaces_of tok))"
    by (simp_all add: ho(1) new_handle_obj_def)
  have "dotless (before_dot tok)" by (auto simp: dotless_def before_dot_def dest: set_takeWhileD)
  note parts = off_type_parts[OF this fields(1,6) _ namespaces_dotless(2,1)]
  have sorted: "sorted (namespaces_of tok)" by (simp add: namespaces_of_def)
  note clean = off_type_token[OF tok(1,2) fields(1,6)]
  have names: "split_dots (after_dot (off_type ho)) = namespaces_of tok"
    using parts(2)[OF sorted] split_join[OF namespaces_dotless(2,1)] by simp
  have plain: "list_all plain_name (split_dots (after_dot (off_type ho)))" using tok(3) by (simp add: names) (simp add: namespaces_of_def list_all_iff)
  then have "plain_types (off_type ho)" by (simp add: plain_types_def clean)
  from event_remove_strips[OF ok plain_ok[OF this], of sel elem "Some f"] clean parts(1)[OF sorted] tok(1) obtain s' where
    s': "event_remove P elem (off_type ho) (Some f) sel s = (None, s')" "strips P elem (token_removes P (Some (fn_guid s f)) sel (off_type ho)) s s'"
    by auto
  have "stored_ok ho" unfolding ho(1) by (rule new_handle_obj_stored[OF tok(2)])
  then have "token_removes P (Some (fn_guid s f)) sel (off_type ho) (ho_type ho) ho"
    unfolding token_removes_asks[OF plain \<open>stored_ok ho\<close>] asks_for_def names
    using parts(1)[OF sorted] fields ho(2) tok(1) by (simp add: handler_names_def ns_text_def split_join[OF namespaces_dotless(2,1)])
  with s' e fields show ?thesis by (auto simp: off_event_def strips_def hl_at_def)
qed

text \<open>
  The teardown hook is looked up for the type as it was asked for, the setup hook for the type it is mapped to: a delegate for focus that is
  attached and detached leaves the document listening for \<open>focusin\<close>, for good.
\<close>

theorem focus_delegate_leaks:
  assumes "specials P = jquery_specials Q" "\<not> has_focusin Q" "accepts_data P elem" "has_selector sel" "selector_ok P (the sel)"
    and "events_ok P s" "hs_at s elem ''focusin'' = None" "fn_guid s f \<noteq> 0"
  shows "\<exists>s1 s2. event_add P elem ''focus'' (Fn f) None sel s = Inr s1 \<and> event_remove P elem ''focus'' (Some f) sel s1 = (None, s2)
    \<and> hs_at s2 elem ''focusin'' = None \<and> captures s2 (ownerDocument P elem) ''focusin'' = Suc (captures s (ownerDocument P elem) ''focusin'')"
proof -
  have parts: "event_tokens ''focus'' = [''focus'']" "before_dot ''focus'' = ''focus''" "after_dot ''focus'' = []" by code_simp+
  have focus: "specials P ''focus'' = native_special Q ''focus'' (Some ''focusin'')" "specials P ''focusin'' = focusin_special"
    using assms(1,2) by (simp_all add: jquery_specials_def)
  have ty: "mapped_type P sel ''focus'' = ''focusin''" using assms(4) by (simp add: mapped_type_def focus native_special_def)
  let ?s0 = "init_events elem (give_guid f s)" and ?ho = "new_handle_obj P ''focus'' None f (fn_guid s f) sel None"
  let ?s1 = "add_one P elem None f (fn_guid s f) sel None (the (ev_handle ?s0 elem)) ''focus'' ?s0"
  have g: "fn_guid ?s0 f = fn_guid s f" "give_guid f s = s" using assms(8) by (simp_all add: give_guid_def init_events_def Let_def)
  have add: "event_add P elem ''focus'' (Fn f) None sel s = Inr ?s1"
    using assms(3,4,5) g by (simp add: event_add_def Let_def parts)
  have tab: "ev_events ?s0 elem \<noteq> None" by (simp add: init_events_def Let_def)
  have nat: "setup_native P elem ''focusin'' = None" by (simp add: setup_native_def focus focusin_special_def)
  have at1: "hs_at ?s1 elem ''focusin'' = Some (insert_handler sel ?ho \<lparr>hl_handlers = [], delegateCount = 0\<rparr>)"
    using add_one_at[OF tab, of P None f "fn_guid s f" sel None "the (ev_handle ?s0 elem)" "''focus''" elem "''focusin''"] assms(7) nat
    by (simp add: parts ty base_list_def)
  have ev1: "ev_events ?s1 elem \<noteq> None" using tab by simp
  have cap1: "captures ?s1 (ownerDocument P elem) ''focusin'' = Suc (captures s (ownerDocument P elem) ''focusin'')"
  proof -
    have "captures (put_handlers elem t hs w) = captures w" for t hs w by (simp add: put_handlers_def split: option.split)
    moreover have "captures ?s0 = captures s" by (simp add: init_events_def give_guid_def Let_def)
    ultimately show ?thesis using assms(7) by (simp add: add_one_def parts ty Let_def run_setup_def focus focusin_special_def no_special_def)
  qed
  have rem: "removes (\<lambda>n. True) False ''focus'' (Some (fn_guid s f)) sel ?ho"
    using assms(8) by (simp add: removes_def parts new_handle_obj_def)
  have ins: "insert_handler sel ?ho \<lparr>hl_handlers = [], delegateCount = 0\<rparr> = \<lparr>hl_handlers = [?ho], delegateCount = 1\<rparr>"
    using assms(4) by (simp add: insert_handler_def)
  have g1: "fn_guid ?s1 f = fn_guid s f"
    using add_one_guid[of P elem sel "''focus''" None f "fn_guid s f" None "the (ev_handle ?s0 elem)" ?s0] nat g by (simp add: parts ty)
  have down: "captures (run_teardown P elem ''focus'' t w) = captures w" for t w
    by (simp add: run_teardown_def focus native_special_def no_special_def unlisten_def split: option.split)
  have capp: "captures (put_handlers elem t hs w) = captures w" "captures (drop_type elem t w) = captures w" "captures (clean_events elem w) = captures w" for t hs w
    by (simp_all add: put_handlers_def drop_type_def clean_events_def split: option.split)
  let ?m = "remove_matching P (\<lambda>n. True) elem (Some (fn_guid s f)) sel False ''focus'' ?s1"
  have m: "hs_at ?m elem ''focusin'' = None" "captures ?m = captures ?s1"
    using at1 rem ev1 by (simp_all add: remove_matching_def parts ty ins Let_def down capp)
  have "event_remove P elem ''focus'' (Some f) sel ?s1 = (None, clean_events elem ?m)"
    unfolding event_remove_def if_not_P[OF ev1] using g1 by (simp add: parts remove_token_def remove_typed_def ns_filter_def cleaned_def)
  with add m cap1 show ?thesis by (auto simp: capp)
qed


subsection \<open>A document\<close>

text \<open>A document (0) with a body (1), a list (2) and an item (3), and the window (9). The list has a delegate and a handler of its own.\<close>

definition small_page :: ev_env where
  "small_page =
     \<lparr>node_type = (\<lambda>n. if n = 0 then Some 9 else if n < 9 then Some 1 else None), has_listeners = (\<lambda>n. True),
      parentNode = (\<lambda>n. if 0 < n \<and> n \<le> 3 then Some (n - 1) else None), node_count = 4, document = 0, ownerDocument = (\<lambda>n. 0), window = 9,
      has_method = (\<lambda>n ty. ty = ''focus''), is_disabled = (\<lambda>n. False), selector_ok = (\<lambda>sel. sel \<noteq> ''!''), needs_context = (\<lambda>sel. False),
      in_context = (\<lambda>sel this n. False), is_match = (\<lambda>sel this n. sel = ''li '' \<and> n = 3), newRegExp = (\<lambda>p. Inl SyntaxError),
      specials = jquery_specials \<lparr>checkable = (\<lambda>n. False), native_fn = (\<lambda>n ty. 20), enter_fn = (\<lambda>ty. 21), click_default = (\<lambda>n. True), has_focusin = False\<rparr>\<rparr>"

definition li_handler :: handle_obj where
  "li_handler = new_handle_obj small_page ''click.b.a'' None 7 1 (Some ''li'') None"

definition list_handler :: handle_obj where
  "list_handler = new_handle_obj small_page ''click.a'' None 8 2 None None"

definition attached :: events where
  "attached =
     \<lparr>jq_guid = 3, fn_guid = (\<lambda>f. if f = 7 then 1 else if f = 8 then 2 else 0),
      ev_events = [2 \<mapsto> [(''click'', \<lparr>hl_handlers = [li_handler, list_handler], delegateCount = 1\<rparr>)]],
      ev_handle = [2 \<mapsto> 0], next_handle = 1, listeners = [(2, ''click'', 0)], captures = (\<lambda>d t. 0),
      ev_global = [''click'']\<rparr>"

lemma small_page_agree: "hooks_agree small_page"
  by (rule jquery_specials_agree) (simp add: small_page_def)

lemma small_page_specials:
  "mapped_type small_page sel ''click'' = ''click''" "mapped_type small_page sel ''keyup'' = ''keyup''"
  "setup_listens small_page e ''click''" "setup_native small_page e ''click'' = None" "setup_native small_page e ''keyup'' = None"
  by (simp_all add: mapped_type_def setup_listens_def setup_native_def small_page_def jquery_specials_def click_special_def no_special_def)

lemma attached_at: "hs_at attached e t = (if e = 2 \<and> t = ''click'' then Some \<lparr>hl_handlers = [li_handler, list_handler], delegateCount = 1\<rparr> else None)"
  by (simp add: hs_at_def attached_def)

lemma attached_selectors: "ho_selector li_handler = Some ''li''" "ho_selector list_handler = None" "ho_guid li_handler = 1" "ho_guid list_handler = 2"
  by (simp_all add: li_handler_def list_handler_def new_handle_obj_def)

lemma attached_ok: "events_ok small_page attached"
proof -
  have "list_ok \<lparr>hl_handlers = [li_handler, list_handler], delegateCount = 1\<rparr>"
    by (simp add: list_ok_def has_selector_def attached_selectors)
  moreover have "(ev_events attached e = None) = (ev_handle attached e = None)" for e by (simp add: attached_def)
  moreover have "((e, t, h) \<in> set (listeners attached)) = (ev_handle attached e = Some h \<and> hs_at attached e t \<noteq> None \<and> setup_listens small_page e t)" for e t h
    by (auto simp: attached_at small_page_specials) (auto simp: attached_def)
  moreover have "has_listeners small_page e" for e by (simp add: small_page_def)
  ultimately show ?thesis unfolding events_ok_def attached_at by auto
qed

theorem events_invariant_witness:
  "events_ok small_page
     (fold (event_step small_page)
        [EventAdd 2 ''click.b.a keyup'' (Fn 7) None (Some ''li''), EventAdd 2 ''click'' (Fn 8) None None, EventRemove 2 ''.a'' None None] no_events)"
  using events_invariant[OF small_page_agree] .

lemma attached_stored: "ho \<in> set (hl_handlers (handlers_for e t attached)) \<Longrightarrow> stored_ok ho"
  using new_handle_obj_stored[of "''click.b.a''"] new_handle_obj_stored[of "''click.a''"]
  by (auto simp: handlers_for_def attached_at li_handler_def list_handler_def html_space_def split: if_splits)

theorem event_remove_exact_witness:
  "\<exists>s'. event_remove small_page 2 ''click.b'' None None attached = (None, s') \<and> hl_handlers (handlers_for 2 ''click'' s') = [list_handler]"
proof -
  have own: "list_all (\<lambda>tok. before_dot tok \<noteq> []) (event_tokens ''click.b'')" "plain_types ''click.b''" by code_simp+
  have toks: "event_tokens ''click.b'' = [''click.b'']" "before_dot ''click.b'' = ''click''" "after_dot ''click.b'' = ''b''"
    "split_dots ''b'' = [''b'']" by code_simp+
  have names: "handler_names li_handler = [''a'', ''b'']" "handler_names list_handler = [''a'']"
    "ho_origType li_handler = ''click''" "ho_origType list_handler = ''click''" by code_simp+
  have asks: "asks_for small_page None None ''click.b'' ''click'' li_handler" "\<not> asks_for small_page None None ''click.b'' ''click'' list_handler"
    by (simp_all add: asks_for_def toks names small_page_specials has_selector_def)
  have "\<forall>ty. \<forall>ho \<in> set (hl_handlers (handlers_for 2 ty attached)). stored_ok ho" using attached_stored by blast
  from event_remove_exact[OF attached_ok small_page_agree own(2) disjI2[OF own(1)] this, of None None] obtain s' where
    s': "event_remove small_page 2 ''click.b'' None None attached = (None, s')"
    "hl_handlers (handlers_for 2 ''click'' s') = filter (\<lambda>ho. \<not> asks_for small_page None None ''click.b'' ''click'' ho)
       (hl_handlers (handlers_for 2 ''click'' attached))"
    by (auto simp: toks)
  have "hl_handlers (handlers_for 2 ''click'' attached) = [li_handler, list_handler]" by (simp add: handlers_for_def attached_at)
  with s' asks show ?thesis by simp
qed

theorem event_add_remove_witness:
  "\<exists>s1 s2. event_add small_page 2 ''click.x keyup'' (Fn 5) None (Some ''li'') attached = Inr s1
     \<and> event_remove small_page 2 ''click.x keyup'' (Some 5) (Some ''li'') s1 = (None, s2)
     \<and> hl_handlers (handlers_for 2 ''click'' s2) = [li_handler, list_handler]"
proof -
  have "\<exists>s1. event_add small_page 2 ''click.x keyup'' (Fn 5) None (Some ''li'') attached = Inr s1"
    by (simp add: event_add_def accepts_data_def acceptData_def small_page_def Let_def)
  then obtain s1 where s1: "event_add small_page 2 ''click.x keyup'' (Fn 5) None (Some ''li'') attached = Inr s1" ..
  have "fn_guid attached 5 = 0" "0 < jq_guid attached" by (simp_all add: attached_def)
  moreover have "\<forall>e t. \<forall>ho \<in> set (hl_handlers (handlers_for e t attached)). ho_guid ho \<noteq> jq_guid attached"
    by (simp add: handlers_for_def attached_at attached_selectors) (simp add: attached_def)
  moreover have "list_all (\<lambda>tok. before_dot tok \<noteq> []) (event_tokens ''click.x keyup'')" "plain_types ''click.x keyup''" by code_simp+
  moreover have "event_tokens ''click.x keyup'' = [''click.x'', ''keyup'']" "before_dot ''click.x'' = ''click''" "before_dot ''keyup'' = ''keyup''"
    by code_simp+
  then have "no_native small_page 2 (Some ''li'') (event_tokens ''click.x keyup'')" by (simp add: no_native_def small_page_specials)
  ultimately show ?thesis
    using event_add_remove[OF attached_ok small_page_agree _ _ _ _ _ _ s1] s1
    by (fastforce simp: handlers_for_def[of _ _ attached] attached_at)
qed

theorem dispatch_order_witness:
  "\<exists>e' made. dispatch small_page (logged (\<lambda>f elem e w. Inr (None, e, w))) (\<lambda>v. fst v) 2 (new_event ''click'' 3) (attached, []) = Inr (e', (attached, made))
     \<and> map fst made = [(3, 7), (2, 8)] \<and> heeds_stops made"
proof -
  let ?run = "dispatch small_page (logged (\<lambda>f elem e w. Inr (None, e, w))) (\<lambda>v. id (fst v)) 2 (new_event ''click'' 3) (attached, [])"
  have run: "\<exists>e' made. ?run = Inr (e', (attached, made)) \<and> \<not> isPropagationStopped e' \<and> \<not> isImmediatePropagationStopped e'"
    by (simp add: dispatch_def handlers_for_def attached_at Let_def new_event_def event_handlers_def small_page_def numeral_eq_Suc
        delegates_at_def logged_call ns_admits_def take_result_def li_handler_def list_handler_def new_handle_obj_def)
  have "keeps_namespace (\<lambda>f elem e (w :: events). Inr (None, e, w))" by (simp add: keeps_namespace_def)
  moreover have "contexts_agree [li_handler, list_handler]" by code_simp
  moreover have "planned small_page 2 (new_event ''click'' 3) [li_handler, list_handler] = [(3, 7), (2, 8)]" by code_simp
  ultimately show ?thesis
    using run dispatch_order[of small_page id attached 2 "new_event ''click'' 3" "\<lambda>f elem e w. Inr (None, e, w)"] attached_ok
    by (fastforce simp: handlers_for_def attached_at new_event_def)
qed


definition quiet_world :: tworld where
  "quiet_world = \<lparr>tw_events = attached, tw_triggered = None, tw_on = (\<lambda>n ty. None)\<rparr>"

theorem default_action_throws_witness:
  "\<exists>w2. default_action small_page (\<lambda>elem ty w. (Some TypeError, w)) ''focus'' 3 9 quiet_world = (Some TypeError, w2)
     \<and> event_handle small_page (\<lambda>f elem e w. Inr (Some RFalse, e, w)) 2 (new_event ''focus'' 3) w2 = Inr (new_event ''focus'' 3, w2)"
proof -
  let ?w2 = "quiet_world\<lparr>tw_on := (tw_on quiet_world)(3 := (tw_on quiet_world 3)(''focus'' := None)), tw_triggered := Some ''focus''\<rparr>"
  have "accepts_data small_page 3" "has_method small_page 3 ''focus''" "sp_default (specials small_page ''focus'') = None" "window small_page = 9"
    by (simp_all add: accepts_data_def acceptData_def small_page_def no_special_def jquery_specials_def native_special_def)
  then show ?thesis
    using default_action_throws[where native = "\<lambda>elem ty w. (Some TypeError, w)" and elem = 3 and ty = "''focus''" and w = quiet_world
        and x = TypeError and ?w2.0 = ?w2 and P = small_page and last_elem = 9 and e = "new_event ''focus'' 3"
        and beh = "\<lambda>f elem e w. Inr (Some RFalse, e, w)" and cur = 2]
    by (intro exI[of _ ?w2]) (simp add: new_event_def)
qed

theorem off_event_detaches_witness:
  "\<exists>s'. off_event small_page ((new_event ''click'' 3)\<lparr>e_handleObj := Some li_handler, delegateTarget := Some 2\<rparr>) attached = (None, s')
     \<and> li_handler \<notin> set (hl_handlers (handlers_for 2 (ho_type li_handler) s'))"
proof -
  have ho: "li_handler = new_handle_obj small_page ''click.b.a'' None 7 (fn_guid attached 7) (Some ''li'') None"
    by (simp add: li_handler_def attached_def)
  have guid: "fn_guid attached 7 \<noteq> 0" by (simp add: attached_def)
  have tok: "before_dot ''click.b.a'' \<noteq> []" "\<forall>c \<in> set ''click.b.a''. \<not> html_space c"
    "list_all plain_name (split_dots (after_dot ''click.b.a''))" by code_simp+
  show ?thesis by (rule off_event_detaches[OF attached_ok small_page_agree ho guid tok]) simp_all
qed

end
