(* ===== verification/Spec2Isabelle.thy ===== *)
theory Spec2Isabelle
  imports SVT_Validation Sig_Policy Doc_Tables Doc_Page Doc_Menu JQ_Queue JQ_Ajax UI_Position UI_Autocomplete JQ_Object JQ_Event
begin

text \<open>
  A verification of the signature validation library \<open>sig-validation-base\<close> and of the scripts of its
  published documentation.

  \<^bold>\<open>The program.\<close> The repository's own program is a set of Java modules: \<open>cert-validation\<close> (revocation
  data, certificate status, certificate paths), \<open>sigval-commons\<close> (algorithms, signature validation tokens),
  \<open>sigval-pdf\<close>, \<open>sigval-xml\<close> and \<open>sigval-jose\<close> (one module for each kind of signed document), \<open>sigval-report\<close> and
  \<open>cert-extensions\<close>. All JavaScript of the repository is in \<open>docs/javadoc\<close>: the scripts that the documentation tool puts
  beside the pages of each module (\<open>search.js\<close>, \<open>search-page.js\<close>, \<open>script.js\<close>) and the libraries jQuery and jQuery UI that
  they use, in identical copies for every module. The theories below refer to the copy of \<open>sigval-commons\<close>.

  \<^bold>\<open>How the parts interact.\<close> A signature validator asks a certificate validator for the path of the
  signer's certificate; that builds a path (a library), then checks the status of each certificate by OCSP and
  CRL; CRLs come from one of two caches; the tokens that answer are themselves checked against a path. A
  signature validation token replaces the checks by a signed statement about earlier ones. A PDF signature
  counts for the whole document only if the later revisions change nothing that matters. In the
  documentation the search field searches the indexes and shows its results through the autocomplete widget, which owns a
  menu, which is placed next to the field; the widgets rest on jQuery's data, queues, callback lists and classes.

  \<^bold>\<open>Theories of the Java code.\<close>
  \<^item> \<open>JavaBase\<close>: prelude. Exceptions, a state and exception monad with a weakest precondition calculus and rules for
    frames (\<open>jwp\<close>, \<open>keeps\<close>), strings, wrap-around of \<open>int\<close> and \<open>long\<close>.
  \<^item> \<open>CertModel\<close>: certificates and \<open>CertUtils\<close>, \<open>ValidationStatus\<close>. \<open>CRLModel\<close>: CRLs, the choice of a distribution point.
  \<^item> \<open>Cache_Mem\<close>, \<open>Cache_File\<close>: \<open>InMemoryCRLCache\<close> and \<open>CRLCacheImpl\<close> with the file system as state.
  \<^item> \<open>CRL_Checker\<close>, \<open>OCSP_Checker\<close>: \<open>CRLValidityChecker\<close>, \<open>OCSPCertificateVerifier\<close>.
  \<^item> \<open>Status_Check\<close>, \<open>Status_Threads\<close>: \<open>BasicCertificateValidityChecker\<close> and \<open>BasicValidityPathChecker\<close>; threads are a step
    relation in which results arrive in any order.
  \<^item> \<open>Path_Validation\<close>: \<open>CertificatePathValidator\<close>, \<open>BasicPathBuilder\<close>, \<open>StatusCheckingCertificateValidatorImpl\<close>.
  \<^item> \<open>Algorithms\<close>, \<open>SVA_Utils\<close>, \<open>SVT_Validation\<close>: the registries, \<open>SVAUtils\<close>, \<open>SVTUtils\<close>, \<open>JOSESVTValidator\<close> and \<open>XMLSVTValidator\<close>.
  \<^item> \<open>PDF_Objects\<close>, \<open>PDF_Context\<close>: \<open>ObjectValue\<close> and its parts; \<open>DefaultPDFSignatureContext\<close>.
  \<^item> \<open>Time_Stamp\<close>: \<open>TimeStamp\<close>, \<open>BasicTimstampPolicyVerifier\<close>. \<open>Sig_Policy\<close>: the basic and PKIX signature policies, and the steps from
    the certificate to the policy of \<open>XMLSignatureElementValidatorImpl\<close> and \<open>PDFSingleSignatureValidatorImpl\<close>.

  \<^bold>\<open>Theories of the scripts.\<close>
  \<^item> \<open>JSBase\<close>: prelude. Results that throw or do not return, strings and arrays of JavaScript.
  \<^item> \<open>Doc_Search\<close>, \<open>Doc_Menu\<close>: \<open>search.js\<close>. \<open>Doc_Page\<close>: \<open>search-page.js\<close>. \<open>Doc_Tables\<close>: \<open>script.js\<close>.
  \<^item> \<open>JQ_Callbacks\<close>, \<open>JQ_Data\<close>, \<open>JQ_Queue\<close>, \<open>JQ_Class\<close>, \<open>JQ_Ajax\<close>: \<open>jQuery.Callbacks\<close>, \<open>Data\<close>, \<open>queue\<close> and \<open>dequeue\<close>, the methods for
    classes, and the choice and conversion of responses of \<open>jquery-3.5.1.js\<close>.
  \<^item> \<open>JQ_Object\<close>: a heap of objects with prototypes; \<open>extend\<close>, \<open>isPlainObject\<close>, \<open>isEmptyObject\<close> and \<open>$.widget.extend\<close>.
  \<^item> \<open>JQ_Event\<close>: \<open>jQuery.event\<close> (\<open>add\<close>, \<open>remove\<close>, \<open>dispatch\<close>, \<open>handlers\<close>, \<open>trigger\<close>), \<open>one\<close> and \<open>off\<close> with an event. The state holds the
    tables of handlers of the elements, the numbers of functions, the native listeners and the counts of the elements for which a document listens. The table
    of special events is a parameter, and the one that jQuery comes with a value of it; setup and teardown hooks are modelled with what they do. \<open>JQ_Regexp\<close>: the
    regular expressions that are made from namespaces, with their matching; what a pattern from a name with syntax characters does is left
    to the engine.
  \<^item> \<open>UI_Position\<close>, \<open>UI_Menu\<close>, \<open>UI_Autocomplete\<close>: \<open>position\<close>, the menu widget and the autocomplete widget of \<open>jquery-ui.js\<close>.

  \<^bold>\<open>How code becomes definitions.\<close> Fields of an object are a record, operations are functions that return the changed
  record with a result or an exception; a record that is extended carries the variables of a widget that owns another. What is
  not in the repository is a parameter: cryptography, ASN.1, the PKIX provider, network and clock (fields of an
  environment, answers at a tick of a counter), the measures of the browser, the callbacks of users of a library. Strings of
  the scripts use the letters of the ASCII range for case and character classes.

  \<^bold>\<open>What the lemmas show.\<close> For the Java code: an accepted path has a signed, valid and current status for every
  certificate below the anchor, in both modes and for every order of arrival; what the file cache serves was downloaded
  from an address of an accepted distribution point of the certificate, in this call or an earlier one, and the cache recovers; the verdict of the CRL and OCSP checks, exactly; a token is
  accepted only with a validated signing certificate and claims about this very signature, and the weaknesses that
  remain (the result of the signature verification of a token is not used); the scan of a PDF finds every end marker, and a
  signature that covers the whole document is followed only by revisions that move permitted objects and, where they move
  the root, keep or add its entries other than the form; a verified time stamp stands for its data
  and an accepted signer; a signature ends as a success under the PKIX policy only with a path whose certificates are
  valid or revoked after the time stamps, except that enforced validation of XML signatures overlooks revoked
  certificates. For the scripts: the search
  returns the best results of each category and ends, except on the inputs that are characterised; the search page
  survives every sequence of events; tables are sorted; the libraries implement promises, a queue with one running
  effect and sets of class names; chains of conversions end; fitting keeps an element in its area; a click selects once; the
  suggestions shown are those of the latest request, in whatever order answers arrive, and the loading sign is exact as long as no request is answered twice; a deep copy
  ends on every source without cycles, shares nothing with it and never writes a prototype; handlers are called in
  the order of the document, delegates first, and what is attached with names free of syntax characters can be detached exactly; elements listen to the types that they have handlers
  for, but for those whose hooks listen elsewhere.

  \<^bold>\<open>Interfaces.\<close> Locales state what one part asks of another, and are interpreted on the definitions: the certificate
  validator for tokens (on the status checking validator), the CRL cache, \<open>signature_policy\<close> (on the PKIX policies and the basic one), \<open>settle_once\<close> (callback lists made with once
  and memory), \<open>data_store\<close> (both data objects), \<open>name_set\<close> (class strings), \<open>menu_steps\<close>, \<open>menu_owner\<close> and
  \<open>ac_steps\<close> (the handlers of the events of a menu and of the field that owns it).

  \<^bold>\<open>Bounds and termination.\<close> Loops that always end are functions with a measure. The loops that may not
  end are partial functions or carry a depth: the order of a certificate chain, the checks of responders (\<open>d\<close> levels, with a
  lemma that \<open>d\<close> above the rank of a certificate is enough when the responders can be ranked), \<open>findMatch\<close> of the search, the loop over a
  firing callback list, the recursion of a deep copy (with a lemma for each: when it ends, or that it does not). Where an operation climbs the lists around a menu item, the number of nodes is the bound: every step
  uses another node.

  \<^bold>\<open>Not modelled.\<close> The verification of signature values and attributes of PDF, XML and JOSE signatures and the
  orchestration above the parts named here, issuing of tokens and reports, certificate extensions and HTTP connectors: they are mostly calls of
  libraries whose objects are not in the repository. Of the scripts: the selector engine, effects, styles and changes
  of the document of jQuery; the factory of widgets; minified and duplicate files. Logging is left out everywhere.
\<close>

end
